(* ===== verification/Prelude.thy ===== *)
theory Prelude
  imports Main "HOL-Library.Word" "HOL-Library.List_Lexorder" "HOL-Library.Char_ord"
begin

text \<open>
  Shared vocabulary of the development.

  The C++ code is modelled as it is built by the repository's CMake file when no build type
  is given: a Release build, in which \<open>assert\<close> expands to nothing. What an assertion would
  have checked appears as a hypothesis of the theorems that need it.

  A C++ call that may throw, may read outside an object or may loop is a value of type
  \<open>(exn + 'a) option\<close> (\<open>'a res\<close>): \<open>None\<close> is "does not return", \<open>Some (Inl e)\<close> is "leaves
  with exception \<open>e\<close>", \<open>Some (Inr x)\<close> is "returns \<open>x\<close>". Undefined behaviour that the
  source can reach (a null pointer dereference, an out-of-bounds read) is the exception
  value \<open>UndefinedBehaviour\<close>, so that it is a visible branch and never a silent default.
\<close>

named_theorems codec_intros \<open>introduction rules: an encoder/decoder pair meets its contract\<close>
named_theorems inv_intros \<open>an operation keeps a component's invariant\<close>
named_theorems frame_simps \<open>fields an operation leaves alone\<close>

section \<open>C strings\<close>

text \<open>
  A \<open>const char*\<close> points into a buffer of characters; what \<open>strlen\<close>, \<open>strcmp\<close> and
  \<open>std::string(const char*)\<close> see is the part before the first NUL.
\<close>

definition NUL :: char where
  "NUL = CHR 0x00"

definition c_str :: "string \<Rightarrow> string" where
  "c_str s = takeWhile (\<lambda>c. c \<noteq> NUL) s"

definition nul_free :: "string \<Rightarrow> bool" where
  "nul_free s \<longleftrightarrow> NUL \<notin> set s"

lemma c_str_id: "nul_free s \<Longrightarrow> c_str s = s"
  by (auto simp: c_str_def nul_free_def takeWhile_eq_all_conv)

lemma c_str_nul_free [simp]: "nul_free (c_str s)"
  by (auto simp: c_str_def nul_free_def dest: set_takeWhileD)

lemma c_str_idem [simp]: "c_str (c_str s) = c_str s"
  by (simp add: c_str_id)

lemma c_str_append_NUL: "nul_free s \<Longrightarrow> c_str (s @ NUL # t) = s"
  by (induction s) (auto simp: c_str_def nul_free_def)

lemma c_str_Nil [simp]: "c_str [] = []"
  by (simp add: c_str_def)

lemma nul_free_Nil [simp]: "nul_free []"
  by (simp add: nul_free_def)

lemma nul_free_Cons [simp]: "nul_free (x # xs) \<longleftrightarrow> x \<noteq> NUL \<and> nul_free xs"
  by (auto simp: nul_free_def)

lemma nul_free_append [simp]: "nul_free (xs @ ys) \<longleftrightarrow> nul_free xs \<and> nul_free ys"
  by (auto simp: nul_free_def)

text \<open>
  \<open>strcpy(p + off, src)\<close> on an allocated array: the characters of \<open>src\<close> and a NUL,
  \<open>None\<close> when the array is too short (the write would leave it).
\<close>

definition strcpy_at :: "string \<Rightarrow> nat \<Rightarrow> string \<Rightarrow> string option" where
  "strcpy_at buf off src =
     (let s = c_str src @ [NUL] in
      if off + length s \<le> length buf
      then Some (take off buf @ s @ drop (off + length s) buf) else None)"

lemma strcpy_at_length: "strcpy_at buf off src = Some buf' \<Longrightarrow> length buf' = length buf"
  by (auto simp: strcpy_at_def Let_def split: if_splits)

lemma strcpy_at_reads:
  "strcpy_at buf off src = Some buf' \<Longrightarrow> c_str (drop off buf') = c_str src"
  by (auto simp: strcpy_at_def Let_def c_str_append_NUL split: if_splits)

lemma strcpy_at_keeps:
  "strcpy_at buf off src = Some buf' \<Longrightarrow> take off buf' = take off buf"
  by (auto simp: strcpy_at_def Let_def split: if_splits)

section \<open>Lists\<close>

text \<open>\<open>std::find_if\<close> over a sequence, as a lookup.\<close>

lemma find_Some_nth:
  "List.find P xs = Some x \<longleftrightarrow> (\<exists>i<length xs. x = xs ! i \<and> P x \<and> (\<forall>j<i. \<not> P (xs ! j)))"
  by (auto simp: find_Some_iff)

text \<open>The first element with a property, given that exactly one has it.\<close>

lemma find_unique:
  assumes "x \<in> set xs" "P x" "\<And>y. y \<in> set xs \<Longrightarrow> P y \<Longrightarrow> y = x"
  shows "List.find P xs = Some x"
proof -
  have "List.find P xs \<noteq> None"
    using assms(1,2) by (auto simp: find_None_iff)
  then obtain y where y: "List.find P xs = Some y"
    by auto
  then have "y \<in> set xs" "P y"
    by (auto simp: find_Some_iff)
  with assms(3) y show ?thesis by simp
qed

lemma last_update_before: "Suc i < length xs \<Longrightarrow> last (xs[i := x]) = last xs"
  by (cases "xs = []") (auto simp: last_list_update)

lemma remove1_filter_unique:
  "distinct xs \<Longrightarrow> remove1 x xs = filter (\<lambda>y. y \<noteq> x) xs"
  by (induction xs) (auto simp: filter_id_conv intro: filter_True [symmetric])

end
