(* ===== verification/ErrorObj.thy ===== *)
theory ErrorObj
  imports Prelude
begin

text \<open>
  The exception classes: \<open>simppl::dbus::Error\<close> (\<open>include/simppl/error.h\<close>, \<open>src/error.cpp\<close>)
  with its packed name-and-message buffer, \<open>RuntimeError\<close>, and the sum \<open>exn\<close> of everything
  a call of the library may throw. \<open>rbind\<close> sequences calls: a thrown exception and a
  call that does not return end the computation.
\<close>

section \<open>Error: one heap block holding name and message\<close>

text \<open>
  \<open>name_and_message_\<close> is the heap block (\<open>None\<close> is the null pointer), \<open>message_\<close> a pointer into
  it, kept as the offset from its start.
\<close>

record error_obj =
  name_and_message :: "string option"
  message_ptr :: "nat option"
  err_serial :: "32 word"

definition SIMPPL_INVALID_SERIAL :: "32 word" where
  "SIMPPL_INVALID_SERIAL = 0"

text \<open>\<open>Error::Error()\<close>\<close>

definition Error_default :: error_obj where
  "Error_default = \<lparr>name_and_message = None, message_ptr = None, err_serial = SIMPPL_INVALID_SERIAL\<rparr>"

text \<open>
  \<open>Error::set_members\<close>. \<open>junk\<close> is what the freshly allocated array holds. A result of
  \<open>None\<close> is a write outside the array.
\<close>

definition Error_capacity :: "string \<Rightarrow> string option \<Rightarrow> nat" where
  "Error_capacity name msg =
     length (c_str name) + 1 +
     (case msg of None \<Rightarrow> 0 | Some m \<Rightarrow> if length (c_str m) > 0 then length (c_str m) + 1 else 0)"

definition set_members ::
  "(nat \<Rightarrow> char) \<Rightarrow> string \<Rightarrow> string option \<Rightarrow> 32 word \<Rightarrow> error_obj \<Rightarrow> error_obj option" where
  "set_members junk name msg serial e =
     (let buf = map junk [0..<Error_capacity name msg] in
      case strcpy_at buf 0 name of
        None \<Rightarrow> None
      | Some buf1 \<Rightarrow>
          (case msg of
             Some m \<Rightarrow>
               if length (c_str m) > 0 then
                 let off = length (c_str name) + 1 in
                 (case strcpy_at buf1 off m of
                    None \<Rightarrow> None
                  | Some buf2 \<Rightarrow>
                      Some (e\<lparr>name_and_message := Some buf2, message_ptr := Some off, err_serial := serial\<rparr>))
               else Some (e\<lparr>name_and_message := Some buf1,
                           message_ptr := Some (length (c_str buf1)), err_serial := serial\<rparr>)
           | None \<Rightarrow> Some (e\<lparr>name_and_message := Some buf1,
                           message_ptr := Some (length (c_str buf1)), err_serial := serial\<rparr>)))"

text \<open>\<open>Error::Error(name, msg, serial)\<close>\<close>

definition Error_new ::
  "(nat \<Rightarrow> char) \<Rightarrow> string \<Rightarrow> string option \<Rightarrow> 32 word \<Rightarrow> error_obj option" where
  "Error_new junk name msg serial =
     set_members junk name msg serial
       \<lparr>name_and_message = None, message_ptr = None, err_serial = SIMPPL_INVALID_SERIAL\<rparr>"

text \<open>\<open>Error::Error(Error&&)\<close>: the new object and what is left of the source.\<close>

definition Error_move :: "error_obj \<Rightarrow> error_obj \<times> error_obj" where
  "Error_move rhs =
     (\<lparr>name_and_message = name_and_message rhs, message_ptr = message_ptr rhs,
       err_serial = err_serial rhs\<rparr>,
      rhs\<lparr>name_and_message := None, message_ptr := None, err_serial := 0\<rparr>)"

text \<open>\<open>Error::name\<close> and \<open>Error::what\<close> return the block, \<open>Error::message\<close> the pointer into it.\<close>

definition Error_name :: "error_obj \<Rightarrow> string option" where
  "Error_name e = map_option c_str (name_and_message e)"

definition Error_what :: "error_obj \<Rightarrow> string option" where
  "Error_what e = map_option c_str (name_and_message e)"

definition Error_message :: "error_obj \<Rightarrow> string" where
  "Error_message e =
     (case (message_ptr e, name_and_message e) of
        (Some off, Some buf) \<Rightarrow> c_str (drop off buf)
      | _ \<Rightarrow> [])"

text \<open>\<open>Error::make_reply_for\<close>: the arguments of \<open>dbus_message_new_error\<close>.\<close>

definition make_reply_for :: "error_obj \<Rightarrow> string option \<Rightarrow> string option \<times> string" where
  "make_reply_for e class_name =
     ((case class_name of Some n \<Rightarrow> Some n | None \<Rightarrow> Error_name e), Error_message e)"

lemma capacity_fits:
  "strcpy_at (map junk [0..<Error_capacity name msg]) 0 name \<noteq> None"
  by (simp add: strcpy_at_def Error_capacity_def Let_def)

lemma set_members_plain:
  assumes "msg = None \<or> (\<exists>m. msg = Some m \<and> c_str m = [])"
  shows "\<exists>e'. set_members junk name msg serial e = Some e' \<and>
    Error_name e' = Some (c_str name) \<and> Error_message e' = [] \<and> err_serial e' = serial"
proof -
  obtain buf1 where b: "strcpy_at (map junk [0..<Error_capacity name msg]) 0 name = Some buf1"
    using capacity_fits by blast
  have r: "c_str buf1 = c_str name"
    using strcpy_at_reads [OF b] by simp
  have "buf1 = c_str name @ NUL # drop (length (c_str name) + 1) (map junk [0..<Error_capacity name msg])"
    using b by (auto simp: strcpy_at_def Let_def split: if_splits)
  then have d: "c_str (drop (length (c_str name)) buf1) = []"
    by (simp add: c_str_def)
  from assms show ?thesis
  proof
    assume "msg = None"
    with b r d show ?thesis
      by (simp add: set_members_def Let_def Error_name_def Error_message_def)
  next
    assume "\<exists>m. msg = Some m \<and> c_str m = []"
    with b r d show ?thesis
      by (auto simp: set_members_def Let_def Error_name_def Error_message_def)
  qed
qed

lemma set_members_text:
  assumes "c_str m \<noteq> []"
  shows "\<exists>e'. set_members junk name (Some m) serial e = Some e' \<and>
    Error_name e' = Some (c_str name) \<and> Error_message e' = c_str m \<and> err_serial e' = serial"
proof -
  let ?cap = "Error_capacity name (Some m)" and ?off = "length (c_str name) + 1"
  have cap: "?cap = ?off + length (c_str m) + 1"
    using assms by (simp add: Error_capacity_def)
  obtain buf1 where b1: "strcpy_at (map junk [0..<?cap]) 0 name = Some buf1"
    using capacity_fits by blast
  have l1: "length buf1 = ?cap"
    using strcpy_at_length [OF b1] by simp
  then obtain buf2 where b2: "strcpy_at buf1 ?off m = Some buf2"
    by (auto simp: strcpy_at_def Let_def cap)
  have "take ?off buf1 = c_str name @ [NUL]"
    using b1 by (auto simp: strcpy_at_def Let_def split: if_splits)
  then have "take ?off buf2 = c_str name @ [NUL]"
    using strcpy_at_keeps [OF b2] by simp
  then have "buf2 = c_str name @ NUL # drop ?off buf2"
    by (metis append.assoc append_Cons append_Nil append_take_drop_id)
  then have n: "c_str buf2 = c_str name"
    by (metis c_str_append_NUL c_str_nul_free)
  have "c_str (drop ?off buf2) = c_str m"
    by (rule strcpy_at_reads [OF b2])
  with assms b1 b2 n show ?thesis
    by (simp add: set_members_def Let_def Error_name_def Error_message_def)
qed

lemma set_members_ok:
  "\<exists>e'. set_members junk name msg serial e = Some e' \<and>
    Error_name e' = Some (c_str name) \<and>
    Error_message e' = (case msg of None \<Rightarrow> [] | Some m \<Rightarrow> c_str m) \<and> err_serial e' = serial"
proof (cases msg)
  case None
  then show ?thesis using set_members_plain [of None junk name serial e] by simp
next
  case (Some m)
  show ?thesis
  proof (cases "c_str m = []")
    case True
    with Some show ?thesis using set_members_plain [of "Some m" junk name serial e] by auto
  next
    case False
    with Some show ?thesis using set_members_text [of m junk name serial e] by auto
  qed
qed

section \<open>RuntimeError\<close>

text \<open>A \<open>DBusError\<close> filled in by libdbus: its name and message.\<close>

record dbus_error =
  de_name :: string
  de_message :: string

record runtime_error =
  what_arg :: string
  re_error :: dbus_error

definition format_what :: "string \<Rightarrow> dbus_error \<Rightarrow> string" where
  "format_what action err = action @ '': '' @ de_name err @ de_message err"

definition RuntimeError_new :: "string \<Rightarrow> dbus_error \<Rightarrow> runtime_error" where
  "RuntimeError_new action err = \<lparr>what_arg = format_what action err, re_error = err\<rparr>"

section \<open>Calls that may throw\<close>

datatype exn =
    DecoderError
  | ErrorExn error_obj
  | RuntimeErrorExn runtime_error
  | StdRuntimeError string
  | BadAnyCast
  | BadFunctionCall
  | BadVariantAccess
  | UserExn nat
  | UndefinedBehaviour

type_synonym 'a res = "(exn + 'a) option"

definition ret :: "'a \<Rightarrow> 'a res" where
  "ret x = Some (Inr x)"

definition throw :: "exn \<Rightarrow> 'a res" where
  "throw e = Some (Inl e)"

definition rbind :: "'a res \<Rightarrow> ('a \<Rightarrow> 'b res) \<Rightarrow> 'b res" where
  "rbind m f = Option.bind m (\<lambda>r. case r of Inl e \<Rightarrow> Some (Inl e) | Inr x \<Rightarrow> f x)"

lemma rbind_simps [simp]:
  "rbind None f = None"
  "rbind (Some (Inl e)) f = Some (Inl e)"
  "rbind (Some (Inr x)) f = f x"
  "rbind (throw e) f = throw e"
  "rbind (ret x) f = f x"
  by (simp_all add: rbind_def throw_def ret_def)

lemma ret_throw [simp]:
  "ret x = ret y \<longleftrightarrow> x = y"
  "throw e = throw e' \<longleftrightarrow> e = e'"
  "ret x \<noteq> throw e"
  "throw e \<noteq> ret x"
  "ret x \<noteq> None"
  "throw e \<noteq> None"
  by (simp_all add: ret_def throw_def)

lemma rbind_eq_ret: "rbind m f = ret y \<longleftrightarrow> (\<exists>x. m = ret x \<and> f x = ret y)"
  by (cases m) (auto simp: rbind_def ret_def split: sum.splits)

lemma rbind_eq_Some:
  "rbind m f = Some y \<longleftrightarrow> (\<exists>e. m = throw e \<and> y = Inl e) \<or> (\<exists>x. m = ret x \<and> f x = Some y)"
  by (cases m) (auto simp: rbind_def ret_def throw_def split: sum.splits)

lemma res_cases [case_names diverges throws returns]:
  obtains "m = None" | e where "m = throw e" | x where "m = ret x"
  by (cases m) (metis throw_def ret_def sum.exhaust)+

lemma rbind_assoc: "rbind (rbind m f) g = rbind m (\<lambda>x. rbind (f x) g)"
  by (cases m) (auto simp: rbind_def split: sum.splits)

lemma rbind_mono [partial_function_mono]:
  assumes "mono_option B" and "\<And>y. mono_option (C y)"
  shows "mono_option (\<lambda>f. rbind (B f) (\<lambda>y. C y f))"
  unfolding rbind_def
proof (rule bind_mono [OF assms(1)])
  fix y :: "exn + 'c"
  show "mono_option (\<lambda>f. case y of Inl e \<Rightarrow> Some (Inl e) | Inr x \<Rightarrow> C x f)"
    by (cases y) (simp_all add: assms(2) option.const_mono)
qed

end
