(* ===== verification/DBusIter.thy ===== *)
theory DBusIter
  imports ErrorObj
begin

text \<open>
  libdbus is not part of the repository. Its message iterators are a parameter of the model:
  the record \<open>dbus_iter_api\<close> holds the functions \<open>dbus_message_iter_*\<close> the code calls, over an
  abstract type \<open>'w\<close> of appending iterators and \<open>'r\<close> of reading iterators, and every encoder and
  decoder of the model takes that record as an argument. What the code relies on is the
  locale \<open>dbus_iter\<close>: the documented behaviour of these functions, stated through the values
  appended so far (\<open>wv\<close>), the container being written (\<open>wk\<close>) and the values still to be read
  (\<open>rv\<close>). At the end a list-based implementation shows that the laws can hold together.
\<close>

section \<open>Values of the D-Bus type system\<close>

text \<open>
  Payloads of \<open>dbus_message_iter_append_basic\<close>/\<open>get_basic\<close>: the machine value behind the
  \<open>void*\<close>, with the width the type code says. A double is its 64 bits.
\<close>

datatype basic =
    BByte "8 word" | BBoolean "32 word"
  | BInt16 "16 word" | BUint16 "16 word"
  | BInt32 "32 word" | BUint32 "32 word"
  | BInt64 "64 word" | BUint64 "64 word"
  | BDouble "64 word"
  | BString string | BObjectPath string
  | BUnixFd "32 word"

abbreviation "DBUS_TYPE_INVALID \<equiv> CHR 0x00"
abbreviation "DBUS_TYPE_BYTE \<equiv> CHR ''y''"
abbreviation "DBUS_TYPE_BOOLEAN \<equiv> CHR ''b''"
abbreviation "DBUS_TYPE_INT16 \<equiv> CHR ''n''"
abbreviation "DBUS_TYPE_UINT16 \<equiv> CHR ''q''"
abbreviation "DBUS_TYPE_INT32 \<equiv> CHR ''i''"
abbreviation "DBUS_TYPE_UINT32 \<equiv> CHR ''u''"
abbreviation "DBUS_TYPE_INT64 \<equiv> CHR ''x''"
abbreviation "DBUS_TYPE_UINT64 \<equiv> CHR ''t''"
abbreviation "DBUS_TYPE_DOUBLE \<equiv> CHR ''d''"
abbreviation "DBUS_TYPE_STRING \<equiv> CHR ''s''"
abbreviation "DBUS_TYPE_OBJECT_PATH \<equiv> CHR ''o''"
abbreviation "DBUS_TYPE_UNIX_FD \<equiv> CHR ''h''"
abbreviation "DBUS_TYPE_ARRAY \<equiv> CHR ''a''"
abbreviation "DBUS_TYPE_VARIANT \<equiv> CHR ''v''"
abbreviation "DBUS_TYPE_STRUCT \<equiv> CHR ''r''"
abbreviation "DBUS_TYPE_DICT_ENTRY \<equiv> CHR ''e''"

fun basic_code :: "basic \<Rightarrow> char" where
  "basic_code (BByte _) = DBUS_TYPE_BYTE"
| "basic_code (BBoolean _) = DBUS_TYPE_BOOLEAN"
| "basic_code (BInt16 _) = DBUS_TYPE_INT16"
| "basic_code (BUint16 _) = DBUS_TYPE_UINT16"
| "basic_code (BInt32 _) = DBUS_TYPE_INT32"
| "basic_code (BUint32 _) = DBUS_TYPE_UINT32"
| "basic_code (BInt64 _) = DBUS_TYPE_INT64"
| "basic_code (BUint64 _) = DBUS_TYPE_UINT64"
| "basic_code (BDouble _) = DBUS_TYPE_DOUBLE"
| "basic_code (BString _) = DBUS_TYPE_STRING"
| "basic_code (BObjectPath _) = DBUS_TYPE_OBJECT_PATH"
| "basic_code (BUnixFd _) = DBUS_TYPE_UNIX_FD"

text \<open>
  One complete value of a message. A container keeps its type code, the signature of its
  contents (arrays and variants, else empty) and its elements.
\<close>

datatype dval = Basic basic | Cont char string "dval list"

fun dtype :: "dval \<Rightarrow> char" where
  "dtype (Basic b) = basic_code b"
| "dtype (Cont t _ _) = t"

fun dsig :: "dval \<Rightarrow> string" where
  "dsig (Basic b) = [basic_code b]"
| "dsig (Cont t s vs) =
     (if t = DBUS_TYPE_ARRAY then ''a'' @ s
      else if t = DBUS_TYPE_VARIANT then ''v''
      else if t = DBUS_TYPE_DICT_ENTRY then ''{'' @ concat (map dsig vs) @ ''}''
      else ''('' @ concat (map dsig vs) @ '')'')"

text \<open>What libdbus requires of a container's contents when it is closed.\<close>

fun is_basic :: "dval \<Rightarrow> bool" where
  "is_basic (Basic _) = True"
| "is_basic (Cont _ _ _) = False"

definition container_ok :: "char \<Rightarrow> string option \<Rightarrow> dval list \<Rightarrow> bool" where
  "container_ok t s vs \<longleftrightarrow>
     (t = DBUS_TYPE_ARRAY \<and> s \<noteq> None \<and> list_all (\<lambda>v. dsig v = the s) vs) \<or>
     (t = DBUS_TYPE_VARIANT \<and> s \<noteq> None \<and> length vs = 1 \<and> list_all (\<lambda>v. dsig v = the s) vs) \<or>
     (t = DBUS_TYPE_STRUCT \<and> s = None \<and> vs \<noteq> []) \<or>
     (t = DBUS_TYPE_DICT_ENTRY \<and> s = None \<and> length vs = 2 \<and> is_basic (hd vs))"

text \<open>A well-formed value: what libdbus delivers after validating a message.\<close>

fun wf_dval :: "dval \<Rightarrow> bool" where
  "wf_dval (Basic b) = True"
| "wf_dval (Cont t s vs) =
     (container_ok t (if t = DBUS_TYPE_ARRAY \<or> t = DBUS_TYPE_VARIANT then Some s else None) vs
      \<and> list_all wf_dval vs)"

lemma wf_dval_type:
  "wf_dval (Cont t s vs) \<Longrightarrow>
     t \<in> {DBUS_TYPE_ARRAY, DBUS_TYPE_VARIANT, DBUS_TYPE_STRUCT, DBUS_TYPE_DICT_ENTRY}"
  by (auto simp: container_ok_def)

lemma wf_dval_valid: "wf_dval v \<Longrightarrow> dtype v \<noteq> DBUS_TYPE_INVALID"
proof (cases v)
  case (Basic b)
  then show ?thesis by (cases b) auto
next
  case (Cont t s vs)
  moreover assume "wf_dval v"
  ultimately show ?thesis using wf_dval_type [of t s vs] by auto
qed

text \<open>The type code of a well-formed value says whether it is a container.\<close>

lemma wf_dval_container:
  assumes "dtype v \<in> {DBUS_TYPE_ARRAY, DBUS_TYPE_VARIANT, DBUS_TYPE_STRUCT, DBUS_TYPE_DICT_ENTRY}"
  shows "\<exists>s cs. v = Cont (dtype v) s cs"
proof (cases v)
  case (Basic b)
  with assms show ?thesis by (cases b) auto
next
  case (Cont t s cs)
  then show ?thesis by simp
qed

lemma wf_dval_basic:
  assumes "wf_dval v"
    and "dtype v \<notin> {DBUS_TYPE_ARRAY, DBUS_TYPE_VARIANT, DBUS_TYPE_STRUCT, DBUS_TYPE_DICT_ENTRY}"
  shows "\<exists>b. v = Basic b \<and> basic_code b = dtype v"
proof (cases v)
  case (Basic b)
  then show ?thesis by simp
next
  case (Cont t s cs)
  with assms wf_dval_type [of t s cs] show ?thesis by auto
qed

definition cont_sig :: "string option \<Rightarrow> string" where
  "cont_sig s = (case s of None \<Rightarrow> [] | Some g \<Rightarrow> g)"

lemma cont_sig_simps [simp]: "cont_sig None = []" "cont_sig (Some g) = g"
  by (simp_all add: cont_sig_def)

section \<open>The functions of libdbus that the code calls\<close>

record ('w, 'r) dbus_iter_api =
  append_basic :: "'w \<Rightarrow> char \<Rightarrow> basic \<Rightarrow> 'w"
  open_container :: "'w \<Rightarrow> char \<Rightarrow> string option \<Rightarrow> 'w"
  close_container :: "'w \<Rightarrow> 'w \<Rightarrow> 'w"
  append_fixed_array :: "'w \<Rightarrow> char \<Rightarrow> 8 word list \<Rightarrow> 'w"
  get_arg_type :: "'r \<Rightarrow> char"
  iter_recurse :: "'r \<Rightarrow> 'r"
  iter_get_basic :: "'r \<Rightarrow> basic"
  iter_next :: "'r \<Rightarrow> 'r"
  get_signature :: "'r \<Rightarrow> string"
  get_element_count :: "'r \<Rightarrow> nat"
  get_fixed_array :: "'r \<Rightarrow> 8 word list"

definition byte_values :: "dval list \<Rightarrow> 8 word list" where
  "byte_values vs = concat (map (\<lambda>v. case v of Basic (BByte b) \<Rightarrow> [b] | _ \<Rightarrow> []) vs)"

lemma byte_values_map [simp]: "byte_values (map (\<lambda>b. Basic (BByte b)) bs) = bs"
  by (induction bs) (auto simp: byte_values_def)

text \<open>
  \<open>bvalid\<close> says which payloads libdbus accepts: valid UTF-8, a well-formed object path, an
  open descriptor.
\<close>

locale dbus_iter =
  fixes L :: "('w, 'r) dbus_iter_api"
    and bvalid :: "basic \<Rightarrow> bool"
    and wk :: "'w \<Rightarrow> char \<times> string option"
    and wv :: "'w \<Rightarrow> dval list"
    and rv :: "'r \<Rightarrow> dval list"
  assumes append_basic_vals:
      "bvalid b \<Longrightarrow> t = basic_code b \<Longrightarrow> wv (append_basic L w t b) = wv w @ [Basic b]"
    and append_basic_ctx: "wk (append_basic L w t b) = wk w"
    and open_vals: "wv (open_container L w t s) = []"
    and open_ctx: "wk (open_container L w t s) = (t, s)"
    and close_vals:
      "wk sub = (t, s) \<Longrightarrow> container_ok t s (wv sub) \<Longrightarrow>
        wv (close_container L w sub) = wv w @ [Cont t (cont_sig s) (wv sub)]"
    and close_ctx: "wk (close_container L w sub) = wk w"
    and fixed_vals:
      "wv (append_fixed_array L w DBUS_TYPE_BYTE bs) = wv w @ map (\<lambda>b. Basic (BByte b)) bs"
    and fixed_ctx: "wk (append_fixed_array L w t bs) = wk w"
    and arg_type_end: "rv r = [] \<Longrightarrow> get_arg_type L r = DBUS_TYPE_INVALID"
    and arg_type_val: "rv r = v # vs \<Longrightarrow> get_arg_type L r = dtype v"
    and recurse_vals: "rv r = Cont t g cs # vs \<Longrightarrow> rv (iter_recurse L r) = cs"
    and get_basic_val: "rv r = Basic b # vs \<Longrightarrow> iter_get_basic L r = b"
    and next_vals: "rv r = v # vs \<Longrightarrow> rv (iter_next L r) = vs"
    and next_end: "rv r = [] \<Longrightarrow> rv (iter_next L r) = []"
    and signature_val: "rv r = [v] \<Longrightarrow> get_signature L r = dsig v"
    and count_val: "rv r = Cont DBUS_TYPE_ARRAY g cs # vs \<Longrightarrow> get_element_count L r = length cs"
    and fixed_read:
      "\<forall>v \<in> set (rv r). dtype v = DBUS_TYPE_BYTE \<Longrightarrow> get_fixed_array L r = byte_values (rv r)"
begin

lemmas write_laws = append_basic_vals append_basic_ctx open_vals open_ctx close_ctx fixed_vals fixed_ctx

lemma close_array:
  "wk sub = (DBUS_TYPE_ARRAY, Some g) \<Longrightarrow> list_all (\<lambda>v. dsig v = g) (wv sub) \<Longrightarrow>
     wv (close_container L w sub) = wv w @ [Cont DBUS_TYPE_ARRAY g (wv sub)]"
  by (subst close_vals) (auto simp: container_ok_def)

lemma close_variant:
  "wk sub = (DBUS_TYPE_VARIANT, Some g) \<Longrightarrow> wv sub = [v] \<Longrightarrow> dsig v = g \<Longrightarrow>
     wv (close_container L w sub) = wv w @ [Cont DBUS_TYPE_VARIANT g [v]]"
  by (subst close_vals) (auto simp: container_ok_def)

lemma close_struct:
  "wk sub = (DBUS_TYPE_STRUCT, None) \<Longrightarrow> wv sub \<noteq> [] \<Longrightarrow>
     wv (close_container L w sub) = wv w @ [Cont DBUS_TYPE_STRUCT [] (wv sub)]"
  by (subst close_vals) (auto simp: container_ok_def)

lemma close_entry:
  "wk sub = (DBUS_TYPE_DICT_ENTRY, None) \<Longrightarrow> wv sub = [k, v] \<Longrightarrow> is_basic k \<Longrightarrow>
     wv (close_container L w sub) = wv w @ [Cont DBUS_TYPE_DICT_ENTRY [] [k, v]]"
  by (subst close_vals) (auto simp: container_ok_def)

end

section \<open>A list-based implementation of the parameter\<close>

text \<open>
  An appending iterator is its container context and the values appended; a reading iterator
  is the list of values left. It is used where a theorem's hypotheses are shown to hold at a
  concrete input.
\<close>

type_synonym ref_w = "(char \<times> string option) \<times> dval list"

definition ref_root :: ref_w where
  "ref_root = ((DBUS_TYPE_INVALID, None), [])"

definition ref_api :: "(ref_w, dval list) dbus_iter_api" where
  "ref_api = \<lparr>
     append_basic = (\<lambda>w t b. (fst w, snd w @ [Basic b])),
     open_container = (\<lambda>w t s. ((t, s), [])),
     close_container = (\<lambda>w sub. (fst w, snd w @ [Cont (fst (fst sub)) (cont_sig (snd (fst sub))) (snd sub)])),
     append_fixed_array = (\<lambda>w t bs. (fst w, snd w @ map (\<lambda>b. Basic (BByte b)) bs)),
     get_arg_type = (\<lambda>r. case r of [] \<Rightarrow> DBUS_TYPE_INVALID | v # _ \<Rightarrow> dtype v),
     iter_recurse = (\<lambda>r. case r of Cont _ _ cs # _ \<Rightarrow> cs | _ \<Rightarrow> []),
     iter_get_basic = (\<lambda>r. case r of Basic b # _ \<Rightarrow> b | _ \<Rightarrow> BByte 0),
     iter_next = (\<lambda>r. tl r),
     get_signature = (\<lambda>r. case r of [] \<Rightarrow> [] | v # _ \<Rightarrow> dsig v),
     get_element_count = (\<lambda>r. case r of Cont _ _ cs # _ \<Rightarrow> length cs | _ \<Rightarrow> 0),
     get_fixed_array = byte_values \<rparr>"

interpretation ref: dbus_iter ref_api "\<lambda>_. True" fst snd "\<lambda>r. r"
  by unfold_locales (auto simp: ref_api_def)

lemma ref_api_simps:
  "append_basic ref_api w t b = (fst w, snd w @ [Basic b])"
  "open_container ref_api w t s = ((t, s), [])"
  "close_container ref_api w sub = (fst w, snd w @ [Cont (fst (fst sub)) (cont_sig (snd (fst sub))) (snd sub)])"
  "get_arg_type ref_api r = (case r of [] \<Rightarrow> DBUS_TYPE_INVALID | v # _ \<Rightarrow> dtype v)"
  "iter_get_basic ref_api r = (case r of Basic b # _ \<Rightarrow> b | _ \<Rightarrow> BByte 0)"
  "iter_recurse ref_api r = (case r of Cont _ _ cs # _ \<Rightarrow> cs | _ \<Rightarrow> [])"
  "iter_next ref_api r = tl r"
  "get_signature ref_api r = (case r of [] \<Rightarrow> [] | v # _ \<Rightarrow> dsig v)"
  by (simp_all add: ref_api_def)

end
