(* ===== verification/Codec.thy ===== *)
theory Codec
  imports DBusIter
begin

unbundle bit_operations_syntax

text \<open>
  Codecs (\<open>include/simppl/serialization.h\<close>, \<open>src/serialization.cpp\<close>): the checked iterator
  access, the interface every \<open>Codec<T>\<close> offers (\<open>encode\<close>, \<open>decode\<close>,
  \<open>make_type_signature\<close>) and the contract it has to meet, and the codecs of the
  basic types (\<open>pod.h\<close>, \<open>bool\<close>, \<open>string\<close>, \<open>objectpath\<close>).
\<close>

section \<open>Checked iterator access\<close>

definition simppl_dbus_message_iter_recurse ::
  "('w, 'r) dbus_iter_api \<Rightarrow> 'r \<Rightarrow> char \<Rightarrow> 'r res" where
  "simppl_dbus_message_iter_recurse L it expected_type =
     (if get_arg_type L it \<noteq> expected_type then throw DecoderError
      else ret (iter_recurse L it))"

definition simppl_dbus_message_iter_get_basic ::
  "('w, 'r) dbus_iter_api \<Rightarrow> 'r \<Rightarrow> char \<Rightarrow> (basic \<times> 'r) res" where
  "simppl_dbus_message_iter_get_basic L it expected_type =
     (if get_arg_type L it \<noteq> expected_type then throw DecoderError
      else ret (iter_get_basic L it, iter_next L it))"

section \<open>The interface of a codec\<close>

record ('w, 'r, 'a) codec =
  enc :: "'w \<Rightarrow> 'a \<Rightarrow> 'w"
  dec :: "'r \<Rightarrow> ('a \<times> 'r) res"
  sgn :: string

text \<open>The type code of the values a signature describes.\<close>

definition sig_type :: "string \<Rightarrow> char" where
  "sig_type g = (case g of [] \<Rightarrow> DBUS_TYPE_INVALID
     | c # _ \<Rightarrow> if c = CHR ''('' then DBUS_TYPE_STRUCT
                else if c = CHR ''{'' then DBUS_TYPE_DICT_ENTRY else c)"

lemma sig_type_simps [simp]:
  "sig_type (CHR ''('' # g) = DBUS_TYPE_STRUCT"
  "sig_type (CHR ''{'' # g) = DBUS_TYPE_DICT_ENTRY"
  "sig_type (CHR ''a'' # g) = DBUS_TYPE_ARRAY"
  "sig_type (CHR ''v'' # g) = DBUS_TYPE_VARIANT"
  by (simp_all add: sig_type_def)

text \<open>
  The contract. \<open>cv x\<close> is the D-Bus value that stands for \<open>x\<close> and \<open>ok\<close> the values that
  have one. Encoding appends exactly that value, which has the announced signature; decoding
  it gives \<open>x\<close> back and consumes exactly it; a value of another type is a
  \<open>DecoderError\<close>.
\<close>

locale codec = dbus_iter L bvalid wk wv rv
  for L :: "('w, 'r) dbus_iter_api" and bvalid wk wv rv +
  fixes c :: "('w, 'r, 'a) codec" and ok :: "'a \<Rightarrow> bool" and cv :: "'a \<Rightarrow> dval"
  assumes enc_vals: "ok x \<Longrightarrow> wv (enc c w x) = wv w @ [cv x]"
    and enc_ctx: "ok x \<Longrightarrow> wk (enc c w x) = wk w"
    and cv_sig: "ok x \<Longrightarrow> dsig (cv x) = sgn c"
    and cv_wf: "ok x \<Longrightarrow> wf_dval (cv x)"
    and dec_vals: "ok x \<Longrightarrow> rv r = cv x # vs \<Longrightarrow> \<exists>r'. dec c r = ret (x, r') \<and> rv r' = vs"
    and dec_type: "get_arg_type L r \<noteq> sig_type (sgn c) \<Longrightarrow> dec c r = throw DecoderError"
begin

lemma cv_valid: "ok x \<Longrightarrow> dtype (cv x) \<noteq> DBUS_TYPE_INVALID"
  by (rule wf_dval_valid [OF cv_wf])

lemma enc_foldl:
  "list_all ok xs \<Longrightarrow> wv (foldl (enc c) w xs) = wv w @ map cv xs \<and> wk (foldl (enc c) w xs) = wk w"
  by (induction xs arbitrary: w) (auto simp: enc_vals enc_ctx)

end

text \<open>
  The second contract: on any well-formed message decoding returns, with exactly one value
  consumed or a \<open>DecoderError\<close>. It stands apart because the codec of an enumeration that is
  not four bytes wide meets the first one, having no value a message carries, but not this one.
\<close>

locale total_decoder = dbus_iter L bvalid wk wv rv
  for L :: "('w, 'r) dbus_iter_api" and bvalid wk wv rv +
  fixes c :: "('w, 'r, 'a) codec"
  assumes dec_total: "list_all wf_dval (rv r) \<Longrightarrow>
      dec c r = throw DecoderError \<or>
      (\<exists>x r'. dec c r = ret (x, r') \<and> rv r \<noteq> [] \<and> rv r' = tl (rv r))"

text \<open>A codec whose values may be the key of a dictionary entry.\<close>

locale key_codec = codec +
  assumes key_basic: "ok x \<Longrightarrow> is_basic (cv x)"

section \<open>Basic types\<close>

text \<open>
  Every basic type is encoded by \<open>append_basic\<close> with its code and decoded by
  \<open>simppl_dbus_message_iter_get_basic\<close>: \<open>mk\<close> is the payload a value is passed as, \<open>un\<close> the
  value read out of a payload.
\<close>

definition basic_codec ::
  "('w, 'r) dbus_iter_api \<Rightarrow> char \<Rightarrow> ('a \<Rightarrow> basic) \<Rightarrow> (basic \<Rightarrow> 'a) \<Rightarrow> ('w, 'r, 'a) codec" where
  "basic_codec L code mk un = \<lparr>
     enc = (\<lambda>w t. append_basic L w code (mk t)),
     dec = (\<lambda>it. rbind (simppl_dbus_message_iter_get_basic L it code) (\<lambda>(b, it'). ret (un b, it'))),
     sgn = [code]\<rparr>"

definition container_codes :: "char list" where
  "container_codes = [DBUS_TYPE_INVALID, DBUS_TYPE_ARRAY, DBUS_TYPE_VARIANT, DBUS_TYPE_STRUCT,
     DBUS_TYPE_DICT_ENTRY, CHR ''('', CHR ''{'']"

context dbus_iter begin

lemma basic_key_codec:
  assumes code: "\<And>x. ok x \<Longrightarrow> basic_code (mk x) = code" "code \<notin> set container_codes"
    and valid: "\<And>x. ok x \<Longrightarrow> bvalid (mk x)"
    and un: "\<And>x. ok x \<Longrightarrow> un (mk x) = x"
  shows "key_codec L bvalid wk wv rv (basic_codec L code mk un) ok (\<lambda>x. Basic (mk x))"
proof unfold_locales
  fix r x vs
  assume "ok x" "rv r = Basic (mk x) # vs"
  then show "\<exists>r'. dec (basic_codec L code mk un) r = ret (x, r') \<and> rv r' = vs"
    by (auto simp: basic_codec_def simppl_dbus_message_iter_get_basic_def arg_type_val
        get_basic_val next_vals code un)
qed (use code(2) in \<open>auto simp: basic_codec_def code(1) valid append_basic_vals append_basic_ctx
      simppl_dbus_message_iter_get_basic_def sig_type_def container_codes_def split: if_splits\<close>)

lemma basic_total:
  assumes "code \<notin> set container_codes"
  shows "total_decoder L bvalid wk wv rv (basic_codec L code mk un)"
proof unfold_locales
  fix r
  assume "list_all wf_dval (rv r)"
  then show "dec (basic_codec L code mk un) r = throw DecoderError \<or>
      (\<exists>x r'. dec (basic_codec L code mk un) r = ret (x, r') \<and> rv r \<noteq> [] \<and> rv r' = tl (rv r))"
    using assms
    by (cases "rv r") (auto simp: basic_codec_def simppl_dbus_message_iter_get_basic_def
        arg_type_end container_codes_def next_vals)
qed

end

subsection \<open>Plain old data (pod.h)\<close>

text \<open>
  The C++ scalar types. An enumeration is listed with the size of its underlying type,
  since \<open>EnumTypeCodeHelper\<close> maps every enumeration to a 32 bit integer.
\<close>

datatype scalar =
    Int8 | Uint8 | Int16 | Uint16 | Int32 | Uint32 | Int64 | Uint64 | Float | Double
  | Enumeration nat

fun typecode_switch :: "scalar \<Rightarrow> char option" where
  "typecode_switch Uint8 = Some DBUS_TYPE_BYTE"
| "typecode_switch Uint16 = Some DBUS_TYPE_UINT16"
| "typecode_switch Uint32 = Some DBUS_TYPE_UINT32"
| "typecode_switch Uint64 = Some DBUS_TYPE_UINT64"
| "typecode_switch Int8 = Some DBUS_TYPE_BYTE"
| "typecode_switch Int16 = Some DBUS_TYPE_INT16"
| "typecode_switch Int32 = Some DBUS_TYPE_INT32"
| "typecode_switch Int64 = Some DBUS_TYPE_INT64"
| "typecode_switch Double = Some DBUS_TYPE_DOUBLE"
| "typecode_switch Float = None"
| "typecode_switch (Enumeration n) = None"

fun is_enum :: "scalar \<Rightarrow> bool" where
  "is_enum (Enumeration n) = True"
| "is_enum k = False"

definition EnumTypeCodeHelper :: "scalar \<Rightarrow> bool \<Rightarrow> char option" where
  "EnumTypeCodeHelper k enum = (if enum then Some DBUS_TYPE_INT32 else typecode_switch k)"

definition pod_types :: "scalar list" where
  "pod_types = [Int8, Uint8, Int16, Uint16, Int32, Uint32, Int64, Uint64, Float, Double]"

definition isPod :: "scalar \<Rightarrow> bool" where
  "isPod k \<longleftrightarrow> k \<in> set pod_types"

text \<open>\<open>Codec<T>::deducer_type\<close>: \<open>True\<close> selects \<open>CodecImpl<T, Pod>\<close>.\<close>

definition deduces_pod :: "scalar \<Rightarrow> bool" where
  "deduces_pod k \<longleftrightarrow> isPod k \<or> is_enum k"

definition dbus_type_code :: "scalar \<Rightarrow> char option" where
  "dbus_type_code k = EnumTypeCodeHelper k (is_enum k)"

text \<open>
  The number of bytes libdbus reads from or writes to the \<open>void*\<close> for a type code, against
  the size of the C++ object behind it.
\<close>

fun sizeof_scalar :: "scalar \<Rightarrow> nat" where
  "sizeof_scalar Int8 = 1" | "sizeof_scalar Uint8 = 1"
| "sizeof_scalar Int16 = 2" | "sizeof_scalar Uint16 = 2"
| "sizeof_scalar Int32 = 4" | "sizeof_scalar Uint32 = 4" | "sizeof_scalar Float = 4"
| "sizeof_scalar Int64 = 8" | "sizeof_scalar Uint64 = 8" | "sizeof_scalar Double = 8"
| "sizeof_scalar (Enumeration n) = n"

definition wire_size :: "char \<Rightarrow> nat" where
  "wire_size t =
     (if t = DBUS_TYPE_BYTE then 1
      else if t = DBUS_TYPE_INT16 \<or> t = DBUS_TYPE_UINT16 then 2
      else if t = DBUS_TYPE_INT32 \<or> t = DBUS_TYPE_UINT32 then 4
      else 8)"

lemma pod_sizes:
  assumes "deduces_pod k" and "dbus_type_code k = Some t"
  shows "wire_size t = sizeof_scalar k \<longleftrightarrow> (\<forall>n. k = Enumeration n \<longrightarrow> n = 4)"
  using assms
  by (cases k) (auto simp: dbus_type_code_def EnumTypeCodeHelper_def wire_size_def)

lemma pod_code_exists:
  "deduces_pod k \<Longrightarrow> dbus_type_code k = None \<longleftrightarrow> k = Float"
  by (cases k) (auto simp: dbus_type_code_def EnumTypeCodeHelper_def)

text \<open>The instances the containers below use, over machine words of the type's width.\<close>

fun un_byte where "un_byte (BByte b) = b" | "un_byte _ = 0"
fun un_int16 where "un_int16 (BInt16 b) = b" | "un_int16 _ = 0"
fun un_uint16 where "un_uint16 (BUint16 b) = b" | "un_uint16 _ = 0"
fun un_int32 where "un_int32 (BInt32 b) = b" | "un_int32 _ = 0"
fun un_uint32 where "un_uint32 (BUint32 b) = b" | "un_uint32 _ = 0"
fun un_int64 where "un_int64 (BInt64 b) = b" | "un_int64 _ = 0"
fun un_uint64 where "un_uint64 (BUint64 b) = b" | "un_uint64 _ = 0"
fun un_double where "un_double (BDouble b) = b" | "un_double _ = 0"
fun un_boolean where "un_boolean (BBoolean b) = b" | "un_boolean _ = 0"
fun un_string where "un_string (BString s) = s" | "un_string _ = []"
fun un_object_path where "un_object_path (BObjectPath s) = s" | "un_object_path _ = []"
fun un_unix_fd where "un_unix_fd (BUnixFd b) = b" | "un_unix_fd _ = 0"

definition uint8_codec :: "('w, 'r) dbus_iter_api \<Rightarrow> ('w, 'r, 8 word) codec" where
  "uint8_codec L = basic_codec L DBUS_TYPE_BYTE BByte un_byte"

definition int32_codec :: "('w, 'r) dbus_iter_api \<Rightarrow> ('w, 'r, 32 word) codec" where
  "int32_codec L = basic_codec L DBUS_TYPE_INT32 BInt32 un_int32"

definition uint32_codec :: "('w, 'r) dbus_iter_api \<Rightarrow> ('w, 'r, 32 word) codec" where
  "uint32_codec L = basic_codec L DBUS_TYPE_UINT32 BUint32 un_uint32"

definition double_codec :: "('w, 'r) dbus_iter_api \<Rightarrow> ('w, 'r, 64 word) codec" where
  "double_codec L = basic_codec L DBUS_TYPE_DOUBLE BDouble un_double"

text \<open>
  \<open>append_basic\<close> and \<open>get_basic\<close> get the address of the C++ object and read or write as many
  bytes there as the type code says. Both agree with the size of the object except for
  enumerations: all of them go by \<open>DBUS_TYPE_INT32\<close>, whatever their underlying type. An object is
  the payload of its own width (\<open>BByte\<close>, \<open>BInt16\<close>, \<open>BInt32\<close> or \<open>BInt64\<close> for an enumeration), \<open>mem\<close>
  the memory around it: the bytes behind a narrower object, and what a wider one holds before
  it is decoded into (the lowest byte is stored first).

  \<^item> reading four bytes out of a narrower object adds bytes that are behind it, out of a
    wider one it leaves the upper half behind;
  \<^item> writing four bytes into a narrower object overwrites what is behind it, which is
    undefined; into a wider one it replaces the lower half.
\<close>

fun int32_at :: "64 word \<Rightarrow> basic \<Rightarrow> 32 word" where
  "int32_at mem (BByte b) = push_bit 8 (ucast mem) OR ucast b"
| "int32_at mem (BInt16 b) = push_bit 16 (ucast mem) OR ucast b"
| "int32_at mem (BInt32 b) = b"
| "int32_at mem (BInt64 b) = ucast b"
| "int32_at mem _ = 0"

definition pod_load :: "64 word \<Rightarrow> scalar \<Rightarrow> char \<Rightarrow> basic \<Rightarrow> basic" where
  "pod_load mem k code b =
     (if wire_size code = sizeof_scalar k then b else BInt32 (int32_at mem b))"

definition pod_store :: "64 word \<Rightarrow> scalar \<Rightarrow> char \<Rightarrow> basic \<Rightarrow> basic res" where
  "pod_store mem k code b =
     (if wire_size code = sizeof_scalar k then ret b
      else if sizeof_scalar k < wire_size code then throw UndefinedBehaviour
      else ret (BInt64 ((mem AND NOT (mask 32)) OR ucast (un_int32 b))))"

definition pod_codec ::
  "('w, 'r) dbus_iter_api \<Rightarrow> 64 word \<Rightarrow> scalar \<Rightarrow> ('a \<Rightarrow> basic) \<Rightarrow> (basic \<Rightarrow> 'a)
     \<Rightarrow> ('w, 'r, 'a) codec option" where
  "pod_codec L mem k mk un =
     (if deduces_pod k then map_option (\<lambda>code. \<lparr>
        enc = (\<lambda>w t. append_basic L w code (pod_load mem k code (mk t))),
        dec = (\<lambda>it. rbind (simppl_dbus_message_iter_get_basic L it code) (\<lambda>(b, it').
                rbind (pod_store mem k code b) (\<lambda>b. ret (un b, it')))),
        sgn = [code]\<rparr>) (dbus_type_code k)
      else None)"

lemma pod_codec_sized:
  assumes "deduces_pod k" and "dbus_type_code k = Some t" and "wire_size t = sizeof_scalar k"
  shows "pod_codec L mem k mk un = Some (basic_codec L t mk un)"
  using assms by (simp add: pod_codec_def basic_codec_def pod_load_def pod_store_def)

lemma pod_codec_instances:
  "pod_codec L mem Uint8 BByte un_byte = Some (uint8_codec L)"
  "pod_codec L mem Int32 BInt32 un_int32 = Some (int32_codec L)"
  "pod_codec L mem Uint32 BUint32 un_uint32 = Some (uint32_codec L)"
  "pod_codec L mem Double BDouble un_double = Some (double_codec L)"
  "pod_codec L mem (Enumeration 4) BInt32 un_int32 = Some (int32_codec L)"
  by (simp_all add: pod_codec_sized deduces_pod_def isPod_def pod_types_def dbus_type_code_def
      EnumTypeCodeHelper_def uint8_codec_def int32_codec_def uint32_codec_def double_codec_def wire_size_def)

text \<open>What an enumeration of another width gets.\<close>

lemma narrow_enum_decode:
  assumes "n < 4" and "pod_codec L mem (Enumeration n) mk un = Some c"
    and "get_arg_type L it = DBUS_TYPE_INT32"
  shows "dec c it = throw UndefinedBehaviour"
  using assms by (auto simp: pod_codec_def dbus_type_code_def EnumTypeCodeHelper_def deduces_pod_def
      pod_store_def wire_size_def simppl_dbus_message_iter_get_basic_def)

lemma wide_enum_truncated:
  assumes "pod_codec L mem (Enumeration 8) BInt64 un_int64 = Some c"
    and "get_arg_type L it = DBUS_TYPE_INT32" and "iter_get_basic L it = BInt32 x"
  shows "enc c w e = append_basic L w DBUS_TYPE_INT32 (BInt32 (ucast e))"
    and "dec c it = ret ((mem AND NOT (mask 32)) OR ucast x, iter_next L it)"
  using assms by (auto simp: pod_codec_def dbus_type_code_def EnumTypeCodeHelper_def deduces_pod_def
      pod_store_def pod_load_def wire_size_def simppl_dbus_message_iter_get_basic_def)

subsection \<open>bool.cpp, string.cpp, objectpath.cpp\<close>

definition BoolCodec_encode :: "('w, 'r) dbus_iter_api \<Rightarrow> 'w \<Rightarrow> bool \<Rightarrow> 'w" where
  "BoolCodec_encode L w b = append_basic L w DBUS_TYPE_BOOLEAN (BBoolean (if b then 1 else 0))"

definition BoolCodec_decode :: "('w, 'r) dbus_iter_api \<Rightarrow> 'r \<Rightarrow> (bool \<times> 'r) res" where
  "BoolCodec_decode L it =
     rbind (simppl_dbus_message_iter_get_basic L it DBUS_TYPE_BOOLEAN)
       (\<lambda>(b, it'). ret (un_boolean b \<noteq> 0, it'))"

definition bool_codec :: "('w, 'r) dbus_iter_api \<Rightarrow> ('w, 'r, bool) codec" where
  "bool_codec L = \<lparr>enc = BoolCodec_encode L, dec = BoolCodec_decode L, sgn = ''b''\<rparr>"

definition StringCodec_encode :: "('w, 'r) dbus_iter_api \<Rightarrow> 'w \<Rightarrow> string \<Rightarrow> 'w" where
  "StringCodec_encode L w str = append_basic L w DBUS_TYPE_STRING (BString (c_str str))"

definition StringCodec_decode :: "('w, 'r) dbus_iter_api \<Rightarrow> 'r \<Rightarrow> (string \<times> 'r) res" where
  "StringCodec_decode L it =
     rbind (simppl_dbus_message_iter_get_basic L it DBUS_TYPE_STRING)
       (\<lambda>(b, it'). ret (c_str (un_string b), it'))"

definition StringCodec_make_type_signature :: string where
  "StringCodec_make_type_signature = [DBUS_TYPE_STRING]"

definition string_codec :: "('w, 'r) dbus_iter_api \<Rightarrow> ('w, 'r, string) codec" where
  "string_codec L = \<lparr>enc = StringCodec_encode L, dec = StringCodec_decode L,
     sgn = StringCodec_make_type_signature\<rparr>"

text \<open>\<open>ObjectPath\<close> (\<open>objectpath.h\<close>) is ordered by its path, which makes it usable as a map key.\<close>

datatype ObjectPath = ObjectPath (path: string)

text \<open>The comparison operators, each defined by another one as in the code.\<close>

definition ObjectPath_lt :: "ObjectPath \<Rightarrow> ObjectPath \<Rightarrow> bool" where
  "ObjectPath_lt lhs rhs \<longleftrightarrow> path lhs < path rhs"

definition ObjectPath_gt :: "ObjectPath \<Rightarrow> ObjectPath \<Rightarrow> bool" where
  "ObjectPath_gt lhs rhs \<longleftrightarrow> ObjectPath_lt rhs lhs"

definition ObjectPath_le :: "ObjectPath \<Rightarrow> ObjectPath \<Rightarrow> bool" where
  "ObjectPath_le lhs rhs \<longleftrightarrow> \<not> ObjectPath_gt lhs rhs"

instantiation ObjectPath :: linorder
begin

definition less_ObjectPath :: "ObjectPath \<Rightarrow> ObjectPath \<Rightarrow> bool" where
  "less_ObjectPath = ObjectPath_lt"

definition less_eq_ObjectPath :: "ObjectPath \<Rightarrow> ObjectPath \<Rightarrow> bool" where
  "less_eq_ObjectPath = ObjectPath_le"

instance
  by standard
    (auto simp: less_ObjectPath_def less_eq_ObjectPath_def ObjectPath_lt_def ObjectPath_gt_def ObjectPath_le_def not_less
      intro: ObjectPath.expand)

end

definition ObjectPathCodec_encode :: "('w, 'r) dbus_iter_api \<Rightarrow> 'w \<Rightarrow> ObjectPath \<Rightarrow> 'w" where
  "ObjectPathCodec_encode L w p =
     append_basic L w DBUS_TYPE_OBJECT_PATH (BObjectPath (c_str (path p)))"

definition ObjectPathCodec_decode :: "('w, 'r) dbus_iter_api \<Rightarrow> 'r \<Rightarrow> (ObjectPath \<times> 'r) res" where
  "ObjectPathCodec_decode L it =
     rbind (simppl_dbus_message_iter_get_basic L it DBUS_TYPE_OBJECT_PATH)
       (\<lambda>(b, it'). ret (ObjectPath (c_str (un_object_path b)), it'))"

definition objectpath_codec :: "('w, 'r) dbus_iter_api \<Rightarrow> ('w, 'r, ObjectPath) codec" where
  "objectpath_codec L = \<lparr>enc = ObjectPathCodec_encode L, dec = ObjectPathCodec_decode L, sgn = ''o''\<rparr>"

subsection \<open>The basic codecs meet the contract\<close>

lemma basic_codec_instances:
  "bool_codec L = basic_codec L DBUS_TYPE_BOOLEAN (\<lambda>b. BBoolean (if b then 1 else 0)) (\<lambda>b. un_boolean b \<noteq> 0)"
  "string_codec L = basic_codec L DBUS_TYPE_STRING (\<lambda>s. BString (c_str s)) (\<lambda>b. c_str (un_string b))"
  "objectpath_codec L = basic_codec L DBUS_TYPE_OBJECT_PATH (\<lambda>p. BObjectPath (c_str (path p)))
     (\<lambda>b. ObjectPath (c_str (un_object_path b)))"
  by (auto simp: basic_codec_def bool_codec_def BoolCodec_encode_def BoolCodec_decode_def fun_eq_iff
      string_codec_def StringCodec_encode_def StringCodec_decode_def StringCodec_make_type_signature_def
      objectpath_codec_def ObjectPathCodec_encode_def ObjectPathCodec_decode_def)

context dbus_iter begin

definition string_ok :: "string \<Rightarrow> bool" where
  "string_ok s \<longleftrightarrow> nul_free s \<and> bvalid (BString s)"

definition objectpath_ok :: "ObjectPath \<Rightarrow> bool" where
  "objectpath_ok p \<longleftrightarrow> nul_free (path p) \<and> bvalid (BObjectPath (path p))"

lemma uint8_ok [codec_intros]:
  "key_codec L bvalid wk wv rv (uint8_codec L) (\<lambda>x. bvalid (BByte x)) (\<lambda>x. Basic (BByte x))"
  unfolding uint8_codec_def by (rule basic_key_codec) (auto simp: container_codes_def)

lemma int32_ok [codec_intros]:
  "key_codec L bvalid wk wv rv (int32_codec L) (\<lambda>x. bvalid (BInt32 x)) (\<lambda>x. Basic (BInt32 x))"
  unfolding int32_codec_def by (rule basic_key_codec) (auto simp: container_codes_def)

lemma uint32_ok [codec_intros]:
  "key_codec L bvalid wk wv rv (uint32_codec L) (\<lambda>x. bvalid (BUint32 x)) (\<lambda>x. Basic (BUint32 x))"
  unfolding uint32_codec_def by (rule basic_key_codec) (auto simp: container_codes_def)

lemma double_ok [codec_intros]:
  "key_codec L bvalid wk wv rv (double_codec L) (\<lambda>x. bvalid (BDouble x)) (\<lambda>x. Basic (BDouble x))"
  unfolding double_codec_def by (rule basic_key_codec) (auto simp: container_codes_def)

lemma bool_ok [codec_intros]:
  "key_codec L bvalid wk wv rv (bool_codec L)
     (\<lambda>b. bvalid (BBoolean (if b then 1 else 0))) (\<lambda>b. Basic (BBoolean (if b then 1 else 0)))"
  unfolding basic_codec_instances by (rule basic_key_codec) (auto simp: container_codes_def)

lemma string_codec_ok [codec_intros]:
  "key_codec L bvalid wk wv rv (string_codec L) string_ok (\<lambda>s. Basic (BString (c_str s)))"
  unfolding basic_codec_instances
  by (rule basic_key_codec) (auto simp: container_codes_def string_ok_def c_str_id)

lemma objectpath_codec_ok [codec_intros]:
  "key_codec L bvalid wk wv rv (objectpath_codec L) objectpath_ok
     (\<lambda>p. Basic (BObjectPath (c_str (path p))))"
  unfolding basic_codec_instances
  by (rule basic_key_codec) (auto simp: container_codes_def objectpath_ok_def c_str_id)

text \<open>Every decoder of a basic type returns.\<close>

lemma basic_totals [codec_intros]:
  "total_decoder L bvalid wk wv rv (uint8_codec L)"
  "total_decoder L bvalid wk wv rv (int32_codec L)"
  "total_decoder L bvalid wk wv rv (uint32_codec L)"
  "total_decoder L bvalid wk wv rv (double_codec L)"
  "total_decoder L bvalid wk wv rv (bool_codec L)"
  "total_decoder L bvalid wk wv rv (string_codec L)"
  "total_decoder L bvalid wk wv rv (objectpath_codec L)"
  unfolding uint8_codec_def int32_codec_def uint32_codec_def double_codec_def basic_codec_instances
  by (rule basic_total, simp add: container_codes_def)+

end

text \<open>The contracts hold for the codecs of the list-based implementation.\<close>

interpretation ref_string: key_codec ref_api "\<lambda>_. True" fst snd "\<lambda>r. r" "string_codec ref_api"
  ref.string_ok "\<lambda>s. Basic (BString (c_str s))"
  by (rule ref.string_codec_ok)

interpretation ref_string_total: total_decoder ref_api "\<lambda>_. True" fst snd "\<lambda>r. r" "string_codec ref_api"
  by (rule ref.basic_totals)

end
