(* ===== verification/Containers.thy ===== *)
theory Containers
  imports Codec
begin

text \<open>
  The class templates \<open>Codec<std::vector<T>>\<close>, \<open>Codec<std::pair<K, V>>\<close>,
  \<open>Codec<std::map<K, V>>\<close>, \<open>Codec<std::tuple<T...>>\<close>, the struct serializer and
  \<open>Codec<std::wstring>\<close>: each is a function from the codecs of its arguments to a codec, and
  each meets the contract when they do.
\<close>

section \<open>std::vector (vector.h)\<close>

definition vector_encode ::
  "('w, 'r) dbus_iter_api \<Rightarrow> ('w, 'r, 'a) codec \<Rightarrow> 'w \<Rightarrow> 'a list \<Rightarrow> 'w" where
  "vector_encode L c s v =
     (let iter = open_container L s DBUS_TYPE_ARRAY (Some (sgn c));
          iter = foldl (enc c) iter v
      in close_container L s iter)"

text \<open>The \<open>while\<close> loop of \<open>decode\<close>: it may only end because the message does.\<close>

partial_function (option) vector_decode_loop ::
  "('w, 'r) dbus_iter_api \<Rightarrow> ('w, 'r, 'a) codec \<Rightarrow> 'r \<Rightarrow> 'a list \<Rightarrow> 'a list res" where
  "vector_decode_loop L c iter v =
     (if get_arg_type L iter = DBUS_TYPE_INVALID then ret v
      else rbind (dec c iter) (\<lambda>(t, iter'). vector_decode_loop L c iter' (v @ [t])))"

definition vector_decode ::
  "('w, 'r) dbus_iter_api \<Rightarrow> ('w, 'r, 'a) codec \<Rightarrow> 'r \<Rightarrow> ('a list \<times> 'r) res" where
  "vector_decode L c s =
     rbind (simppl_dbus_message_iter_recurse L s DBUS_TYPE_ARRAY)
       (\<lambda>iter. rbind (vector_decode_loop L c iter []) (\<lambda>v. ret (v, iter_next L s)))"

definition vector_codec ::
  "('w, 'r) dbus_iter_api \<Rightarrow> ('w, 'r, 'a) codec \<Rightarrow> ('w, 'r, 'a list) codec" where
  "vector_codec L c =
     \<lparr>enc = vector_encode L c, dec = vector_decode L c, sgn = ''a'' @ sgn c\<rparr>"

definition vector_val :: "string \<Rightarrow> ('a \<Rightarrow> dval) \<Rightarrow> 'a list \<Rightarrow> dval" where
  "vector_val g cv xs = Cont DBUS_TYPE_ARRAY g (map cv xs)"

lemma wf_array: "list_all (\<lambda>v. dsig v = g \<and> wf_dval v) vs \<Longrightarrow> wf_dval (Cont DBUS_TYPE_ARRAY g vs)"
  by (auto simp: container_ok_def list_all_iff)

context dbus_iter begin

text \<open>Stepping into a container of the expected type, and its failure.\<close>

lemma recurse_ret:
  "rv r = Cont t g cs # vs \<Longrightarrow>
     simppl_dbus_message_iter_recurse L r t = ret (iter_recurse L r) \<and> rv (iter_recurse L r) = cs"
  by (simp add: simppl_dbus_message_iter_recurse_def arg_type_val recurse_vals)

lemma recurse_throw:
  "get_arg_type L r \<noteq> t \<Longrightarrow> simppl_dbus_message_iter_recurse L r t = throw DecoderError"
  by (simp add: simppl_dbus_message_iter_recurse_def)

lemma recurse_cases:
  assumes "list_all wf_dval (rv r)"
    and "t \<in> {DBUS_TYPE_ARRAY, DBUS_TYPE_VARIANT, DBUS_TYPE_STRUCT, DBUS_TYPE_DICT_ENTRY}"
  obtains "simppl_dbus_message_iter_recurse L r t = throw DecoderError"
  | g cs vs where "rv r = Cont t g cs # vs" "list_all wf_dval cs"
      "simppl_dbus_message_iter_recurse L r t = ret (iter_recurse L r)"
      "rv (iter_recurse L r) = cs" "rv (iter_next L r) = vs" "wf_dval (Cont t g cs)"
proof (cases "get_arg_type L r = t")
  case False
  then show ?thesis using that(1) recurse_throw by blast
next
  case True
  with assms(2) obtain v vs where v: "rv r = v # vs"
    by (cases "rv r") (auto simp: arg_type_end)
  with True have "dtype v = t"
    by (simp add: arg_type_val)
  with assms(2) wf_dval_container [of v] obtain g cs where c: "v = Cont t g cs"
    by auto
  with v assms(1) have wf: "wf_dval (Cont t g cs)"
    by simp
  then have "list_all wf_dval cs" by simp
  have r: "rv r = Cont t g cs # vs"
    using v c \<open>dtype v = t\<close> by simp
  show ?thesis
    using that(2) [OF r \<open>list_all wf_dval cs\<close> _ _ next_vals [OF r] wf] recurse_ret [OF r] by blast
qed

end

context total_decoder begin

lemma vector_loop_total:
  "list_all wf_dval (rv r) \<Longrightarrow>
     vector_decode_loop L c r acc = throw DecoderError \<or> (\<exists>v. vector_decode_loop L c r acc = ret v)"
proof (induction "rv r" arbitrary: r acc)
  case Nil
  then show ?case by (subst (1 2) vector_decode_loop.simps) (simp add: arg_type_end)
next
  case (Cons v vs)
  from dec_total [OF Cons.prems] show ?case
  proof
    assume "dec c r = throw DecoderError"
    then show ?thesis by (subst (1 2) vector_decode_loop.simps) simp
  next
    assume "\<exists>x r'. dec c r = ret (x, r') \<and> rv r \<noteq> [] \<and> rv r' = tl (rv r)"
    then obtain x r' where r': "dec c r = ret (x, r')" "rv r' = vs"
      using Cons.hyps(2) by (metis list.sel(3))
    with Cons.hyps(2) Cons.prems have "list_all wf_dval (rv r')"
      by (metis list.pred_inject(2))
    with Cons.hyps(1) r' show ?thesis
      by (subst (1 2) vector_decode_loop.simps) auto
  qed
qed

end

context codec begin

lemma vector_loop_vals:
  "list_all ok xs \<Longrightarrow> rv r = map cv xs \<Longrightarrow> vector_decode_loop L c r acc = ret (acc @ xs)"
proof (induction xs arbitrary: r acc)
  case Nil
  then show ?case by (subst vector_decode_loop.simps) (simp add: arg_type_end)
next
  case (Cons x xs)
  then obtain r' where r': "dec c r = ret (x, r')" "rv r' = map cv xs"
    using dec_vals [of x r "map cv xs"] by auto
  have "get_arg_type L r \<noteq> DBUS_TYPE_INVALID"
    using Cons.prems cv_valid [of x] by (auto simp: arg_type_val)
  with r' Cons show ?case
    by (subst vector_decode_loop.simps) simp
qed

lemma vector_enc:
  assumes "list_all ok xs"
  shows "wv (vector_encode L c w xs) = wv w @ [vector_val (sgn c) cv xs]
    \<and> wk (vector_encode L c w xs) = wk w"
proof -
  let ?sub = "foldl (enc c) (open_container L w DBUS_TYPE_ARRAY (Some (sgn c))) xs"
  have "wv ?sub = map cv xs" "wk ?sub = (DBUS_TYPE_ARRAY, Some (sgn c))"
    using enc_foldl [OF assms] by (simp_all add: open_vals open_ctx)
  moreover have "list_all (\<lambda>v. dsig v = sgn c) (map cv xs)"
    using assms by (auto simp: list_all_iff cv_sig)
  ultimately show ?thesis
    by (simp add: vector_encode_def Let_def close_array close_ctx vector_val_def)
qed

end

context dbus_iter begin

lemma vector_ok [codec_intros]:
  assumes "codec L bvalid wk wv rv c ok cv"
  shows "codec L bvalid wk wv rv (vector_codec L c) (list_all ok) (vector_val (sgn c) cv)"
proof -
  note enc = codec.vector_enc [OF assms]
  show ?thesis
  proof unfold_locales
    fix r x vs
    assume x: "list_all ok x" and r: "rv r = vector_val (sgn c) cv x # vs"
    then have "vector_decode_loop L c (iter_recurse L r) [] = ret x"
      using codec.vector_loop_vals [OF assms, of x "iter_recurse L r" "[]"]
      by (simp add: vector_val_def recurse_vals)
    with r show "\<exists>r'. dec (vector_codec L c) r = ret (x, r') \<and> rv r' = vs"
      using recurse_ret [of r DBUS_TYPE_ARRAY "sgn c" "map cv x" vs]
      by (auto simp: vector_codec_def vector_decode_def vector_val_def next_vals)
  qed (use codec.cv_wf [OF assms] codec.cv_sig [OF assms] in
      \<open>auto simp: vector_codec_def enc vector_decode_def recurse_throw vector_val_def
        container_ok_def list_all_iff\<close>)
qed

lemma vector_total [codec_intros]:
  assumes "total_decoder L bvalid wk wv rv c"
  shows "total_decoder L bvalid wk wv rv (vector_codec L c)"
proof unfold_locales
  fix r
  assume wf: "list_all wf_dval (rv r)"
  show "dec (vector_codec L c) r = throw DecoderError \<or>
    (\<exists>x r'. dec (vector_codec L c) r = ret (x, r') \<and> rv r \<noteq> [] \<and> rv r' = tl (rv r))"
  proof (rule recurse_cases [OF wf, of DBUS_TYPE_ARRAY])
    fix g cs vs
    assume *: "rv r = Cont DBUS_TYPE_ARRAY g cs # vs" "list_all wf_dval cs"
      "simppl_dbus_message_iter_recurse L r DBUS_TYPE_ARRAY = ret (iter_recurse L r)"
      "rv (iter_recurse L r) = cs" "rv (iter_next L r) = vs"
    then show ?thesis
      using total_decoder.vector_loop_total [OF assms, of "iter_recurse L r" "[]"]
      by (auto simp: vector_codec_def vector_decode_def)
  qed (auto simp: vector_codec_def vector_decode_def)
qed

end

section \<open>std::pair (pair.h)\<close>

definition pair_encode ::
  "('w, 'r) dbus_iter_api \<Rightarrow> ('w, 'r, 'k) codec \<Rightarrow> ('w, 'r, 'v) codec \<Rightarrow> 'w \<Rightarrow> 'k \<times> 'v \<Rightarrow> 'w" where
  "pair_encode L ck cw iter p =
     (let item_iterator = open_container L iter DBUS_TYPE_DICT_ENTRY None;
          item_iterator = enc ck item_iterator (fst p);
          item_iterator = enc cw item_iterator (snd p)
      in close_container L iter item_iterator)"

definition pair_decode ::
  "('w, 'r) dbus_iter_api \<Rightarrow> ('w, 'r, 'k) codec \<Rightarrow> ('w, 'r, 'v) codec \<Rightarrow> 'r \<Rightarrow> (('k \<times> 'v) \<times> 'r) res" where
  "pair_decode L ck cw iter =
     rbind (simppl_dbus_message_iter_recurse L iter DBUS_TYPE_DICT_ENTRY) (\<lambda>item_iterator.
     rbind (dec ck item_iterator) (\<lambda>(k, item_iterator).
     rbind (dec cw item_iterator) (\<lambda>(v, item_iterator).
     ret ((k, v), iter_next L iter))))"

definition pair_codec ::
  "('w, 'r) dbus_iter_api \<Rightarrow> ('w, 'r, 'k) codec \<Rightarrow> ('w, 'r, 'v) codec \<Rightarrow> ('w, 'r, 'k \<times> 'v) codec" where
  "pair_codec L ck cw =
     \<lparr>enc = pair_encode L ck cw, dec = pair_decode L ck cw,
      sgn = ''{'' @ sgn ck @ sgn cw @ ''}''\<rparr>"

definition pair_val :: "('k \<Rightarrow> dval) \<Rightarrow> ('v \<Rightarrow> dval) \<Rightarrow> 'k \<times> 'v \<Rightarrow> dval" where
  "pair_val ckv cwv p = Cont DBUS_TYPE_DICT_ENTRY [] [ckv (fst p), cwv (snd p)]"

context dbus_iter begin

lemma pair_ok [codec_intros]:
  assumes k: "key_codec L bvalid wk wv rv ck okk ckv"
    and w: "codec L bvalid wk wv rv cw okw cwv"
  shows "codec L bvalid wk wv rv (pair_codec L ck cw) (\<lambda>p. okk (fst p) \<and> okw (snd p)) (pair_val ckv cwv)"
proof -
  have kc: "codec L bvalid wk wv rv ck okk ckv"
    using k by (rule key_codec.axioms(1))
  note kfacts = codec.enc_vals [OF kc] codec.enc_ctx [OF kc] codec.cv_sig [OF kc] codec.cv_wf [OF kc]
  note wfacts = codec.enc_vals [OF w] codec.enc_ctx [OF w] codec.cv_sig [OF w] codec.cv_wf [OF w]
  have basic: "okk x \<Longrightarrow> is_basic (ckv x)" for x
    using key_codec.key_basic [OF k] .
  have enc: "wv (pair_encode L ck cw u p) = wv u @ [pair_val ckv cwv p]
      \<and> wk (pair_encode L ck cw u p) = wk u" if p: "okk (fst p)" "okw (snd p)" for u p
    using p by (simp add: pair_encode_def Let_def pair_val_def close_ctx kfacts wfacts open_vals
        open_ctx basic close_entry [where k = "ckv (fst p)" and v = "cwv (snd p)"])
  show ?thesis
  proof unfold_locales
    fix r x vs
    assume x: "okk (fst x) \<and> okw (snd x)" and r: "rv r = pair_val ckv cwv x # vs"
    then have i: "simppl_dbus_message_iter_recurse L r DBUS_TYPE_DICT_ENTRY = ret (iter_recurse L r)"
        "rv (iter_recurse L r) = [ckv (fst x), cwv (snd x)]"
      using recurse_ret by (simp_all add: pair_val_def)
    obtain r1 where r1: "dec ck (iter_recurse L r) = ret (fst x, r1)" "rv r1 = [cwv (snd x)]"
      using codec.dec_vals [OF kc _ i(2)] x by auto
    obtain r2 where r2: "dec cw r1 = ret (snd x, r2)"
      using codec.dec_vals [OF w _ r1(2)] x by auto
    show "\<exists>r'. dec (pair_codec L ck cw) r = ret (x, r') \<and> rv r' = vs"
      using i r1 r2 next_vals [OF r] by (simp add: pair_codec_def pair_decode_def)
  qed (use basic in \<open>auto simp: pair_codec_def enc pair_decode_def recurse_throw pair_val_def
        container_ok_def kfacts wfacts\<close>)
qed

lemma pair_total [codec_intros]:
  assumes k: "total_decoder L bvalid wk wv rv ck" and w: "total_decoder L bvalid wk wv rv cw"
  shows "total_decoder L bvalid wk wv rv (pair_codec L ck cw)"
proof unfold_locales
  fix r
  assume wf: "list_all wf_dval (rv r)"
  show "dec (pair_codec L ck cw) r = throw DecoderError \<or>
    (\<exists>x r'. dec (pair_codec L ck cw) r = ret (x, r') \<and> rv r \<noteq> [] \<and> rv r' = tl (rv r))"
  proof (rule recurse_cases [OF wf, of DBUS_TYPE_DICT_ENTRY])
    fix g cs vs
    assume *: "rv r = Cont DBUS_TYPE_DICT_ENTRY g cs # vs" "list_all wf_dval cs"
      "simppl_dbus_message_iter_recurse L r DBUS_TYPE_DICT_ENTRY = ret (iter_recurse L r)"
      "rv (iter_recurse L r) = cs" "rv (iter_next L r) = vs"
    have "list_all wf_dval (rv (iter_recurse L r))"
      using * by simp
    from total_decoder.dec_total [OF k this] show ?thesis
    proof (elim disjE exE conjE)
      fix x r'
      assume d: "dec ck (iter_recurse L r) = ret (x, r')" "rv (iter_recurse L r) \<noteq> []"
        "rv r' = tl (rv (iter_recurse L r))"
      have "list_all wf_dval (rv r')"
        using d * by (auto simp: list_all_iff dest: list.set_sel(2))
      from total_decoder.dec_total [OF w this] show ?thesis
        using * d by (auto simp: pair_codec_def pair_decode_def)
    qed (use * in \<open>auto simp: pair_codec_def pair_decode_def\<close>)
  qed (auto simp: pair_codec_def pair_decode_def)
qed

end

section \<open>std::map (map.h)\<close>

text \<open>
  A \<open>std::map\<close> is the list of its entries in iteration order, strictly increasing in the
  key. \<open>insert\<close> leaves an entry whose key is present alone.
\<close>

type_synonym ('k, 'v) std_map = "('k \<times> 'v) list"

definition map_sorted :: "('k::linorder, 'v) std_map \<Rightarrow> bool" where
  "map_sorted m \<longleftrightarrow> sorted_wrt (<) (map fst m)"

fun std_map_insert :: "'k::linorder \<times> 'v \<Rightarrow> ('k, 'v) std_map \<Rightarrow> ('k, 'v) std_map" where
  "std_map_insert p [] = [p]"
| "std_map_insert p (q # m) =
     (if fst p < fst q then p # q # m
      else if fst p = fst q then q # m
      else q # std_map_insert p m)"

definition map_encode ::
  "('w, 'r) dbus_iter_api \<Rightarrow> ('w, 'r, 'k) codec \<Rightarrow> ('w, 'r, 'v) codec \<Rightarrow> 'w \<Rightarrow> ('k::linorder, 'v) std_map \<Rightarrow> 'w" where
  "map_encode L ck cw iter m =
     (let pc = pair_codec L ck cw;
          it = open_container L iter DBUS_TYPE_ARRAY (Some (sgn pc));
          it = foldl (enc pc) it m
      in close_container L iter it)"

partial_function (option) map_decode_loop ::
  "('w, 'r) dbus_iter_api \<Rightarrow> ('w, 'r, 'k::linorder \<times> 'v) codec \<Rightarrow> 'r \<Rightarrow> ('k, 'v) std_map \<Rightarrow> ('k, 'v) std_map res" where
  "map_decode_loop L pc it m =
     (if get_arg_type L it = DBUS_TYPE_INVALID then ret m
      else rbind (dec pc it) (\<lambda>(p, it'). map_decode_loop L pc it' (std_map_insert p m)))"

definition map_decode ::
  "('w, 'r) dbus_iter_api \<Rightarrow> ('w, 'r, 'k) codec \<Rightarrow> ('w, 'r, 'v) codec \<Rightarrow> 'r \<Rightarrow> (('k::linorder, 'v) std_map \<times> 'r) res" where
  "map_decode L ck cw iter =
     rbind (simppl_dbus_message_iter_recurse L iter DBUS_TYPE_ARRAY)
       (\<lambda>it. rbind (map_decode_loop L (pair_codec L ck cw) it []) (\<lambda>m. ret (m, iter_next L iter)))"

definition map_codec ::
  "('w, 'r) dbus_iter_api \<Rightarrow> ('w, 'r, 'k) codec \<Rightarrow> ('w, 'r, 'v) codec \<Rightarrow> ('w, 'r, ('k::linorder, 'v) std_map) codec" where
  "map_codec L ck cw =
     \<lparr>enc = map_encode L ck cw, dec = map_decode L ck cw, sgn = ''a'' @ sgn (pair_codec L ck cw)\<rparr>"

lemma std_map_insert_last:
  "map_sorted (m @ [p]) \<Longrightarrow> std_map_insert p m = m @ [p]"
  by (induction m) (auto simp: map_sorted_def sorted_wrt_append)

lemma std_map_insert_set_keys:
  "fst ` set (std_map_insert p m) = insert (fst p) (fst ` set m)"
  by (induction m) auto

lemma std_map_insert_sorted: "map_sorted m \<Longrightarrow> map_sorted (std_map_insert p m)"
proof (induction m)
  case Nil
  then show ?case by (simp add: map_sorted_def)
next
  case (Cons q m)
  have "fst q < fst p \<Longrightarrow> \<forall>x\<in>set (std_map_insert p m). fst q < fst x"
  proof
    fix x
    assume "fst q < fst p" "x \<in> set (std_map_insert p m)"
    then have "fst x \<in> insert (fst p) (fst ` set m)"
      using std_map_insert_set_keys [of p m] by blast
    with \<open>fst q < fst p\<close> Cons.prems show "fst q < fst x"
      by (auto simp: map_sorted_def)
  qed
  with Cons show ?case
    by (auto simp: map_sorted_def)
qed

text \<open>The first entry received for a key is the one kept.\<close>

lemma std_map_insert_lookup:
  "map_sorted m \<Longrightarrow>
     map_of (std_map_insert p m) k =
       (if k = fst p then Some (case map_of m k of None \<Rightarrow> snd p | Some v \<Rightarrow> v) else map_of m k)"
proof (induction m)
  case Nil
  then show ?case by (cases p) auto
next
  case (Cons q m)
  then have IH: "map_of (std_map_insert p m) k =
       (if k = fst p then Some (case map_of m k of None \<Rightarrow> snd p | Some v \<Rightarrow> v) else map_of m k)"
    by (simp add: map_sorted_def)
  have "fst p < fst q \<Longrightarrow> map_of m (fst p) = None"
    using Cons.prems by (force simp: map_sorted_def map_of_eq_None_iff)
  with IH show ?case
    by (cases p; cases q) auto
qed

lemma fold_std_map_insert_sorted:
  "map_sorted (m @ ps) \<Longrightarrow> fold std_map_insert ps m = m @ ps"
proof (induction ps arbitrary: m)
  case Nil
  then show ?case by simp
next
  case (Cons p ps)
  then have "std_map_insert p m = m @ [p]"
    by (intro std_map_insert_last) (simp add: map_sorted_def sorted_wrt_append)
  with Cons show ?case by simp
qed

lemma std_map_insert_fold:
  "map_sorted m \<Longrightarrow>
     map_sorted (fold std_map_insert ps m) \<and>
     map_of (fold std_map_insert ps m) k =
       (case map_of m k of Some v \<Rightarrow> Some v | None \<Rightarrow> map_of ps k)"
proof (induction ps arbitrary: m)
  case Nil
  then show ?case by (simp split: option.split)
next
  case (Cons p ps)
  then show ?case
    using std_map_insert_sorted [of m p] std_map_insert_lookup [of m p k]
    by (cases p) (auto split: option.splits)
qed

context codec begin

text \<open>Whatever entries arrive, in whatever order, the loop inserts them one after the other.\<close>

lemma map_loop_inserts:
  fixes d :: "('w, 'r, 'k::linorder \<times> 'v) codec"
  assumes "codec L bvalid wk wv rv d okp pv"
  shows "list_all okp ps \<Longrightarrow> rv r = map pv ps \<Longrightarrow>
    map_decode_loop L d r m = ret (fold std_map_insert ps m)"
proof (induction ps arbitrary: r m)
  case Nil
  then show ?case by (subst map_decode_loop.simps) (simp add: arg_type_end)
next
  case (Cons p ps)
  then obtain r' where r': "dec d r = ret (p, r')" "rv r' = map pv ps"
    using codec.dec_vals [OF assms, of p r "map pv ps"] by auto
  have "get_arg_type L r \<noteq> DBUS_TYPE_INVALID"
    using Cons.prems codec.cv_valid [OF assms, of p] by (auto simp: arg_type_val)
  with r' Cons show ?case
    by (subst map_decode_loop.simps) simp
qed

lemma map_loop_vals:
  fixes d :: "('w, 'r, 'k::linorder \<times> 'v) codec"
  assumes "codec L bvalid wk wv rv d okp pv"
  shows "list_all okp xs \<Longrightarrow> rv r = map pv xs \<Longrightarrow> map_sorted (m @ xs) \<Longrightarrow>
    map_decode_loop L d r m = ret (m @ xs)"
  using map_loop_inserts [OF assms, of xs r m] fold_std_map_insert_sorted [of m xs] by simp

end

context dbus_iter begin

lemma map_ok [codec_intros]:
  assumes k: "key_codec L bvalid wk wv rv ck okk ckv"
    and w: "codec L bvalid wk wv rv cw okw cwv"
  shows "codec L bvalid wk wv rv (map_codec L ck cw)
    (\<lambda>m. map_sorted m \<and> list_all (\<lambda>p. okk (fst p) \<and> okw (snd p)) m)
    (vector_val (sgn (pair_codec L ck cw)) (pair_val ckv cwv))"
proof -
  note pc = pair_ok [OF k w]
  note vc = vector_ok [OF pc]
  have enc: "map_encode L ck cw = vector_encode L (pair_codec L ck cw)"
    by (simp add: map_encode_def vector_encode_def fun_eq_iff Let_def)
  show ?thesis
  proof unfold_locales
    fix r x vs
    assume x: "map_sorted x \<and> list_all (\<lambda>p. okk (fst p) \<and> okw (snd p)) x"
      and r: "rv r = vector_val (sgn (pair_codec L ck cw)) (pair_val ckv cwv) x # vs"
    then have "map_decode_loop L (pair_codec L ck cw) (iter_recurse L r) [] = ret x"
      using codec.map_loop_vals [OF pc pc, of x "iter_recurse L r" "[]"]
      by (simp add: vector_val_def recurse_vals)
    with r show "\<exists>r'. dec (map_codec L ck cw) r = ret (x, r') \<and> rv r' = vs"
      using recurse_ret [of r DBUS_TYPE_ARRAY "sgn (pair_codec L ck cw)" "map (pair_val ckv cwv) x" vs]
      by (auto simp: map_codec_def map_decode_def vector_val_def next_vals)
  next
    fix x w
    assume "map_sorted x \<and> list_all (\<lambda>p. okk (fst p) \<and> okw (snd p)) x"
    then have x: "list_all (\<lambda>p. okk (fst p) \<and> okw (snd p)) x" by simp
    show "wv (enc (map_codec L ck cw) w x) =
        wv w @ [vector_val (sgn (pair_codec L ck cw)) (pair_val ckv cwv) x]"
      and "wk (enc (map_codec L ck cw) w x) = wk w"
      and "dsig (vector_val (sgn (pair_codec L ck cw)) (pair_val ckv cwv) x) = sgn (map_codec L ck cw)"
      and "wf_dval (vector_val (sgn (pair_codec L ck cw)) (pair_val ckv cwv) x)"
      using codec.enc_vals [OF vc x] codec.enc_ctx [OF vc x] codec.cv_sig [OF vc x] codec.cv_wf [OF vc x]
      by (simp_all add: map_codec_def vector_codec_def enc)
  qed (auto simp: map_codec_def map_decode_def recurse_throw)
qed

lemma map_loop_total:
  fixes d :: "('w, 'r, 'k::linorder \<times> 'v) codec"
  assumes "total_decoder L bvalid wk wv rv d"
  shows "list_all wf_dval (rv r) \<Longrightarrow> map_sorted m \<Longrightarrow>
    map_decode_loop L d r m = throw DecoderError \<or>
    (\<exists>m'. map_decode_loop L d r m = ret m' \<and> map_sorted m')"
proof (induction "rv r" arbitrary: r m)
  case Nil
  then show ?case by (subst (1 2) map_decode_loop.simps) (simp add: arg_type_end)
next
  case (Cons v vs)
  from total_decoder.dec_total [OF assms Cons.prems(1)] show ?case
  proof
    assume "dec d r = throw DecoderError"
    then show ?thesis
      using Cons.prems(2) by (subst (1 2) map_decode_loop.simps) simp
  next
    assume "\<exists>x r'. dec d r = ret (x, r') \<and> rv r \<noteq> [] \<and> rv r' = tl (rv r)"
    then obtain x r' where r': "dec d r = ret (x, r')" "rv r' = vs"
      using Cons.hyps(2) by (metis list.sel(3))
    with Cons.hyps(2) Cons.prems have "list_all wf_dval (rv r')"
      by (metis list.pred_inject(2))
    with Cons.hyps(1) r' std_map_insert_sorted [OF Cons.prems(2)] Cons.prems(2) show ?thesis
      by (subst (1 2) map_decode_loop.simps) auto
  qed
qed

lemma map_total [codec_intros]:
  assumes k: "total_decoder L bvalid wk wv rv ck" and w: "total_decoder L bvalid wk wv rv cw"
  shows "total_decoder L bvalid wk wv rv (map_codec L ck cw :: ('w, 'r, ('k::linorder, 'v) std_map) codec)"
proof unfold_locales
  fix r
  assume wf: "list_all wf_dval (rv r)"
  show "dec (map_codec L ck cw) r = throw DecoderError \<or>
    (\<exists>x r'. dec (map_codec L ck cw) r = ret (x, r') \<and> rv r \<noteq> [] \<and> rv r' = tl (rv r))"
  proof (rule recurse_cases [OF wf, of DBUS_TYPE_ARRAY])
    fix g cs vs
    assume *: "rv r = Cont DBUS_TYPE_ARRAY g cs # vs" "list_all wf_dval cs"
      "simppl_dbus_message_iter_recurse L r DBUS_TYPE_ARRAY = ret (iter_recurse L r)"
      "rv (iter_recurse L r) = cs" "rv (iter_next L r) = vs"
    have "list_all wf_dval (rv (iter_recurse L r))" "map_sorted []"
      using * by (simp_all add: map_sorted_def)
    from map_loop_total [OF pair_total [OF k w] this] * show ?thesis
      by (auto simp: map_codec_def map_decode_def)
  qed (auto simp: map_codec_def map_decode_def)
qed

lemma map_decode_any_order:
  assumes k: "key_codec L bvalid wk wv rv ck okk ckv"
    and w: "codec L bvalid wk wv rv cw okw cwv"
    and r: "rv r = vector_val g (pair_val ckv cwv) ps # vs"
    and ps: "list_all (\<lambda>p. okk (fst p) \<and> okw (snd p)) ps"
  shows "map_decode L ck cw r = ret (fold std_map_insert ps [], iter_next L r)"
proof -
  note pc = pair_ok [OF k w]
  have "map_decode_loop L (pair_codec L ck cw) (iter_recurse L r) [] = ret (fold std_map_insert ps [])"
    by (rule codec.map_loop_inserts [OF pc pc ps]) (use r in \<open>simp add: vector_val_def recurse_vals\<close>)
  then show ?thesis
    using recurse_ret [OF r [unfolded vector_val_def]] by (simp add: map_decode_def)
qed

end

end
