(* ===== verification/Aggregates.thy ===== *)
theory Aggregates
  imports Containers
begin

text \<open>
  Sequences of fields: tuples (\<open>tuple.h\<close>, \<open>for_each.h\<close>), structs with a \<open>serializer_type\<close>
  (\<open>struct.h\<close>) and wide strings (\<open>wstring.cpp\<close>). A list of fields is serialized field by
  field into one iterator; the flattened form is what a method's argument list uses.
\<close>

section \<open>Field sequences\<close>

record ('w, 'r, 'a) fields =
  fenc :: "'w \<Rightarrow> 'a \<Rightarrow> 'w"
  fdec :: "'r \<Rightarrow> ('a \<times> 'r) res"
  fsgn :: string

locale fields = dbus_iter L bvalid wk wv rv
  for L :: "('w, 'r) dbus_iter_api" and bvalid wk wv rv +
  fixes f :: "('w, 'r, 'a) fields" and ok :: "'a \<Rightarrow> bool" and fv :: "'a \<Rightarrow> dval list"
  assumes fenc_vals: "ok x \<Longrightarrow> wv (fenc f w x) = wv w @ fv x"
    and fenc_ctx: "ok x \<Longrightarrow> wk (fenc f w x) = wk w"
    and fv_sig: "ok x \<Longrightarrow> concat (map dsig (fv x)) = fsgn f"
    and fv_wf: "ok x \<Longrightarrow> list_all wf_dval (fv x)"
    and fv_nonempty: "ok x \<Longrightarrow> fv x \<noteq> []"
    and fdec_vals: "ok x \<Longrightarrow> rv r = fv x @ vs \<Longrightarrow> \<exists>r'. fdec f r = ret (x, r') \<and> rv r' = vs"

locale total_fields = dbus_iter L bvalid wk wv rv
  for L :: "('w, 'r) dbus_iter_api" and bvalid wk wv rv +
  fixes f :: "('w, 'r, 'a) fields"
  assumes fdec_total: "list_all wf_dval (rv r) \<Longrightarrow>
      fdec f r = throw DecoderError \<or>
      (\<exists>x r' us. fdec f r = ret (x, r') \<and> rv r = us @ rv r')"

text \<open>
  \<open>SerializerTuple<T, NilType>\<close> and \<open>SerializerTuple<T1, T2>\<close>, the inheritance chain that
  \<open>make_serializer\<close> builds: the base part first, then the own member \<open>data_\<close>.
\<close>

definition SerializerTuple_nil :: "('w, 'r, 'a) codec \<Rightarrow> ('w, 'r, 'a) fields" where
  "SerializerTuple_nil c = \<lparr>
     fenc = (\<lambda>iter x. enc c iter x),
     fdec = (\<lambda>iter. dec c iter),
     fsgn = sgn c\<rparr>"

definition SerializerTuple ::
  "('w, 'r, 'a) fields \<Rightarrow> ('w, 'r, 'b) codec \<Rightarrow> ('w, 'r, 'a \<times> 'b) fields" where
  "SerializerTuple t1 c2 = \<lparr>
     fenc = (\<lambda>iter x. enc c2 (fenc t1 iter (fst x)) (snd x)),
     fdec = (\<lambda>iter. rbind (fdec t1 iter) (\<lambda>(a, iter). rbind (dec c2 iter) (\<lambda>(b, iter). ret ((a, b), iter)))),
     fsgn = fsgn t1 @ sgn c2\<rparr>"

text \<open>
  \<open>std_tuple_for_each\<close> with the (de)serializer as its functor: \<open>StdTupleForEach<1>\<close> visits the
  last element, \<open>StdTupleForEach<N>\<close> visits the next element and goes on with \<open>N - 1\<close>.
\<close>

definition StdTupleForEach_last :: "('w, 'r, 'a) codec \<Rightarrow> ('w, 'r, 'a) fields" where
  "StdTupleForEach_last c = \<lparr>
     fenc = (\<lambda>iter x. enc c iter x),
     fdec = (\<lambda>iter. dec c iter),
     fsgn = sgn c\<rparr>"

definition StdTupleForEach ::
  "('w, 'r, 'a) codec \<Rightarrow> ('w, 'r, 'b) fields \<Rightarrow> ('w, 'r, 'a \<times> 'b) fields" where
  "StdTupleForEach c rest = \<lparr>
     fenc = (\<lambda>iter x. fenc rest (enc c iter (fst x)) (snd x)),
     fdec = (\<lambda>iter. rbind (dec c iter) (\<lambda>(a, iter). rbind (fdec rest iter) (\<lambda>(b, iter). ret ((a, b), iter)))),
     fsgn = sgn c @ fsgn rest\<rparr>"

context dbus_iter begin

lemma fields_one:
  assumes c: "codec L bvalid wk wv rv c ok cv"
    and f: "f = \<lparr>fenc = (\<lambda>iter x. enc c iter x), fdec = (\<lambda>iter. dec c iter), fsgn = sgn c\<rparr>"
  shows "fields L bvalid wk wv rv f ok (\<lambda>x. [cv x])"
  by unfold_locales
    (use codec.enc_vals [OF c] codec.enc_ctx [OF c] codec.cv_sig [OF c] codec.cv_wf [OF c]
      codec.dec_vals [OF c] f in auto)

lemma fields_one_total:
  assumes c: "total_decoder L bvalid wk wv rv c"
    and f: "f = \<lparr>fenc = (\<lambda>iter x. enc c iter x), fdec = (\<lambda>iter. dec c iter), fsgn = sgn c\<rparr>"
  shows "total_fields L bvalid wk wv rv f"
proof unfold_locales
  fix r
  assume "list_all wf_dval (rv r)"
  from total_decoder.dec_total [OF c this]
  show "fdec f r = throw DecoderError \<or> (\<exists>x r' us. fdec f r = ret (x, r') \<and> rv r = us @ rv r')"
    using f by (metis append_Cons append_Nil list.collapse fields.select_convs(2))
qed

lemma SerializerTuple_nil_ok [codec_intros]:
  "codec L bvalid wk wv rv c ok cv \<Longrightarrow>
     fields L bvalid wk wv rv (SerializerTuple_nil c) ok (\<lambda>x. [cv x])"
  by (rule fields_one) (simp_all add: SerializerTuple_nil_def)

lemma SerializerTuple_nil_total [codec_intros]:
  "total_decoder L bvalid wk wv rv c \<Longrightarrow> total_fields L bvalid wk wv rv (SerializerTuple_nil c)"
  by (rule fields_one_total) (simp_all add: SerializerTuple_nil_def)

lemma StdTupleForEach_last_total [codec_intros]:
  "total_decoder L bvalid wk wv rv c \<Longrightarrow> total_fields L bvalid wk wv rv (StdTupleForEach_last c)"
  by (rule fields_one_total) (simp_all add: StdTupleForEach_last_def)

lemma StdTupleForEach_last_ok [codec_intros]:
  "codec L bvalid wk wv rv c ok cv \<Longrightarrow>
     fields L bvalid wk wv rv (StdTupleForEach_last c) ok (\<lambda>x. [cv x])"
  by (rule fields_one) (simp_all add: StdTupleForEach_last_def)

text \<open>Two field sequences one after the other: the common core of both recursions.\<close>

lemma fields_append:
  assumes f: "fields L bvalid wk wv rv f okf fvf" and g: "fields L bvalid wk wv rv g okg fvg"
    and h: "h = \<lparr>fenc = (\<lambda>iter x. fenc g (fenc f iter (fst x)) (snd x)),
       fdec = (\<lambda>iter. rbind (fdec f iter) (\<lambda>(a, iter). rbind (fdec g iter) (\<lambda>(b, iter). ret ((a, b), iter)))),
       fsgn = fsgn f @ fsgn g\<rparr>"
  shows "fields L bvalid wk wv rv h (\<lambda>x. okf (fst x) \<and> okg (snd x)) (\<lambda>x. fvf (fst x) @ fvg (snd x))"
proof unfold_locales
  fix r x vs
  assume x: "okf (fst x) \<and> okg (snd x)" and r: "rv r = (fvf (fst x) @ fvg (snd x)) @ vs"
  obtain r1 where r1: "fdec f r = ret (fst x, r1)" "rv r1 = fvg (snd x) @ vs"
    using fields.fdec_vals [OF f, of "fst x" r] x r by auto
  obtain r2 where r2: "fdec g r1 = ret (snd x, r2)" "rv r2 = vs"
    using fields.fdec_vals [OF g, of "snd x" r1] x r1 by auto
  show "\<exists>r'. fdec h r = ret (x, r') \<and> rv r' = vs"
    using r1 r2 by (simp add: h)
qed (use fields.fenc_vals [OF f] fields.fenc_ctx [OF f] fields.fv_sig [OF f] fields.fv_wf [OF f]
      fields.fv_nonempty [OF f] fields.fenc_vals [OF g] fields.fenc_ctx [OF g] fields.fv_sig [OF g]
      fields.fv_wf [OF g] h in auto)

lemma fields_append_total:
  assumes f: "total_fields L bvalid wk wv rv f" and g: "total_fields L bvalid wk wv rv g"
    and h: "h = \<lparr>fenc = (\<lambda>iter x. fenc g (fenc f iter (fst x)) (snd x)),
       fdec = (\<lambda>iter. rbind (fdec f iter) (\<lambda>(a, iter). rbind (fdec g iter) (\<lambda>(b, iter). ret ((a, b), iter)))),
       fsgn = fsgn f @ fsgn g\<rparr>"
  shows "total_fields L bvalid wk wv rv h"
proof unfold_locales
  fix r
  assume "list_all wf_dval (rv r)"
  moreover from total_fields.fdec_total [OF f this]
  show "fdec h r = throw DecoderError \<or> (\<exists>x r' us. fdec h r = ret (x, r') \<and> rv r = us @ rv r')"
  proof (elim disjE exE conjE)
    fix a r1 us
    assume a: "fdec f r = ret (a, r1)" "rv r = us @ rv r1"
    with \<open>list_all wf_dval (rv r)\<close> have "list_all wf_dval (rv r1)" by simp
    from total_fields.fdec_total [OF g this] show ?thesis
      using a by (auto simp: h)
  qed (simp add: h)
qed

lemma SerializerTuple_ok [codec_intros]:
  assumes "fields L bvalid wk wv rv f okf fvf" and "codec L bvalid wk wv rv c okc cv"
  shows "fields L bvalid wk wv rv (SerializerTuple f c) (\<lambda>x. okf (fst x) \<and> okc (snd x))
    (\<lambda>x. fvf (fst x) @ [cv (snd x)])"
  by (rule fields_append [OF assms(1) SerializerTuple_nil_ok [OF assms(2)]])
    (simp add: SerializerTuple_def SerializerTuple_nil_def)

lemma StdTupleForEach_ok [codec_intros]:
  assumes "codec L bvalid wk wv rv c okc cv" and "fields L bvalid wk wv rv f okf fvf"
  shows "fields L bvalid wk wv rv (StdTupleForEach c f) (\<lambda>x. okc (fst x) \<and> okf (snd x))
    (\<lambda>x. [cv (fst x)] @ fvf (snd x))"
  by (rule fields_append [OF StdTupleForEach_last_ok [OF assms(1)] assms(2)])
    (simp add: StdTupleForEach_def StdTupleForEach_last_def)

lemma SerializerTuple_total [codec_intros]:
  assumes "total_fields L bvalid wk wv rv f" and "total_decoder L bvalid wk wv rv c"
  shows "total_fields L bvalid wk wv rv (SerializerTuple f c)"
  by (rule fields_append_total [OF assms(1) SerializerTuple_nil_total [OF assms(2)]])
    (simp add: SerializerTuple_def SerializerTuple_nil_def)

lemma StdTupleForEach_total [codec_intros]:
  assumes "total_decoder L bvalid wk wv rv c" and "total_fields L bvalid wk wv rv f"
  shows "total_fields L bvalid wk wv rv (StdTupleForEach c f)"
  by (rule fields_append_total [OF StdTupleForEach_last_total [OF assms(1)] assms(2)])
    (simp add: StdTupleForEach_def StdTupleForEach_last_def)

end

section \<open>Tuples and structs\<close>

text \<open>
  \<open>TupleSerializer\<close> opens the container in its constructor and closes it in its destructor;
  \<open>TupleDeserializer\<close> recurses in its constructor and advances in its destructor, unless it is
  flattened.
\<close>

definition tuple_encode :: "('w, 'r) dbus_iter_api \<Rightarrow> ('w, 'r, 'a) fields \<Rightarrow> 'w \<Rightarrow> 'a \<Rightarrow> 'w" where
  "tuple_encode L f iter t =
     close_container L iter (fenc f (open_container L iter DBUS_TYPE_STRUCT None) t)"

definition tuple_decode :: "('w, 'r) dbus_iter_api \<Rightarrow> ('w, 'r, 'a) fields \<Rightarrow> 'r \<Rightarrow> ('a \<times> 'r) res" where
  "tuple_decode L f iter =
     rbind (simppl_dbus_message_iter_recurse L iter DBUS_TYPE_STRUCT)
       (\<lambda>it. rbind (fdec f it) (\<lambda>(t, _). ret (t, iter_next L iter)))"

definition decode_flattened :: "('w, 'r, 'a) fields \<Rightarrow> 'r \<Rightarrow> ('a \<times> 'r) res" where
  "decode_flattened f iter = fdec f iter"

definition tuple_make_type_signature :: "('w, 'r, 'a) fields \<Rightarrow> string" where
  "tuple_make_type_signature f = ''('' @ fsgn f @ '')''"

definition tuple_codec :: "('w, 'r) dbus_iter_api \<Rightarrow> ('w, 'r, 'a) fields \<Rightarrow> ('w, 'r, 'a) codec" where
  "tuple_codec L f =
     \<lparr>enc = tuple_encode L f, dec = tuple_decode L f, sgn = tuple_make_type_signature f\<rparr>"

text \<open>\<open>StructSerializationHelper\<close>, selected by \<open>CodecImpl<T, Struct>\<close>.\<close>

definition struct_encode :: "('w, 'r) dbus_iter_api \<Rightarrow> ('w, 'r, 'a) fields \<Rightarrow> 'w \<Rightarrow> 'a \<Rightarrow> 'w" where
  "struct_encode L f iter st =
     (let sub = open_container L iter DBUS_TYPE_STRUCT None;
          sub = fenc f sub st
      in close_container L iter sub)"

definition struct_decode :: "('w, 'r) dbus_iter_api \<Rightarrow> ('w, 'r, 'a) fields \<Rightarrow> 'r \<Rightarrow> ('a \<times> 'r) res" where
  "struct_decode L f iter =
     rbind (simppl_dbus_message_iter_recurse L iter DBUS_TYPE_STRUCT) (\<lambda>sub.
     rbind (fdec f sub) (\<lambda>(st, sub). ret (st, iter_next L iter)))"

definition struct_codec :: "('w, 'r) dbus_iter_api \<Rightarrow> ('w, 'r, 'a) fields \<Rightarrow> ('w, 'r, 'a) codec" where
  "struct_codec L f =
     \<lparr>enc = struct_encode L f, dec = struct_decode L f, sgn = ''('' @ fsgn f @ '')''\<rparr>"

lemma struct_is_tuple: "struct_codec L f = tuple_codec L f"
  by (auto simp: struct_codec_def tuple_codec_def tuple_make_type_signature_def struct_encode_def
      tuple_encode_def struct_decode_def tuple_decode_def Let_def fun_eq_iff)

context dbus_iter begin

lemma tuple_ok [codec_intros]:
  assumes f: "fields L bvalid wk wv rv f ok fv"
  shows "codec L bvalid wk wv rv (tuple_codec L f) ok (\<lambda>x. Cont DBUS_TYPE_STRUCT [] (fv x))"
proof -
  have enc: "wv (tuple_encode L f w x) = wv w @ [Cont DBUS_TYPE_STRUCT [] (fv x)]
      \<and> wk (tuple_encode L f w x) = wk w" if "ok x" for w x
    using that by (simp add: tuple_encode_def close_struct close_ctx fields.fenc_vals [OF f]
        fields.fenc_ctx [OF f] open_vals open_ctx fields.fv_nonempty [OF f])
  show ?thesis
  proof unfold_locales
    fix r x vs
    assume x: "ok x" and r: "rv r = Cont DBUS_TYPE_STRUCT [] (fv x) # vs"
    then obtain r' where "fdec f (iter_recurse L r) = ret (x, r')"
      using fields.fdec_vals [OF f x, of "iter_recurse L r" "[]"] by (auto simp: recurse_vals)
    with r show "\<exists>r'. dec (tuple_codec L f) r = ret (x, r') \<and> rv r' = vs"
      using recurse_ret [OF r] by (auto simp: tuple_codec_def tuple_decode_def next_vals)
  qed (use fields.fv_nonempty [OF f] fields.fv_sig [OF f] fields.fv_wf [OF f] in
      \<open>auto simp: tuple_codec_def enc tuple_make_type_signature_def tuple_decode_def recurse_throw
        container_ok_def\<close>)
qed

lemma tuple_total [codec_intros]:
  assumes f: "total_fields L bvalid wk wv rv f"
  shows "total_decoder L bvalid wk wv rv (tuple_codec L f)"
proof unfold_locales
  fix r
  assume wf: "list_all wf_dval (rv r)"
  show "dec (tuple_codec L f) r = throw DecoderError \<or>
    (\<exists>x r'. dec (tuple_codec L f) r = ret (x, r') \<and> rv r \<noteq> [] \<and> rv r' = tl (rv r))"
  proof (rule recurse_cases [OF wf, of DBUS_TYPE_STRUCT])
    fix g cs vs
    assume *: "rv r = Cont DBUS_TYPE_STRUCT g cs # vs" "list_all wf_dval cs"
      "simppl_dbus_message_iter_recurse L r DBUS_TYPE_STRUCT = ret (iter_recurse L r)"
      "rv (iter_recurse L r) = cs" "rv (iter_next L r) = vs"
    then show ?thesis
      using total_fields.fdec_total [OF f, of "iter_recurse L r"]
      by (auto simp: tuple_codec_def tuple_decode_def)
  qed (auto simp: tuple_codec_def tuple_decode_def)
qed

lemmas struct_ok [codec_intros] = tuple_ok [folded struct_is_tuple]

lemmas struct_total [codec_intros] = tuple_total [folded struct_is_tuple]

end

section \<open>Wide strings (wstring.cpp)\<close>

definition wstring_encode :: "('w, 'r) dbus_iter_api \<Rightarrow> 'w \<Rightarrow> 32 word list \<Rightarrow> 'w" where
  "wstring_encode L iter str =
     (let it = open_container L iter DBUS_TYPE_ARRAY (Some [DBUS_TYPE_UINT32]);
          it = foldl (\<lambda>it t. enc (uint32_codec L) it t) it str
      in close_container L iter it)"

text \<open>\<open>str.reserve(count)\<close> changes no value; the loop is the one of the vector codec.\<close>

partial_function (option) wstring_decode_loop ::
  "('w, 'r) dbus_iter_api \<Rightarrow> 'r \<Rightarrow> 32 word list \<Rightarrow> 32 word list res" where
  "wstring_decode_loop L it str =
     (if get_arg_type L it = DBUS_TYPE_INVALID then ret str
      else rbind (dec (uint32_codec L) it) (\<lambda>(t, it'). wstring_decode_loop L it' (str @ [t])))"

definition wstring_decode :: "('w, 'r) dbus_iter_api \<Rightarrow> 'r \<Rightarrow> (32 word list \<times> 'r) res" where
  "wstring_decode L iter =
     rbind (simppl_dbus_message_iter_recurse L iter DBUS_TYPE_ARRAY)
       (\<lambda>it. rbind (wstring_decode_loop L it []) (\<lambda>str. ret (str, iter_next L iter)))"

text \<open>The overloads for \<open>wchar_t*\<close>: \<open>None\<close> is the null pointer.\<close>

definition wchars_encode :: "('w, 'r) dbus_iter_api \<Rightarrow> 'w \<Rightarrow> 32 word list option \<Rightarrow> 'w" where
  "wchars_encode L iter str =
     (let it = open_container L iter DBUS_TYPE_ARRAY (Some [DBUS_TYPE_UINT32]);
          it = (case str of None \<Rightarrow> it
                | Some s \<Rightarrow> foldl (\<lambda>it t. enc (uint32_codec L) it t) it (takeWhile (\<lambda>t. t \<noteq> 0) s))
      in close_container L iter it)"

text \<open>
  The block of \<open>count + 1\<close> characters: \<open>i\<close> counts the characters written, a write behind the
  block is undefined.
\<close>

partial_function (option) wchars_decode_loop ::
  "('w, 'r) dbus_iter_api \<Rightarrow> 'r \<Rightarrow> 32 word list \<Rightarrow> nat \<Rightarrow> 32 word list res" where
  "wchars_decode_loop L it buf i =
     (if get_arg_type L it = DBUS_TYPE_INVALID then ret buf
      else rbind (dec (uint32_codec L) it) (\<lambda>(t, it').
        if i < length buf then wchars_decode_loop L it' (buf[i := t]) (Suc i)
        else throw UndefinedBehaviour))"

definition wchars_decode ::
  "(nat \<Rightarrow> 32 word) \<Rightarrow> ('w, 'r) dbus_iter_api \<Rightarrow> 'r \<Rightarrow> (32 word list option \<times> 'r) res" where
  "wchars_decode junk L iter =
     rbind (simppl_dbus_message_iter_recurse L iter DBUS_TYPE_ARRAY)
       (\<lambda>it. let count = get_element_count L iter in
          if count > 0 then
            rbind (wchars_decode_loop L it ((map junk [0..<count + 1])[count := 0]) 0)
              (\<lambda>buf. ret (Some buf, iter_next L iter))
          else ret (None, iter_next L iter))"

definition wstring_make_type_signature :: "('w, 'r) dbus_iter_api \<Rightarrow> string" where
  "wstring_make_type_signature L = ''a'' @ sgn (uint32_codec L)"

definition wstring_codec :: "('w, 'r) dbus_iter_api \<Rightarrow> ('w, 'r, 32 word list) codec" where
  "wstring_codec L = \<lparr>enc = wstring_encode L, dec = wstring_decode L,
     sgn = wstring_make_type_signature L\<rparr>"

context dbus_iter begin

lemma wstring_loop_vector: "wstring_decode_loop L = vector_decode_loop L (uint32_codec L)"
proof -
  have le1: "wstring_decode_loop L it acc = Some y \<Longrightarrow> vector_decode_loop L (uint32_codec L) it acc = Some y" for it acc y
    by (rule wstring_decode_loop.raw_induct
        [where P = "\<lambda>L it acc y. vector_decode_loop L (uint32_codec L) it acc = Some y"])
      (subst vector_decode_loop.simps,
       auto simp: rbind_eq_Some split: if_splits)
  have le2: "vector_decode_loop L' c it acc = Some y \<Longrightarrow> c = uint32_codec L' \<longrightarrow> wstring_decode_loop L' it acc = Some y" for L' c it acc y
    by (rule vector_decode_loop.raw_induct
        [where P = "\<lambda>L c it acc y. c = uint32_codec L \<longrightarrow> wstring_decode_loop L it acc = Some y"])
      (subst wstring_decode_loop.simps,
       auto simp: rbind_eq_Some split: if_splits)
  show ?thesis
    by (intro ext) (metis le1 le2 not_Some_eq)
qed

lemma wstring_codec_vector: "wstring_codec L = vector_codec L (uint32_codec L)"
  by (auto simp: wstring_codec_def vector_codec_def wstring_encode_def vector_encode_def
      wstring_make_type_signature_def wstring_decode_def vector_decode_def wstring_loop_vector
      fun_eq_iff Let_def uint32_codec_def basic_codec_def)

lemmas wstring_ok [codec_intros] =
  vector_ok [OF key_codec.axioms(1) [OF uint32_ok], folded wstring_codec_vector]

lemmas wstring_total [codec_intros] = vector_total [OF basic_totals(3), folded wstring_codec_vector]

text \<open>
  The \<open>wchar_t*\<close> overload stays inside its block on every well-formed message and leaves the
  terminator, its last character, alone.
\<close>

lemma wchars_loop_bounds:
  "list_all wf_dval (rv it) \<Longrightarrow> i + length (rv it) < length buf \<Longrightarrow>
     wchars_decode_loop L it buf i = throw DecoderError \<or>
     (\<exists>buf'. wchars_decode_loop L it buf i = ret buf' \<and> length buf' = length buf \<and> last buf' = last buf)"
proof (induction "rv it" arbitrary: it buf i)
  case Nil
  then show ?case by (subst (1 2) wchars_decode_loop.simps) (simp add: arg_type_end)
next
  case (Cons v vs)
  note tot = total_decoder.dec_total [OF basic_totals(3) Cons.prems(1)]
  from tot show ?case
  proof
    assume "dec (uint32_codec L) it = throw DecoderError"
    moreover have "get_arg_type L it \<noteq> DBUS_TYPE_INVALID"
      using Cons.hyps(2) Cons.prems(1) wf_dval_valid [of v] by (auto simp: arg_type_val dest: sym)
    ultimately show ?thesis by (subst (1 2) wchars_decode_loop.simps) simp
  next
    assume "\<exists>x r'. dec (uint32_codec L) it = ret (x, r') \<and> rv it \<noteq> [] \<and> rv r' = tl (rv it)"
    then obtain x r' where r': "dec (uint32_codec L) it = ret (x, r')" "rv r' = vs"
      using Cons.hyps(2) by (metis list.sel(3))
    moreover have "get_arg_type L it \<noteq> DBUS_TYPE_INVALID"
      using Cons.hyps(2) Cons.prems(1) wf_dval_valid [of v] by (auto simp: arg_type_val dest: sym)
    moreover have i: "i + Suc (length vs) < length buf"
      using Cons.hyps(2) Cons.prems(2) by (metis length_Cons)
    moreover have "list_all wf_dval (rv r')"
      using Cons.hyps(2) Cons.prems(1) r'(2) by (metis list.pred_inject(2))
    moreover have "last (buf[i := x]) = last buf"
      using i by (simp add: last_update_before)
    ultimately show ?thesis
      using Cons.hyps(1) [of r' "Suc i" "buf[i := x]"]
      by (subst (1 2) wchars_decode_loop.simps) auto
  qed
qed

lemma wchars_loop_vals:
  "list_all (\<lambda>x. bvalid (BUint32 x)) xs \<Longrightarrow> rv it = map (\<lambda>x. Basic (BUint32 x)) xs \<Longrightarrow>
   length buf = i + length xs + 1 \<Longrightarrow>
     wchars_decode_loop L it buf i = ret (take i buf @ xs @ [last buf])"
proof (induction xs arbitrary: it buf i)
  case Nil
  then have "buf = take i buf @ [last buf]"
    by (metis One_nat_def add.right_neutral append_butlast_last_id butlast_conv_take diff_Suc_1
        length_0_conv list.size(3) nat.simps(3) Suc_eq_plus1)
  with Nil show ?case by (subst wchars_decode_loop.simps) (simp add: arg_type_end)
next
  case (Cons x xs)
  then obtain r' where r': "dec (uint32_codec L) it = ret (x, r')" "rv r' = map (\<lambda>x. Basic (BUint32 x)) xs"
    using codec.dec_vals [OF key_codec.axioms(1) [OF uint32_ok], of x it "map (\<lambda>x. Basic (BUint32 x)) xs"]
    by auto
  have "last (buf[i := x]) = last buf" "take (Suc i) (buf[i := x]) = take i buf @ [x]"
    using Cons.prems(3) by (simp_all add: last_update_before take_Suc_conv_app_nth)
  with r' Cons show ?case
    by (subst wchars_decode_loop.simps) (simp add: arg_type_val)
qed

lemma wchars_decode_total:
  assumes wf: "list_all wf_dval (rv r)"
  shows "wchars_decode junk L r = throw DecoderError \<or>
    (\<exists>s r'. wchars_decode junk L r = ret (s, r') \<and> rv r' = tl (rv r) \<and>
       (case s of None \<Rightarrow> True | Some buf \<Rightarrow> buf \<noteq> [] \<and> last buf = 0))"
proof (rule recurse_cases [OF wf, of DBUS_TYPE_ARRAY])
  fix g cs vs
  assume *: "rv r = Cont DBUS_TYPE_ARRAY g cs # vs" "list_all wf_dval cs"
    "simppl_dbus_message_iter_recurse L r DBUS_TYPE_ARRAY = ret (iter_recurse L r)"
    "rv (iter_recurse L r) = cs" "rv (iter_next L r) = vs"
  let ?buf = "(map junk [0..<length cs + 1])[length cs := 0]"
  have n: "get_element_count L r = length cs"
    by (rule count_val [OF *(1)])
  have l: "length ?buf = length cs + 1" "last ?buf = 0"
    by (simp_all add: last_list_update)
  show ?thesis
  proof (cases "cs = []")
    case True
    with * n show ?thesis by (simp add: wchars_decode_def)
  next
    case False
    have "list_all wf_dval (rv (iter_recurse L r))" "0 + length (rv (iter_recurse L r)) < length ?buf"
      using * l(1) by simp_all
    from wchars_loop_bounds [OF this] show ?thesis
      using * n l False by (fastforce simp: wchars_decode_def)
  qed
qed (auto simp: wchars_decode_def)

end

interpretation ref_fields: fields ref_api "\<lambda>_. True" fst snd "\<lambda>r. r" "StdTupleForEach_last (string_codec ref_api)"
  ref.string_ok "\<lambda>s. [Basic (BString (c_str s))]"
  by (rule ref.StdTupleForEach_last_ok [OF key_codec.axioms(1) [OF ref.string_codec_ok]])

interpretation ref_fields_total: total_fields ref_api "\<lambda>_. True" fst snd "\<lambda>r. r"
  "StdTupleForEach_last (string_codec ref_api)"
  by (rule ref.StdTupleForEach_last_total [OF ref.basic_totals(6)])

end
