(* ===== verification/Variants.thy ===== *)
theory Variants
  imports Aggregates
begin

text \<open>
  \<open>Codec<std::variant<T...>>\<close> (\<open>variant.h\<close>), the variant every property value is wrapped in
  (\<open>property.h\<close>), fixed-size byte buffers (\<open>buffer.h\<close>) and \<open>Any\<close> (\<open>any.h\<close>).
\<close>

section \<open>std::variant\<close>

text \<open>
  The alternatives of a variant type. \<open>aenc\<close> is what \<open>std::visit\<close> does with a
  \<open>VariantSerializer\<close>; \<open>adec\<close> is \<open>VariantDeserializer::eval\<close>, \<open>None\<close> when it returns false;
  \<open>asigs\<close> are the signatures of the alternatives in order.
\<close>

record ('w, 'r, 'a) alts =
  aenc :: "'w \<Rightarrow> 'a \<Rightarrow> 'w"
  adec :: "'r \<Rightarrow> string \<Rightarrow> ('a option) res"
  asigs :: "string list"

definition VariantSerializer ::
  "('w, 'r) dbus_iter_api \<Rightarrow> ('w, 'r, 'a) codec \<Rightarrow> 'w \<Rightarrow> 'a \<Rightarrow> 'w" where
  "VariantSerializer L c orig t =
     (let iter = open_container L orig DBUS_TYPE_VARIANT (Some (sgn c));
          iter = enc c iter t
      in close_container L orig iter)"

text \<open>\<open>VariantDeserializer<T>\<close> ends the recursion, \<open>VariantDeserializer<T1, T...>\<close> tries \<open>T1\<close> first.\<close>

definition VariantDeserializer_last ::
  "('w, 'r, 'a) codec \<Rightarrow> 'r \<Rightarrow> string \<Rightarrow> ('a option) res" where
  "VariantDeserializer_last c iter sig =
     (if sgn c = sig then rbind (dec c iter) (\<lambda>(v, _). ret (Some v)) else ret None)"

definition VariantDeserializer ::
  "('w, 'r, 'a) codec \<Rightarrow> ('w, 'r, 'b) alts \<Rightarrow> 'r \<Rightarrow> string \<Rightarrow> (('a + 'b) option) res" where
  "VariantDeserializer c rest iter sig =
     (if sgn c = sig then rbind (dec c iter) (\<lambda>(v, _). ret (Some (Inl v)))
      else rbind (adec rest iter sig) (\<lambda>r. ret (map_option Inr r)))"

definition alts_last :: "('w, 'r) dbus_iter_api \<Rightarrow> ('w, 'r, 'a) codec \<Rightarrow> ('w, 'r, 'a) alts" where
  "alts_last L c =
     \<lparr>aenc = VariantSerializer L c, adec = VariantDeserializer_last c, asigs = [sgn c]\<rparr>"

definition alts_cons ::
  "('w, 'r) dbus_iter_api \<Rightarrow> ('w, 'r, 'a) codec \<Rightarrow> ('w, 'r, 'b) alts \<Rightarrow> ('w, 'r, 'a + 'b) alts" where
  "alts_cons L c rest =
     \<lparr>aenc = (\<lambda>w v. case v of Inl x \<Rightarrow> VariantSerializer L c w x | Inr y \<Rightarrow> aenc rest w y),
      adec = VariantDeserializer c rest,
      asigs = sgn c # asigs rest\<rparr>"

text \<open>\<open>v0\<close> is the value the variant object holds before the call: no alternative matching, it keeps it.\<close>

definition variant_decode ::
  "('w, 'r) dbus_iter_api \<Rightarrow> ('w, 'r, 'a) alts \<Rightarrow> 'a \<Rightarrow> 'r \<Rightarrow> ('a \<times> 'r) res" where
  "variant_decode L a v0 orig =
     rbind (simppl_dbus_message_iter_recurse L orig DBUS_TYPE_VARIANT) (\<lambda>iter.
     rbind (adec a iter (get_signature L iter)) (\<lambda>r.
     ret (case r of Some v \<Rightarrow> v | None \<Rightarrow> v0, iter_next L orig)))"

definition variant_codec ::
  "('w, 'r) dbus_iter_api \<Rightarrow> ('w, 'r, 'a) alts \<Rightarrow> 'a \<Rightarrow> ('w, 'r, 'a) codec" where
  "variant_codec L a v0 = \<lparr>enc = aenc a, dec = variant_decode L a v0, sgn = ''v''\<rparr>"

text \<open>
  What the alternatives promise: an alternative is written as a variant holding its value, and
  that value, announced by its signature, is read back as the same alternative.
\<close>

locale alternatives = dbus_iter L bvalid wk wv rv
  for L :: "('w, 'r) dbus_iter_api" and bvalid wk wv rv +
  fixes a :: "('w, 'r, 'a) alts" and ok :: "'a \<Rightarrow> bool" and av :: "'a \<Rightarrow> dval"
  assumes aenc_vals: "ok x \<Longrightarrow> wv (aenc a w x) = wv w @ [Cont DBUS_TYPE_VARIANT (dsig (av x)) [av x]]"
    and aenc_ctx: "ok x \<Longrightarrow> wk (aenc a w x) = wk w"
    and av_sig: "ok x \<Longrightarrow> dsig (av x) \<in> set (asigs a)"
    and av_wf: "ok x \<Longrightarrow> wf_dval (av x)"
    and adec_vals: "ok x \<Longrightarrow> rv r = [av x] \<Longrightarrow> adec a r (dsig (av x)) = ret (Some x)"
    and adec_miss: "g \<notin> set (asigs a) \<Longrightarrow> adec a r g = ret None"

locale total_alternatives = dbus_iter L bvalid wk wv rv
  for L :: "('w, 'r) dbus_iter_api" and bvalid wk wv rv +
  fixes a :: "('w, 'r, 'a) alts"
  assumes adec_total: "list_all wf_dval (rv r) \<Longrightarrow>
      adec a r g = throw DecoderError \<or> (\<exists>y. adec a r g = ret y)"

context codec begin

lemma VariantSerializer_vals:
  "ok x \<Longrightarrow> wv (VariantSerializer L c w x) = wv w @ [Cont DBUS_TYPE_VARIANT (sgn c) [cv x]]
     \<and> wk (VariantSerializer L c w x) = wk w"
  by (simp add: VariantSerializer_def Let_def close_ctx enc_vals enc_ctx open_vals open_ctx
      close_variant [where v = "cv x"] cv_sig)

end

context total_decoder begin

lemma dec_ret_or_throw:
  assumes "list_all wf_dval (rv r)"
  shows "rbind (dec c r) (\<lambda>(v, _). ret (g v)) = throw DecoderError \<or>
    (\<exists>y. rbind (dec c r) (\<lambda>(v, _). ret (g v)) = ret y)"
  using dec_total [OF assms] by auto

end

context dbus_iter begin

lemma alts_last_ok [codec_intros]:
  assumes c: "codec L bvalid wk wv rv c ok cv"
  shows "alternatives L bvalid wk wv rv (alts_last L c) ok cv"
proof unfold_locales
  fix r x
  assume "ok x" "rv r = [cv x]"
  then show "adec (alts_last L c) r (dsig (cv x)) = ret (Some x)"
    using codec.dec_vals [OF c, of x r "[]"] codec.cv_sig [OF c]
    by (auto simp: alts_last_def VariantDeserializer_last_def)
qed (use codec.VariantSerializer_vals [OF c] codec.cv_sig [OF c] codec.cv_wf [OF c] in
    \<open>auto simp: alts_last_def VariantDeserializer_last_def\<close>)

lemma alts_cons_ok [codec_intros]:
  assumes c: "codec L bvalid wk wv rv c okc cv"
    and a: "alternatives L bvalid wk wv rv rest okr av"
    and new: "sgn c \<notin> set (asigs rest)"
  shows "alternatives L bvalid wk wv rv (alts_cons L c rest) (case_sum okc okr) (case_sum cv av)"
proof unfold_locales
  fix r x
  assume x: "case_sum okc okr x" and r: "rv r = [case_sum cv av x]"
  show "adec (alts_cons L c rest) r (dsig (case_sum cv av x)) = ret (Some x)"
  proof (cases x)
    case (Inl y)
    with x r show ?thesis
      using codec.dec_vals [OF c, of y r "[]"] codec.cv_sig [OF c, of y]
      by (auto simp: alts_cons_def VariantDeserializer_def)
  next
    case (Inr y)
    with x new alternatives.av_sig [OF a, of y] have "sgn c \<noteq> dsig (av y)" by auto
    with Inr x r show ?thesis
      using alternatives.adec_vals [OF a, of y r]
      by (auto simp: alts_cons_def VariantDeserializer_def)
  qed
next
  fix r g
  assume "g \<notin> set (asigs (alts_cons L c rest))"
  then show "adec (alts_cons L c rest) r g = ret None"
    using alternatives.adec_miss [OF a, of g r] by (auto simp: alts_cons_def VariantDeserializer_def)
qed (use codec.VariantSerializer_vals [OF c] codec.cv_sig [OF c] codec.cv_wf [OF c]
      alternatives.aenc_vals [OF a] alternatives.aenc_ctx [OF a] alternatives.av_sig [OF a]
      alternatives.av_wf [OF a] in \<open>auto simp: alts_cons_def split: sum.splits\<close>)

lemma variant_ok [codec_intros]:
  assumes a: "alternatives L bvalid wk wv rv a ok av"
  shows "codec L bvalid wk wv rv (variant_codec L a v0) ok
    (\<lambda>x. Cont DBUS_TYPE_VARIANT (dsig (av x)) [av x])"
proof unfold_locales
  fix r x vs
  assume x: "ok x" and r: "rv r = Cont DBUS_TYPE_VARIANT (dsig (av x)) [av x] # vs"
  then have "rv (iter_recurse L r) = [av x]" by (simp add: recurse_vals)
  with x have "adec a (iter_recurse L r) (get_signature L (iter_recurse L r)) = ret (Some x)"
    by (simp add: signature_val alternatives.adec_vals [OF a])
  with r show "\<exists>r'. dec (variant_codec L a v0) r = ret (x, r') \<and> rv r' = vs"
    using recurse_ret [OF r] by (auto simp: variant_codec_def variant_decode_def next_vals)
qed (use alternatives.aenc_vals [OF a] alternatives.aenc_ctx [OF a] alternatives.av_wf [OF a] in
    \<open>auto simp: variant_codec_def variant_decode_def recurse_throw container_ok_def\<close>)

lemma alts_last_total [codec_intros]:
  assumes c: "total_decoder L bvalid wk wv rv c"
  shows "total_alternatives L bvalid wk wv rv (alts_last L c)"
proof unfold_locales
  fix r g
  assume "list_all wf_dval (rv r)"
  then show "adec (alts_last L c) r g = throw DecoderError \<or> (\<exists>y. adec (alts_last L c) r g = ret y)"
    using total_decoder.dec_ret_or_throw [OF c, of r Some] by (auto simp: alts_last_def VariantDeserializer_last_def)
qed

lemma alts_cons_total [codec_intros]:
  assumes c: "total_decoder L bvalid wk wv rv c" and a: "total_alternatives L bvalid wk wv rv rest"
  shows "total_alternatives L bvalid wk wv rv (alts_cons L c rest)"
proof unfold_locales
  fix r g
  assume "list_all wf_dval (rv r)"
  then show "adec (alts_cons L c rest) r g = throw DecoderError \<or> (\<exists>y. adec (alts_cons L c rest) r g = ret y)"
    using total_decoder.dec_ret_or_throw [OF c, of r "\<lambda>v. Some (Inl v)"] total_alternatives.adec_total [OF a, of r g]
    by (auto simp: alts_cons_def VariantDeserializer_def)
qed

lemma variant_total [codec_intros]:
  assumes a: "total_alternatives L bvalid wk wv rv a"
  shows "total_decoder L bvalid wk wv rv (variant_codec L a v0)"
proof unfold_locales
  fix r
  assume wf: "list_all wf_dval (rv r)"
  show "dec (variant_codec L a v0) r = throw DecoderError \<or>
      (\<exists>x r'. dec (variant_codec L a v0) r = ret (x, r') \<and> rv r \<noteq> [] \<and> rv r' = tl (rv r))"
  proof (rule recurse_cases [OF wf, of DBUS_TYPE_VARIANT])
    fix g cs vs
    assume *: "rv r = Cont DBUS_TYPE_VARIANT g cs # vs" "list_all wf_dval cs"
        "simppl_dbus_message_iter_recurse L r DBUS_TYPE_VARIANT = ret (iter_recurse L r)"
        "rv (iter_recurse L r) = cs" "rv (iter_next L r) = vs"
    have "list_all wf_dval (rv (iter_recurse L r))" using * by simp
    from total_alternatives.adec_total [OF a this, of "get_signature L (iter_recurse L r)"] * show ?thesis
      by (auto simp: variant_codec_def variant_decode_def)
  qed (auto simp: variant_codec_def variant_decode_def)
qed

text \<open>
  When an alternative has the signature of an earlier one, its value comes back as the
  earlier alternative.
\<close>

lemma variant_first_match:
  assumes r: "rv r = Cont DBUS_TYPE_VARIANT g [v] # vs" and g: "dsig v = sgn c" "g = dsig v"
    and d: "dec c (iter_recurse L r) = ret (x, it)"
  shows "dec (variant_codec L (alts_cons L c rest) v0) r = ret (Inl x, iter_next L r)"
  using recurse_ret [OF r] d g signature_val [of "iter_recurse L r" v]
  by (simp add: variant_codec_def variant_decode_def alts_cons_def VariantDeserializer_def)

end

section \<open>PropertyCodec\<close>

definition PropertyCodec_encode ::
  "('w, 'r) dbus_iter_api \<Rightarrow> ('w, 'r, 'a) codec \<Rightarrow> 'w \<Rightarrow> 'a \<Rightarrow> 'w" where
  "PropertyCodec_encode L c iter t = VariantSerializer L c iter t"

definition PropertyCodec_decode ::
  "('w, 'r) dbus_iter_api \<Rightarrow> ('w, 'r, 'a) codec \<Rightarrow> 'r \<Rightarrow> ('a \<times> 'r) res" where
  "PropertyCodec_decode L c iter =
     rbind (simppl_dbus_message_iter_recurse L iter DBUS_TYPE_VARIANT) (\<lambda>sub.
     rbind (dec c sub) (\<lambda>(t, sub). ret (t, iter_next L iter)))"

definition property_codec ::
  "('w, 'r) dbus_iter_api \<Rightarrow> ('w, 'r, 'a) codec \<Rightarrow> ('w, 'r, 'a) codec" where
  "property_codec L c =
     \<lparr>enc = PropertyCodec_encode L c, dec = PropertyCodec_decode L c, sgn = ''v''\<rparr>"

definition property_val :: "('a \<Rightarrow> dval) \<Rightarrow> 'a \<Rightarrow> dval" where
  "property_val cv x = Cont DBUS_TYPE_VARIANT (dsig (cv x)) [cv x]"

context dbus_iter begin

lemma property_ok [codec_intros]:
  assumes c: "codec L bvalid wk wv rv c ok cv"
  shows "codec L bvalid wk wv rv (property_codec L c) ok (property_val cv)"
proof unfold_locales
  fix r x vs
  assume x: "ok x" and r: "rv r = property_val cv x # vs"
  then obtain r' where "dec c (iter_recurse L r) = ret (x, r')"
    using codec.dec_vals [OF c x, of "iter_recurse L r" "[]"] by (auto simp: recurse_vals property_val_def)
  with r show "\<exists>r'. dec (property_codec L c) r = ret (x, r') \<and> rv r' = vs"
    using recurse_ret [OF r [unfolded property_val_def]]
    by (auto simp: property_codec_def PropertyCodec_decode_def next_vals)
qed (use codec.VariantSerializer_vals [OF c] codec.cv_sig [OF c] codec.cv_wf [OF c] in
    \<open>auto simp: property_codec_def PropertyCodec_encode_def PropertyCodec_decode_def recurse_throw
      property_val_def container_ok_def\<close>)

lemma property_total [codec_intros]:
  assumes c: "total_decoder L bvalid wk wv rv c"
  shows "total_decoder L bvalid wk wv rv (property_codec L c)"
proof unfold_locales
  fix r
  assume wf: "list_all wf_dval (rv r)"
  show "dec (property_codec L c) r = throw DecoderError \<or>
      (\<exists>x r'. dec (property_codec L c) r = ret (x, r') \<and> rv r \<noteq> [] \<and> rv r' = tl (rv r))"
  proof (rule recurse_cases [OF wf, of DBUS_TYPE_VARIANT])
    fix g cs vs
    assume *: "rv r = Cont DBUS_TYPE_VARIANT g cs # vs" "list_all wf_dval cs"
        "simppl_dbus_message_iter_recurse L r DBUS_TYPE_VARIANT = ret (iter_recurse L r)"
        "rv (iter_recurse L r) = cs" "rv (iter_next L r) = vs"
    have "list_all wf_dval (rv (iter_recurse L r))" using * by simp
    from total_decoder.dec_total [OF c this] * show ?thesis
      by (auto simp: property_codec_def PropertyCodec_decode_def)
  qed (auto simp: property_codec_def PropertyCodec_decode_def)
qed

end

interpretation ref_alts: alternatives ref_api "\<lambda>_. True" fst snd "\<lambda>r. r"
  "alts_last ref_api (string_codec ref_api)" ref.string_ok "\<lambda>s. Basic (BString (c_str s))"
  by (rule ref.alts_last_ok [OF key_codec.axioms(1) [OF ref.string_codec_ok]])

interpretation ref_alts_total: total_alternatives ref_api "\<lambda>_. True" fst snd "\<lambda>r. r"
  "alts_last ref_api (string_codec ref_api)"
  by (rule ref.alts_last_total [OF ref.basic_totals(6)])

section \<open>Fixed-size byte buffers\<close>

text \<open>
  \<open>Codec<FixedSizeBuffer<len>>\<close>. The value is the \<open>len\<close> bytes behind \<open>buf\<close>. \<open>decode\<close> hands
  the pointer it got from libdbus to \<open>assign\<close>, which copies \<open>len\<close> bytes from it into its block
  (\<open>junk\<close> is what the block holds before), whatever number of bytes libdbus said there are.
  \<open>memcpy\<close> copies byte by byte; outside of one of the two arrays a read or write is undefined.
\<close>

fun memcpy :: "8 word list \<Rightarrow> 8 word list \<Rightarrow> nat \<Rightarrow> nat \<Rightarrow> 8 word list res" where
  "memcpy dst src i 0 = ret dst"
| "memcpy dst src i (Suc n) =
     (if i < length dst \<and> i < length src then memcpy (dst[i := src ! i]) src (Suc i) n
      else throw UndefinedBehaviour)"

definition FixedSizeBuffer_assign_bytes :: "(nat \<Rightarrow> 8 word) \<Rightarrow> nat \<Rightarrow> 8 word list \<Rightarrow> 8 word list res" where
  "FixedSizeBuffer_assign_bytes junk len b = memcpy (map junk [0..<len]) b 0 len"

definition buffer_encode :: "nat \<Rightarrow> ('w, 'r) dbus_iter_api \<Rightarrow> 'w \<Rightarrow> 8 word list \<Rightarrow> 'w" where
  "buffer_encode len L iter b =
     (let it = open_container L iter DBUS_TYPE_ARRAY (Some [DBUS_TYPE_BYTE]);
          it = append_fixed_array L it DBUS_TYPE_BYTE (take len b)
      in close_container L iter it)"

definition buffer_decode ::
  "nat \<Rightarrow> (nat \<Rightarrow> 8 word) \<Rightarrow> ('w, 'r) dbus_iter_api \<Rightarrow> 'r \<Rightarrow> (8 word list \<times> 'r) res" where
  "buffer_decode len junk L iter =
     rbind (simppl_dbus_message_iter_recurse L iter DBUS_TYPE_ARRAY) (\<lambda>it.
     rbind (FixedSizeBuffer_assign_bytes junk len (get_fixed_array L it)) (\<lambda>buf.
     ret (buf, iter_next L iter)))"

definition buffer_make_type_signature :: string where
  "buffer_make_type_signature = ''a''"

definition buffer_codec ::
  "nat \<Rightarrow> (nat \<Rightarrow> 8 word) \<Rightarrow> ('w, 'r) dbus_iter_api \<Rightarrow> ('w, 'r, 8 word list) codec" where
  "buffer_codec len junk L =
     \<lparr>enc = buffer_encode len L, dec = buffer_decode len junk L, sgn = buffer_make_type_signature\<rparr>"

text \<open>
  The bytes before \<open>i\<close> are copied when the loop is at \<open>i\<close>; it goes on to the end unless the
  source ends first.
\<close>

lemma memcpy_vals:
  assumes "i + n = length dst" and "i \<le> length src" and "take i dst = take i src"
  shows "memcpy dst src i n =
    (if length src < length dst then throw UndefinedBehaviour else ret (take (length dst) src))"
  using assms
proof (induction n arbitrary: i dst)
  case 0
  then show ?case by simp
next
  case (Suc n)
  show ?case
  proof (cases "i < length src")
    case True
    then have "take (Suc i) (dst[i := src ! i]) = take (Suc i) src"
      using Suc.prems by (simp add: take_Suc_conv_app_nth)
    with True Suc.prems show ?thesis
      using Suc.IH [of "Suc i" "dst[i := src ! i]"] by simp
  next
    case False
    with Suc.prems show ?thesis by simp
  qed
qed

lemma assign_vals:
  "FixedSizeBuffer_assign_bytes junk len b =
     (if length b < len then throw UndefinedBehaviour else ret (take len b))"
  using memcpy_vals [of 0 len "map junk [0..<len]" b] by (simp add: FixedSizeBuffer_assign_bytes_def)

definition bytes_val :: "8 word list \<Rightarrow> dval" where
  "bytes_val bs = Cont DBUS_TYPE_ARRAY ''y'' (map (\<lambda>b. Basic (BByte b)) bs)"

context dbus_iter begin

lemma buffer_encode_vals:
  "length b = len \<Longrightarrow> wv (buffer_encode len L w b) = wv w @ [bytes_val b]"
  by (simp add: buffer_encode_def Let_def bytes_val_def close_array fixed_vals fixed_ctx open_vals
      open_ctx list_all_iff)

lemma buffer_decode_vals:
  assumes r: "rv r = bytes_val bs # vs"
  shows "buffer_decode len junk L r =
    (if length bs < len then throw UndefinedBehaviour else ret (take len bs, iter_next L r))"
proof -
  have "rv (iter_recurse L r) = map (\<lambda>b. Basic (BByte b)) bs"
    using recurse_vals [OF r [unfolded bytes_val_def]] .
  then have "get_fixed_array L (iter_recurse L r) = bs"
    by (subst fixed_read) auto
  then show ?thesis
    using recurse_ret [OF r [unfolded bytes_val_def]] by (simp add: buffer_decode_def assign_vals)
qed

end

end
