(* ===== verification/AnyValue.thy ===== *)
theory AnyValue
  imports Variants
begin

text \<open>
  \<open>simppl::dbus::Any\<close> (\<open>include/simppl/any.h\<close>): a value set by the program, or a reference into
  a received message that is only deserialized when the program asks for a type.

  The C++ types an \<open>Any\<close> is used with are descriptors \<open>cpp_type\<close>: the type's identity (what
  \<open>std::is_same\<close> and \<open>std::any_cast\<close> compare) and its codec, over one type \<open>'e cpp_value\<close> of values.
\<close>

datatype 'e cpp_value = VInt "32 word" | VDouble "64 word" | VString string | VOther 'e

record ('w, 'r, 'e) cpp_type =
  type_id :: nat
  type_codec :: "('w, 'r, 'e cpp_value) codec"

fun un_VInt where "un_VInt (VInt i) = i" | "un_VInt _ = 0"
fun un_VDouble where "un_VDouble (VDouble i) = i" | "un_VDouble _ = 0"
fun un_VString where "un_VString (VString s) = s" | "un_VString _ = []"

definition codec_iso :: "('a \<Rightarrow> 'b) \<Rightarrow> ('b \<Rightarrow> 'a) \<Rightarrow> ('w, 'r, 'a) codec \<Rightarrow> ('w, 'r, 'b) codec" where
  "codec_iso mk un c = \<lparr>
     enc = (\<lambda>w y. enc c w (un y)),
     dec = (\<lambda>r. rbind (dec c r) (\<lambda>(x, r'). ret (mk x, r'))),
     sgn = sgn c\<rparr>"

definition int_type :: "('w, 'r) dbus_iter_api \<Rightarrow> ('w, 'r, 'e) cpp_type" where
  "int_type L = \<lparr>type_id = 0, type_codec = codec_iso VInt un_VInt (int32_codec L)\<rparr>"

definition double_type :: "('w, 'r) dbus_iter_api \<Rightarrow> ('w, 'r, 'e) cpp_type" where
  "double_type L = \<lparr>type_id = 1, type_codec = codec_iso VDouble un_VDouble (double_codec L)\<rparr>"

definition string_type :: "('w, 'r) dbus_iter_api \<Rightarrow> ('w, 'r, 'e) cpp_type" where
  "string_type L = \<lparr>type_id = 2, type_codec = codec_iso VString un_VString (string_codec L)\<rparr>"

text \<open>
  \<open>std::variant<Iterator, int, double, std::string, AnyImpl>\<close>. An \<open>Iterator\<close> without a message is
  \<open>AnyIterator None\<close> (the default constructed \<open>Any\<close>); an \<open>AnyImpl\<close> holds an encoder and a
  \<open>std::any\<close>, \<open>AnyImpl None\<close> is one without a value.
\<close>

datatype ('w, 'r, 'e) any =
    AnyIterator "'r option"
  | AnyInt "32 word"
  | AnyDouble "64 word"
  | AnyString string
  | AnyImpl "(('w, 'r, 'e) cpp_type \<times> 'e cpp_value) option"

text \<open>The constructors \<open>Any(int)\<close>, \<open>Any(double)\<close>, \<open>Any(const std::string&)\<close>, \<open>Any(const T&)\<close>.\<close>

definition Any_new :: "('w, 'r, 'e) cpp_type \<Rightarrow> 'e cpp_value \<Rightarrow> ('w, 'r, 'e) any" where
  "Any_new T x = (case x of
       VInt i \<Rightarrow> AnyInt i
     | VDouble d \<Rightarrow> AnyDouble d
     | VString s \<Rightarrow> AnyString s
     | VOther _ \<Rightarrow> AnyImpl (Some (T, x)))"

definition Any_encoder ::
  "('w, 'r) dbus_iter_api \<Rightarrow> ('w, 'r, 'e) cpp_type \<Rightarrow> 'w \<Rightarrow> 'e cpp_value \<Rightarrow> 'w" where
  "Any_encoder L T iter data =
     (let iter2 = open_container L iter DBUS_TYPE_VARIANT (Some (sgn (type_codec T)));
          iter2 = enc (type_codec T) iter2 data
      in close_container L iter iter2)"

text \<open>\<open>EncodingVisitor\<close>: for an \<open>Iterator\<close> it only asserts.\<close>

definition Any_encode :: "('w, 'r) dbus_iter_api \<Rightarrow> 'w \<Rightarrow> ('w, 'r, 'e) any \<Rightarrow> 'w" where
  "Any_encode L iter a = (case a of
       AnyIterator _ \<Rightarrow> iter
     | AnyInt i \<Rightarrow> Any_encoder L (int_type L) iter (VInt i :: 'e cpp_value)
     | AnyDouble d \<Rightarrow> Any_encoder L (double_type L) iter (VDouble d :: 'e cpp_value)
     | AnyString s \<Rightarrow> Any_encoder L (string_type L) iter (VString s :: 'e cpp_value)
     | AnyImpl None \<Rightarrow> iter
     | AnyImpl (Some (T, x)) \<Rightarrow> Any_encoder L T iter x)"

definition Any_decode ::
  "('w, 'r) dbus_iter_api \<Rightarrow> 'r \<Rightarrow> (('w, 'r, 'e) any \<times> 'r) res" where
  "Any_decode L orig =
     rbind (simppl_dbus_message_iter_recurse L orig DBUS_TYPE_VARIANT)
       (\<lambda>iter. ret (AnyIterator (Some iter), iter_next L orig))"

definition any_codec :: "('w, 'r) dbus_iter_api \<Rightarrow> ('w, 'r, ('w, 'r, 'e) any) codec" where
  "any_codec L = \<lparr>enc = Any_encode L, dec = Any_decode L, sgn = ''v''\<rparr>"

text \<open>\<open>TypeVisitor\<close> and \<open>ExtractionVisitor\<close>: \<open>is<T>()\<close> and \<open>as<T>()\<close>.\<close>

definition Any_is ::
  "('w, 'r) dbus_iter_api \<Rightarrow> ('w, 'r, 'e) cpp_type \<Rightarrow> ('w, 'r, 'e) any \<Rightarrow> bool" where
  "Any_is L T a = (case a of
       AnyIterator None \<Rightarrow> False
     | AnyIterator (Some it) \<Rightarrow> get_signature L it = sgn (type_codec T)
     | AnyInt _ \<Rightarrow> type_id T = 0
     | AnyDouble _ \<Rightarrow> type_id T = 1
     | AnyString _ \<Rightarrow> type_id T = 2
     | AnyImpl None \<Rightarrow> False
     | AnyImpl (Some (U, _)) \<Rightarrow> type_id U = type_id T)"

definition Any_as ::
  "('w, 'r) dbus_iter_api \<Rightarrow> ('w, 'r, 'e) cpp_type \<Rightarrow> ('w, 'r, 'e) any \<Rightarrow> ('e cpp_value) res" where
  "Any_as L T a = (case a of
       AnyIterator None \<Rightarrow> throw (StdRuntimeError ''No type'')
     | AnyIterator (Some it) \<Rightarrow>
         if get_signature L it \<noteq> sgn (type_codec T) then throw (StdRuntimeError ''Invalid type'')
         else rbind (dec (type_codec T) it) (\<lambda>(x, _). ret x)
     | AnyInt i \<Rightarrow> if type_id T = 0 then ret (VInt i) else throw (StdRuntimeError ''Invalid type'')
     | AnyDouble d \<Rightarrow> if type_id T = 1 then ret (VDouble d) else throw (StdRuntimeError ''Invalid type'')
     | AnyString s \<Rightarrow> if type_id T = 2 then ret (VString s) else throw (StdRuntimeError ''Invalid type'')
     | AnyImpl None \<Rightarrow> throw BadAnyCast
     | AnyImpl (Some (U, x)) \<Rightarrow> if type_id U = type_id T then ret x else throw BadAnyCast)"

definition any_type_error :: "exn \<Rightarrow> bool" where
  "any_type_error e \<longleftrightarrow> (\<exists>msg. e = StdRuntimeError msg) \<or> e = BadAnyCast"

text \<open>What a received \<open>Any\<close> refers to: the single value of a variant of a well-formed message.\<close>

definition any_wf :: "('r \<Rightarrow> dval list) \<Rightarrow> ('w, 'r, 'e) any \<Rightarrow> bool" where
  "any_wf rv a \<longleftrightarrow> (\<forall>it. a = AnyIterator (Some it) \<longrightarrow> (\<exists>v. rv it = [v] \<and> wf_dval v))"

context dbus_iter begin

lemma codec_iso_ok:
  assumes c: "codec L bvalid wk wv rv c ok cv" and inv: "\<And>y. ok' y \<Longrightarrow> mk (un y) = y \<and> ok (un y)"
  shows "codec L bvalid wk wv rv (codec_iso mk un c) ok' (\<lambda>y. cv (un y))"
proof unfold_locales
  fix r y vs
  assume y: "ok' y" and r: "rv r = cv (un y) # vs"
  then show "\<exists>r'. dec (codec_iso mk un c) r = ret (y, r') \<and> rv r' = vs"
    using codec.dec_vals [OF c, of "un y" r vs] inv [OF y] by (auto simp: codec_iso_def)
qed (use inv codec.enc_vals [OF c] codec.enc_ctx [OF c] codec.cv_sig [OF c] codec.cv_wf [OF c]
      codec.dec_type [OF c] in \<open>auto simp: codec_iso_def\<close>)

lemma codec_iso_total:
  assumes c: "total_decoder L bvalid wk wv rv c"
  shows "total_decoder L bvalid wk wv rv (codec_iso mk un c)"
proof unfold_locales
  fix r
  assume "list_all wf_dval (rv r)"
  from total_decoder.dec_total [OF c this]
  show "dec (codec_iso mk un c) r = throw DecoderError \<or>
      (\<exists>x r'. dec (codec_iso mk un c) r = ret (x, r') \<and> rv r \<noteq> [] \<and> rv r' = tl (rv r))"
    by (auto simp: codec_iso_def)
qed

lemma builtin_types_ok:
  "codec L bvalid wk wv rv (type_codec (int_type L))
     (\<lambda>y. \<exists>i. y = VInt i \<and> bvalid (BInt32 i)) (\<lambda>y. Basic (BInt32 (un_VInt y)))"
  "codec L bvalid wk wv rv (type_codec (double_type L))
     (\<lambda>y. \<exists>i. y = VDouble i \<and> bvalid (BDouble i)) (\<lambda>y. Basic (BDouble (un_VDouble y)))"
  "codec L bvalid wk wv rv (type_codec (string_type L))
     (\<lambda>y. \<exists>s. y = VString s \<and> string_ok s) (\<lambda>y. Basic (BString (c_str (un_VString y))))"
  unfolding int_type_def double_type_def string_type_def cpp_type.select_convs
  by (rule codec_iso_ok [OF key_codec.axioms(1) [OF int32_ok]], force)
    (rule codec_iso_ok [OF key_codec.axioms(1) [OF double_ok]], force,
     rule codec_iso_ok [OF key_codec.axioms(1) [OF string_codec_ok]], force)

lemma builtin_types_total:
  "total_decoder L bvalid wk wv rv (type_codec (int_type L))"
  "total_decoder L bvalid wk wv rv (type_codec (double_type L))"
  "total_decoder L bvalid wk wv rv (type_codec (string_type L))"
  unfolding int_type_def double_type_def string_type_def cpp_type.select_convs
  by (rule codec_iso_total, rule basic_totals)+

lemma Any_encoder_vals:
  assumes c: "codec L bvalid wk wv rv (type_codec T) ok cv" and x: "ok x"
  shows "wv (Any_encoder L T w x) = wv w @ [property_val cv x]"
  using codec.VariantSerializer_vals [OF c x] codec.cv_sig [OF c x]
  by (simp add: Any_encoder_def VariantSerializer_def property_val_def)

lemma Any_decode_vals:
  assumes "rv r = property_val cv x # vs"
  shows "Any_decode L r = ret (AnyIterator (Some (iter_recurse L r)), iter_next L r)"
    and "rv (iter_recurse L r) = [cv x]" and "rv (iter_next L r) = vs"
  using recurse_ret [of r DBUS_TYPE_VARIANT "dsig (cv x)" "[cv x]" vs] assms next_vals [OF assms]
  by (simp_all add: property_val_def Any_decode_def)

lemma Any_as_received:
  assumes c: "codec L bvalid wk wv rv (type_codec T) ok cv" and x: "ok x" and it: "rv it = [cv x]"
  shows "Any_as L T (AnyIterator (Some it)) = ret x" and "Any_is L T (AnyIterator (Some it))"
  using codec.dec_vals [OF c x, of it "[]"] codec.cv_sig [OF c x] signature_val [OF it] it
  by (auto simp: Any_as_def Any_is_def)

lemma Any_is_iff:
  assumes c: "total_decoder L bvalid wk wv rv (type_codec T)" and wf: "any_wf rv a"
  shows "Any_is L T a \<longleftrightarrow> \<not> (\<exists>e. Any_as L T a = throw e \<and> any_type_error e)"
proof (cases a)
  case (AnyIterator i)
  show ?thesis
  proof (cases i)
    case None
    with AnyIterator show ?thesis by (auto simp: Any_is_def Any_as_def any_type_error_def)
  next
    case (Some it)
    then have "list_all wf_dval (rv it)"
      using wf AnyIterator by (auto simp: any_wf_def)
    from total_decoder.dec_total [OF c this] Some AnyIterator show ?thesis
      by (auto simp: Any_is_def Any_as_def any_type_error_def)
  qed
qed (auto simp: Any_is_def Any_as_def any_type_error_def split: option.splits prod.splits)

end

end
