(* ===== verification/CppTypes.thy ===== *)
theory CppTypes
  imports AnyValue
begin

text \<open>
  The C++ types the serializer accepts, as a datatype, and the overload resolution that
  picks \<open>Codec<T>\<close> for each of them (\<open>include/simppl/serialization.h\<close> with the partial
  specialisations of \<open>vector.h\<close>, \<open>map.h\<close>, \<open>tuple.h\<close>, \<open>variant.h\<close>, \<open>wstring.h\<close>, ...). By induction on
  the type the codec it picks meets the codec contract, whatever the nesting.
\<close>

section \<open>Types and their values\<close>

text \<open>
  The types whose codecs nest: the numbers and enumerations of \<^verbatim>\<open>pod.h\<close>, \<open>bool\<close>, \<open>std::string\<close>,
  \<open>ObjectPath\<close>, \<open>std::wstring\<close>, vectors, maps with a string, object path or \<open>uint32_t\<close> as key (a
  \<open>std::pair\<close> is the entry of a map, a dictionary entry stands nowhere else in a message), tuples
  and variants. The other serializable types have theories of their own: \<open>Any\<close> (AnyValue),
  \<open>FixedSizeBuffer\<close> (Variants), \<open>FileDescriptor\<close> (Resources), \<open>wchar_t*\<close> (Aggregates), structs
  (StructTypes); what holds for the types below is not claimed of them.
\<close>

datatype key_ty = KeyString | KeyObjectPath | KeyUint32

datatype cpp_ty =
    TyPod scalar | TyBool | TyString | TyObjectPath | TyWString
  | TyVector cpp_ty
  | TyMap key_ty cpp_ty
  | TyTuple "cpp_ty list"
  | TyVariant "cpp_ty list"

datatype cpp_val =
    VPod basic | VBool bool | VStr string | VPath ObjectPath | VWStr "32 word list"
  | VVector "cpp_val list"
  | VStrMap "(string \<times> cpp_val) list"
  | VPathMap "(ObjectPath \<times> cpp_val) list"
  | VUint32Map "(32 word \<times> cpp_val) list"
  | VTuple "cpp_val list"
  | VVariant nat cpp_val

fun un_VPod where "un_VPod (VPod b) = b" | "un_VPod _ = BByte 0"
fun un_VBool where "un_VBool (VBool b) = b" | "un_VBool _ = False"
fun un_VStr where "un_VStr (VStr s) = s" | "un_VStr _ = []"
fun un_VPath where "un_VPath (VPath p) = p" | "un_VPath _ = ObjectPath []"
fun un_VWStr where "un_VWStr (VWStr s) = s" | "un_VWStr _ = []"
fun un_VVector where "un_VVector (VVector vs) = vs" | "un_VVector _ = []"
fun un_VStrMap where "un_VStrMap (VStrMap m) = m" | "un_VStrMap _ = []"
fun un_VPathMap where "un_VPathMap (VPathMap m) = m" | "un_VPathMap _ = []"
fun un_VUint32Map where "un_VUint32Map (VUint32Map m) = m" | "un_VUint32Map _ = []"
fun un_VTuple where "un_VTuple (VTuple vs) = vs" | "un_VTuple _ = []"
fun un_VVariant where "un_VVariant (VVariant i v) = (i, v)" | "un_VVariant v = (0, v)"

text \<open>The signature of a type, and the types for which the templates can be instantiated.\<close>

fun key_sig :: "key_ty \<Rightarrow> string" where
  "key_sig KeyString = ''s''"
| "key_sig KeyObjectPath = ''o''"
| "key_sig KeyUint32 = ''u''"

primrec ty_sig :: "cpp_ty \<Rightarrow> string" where
  "ty_sig (TyPod k) = (case dbus_type_code k of Some c \<Rightarrow> [c] | None \<Rightarrow> [])"
| "ty_sig TyBool = ''b''"
| "ty_sig TyString = ''s''"
| "ty_sig TyObjectPath = ''o''"
| "ty_sig TyWString = ''au''"
| "ty_sig (TyVector t) = ''a'' @ ty_sig t"
| "ty_sig (TyMap k t) = ''a{'' @ key_sig k @ ty_sig t @ ''}''"
| "ty_sig (TyTuple ts) = ''('' @ concat (map ty_sig ts) @ '')''"
| "ty_sig (TyVariant ts) = ''v''"

primrec ty_ok :: "cpp_ty \<Rightarrow> bool" where
  "ty_ok (TyPod k) \<longleftrightarrow> deduces_pod k \<and> dbus_type_code k \<noteq> None"
| "ty_ok TyBool \<longleftrightarrow> True"
| "ty_ok TyString \<longleftrightarrow> True"
| "ty_ok TyObjectPath \<longleftrightarrow> True"
| "ty_ok TyWString \<longleftrightarrow> True"
| "ty_ok (TyVector t) \<longleftrightarrow> ty_ok t"
| "ty_ok (TyMap k t) \<longleftrightarrow> ty_ok t"
| "ty_ok (TyTuple ts) \<longleftrightarrow> ts \<noteq> [] \<and> list_all (\<lambda>b. b) (map ty_ok ts)"
| "ty_ok (TyVariant ts) \<longleftrightarrow> ts \<noteq> [] \<and> list_all (\<lambda>b. b) (map ty_ok ts) \<and> distinct (map ty_sig ts)"

text \<open>
  The types without an enumeration whose underlying type is not four bytes wide, the width
  libdbus reads and writes at its address (\<^verbatim>\<open>pod.h\<close>).
\<close>

primrec ty_sized :: "cpp_ty \<Rightarrow> bool" where
  "ty_sized (TyPod k) \<longleftrightarrow> (case dbus_type_code k of Some c \<Rightarrow> wire_size c = sizeof_scalar k | None \<Rightarrow> False)"
| "ty_sized TyBool \<longleftrightarrow> True"
| "ty_sized TyString \<longleftrightarrow> True"
| "ty_sized TyObjectPath \<longleftrightarrow> True"
| "ty_sized TyWString \<longleftrightarrow> True"
| "ty_sized (TyVector t) \<longleftrightarrow> ty_sized t"
| "ty_sized (TyMap k t) \<longleftrightarrow> ty_sized t"
| "ty_sized (TyTuple ts) \<longleftrightarrow> list_all (\<lambda>b. b) (map ty_sized ts)"
| "ty_sized (TyVariant ts) \<longleftrightarrow> list_all (\<lambda>b. b) (map ty_sized ts)"

text \<open>
  The values of a type that a message can carry. There is none of an enumeration of another
  width: what arrives is not what was sent (\<open>pod_load\<close>, \<open>pod_store\<close>).
\<close>

definition pointwise :: "('a \<Rightarrow> bool) list \<Rightarrow> 'a list \<Rightarrow> bool" where
  "pointwise ps xs \<longleftrightarrow> length xs = length ps \<and> list_all (\<lambda>(p, x). p x) (zip ps xs)"

lemma pointwise_simps [simp]:
  "pointwise [] xs \<longleftrightarrow> xs = []"
  "pointwise (p # ps) xs \<longleftrightarrow> (\<exists>y ys. xs = y # ys \<and> p y \<and> pointwise ps ys)"
  by (auto simp: pointwise_def, cases xs, auto)

definition str_ok :: "(basic \<Rightarrow> bool) \<Rightarrow> string \<Rightarrow> bool" where
  "str_ok bvalid s \<longleftrightarrow> nul_free s \<and> bvalid (BString s)"

definition path_ok :: "(basic \<Rightarrow> bool) \<Rightarrow> ObjectPath \<Rightarrow> bool" where
  "path_ok bvalid p \<longleftrightarrow> nul_free (path p) \<and> bvalid (BObjectPath (path p))"

definition entries_ok :: "('k::linorder \<Rightarrow> bool) \<Rightarrow> ('v \<Rightarrow> bool) \<Rightarrow> ('k, 'v) std_map \<Rightarrow> bool" where
  "entries_ok pk pv m \<longleftrightarrow> map_sorted m \<and> list_all (\<lambda>p. pk (fst p) \<and> pv (snd p)) m"

primrec val_ok :: "(basic \<Rightarrow> bool) \<Rightarrow> cpp_ty \<Rightarrow> cpp_val \<Rightarrow> bool" where
  "val_ok bvalid (TyPod k) v \<longleftrightarrow> (\<exists>b. v = VPod b \<and> dbus_type_code k = Some (basic_code b) \<and>
     wire_size (basic_code b) = sizeof_scalar k \<and> bvalid b)"
| "val_ok bvalid TyBool v \<longleftrightarrow> (\<exists>b. v = VBool b \<and> bvalid (BBoolean (if b then 1 else 0)))"
| "val_ok bvalid TyString v \<longleftrightarrow> (\<exists>s. v = VStr s \<and> str_ok bvalid s)"
| "val_ok bvalid TyObjectPath v \<longleftrightarrow> (\<exists>p. v = VPath p \<and> path_ok bvalid p)"
| "val_ok bvalid TyWString v \<longleftrightarrow> (\<exists>s. v = VWStr s \<and> list_all (\<lambda>x. bvalid (BUint32 x)) s)"
| "val_ok bvalid (TyVector t) v \<longleftrightarrow> (\<exists>vs. v = VVector vs \<and> list_all (val_ok bvalid t) vs)"
| "val_ok bvalid (TyMap k t) v \<longleftrightarrow> (case k of
       KeyString \<Rightarrow> \<exists>m. v = VStrMap m \<and> entries_ok (str_ok bvalid) (val_ok bvalid t) m
     | KeyObjectPath \<Rightarrow> \<exists>m. v = VPathMap m \<and> entries_ok (path_ok bvalid) (val_ok bvalid t) m
     | KeyUint32 \<Rightarrow> \<exists>m. v = VUint32Map m \<and> entries_ok (\<lambda>x. bvalid (BUint32 x)) (val_ok bvalid t) m)"
| "val_ok bvalid (TyTuple ts) v \<longleftrightarrow> (\<exists>vs. v = VTuple vs \<and> pointwise (map (val_ok bvalid) ts) vs)"
| "val_ok bvalid (TyVariant ts) v \<longleftrightarrow>
     (\<exists>i x. v = VVariant i x \<and> i < length ts \<and> (map (val_ok bvalid) ts ! i) x)"

section \<open>The codec a type gets\<close>

text \<open>
  The typed codecs are carried over to \<open>cpp_val\<close>: a tuple's fields are a list of values, a
  variant's value the index of its alternative and the value held.
\<close>

definition fields_iso :: "('a \<Rightarrow> 'b) \<Rightarrow> ('b \<Rightarrow> 'a) \<Rightarrow> ('w, 'r, 'a) fields \<Rightarrow> ('w, 'r, 'b) fields" where
  "fields_iso mk un f = \<lparr>
     fenc = (\<lambda>w y. fenc f w (un y)),
     fdec = (\<lambda>r. rbind (fdec f r) (\<lambda>(x, r'). ret (mk x, r'))),
     fsgn = fsgn f\<rparr>"

fun tuple_fields :: "('w, 'r, 'a) codec list \<Rightarrow> ('w, 'r, 'a list) fields" where
  "tuple_fields [] = \<lparr>fenc = (\<lambda>w _. w), fdec = (\<lambda>r. ret ([], r)), fsgn = []\<rparr>"
| "tuple_fields [c] = fields_iso (\<lambda>x. [x]) hd (StdTupleForEach_last c)"
| "tuple_fields (c # d # cs) =
     fields_iso (\<lambda>(x, xs). x # xs) (\<lambda>l. (hd l, tl l)) (StdTupleForEach c (tuple_fields (d # cs)))"

definition alts_iso :: "('a \<Rightarrow> 'b) \<Rightarrow> ('b \<Rightarrow> 'a) \<Rightarrow> ('w, 'r, 'a) alts \<Rightarrow> ('w, 'r, 'b) alts" where
  "alts_iso mk un a = \<lparr>
     aenc = (\<lambda>w y. aenc a w (un y)),
     adec = (\<lambda>r g. rbind (adec a r g) (\<lambda>x. ret (map_option mk x))),
     asigs = asigs a\<rparr>"

fun variant_alts ::
  "('w, 'r) dbus_iter_api \<Rightarrow> ('w, 'r, 'a) codec list \<Rightarrow> ('w, 'r, nat \<times> 'a) alts" where
  "variant_alts L [] = \<lparr>aenc = (\<lambda>w _. w), adec = (\<lambda>_ _. ret None), asigs = []\<rparr>"
| "variant_alts L [c] = alts_iso (\<lambda>x. (0, x)) snd (alts_last L c)"
| "variant_alts L (c # d # cs) =
     alts_iso (case_sum (\<lambda>x. (0, x)) (\<lambda>(i, x). (Suc i, x)))
       (\<lambda>(i, x). case i of 0 \<Rightarrow> Inl x | Suc j \<Rightarrow> Inr (j, x))
       (alts_cons L c (variant_alts L (d # cs)))"

definition map_codec_of ::
  "('w, 'r) dbus_iter_api \<Rightarrow> key_ty \<Rightarrow> ('w, 'r, cpp_val) codec \<Rightarrow> ('w, 'r, cpp_val) codec" where
  "map_codec_of L k c = (case k of
       KeyString \<Rightarrow> codec_iso VStrMap un_VStrMap (map_codec L (string_codec L) c)
     | KeyObjectPath \<Rightarrow> codec_iso VPathMap un_VPathMap (map_codec L (objectpath_codec L) c)
     | KeyUint32 \<Rightarrow> codec_iso VUint32Map un_VUint32Map (map_codec L (uint32_codec L) c))"

text \<open>
  \<open>v0\<close> is what the object decoded into holds before: a variant keeps it when no alternative
  matches, a wide enumeration keeps half of it. A type for which no template can be
  instantiated (\<open>float\<close>) has no codec.
\<close>

primrec Codec_of ::
  "('w, 'r) dbus_iter_api \<Rightarrow> nat \<times> cpp_val \<Rightarrow> cpp_ty \<Rightarrow> ('w, 'r, cpp_val) codec" where
  "Codec_of L v0 (TyPod k) = the (pod_codec L (un_int64 (un_VPod (snd v0))) k un_VPod VPod)"
| "Codec_of L v0 TyBool = codec_iso VBool un_VBool (bool_codec L)"
| "Codec_of L v0 TyString = codec_iso VStr un_VStr (string_codec L)"
| "Codec_of L v0 TyObjectPath = codec_iso VPath un_VPath (objectpath_codec L)"
| "Codec_of L v0 TyWString = codec_iso VWStr un_VWStr (wstring_codec L)"
| "Codec_of L v0 (TyVector t) = codec_iso VVector un_VVector (vector_codec L (Codec_of L v0 t))"
| "Codec_of L v0 (TyMap k t) = map_codec_of L k (Codec_of L v0 t)"
| "Codec_of L v0 (TyTuple ts) =
     codec_iso VTuple un_VTuple (tuple_codec L (tuple_fields (map (Codec_of L v0) ts)))"
| "Codec_of L v0 (TyVariant ts) =
     codec_iso (\<lambda>(i, x). VVariant i x) un_VVariant
       (variant_codec L (variant_alts L (map (Codec_of L v0) ts)) v0)"

section \<open>Every codec meets the contract\<close>

context dbus_iter begin

lemma fields_iso_ok:
  assumes f: "Aggregates.fields L bvalid wk wv rv f ok fv" and inv: "\<And>y. ok' y \<Longrightarrow> mk (un y) = y \<and> ok (un y)"
  shows "Aggregates.fields L bvalid wk wv rv (fields_iso mk un f) ok' (\<lambda>y. fv (un y))"
proof unfold_locales
  fix r y vs
  assume y: "ok' y" and r: "rv r = fv (un y) @ vs"
  then show "\<exists>r'. fdec (fields_iso mk un f) r = ret (y, r') \<and> rv r' = vs"
    using fields.fdec_vals [OF f, of "un y" r vs] inv [OF y] by (auto simp: fields_iso_def)
qed (use inv fields.fenc_vals [OF f] fields.fenc_ctx [OF f] fields.fv_sig [OF f] fields.fv_wf [OF f]
      fields.fv_nonempty [OF f] in \<open>auto simp: fields_iso_def\<close>)

lemma fields_iso_total:
  assumes f: "total_fields L bvalid wk wv rv f"
  shows "total_fields L bvalid wk wv rv (fields_iso mk un f)"
proof unfold_locales
  fix r
  assume "list_all wf_dval (rv r)"
  from total_fields.fdec_total [OF f this]
  show "fdec (fields_iso mk un f) r = throw DecoderError \<or>
      (\<exists>x r' us. fdec (fields_iso mk un f) r = ret (x, r') \<and> rv r = us @ rv r')"
    by (auto simp: fields_iso_def)
qed

lemma tuple_fields_total:
  "list_all (total_decoder L bvalid wk wv rv) cs \<Longrightarrow> cs \<noteq> [] \<Longrightarrow>
     total_fields L bvalid wk wv rv (tuple_fields cs)"
  by (induction cs rule: tuple_fields.induct)
    (auto intro!: fields_iso_total StdTupleForEach_last_total StdTupleForEach_total)

lemma tuple_fields_ok:
  assumes "list_all2 (\<lambda>c p. \<exists>cv. codec L bvalid wk wv rv c p cv) cs ps" and "cs \<noteq> []"
  shows "\<exists>fv. Aggregates.fields L bvalid wk wv rv (tuple_fields cs) (pointwise ps) fv"
  using assms
proof (induction cs arbitrary: ps rule: tuple_fields.induct)
  case 1
  then show ?case by simp
next
  case (2 c)
  then obtain p cv where ps: "ps = [p]" and c: "codec L bvalid wk wv rv c p cv"
    by (auto simp: list_all2_Cons1)
  show ?case
    unfolding tuple_fields.simps ps
    by (rule exI, rule fields_iso_ok [OF StdTupleForEach_last_ok [OF c]]) auto
next
  case (3 c d cs)
  from "3.prems"(1) obtain p ps' cv where ps: "ps = p # ps'"
      and rest: "list_all2 (\<lambda>c p. \<exists>cv. codec L bvalid wk wv rv c p cv) (d # cs) ps'"
      and c: "codec L bvalid wk wv rv c p cv"
    unfolding list_all2_Cons1 [where x = c] by blast
  obtain fv where f: "Aggregates.fields L bvalid wk wv rv (tuple_fields (d # cs)) (pointwise ps') fv"
    using "3.IH" [OF rest] by auto
  show ?case
    unfolding tuple_fields.simps ps
    by (rule exI, rule fields_iso_ok [OF StdTupleForEach_ok [OF c f]]) auto
qed

lemma alts_iso_ok:
  assumes a: "alternatives L bvalid wk wv rv a ok av"
    and inv: "\<And>y. ok' y \<Longrightarrow> mk (un y) = y \<and> ok (un y)"
  shows "alternatives L bvalid wk wv rv (alts_iso mk un a) ok' (\<lambda>y. av (un y))"
proof unfold_locales
  fix r y
  assume "ok' y" "rv r = [av (un y)]"
  then show "adec (alts_iso mk un a) r (dsig (av (un y))) = ret (Some y)"
    using alternatives.adec_vals [OF a, of "un y" r] inv by (simp add: alts_iso_def)
qed (use inv alternatives.aenc_vals [OF a] alternatives.aenc_ctx [OF a] alternatives.av_sig [OF a]
      alternatives.av_wf [OF a] alternatives.adec_miss [OF a] in \<open>auto simp: alts_iso_def\<close>)

lemma alts_iso_total:
  assumes a: "total_alternatives L bvalid wk wv rv a"
  shows "total_alternatives L bvalid wk wv rv (alts_iso mk un a)"
proof unfold_locales
  fix r g
  assume "list_all wf_dval (rv r)"
  from total_alternatives.adec_total [OF a this, of g]
  show "adec (alts_iso mk un a) r g = throw DecoderError \<or> (\<exists>y. adec (alts_iso mk un a) r g = ret y)"
    by (auto simp: alts_iso_def)
qed

lemma variant_alts_total:
  "list_all (total_decoder L bvalid wk wv rv) cs \<Longrightarrow> cs \<noteq> [] \<Longrightarrow>
     total_alternatives L bvalid wk wv rv (variant_alts L cs)"
  by (induction L\<equiv>L cs rule: variant_alts.induct)
    (auto intro!: alts_iso_total alts_last_total alts_cons_total)

lemma variant_alts_sigs: "cs \<noteq> [] \<Longrightarrow> asigs (variant_alts L cs) = map sgn cs"
  by (induction L cs rule: variant_alts.induct)
    (auto simp: alts_iso_def alts_last_def alts_cons_def)

lemma variant_alts_ok:
  assumes "list_all2 (\<lambda>c p. \<exists>cv. codec L bvalid wk wv rv c p cv) cs ps" and "cs \<noteq> []"
    and "distinct (map sgn cs)"
  shows "\<exists>av. alternatives L bvalid wk wv rv (variant_alts L cs)
    (\<lambda>(i, x). i < length ps \<and> (ps ! i) x) av"
  using assms
proof (induction L\<equiv>L cs arbitrary: ps rule: variant_alts.induct)
  case 1
  then show ?case by simp
next
  case (2 c)
  then obtain p cv where ps: "ps = [p]" and c: "codec L bvalid wk wv rv c p cv"
    by (auto simp: list_all2_Cons1)
  show ?case
    unfolding variant_alts.simps ps
    by (rule exI, rule alts_iso_ok [OF alts_last_ok [OF c]]) auto
next
  case (3 c d cs)
  from "3.prems"(1) obtain p ps' cv where ps: "ps = p # ps'"
      and rest: "list_all2 (\<lambda>c p. \<exists>cv. codec L bvalid wk wv rv c p cv) (d # cs) ps'"
      and c: "codec L bvalid wk wv rv c p cv"
    unfolding list_all2_Cons1 [where x = c] by blast
  obtain av where a: "alternatives L bvalid wk wv rv (variant_alts L (d # cs))
      (\<lambda>(i, x). i < length ps' \<and> (ps' ! i) x) av"
    using "3.hyps" [OF rest] "3.prems"(3) by auto
  have new: "sgn c \<notin> set (asigs (variant_alts L (d # cs)))"
    using "3.prems"(3) by (simp add: variant_alts_sigs)
  show ?case
    unfolding variant_alts.simps ps
    by (rule exI, rule alts_iso_ok [OF alts_cons_ok [OF c a new]]) (auto split: nat.splits)
qed

lemma codec_isoI:
  assumes "codec L bvalid wk wv rv c ok cv" and "\<And>y. ok' y \<longleftrightarrow> (\<exists>x. y = mk x \<and> ok x)"
    and "\<And>x. un (mk x) = x"
  shows "\<exists>cv. codec L bvalid wk wv rv (codec_iso mk un c) ok' cv"
  by (rule exI, rule codec_iso_ok [OF assms(1)]) (use assms(2,3) in auto)

lemma pod_code_basic: "dbus_type_code k = Some t \<Longrightarrow> t \<notin> set container_codes"
  by (cases k) (auto simp: dbus_type_code_def EnumTypeCodeHelper_def container_codes_def)

text \<open>A codec without values to carry only has to refuse values of other types.\<close>

lemma no_values_ok:
  assumes "\<And>x. \<not> ok x" and "\<And>r. get_arg_type L r \<noteq> sig_type (sgn c) \<Longrightarrow> dec c r = throw DecoderError"
  shows "codec L bvalid wk wv rv c ok cv"
  by unfold_locales (use assms in auto)

lemma pod_ok:
  assumes "ty_ok (TyPod k)"
  shows "\<exists>cv. codec L bvalid wk wv rv (Codec_of L v0 (TyPod k)) (val_ok bvalid (TyPod k)) cv"
proof -
  obtain t where t: "dbus_type_code k = Some t" and k: "deduces_pod k"
    using assms by auto
  show ?thesis
  proof (cases "wire_size t = sizeof_scalar k")
    case True
    have "key_codec L bvalid wk wv rv (basic_codec L t un_VPod VPod) (val_ok bvalid (TyPod k))
        (\<lambda>x. Basic (un_VPod x))"
      using pod_code_basic [OF t] by (intro basic_key_codec) (auto simp: t)
    then show ?thesis
      unfolding Codec_of.simps pod_codec_sized [OF k t True] option.sel
      by (blast dest: key_codec.axioms(1))
  next
    case False
    then have "\<not> val_ok bvalid (TyPod k) x" for x
      using t by auto
    moreover have "dec (Codec_of L v0 (TyPod k)) r = throw DecoderError"
      if "get_arg_type L r \<noteq> sig_type (sgn (Codec_of L v0 (TyPod k)))" for r
      using that t k pod_code_basic [OF t]
      by (auto simp: pod_codec_def simppl_dbus_message_iter_get_basic_def sig_type_def container_codes_def
          split: if_splits)
    ultimately show ?thesis
      by (intro exI [where x = undefined]) (rule no_values_ok)
  qed
qed

lemma pod_total:
  assumes "ty_ok (TyPod k)" and "ty_sized (TyPod k)"
  shows "total_decoder L bvalid wk wv rv (Codec_of L v0 (TyPod k))"
proof -
  obtain t where t: "dbus_type_code k = Some t" "deduces_pod k" "wire_size t = sizeof_scalar k"
    using assms by auto
  from basic_total [OF pod_code_basic [OF t(1)]] show ?thesis
    unfolding Codec_of.simps pod_codec_sized [OF t(2,1,3)] option.sel .
qed

lemma string_oks: "string_ok = str_ok bvalid" "objectpath_ok = path_ok bvalid"
  by (auto simp: string_ok_def str_ok_def objectpath_ok_def path_ok_def)

lemma map_codec_of_ok:
  assumes "codec L bvalid wk wv rv c (val_ok bvalid t) cv"
  shows "\<exists>cv. codec L bvalid wk wv rv (map_codec_of L k c) (val_ok bvalid (TyMap k t)) cv"
  by (cases k)
    (simp_all add: map_codec_of_def,
     rule codec_isoI [OF map_ok [OF string_codec_ok assms]], simp_all add: entries_ok_def string_oks,
     rule codec_isoI [OF map_ok [OF objectpath_codec_ok assms]], simp_all add: entries_ok_def string_oks,
     rule codec_isoI [OF map_ok [OF uint32_ok assms]], simp_all add: entries_ok_def)

end

lemma tuple_fields_sgn: "cs \<noteq> [] \<Longrightarrow> fsgn (tuple_fields cs) = concat (map sgn cs)"
  by (induction cs rule: tuple_fields.induct)
    (auto simp: fields_iso_def StdTupleForEach_last_def StdTupleForEach_def)

lemma Codec_of_sig: "ty_ok T \<Longrightarrow> sgn (Codec_of L v0 T) = ty_sig T"
proof (induction T)
  case (TyPod k)
  then show ?case by (auto simp: pod_codec_def basic_codec_def)
next
  case (TyMap k t)
  then show ?case
    by (cases k) (auto simp: map_codec_of_def codec_iso_def map_codec_def pair_codec_def string_codec_def
        StringCodec_make_type_signature_def objectpath_codec_def uint32_codec_def basic_codec_def)
next
  case (TyTuple ts)
  have "map (sgn \<circ> Codec_of L v0) ts = map ty_sig ts"
    using TyTuple by (auto simp: list_all_iff)
  then show ?case
    using TyTuple.prems tuple_fields_sgn [of "map (Codec_of L v0) ts"] by (simp add: codec_iso_def tuple_codec_def tuple_make_type_signature_def del: map_eq_conv)
qed (auto simp: codec_iso_def bool_codec_def string_codec_def StringCodec_make_type_signature_def
    objectpath_codec_def wstring_codec_def wstring_make_type_signature_def uint32_codec_def
    basic_codec_def vector_codec_def variant_codec_def)

context dbus_iter begin

theorem Codec_of_ok:
  "ty_ok T \<Longrightarrow> \<exists>cv. codec L bvalid wk wv rv (Codec_of L v0 T) (val_ok bvalid T) cv"
proof (induction T)
  case (TyPod k)
  then show ?case by (rule pod_ok)
next
  case TyBool
  show ?case
    unfolding Codec_of.simps
    by (rule codec_isoI [OF key_codec.axioms(1) [OF bool_ok]]) auto
next
  case TyString
  show ?case
    unfolding Codec_of.simps
    by (rule codec_isoI [OF key_codec.axioms(1) [OF string_codec_ok]]) (auto simp: string_oks)
next
  case TyObjectPath
  show ?case
    unfolding Codec_of.simps
    by (rule codec_isoI [OF key_codec.axioms(1) [OF objectpath_codec_ok]]) (auto simp: string_oks)
next
  case TyWString
  show ?case
    unfolding Codec_of.simps
    by (rule codec_isoI [OF wstring_ok]) auto
next
  case (TyVector t)
  then obtain cv where "codec L bvalid wk wv rv (Codec_of L v0 t) (val_ok bvalid t) cv"
    by auto
  from vector_ok [OF this] show ?case
    unfolding Codec_of.simps by (rule codec_isoI) auto
next
  case (TyMap k t)
  then obtain cv where "codec L bvalid wk wv rv (Codec_of L v0 t) (val_ok bvalid t) cv"
    by auto
  from map_codec_of_ok [OF this] show ?case
    unfolding Codec_of.simps .
next
  case (TyTuple ts)
  have all: "\<forall>t \<in> set ts. \<exists>cv. codec L bvalid wk wv rv (Codec_of L v0 t) (val_ok bvalid t) cv"
    using TyTuple by (simp add: list_all_iff)
  have oks: "list_all2 (\<lambda>c p. \<exists>cv. codec L bvalid wk wv rv c p cv)
      (map (Codec_of L v0) ts) (map (val_ok bvalid) ts)"
    using all by (simp only: list_all2_map1 list_all2_map2 list_all2_same)
  have "map (Codec_of L v0) ts \<noteq> []"
    using TyTuple.prems by simp
  from tuple_fields_ok [OF oks this] obtain fv where "Aggregates.fields L bvalid wk wv rv
      (tuple_fields (map (Codec_of L v0) ts)) (pointwise (map (val_ok bvalid) ts)) fv"
    by blast
  from tuple_ok [OF this] show ?case
    unfolding Codec_of.simps by (rule codec_isoI) auto
next
  case (TyVariant ts)
  have all: "\<forall>t \<in> set ts. \<exists>cv. codec L bvalid wk wv rv (Codec_of L v0 t) (val_ok bvalid t) cv"
    using TyVariant by (simp add: list_all_iff)
  have oks: "list_all2 (\<lambda>c p. \<exists>cv. codec L bvalid wk wv rv c p cv)
      (map (Codec_of L v0) ts) (map (val_ok bvalid) ts)"
    using all by (simp only: list_all2_map1 list_all2_map2 list_all2_same)
  have sigs: "map sgn (map (Codec_of L v0) ts) = map ty_sig ts"
    using TyVariant.prems by (simp add: list_all_iff Codec_of_sig)
  have "map (Codec_of L v0) ts \<noteq> []" "distinct (map sgn (map (Codec_of L v0) ts))"
    using TyVariant.prems unfolding sigs by simp_all
  from variant_alts_ok [OF oks this] obtain av where "alternatives L bvalid wk wv rv (variant_alts L (map (Codec_of L v0) ts))
      (\<lambda>(i, x). i < length (map (val_ok bvalid) ts) \<and> (map (val_ok bvalid) ts ! i) x) av"
    by blast
  from variant_ok [OF this, of v0] show ?case
    unfolding Codec_of.simps by (rule codec_isoI) auto
qed

text \<open>Every decoder returns, when no enumeration is narrower or wider than four bytes.\<close>

theorem Codec_of_total:
  "ty_ok T \<Longrightarrow> ty_sized T \<Longrightarrow> total_decoder L bvalid wk wv rv (Codec_of L v0 T)"
proof (induction T)
  case (TyPod k)
  then show ?case by (rule pod_total)
next
  case (TyMap k t)
  then show ?case
    by (cases k) (auto simp: map_codec_of_def intro!: codec_iso_total map_total basic_totals)
next
  case (TyTuple ts)
  then have "list_all (total_decoder L bvalid wk wv rv) (map (Codec_of L v0) ts)"
    by (auto simp: list_all_iff)
  then show ?case
    unfolding Codec_of.simps using TyTuple.prems
    by (intro codec_iso_total tuple_total tuple_fields_total) auto
next
  case (TyVariant ts)
  then have "list_all (total_decoder L bvalid wk wv rv) (map (Codec_of L v0) ts)"
    by (auto simp: list_all_iff)
  then show ?case
    unfolding Codec_of.simps using TyVariant.prems
    by (intro codec_iso_total variant_total variant_alts_total) auto
qed (auto intro!: codec_iso_total basic_totals wstring_total vector_total)

end

end
