(* ===== verification/TypeLists.thy ===== *)
theory TypeLists
  imports CppTypes
begin

text \<open>
  Compile-time lists of types (\<open>include/simppl/typelist.h\<close>). A template metaprogram is a
  function on types; \<open>None\<close> stands for an instantiation that does not compile. A list of types
  has two forms, \<open>TypeList<T, NilType>\<close> and \<open>TypeList<T, TypeList<NilType, NilType>>\<close>; every
  metaprogram is compared with the operation on ordinary lists it stands for, on both forms.
\<close>

section \<open>Types\<close>

text \<open>
  The types the metaprograms are applied to: types that can be serialized (\<open>Val\<close>), pointers to
  them, the markers of \<open>parameter_deduction.h\<close>, exception classes (with the flag whether
  \<open>Error\<close> is a base), and the types the metaprograms build.
\<close>

datatype cxx =
    NilType
  | TypeList cxx cxx
  | Val cpp_ty
  | Pointer cxx
  | ConstPointer cxx
  | In cxx
  | Out cxx
  | Throws cxx
  | Oneway
  | ErrorT
  | ClassT string bool
  | CallStateRef cxx
  | Void
  | StdTuple "cxx list"
  | StdFunction "cxx list"

section \<open>The metaprograms\<close>

fun Size :: "cxx \<Rightarrow> nat option" where
  "Size (TypeList h t) =
     (if t = NilType then Some (if h = NilType then 0 else 1) else map_option Suc (Size t))"
| "Size _ = None"

fun PopFrontN :: "int \<Rightarrow> cxx \<Rightarrow> cxx option" where
  "PopFrontN n (TypeList h t) = (if n = 0 then Some (TypeList h t) else PopFrontN (n - 1) t)"
| "PopFrontN n NilType = Some NilType"
| "PopFrontN n _ = None"

definition PushFront :: "cxx \<Rightarrow> cxx \<Rightarrow> cxx" where
  "PushFront l t = (if t = NilType then l else TypeList t l)"

fun PopBack :: "cxx \<Rightarrow> cxx option" where
  "PopBack (TypeList h t) = (if t = NilType then Some NilType else map_option (TypeList h) (PopBack t))"
| "PopBack NilType = Some NilType"
| "PopBack _ = None"

fun Back :: "cxx \<Rightarrow> cxx option" where
  "Back (TypeList h t) = (if t = NilType then Some h else Back t)"
| "Back _ = None"

fun Find :: "cxx \<Rightarrow> cxx \<Rightarrow> int \<Rightarrow> int option" where
  "Find s (TypeList h t) n =
     (if s = h then Some n else if t = NilType then Some (- 1) else Find s t (n + 1))"
| "Find s NilType n = Some (- 1)"
| "Find s _ n = None"

fun TypeAt :: "int \<Rightarrow> cxx \<Rightarrow> cxx option" where
  "TypeAt n (TypeList h t) = (if n = 0 then Some h else TypeAt (n - 1) t)"
| "TypeAt n _ = None"

fun RelaxedTypeAt :: "int \<Rightarrow> cxx \<Rightarrow> cxx option" where
  "RelaxedTypeAt n NilType = Some NilType"
| "RelaxedTypeAt n (TypeList h t) = (if n = 0 then Some h else RelaxedTypeAt (n - 1) t)"
| "RelaxedTypeAt n _ = None"

text \<open>\<open>ReverseHelper<ListT, 0>\<close> looks for the type at index \<open>-1\<close>.\<close>

fun ReverseHelper :: "cxx \<Rightarrow> nat \<Rightarrow> cxx option" where
  "ReverseHelper l 0 = None"
| "ReverseHelper l (Suc 0) = map_option (\<lambda>t. TypeList t NilType) (TypeAt 0 l)"
| "ReverseHelper l (Suc n) =
     Option.bind (TypeAt (int n) l) (\<lambda>t. map_option (TypeList t) (ReverseHelper l n))"

definition Reverse :: "cxx \<Rightarrow> cxx option" where
  "Reverse l = Option.bind (Size l) (ReverseHelper l)"

fun Count :: "cxx \<Rightarrow> cxx \<Rightarrow> nat option" where
  "Count s (TypeList h t) = map_option (\<lambda>c. (if s = h then 1 else 0) + c) (Count s t)"
| "Count s NilType = Some 0"
| "Count s _ = None"

fun make_typelist :: "cxx list \<Rightarrow> cxx" where
  "make_typelist [] = TypeList NilType NilType"
| "make_typelist [t] = TypeList t NilType"
| "make_typelist (t # ts) = TypeList t (make_typelist ts)"

text \<open>The function object \<open>FuncT\<close> of \<open>AllOf\<close> may itself fail to compile for a type.\<close>

fun AllOf :: "(cxx \<Rightarrow> bool option) \<Rightarrow> cxx \<Rightarrow> bool option" where
  "AllOf f (TypeList h t) =
     (if t = NilType then (if h = NilType then Some True else f h)
      else Option.bind (f h) (\<lambda>a. map_option (\<lambda>b. a \<and> b) (AllOf f t)))"
| "AllOf f _ = None"

fun transform_list :: "(cxx \<Rightarrow> cxx) \<Rightarrow> cxx \<Rightarrow> cxx option" where
  "transform_list f (TypeList h t) =
     (if t = NilType then Some (TypeList (f h) NilType)
      else map_option (TypeList (f h)) (transform_list f t))"
| "transform_list f _ = None"

section \<open>The lists they stand for\<close>

fun elems :: "cxx \<Rightarrow> cxx list option" where
  "elems NilType = Some []"
| "elems (TypeList h t) =
     (if h = NilType then (if t = NilType then Some [] else None) else map_option ((#) h) (elems t))"
| "elems _ = None"

text \<open>The form without an empty list at its end, which \<open>make_typelist\<close> and \<open>Reverse\<close> build.\<close>

fun compact :: "cxx \<Rightarrow> bool" where
  "compact NilType \<longleftrightarrow> True"
| "compact (TypeList h t) \<longleftrightarrow> compact t \<and> (h = NilType \<longrightarrow> t = NilType) \<and> t \<noteq> TypeList NilType NilType"
| "compact _ \<longleftrightarrow> False"

lemma elems_nil: "elems l = Some [] \<longleftrightarrow> l = NilType \<or> l = TypeList NilType NilType"
  by (cases l) (auto split: if_splits)

lemma elems_no_nil: "elems l = Some xs \<Longrightarrow> NilType \<notin> set xs"
  by (induction l arbitrary: xs rule: elems.induct) (auto split: if_splits)

text \<open>Induction over a list of types in either form.\<close>

lemma elems_induct [consumes 1, case_names nil empty one more]:
  assumes "elems l = Some xs"
    and "P NilType []" and "P (TypeList NilType NilType) []"
    and "\<And>h. h \<noteq> NilType \<Longrightarrow> P (TypeList h NilType) [h]"
    and "\<And>h t xs. h \<noteq> NilType \<Longrightarrow> t \<noteq> NilType \<Longrightarrow> elems t = Some xs \<Longrightarrow> P t xs \<Longrightarrow> P (TypeList h t) (h # xs)"
  shows "P l xs"
  using assms(1)
proof (induction l arbitrary: xs)
  case (TypeList h t)
  show ?case
  proof (cases "h = NilType \<or> t = NilType")
    case True
    with TypeList.prems assms(3,4) show ?thesis by (auto split: if_splits)
  next
    case False
    with TypeList.prems obtain ys where "elems t = Some ys" "xs = h # ys" by auto
    with False TypeList.IH(2) assms(5) show ?thesis by simp
  qed
qed (use assms(2) in auto)

section \<open>Each metaprogram is the list operation it is named after\<close>

lemma Size_elems: "elems l = Some xs \<Longrightarrow> l \<noteq> NilType \<Longrightarrow> Size l = Some (length xs)"
  by (induction rule: elems_induct) auto

lemma PopFrontN_elems:
  "elems l = Some xs \<Longrightarrow> \<exists>l'. PopFrontN n l = Some l' \<and> elems l' = Some (if n < 0 then [] else drop (nat n) xs)"
proof (induction l xs arbitrary: n rule: elems_induct)
  case (more h t xs)
  then show ?case
    using more.IH [of "n - 1"] by (cases "n > 0") (auto simp: drop_Cons' nat_diff_distrib)
qed (auto simp: drop_Cons')

lemma PushFront_elems: "elems l = Some xs \<Longrightarrow> elems (PushFront l t) = Some (if t = NilType then xs else t # xs)"
  by (simp add: PushFront_def)

lemma PopBack_elems:
  "elems l = Some xs \<Longrightarrow> \<exists>l'. PopBack l = Some l' \<and> elems l' = Some (if compact l then butlast xs else xs)"
  by (induction rule: elems_induct) (auto simp: elems_nil)

lemma Back_elems:
  "elems l = Some xs \<Longrightarrow> compact l \<Longrightarrow> xs \<noteq> [] \<Longrightarrow> Back l = Some (last xs)"
  by (induction rule: elems_induct) (auto simp: elems_nil)

lemma Back_not_compact:
  "elems l = Some xs \<Longrightarrow> \<not> compact l \<Longrightarrow> Back l = Some NilType"
  by (induction rule: elems_induct) auto

text \<open>The index of the first occurrence, or \<open>-1\<close>.\<close>

definition first_index :: "'a \<Rightarrow> 'a list \<Rightarrow> int" where
  "first_index x xs = (if x \<in> set xs then int (length (takeWhile (\<lambda>y. y \<noteq> x) xs)) else - 1)"

lemma first_index_simps [simp]:
  "first_index x [] = - 1"
  "first_index x (y # ys) = (if x = y then 0 else if x \<in> set ys then first_index x ys + 1 else - 1)"
  by (auto simp: first_index_def)

lemma first_index_neg: "first_index x xs = - 1 \<longleftrightarrow> x \<notin> set xs"
  by (simp add: first_index_def)

lemma Find_from:
  "elems l = Some xs \<Longrightarrow> s \<noteq> NilType \<Longrightarrow>
     Find s l n = Some (if s \<in> set xs then n + first_index s xs else - 1)"
  by (induction l xs arbitrary: n rule: elems_induct) auto

lemma Find_elems: "elems l = Some xs \<Longrightarrow> s \<noteq> NilType \<Longrightarrow> Find s l 0 = Some (first_index s xs)"
  by (simp add: Find_from first_index_neg) (metis first_index_neg)

lemma TypeAt_elems: "elems l = Some xs \<Longrightarrow> i < length xs \<Longrightarrow> TypeAt (int i) l = Some (xs ! i)"
proof (induction l xs arbitrary: i rule: elems_induct)
  case (more h t xs)
  then show ?case by (cases i) auto
qed auto

lemma RelaxedTypeAt_elems:
  "elems l = Some xs \<Longrightarrow>
     RelaxedTypeAt n l = Some (if 0 \<le> n \<and> nat n < length xs then xs ! nat n else NilType)"
proof (induction l xs arbitrary: n rule: elems_induct)
  case (more h t xs)
  then show ?case
    using more.IH [of "n - 1"] by (auto simp: nth_Cons' nat_diff_distrib)
qed auto

lemma ReverseHelper_elems:
  "elems l = Some xs \<Longrightarrow> 0 < n \<Longrightarrow> n \<le> length xs \<Longrightarrow>
     \<exists>l'. ReverseHelper l n = Some l' \<and> elems l' = Some (rev (take n xs))"
proof (induction l n rule: ReverseHelper.induct)
  case (2 l)
  then have "xs ! 0 \<noteq> NilType" using elems_no_nil [of l xs] by (metis One_nat_def Suc_le_lessD nth_mem)
  with 2 TypeAt_elems [of l xs 0] show ?case by (cases xs) auto
next
  case (3 l m)
  then have at: "TypeAt (int (Suc m)) l = Some (xs ! Suc m)"
    using TypeAt_elems [of l xs "Suc m"] by simp
  have "xs ! Suc m \<noteq> NilType"
    using 3 elems_no_nil [of l xs] by (metis Suc_le_lessD nth_mem)
  moreover obtain l' where "ReverseHelper l (Suc m) = Some l'" "elems l' = Some (rev (take (Suc m) xs))"
    using "3.IH" [OF at "3.prems"(1)] "3.prems"(3) by auto
  ultimately show ?case
    using at 3(4) by (auto simp del: of_nat_Suc simp: take_Suc_conv_app_nth [of "Suc m" xs])
qed simp

lemma Reverse_elems:
  assumes "elems l = Some xs" and "xs \<noteq> []"
  shows "\<exists>l'. Reverse l = Some l' \<and> elems l' = Some (rev xs)"
proof -
  from assms have "l \<noteq> NilType" by auto
  with assms show ?thesis
    using ReverseHelper_elems [of l xs "length xs"] by (simp add: Reverse_def Size_elems)
qed

lemma Reverse_empty: "elems l = Some [] \<Longrightarrow> Reverse l = None"
  by (auto simp: elems_nil Reverse_def)

lemma Count_elems: "elems l = Some xs \<Longrightarrow> s \<noteq> NilType \<Longrightarrow> Count s l = Some (count_list xs s)"
  by (induction rule: elems_induct) auto

lemma make_typelist_elems: "NilType \<notin> set ts \<Longrightarrow> elems (make_typelist ts) = Some ts"
  by (induction ts rule: make_typelist.induct) auto

lemma make_typelist_not_nil [simp]: "make_typelist ts \<noteq> NilType"
  by (cases ts rule: make_typelist.cases) auto

lemma AllOf_elems:
  "elems l = Some xs \<Longrightarrow> l \<noteq> NilType \<Longrightarrow> \<forall>x \<in> set xs. f x = Some (p x) \<Longrightarrow> AllOf f l = Some (list_all p xs)"
  by (induction rule: elems_induct) auto

lemma transform_elems:
  "elems l = Some xs \<Longrightarrow> l \<noteq> NilType \<Longrightarrow> f NilType = NilType \<Longrightarrow> \<forall>x. x \<noteq> NilType \<longrightarrow> f x \<noteq> NilType \<Longrightarrow>
     \<exists>l'. transform_list f l = Some l' \<and> elems l' = Some (map f xs) \<and> l' \<noteq> NilType"
  by (induction rule: elems_induct) auto

section \<open>The list of types \<open>isPod\<close> looks in\<close>

lemma isPod_find:
  "Find (Val (TyPod k)) (make_typelist (map (\<lambda>t. Val (TyPod t)) pod_types)) 0 = Some n \<Longrightarrow> isPod k \<longleftrightarrow> 0 \<le> n"
proof -
  let ?ts = "map (\<lambda>t. Val (TyPod t)) pod_types"
  have "elems (make_typelist ?ts) = Some ?ts" by (rule make_typelist_elems) auto
  from Find_elems [OF this] have "Find (Val (TyPod k)) (make_typelist ?ts) 0 = Some (first_index (Val (TyPod k)) ?ts)"
    by simp
  moreover assume "Find (Val (TyPod k)) (make_typelist ?ts) 0 = Some n"
  ultimately have "n = first_index (Val (TyPod k)) ?ts" by simp
  then show ?thesis
    by (auto simp: isPod_def first_index_def)
qed

end
