(* ===== verification/Deduction.thy ===== *)
theory Deduction
  imports TypeLists
begin

text \<open>
  What a method declaration means (\<open>include/simppl/parameter_deduction.h\<close>,
  \<open>detail/parameter_deduction.h\<close>, \<open>detail/validation.h\<close>): from the list of markers \<open>in<T>\<close>,
  \<open>out<T>\<close>, \<open>_throw<E>\<close>, \<open>oneway\<close> the metaprograms compute the types of arguments, results and
  callbacks, the serializers and the introspection data, for the stub and for the skeleton.
\<close>

section \<open>Markers\<close>

fun is_in :: "cxx \<Rightarrow> bool" where "is_in (In _) \<longleftrightarrow> True" | "is_in _ \<longleftrightarrow> False"
fun is_out :: "cxx \<Rightarrow> bool" where "is_out (Out _) \<longleftrightarrow> True" | "is_out _ \<longleftrightarrow> False"
fun is_throw :: "cxx \<Rightarrow> bool" where "is_throw (Throws _) \<longleftrightarrow> True" | "is_throw _ \<longleftrightarrow> False"

text \<open>The member type \<open>real_type\<close>, which only the markers have.\<close>

fun real_type :: "cxx \<Rightarrow> cxx option" where
  "real_type Oneway = Some Oneway"
| "real_type (In t) = Some t"
| "real_type (Out t) = Some t"
| "real_type (Throws t) = Some t"
| "real_type _ = None"

text \<open>The static assertion of \<open>InOutThrowOrOneway\<close> stops the compilation.\<close>

definition InOutThrowOrOneway :: "cxx \<Rightarrow> bool option" where
  "InOutThrowOrOneway t = (if is_in t \<or> is_out t \<or> t = Oneway \<or> is_throw t then Some True else None)"

section \<open>From lists to tuples, functions and serializers\<close>

fun make_tuple_from_list :: "cxx \<Rightarrow> cxx list \<Rightarrow> cxx option" where
  "make_tuple_from_list (TypeList h t) ts =
     (if t = NilType then Some (StdTuple (if h = NilType then ts else ts @ [h]))
      else make_tuple_from_list t (ts @ [h]))"
| "make_tuple_from_list _ ts = None"

fun make_function_from_list :: "cxx \<Rightarrow> cxx list \<Rightarrow> cxx option" where
  "make_function_from_list (TypeList h t) ts =
     (if t = NilType then Some (StdFunction (if h = NilType then ts else ts @ [h]))
      else make_function_from_list t (ts @ [h]))"
| "make_function_from_list Void ts = Some (StdFunction ts)"
| "make_function_from_list _ ts = None"

text \<open>\<open>SerializerGenerator<T...>\<close> is given by its argument types.\<close>

fun make_serializer_from_list :: "cxx \<Rightarrow> cxx list \<Rightarrow> cxx list option" where
  "make_serializer_from_list (TypeList h t) ts =
     (if t = NilType then Some (if h = NilType then ts else ts @ [h])
      else make_serializer_from_list t (ts @ [h]))"
| "make_serializer_from_list Void ts = Some ts"
| "make_serializer_from_list _ ts = None"

text \<open>A tuple type, however it was made.\<close>

fun std_tuple :: "cxx \<Rightarrow> cxx list option" where
  "std_tuple (StdTuple ts) = Some ts"
| "std_tuple (Val (TyTuple ts)) = Some (map Val ts)"
| "std_tuple _ = None"

definition canonify :: "cxx \<Rightarrow> cxx" where
  "canonify t = (case std_tuple t of None \<Rightarrow> t | Some [] \<Rightarrow> Void | Some [u] \<Rightarrow> u | Some us \<Rightarrow> t)"

fun add_const_for_pointer :: "cxx \<Rightarrow> cxx" where
  "add_const_for_pointer (Pointer t) = ConstPointer t"
| "add_const_for_pointer t = t"

section \<open>Filters\<close>

fun filter_args :: "(cxx \<Rightarrow> bool) \<Rightarrow> cxx list \<Rightarrow> cxx option" where
  "filter_args f [] = Some (make_typelist [])"
| "filter_args f [t] = map_option (\<lambda>r. make_typelist [if f t then r else NilType]) (real_type t)"
| "filter_args f (t # ts) = Option.bind (real_type t) (\<lambda>r.
     map_option (\<lambda>l. PushFront l (if f t then r else NilType)) (filter_args f ts))"

definition generate_return_type :: "cxx list \<Rightarrow> cxx option" where
  "generate_return_type ts = Option.bind (filter_args is_out ts) (\<lambda>l. make_tuple_from_list l [])"

definition const_list_type :: "cxx list \<Rightarrow> cxx option" where
  "const_list_type ts = Option.bind (filter_args is_in ts) (transform_list add_const_for_pointer)"

text \<open>The members \<open>type\<close> and \<open>const_type\<close> of \<open>generate_argument_type\<close>.\<close>

definition generate_argument_type :: "cxx list \<Rightarrow> cxx option" where
  "generate_argument_type ts = Option.bind (filter_args is_in ts) (\<lambda>l. make_tuple_from_list l [])"

definition generate_argument_const_type :: "cxx list \<Rightarrow> cxx option" where
  "generate_argument_const_type ts = Option.bind (const_list_type ts) (\<lambda>l. make_tuple_from_list l [])"

definition generate_callback_function :: "cxx \<Rightarrow> cxx list \<Rightarrow> cxx option" where
  "generate_callback_function e ts =
     Option.bind (filter_args is_out ts) (\<lambda>l. make_function_from_list l [CallStateRef e])"

definition generate_server_callback_function :: "cxx list \<Rightarrow> cxx option" where
  "generate_server_callback_function ts =
     Option.bind (filter_args is_in ts) (\<lambda>l. make_function_from_list l [])"

definition generate_serializer :: "cxx \<Rightarrow> cxx list option" where
  "generate_serializer l = make_serializer_from_list l []"

definition is_oneway_request :: "cxx list \<Rightarrow> bool option" where
  "is_oneway_request ts = map_option (\<lambda>n. n \<noteq> - 1) (Find Oneway (make_typelist ts) 0)"

definition has_exception :: "cxx list \<Rightarrow> bool option" where
  "has_exception ts = Option.bind (filter_args is_throw ts) (\<lambda>l. map_option (\<lambda>n. n = 0) (Size l))"

fun is_base_of_Error :: "cxx \<Rightarrow> bool" where
  "is_base_of_Error ErrorT \<longleftrightarrow> True"
| "is_base_of_Error (ClassT n b) \<longleftrightarrow> b"
| "is_base_of_Error _ \<longleftrightarrow> False"

text \<open>The three static assertions of \<open>get_exception_type\<close> are its conditions.\<close>

definition get_exception_type :: "cxx list \<Rightarrow> cxx option" where
  "get_exception_type ts =
     Option.bind (filter_args is_throw ts) (\<lambda>l.
     Option.bind (Size l) (\<lambda>size.
     Option.bind (TypeAt 0 l) (\<lambda>t.
     Option.bind (is_oneway_request ts) (\<lambda>oneway.
       if size \<le> 1 \<and> (size = 0 \<or> is_base_of_Error t) \<and> (size = 0 \<or> \<not> oneway)
       then Some (if size = 0 then ErrorT else t) else None))))"

section \<open>Declarations\<close>

text \<open>
  The declarations considered: values of serializable types, at most one exception class, and
  \<open>oneway\<close> only without results and without an exception class.
\<close>

fun param :: "cxx \<Rightarrow> bool" where
  "param (In (Val a)) \<longleftrightarrow> ty_ok a"
| "param (Out (Val a)) \<longleftrightarrow> ty_ok a"
| "param (Throws e) \<longleftrightarrow> is_base_of_Error e"
| "param Oneway \<longleftrightarrow> True"
| "param _ \<longleftrightarrow> False"

definition ins :: "cxx list \<Rightarrow> cpp_ty list" where
  "ins ts = concat (map (\<lambda>t. case t of In (Val a) \<Rightarrow> [a] | _ \<Rightarrow> []) ts)"

definition outs :: "cxx list \<Rightarrow> cpp_ty list" where
  "outs ts = concat (map (\<lambda>t. case t of Out (Val a) \<Rightarrow> [a] | _ \<Rightarrow> []) ts)"

definition excs :: "cxx list \<Rightarrow> cxx list" where
  "excs ts = concat (map (\<lambda>t. case t of Throws e \<Rightarrow> [e] | _ \<Rightarrow> []) ts)"

definition declared :: "cxx list \<Rightarrow> bool" where
  "declared ts \<longleftrightarrow> list_all param ts \<and> length (excs ts) \<le> 1 \<and>
     (Oneway \<in> set ts \<longrightarrow> outs ts = [] \<and> excs ts = [])"

lemma param_cases:
  assumes "param t"
  obtains a where "t = In (Val a)" "ty_ok a" | a where "t = Out (Val a)" "ty_ok a"
    | e where "t = Throws e" "is_base_of_Error e" | "t = Oneway"
  using assms by (cases t rule: param.cases) auto

lemma ins_simps [simp]:
  "ins [] = []" "ins (In (Val a) # ts) = a # ins ts" "ins (Out b # ts) = ins ts"
  "ins (Throws e # ts) = ins ts" "ins (Oneway # ts) = ins ts"
  by (simp_all add: ins_def)

lemma outs_simps [simp]:
  "outs [] = []" "outs (Out (Val a) # ts) = a # outs ts" "outs (In b # ts) = outs ts"
  "outs (Throws e # ts) = outs ts" "outs (Oneway # ts) = outs ts"
  by (simp_all add: outs_def)

lemma excs_simps [simp]:
  "excs [] = []" "excs (Throws e # ts) = e # excs ts" "excs (In b # ts) = excs ts"
  "excs (Out b # ts) = excs ts" "excs (Oneway # ts) = excs ts"
  by (simp_all add: excs_def)

text \<open>The result of a filter, by the real types it keeps.\<close>

definition picks :: "(cxx \<Rightarrow> bool) \<Rightarrow> cxx list \<Rightarrow> cxx list" where
  "picks f ts = map (\<lambda>t. the (real_type t)) (filter f ts)"

lemma param_real_type: "param t \<Longrightarrow> \<exists>r. real_type t = Some r \<and> r \<noteq> NilType"
  by (elim param_cases) auto

lemma filter_args_elems:
  "list_all param ts \<Longrightarrow> \<exists>l. filter_args f ts = Some l \<and> l \<noteq> NilType \<and> elems l = Some (picks f ts)"
proof (induction f ts rule: filter_args.induct)
  case (2 f t)
  then show ?case by (auto dest: param_real_type simp: picks_def)
next
  case (3 f t t' ts)
  then obtain r l where "real_type t = Some r" "r \<noteq> NilType" "filter_args f (t' # ts) = Some l"
    "l \<noteq> NilType" "elems l = Some (picks f (t' # ts))"
    by (auto dest!: param_real_type)
  then show ?case by (simp add: PushFront_def picks_def)
qed (auto simp: picks_def)

lemma picks_ins: "list_all param ts \<Longrightarrow> picks is_in ts = map Val (ins ts)"
  by (induction ts) (auto simp: picks_def elim!: param_cases)

lemma picks_outs: "list_all param ts \<Longrightarrow> picks is_out ts = map Val (outs ts)"
  by (induction ts) (auto simp: picks_def elim!: param_cases)

lemma picks_excs: "list_all param ts \<Longrightarrow> picks is_throw ts = excs ts"
  by (induction ts) (auto simp: picks_def elim!: param_cases)

lemmas filtered_elems = filter_args_elems [where f = is_in] filter_args_elems [where f = is_out]
  filter_args_elems [where f = is_throw]

lemma make_tuple_elems:
  "elems l = Some xs \<Longrightarrow> l \<noteq> NilType \<Longrightarrow> make_tuple_from_list l ts = Some (StdTuple (ts @ xs))"
  by (induction l xs arbitrary: ts rule: elems_induct) auto

lemma make_function_elems:
  "elems l = Some xs \<Longrightarrow> l \<noteq> NilType \<Longrightarrow> make_function_from_list l ts = Some (StdFunction (ts @ xs))"
  by (induction l xs arbitrary: ts rule: elems_induct) auto

lemma make_serializer_elems:
  "elems l = Some xs \<Longrightarrow> l \<noteq> NilType \<Longrightarrow> make_serializer_from_list l ts = Some (ts @ xs)"
  by (induction l xs arbitrary: ts rule: elems_induct) auto

lemma add_const_for_pointer_nil [simp]: "add_const_for_pointer t = NilType \<longleftrightarrow> t = NilType"
  by (cases t) auto

lemma add_const_vals [simp]: "map add_const_for_pointer (map Val as) = map Val as"
  by simp

lemma deductions:
  assumes "list_all param ts"
  shows "generate_return_type ts = Some (StdTuple (map Val (outs ts)))"
    and "generate_argument_type ts = Some (StdTuple (map Val (ins ts)))"
    and "generate_argument_const_type ts = Some (StdTuple (map Val (ins ts)))"
    and "generate_callback_function e ts = Some (StdFunction (CallStateRef e # map Val (outs ts)))"
    and "generate_server_callback_function ts = Some (StdFunction (map Val (ins ts)))"
    and "Option.bind (const_list_type ts) generate_serializer = Some (map Val (ins ts))"
    and "Option.bind (filter_args is_out ts) generate_serializer = Some (map Val (outs ts))"
proof -
  obtain li where i: "filter_args is_in ts = Some li" "li \<noteq> NilType" "elems li = Some (map Val (ins ts))"
    using filtered_elems(1) [OF assms] picks_ins [OF assms] by auto
  obtain lo where out: "filter_args is_out ts = Some lo" "lo \<noteq> NilType" "elems lo = Some (map Val (outs ts))"
    using filtered_elems(2) [OF assms] picks_outs [OF assms] by auto
  obtain lc where c: "const_list_type ts = Some lc" "lc \<noteq> NilType" "elems lc = Some (map Val (ins ts))"
    using transform_elems [OF i(3,2), of add_const_for_pointer] i(1)
    by (auto simp: const_list_type_def simp del: map_map)
  show "generate_return_type ts = Some (StdTuple (map Val (outs ts)))"
    "generate_callback_function e ts = Some (StdFunction (CallStateRef e # map Val (outs ts)))"
    "Option.bind (filter_args is_out ts) generate_serializer = Some (map Val (outs ts))"
    using out by (simp_all add: generate_return_type_def generate_callback_function_def generate_serializer_def
        make_tuple_elems make_function_elems make_serializer_elems)
  show "generate_argument_type ts = Some (StdTuple (map Val (ins ts)))"
    "generate_server_callback_function ts = Some (StdFunction (map Val (ins ts)))"
    using i by (simp_all add: generate_argument_type_def generate_server_callback_function_def
        make_tuple_elems make_function_elems)
  show "generate_argument_const_type ts = Some (StdTuple (map Val (ins ts)))"
    "Option.bind (const_list_type ts) generate_serializer = Some (map Val (ins ts))"
    using c by (simp_all add: generate_argument_const_type_def generate_serializer_def
        make_tuple_elems make_serializer_elems)
qed

lemma param_not_nil: "list_all param ts \<Longrightarrow> NilType \<notin> set ts"
  by (auto simp: list_all_iff)

lemma is_oneway_declared: "list_all param ts \<Longrightarrow> is_oneway_request ts = Some (Oneway \<in> set ts)"
  using Find_elems [OF make_typelist_elems, of ts Oneway] param_not_nil [of ts]
  by (simp add: is_oneway_request_def first_index_neg)

lemma valid_declared: "list_all param ts \<Longrightarrow> AllOf InOutThrowOrOneway (make_typelist ts) = Some True"
proof -
  assume p: "list_all param ts"
  then have "\<forall>x \<in> set ts. InOutThrowOrOneway x = Some True"
    by (auto simp: list_all_iff InOutThrowOrOneway_def elim!: param_cases)
  from AllOf_elems [OF make_typelist_elems, of ts InOutThrowOrOneway "\<lambda>_. True"] this param_not_nil [OF p]
  show ?thesis by (simp add: list_all_iff)
qed

lemma exception_declared:
  assumes "declared ts"
  shows "get_exception_type ts = Some (case excs ts of [] \<Rightarrow> ErrorT | e # es \<Rightarrow> e)"
proof -
  from assms have p: "list_all param ts" by (simp add: declared_def)
  obtain l where l: "filter_args is_throw ts = Some l" "l \<noteq> NilType" "elems l = Some (excs ts)"
    using filtered_elems(3) [OF p] picks_excs [OF p] by auto
  have size: "Size l = Some (length (excs ts))"
    by (rule Size_elems [OF l(3,2)])
  have base: "is_base_of_Error e" if "e \<in> set (excs ts)" for e
    using p that by (induction ts) (auto elim!: param_cases)
  show ?thesis
  proof (cases "excs ts")
    case Nil
    with l have "l = TypeList NilType NilType" by (simp add: elems_nil)
    with Nil l size is_oneway_declared [OF p] show ?thesis by (simp add: get_exception_type_def)
  next
    case (Cons e es)
    with l(3) TypeAt_elems [of l "excs ts" 0] have "TypeAt 0 l = Some e" by simp
    with Cons l size is_oneway_declared [OF p] assms base [of e] show ?thesis
      by (auto simp: get_exception_type_def declared_def)
  qed
qed

text \<open>\<open>has_exception\<close> (not used by the library) tells whether there is \<^emph>\<open>no\<close> exception class.\<close>

lemma has_exception_inverted:
  assumes "list_all param ts"
  shows "has_exception ts = Some (excs ts = [])"
proof -
  obtain l where "filter_args is_throw ts = Some l" "l \<noteq> NilType" "elems l = Some (excs ts)"
    using filtered_elems(3) [OF assms] picks_excs [OF assms] by auto
  then show ?thesis by (simp add: has_exception_def Size_elems)
qed

section \<open>Introspection data\<close>

fun GetRealType :: "cxx \<Rightarrow> cxx" where
  "GetRealType (In t) = t"
| "GetRealType (Out t) = t"
| "GetRealType t = t"

function show_nat :: "nat \<Rightarrow> string" where
  "show_nat n = (if n < 10 then [char_of (48 + n)] else show_nat (n div 10) @ [char_of (48 + n mod 10)])"
  by auto
termination by (relation "measure (\<lambda>n. n)") auto

declare show_nat.simps [simp del]

definition arg_xml :: "nat \<Rightarrow> string \<Rightarrow> bool \<Rightarrow> string" where
  "arg_xml i ty isin =
     ''<arg name='' @ [CHR 0x22] @ ''arg'' @ show_nat i @ [CHR 0x22] @ '' type='' @ [CHR 0x22] @ ty
       @ [CHR 0x22] @ '' direction='' @ [CHR 0x22] @ (if isin then ''in'' else ''out'') @ [CHR 0x22]
       @ ''/>'' @ [CHR 0x0A]"

text \<open>A type without a codec, such as a nested marker, has no signature.\<close>

definition IntrospectionHelper :: "cxx \<Rightarrow> nat \<Rightarrow> string option" where
  "IntrospectionHelper t i =
     (if t = Oneway \<or> is_throw t then Some []
      else case GetRealType t of Val a \<Rightarrow> Some (arg_xml i (ty_sig a) (is_in t)) | _ \<Rightarrow> None)"

fun ForEach_eval :: "nat \<Rightarrow> cxx list \<Rightarrow> string option" where
  "ForEach_eval i [] = Some []"
| "ForEach_eval i (t # ts) =
     Option.bind (IntrospectionHelper t i) (\<lambda>s. map_option ((@) s) (ForEach_eval (Suc i) ts))"

definition introspect_args :: "cxx list \<Rightarrow> string option" where
  "introspect_args ts = ForEach_eval 0 ts"

text \<open>What is announced: position among all markers, signature and direction.\<close>

fun announced :: "nat \<Rightarrow> cxx list \<Rightarrow> (nat \<times> string \<times> bool) list" where
  "announced i [] = []"
| "announced i (t # ts) = (case t of In (Val a) \<Rightarrow> [(i, ty_sig a, True)] | Out (Val a) \<Rightarrow> [(i, ty_sig a, False)]
     | _ \<Rightarrow> []) @ announced (Suc i) ts"

lemma ForEach_announced:
  "list_all param ts \<Longrightarrow> ForEach_eval i ts = Some (concat (map (\<lambda>(i, g, d). arg_xml i g d) (announced i ts)))"
  by (induction ts arbitrary: i) (auto simp: IntrospectionHelper_def elim!: param_cases)

lemma announced_sigs:
  "list_all param ts \<Longrightarrow> [g. (i, g, d) \<leftarrow> announced k ts, d] = map ty_sig (ins ts)"
  "list_all param ts \<Longrightarrow> [g. (i, g, d) \<leftarrow> announced k ts, \<not> d] = map ty_sig (outs ts)"
  by (induction ts arbitrary: k) (auto elim!: param_cases)

end
