(* ===== verification/Bus.thy ===== *)
theory Bus
  imports ErrorObj
begin

text \<open>
  Calls that change state, and the connection to the bus.

  A C++ call with side effects is a function from the state to \<open>((exn + 'a) * 'state) option\<close>:
  \<open>None\<close> does not return, and the state is kept when an exception leaves the call, since C++
  does not roll anything back.

  The connection (\<open>DBusConnection\<close>) is libdbus' and not part of the repository: the record
  \<open>dbus_conn_api\<close> holds the functions the code calls on it, over an abstract type \<open>'b\<close>, and
  \<open>dbus_conn\<close> states what the code relies on: which match rules the connection has, which
  messages were sent, which object paths are registered.
\<close>

section \<open>Calls with side effects\<close>

type_synonym ('s, 'a) prog = "'s \<Rightarrow> ((exn + 'a) \<times> 's) option"

definition preturn :: "'a \<Rightarrow> ('s, 'a) prog" where
  "preturn x s = Some (Inr x, s)"

definition pthrow :: "exn \<Rightarrow> ('s, 'a) prog" where
  "pthrow e s = Some (Inl e, s)"

definition pbind :: "('s, 'a) prog \<Rightarrow> ('a \<Rightarrow> ('s, 'b) prog) \<Rightarrow> ('s, 'b) prog" where
  "pbind m f s = Option.bind (m s) (\<lambda>(r, s'). case r of Inl e \<Rightarrow> Some (Inl e, s') | Inr x \<Rightarrow> f x s')"

definition pmodify :: "('s \<Rightarrow> 's) \<Rightarrow> ('s, unit) prog" where
  "pmodify f s = Some (Inr (), f s)"

text \<open>A call that only computes, and \<open>try\<close>/\<open>catch\<close>.\<close>

definition plift :: "'a res \<Rightarrow> ('s, 'a) prog" where
  "plift m s = map_option (\<lambda>r. (r, s)) m"

definition pcatch :: "('s, 'a) prog \<Rightarrow> (exn \<Rightarrow> ('s, 'a) prog) \<Rightarrow> ('s, 'a) prog" where
  "pcatch m h s = Option.bind (m s) (\<lambda>(r, s'). case r of Inl e \<Rightarrow> h e s' | Inr x \<Rightarrow> Some (Inr x, s'))"

text \<open>A call on a component of the state.\<close>

definition on_part :: "('s \<Rightarrow> 'd) \<Rightarrow> ('d \<Rightarrow> 's \<Rightarrow> 's) \<Rightarrow> ('d, 'a) prog \<Rightarrow> ('s, 'a) prog" where
  "on_part get put m s = map_option (\<lambda>(r, d). (r, put d s)) (m (get s))"

text \<open>\<open>for_each\<close> over a sequence; an exception ends it.\<close>

fun pfor :: "'a list \<Rightarrow> ('a \<Rightarrow> ('s, unit) prog) \<Rightarrow> ('s, unit) prog" where
  "pfor [] f = preturn ()"
| "pfor (x # xs) f = pbind (f x) (\<lambda>_. pfor xs f)"

lemma pbind_simps [simp]:
  "pbind (preturn x) f s = f x s"
  "pbind (pthrow e) f s = pthrow e s"
  "m s = None \<Longrightarrow> pbind m f s = None"
  "m s = Some (Inl e, s') \<Longrightarrow> pbind m f s = Some (Inl e, s')"
  "m s = Some (Inr x, s') \<Longrightarrow> pbind m f s = f x s'"
  by (simp_all add: pbind_def preturn_def pthrow_def)

lemma preturn_eq [simp]:
  "preturn x s = Some (r, s') \<longleftrightarrow> r = Inr x \<and> s' = s"
  "pthrow e s = Some (r, s') \<longleftrightarrow> r = Inl e \<and> s' = s"
  "preturn x s \<noteq> None" "pthrow e s \<noteq> None"
  by (auto simp: preturn_def pthrow_def)

lemma plift_simps [simp]:
  "plift None s = None" "plift (ret x) s = preturn x s" "plift (throw e) s = pthrow e s"
  by (simp_all add: plift_def preturn_def pthrow_def ret_def throw_def)

lemma pbind_eq_Some:
  "pbind m f s = Some (r, s') \<longleftrightarrow>
     (\<exists>e. m s = Some (Inl e, s') \<and> r = Inl e) \<or> (\<exists>x t. m s = Some (Inr x, t) \<and> f x t = Some (r, s'))"
  by (cases "m s") (auto simp: pbind_def split: sum.splits)

lemma on_part_eq_Some:
  "on_part get put m s = Some (r, s') \<longleftrightarrow> (\<exists>d. m (get s) = Some (r, d) \<and> s' = put d s)"
  by (auto simp: on_part_def)

lemma pbind_mono [partial_function_mono]:
  assumes "mono_option (\<lambda>f. B f s)" and "\<And>y s'. mono_option (\<lambda>f. C y f s')"
  shows "mono_option (\<lambda>f. pbind (B f) (\<lambda>y. C y f) s)"
  unfolding pbind_def
proof (rule bind_mono [OF assms(1)])
  fix p
  show "mono_option (\<lambda>f. case p of (r, s') \<Rightarrow> (case r of Inl e \<Rightarrow> Some (Inl e, s') | Inr x \<Rightarrow> C x f s'))"
    by (cases p, cases "fst p") (auto simp: assms(2) option.const_mono)
qed

section \<open>Messages\<close>

datatype msg_type = MethodCall | MethodReturn | ErrorReply | Signal

text \<open>
  A message the code builds: what it passes to \<open>dbus_message_new_*\<close>, and the iterator it
  appended the arguments with. \<open>om_reply_to\<close> is the serial of the request a reply is for.
\<close>

record 'w out_msg =
  om_type :: msg_type
  om_destination :: "string option"
  om_path :: "string option"
  om_interface :: "string option"
  om_member :: "string option"
  om_error_name :: "string option"
  om_reply_to :: "32 word"
  om_no_reply :: bool
  om_body :: 'w

text \<open>A received message; \<open>im_body\<close> is the iterator \<open>dbus_message_iter_init\<close> sets up.\<close>

record 'r in_msg =
  im_type :: msg_type
  im_path :: "string option"
  im_interface :: "string option"
  im_member :: "string option"
  im_error_name :: "string option"
  im_serial :: "32 word"
  im_reply_serial :: "32 word"
  im_body :: 'r

definition message_new_method_call :: "string \<Rightarrow> string \<Rightarrow> string \<Rightarrow> string \<Rightarrow> 'w \<Rightarrow> 'w out_msg" where
  "message_new_method_call dest path iface method body =
     \<lparr>om_type = MethodCall, om_destination = Some dest, om_path = Some path, om_interface = Some iface,
      om_member = Some method, om_error_name = None, om_reply_to = 0, om_no_reply = False, om_body = body\<rparr>"

definition message_new_signal :: "string \<Rightarrow> string \<Rightarrow> string \<Rightarrow> 'w \<Rightarrow> 'w out_msg" where
  "message_new_signal path iface name body =
     \<lparr>om_type = Signal, om_destination = None, om_path = Some path, om_interface = Some iface,
      om_member = Some name, om_error_name = None, om_reply_to = 0, om_no_reply = False, om_body = body\<rparr>"

definition message_new_method_return :: "'r in_msg \<Rightarrow> 'w \<Rightarrow> 'w out_msg" where
  "message_new_method_return req body =
     \<lparr>om_type = MethodReturn, om_destination = None, om_path = None, om_interface = None,
      om_member = None, om_error_name = None, om_reply_to = im_serial req, om_no_reply = True, om_body = body\<rparr>"

definition message_new_error :: "'r in_msg \<Rightarrow> string option \<Rightarrow> 'w \<Rightarrow> 'w out_msg" where
  "message_new_error req name body =
     \<lparr>om_type = ErrorReply, om_destination = None, om_path = None, om_interface = None,
      om_member = None, om_error_name = name, om_reply_to = im_serial req, om_no_reply = True, om_body = body\<rparr>"

section \<open>The connection\<close>

text \<open>
  The functions return the new connection and, where the C function has a \<open>DBusError*\<close>, the
  error that was set. \<open>last_serial\<close> is the serial of the message sent last. \<open>send_with_reply\<close> gives the pending call; \<open>call_block\<close> is
  \<open>dbus_pending_call_block\<close> with \<open>dbus_pending_call_steal_reply\<close>.
\<close>

record ('b, 'w, 'r) dbus_conn_api =
  bus_add_match :: "'b \<Rightarrow> string \<Rightarrow> dbus_error option \<times> 'b"
  bus_remove_match :: "'b \<Rightarrow> string \<Rightarrow> dbus_error option \<times> 'b"
  bus_request_name :: "'b \<Rightarrow> string \<Rightarrow> dbus_error option \<times> 'b"
  try_register_object_path :: "'b \<Rightarrow> string \<Rightarrow> nat \<Rightarrow> dbus_error option \<times> 'b"
  unregister_object_path :: "'b \<Rightarrow> string \<Rightarrow> 'b"
  list_registered :: "'b \<Rightarrow> string \<Rightarrow> string list"
  connection_send :: "'b \<Rightarrow> 'w out_msg \<Rightarrow> 'b"
  send_with_reply :: "'b \<Rightarrow> 'w out_msg \<Rightarrow> int \<Rightarrow> nat \<times> 'b"
  call_block :: "'b \<Rightarrow> nat \<Rightarrow> 'r in_msg \<times> 'b"
  send_and_block :: "'b \<Rightarrow> 'w out_msg \<Rightarrow> int \<Rightarrow> (dbus_error + 'r in_msg) \<times> 'b"
  last_serial :: "'b \<Rightarrow> 32 word"
  message_iter :: 'w

text \<open>
  The bus keeps a multiset of match rules per connection: a rule added twice has to be removed
  twice. \<open>sent\<close> are the messages handed to \<open>dbus_connection_send\<close> in order, \<open>timeouts\<close> the
  timeouts requests were sent with.
\<close>

locale dbus_conn =
  fixes K :: "('b, 'w, 'r) dbus_conn_api"
    and rules :: "'b \<Rightarrow> string \<Rightarrow> nat"
    and sent :: "'b \<Rightarrow> 'w out_msg list"
    and paths :: "'b \<Rightarrow> string \<Rightarrow> nat option"
    and timeouts :: "'b \<Rightarrow> int list"
  assumes add_match_ok: "bus_add_match K b m = (None, b') \<Longrightarrow> rules b' = (rules b)(m := Suc (rules b m))"
    and add_match_err: "bus_add_match K b m = (Some e, b') \<Longrightarrow> rules b' = rules b"
    and remove_match_ok: "bus_remove_match K b m = (None, b') \<Longrightarrow> rules b' = (rules b)(m := rules b m - 1)"
    and remove_match_err: "bus_remove_match K b m = (Some e, b') \<Longrightarrow> rules b' = rules b"
    and match_frame:
      "bus_add_match K b m = (r, b') \<Longrightarrow> sent b' = sent b \<and> paths b' = paths b \<and> timeouts b' = timeouts b"
      "bus_remove_match K b m = (r, b') \<Longrightarrow> sent b' = sent b \<and> paths b' = paths b \<and> timeouts b' = timeouts b"
    and request_name_frame:
      "bus_request_name K b n = (r, b') \<Longrightarrow>
        rules b' = rules b \<and> sent b' = sent b \<and> paths b' = paths b \<and> timeouts b' = timeouts b"
    and register_path_ok:
      "try_register_object_path K b p u = (None, b') \<Longrightarrow> paths b p = None \<and> paths b' = (paths b)(p := Some u)"
    and register_path_err: "try_register_object_path K b p u = (Some e, b') \<Longrightarrow> paths b' = paths b"
    and register_path_frame:
      "try_register_object_path K b p u = (r, b') \<Longrightarrow>
        rules b' = rules b \<and> sent b' = sent b \<and> timeouts b' = timeouts b"
    and unregister_path: "paths (unregister_object_path K b p) = (paths b)(p := None)"
    and unregister_path_frame:
      "rules (unregister_object_path K b p) = rules b \<and> sent (unregister_object_path K b p) = sent b
        \<and> timeouts (unregister_object_path K b p) = timeouts b"
    and send_sent: "sent (connection_send K b msg) = sent b @ [msg]"
    and send_frame:
      "rules (connection_send K b msg) = rules b \<and> paths (connection_send K b msg) = paths b
        \<and> timeouts (connection_send K b msg) = timeouts b"
    and request_sent:
      "send_with_reply K b msg t = (c, b') \<Longrightarrow> sent b' = sent b @ [msg] \<and> timeouts b' = timeouts b @ [t]
        \<and> rules b' = rules b \<and> paths b' = paths b"
    and request_block_sent:
      "send_and_block K b msg t = (x, b') \<Longrightarrow> sent b' = sent b @ [msg] \<and> timeouts b' = timeouts b @ [t]
        \<and> rules b' = rules b \<and> paths b' = paths b"
    and block_frame:
      "call_block K b c = (reply, b') \<Longrightarrow> sent b' = sent b \<and> timeouts b' = timeouts b
        \<and> rules b' = rules b \<and> paths b' = paths b"

text \<open>\<open>DBusHandlerResult\<close>\<close>

datatype handler_result = Handled | NotYetHandled

section \<open>A connection that records\<close>

text \<open>
  An instance for concrete runs: match rules and object paths are maps, messages are
  recorded, every request gets the same empty reply. The flag makes the match functions fail.
\<close>

record ('w) rec_conn =
  rc_fail :: bool
  rc_rules :: "string \<Rightarrow> nat"
  rc_sent :: "'w out_msg list"
  rc_paths :: "string \<Rightarrow> nat option"
  rc_timeouts :: "int list"

definition rec_conn0 :: "'w rec_conn" where
  "rec_conn0 = \<lparr>rc_fail = False, rc_rules = (\<lambda>_. 0), rc_sent = [], rc_paths = (\<lambda>_. None), rc_timeouts = []\<rparr>"

definition rec_error :: dbus_error where
  "rec_error = \<lparr>de_name = ''e'', de_message = []\<rparr>"

definition rec_api :: "'w \<Rightarrow> 'r in_msg \<Rightarrow> ('w rec_conn, 'w, 'r) dbus_conn_api" where
  "rec_api root reply = \<lparr>
     bus_add_match = (\<lambda>b m. if rc_fail b then (Some rec_error, b)
       else (None, b\<lparr>rc_rules := (rc_rules b)(m := Suc (rc_rules b m))\<rparr>)),
     bus_remove_match = (\<lambda>b m. if rc_fail b then (Some rec_error, b)
       else (None, b\<lparr>rc_rules := (rc_rules b)(m := rc_rules b m - 1)\<rparr>)),
     bus_request_name = (\<lambda>b n. (None, b)),
     try_register_object_path = (\<lambda>b p u.
       case rc_paths b p of Some _ \<Rightarrow> (Some rec_error, b)
       | None \<Rightarrow> (None, b\<lparr>rc_paths := (rc_paths b)(p := Some u)\<rparr>)),
     unregister_object_path = (\<lambda>b p. b\<lparr>rc_paths := (rc_paths b)(p := None)\<rparr>),
     list_registered = (\<lambda>_ _. []),
     connection_send = (\<lambda>b msg. b\<lparr>rc_sent := rc_sent b @ [msg]\<rparr>),
     send_with_reply = (\<lambda>b msg t. (length (rc_sent b),
       b\<lparr>rc_sent := rc_sent b @ [msg], rc_timeouts := rc_timeouts b @ [t]\<rparr>)),
     call_block = (\<lambda>b c. (reply, b)),
     send_and_block = (\<lambda>b msg t. (Inr reply,
       b\<lparr>rc_sent := rc_sent b @ [msg], rc_timeouts := rc_timeouts b @ [t]\<rparr>)),
     last_serial = (\<lambda>b. of_nat (length (rc_sent b))),
     message_iter = root \<rparr>"

interpretation rec: dbus_conn "rec_api root reply" rc_rules rc_sent rc_paths rc_timeouts
  by unfold_locales (auto simp: rec_api_def split: if_splits option.splits)

end
