(* ===== verification/MatchTable.thy ===== *)
theory MatchTable
  imports Bus
begin

text \<open>
  The state of \<open>simppl::dbus::Dispatcher\<close> (\<open>include/simppl/dispatcher.h\<close>,
  \<open>src/dispatcher.cpp\<close>) and the part of it the stubs rely on for their signals: the reference
  counted table of D-Bus match rules. The locale \<open>match_table\<close> is the interface the stubs use
  it through.
\<close>

section \<open>The dispatcher's state\<close>

text \<open>
  \<open>dstubs\<close> is the multimap from object paths to stubs, in its iteration order: sorted by path,
  equal paths in the order of insertion.
\<close>

record 'b dispatcher =
  conn :: 'b
  request_timeout :: int
  running :: bool
  dstubs :: "(string \<times> nat) list"
  signal_matches :: "string \<Rightarrow> int option"
  busnames :: "string set"

section \<open>Reference counted match rules\<close>

definition register_signal_match ::
  "('b, 'w, 'r) dbus_conn_api \<Rightarrow> string \<Rightarrow> ('b dispatcher, unit) prog" where
  "register_signal_match K match_string d =
     (case signal_matches d match_string of
        None \<Rightarrow>
          (case bus_add_match K (conn d) (c_str match_string) of
             (Some err, b) \<Rightarrow>
               pthrow (RuntimeErrorExn (RuntimeError_new ''dbus_bus_add_match'' err)) (d\<lparr>conn := b\<rparr>)
           | (None, b) \<Rightarrow>
               preturn () (d\<lparr>conn := b, signal_matches := (signal_matches d)(match_string := Some 1)\<rparr>))
      | Some second \<Rightarrow>
          preturn () (d\<lparr>signal_matches := (signal_matches d)(match_string := Some (second + 1))\<rparr>))"

definition unregister_signal_match ::
  "('b, 'w, 'r) dbus_conn_api \<Rightarrow> string \<Rightarrow> ('b dispatcher, unit) prog" where
  "unregister_signal_match K match_string d =
     (case signal_matches d match_string of
        None \<Rightarrow> preturn () d
      | Some second \<Rightarrow>
          if second - 1 = 0 then
            let d = d\<lparr>signal_matches := (signal_matches d)(match_string := None)\<rparr> in
            (case bus_remove_match K (conn d) (c_str match_string) of
               (Some err, b) \<Rightarrow>
                 pthrow (RuntimeErrorExn (RuntimeError_new ''dbus_bus_remove_match'' err)) (d\<lparr>conn := b\<rparr>)
             | (None, b) \<Rightarrow> preturn () (d\<lparr>conn := b\<rparr>))
          else preturn () (d\<lparr>signal_matches := (signal_matches d)(match_string := Some (second - 1))\<rparr>))"

text \<open>
  What the table promises: \<open>cnt d m\<close> is how often \<open>m\<close> is registered. Registering adds one,
  and so does an unregistering take one away, also when the bus refuses to remove the rule; a
  failed registering changes nothing. As long as \<open>m\<close> is registered, the bus has a rule for it
  (\<open>delivered\<close>), and \<open>tidy\<close> says there are no other rules; \<open>others\<close> is the rest of the
  dispatcher's state.
\<close>

locale match_table =
  fixes reg unreg :: "string \<Rightarrow> ('d, unit) prog"
    and cnt :: "'d \<Rightarrow> string \<Rightarrow> nat"
    and ok :: "'d \<Rightarrow> bool"
    and delivered :: "'d \<Rightarrow> string \<Rightarrow> bool"
    and tidy :: "'d \<Rightarrow> bool"
    and others :: "'d \<Rightarrow> 'o"
  assumes reg_total: "reg m d \<noteq> None"
    and unreg_total: "unreg m d \<noteq> None"
    and reg_ok: "ok d \<Longrightarrow> nul_free m \<Longrightarrow> reg m d = Some (Inr u, d') \<Longrightarrow> ok d' \<and> cnt d' = (cnt d)(m := Suc (cnt d m))"
    and reg_err: "ok d \<Longrightarrow> nul_free m \<Longrightarrow> reg m d = Some (Inl e, d') \<Longrightarrow> ok d' \<and> cnt d' = cnt d"
    and unreg_ok: "ok d \<Longrightarrow> nul_free m \<Longrightarrow> unreg m d = Some (x, d') \<Longrightarrow> ok d' \<and> cnt d' = (cnt d)(m := cnt d m - 1)"
    and delivered: "ok d \<Longrightarrow> 0 < cnt d m \<Longrightarrow> delivered d m"
    and reg_tidy: "ok d \<Longrightarrow> nul_free m \<Longrightarrow> tidy d \<Longrightarrow> reg m d = Some (x, d') \<Longrightarrow> tidy d'"
    and unreg_tidy: "ok d \<Longrightarrow> nul_free m \<Longrightarrow> tidy d \<Longrightarrow> unreg m d = Some (Inr u, d') \<Longrightarrow> tidy d'"
    and reg_others: "reg m d = Some (x, d') \<Longrightarrow> others d' = others d"
    and unreg_others: "unreg m d = Some (x, d') \<Longrightarrow> others d' = others d"

section \<open>The dispatcher provides it\<close>

definition match_count :: "'b dispatcher \<Rightarrow> string \<Rightarrow> nat" where
  "match_count d m = (case signal_matches d m of None \<Rightarrow> 0 | Some n \<Rightarrow> nat n)"

definition match_entry_ok :: "(string \<Rightarrow> nat) \<Rightarrow> string \<Rightarrow> int \<Rightarrow> bool" where
  "match_entry_ok r m n \<longleftrightarrow> nul_free m \<and> 0 < n \<and> 0 < r m"

definition matches_ok :: "('b \<Rightarrow> string \<Rightarrow> nat) \<Rightarrow> 'b dispatcher \<Rightarrow> bool" where
  "matches_ok rules d \<longleftrightarrow>
     (\<forall>m n. signal_matches d m = Some n \<longrightarrow> match_entry_ok (rules (conn d)) m n)"

definition match_delivered :: "('b \<Rightarrow> string \<Rightarrow> nat) \<Rightarrow> 'b dispatcher \<Rightarrow> string \<Rightarrow> bool" where
  "match_delivered rules d m \<longleftrightarrow> 0 < rules (conn d) m"

text \<open>\<open>base\<close> are the rules the dispatcher adds for itself when it is created.\<close>

definition matches_tidy :: "('b \<Rightarrow> string \<Rightarrow> nat) \<Rightarrow> (string \<Rightarrow> nat) \<Rightarrow> 'b dispatcher \<Rightarrow> bool" where
  "matches_tidy rules base d \<longleftrightarrow>
     (\<forall>m. rules (conn d) m = base m + (if signal_matches d m = None then 0 else 1))"

definition match_others :: "('b \<Rightarrow> 's) \<Rightarrow> 'b dispatcher \<Rightarrow> int \<times> bool \<times> (string \<times> nat) list \<times> string set \<times> 's" where
  "match_others sent d = (request_timeout d, running d, dstubs d, busnames d, sent (conn d))"

lemma match_count_simps:
  "signal_matches d m = None \<Longrightarrow> match_count d m = 0"
  "signal_matches d m = Some n \<Longrightarrow> match_count d m = nat n"
  by (simp_all add: match_count_def)

lemma match_count_upd:
  "match_count (d\<lparr>conn := b, signal_matches := (signal_matches d)(m := x)\<rparr>)
     = (match_count d)(m := case x of None \<Rightarrow> 0 | Some n \<Rightarrow> nat n)"
  "match_count (d\<lparr>signal_matches := (signal_matches d)(m := x)\<rparr>)
     = (match_count d)(m := case x of None \<Rightarrow> 0 | Some n \<Rightarrow> nat n)"
  "match_count (d\<lparr>signal_matches := (signal_matches d)(m := x), conn := b\<rparr>)
     = (match_count d)(m := case x of None \<Rightarrow> 0 | Some n \<Rightarrow> nat n)"
  "match_count (d\<lparr>conn := b\<rparr>) = match_count d"
  by (auto simp: match_count_def fun_eq_iff)

context dbus_conn begin

lemma register_match_cases:
  assumes "register_signal_match K m d = Some (x, d')" and "nul_free m"
  obtains (counted) n where "signal_matches d m = Some n" "x = Inr ()"
      "d' = d\<lparr>signal_matches := (signal_matches d)(m := Some (n + 1))\<rparr>"
  | (added) b where "signal_matches d m = None" "x = Inr ()"
      "d' = d\<lparr>conn := b, signal_matches := (signal_matches d)(m := Some 1)\<rparr>"
      "rules b = (rules (conn d))(m := Suc (rules (conn d) m))" "sent b = sent (conn d)"
  | (failed) b e where "signal_matches d m = None" "x = Inl e" "d' = d\<lparr>conn := b\<rparr>"
      "rules b = rules (conn d)" "sent b = sent (conn d)"
  using assms add_match_ok [of "conn d" m] add_match_err [of "conn d" m] match_frame(1) [of "conn d" m]
  by (auto simp: register_signal_match_def c_str_id split: option.splits prod.splits)

lemma unregister_match_cases:
  assumes "unregister_signal_match K m d = Some (x, d')" and "nul_free m"
  obtains (absent) "signal_matches d m = None" "x = Inr ()" "d' = d"
  | (counted) n where "signal_matches d m = Some n" "n \<noteq> 1" "x = Inr ()"
      "d' = d\<lparr>signal_matches := (signal_matches d)(m := Some (n - 1))\<rparr>"
  | (removed) b where "signal_matches d m = Some 1" "x = Inr ()"
      "d' = d\<lparr>signal_matches := (signal_matches d)(m := None), conn := b\<rparr>"
      "rules b = (rules (conn d))(m := rules (conn d) m - 1)" "sent b = sent (conn d)"
  | (failed) b e where "signal_matches d m = Some 1" "x = Inl e"
      "d' = d\<lparr>signal_matches := (signal_matches d)(m := None), conn := b\<rparr>"
      "rules b = rules (conn d)" "sent b = sent (conn d)"
  using assms remove_match_ok [of "conn d" m] remove_match_err [of "conn d" m] match_frame(2) [of "conn d" m]
  by (auto simp: unregister_signal_match_def c_str_id Let_def split: option.splits prod.splits if_splits)

lemma matches_okD:
  "matches_ok rules d \<Longrightarrow> signal_matches d m = Some n \<Longrightarrow> 0 < n \<and> nul_free m \<and> 0 < rules (conn d) m"
  by (simp add: matches_ok_def match_entry_ok_def)

lemma register_match_law:
  assumes r: "register_signal_match K m d = Some (x, d')" and ok: "matches_ok rules d" and m: "nul_free m"
  shows "matches_ok rules d'"
    and "match_count d' = (if x = Inr () then (match_count d)(m := Suc (match_count d m)) else match_count d)"
    and "matches_tidy rules base d \<Longrightarrow> matches_tidy rules base d'"
proof -
  from r m show "matches_ok rules d'"
  proof (cases rule: register_match_cases)
    case (counted n)
    have "match_entry_ok (rules (conn d)) m (n + 1)"
      using matches_okD [OF ok counted(1)] m by (simp add: match_entry_ok_def)
    with counted ok show ?thesis by (simp add: matches_ok_def)
  qed (use ok m in \<open>auto simp: matches_ok_def match_entry_ok_def split: if_splits\<close>)
  from r m show "match_count d' = (if x = Inr () then (match_count d)(m := Suc (match_count d m)) else match_count d)"
  proof (cases rule: register_match_cases)
    case (counted n)
    have "nat (n + 1) = Suc (nat n)"
      using matches_okD [OF ok counted(1)] by (simp add: nat_add_distrib)
    with counted show ?thesis by (simp only: match_count_upd match_count_simps option.case simp_thms if_True)
  qed (simp_all add: match_count_upd match_count_simps)
  assume "matches_tidy rules base d"
  with r m show "matches_tidy rules base d'"
    by (cases rule: register_match_cases) (auto simp: matches_tidy_def)
qed

lemma unregister_match_law:
  assumes r: "unregister_signal_match K m d = Some (x, d')" and ok: "matches_ok rules d" and m: "nul_free m"
  shows "matches_ok rules d'"
    and "match_count d' = (match_count d)(m := match_count d m - 1)"
    and "matches_tidy rules base d \<Longrightarrow> x = Inr () \<Longrightarrow> matches_tidy rules base d'"
proof -
  from r m show "matches_ok rules d'"
  proof (cases rule: unregister_match_cases)
    case (counted n)
    have "match_entry_ok (rules (conn d)) m (n - 1)"
      using matches_okD [OF ok counted(1)] counted(2) m by (simp add: match_entry_ok_def)
    with counted ok show ?thesis by (simp add: matches_ok_def)
  qed (use ok in \<open>auto simp: matches_ok_def match_entry_ok_def split: if_splits\<close>)
  from r m show "match_count d' = (match_count d)(m := match_count d m - 1)"
    by (cases rule: unregister_match_cases)
      (auto simp: match_count_upd match_count_simps fun_eq_iff nat_diff_distrib')
  assume "matches_tidy rules base d" "x = Inr ()"
  with r m show "matches_tidy rules base d'"
    by (cases rule: unregister_match_cases) (auto simp: matches_tidy_def)
qed

end

sublocale dbus_conn \<subseteq> table: match_table "register_signal_match K" "unregister_signal_match K"
    match_count "matches_ok rules" "match_delivered rules" "matches_tidy rules base" "match_others sent"
  for base
proof unfold_locales
  fix m d
  show "register_signal_match K m d \<noteq> None"
    by (auto simp: register_signal_match_def split: option.split prod.split)
next
  fix m d
  show "unregister_signal_match K m d \<noteq> None"
    by (auto simp: unregister_signal_match_def Let_def split: option.split prod.split)
next
  fix m d x d'
  assume "register_signal_match K m d = Some (x, d')"
  then show "match_others sent d' = match_others sent d"
    using match_frame(1) [of "conn d" "c_str m"]
    by (auto simp: register_signal_match_def match_others_def split: option.splits prod.splits)
next
  fix m d x d'
  assume "unregister_signal_match K m d = Some (x, d')"
  then show "match_others sent d' = match_others sent d"
    using match_frame(2) [of "conn d" "c_str m"]
    by (cases "signal_matches d m = Some 1")
      (auto simp: unregister_signal_match_def match_others_def Let_def split: option.splits prod.splits if_splits)
next
  fix m d u d'
  assume "matches_ok rules d" "nul_free m" "register_signal_match K m d = Some (Inr u, d')"
  then show "matches_ok rules d' \<and> match_count d' = (match_count d)(m := Suc (match_count d m))"
    using register_match_law(1,2) by simp
next
  fix m d e d'
  assume "matches_ok rules d" "nul_free m" "register_signal_match K m d = Some (Inl e, d')"
  then show "matches_ok rules d' \<and> match_count d' = match_count d"
    using register_match_law(1,2) by simp
next
  fix m d x d'
  assume "matches_ok rules d" "nul_free m" "unregister_signal_match K m d = Some (x, d')"
  then show "matches_ok rules d' \<and> match_count d' = (match_count d)(m := match_count d m - 1)"
    using unregister_match_law(1,2) by simp
next
  fix m d
  assume "matches_ok rules d" "0 < match_count d m"
  then show "match_delivered rules d m"
    by (cases "signal_matches d m") (auto simp: match_delivered_def match_count_def dest: matches_okD)
next
  fix m d x d'
  assume "matches_ok rules d" "nul_free m" "matches_tidy rules base d" "register_signal_match K m d = Some (x, d')"
  then show "matches_tidy rules base d'"
    using register_match_law(3) by blast
next
  fix m d u d'
  assume "matches_ok rules d" "nul_free m" "matches_tidy rules base d" "unregister_signal_match K m d = Some (Inr u, d')"
  then show "matches_tidy rules base d'"
    using unregister_match_law(3) by simp
qed

end
