(* ===== verification/StubState.thy ===== *)
theory StubState
  imports MatchTable Codec
begin

text \<open>
  The client side's state (\<open>include/simppl/stubbase.h\<close>, \<open>clientside.h\<close>, \<open>src/clientside.cpp\<close>):
  stubs, their signals and properties as objects in a store, and the registration operations
  of \<open>src/stubbase.cpp\<close>. The list of attached signals is intrusive: a stub points to its first
  attached signal, each signal to the next one, and the code walks and relinks these pointers.

  Objects are numbers; a null pointer is \<open>None\<close>. The dispatcher is a component \<open>'d\<close> of the
  world that the stub reaches through its match table interface \<open>reg\<close>/\<open>unreg\<close>.
\<close>

section \<open>Stubs, signals, properties\<close>

datatype ConnectionState = Connected | Disconnected | NotAvailable | Timeout

record stub =
  ifaces :: "string list"
  objectpath :: string
  busname :: string
  has_disp :: bool
  signals :: "nat option"
  properties :: "(nat \<times> bool) list"
  attached_properties :: int
  conn_state :: ConnectionState
  connected_cb :: bool

text \<open>
  A signal with \<open>__eval\<close> split into the decoder of its argument tuple and the callback
  \<open>f_\<close>, of which only its being set matters here: calling it is an event.
\<close>

record ('r, 'v) client_signal =
  sig_name :: string
  sig_stub :: nat
  sig_next :: "nat option"
  sig_args :: "'r \<Rightarrow> ('v \<times> 'r) res"
  sig_cb :: bool

record ('w, 'r, 'v) client_property =
  prop_name :: string
  prop_codec :: "('w, 'r, 'v) codec"
  prop_default :: 'v
  prop_cb :: bool

text \<open>What a user of the library sees: the calls of the callbacks that were installed.\<close>

datatype 'v event =
    SignalCallback nat 'v
  | PropertyCallback nat "string option" 'v
  | ConnectedCallback nat ConnectionState

record ('d, 'w, 'r, 'v) world =
  disp :: 'd
  stub_at :: "nat \<Rightarrow> stub"
  sig_at :: "nat \<Rightarrow> ('r, 'v) client_signal"
  prop_at :: "nat \<Rightarrow> ('w, 'r, 'v) client_property"
  events :: "'v event list"

definition upd_stub :: "nat \<Rightarrow> (stub \<Rightarrow> stub) \<Rightarrow> ('d, 'w, 'r, 'v) world \<Rightarrow> ('d, 'w, 'r, 'v) world" where
  "upd_stub s f w = w\<lparr>stub_at := (stub_at w)(s := f (stub_at w s))\<rparr>"

definition set_next :: "nat \<Rightarrow> nat option \<Rightarrow> ('d, 'w, 'r, 'v) world \<Rightarrow> ('d, 'w, 'r, 'v) world" where
  "set_next g p w = w\<lparr>sig_at := (sig_at w)(g := sig_at w g\<lparr>sig_next := p\<rparr>)\<rparr>"

definition next_of :: "('d, 'w, 'r, 'v) world \<Rightarrow> nat \<Rightarrow> nat option" where
  "next_of w g = sig_next (sig_at w g)"

definition on_disp :: "('d, 'a) prog \<Rightarrow> (('d, 'w, 'r, 'v) world, 'a) prog" where
  "on_disp m = on_part disp (\<lambda>d w. w\<lparr>disp := d\<rparr>) m"

text \<open>\<open>StubBase::iface(0)\<close>; a stub has at least one interface name.\<close>

definition stub_iface :: "stub \<Rightarrow> string" where
  "stub_iface st = (case ifaces st of [] \<Rightarrow> [] | i # _ \<Rightarrow> c_str i)"

section \<open>Match rules (dispatcher.cpp)\<close>

definition quoted :: "string \<Rightarrow> string" where
  "quoted s = CHR 0x27 # s @ [CHR 0x27]"

definition generate_matchstring :: "stub \<Rightarrow> string \<Rightarrow> string" where
  "generate_matchstring st signame =
     ''type='' @ quoted ''signal''
     @ '', sender='' @ quoted (busname st)
     @ '', interface='' @ quoted (stub_iface st)
     @ '', member='' @ quoted signame"

definition generate_property_matchstring :: "stub \<Rightarrow> string" where
  "generate_property_matchstring st =
     ''type='' @ quoted ''signal''
     @ '',sender='' @ quoted (busname st)
     @ '',interface='' @ quoted ''org.freedesktop.DBus.Properties''
     @ '',member='' @ quoted ''PropertiesChanged''
     @ '',path='' @ quoted (c_str (objectpath st))"

section \<open>Attached signals\<close>

text \<open>The first loop of \<open>register_signal\<close>: is the signal in the list already?\<close>

partial_function (option) find_signal :: "(nat \<Rightarrow> nat option) \<Rightarrow> nat option \<Rightarrow> nat \<Rightarrow> bool option" where
  "find_signal nxt sig sigbase =
     (case sig of None \<Rightarrow> Some False
      | Some q \<Rightarrow> if q = sigbase then Some True else find_signal nxt (nxt q) sigbase)"

definition register_signal ::
  "(string \<Rightarrow> ('d, unit) prog) \<Rightarrow> nat \<Rightarrow> nat \<Rightarrow> (('d, 'w, 'r, 'v) world, unit) prog" where
  "register_signal reg s sigbase w =
     (case find_signal (next_of w) (signals (stub_at w s)) sigbase of
        None \<Rightarrow> None
      | Some found \<Rightarrow>
          if found then preturn () w
          else if \<not> has_disp (stub_at w s) then pthrow UndefinedBehaviour w
          else pbind (on_disp (reg (generate_matchstring (stub_at w s) (sig_name (sig_at w sigbase)))))
            (\<lambda>_. pmodify (\<lambda>w. upd_stub s (\<lambda>st. st\<lparr>signals := Some sigbase\<rparr>)
                                 (set_next sigbase (signals (stub_at w s)) w))) w)"

text \<open>The loop of \<open>unregister_signal\<close> with its pointers \<open>last\<close> and \<open>sig\<close>.\<close>

definition unlink :: "nat \<Rightarrow> nat \<Rightarrow> nat option \<Rightarrow> ('d, 'w, 'r, 'v) world \<Rightarrow> ('d, 'w, 'r, 'v) world" where
  "unlink s sigbase prev w =
     set_next sigbase None
       (case prev of
          Some l \<Rightarrow> set_next l (next_of w sigbase) w
        | None \<Rightarrow> upd_stub s (\<lambda>st. st\<lparr>signals := next_of w sigbase\<rparr>) w)"

partial_function (option) unregister_loop ::
  "(string \<Rightarrow> ('d, unit) prog) \<Rightarrow> nat \<Rightarrow> nat \<Rightarrow> nat option \<Rightarrow> nat option
     \<Rightarrow> ('d, 'w, 'r, 'v) world \<Rightarrow> ((exn + unit) \<times> ('d, 'w, 'r, 'v) world) option" where
  "unregister_loop unreg s sigbase prev sig w =
     (case sig of None \<Rightarrow> preturn () w
      | Some q \<Rightarrow>
          if q = sigbase then
            (if \<not> has_disp (stub_at w s) then pthrow UndefinedBehaviour w
             else pbind (on_disp (unreg (generate_matchstring (stub_at w s) (sig_name (sig_at w sigbase)))))
               (\<lambda>_. pmodify (unlink s sigbase prev)) w)
          else unregister_loop unreg s sigbase (Some q) (next_of w q) w)"

definition unregister_signal ::
  "(string \<Rightarrow> ('d, unit) prog) \<Rightarrow> nat \<Rightarrow> nat \<Rightarrow> (('d, 'w, 'r, 'v) world, unit) prog" where
  "unregister_signal unreg s sigbase w = unregister_loop unreg s sigbase None (signals (stub_at w s)) w"

section \<open>Attached properties\<close>

text \<open>The flag of the first entry for a property; past the end of the vector is undefined.\<close>

fun property_flag :: "(nat \<times> bool) list \<Rightarrow> nat \<Rightarrow> bool option" where
  "property_flag [] prop = None"
| "property_flag ((p, b) # ps) prop = (if p = prop then Some b else property_flag ps prop)"

fun set_property_flag :: "(nat \<times> bool) list \<Rightarrow> nat \<Rightarrow> bool \<Rightarrow> (nat \<times> bool) list" where
  "set_property_flag [] prop v = []"
| "set_property_flag ((p, b) # ps) prop v =
     (if p = prop then (p, v) # ps else (p, b) # set_property_flag ps prop v)"

definition attach_property ::
  "(string \<Rightarrow> ('d, unit) prog) \<Rightarrow> nat \<Rightarrow> nat \<Rightarrow> (('d, 'w, 'r, 'v) world, unit) prog" where
  "attach_property reg s prop w =
     (let st = stub_at w s in
      case property_flag (properties st) prop of
        None \<Rightarrow> pthrow UndefinedBehaviour w
      | Some True \<Rightarrow> preturn () w
      | Some False \<Rightarrow>
          let n = attached_properties st + 1;
              w = upd_stub s (\<lambda>st. st\<lparr>properties := set_property_flag (properties st) prop True,
                                      attached_properties := n\<rparr>) w in
          if n = 1 then
            (if \<not> has_disp st then pthrow UndefinedBehaviour w
             else on_disp (reg (generate_property_matchstring st)) w)
          else preturn () w)"

definition detach_property ::
  "(string \<Rightarrow> ('d, unit) prog) \<Rightarrow> nat \<Rightarrow> nat \<Rightarrow> (('d, 'w, 'r, 'v) world, unit) prog" where
  "detach_property unreg s prop w =
     (let st = stub_at w s in
      case property_flag (properties st) prop of
        None \<Rightarrow> pthrow UndefinedBehaviour w
      | Some False \<Rightarrow> preturn () w
      | Some True \<Rightarrow>
          let n = attached_properties st - 1;
              w = upd_stub s (\<lambda>st. st\<lparr>properties := set_property_flag (properties st) prop False,
                                      attached_properties := n\<rparr>) w in
          if n = 0 then
            (if \<not> has_disp st then pthrow UndefinedBehaviour w
             else on_disp (unreg (generate_property_matchstring st)) w)
          else preturn () w)"

text \<open>\<open>add_property\<close>, called by the constructor of each property.\<close>

definition add_property :: "nat \<Rightarrow> nat \<Rightarrow> ('d, 'w, 'r, 'v) world \<Rightarrow> ('d, 'w, 'r, 'v) world" where
  "add_property s prop w = upd_stub s (\<lambda>st. st\<lparr>properties := properties st @ [(prop, False)]\<rparr>) w"

section \<open>cleanup\<close>

partial_function (option) cleanup_loop ::
  "(string \<Rightarrow> ('d, unit) prog) \<Rightarrow> nat \<Rightarrow> nat option
     \<Rightarrow> ('d, 'w, 'r, 'v) world \<Rightarrow> ((exn + unit) \<times> ('d, 'w, 'r, 'v) world) option" where
  "cleanup_loop unreg s sig w =
     (case sig of None \<Rightarrow> preturn () w
      | Some q \<Rightarrow>
          pbind (on_disp (unreg (generate_matchstring (stub_at w s) (sig_name (sig_at w q)))))
            (\<lambda>_ w. cleanup_loop unreg s (next_of w q) w) w)"

definition cleanup ::
  "(string \<Rightarrow> ('d, unit) prog) \<Rightarrow> nat \<Rightarrow> (('d, 'w, 'r, 'v) world, unit) prog" where
  "cleanup unreg s w =
     (if \<not> has_disp (stub_at w s) \<and> (signals (stub_at w s) \<noteq> None \<or> attached_properties (stub_at w s) \<noteq> 0)
      then pthrow UndefinedBehaviour w
      else
        pbind (cleanup_loop unreg s (signals (stub_at w s))) (\<lambda>_ w.
        pbind (pmodify (upd_stub s (\<lambda>st. st\<lparr>signals := None\<rparr>))) (\<lambda>_ w.
        pbind (if attached_properties (stub_at w s) \<noteq> 0
               then on_disp (unreg (generate_property_matchstring (stub_at w s))) else preturn ()) (\<lambda>_.
        pmodify (upd_stub s (\<lambda>st. st\<lparr>attached_properties := 0, has_disp := False\<rparr>))) w) w) w)"

end
