(* ===== verification/StubRegistration.thy ===== *)
theory StubRegistration
  imports StubState
begin

text \<open>
  The registration operations of a stub against their specification: the intrusive list of
  attached signals is a list of signals, attaching and detaching are insertion and removal, the
  pointer loops terminate, and the dispatcher's table counts exactly the signals and
  properties that are attached.
\<close>

section \<open>The intrusive list\<close>

fun chain :: "(nat \<Rightarrow> nat option) \<Rightarrow> nat option \<Rightarrow> nat list \<Rightarrow> bool" where
  "chain nxt p [] \<longleftrightarrow> p = None"
| "chain nxt p (x # xs) \<longleftrightarrow> p = Some x \<and> chain nxt (nxt x) xs"

lemma chain_unique: "chain nxt p xs \<Longrightarrow> chain nxt p ys \<Longrightarrow> xs = ys"
proof (induction xs arbitrary: p ys)
  case Nil
  then show ?case by (cases ys) auto
next
  case (Cons x xs)
  then show ?case by (cases ys) auto
qed

lemma chain_cong: "(\<And>x. x \<in> set xs \<Longrightarrow> nxt x = nxt' x) \<Longrightarrow> chain nxt p xs = chain nxt' p xs"
  by (induction xs arbitrary: p) auto

lemma chain_upd: "k \<notin> set xs \<Longrightarrow> chain (nxt(k := q)) p xs = chain nxt p xs"
  by (rule chain_cong) auto

lemma find_signal_chain: "chain nxt p xs \<Longrightarrow> find_signal nxt p g = Some (g \<in> set xs)"
proof (induction xs arbitrary: p)
  case Nil
  then show ?case by (subst find_signal.simps) simp
next
  case (Cons x xs)
  then show ?case by (subst find_signal.simps) auto
qed

text \<open>The pointer \<open>last\<close> when the loop of \<open>unregister_signal\<close> meets the signal.\<close>

fun prev_of :: "nat option \<Rightarrow> nat list \<Rightarrow> nat \<Rightarrow> nat option" where
  "prev_of prev [] g = prev"
| "prev_of prev (x # xs) g = (if x = g then prev else prev_of (Some x) xs g)"

lemma unregister_loop_chain:
  "chain (next_of w) sig xs \<Longrightarrow> has_disp (stub_at w s) \<Longrightarrow>
     unregister_loop unreg s g prev sig w =
       (if g \<in> set xs then
          pbind (on_disp (unreg (generate_matchstring (stub_at w s) (sig_name (sig_at w g)))))
            (\<lambda>_. pmodify (unlink s g (prev_of prev xs g))) w
        else preturn () w)"
proof (induction xs arbitrary: sig prev)
  case Nil
  then show ?case by (subst unregister_loop.simps) simp
next
  case (Cons x xs)
  then show ?case by (subst unregister_loop.simps) auto
qed

lemma prev_of_in: "g \<in> set xs \<Longrightarrow> prev_of p xs g = p \<or> (\<exists>l. prev_of p xs g = Some l \<and> l \<in> set xs)"
  by (induction p xs g rule: prev_of.induct) auto

lemma chain_unlink_tail:
  "distinct (l # xs) \<Longrightarrow> g \<in> set xs \<Longrightarrow> chain nxt (nxt l) xs \<Longrightarrow>
     prev_of (Some l) xs g = Some k \<Longrightarrow>
     chain (nxt(k := nxt g)) ((nxt(k := nxt g)) l) (remove1 g xs)"
proof (induction xs arbitrary: l)
  case Nil
  then show ?case by simp
next
  case (Cons x xs)
  show ?case
  proof (cases "x = g")
    case True
    with Cons.prems have "k = l" "l \<notin> set xs" "chain nxt (nxt g) xs"
      by auto
    then have "chain (nxt(k := nxt g)) (nxt g) xs"
      by (subst chain_upd) auto
    with True \<open>k = l\<close> show ?thesis
      by (simp del: fun_upd_apply add: fun_upd_same)
  next
    case False
    have k: "k \<in> set (x # xs)"
      using Cons.prems False prev_of_in [of g xs "Some x"] by auto
    then have "k \<noteq> l" using Cons.prems(1) by auto
    with Cons False show ?thesis by auto
  qed
qed

lemma chain_unlink:
  assumes "distinct xs" and "g \<in> set xs" and "chain nxt p xs"
  shows "case prev_of None xs g of
      None \<Rightarrow> chain nxt (nxt g) (remove1 g xs)
    | Some k \<Rightarrow> chain (nxt(k := nxt g)) p (remove1 g xs)"
proof (cases xs)
  case Nil
  with assms show ?thesis by simp
next
  case (Cons x ys)
  show ?thesis
  proof (cases "x = g")
    case True
    with assms Cons show ?thesis by simp
  next
    case False
    with assms Cons have "g \<in> set ys" "chain nxt (nxt x) ys" by auto
    moreover obtain k where k: "prev_of (Some x) ys g = Some k"
      using prev_of_in [OF \<open>g \<in> set ys\<close>, of "Some x"] by auto
    ultimately show ?thesis
      using chain_unlink_tail [of x ys g nxt k] assms Cons False by simp
  qed
qed

section \<open>What is attached\<close>

definition attached :: "('d, 'w, 'r, 'v) world \<Rightarrow> nat \<Rightarrow> nat list \<Rightarrow> bool" where
  "attached w s xs \<longleftrightarrow> chain (next_of w) (signals (stub_at w s)) xs \<and> distinct xs \<and>
     (\<forall>g \<in> set xs. sig_stub (sig_at w g) = s)"

definition names_ok :: "('d, 'w, 'r, 'v) world \<Rightarrow> nat \<Rightarrow> bool" where
  "names_ok w s \<longleftrightarrow> nul_free (busname (stub_at w s)) \<and>
     (\<forall>g. sig_stub (sig_at w g) = s \<longrightarrow> nul_free (sig_name (sig_at w g)))"

definition props_ok :: "stub \<Rightarrow> bool" where
  "props_ok st \<longleftrightarrow> attached_properties st = int (length (filter snd (properties st))) \<and>
     distinct (map fst (properties st))"

definition stub_ok :: "('d, 'w, 'r, 'v) world \<Rightarrow> nat \<Rightarrow> nat list \<Rightarrow> bool" where
  "stub_ok w s xs \<longleftrightarrow> attached w s xs \<and> has_disp (stub_at w s) \<and> names_ok w s \<and> props_ok (stub_at w s)"

text \<open>How often a stub needs a match rule.\<close>

definition wants :: "('d, 'w, 'r, 'v) world \<Rightarrow> nat \<Rightarrow> nat list \<Rightarrow> string \<Rightarrow> nat" where
  "wants w s xs m =
     count_list (map (\<lambda>g. generate_matchstring (stub_at w s) (sig_name (sig_at w g))) xs) m
     + (if 0 < attached_properties (stub_at w s) \<and> generate_property_matchstring (stub_at w s) = m then 1 else 0)"

text \<open>The stubs \<open>S\<close> with their attached signals \<open>att\<close>, and the table that counts them.\<close>

definition registered ::
  "('d \<Rightarrow> string \<Rightarrow> nat) \<Rightarrow> ('d \<Rightarrow> bool) \<Rightarrow> ('d, 'w, 'r, 'v) world \<Rightarrow> nat set \<Rightarrow> (nat \<Rightarrow> nat list) \<Rightarrow> bool" where
  "registered cnt ok w S att \<longleftrightarrow>
     finite S \<and> ok (disp w) \<and> (\<forall>s \<in> S. stub_ok w s (att s)) \<and>
     (\<forall>m. cnt (disp w) m = (\<Sum>s \<in> S. wants w s (att s) m))"

lemma nul_free_quoted [simp]: "nul_free (quoted s) \<longleftrightarrow> nul_free s"
  by (simp add: quoted_def NUL_def)

lemma nul_free_iface [simp]: "nul_free (stub_iface st)"
  by (simp add: stub_iface_def split: list.split)

lemma nul_free_match:
  "nul_free (busname st) \<Longrightarrow> nul_free nm \<Longrightarrow> nul_free (generate_matchstring st nm)"
  "nul_free (busname st) \<Longrightarrow> nul_free (generate_property_matchstring st)"
  by (simp_all add: generate_matchstring_def generate_property_matchstring_def) (simp_all add: NUL_def)

lemma world_simps [simp]:
  "stub_at (upd_stub s f w) = (stub_at w)(s := f (stub_at w s))"
  "sig_at (upd_stub s f w) = sig_at w" "disp (upd_stub s f w) = disp w"
  "prop_at (upd_stub s f w) = prop_at w" "events (upd_stub s f w) = events w"
  "stub_at (set_next g p w) = stub_at w" "disp (set_next g p w) = disp w"
  "sig_name (sig_at (set_next g p w) h) = sig_name (sig_at w h)"
  "sig_stub (sig_at (set_next g p w) h) = sig_stub (sig_at w h)"
  "next_of (set_next g p w) = (next_of w)(g := p)"
  "next_of (upd_stub s f w) = next_of w"
  "next_of (w\<lparr>disp := d\<rparr>) = next_of w"
  "prop_at (set_next g p w) = prop_at w" "events (set_next g p w) = events w"
  by (auto simp: upd_stub_def set_next_def next_of_def fun_eq_iff)

text \<open>A change to one stub changes the sum by what that stub wants.\<close>

lemma sum_exchange:
  fixes f g :: "nat \<Rightarrow> nat"
  assumes "finite S" and "s \<in> S" and "\<And>t. t \<in> S \<Longrightarrow> t \<noteq> s \<Longrightarrow> f t = g t"
  shows "sum f S = sum g S - g s + f s"
proof -
  have "sum f (S - {s}) = sum g (S - {s})"
    using assms(3) by (intro sum.cong) auto
  then show ?thesis
    using sum.remove [OF assms(1,2), of f] sum.remove [OF assms(1,2), of g] by simp
qed

lemma wants_frame:
  assumes "stub_at w' t = stub_at w t" and "\<And>g. sig_name (sig_at w' g) = sig_name (sig_at w g)"
  shows "wants w' t xs = wants w t xs"
  by (simp add: wants_def assms fun_eq_iff)

lemma matchstring_upd [simp]:
  "generate_matchstring (st\<lparr>signals := x\<rparr>) n = generate_matchstring st n"
  "generate_matchstring (st\<lparr>properties := ps, attached_properties := k\<rparr>) n = generate_matchstring st n"
  "generate_matchstring (st\<lparr>attached_properties := k, has_disp := b\<rparr>) n = generate_matchstring st n"
  "generate_property_matchstring (st\<lparr>signals := x\<rparr>) = generate_property_matchstring st"
  "generate_property_matchstring (st\<lparr>properties := ps, attached_properties := k\<rparr>) = generate_property_matchstring st"
  by (simp_all add: generate_matchstring_def generate_property_matchstring_def stub_iface_def)

lemma stub_ok_frame:
  assumes "stub_ok w t xs" and "stub_at w' t = stub_at w t"
    and "\<And>g. sig_name (sig_at w' g) = sig_name (sig_at w g)"
    and "\<And>g. sig_stub (sig_at w' g) = sig_stub (sig_at w g)"
    and "\<And>h. h \<in> set xs \<Longrightarrow> next_of w' h = next_of w h"
  shows "stub_ok w' t xs"
  using assms chain_cong [of xs "next_of w'" "next_of w" "signals (stub_at w t)"]
  by (auto simp: stub_ok_def attached_def names_ok_def)

lemma registered_disp:
  assumes "registered cnt ok w S att" and "ok d" and "cnt d = cnt (disp w)"
  shows "registered cnt ok (w\<lparr>disp := d\<rparr>) S att"
proof -
  have "wants (w\<lparr>disp := d\<rparr>) t xs = wants w t xs" for t xs
    by (rule wants_frame) simp_all
  moreover have "stub_ok (w\<lparr>disp := d\<rparr>) t xs" if "stub_ok w t xs" for t xs
    by (rule stub_ok_frame [OF that]) simp_all
  ultimately show ?thesis
    using assms by (simp add: registered_def)
qed

text \<open>Replacing the state of one stub and the table's count of one match rule.\<close>

lemma registered_step:
  assumes reg: "registered cnt ok w S att" and s: "s \<in> S"
    and ok: "ok (disp w')" and cnt: "\<And>m. cnt (disp w') m + wants w s (att s) m = cnt (disp w) m + wants w' s xs m"
    and stub: "stub_ok w' s xs"
    and names: "\<And>g. sig_name (sig_at w' g) = sig_name (sig_at w g)"
    and frame: "\<And>t. t \<in> S \<Longrightarrow> t \<noteq> s \<Longrightarrow> stub_at w' t = stub_at w t \<and> stub_ok w' t (att t)"
  shows "registered cnt ok w' S (att(s := xs))"
proof -
  let ?f = "\<lambda>m t. wants w' t ((att(s := xs)) t) m" and ?g = "\<lambda>m t. wants w t (att t) m"
  have fin: "finite S" and c: "cnt (disp w) m = sum (?g m) S" for m
    using reg by (simp_all add: registered_def)
  have "?f m t = ?g m t" if "t \<in> S" "t \<noteq> s" for m t
    using frame [OF that] wants_frame [of w' t w, OF _ names] that by simp
  then have "sum (?f m) S = sum (?g m) S - ?g m s + ?f m s" for m
    by (intro sum_exchange [OF fin s])
  moreover have "?g m s \<le> sum (?g m) S" for m
    by (rule member_le_sum [OF s _ fin]) simp
  moreover have "cnt (disp w') m + ?g m s = cnt (disp w) m + ?f m s" for m
    using cnt [of m] by simp
  ultimately have "cnt (disp w') m = sum (?f m) S" for m
    using c [of m] by (metis (no_types, lifting) Nat.add_diff_assoc2 add_diff_cancel_right')
  then show ?thesis
    using fin ok stub frame by (auto simp: registered_def)
qed

section \<open>Attaching and detaching\<close>

context match_table begin

lemma register_signal_total:
  assumes "stub_ok w s xs"
  shows "register_signal reg s g w \<noteq> None"
proof -
  have "find_signal (next_of w) (signals (stub_at w s)) g = Some (g \<in> set xs)"
    using assms by (intro find_signal_chain) (simp add: stub_ok_def attached_def)
  then show ?thesis
    using reg_total [of "generate_matchstring (stub_at w s) (sig_name (sig_at w g))" "disp w"]
    by (auto simp: register_signal_def on_disp_def on_part_def pbind_def pmodify_def split: sum.split)
qed

lemma register_signal_law:
  assumes R: "registered cnt ok w S att" and s: "s \<in> S" and g: "sig_stub (sig_at w g) = s"
    and run: "register_signal reg s g w = Some (r, w')"
  shows "(r = Inr () \<and> registered cnt ok w' S (att(s := if g \<in> set (att s) then att s else g # att s))) \<or>
    (\<exists>e. r = Inl e \<and> registered cnt ok w' S att \<and> stub_at w' = stub_at w \<and> sig_at w' = sig_at w)"
proof -
  let ?m = "generate_matchstring (stub_at w s) (sig_name (sig_at w g))"
  have st: "stub_ok w s (att s)" and okd: "ok (disp w)"
    using R s by (simp_all add: registered_def)
  then have ch: "chain (next_of w) (signals (stub_at w s)) (att s)" and hd: "has_disp (stub_at w s)"
    and nm: "nul_free ?m"
    using g by (auto simp: stub_ok_def attached_def names_ok_def nul_free_match)
  show ?thesis
  proof (cases "g \<in> set (att s)")
    case True
    with run ch R show ?thesis
      by (auto simp: register_signal_def find_signal_chain)
  next
    case False
    then consider (err) e d where "reg ?m (disp w) = Some (Inl e, d)" "r = Inl e" "w' = w\<lparr>disp := d\<rparr>"
      | (reg) d where "reg ?m (disp w) = Some (Inr (), d)" "r = Inr ()"
          "w' = upd_stub s (\<lambda>st. st\<lparr>signals := Some g\<rparr>) (set_next g (signals (stub_at w s)) (w\<lparr>disp := d\<rparr>))"
      using run ch hd
      by (auto simp: register_signal_def find_signal_chain on_disp_def pbind_eq_Some on_part_eq_Some pmodify_def)
    then show ?thesis
    proof cases
      case err
      with reg_err [OF okd nm] registered_disp [OF R] show ?thesis by auto
    next
      case (reg d)
      have d: "ok d" "cnt d = (cnt (disp w))(?m := Suc (cnt (disp w) ?m))"
        using reg_ok [OF okd nm reg(1)] by auto
      have "registered cnt ok w' S (att(s := g # att s))"
      proof (rule registered_step [OF R s])
        show "ok (disp w')" using reg(3) d(1) by simp
        show "cnt (disp w') m + wants w s (att s) m = cnt (disp w) m + wants w' s (g # att s) m" for m
          using reg(3) d(2) by (simp add: wants_def)
        have "chain ((next_of w)(g := signals (stub_at w s))) (signals (stub_at w s)) (att s)"
          using ch by (simp only: chain_upd [OF False])
        then show "stub_ok w' s (g # att s)"
          using st False g reg(3) by (auto simp: stub_ok_def attached_def names_ok_def props_ok_def)
        show "sig_name (sig_at w' h) = sig_name (sig_at w h)" for h
          using reg(3) by simp
        fix t
        assume t: "t \<in> S" "t \<noteq> s"
        then have tk: "stub_ok w t (att t)" using R by (simp add: registered_def)
        then have "g \<notin> set (att t)" using g t by (auto simp: stub_ok_def attached_def)
        then show "stub_at w' t = stub_at w t \<and> stub_ok w' t (att t)"
          using t reg(3) by (auto intro!: stub_ok_frame [OF tk])
      qed
      with False reg(2) show ?thesis by simp
    qed
  qed
qed

lemma unregister_signal_total:
  assumes "stub_ok w s xs"
  shows "unregister_signal unreg s g w \<noteq> None"
proof -
  have "chain (next_of w) (signals (stub_at w s)) xs" "has_disp (stub_at w s)"
    using assms by (simp_all add: stub_ok_def attached_def)
  from unregister_loop_chain [OF this] show ?thesis
    using unreg_total [of "generate_matchstring (stub_at w s) (sig_name (sig_at w g))" "disp w"]
    by (auto simp: unregister_signal_def on_disp_def on_part_def pbind_def pmodify_def split: sum.split)
qed

lemma unlink_stub_ok:
  assumes st: "stub_ok w s xs" and g: "g \<in> set xs"
  shows "stub_ok (unlink s g (prev_of None xs g) (w\<lparr>disp := d\<rparr>)) s (remove1 g xs)"
proof -
  let ?w = "unlink s g (prev_of None xs g) (w\<lparr>disp := d\<rparr>)"
  have a: "chain (next_of w) (signals (stub_at w s)) xs" "distinct xs"
    using st by (simp_all add: stub_ok_def attached_def)
  have ng: "g \<notin> set (remove1 g xs)" using a(2) by simp
  have "chain (next_of ?w) (signals (stub_at ?w s)) (remove1 g xs)"
    using chain_unlink [OF a(2) g a(1)]
    by (cases "prev_of None xs g") (simp_all add: unlink_def chain_upd [OF ng] fun_upd_same del: fun_upd_apply)
  moreover have "set (remove1 g xs) \<subseteq> set xs"
    by (rule set_remove1_subset)
  moreover have "stub_at ?w s = stub_at w s \<or> (\<exists>p. stub_at ?w s = stub_at w s\<lparr>signals := p\<rparr>)"
    by (auto simp: unlink_def split: option.split)
  moreover have "sig_name (sig_at ?w h) = sig_name (sig_at w h)" "sig_stub (sig_at ?w h) = sig_stub (sig_at w h)" for h
    by (simp_all add: unlink_def split: option.split)
  ultimately show ?thesis
    using st by (auto simp: stub_ok_def attached_def names_ok_def props_ok_def)
qed

lemma unlink_frame:
  "t \<noteq> s \<Longrightarrow> stub_at (unlink s g prev w) t = stub_at w t"
  "disp (unlink s g prev w) = disp w"
  "sig_name (sig_at (unlink s g prev w) h) = sig_name (sig_at w h)"
  "sig_stub (sig_at (unlink s g prev w) h) = sig_stub (sig_at w h)"
  "h \<noteq> g \<Longrightarrow> prev \<noteq> Some h \<Longrightarrow> next_of (unlink s g prev w) h = next_of w h"
  "wants (unlink s g prev w) s xs m = wants w s xs m"
  by (auto simp: unlink_def wants_def fun_eq_iff split: option.split)

lemma count_list_remove1:
  "g \<in> set xs \<Longrightarrow> count_list (map f (remove1 g xs)) m + (if f g = m then 1 else 0) = count_list (map f xs) m"
  by (induction xs) auto

lemma unregister_signal_law:
  assumes R: "registered cnt ok w S att" and s: "s \<in> S"
    and run: "unregister_signal unreg s g w = Some (Inr u, w')"
  shows "registered cnt ok w' S (att(s := remove1 g (att s)))"
proof -
  let ?m = "generate_matchstring (stub_at w s) (sig_name (sig_at w g))"
  have st: "stub_ok w s (att s)" and okd: "ok (disp w)"
    using R s by (simp_all add: registered_def)
  then have ch: "chain (next_of w) (signals (stub_at w s)) (att s)" and hd: "has_disp (stub_at w s)"
    by (simp_all add: stub_ok_def attached_def)
  show ?thesis
  proof (cases "g \<in> set (att s)")
    case False
    with run R unregister_loop_chain [OF ch hd] show ?thesis
      by (simp add: unregister_signal_def remove1_idem fun_upd_idem)
  next
    case True
    then have nm: "nul_free ?m"
      using st by (auto simp: stub_ok_def attached_def names_ok_def nul_free_match)
    obtain d where d: "unreg ?m (disp w) = Some (Inr (), d)"
      and w': "w' = unlink s g (prev_of None (att s) g) (w\<lparr>disp := d\<rparr>)"
      using run True unregister_loop_chain [OF ch hd, of unreg g None]
      by (auto simp: unregister_signal_def on_disp_def pbind_eq_Some on_part_eq_Some pmodify_def)
    have law: "ok d" "cnt d = (cnt (disp w))(?m := cnt (disp w) ?m - 1)"
      using unreg_ok [OF okd nm d] by auto
    have wle: "wants w s (att s) m \<le> cnt (disp w) m" for m
      using R s member_le_sum [of s S "\<lambda>t. wants w t (att t) m"] by (simp add: registered_def)
    have wd: "wants (w\<lparr>disp := d\<rparr>) s xs m = wants w s xs m" for xs m
      using wants_frame [of "w\<lparr>disp := d\<rparr>" s w xs] by simp
    have wants: "wants w s (remove1 g (att s)) m + (if ?m = m then 1 else 0) = wants w s (att s) m" for m
      using count_list_remove1 [OF True, of "\<lambda>g. generate_matchstring (stub_at w s) (sig_name (sig_at w g))" m]
      by (simp add: wants_def)
    show ?thesis
    proof (rule registered_step [OF R s])
      show "ok (disp w')" using law w' by (simp add: unlink_frame)
      show "cnt (disp w') m + wants w s (att s) m = cnt (disp w) m + wants w' s (remove1 g (att s)) m" for m
        using wants [of m] wle [of m] by (auto simp: w' unlink_frame wd law(2))
      show "stub_ok w' s (remove1 g (att s))"
        unfolding w' by (rule unlink_stub_ok [OF st True])
      show "sig_name (sig_at w' h) = sig_name (sig_at w h)" for h
        by (simp add: w' unlink_frame)
      fix t
      assume t: "t \<in> S" "t \<noteq> s"
      then have tk: "stub_ok w t (att t)" using R by (simp add: registered_def)
      have "h \<noteq> g \<and> prev_of None (att s) g \<noteq> Some h" if "h \<in> set (att t)" for h
        using tk st t(2) True that prev_of_in [OF True, of None] by (auto simp: stub_ok_def attached_def)
      then show "stub_at w' t = stub_at w t \<and> stub_ok w' t (att t)"
        using t by (auto intro!: stub_ok_frame [OF tk] simp: w' unlink_frame)
    qed
  qed
qed

end

end
