(* ===== verification/StubProperties.thy ===== *)
theory StubProperties
  imports StubRegistration
begin

text \<open>
  Attaching and detaching properties, and \<open>cleanup\<close>, against the same specification: the
  counter of attached properties is the number of raised flags, the match rule for property
  changes is registered while it is positive, and a cleaned up stub leaves nothing behind in
  the dispatcher's table.
\<close>

section \<open>Property flags\<close>

lemma set_property_flag_keys [simp]: "map fst (set_property_flag ps p v) = map fst ps"
  by (induction ps p v rule: set_property_flag.induct) auto

lemma set_property_flag_count:
  "property_flag ps p = Some b \<Longrightarrow>
     length (filter snd (set_property_flag ps p v)) + (if b then 1 else 0) =
     length (filter snd ps) + (if v then 1 else 0)"
  by (induction ps p v rule: set_property_flag.induct) (auto split: if_splits)

lemma property_flag_set: "property_flag ps p \<noteq> None \<Longrightarrow> property_flag (set_property_flag ps p v) p = Some v"
  by (induction ps p v rule: set_property_flag.induct) (auto split: if_splits)

lemma property_flag_other: "q \<noteq> p \<Longrightarrow> property_flag (set_property_flag ps p v) q = property_flag ps q"
  by (induction ps p v rule: set_property_flag.induct) (auto split: if_splits)

lemma property_flag_raised: "property_flag ps p = Some True \<Longrightarrow> 0 < length (filter snd ps)"
  by (induction ps p rule: property_flag.induct) (auto split: if_splits)

definition flag_update :: "nat \<Rightarrow> bool \<Rightarrow> int \<Rightarrow> stub \<Rightarrow> stub" where
  "flag_update p v n st = st\<lparr>properties := set_property_flag (properties st) p v, attached_properties := n\<rparr>"

lemma flag_update_simps [simp]:
  "generate_matchstring (flag_update p v n st) = generate_matchstring st"
  "generate_property_matchstring (flag_update p v n st) = generate_property_matchstring st"
  "has_disp (flag_update p v n st) = has_disp st"
  "signals (flag_update p v n st) = signals st"
  "busname (flag_update p v n st) = busname st"
  "attached_properties (flag_update p v n st) = n"
  "properties (flag_update p v n st) = set_property_flag (properties st) p v"
  by (simp_all add: flag_update_def fun_eq_iff)

lemma attach_unfold:
  "attach_property reg s p w =
     (case property_flag (properties (stub_at w s)) p of
        None \<Rightarrow> pthrow UndefinedBehaviour w
      | Some v \<Rightarrow>
          if v then preturn () w
          else let n = attached_properties (stub_at w s) + 1;
                   w1 = upd_stub s (flag_update p True n) w in
            if n = 1 then
              (if \<not> has_disp (stub_at w s) then pthrow UndefinedBehaviour w1
               else on_disp (reg (generate_property_matchstring (stub_at w s))) w1)
            else preturn () w1)"
  by (auto simp: attach_property_def Let_def flag_update_def upd_stub_def split: option.split bool.split)

lemma detach_unfold:
  "detach_property unreg s p w =
     (case property_flag (properties (stub_at w s)) p of
        None \<Rightarrow> pthrow UndefinedBehaviour w
      | Some v \<Rightarrow>
          if v then
            let n = attached_properties (stub_at w s) - 1;
                w1 = upd_stub s (flag_update p False n) w in
            if n = 0 then
              (if \<not> has_disp (stub_at w s) then pthrow UndefinedBehaviour w1
               else on_disp (unreg (generate_property_matchstring (stub_at w s))) w1)
            else preturn () w1
          else preturn () w)"
  by (auto simp: detach_property_def Let_def flag_update_def upd_stub_def split: option.split bool.split)

context match_table begin

lemma flag_stub_ok:
  assumes "stub_ok w s xs" and "property_flag (properties (stub_at w s)) p = Some b" and "b \<noteq> v"
    and "n = attached_properties (stub_at w s) + (if v then 1 else - 1)"
    and "stub_at w' = (stub_at w)(s := flag_update p v n (stub_at w s))" and "sig_at w' = sig_at w"
  shows "stub_ok w' s xs"
  using assms set_property_flag_count [OF assms(2), of v]
  by (cases v) (auto simp: stub_ok_def attached_def names_ok_def props_ok_def next_of_def [abs_def])

lemma stub_at_frame:
  assumes R: "registered cnt ok w S att" and "stub_at w' = (stub_at w)(s := x)" and "sig_at w' = sig_at w"
    and "t \<in> S" and "t \<noteq> s"
  shows "stub_at w' t = stub_at w t \<and> stub_ok w' t (att t)"
  using assms by (auto intro!: stub_ok_frame [of w t "att t" w'] simp: registered_def next_of_def)

text \<open>
  The step of \<open>attach_property\<close> and \<open>detach_property\<close>: the flag and the counter change, and the
  table's count of the property match rule changes with the counter's being positive.
\<close>

lemma flag_step:
  assumes R: "registered cnt ok w S att" and s: "s \<in> S"
    and flag: "property_flag (properties (stub_at w s)) p = Some b" "b \<noteq> v"
    and n: "n = attached_properties (stub_at w s) + (if v then 1 else - 1)"
    and w': "stub_at w' = (stub_at w)(s := flag_update p v n (stub_at w s))" "sig_at w' = sig_at w"
    and okd: "ok (disp w')"
    and cnt: "\<And>m. cnt (disp w') m
        + (if 0 < attached_properties (stub_at w s) \<and> generate_property_matchstring (stub_at w s) = m then 1 else 0)
      = cnt (disp w) m
        + (if 0 < n \<and> generate_property_matchstring (stub_at w s) = m then 1 else 0)"
  shows "registered cnt ok w' S att"
proof -
  have "stub_ok w s (att s)" using R s by (simp add: registered_def)
  from flag_stub_ok [OF this flag n w'] have ok': "stub_ok w' s (att s)" .
  have "cnt (disp w') m + wants w s (att s) m = cnt (disp w) m + wants w' s (att s) m" for m
    using cnt [of m] by (simp add: wants_def w')
  then have "registered cnt ok w' S (att(s := att s))"
    using stub_at_frame [OF R w'(1,2)] w'(2) by (intro registered_step [OF R s okd _ ok']) auto
  then show ?thesis by simp
qed

lemma attach_property_law:
  assumes R: "registered cnt ok w S att" and s: "s \<in> S"
    and run: "attach_property reg s p w = Some (Inr u, w')"
  shows "registered cnt ok w' S att \<and> property_flag (properties (stub_at w' s)) p = Some True"
proof -
  let ?st = "stub_at w s" and ?m = "generate_property_matchstring (stub_at w s)"
  have st: "stub_ok w s (att s)" and okd: "ok (disp w)"
    using R s by (simp_all add: registered_def)
  then have hd: "has_disp ?st" and nm: "nul_free ?m" and pos: "0 \<le> attached_properties ?st"
    by (simp_all add: stub_ok_def names_ok_def nul_free_match props_ok_def)
  obtain b where b: "property_flag (properties ?st) p = Some b"
    using run by (auto simp: attach_unfold split: option.splits)
  show ?thesis
  proof (cases b)
    case True
    with run b R show ?thesis by (simp add: attach_unfold)
  next
    case False
    let ?n = "attached_properties ?st + 1" and ?w1 = "upd_stub s (flag_update p True (attached_properties ?st + 1)) w"
    have flag: "property_flag (properties ?st) p = Some b" "b \<noteq> True" using b False by auto
    show ?thesis
    proof (cases "?n = 1")
      case first: True
      then obtain d where d: "reg ?m (disp w) = Some (Inr (), d)" and w': "w' = ?w1\<lparr>disp := d\<rparr>"
        using run b False hd by (auto simp: attach_unfold on_disp_def on_part_eq_Some Let_def)
      have "registered cnt ok w' S att"
        by (rule flag_step [OF R s flag, where n = ?n])
          (use reg_ok [OF okd nm d] w' first in auto)
      with b w' show ?thesis by (simp add: property_flag_set)
    next
      case again: False
      then have w': "w' = ?w1" using run b False by (simp add: attach_unfold Let_def)
      have "registered cnt ok w' S att"
        by (rule flag_step [OF R s flag, where n = ?n])
          (use okd w' again pos in auto)
      with b w' show ?thesis by (simp add: property_flag_set)
    qed
  qed
qed

lemma detach_property_law:
  assumes R: "registered cnt ok w S att" and s: "s \<in> S"
    and run: "detach_property unreg s p w = Some (Inr u, w')"
  shows "registered cnt ok w' S att \<and> property_flag (properties (stub_at w' s)) p = Some False"
proof -
  let ?st = "stub_at w s" and ?m = "generate_property_matchstring (stub_at w s)"
  have st: "stub_ok w s (att s)" and okd: "ok (disp w)"
    using R s by (simp_all add: registered_def)
  then have hd: "has_disp ?st" and nm: "nul_free ?m"
    by (simp_all add: stub_ok_def names_ok_def nul_free_match props_ok_def)
  obtain b where b: "property_flag (properties ?st) p = Some b"
    using run by (auto simp: detach_unfold split: option.splits)
  show ?thesis
  proof (cases b)
    case False
    with run b R show ?thesis by (simp add: detach_unfold)
  next
    case True
    let ?n = "attached_properties ?st - 1" and ?w1 = "upd_stub s (flag_update p False (attached_properties ?st - 1)) w"
    have flag: "property_flag (properties ?st) p = Some b" "b \<noteq> False" using b True by auto
    have pos: "0 < attached_properties ?st"
      using st property_flag_raised [of "properties ?st" p] b True by (simp add: stub_ok_def props_ok_def)
    have "wants w s (att s) ?m \<le> cnt (disp w) ?m"
      using R s member_le_sum [of s S "\<lambda>t. wants w t (att t) ?m"] by (simp add: registered_def)
    with pos have one: "1 \<le> cnt (disp w) ?m" by (simp add: wants_def)
    show ?thesis
    proof (cases "?n = 0")
      case last: True
      then obtain d where d: "unreg ?m (disp w) = Some (Inr (), d)" and w': "w' = ?w1\<lparr>disp := d\<rparr>"
        using run b True hd by (auto simp: detach_unfold on_disp_def on_part_eq_Some Let_def)
      have "registered cnt ok w' S att"
        by (rule flag_step [OF R s flag, where n = ?n])
          (use unreg_ok [OF okd nm d] w' last one in auto)
      with b w' show ?thesis by (simp add: property_flag_set)
    next
      case more: False
      then have w': "w' = ?w1" using run b True by (simp add: detach_unfold Let_def)
      have "registered cnt ok w' S att"
        by (rule flag_step [OF R s flag, where n = ?n])
          (use okd w' more pos in auto)
      with b w' show ?thesis by (simp add: property_flag_set)
    qed
  qed
qed

text \<open>\<open>attach_property\<close> raises the flag and the counter before it asks the dispatcher.\<close>

lemma attach_property_failed:
  assumes "attach_property reg s p w = Some (Inl e, w')" and "has_disp (stub_at w s)"
    and "property_flag (properties (stub_at w s)) p = Some False"
  shows "\<exists>d. reg (generate_property_matchstring (stub_at w s)) (disp w) = Some (Inl e, d) \<and> disp w' = d \<and>
    attached_properties (stub_at w' s) = 1 \<and> attach_property reg s p w' = Some (Inr (), w')"
  using assms
  by (auto simp: attach_unfold Let_def on_disp_def on_part_eq_Some property_flag_set preturn_def
      split: if_splits)

lemma attach_detach_total:
  "attach_property reg s p w \<noteq> None" "detach_property unreg s p w \<noteq> None"
  using reg_total [of "generate_property_matchstring (stub_at w s)" "disp w"]
    unreg_total [of "generate_property_matchstring (stub_at w s)" "disp w"]
  by (auto simp: attach_unfold detach_unfold Let_def on_disp_def on_part_def split: option.splits if_splits)

section \<open>cleanup\<close>

lemma cleanup_loop_law:
  "chain (next_of w) sig xs \<Longrightarrow> ok (disp w) \<Longrightarrow>
   \<forall>g \<in> set xs. nul_free (generate_matchstring (stub_at w s) (sig_name (sig_at w g))) \<Longrightarrow>
   \<exists>r d. cleanup_loop unreg s sig w = Some (r, w\<lparr>disp := d\<rparr>) \<and> ok d \<and>
     (r = Inr () \<longrightarrow> (\<forall>m. cnt d m = cnt (disp w) m -
        count_list (map (\<lambda>g. generate_matchstring (stub_at w s) (sig_name (sig_at w g))) xs) m))"
proof (induction xs arbitrary: sig w)
  case Nil
  then show ?case by (subst cleanup_loop.simps) (simp add: preturn_def exI [of _ "disp w"])
next
  case (Cons x xs)
  let ?m = "generate_matchstring (stub_at w s) (sig_name (sig_at w x))"
  obtain r d where d: "unreg ?m (disp w) = Some (r, d)"
    using unreg_total [of ?m "disp w"] by auto
  then have law: "ok d" "cnt d = (cnt (disp w))(?m := cnt (disp w) ?m - 1)"
    using unreg_ok [of "disp w" ?m] Cons.prems(2,3) by auto
  have step: "on_disp (unreg ?m) w = Some (r, w\<lparr>disp := d\<rparr>)"
    using d by (simp add: on_disp_def on_part_def)
  show ?case
  proof (cases r)
    case (Inl e)
    with step Cons.prems(1) law(1) show ?thesis
      by (subst cleanup_loop.simps) auto
  next
    case (Inr u)
    have "\<exists>r' d'. cleanup_loop unreg s (next_of w x) (w\<lparr>disp := d\<rparr>) = Some (r', w\<lparr>disp := d, disp := d'\<rparr>) \<and> ok d' \<and>
      (r' = Inr () \<longrightarrow> (\<forall>m. cnt d' m = cnt d m -
        count_list (map (\<lambda>g. generate_matchstring (stub_at w s) (sig_name (sig_at w g))) xs) m))"
      using Cons.IH [of "w\<lparr>disp := d\<rparr>" "next_of w x"] Cons.prems law(1) by simp
    then obtain r' d' where IH: "cleanup_loop unreg s (next_of w x) (w\<lparr>disp := d\<rparr>) = Some (r', w\<lparr>disp := d'\<rparr>)" "ok d'"
      "r' = Inr () \<Longrightarrow> \<forall>m. cnt d' m = cnt d m -
        count_list (map (\<lambda>g. generate_matchstring (stub_at w s) (sig_name (sig_at w g))) xs) m"
      by auto
    have "cleanup_loop unreg s sig w = Some (r', w\<lparr>disp := d'\<rparr>)"
      using Cons.prems(1) step Inr IH(1) by (subst cleanup_loop.simps) simp
    with IH(2,3) law(2) show ?thesis by auto
  qed
qed

definition cleared :: "nat \<Rightarrow> ('d, 'w, 'r, 'v) world \<Rightarrow> ('d, 'w, 'r, 'v) world" where
  "cleared s w = upd_stub s (\<lambda>st. st\<lparr>attached_properties := 0, has_disp := False\<rparr>)
     (upd_stub s (\<lambda>st. st\<lparr>signals := None\<rparr>) w)"

lemma cleared_simps [simp]:
  "disp (cleared s w) = disp w" "sig_at (cleared s w) = sig_at w"
  "t \<noteq> s \<Longrightarrow> stub_at (cleared s w) t = stub_at w t"
  "has_disp (stub_at (cleared s w) s) = False" "signals (stub_at (cleared s w) s) = None"
  by (simp_all add: cleared_def)

lemma cleanup_after_loop:
  assumes "has_disp (stub_at w s)"
    and "cleanup_loop unreg s (signals (stub_at w s)) w = Some (Inr (), w\<lparr>disp := d1\<rparr>)"
  shows "cleanup unreg s w =
    (if attached_properties (stub_at w s) = 0 then Some (Inr (), cleared s (w\<lparr>disp := d1\<rparr>))
     else case unreg (generate_property_matchstring (stub_at w s)) d1 of
         None \<Rightarrow> None
       | Some (Inl e, d) \<Rightarrow> Some (Inl e, upd_stub s (\<lambda>st. st\<lparr>signals := None\<rparr>) (w\<lparr>disp := d\<rparr>))
       | Some (Inr _, d) \<Rightarrow> Some (Inr (), cleared s (w\<lparr>disp := d\<rparr>)))"
proof -
  have swap: "upd_stub s f (w\<lparr>disp := x\<rparr>)\<lparr>disp := y\<rparr> = upd_stub s f (w\<lparr>disp := y\<rparr>)" for f x y
    by (simp add: upd_stub_def)
  show ?thesis
    using assms by (cases "unreg (generate_property_matchstring (stub_at w s)) d1")
      (auto simp: cleanup_def pmodify_def cleared_def on_disp_def on_part_def pbind_def preturn_def swap split: sum.split)
qed

text \<open>\<open>cleanup\<close> returns whatever the bus answers, and when it ends normally the stub is gone.\<close>

lemma cleanup_total:
  assumes "stub_ok w s xs" and "ok (disp w)"
  shows "cleanup unreg s w \<noteq> None"
proof -
  have "chain (next_of w) (signals (stub_at w s)) xs" and hd: "has_disp (stub_at w s)"
    and "\<forall>g \<in> set xs. nul_free (generate_matchstring (stub_at w s) (sig_name (sig_at w g)))"
    using assms(1) by (auto simp: stub_ok_def attached_def names_ok_def nul_free_match)
  with cleanup_loop_law [OF _ assms(2)] obtain r d where
    loop: "cleanup_loop unreg s (signals (stub_at w s)) w = Some (r, w\<lparr>disp := d\<rparr>)" by blast
  show ?thesis
  proof (cases r)
    case (Inl e)
    with loop hd show ?thesis by (simp add: cleanup_def)
  next
    case (Inr u)
    with cleanup_after_loop [OF hd, of d] loop unreg_total [of "generate_property_matchstring (stub_at w s)" d]
    show ?thesis by (auto split: sum.split)
  qed
qed

lemma cleanup_law:
  assumes R: "registered cnt ok w S att" and s: "s \<in> S"
    and run: "cleanup unreg s w = Some (Inr u, w')"
  shows "registered cnt ok w' (S - {s}) att \<and> \<not> has_disp (stub_at w' s) \<and> signals (stub_at w' s) = None \<and>
    (\<forall>t. t \<noteq> s \<longrightarrow> stub_at w' t = stub_at w t) \<and> sig_at w' = sig_at w"
proof -
  let ?ms = "map (\<lambda>g. generate_matchstring (stub_at w s) (sig_name (sig_at w g))) (att s)"
  let ?p = "generate_property_matchstring (stub_at w s)"
  have st: "stub_ok w s (att s)" and okd: "ok (disp w)" and fin: "finite S"
    using R s by (simp_all add: registered_def)
  then have ch: "chain (next_of w) (signals (stub_at w s)) (att s)" and hd: "has_disp (stub_at w s)"
    and nms: "\<forall>g \<in> set (att s). nul_free (generate_matchstring (stub_at w s) (sig_name (sig_at w g)))"
    and np: "nul_free ?p" and pos: "0 \<le> attached_properties (stub_at w s)"
    by (auto simp: stub_ok_def attached_def names_ok_def nul_free_match props_ok_def)
  from cleanup_loop_law [OF ch okd nms] obtain r1 d1 where
    loop: "cleanup_loop unreg s (signals (stub_at w s)) w = Some (r1, w\<lparr>disp := d1\<rparr>)" and d1: "ok d1"
      "r1 = Inr () \<Longrightarrow> \<forall>m. cnt d1 m = cnt (disp w) m - count_list ?ms m"
    by blast
  have r1: "r1 = Inr ()" using run hd loop by (cases r1) (auto simp: cleanup_def)
  have run': "cleanup unreg s w = Some (Inr (), w')" using run by simp
  obtain d where d: "ok d" "\<And>m. cnt d m = cnt (disp w) m - wants w s (att s) m"
    and w': "w' = cleared s (w\<lparr>disp := d\<rparr>)"
  proof (cases "attached_properties (stub_at w s) = 0")
    case True
    with run' cleanup_after_loop [OF hd, of d1] loop r1 have "w' = cleared s (w\<lparr>disp := d1\<rparr>)" by simp
    with that [of d1] d1 r1 True show ?thesis by (simp add: wants_def)
  next
    case False
    with run' cleanup_after_loop [OF hd, of d1] loop r1 obtain d2
      where d2: "unreg ?p d1 = Some (Inr (), d2)" and w': "w' = cleared s (w\<lparr>disp := d2\<rparr>)"
      by (auto split: option.splits sum.splits)
    with unreg_ok [OF d1(1) np d2] that [of d2] d1(2) r1 False pos show ?thesis
      by (auto simp: wants_def)
  qed
  have frame: "stub_at w' t = stub_at w t" if "t \<noteq> s" for t
    using that by (simp add: w')
  have names: "sig_at w' = sig_at w" by (simp add: w')
  have "(\<Sum>t \<in> S - {s}. wants w' t (att t) m) = (\<Sum>t \<in> S - {s}. wants w t (att t) m)" for m
    using frame names by (intro sum.cong) (auto simp: wants_def)
  moreover have "(\<Sum>t \<in> S. wants w t (att t) m) = wants w s (att s) m + (\<Sum>t \<in> S - {s}. wants w t (att t) m)" for m
    using sum.remove [OF fin s] .
  ultimately have "cnt d m = (\<Sum>t \<in> S - {s}. wants w' t (att t) m)" for m
    using R d(2) by (simp add: registered_def)
  moreover have "stub_ok w' t (att t)" if "t \<in> S - {s}" for t
  proof (rule stub_ok_frame)
    show "stub_ok w t (att t)" using R that by (simp add: registered_def)
  qed (use that in \<open>simp_all add: frame names next_of_def\<close>)
  ultimately have "registered cnt ok w' (S - {s}) att"
    using fin d(1) by (simp add: registered_def w')
  with frame names show ?thesis by (simp add: w')
qed

end

end
