(* ===== verification/StubSignals.thy ===== *)
theory StubSignals
  imports StubProperties Variants
begin

text \<open>
  What a stub does with what it receives (\<open>src/stubbase.cpp\<close>, \<open>include/simppl/clientside.h\<close>):
  connection state changes, signals, \<open>PropertiesChanged\<close> and the answer to \<open>GetAll\<close>. Calls of
  the callbacks the program installed are the events of the world.
\<close>

section \<open>Connection state\<close>

definition emit :: "'v event \<Rightarrow> ('d, 'w, 'r, 'v) world \<Rightarrow> ('d, 'w, 'r, 'v) world" where
  "emit e w = w\<lparr>events := events w @ [e]\<rparr>"

definition state_changed ::
  "nat \<Rightarrow> ConnectionState \<Rightarrow> bool \<Rightarrow> ('d, 'w, 'r, 'v) world \<Rightarrow> ('d, 'w, 'r, 'v) world" where
  "state_changed s state force w =
     (if conn_state (stub_at w s) \<noteq> state \<or> force then
        let w = upd_stub s (\<lambda>st. st\<lparr>conn_state := state\<rparr>) w in
        if connected_cb (stub_at w s) then emit (ConnectedCallback s state) w else w
      else w)"

section \<open>Evaluating a signal or a property\<close>

text \<open>\<open>ClientSignal::__eval\<close>: the arguments are decoded, then \<open>f_\<close> is called, set or not.\<close>

definition signal_eval :: "nat \<Rightarrow> 'r \<Rightarrow> (('d, 'w, 'r, 'v) world, unit) prog" where
  "signal_eval g iter w =
     pbind (plift (sig_args (sig_at w g) iter)) (\<lambda>(v, _).
       if sig_cb (sig_at w g) then pmodify (emit (SignalCallback g v)) else pthrow BadFunctionCall) w"

text \<open>\<open>ClientProperty::__eval\<close>; a null iterator says the property was invalidated.\<close>

definition property_eval ::
  "('w, 'r) dbus_iter_api \<Rightarrow> nat \<Rightarrow> 'r option \<Rightarrow> (('d, 'w, 'r, 'v) world, unit) prog" where
  "property_eval L p iter w =
     (if prop_cb (prop_at w p) then
        (case iter of
           Some it \<Rightarrow>
             pbind (plift (PropertyCodec_decode L (prop_codec (prop_at w p)) it)) (\<lambda>(d, _).
               pmodify (emit (PropertyCallback p None d))) w
         | None \<Rightarrow>
             pmodify (emit (PropertyCallback p (Some ''simppl.dbus.Invalid'') (prop_default (prop_at w p)))) w)
      else preturn () w)"

section \<open>PropertiesChanged and GetAll\<close>

text \<open>\<open>std::find_if\<close> over the properties by name: the first with that name and its flag.\<close>

fun find_property :: "('d, 'w, 'r, 'v) world \<Rightarrow> (nat \<times> bool) list \<Rightarrow> string \<Rightarrow> (nat \<times> bool) option" where
  "find_property w [] name = None"
| "find_property w (pb # ps) name =
     (if name = c_str (prop_name (prop_at w (fst pb))) then Some pb else find_property w ps name)"

text \<open>The entries of the dictionary of changed values; the code recurses without a type check.\<close>

partial_function (option) changed_loop ::
  "('w, 'r) dbus_iter_api \<Rightarrow> nat \<Rightarrow> 'r \<Rightarrow> ('d, 'w, 'r, 'v) world \<Rightarrow> ((exn + unit) \<times> ('d, 'w, 'r, 'v) world) option" where
  "changed_loop L s iter w =
     (if get_arg_type L iter = DBUS_TYPE_INVALID then preturn () w
      else pbind (plift (StringCodec_decode L (iter_recurse L iter))) (\<lambda>(name, item) w.
        pbind (case find_property w (properties (stub_at w s)) name of
                 Some (p, flag) \<Rightarrow> if flag then property_eval L p (Some item) else preturn ()
               | None \<Rightarrow> preturn ()) (\<lambda>_ w.
        changed_loop L s (iter_next L iter) w) w) w)"

text \<open>
  The names of the invalidated properties: \<open>decode\<close> advances the iterator, and the loop
  advances it once more.
\<close>

partial_function (option) invalidated_loop ::
  "('w, 'r) dbus_iter_api \<Rightarrow> nat \<Rightarrow> 'r \<Rightarrow> ('d, 'w, 'r, 'v) world \<Rightarrow> ((exn + unit) \<times> ('d, 'w, 'r, 'v) world) option" where
  "invalidated_loop L s iter w =
     (if get_arg_type L iter = DBUS_TYPE_INVALID then preturn () w
      else pbind (plift (StringCodec_decode L iter)) (\<lambda>(name, iter') w.
        pbind (case find_property w (properties (stub_at w s)) name of
                 Some (p, flag) \<Rightarrow> if flag then property_eval L p None else preturn ()
               | None \<Rightarrow> preturn ()) (\<lambda>_ w.
        invalidated_loop L s (iter_next L iter') w) w) w)"

text \<open>The loop over the signals of \<open>try_handle_signal\<close>: the first of that name is evaluated.\<close>

partial_function (option) signal_loop ::
  "string \<Rightarrow> 'r \<Rightarrow> nat option \<Rightarrow> ('d, 'w, 'r, 'v) world \<Rightarrow> ((exn + unit) \<times> ('d, 'w, 'r, 'v) world) option" where
  "signal_loop member iter sig w =
     (case sig of None \<Rightarrow> preturn () w
      | Some g \<Rightarrow>
          if c_str (sig_name (sig_at w g)) = member then signal_eval g iter w
          else signal_loop member iter (next_of w g) w)"

definition stub_try_handle_signal ::
  "('w, 'r) dbus_iter_api \<Rightarrow> nat \<Rightarrow> 'r in_msg \<Rightarrow> (('d, 'w, 'r, 'v) world, unit) prog" where
  "stub_try_handle_signal L s msg w =
     (case im_member msg of
        None \<Rightarrow> pthrow UndefinedBehaviour w
      | Some m \<Rightarrow>
          if c_str m = ''PropertiesChanged'' then
            pbind (plift (StringCodec_decode L (im_body msg))) (\<lambda>(iface, it) w.
            pbind (changed_loop L s (iter_recurse L it)) (\<lambda>_ w.
            invalidated_loop L s (iter_recurse L (iter_next L it)) w) w) w
          else signal_loop (c_str m) (im_body msg) (signals (stub_at w s)) w)"

text \<open>\<open>get_all_properties_handle_response\<close> after the error check: the flag is not looked at.\<close>

partial_function (option) getall_loop ::
  "('w, 'r) dbus_iter_api \<Rightarrow> nat \<Rightarrow> 'r \<Rightarrow> ('d, 'w, 'r, 'v) world \<Rightarrow> ((exn + unit) \<times> ('d, 'w, 'r, 'v) world) option" where
  "getall_loop L s iter w =
     (if get_arg_type L iter = DBUS_TYPE_INVALID then preturn () w
      else pbind (plift (StringCodec_decode L (iter_recurse L iter))) (\<lambda>(name, item) w.
        pbind (case find_property w (properties (stub_at w s)) name of
                 Some (p, flag) \<Rightarrow> property_eval L p (Some item)
               | None \<Rightarrow> preturn ()) (\<lambda>_ w.
        getall_loop L s (iter_next L iter) w) w) w)"

section \<open>What is delivered\<close>

lemma emit_simps [simp]:
  "prop_at (emit e w) = prop_at w" "sig_at (emit e w) = sig_at w" "stub_at (emit e w) = stub_at w"
  "disp (emit e w) = disp w" "events (emit e w) = events w @ [e]" "next_of (emit e w) = next_of w"
  by (simp_all add: emit_def next_of_def fun_eq_iff)

lemma events_update_simps [simp]:
  "w\<lparr>events := events w\<rparr> = (w :: ('d, 'w, 'r, 'v) world)"
  "emit e w = w\<lparr>events := events w @ [e]\<rparr>"
  by (simp_all add: emit_def)

declare events_update_simps(2) [simp del]

lemma find_property_cong: "prop_at w' = prop_at w \<Longrightarrow> find_property w' ps name = find_property w ps name"
  by (induction ps) auto

lemma find_property_in: "find_property w ps name = Some (p, b) \<Longrightarrow> (p, b) \<in> set ps"
  by (induction ps) (auto split: if_splits)

lemma signal_loop_chain:
  "chain (next_of w) sig xs \<Longrightarrow>
     signal_loop member iter sig w =
       (case find (\<lambda>g. c_str (sig_name (sig_at w g)) = member) xs of
          None \<Rightarrow> preturn () w | Some g \<Rightarrow> signal_eval g iter w)"
proof (induction xs arbitrary: sig)
  case Nil
  then show ?case by (subst signal_loop.simps) simp
next
  case (Cons x xs)
  then show ?case by (subst signal_loop.simps) auto
qed

text \<open>A dictionary entry of a \<open>PropertiesChanged\<close> or \<open>GetAll\<close> message.\<close>

definition prop_entry :: "string \<times> dval \<Rightarrow> dval" where
  "prop_entry e = Cont DBUS_TYPE_DICT_ENTRY []
     [Basic (BString (fst e)), Cont DBUS_TYPE_VARIANT (dsig (snd e)) [snd e]]"

text \<open>
  The callbacks a list of changed properties leads to: \<open>val p d\<close> is the value property \<open>p\<close> is
  called with when the message has \<open>d\<close>. \<open>force\<close> ignores the attached flag.
\<close>

definition change_events ::
  "('d, 'w, 'r, 'v) world \<Rightarrow> (nat \<times> bool) list \<Rightarrow> bool \<Rightarrow> (nat \<Rightarrow> dval \<Rightarrow> 'v) \<Rightarrow> (string \<times> dval) list \<Rightarrow> 'v event list" where
  "change_events w ps force val items = concat (map (\<lambda>(n, d).
     case find_property w ps n of
       Some (p, flag) \<Rightarrow> if (flag \<or> force) \<and> prop_cb (prop_at w p) then [PropertyCallback p None (val p d)] else []
     | None \<Rightarrow> []) items)"

definition invalid_events ::
  "('d, 'w, 'r, 'v) world \<Rightarrow> (nat \<times> bool) list \<Rightarrow> string list \<Rightarrow> 'v event list" where
  "invalid_events w ps ns = concat (map (\<lambda>n.
     case find_property w ps n of
       Some (p, flag) \<Rightarrow> if flag \<and> prop_cb (prop_at w p)
         then [PropertyCallback p (Some ''simppl.dbus.Invalid'') (prop_default (prop_at w p))] else []
     | None \<Rightarrow> []) ns)"

fun every_other :: "'a list \<Rightarrow> 'a list" where
  "every_other [] = []"
| "every_other [x] = [x]"
| "every_other (x # y # xs) = x # every_other xs"

text \<open>\<open>decodable rv L w val items\<close>: each property can decode what the message has for it.\<close>

definition decodable ::
  "('r \<Rightarrow> dval list) \<Rightarrow> ('w, 'r) dbus_iter_api \<Rightarrow> ('d, 'w, 'r, 'v) world \<Rightarrow> (nat \<times> bool) list
     \<Rightarrow> (nat \<Rightarrow> dval \<Rightarrow> 'v) \<Rightarrow> (string \<times> dval) list \<Rightarrow> bool" where
  "decodable rv L w ps val items \<longleftrightarrow>
     (\<forall>(n, d) \<in> set items. nul_free n \<and> (\<forall>p b. find_property w ps n = Some (p, b) \<longrightarrow>
        (\<forall>it. rv it = [Cont DBUS_TYPE_VARIANT (dsig d) [d]] \<longrightarrow>
           (\<exists>it'. PropertyCodec_decode L (prop_codec (prop_at w p)) it = ret (val p d, it')))))"

lemma events_frame [simp]:
  "find_property (w\<lparr>events := es\<rparr>) ps n = find_property w ps n"
  "change_events (w\<lparr>events := es\<rparr>) ps force val items = change_events w ps force val items"
  "invalid_events (w\<lparr>events := es\<rparr>) ps ns = invalid_events w ps ns"
  "decodable rv L (w\<lparr>events := es\<rparr>) ps val items = decodable rv L w ps val items"
proof -
  have *: "find_property (w\<lparr>events := es\<rparr>) ps n = find_property w ps n" for ps n
    by (rule find_property_cong) simp
  have **: "prop_at (w\<lparr>events := es\<rparr>) = prop_at w" by simp
  show "find_property (w\<lparr>events := es\<rparr>) ps n = find_property w ps n"
    and "change_events (w\<lparr>events := es\<rparr>) ps force val items = change_events w ps force val items"
    and "invalid_events (w\<lparr>events := es\<rparr>) ps ns = invalid_events w ps ns"
    and "decodable rv L (w\<lparr>events := es\<rparr>) ps val items = decodable rv L w ps val items"
    unfolding change_events_def invalid_events_def decodable_def * ** by simp_all
qed

lemma event_lists_Cons:
  "change_events w ps force val (e # items) = change_events w ps force val [e] @ change_events w ps force val items"
  "invalid_events w ps (n # ns) = invalid_events w ps [n] @ invalid_events w ps ns"
  by (simp_all add: change_events_def invalid_events_def)

context dbus_iter begin

lemma StringCodec_decode_vals:
  "rv r = Basic (BString s) # vs \<Longrightarrow> nul_free s \<Longrightarrow>
     StringCodec_decode L r = ret (s, iter_next L r)"
  by (simp add: StringCodec_decode_def simppl_dbus_message_iter_get_basic_def arg_type_val get_basic_val c_str_id)

lemma property_eval_decodable:
  assumes "decodable rv L w ps val ((n, d) # items)" and "rv it = [Cont DBUS_TYPE_VARIANT (dsig d) [d]]"
    and "find_property w ps n = Some (p, b)"
  shows "property_eval L p (Some it) w =
    Some (Inr (), w\<lparr>events := events w @ (if prop_cb (prop_at w p) then [PropertyCallback p None (val p d)] else [])\<rparr>)"
proof -
  obtain it' where "PropertyCodec_decode L (prop_codec (prop_at w p)) it = ret (val p d, it')"
    using assms by (auto simp: decodable_def)
  then show ?thesis
    by (simp add: property_eval_def pmodify_def events_update_simps preturn_def)
qed

lemma entry_name:
  assumes "rv iter = prop_entry (n, d) # vs" and "nul_free n"
  shows "get_arg_type L iter \<noteq> DBUS_TYPE_INVALID"
    and "\<exists>item. StringCodec_decode L (iter_recurse L iter) = ret (n, item) \<and>
      rv item = [Cont DBUS_TYPE_VARIANT (dsig d) [d]]"
    and "rv (iter_next L iter) = vs"
proof -
  have sub: "rv (iter_recurse L iter) = [Basic (BString n), Cont DBUS_TYPE_VARIANT (dsig d) [d]]"
    using recurse_vals [OF assms(1) [unfolded prop_entry_def]] by simp
  show "\<exists>item. StringCodec_decode L (iter_recurse L iter) = ret (n, item) \<and>
      rv item = [Cont DBUS_TYPE_VARIANT (dsig d) [d]]"
    using StringCodec_decode_vals [OF sub assms(2)] next_vals [OF sub] by auto
  show "get_arg_type L iter \<noteq> DBUS_TYPE_INVALID" "rv (iter_next L iter) = vs"
    using arg_type_val [OF assms(1)] next_vals [OF assms(1)] by (simp_all add: prop_entry_def)
qed

lemma changed_loop_vals:
  "rv iter = map prop_entry items \<Longrightarrow> decodable rv L w (properties (stub_at w s)) val items \<Longrightarrow>
     changed_loop L s iter w =
       Some (Inr (), w\<lparr>events := events w @ change_events w (properties (stub_at w s)) False val items\<rparr>)"
proof (induction items arbitrary: iter w)
  case Nil
  then show ?case
    by (subst changed_loop.simps) (simp add: arg_type_end preturn_def change_events_def)
next
  case (Cons e items)
  obtain n d where e: "e = (n, d)" by (cases e)
  have nf: "nul_free n" using Cons.prems(2) e by (simp add: decodable_def)
  have hd: "rv iter = prop_entry (n, d) # map prop_entry items" using Cons.prems(1) e by simp
  from entry_name [OF hd nf] obtain item where
    it: "get_arg_type L iter \<noteq> DBUS_TYPE_INVALID" "StringCodec_decode L (iter_recurse L iter) = ret (n, item)"
      "rv item = [Cont DBUS_TYPE_VARIANT (dsig d) [d]]" "rv (iter_next L iter) = map prop_entry items"
    by blast
  let ?ps = "properties (stub_at w s)"
  let ?new = "change_events w ?ps False val [(n, d)]" and ?w = "\<lambda>es. w\<lparr>events := events w @ es\<rparr>"
  have step: "(case find_property w ?ps n of
      Some (p, flag) \<Rightarrow> if flag then property_eval L p (Some item) else preturn ()
    | None \<Rightarrow> preturn ()) w = Some (Inr (), ?w ?new)"
    using property_eval_decodable [OF Cons.prems(2) [unfolded e] it(3)]
    by (auto simp: change_events_def preturn_def split: option.splits)
  have "decodable rv L w ?ps val items"
    using Cons.prems(2) by (simp add: decodable_def)
  then have "changed_loop L s (iter_next L iter) (?w ?new) =
      Some (Inr (), ?w (?new @ change_events w ?ps False val items))"
    using Cons.IH [OF it(4), of "?w ?new"] by simp
  then show ?case
    using it(1,2) step e event_lists_Cons(1) [of w ?ps False val e items]
    by (subst changed_loop.simps) simp
qed

lemma invalidated_loop_vals:
  "rv iter = map (\<lambda>n. Basic (BString n)) ns \<Longrightarrow> list_all nul_free ns \<Longrightarrow>
     invalidated_loop L s iter w =
       Some (Inr (), w\<lparr>events := events w @ invalid_events w (properties (stub_at w s)) (every_other ns)\<rparr>)"
proof (induction ns arbitrary: iter w rule: every_other.induct)
  case 1
  then show ?case
    by (subst invalidated_loop.simps) (simp add: arg_type_end preturn_def invalid_events_def)
next
  case (2 n)
  let ?ps = "properties (stub_at w s)"
  have step: "(case find_property w ?ps n of
      Some (p, flag) \<Rightarrow> if flag then property_eval L p None else preturn ()
    | None \<Rightarrow> preturn ()) w = Some (Inr (), w\<lparr>events := events w @ invalid_events w ?ps [n]\<rparr>)"
    by (auto simp: invalid_events_def property_eval_def pmodify_def events_update_simps preturn_def split: option.splits)
  have dec: "StringCodec_decode L iter = ret (n, iter_next L iter)" "get_arg_type L iter \<noteq> DBUS_TYPE_INVALID"
    using 2 StringCodec_decode_vals [of iter n "[]"] arg_type_val [of iter] by simp_all
  have "rv (iter_next L (iter_next L iter)) = []"
    by (rule next_end, rule next_vals) (use 2(1) in simp)
  then have "invalidated_loop L s (iter_next L (iter_next L iter)) w' = preturn () w'" for w' :: "('d, 'w, 'r, 'v) world"
    by (subst invalidated_loop.simps) (simp add: arg_type_end)
  with dec step show ?case
    by (subst invalidated_loop.simps) (simp add: preturn_def)
next
  case (3 n n2 ns)
  let ?ps = "properties (stub_at w s)" and ?w = "\<lambda>es. w\<lparr>events := events w @ es\<rparr>"
  let ?new = "invalid_events w ?ps [n]"
  have step: "(case find_property w ?ps n of
      Some (p, flag) \<Rightarrow> if flag then property_eval L p None else preturn ()
    | None \<Rightarrow> preturn ()) w = Some (Inr (), ?w ?new)"
    by (auto simp: invalid_events_def property_eval_def pmodify_def events_update_simps preturn_def split: option.splits)
  have dec: "StringCodec_decode L iter = ret (n, iter_next L iter)" "get_arg_type L iter \<noteq> DBUS_TYPE_INVALID"
    using "3.prems" StringCodec_decode_vals [of iter n] arg_type_val [of iter] by simp_all
  have "rv (iter_next L iter) = Basic (BString n2) # map (\<lambda>n. Basic (BString n)) ns"
    using "3.prems"(1) by (intro next_vals) simp
  then have "rv (iter_next L (iter_next L iter)) = map (\<lambda>n. Basic (BString n)) ns"
    by (rule next_vals)
  from "3.IH" [OF this, of "?w ?new"] "3.prems"(2)
  have "invalidated_loop L s (iter_next L (iter_next L iter)) (?w ?new) =
      Some (Inr (), ?w (?new @ invalid_events w ?ps (every_other ns)))"
    by simp
  with dec step event_lists_Cons(2) [of w ?ps n "every_other ns"] show ?case
    by (subst invalidated_loop.simps) simp
qed

end

end
