(* ===== verification/Dispatcher.thy ===== *)
theory Dispatcher
  imports StubSignals
begin

text \<open>
  \<open>simppl::dbus::Dispatcher\<close> (\<open>src/dispatcher.cpp\<close>): which stubs it knows, which bus names exist,
  how connection state changes and signals reach the stubs, and its part of creating and
  destroying a stub. The dispatcher is the component \<open>disp\<close> of the stubs' world.
\<close>

type_synonym ('b, 'w, 'r, 'v) dworld = "('b dispatcher, 'w, 'r, 'v) world"

section \<open>The multimap of stubs\<close>

text \<open>\<open>std::multimap::emplace\<close> inserts behind the entries with an equal key.\<close>

fun stubs_emplace :: "string \<Rightarrow> nat \<Rightarrow> (string \<times> nat) list \<Rightarrow> (string \<times> nat) list" where
  "stubs_emplace k s [] = [(k, s)]"
| "stubs_emplace k s ((k', s') # m) = (if k < k' then (k, s) # (k', s') # m else (k', s') # stubs_emplace k s m)"

definition equal_range :: "(string \<times> nat) list \<Rightarrow> string \<Rightarrow> nat list" where
  "equal_range m k = map snd (filter (\<lambda>e. fst e = k) m)"

fun stubs_erase :: "nat \<Rightarrow> (string \<times> nat) list \<Rightarrow> (string \<times> nat) list" where
  "stubs_erase s [] = []"
| "stubs_erase s ((k, s') # m) = (if s' = s then m else (k, s') # stubs_erase s m)"

definition upd_dispatcher :: "('b dispatcher \<Rightarrow> 'b dispatcher) \<Rightarrow> ('b, 'w, 'r, 'v) dworld \<Rightarrow> ('b, 'w, 'r, 'v) dworld" where
  "upd_dispatcher f w = w\<lparr>disp := f (disp w)\<rparr>"

section \<open>Connection state notifications\<close>

text \<open>
  \<open>notify_connected\<close> sends a signal to the dispatcher itself, so that the stub's callback is
  called from the event loop. \<open>self\<close> is the object path made of process id and address.
\<close>

definition notify_connected ::
  "('w, 'r) dbus_iter_api \<Rightarrow> ('b, 'w, 'r) dbus_conn_api \<Rightarrow> string \<Rightarrow> stub \<Rightarrow> 'b dispatcher \<Rightarrow> 'b dispatcher" where
  "notify_connected L K self stub d =
     (let body = StringCodec_encode L (StringCodec_encode L (message_iter K) (busname stub)) (objectpath stub)
      in d\<lparr>conn := connection_send K (conn d)
             (message_new_signal self ''org.simppl.dispatcher'' ''notify_client'' body)\<rparr>)"

text \<open>\<open>Connected::set_callback\<close>; \<open>cb\<close> says whether a callable was passed.\<close>

definition set_connected_callback ::
  "('w, 'r) dbus_iter_api \<Rightarrow> ('b, 'w, 'r) dbus_conn_api \<Rightarrow> string \<Rightarrow> nat \<Rightarrow> bool
     \<Rightarrow> (('b, 'w, 'r, 'v) dworld, unit) prog" where
  "set_connected_callback L K self s cb w =
     (let w = upd_stub s (\<lambda>st. st\<lparr>connected_cb := cb\<rparr>) w in
      if cb \<and> conn_state (stub_at w s) = Connected then
        (if has_disp (stub_at w s) then preturn () (upd_dispatcher (notify_connected L K self (stub_at w s)) w)
         else pthrow UndefinedBehaviour w)
      else preturn () w)"

text \<open>\<open>notify_client\<close> gets the bus name too, and does not use it.\<close>

definition notify_client :: "string \<Rightarrow> string \<Rightarrow> ('b, 'w, 'r, 'v) dworld \<Rightarrow> ('b, 'w, 'r, 'v) dworld" where
  "notify_client boundname objpath w =
     fold (\<lambda>s. state_changed s Connected True) (equal_range (dstubs (disp w)) objpath) w"

definition notify_clients :: "string \<Rightarrow> ConnectionState \<Rightarrow> ('b, 'w, 'r, 'v) dworld \<Rightarrow> ('b, 'w, 'r, 'v) dworld" where
  "notify_clients bname state w =
     fold (\<lambda>e w. if bname = busname (stub_at w (snd e)) then state_changed (snd e) state False w else w)
       (dstubs (disp w)) w"

section \<open>Stubs come and go\<close>

definition add_client ::
  "('w, 'r) dbus_iter_api \<Rightarrow> ('b, 'w, 'r) dbus_conn_api \<Rightarrow> string \<Rightarrow> nat \<Rightarrow> ('b, 'w, 'r, 'v) dworld \<Rightarrow> ('b, 'w, 'r, 'v) dworld" where
  "add_client L K self s w =
     (let w = upd_stub s (\<lambda>st. st\<lparr>has_disp := True\<rparr>) w;
          w = upd_dispatcher (\<lambda>d. d\<lparr>dstubs := stubs_emplace (c_str (objectpath (stub_at w s))) s (dstubs d)\<rparr>) w
      in if busname (stub_at w s) \<in> busnames (disp w)
         then upd_dispatcher (notify_connected L K self (stub_at w s)) w else w)"

definition remove_client ::
  "('b, 'w, 'r) dbus_conn_api \<Rightarrow> nat \<Rightarrow> (('b, 'w, 'r, 'v) dworld, unit) prog" where
  "remove_client K s w =
     (if s \<in> set (map snd (dstubs (disp w))) then
        pbind (cleanup (unregister_signal_match K) s) (\<lambda>_.
        pmodify (upd_dispatcher (\<lambda>d. d\<lparr>dstubs := stubs_erase s (dstubs d)\<rparr>))) w
      else preturn () w)"

text \<open>\<open>StubBase::~StubBase\<close> as far as the dispatcher is concerned.\<close>

definition destroy_stub ::
  "('b, 'w, 'r) dbus_conn_api \<Rightarrow> nat \<Rightarrow> (('b, 'w, 'r, 'v) dworld, unit) prog" where
  "destroy_stub K s w = (if has_disp (stub_at w s) then remove_client K s w else preturn () w)"

section \<open>Signals from the bus\<close>

text \<open>\<open>decode(iter, a, b)\<close> and \<open>decode(iter, a, b, c)\<close> of strings.\<close>

definition decode2 :: "('w, 'r) dbus_iter_api \<Rightarrow> 'r \<Rightarrow> (string \<times> string) res" where
  "decode2 L iter =
     rbind (StringCodec_decode L iter) (\<lambda>(a, iter).
     rbind (StringCodec_decode L iter) (\<lambda>(b, iter). ret (a, b)))"

definition decode3 :: "('w, 'r) dbus_iter_api \<Rightarrow> 'r \<Rightarrow> (string \<times> string \<times> string) res" where
  "decode3 L iter =
     rbind (StringCodec_decode L iter) (\<lambda>(a, iter).
     rbind (StringCodec_decode L iter) (\<lambda>(b, iter).
     rbind (StringCodec_decode L iter) (\<lambda>(c, iter). ret (a, b, c))))"

text \<open>A unique connection name; \<open>bus_name[0]\<close> of an empty string is its terminator.\<close>

definition is_unique_name :: "string \<Rightarrow> bool" where
  "is_unique_name n \<longleftrightarrow> (case n of [] \<Rightarrow> False | c # _ \<Rightarrow> c = CHR '':'')"

definition name_owner_changed ::
  "string \<Rightarrow> string \<Rightarrow> string \<Rightarrow> ('b, 'w, 'r, 'v) dworld \<Rightarrow> ('b, 'w, 'r, 'v) dworld" where
  "name_owner_changed bus_name old_name new_name w =
     (if is_unique_name bus_name then w
      else if old_name = [] then
        notify_clients bus_name Connected (upd_dispatcher (\<lambda>d. d\<lparr>busnames := insert bus_name (busnames d)\<rparr>) w)
      else if new_name = [] then
        notify_clients bus_name Disconnected (upd_dispatcher (\<lambda>d. d\<lparr>busnames := busnames d - {bus_name}\<rparr>) w)
      else w)"

definition try_handle_signal ::
  "('w, 'r) dbus_iter_api \<Rightarrow> 'r in_msg \<Rightarrow> (('b, 'w, 'r, 'v) dworld, handler_result) prog" where
  "try_handle_signal L msg w =
     (if im_type msg = Signal then
        (case im_member msg of
           None \<Rightarrow> pthrow UndefinedBehaviour w
         | Some m \<Rightarrow>
             if c_str m = ''notify_client'' then
               pbind (plift (decode2 L (im_body msg))) (\<lambda>(bname, opath) w.
                 preturn Handled (if bname \<in> busnames (disp w) then notify_client bname opath w else w)) w
             else if c_str m = ''NameOwnerChanged'' then
               pbind (plift (decode3 L (im_body msg))) (\<lambda>(bname, old, new) w.
                 preturn Handled (name_owner_changed bname old new w)) w
             else
               (case im_path msg of
                  None \<Rightarrow> pthrow UndefinedBehaviour w
                | Some p \<Rightarrow>
                    let range = equal_range (dstubs (disp w)) (c_str p) in
                    pbind (pfor range (\<lambda>s. stub_try_handle_signal L s msg)) (\<lambda>_.
                      preturn (if range \<noteq> [] then Handled else NotYetHandled)) w))
      else preturn NotYetHandled w)"

section \<open>Creating and stopping the dispatcher\<close>

text \<open>
  The rest of \<open>Dispatcher::init\<close> once there is a connection: two match rules and the names
  \<open>ListNames\<close> reports.
\<close>

definition name_owner_match :: string where
  "name_owner_match =
     ''type='' @ quoted ''signal'' @ '',interface='' @ quoted ''org.freedesktop.DBus''
     @ '',member='' @ quoted ''NameOwnerChanged'' @ '',path='' @ quoted ''/org/freedesktop/DBus''
     @ '',sender='' @ quoted ''org.freedesktop.DBus''"

definition notify_client_match :: "string \<Rightarrow> string" where
  "notify_client_match self =
     ''type='' @ quoted ''signal'' @ '',interface='' @ quoted ''org.simppl.dispatcher''
     @ '',member='' @ quoted ''notify_client'' @ '',path='' @ quoted self"

definition known_busnames :: "string list \<Rightarrow> string set" where
  "known_busnames ns = set (filter (\<lambda>n. \<not> is_unique_name n) ns)"

definition Dispatcher_init ::
  "('w, 'r) dbus_iter_api \<Rightarrow> ('b, 'w, 'r) dbus_conn_api \<Rightarrow> string \<Rightarrow> 'b \<Rightarrow> ('b dispatcher) res" where
  "Dispatcher_init L K self b =
     (case bus_add_match K b name_owner_match of
        (Some err, b) \<Rightarrow> throw (RuntimeErrorExn (RuntimeError_new ''dbus_bus_add_match'' err))
      | (None, b) \<Rightarrow>
          (case bus_add_match K b (notify_client_match self) of
             (Some err, b) \<Rightarrow> throw (RuntimeErrorExn (RuntimeError_new ''dbus_bus_add_match'' err))
           | (None, b) \<Rightarrow>
               (case send_and_block K b (message_new_method_call ''org.freedesktop.DBus''
                       ''/org/freedesktop/DBus'' ''org.freedesktop.DBus'' ''ListNames'' (message_iter K)) 1000 of
                  (Inl err, b) \<Rightarrow> throw UndefinedBehaviour
                | (Inr reply, b) \<Rightarrow>
                    rbind (vector_decode L (string_codec L) (im_body reply)) (\<lambda>(ns, _).
                    ret \<lparr>conn = b, request_timeout = - 1, running = False, dstubs = [],
                         signal_matches = Map.empty, busnames = known_busnames ns\<rparr>))))"

definition stop :: "'b dispatcher \<Rightarrow> 'b dispatcher" where
  "stop d = d\<lparr>running := False\<rparr>"

definition set_request_timeout :: "int \<Rightarrow> 'b dispatcher \<Rightarrow> 'b dispatcher" where
  "set_request_timeout ms d = d\<lparr>request_timeout := ms\<rparr>"

text \<open>
  \<open>run\<close>: \<open>step\<close> is \<open>step_ms(100)\<close>, a parameter, since what happens in it depends on the bus.
\<close>

partial_function (option) run_loop :: "('s, int) prog \<Rightarrow> ('s \<Rightarrow> bool) \<Rightarrow> 's \<Rightarrow> ((exn + int) \<times> 's) option" where
  "run_loop step is_running s =
     (if is_running s then pbind step (\<lambda>_ s. run_loop step is_running s) s else preturn 0 s)"

end
