(* ===== verification/NameUtil.thy ===== *)
theory NameUtil
  imports ErrorObj
begin

text \<open>
  \<open>src/util.cpp\<close>: the names an interface gets on the bus. C++ names come out of the
  demangler as \<open>ns::Iface<args>\<close>; the bus wants \<open>ns.Iface\<close>, and object paths use slashes.
  Pointers into a string are its remaining characters; a pointer that leaves the string is
  \<open>None\<close>.
\<close>

section \<open>Object paths and bus names\<close>

fun dots_to_slashes :: "string \<Rightarrow> string" where
  "dots_to_slashes [] = []"
| "dots_to_slashes (p # ps) =
     (if p = NUL then p # ps
      else (if p = CHR ''.'' then CHR ''/'' else p) # dots_to_slashes ps)"

text \<open>
  \<open>create_objectpath\<close>: \<open>sprintf\<close> into an array of \<open>capacity\<close> characters (holding \<open>junk\<close>),
  then the loop over the result. \<open>None\<close> is a write outside the array.
\<close>

definition create_objectpath :: "(nat \<Rightarrow> char) \<Rightarrow> string \<Rightarrow> string \<Rightarrow> string option" where
  "create_objectpath junk iface role =
     (let capacity = length (c_str role) + length (c_str iface) + 3
      in map_option dots_to_slashes
           (strcpy_at (map junk [0..<capacity]) 0 (''/'' @ c_str iface @ ''/'' @ c_str role)))"

definition create_busname :: "(nat \<Rightarrow> char) \<Rightarrow> string \<Rightarrow> string \<Rightarrow> string option" where
  "create_busname junk iface role =
     (let capacity = length (c_str role) + length (c_str iface) + 2
      in strcpy_at (map junk [0..<capacity]) 0 (c_str iface @ ''.'' @ c_str role))"

text \<open>\<open>StubBase::init\<close> builds the bus name in a \<open>std::string\<close> instead.\<close>

definition stub_busname :: "string \<Rightarrow> string \<Rightarrow> string" where
  "stub_busname iface role = c_str iface @ ''.'' @ c_str role"

definition slashed :: "string \<Rightarrow> string" where
  "slashed s = map (\<lambda>c. if c = CHR ''.'' then CHR ''/'' else c) s"

lemma dots_to_slashes_c_str: "c_str (dots_to_slashes s) = slashed (c_str s)"
  by (induction s) (auto simp: c_str_def slashed_def NUL_def)

lemma c_str_nulfree_append: "nul_free s \<Longrightarrow> c_str (s @ t) = s @ c_str t"
  by (induction s) (auto simp: c_str_def)

lemma strcpy_at_exact:
  assumes "nul_free s" and "length buf = length s + 1"
  shows "strcpy_at buf 0 s = Some (s @ [NUL])"
  using assms by (simp add: strcpy_at_def Let_def c_str_id)

lemma sprintf_fits:
  assumes "nul_free s" and "capacity = length s + 1"
  shows "\<exists>buf. strcpy_at (map junk [0..<capacity]) 0 s = Some buf \<and> c_str buf = s"
  using assms strcpy_at_exact [OF assms(1), of "map junk [0..<capacity]"] c_str_append_NUL [OF assms(1), of "[]"]
  by simp

lemma objectpath_text:
  "\<exists>p. create_objectpath junk iface role = Some p \<and>
       c_str p = ''/'' @ slashed (c_str iface) @ ''/'' @ slashed (c_str role)"
proof -
  let ?s = "''/'' @ c_str iface @ ''/'' @ c_str role"
  have "nul_free ?s"
    using c_str_nul_free by (auto simp: nul_free_def NUL_def)
  then obtain buf where b: "strcpy_at (map junk [0..<length (c_str role) + length (c_str iface) + 3]) 0 ?s = Some buf"
      "c_str buf = ?s"
    using sprintf_fits [of ?s "length (c_str role) + length (c_str iface) + 3" junk] by auto
  have "c_str (dots_to_slashes buf) = slashed ?s"
    by (simp only: dots_to_slashes_c_str b(2))
  with b(1) show ?thesis
    by (simp add: create_objectpath_def) (simp add: slashed_def)
qed

lemma busname_text:
  "\<exists>b. create_busname junk iface role = Some b \<and> c_str b = stub_busname iface role"
proof -
  let ?s = "c_str iface @ ''.'' @ c_str role"
  have "nul_free ?s"
    using c_str_nul_free by (auto simp: nul_free_def NUL_def)
  then show ?thesis
    using sprintf_fits [of ?s "length (c_str role) + length (c_str iface) + 2" junk]
    by (simp add: create_busname_def stub_busname_def)
qed

section \<open>Interface names\<close>

text \<open>
  \<open>make_interface_name\<close> over the characters between \<open>src\<close> and \<open>end\<close>: a colon becomes a dot and
  swallows the character after it.
\<close>

fun make_interface_name :: "string \<Rightarrow> string option" where
  "make_interface_name [] = Some []"
| "make_interface_name (c # src) =
     (if c = CHR '':'' then
        (case src of [] \<Rightarrow> None
         | _ # src' \<Rightarrow> map_option (\<lambda>n. CHR ''.'' # n) (make_interface_name src'))
      else map_option (\<lambda>n. c # n) (make_interface_name src))"

definition isspace :: "char \<Rightarrow> bool" where
  "isspace c \<longleftrightarrow> c \<in> {CHR '' '', CHR 0x09, CHR 0x0A, CHR 0x0B, CHR 0x0C, CHR 0x0D}"

text \<open>The loop over the template arguments: \<open>level\<close> counts the open angle brackets.\<close>

fun skip_template_args :: "nat \<Rightarrow> string \<Rightarrow> string option" where
  "skip_template_args 0 s = Some s"
| "skip_template_args (Suc level) [] = None"
| "skip_template_args (Suc level) (c # s) =
     (if c = CHR ''<'' then skip_template_args (Suc (Suc level)) s
      else if c = CHR ''>'' then skip_template_args level s
      else skip_template_args (Suc level) s)"

text \<open>
  \<open>find_next_interface\<close>: \<open>None\<close> leaves the string, \<open>Some None\<close> is the null pointer.
\<close>

definition find_next_interface :: "string \<Rightarrow> string option option" where
  "find_next_interface s =
     (case s of [] \<Rightarrow> None
      | _ # s' \<Rightarrow>
          (case skip_template_args 1 s' of None \<Rightarrow> None
           | Some rest \<Rightarrow>
               (case dropWhile isspace rest of
                  [] \<Rightarrow> Some None
                | c # rest2 \<Rightarrow>
                    if c = CHR '','' then Some (Some (dropWhile isspace rest2))
                    else Some None)))"

lemma skip_template_args_shorter:
  "skip_template_args l s = Some r \<Longrightarrow> length r \<le> length s"
  by (induction l s rule: skip_template_args.induct) (auto split: if_splits)

lemma find_next_shorter:
  "find_next_interface s = Some (Some r) \<Longrightarrow> length r < length s"
  by (auto simp: find_next_interface_def split: list.splits option.splits if_splits
      dest!: skip_template_args_shorter)
    (metis (no_types, lifting) Suc_leI dual_order.strict_trans2 le_imp_less_Suc length_Cons
      length_dropWhile_le lessI linorder_not_le order_less_trans)

text \<open>
  The \<open>do\<close> loop of \<open>extract_interfaces\<close>. \<open>strchr\<close> returning null makes the code read through
  a null pointer: \<open>None\<close>.
\<close>

function extract_loop :: "string \<Rightarrow> string list option" where
  "extract_loop first =
     (let name = takeWhile (\<lambda>c. c \<noteq> CHR ''<'') first;
          last' = dropWhile (\<lambda>c. c \<noteq> CHR ''<'') first
      in if last' = [] then None
         else (case make_interface_name name of None \<Rightarrow> None
               | Some iface \<Rightarrow>
                   (case find_next_interface last' of None \<Rightarrow> None
                    | Some None \<Rightarrow> Some [iface]
                    | Some (Some nxt) \<Rightarrow> map_option (\<lambda>ifaces. iface # ifaces) (extract_loop nxt))))"
  by pat_completeness auto
termination
proof (relation "measure length", simp)
  fix first name last' iface x2 nxt
  assume "last' = dropWhile (\<lambda>c. c \<noteq> CHR ''<'') first" "find_next_interface last' = Some x2" "x2 = Some nxt"
  then show "(nxt, first) \<in> measure length"
    using find_next_shorter [of last' nxt] length_dropWhile_le [of "\<lambda>c. c \<noteq> CHR ''<''" first]
    by simp
qed

declare extract_loop.simps [simp del]

definition typelist_prefix :: string where
  "typelist_prefix = ''simppl::make_typelist<''"

definition extract_interfaces :: "string \<Rightarrow> string list option" where
  "extract_interfaces mangled_iface_list =
     (if length mangled_iface_list < length typelist_prefix then None
      else extract_loop (drop (length typelist_prefix) mangled_iface_list))"

subsection \<open>What the demangler prints\<close>

text \<open>A nested name, and the name the bus knows it by.\<close>

fun join :: "string \<Rightarrow> string list \<Rightarrow> string" where
  "join sep [] = []"
| "join sep [x] = x"
| "join sep (x # y # xs) = x @ sep @ join sep (y # xs)"

definition cpp_identifier :: "string \<Rightarrow> bool" where
  "cpp_identifier s \<longleftrightarrow> s \<noteq> [] \<and> list_all (\<lambda>c. c \<notin> {CHR '':'', CHR ''<'', CHR ''>'', CHR '','', NUL} \<and> \<not> isspace c) s"

text \<open>Template arguments with matching angle brackets: the depth after reading them.\<close>

fun angle_depth :: "nat \<Rightarrow> string \<Rightarrow> nat option" where
  "angle_depth n [] = Some n"
| "angle_depth n (c # s) =
     (if c = CHR ''<'' then angle_depth (Suc n) s
      else if c = CHR ''>'' then (case n of 0 \<Rightarrow> None | Suc m \<Rightarrow> angle_depth m s)
      else angle_depth n s)"

fun render_ifaces :: "(string list \<times> string) list \<Rightarrow> string" where
  "render_ifaces [] = ''>''"
| "render_ifaces [(segs, args)] = join ''::'' segs @ ''<'' @ args @ ''> >''"
| "render_ifaces ((segs, args) # i # rest) =
     join ''::'' segs @ ''<'' @ args @ ''>, '' @ render_ifaces (i # rest)"

definition demangled :: "(string list \<times> string) list \<Rightarrow> string" where
  "demangled ifaces = typelist_prefix @ render_ifaces ifaces"

definition iface_ok :: "string list \<times> string \<Rightarrow> bool" where
  "iface_ok i \<longleftrightarrow> fst i \<noteq> [] \<and> list_all cpp_identifier (fst i) \<and> angle_depth 0 (snd i) = Some 0"

lemma skip_angle_depth:
  "angle_depth n args = Some m \<Longrightarrow> skip_template_args (Suc n) (args @ r) = skip_template_args (Suc m) r"
  by (induction n args rule: angle_depth.induct) (auto split: nat.splits if_splits)

lemma make_interface_name_plain:
  "list_all (\<lambda>c. c \<noteq> CHR '':'') s \<Longrightarrow>
     make_interface_name (s @ t) =
       (case make_interface_name t of None \<Rightarrow> None | Some n \<Rightarrow> Some (s @ n))"
  by (induction s) (auto split: option.splits)

lemma make_interface_name_dots:
  "list_all cpp_identifier segs \<Longrightarrow> make_interface_name (join ''::'' segs) = Some (join ''.'' segs)"
proof (induction segs rule: induct_list012)
  case 1
  then show ?case by simp
next
  case (2 x)
  then have "list_all (\<lambda>c. c \<noteq> CHR '':'') x"
    by (auto simp: cpp_identifier_def list_all_iff)
  then show ?case using make_interface_name_plain [of x "[]"] by simp
next
  case (3 x y xs)
  then have "list_all (\<lambda>c. c \<noteq> CHR '':'') x"
    by (auto simp: cpp_identifier_def list_all_iff)
  then show ?case using 3 by (simp add: make_interface_name_plain)
qed

lemma list_all_join:
  "list_all P sep \<Longrightarrow> list_all (list_all P) segs \<Longrightarrow> list_all P (join sep segs)"
  by (induction sep segs rule: join.induct) simp_all

lemma join_no_angle:
  assumes "list_all cpp_identifier segs"
  shows "list_all (\<lambda>c. c \<noteq> CHR ''<'') (join ''::'' segs)"
  using assms by (intro list_all_join) (auto simp: cpp_identifier_def list_all_iff)

lemma join_nul_free:
  assumes "list_all cpp_identifier segs"
  shows "nul_free (join ''::'' segs)"
proof -
  have "list_all (\<lambda>c. c \<noteq> NUL) (join ''::'' segs)"
    using assms by (intro list_all_join) (auto simp: cpp_identifier_def list_all_iff NUL_def)
  then show ?thesis by (auto simp: nul_free_def list_all_iff)
qed

lemma join_head:
  assumes "segs \<noteq> []" and "list_all cpp_identifier segs"
  shows "\<exists>c cs. join ''::'' segs = c # cs \<and> \<not> isspace c"
proof -
  obtain x xs where segs: "segs = x # xs" using assms(1) by (cases segs) auto
  with assms(2) obtain c cs where x: "x = c # cs" and c: "\<not> isspace c"
    by (cases x) (auto simp: cpp_identifier_def)
  show ?thesis
    using c by (cases xs) (simp_all add: segs x)
qed

lemma render_ifaces_head:
  assumes "iface_ok i"
  shows "dropWhile isspace (render_ifaces (i # rest)) = render_ifaces (i # rest)"
proof -
  obtain segs args where i: "i = (segs, args)" by (cases i)
  with assms obtain c cs where "join ''::'' segs = c # cs" "\<not> isspace c"
    using join_head [of segs] by (auto simp: iface_ok_def)
  then show ?thesis
    by (cases rest) (simp_all add: i)
qed

lemma takeWhile_name:
  "list_all cpp_identifier segs \<Longrightarrow>
     takeWhile (\<lambda>c. c \<noteq> CHR ''<'') (join ''::'' segs @ CHR ''<'' # r) = join ''::'' segs \<and>
     dropWhile (\<lambda>c. c \<noteq> CHR ''<'') (join ''::'' segs @ CHR ''<'' # r) = CHR ''<'' # r"
  using join_no_angle [of segs] by (auto simp: list_all_iff takeWhile_append dropWhile_append3)

lemma extract_loop_render:
  "ifaces \<noteq> [] \<Longrightarrow> list_all iface_ok ifaces \<Longrightarrow>
     extract_loop (render_ifaces ifaces) = Some (map (\<lambda>i. join ''.'' (fst i)) ifaces)"
proof (induction ifaces rule: render_ifaces.induct)
  case 1
  then show ?case by simp
next
  case (2 segs args)
  then have ok: "list_all cpp_identifier segs" "angle_depth 0 args = Some 0"
    by (simp_all add: iface_ok_def)
  have "find_next_interface (CHR ''<'' # args @ ''> >'') = Some None"
    using skip_angle_depth [OF ok(2), of "''> >''"]
    by (simp add: find_next_interface_def isspace_def)
  then show ?case
    using takeWhile_name [OF ok(1), of "args @ ''> >''"] make_interface_name_dots [OF ok(1)]
    by (subst extract_loop.simps) (simp add: Let_def)
next
  case (3 segs args i rest)
  then have ok: "list_all cpp_identifier segs" "angle_depth 0 args = Some 0"
    by (simp_all add: iface_ok_def)
  let ?r = "render_ifaces (i # rest)"
  have "dropWhile isspace ?r = ?r"
    by (rule render_ifaces_head) (use 3 in simp)
  then have "find_next_interface (CHR ''<'' # args @ ''>, '' @ ?r) = Some (Some ?r)"
    using skip_angle_depth [OF ok(2), of "''>, '' @ ?r"]
    by (simp add: find_next_interface_def isspace_def)
  then show ?case
    using 3 takeWhile_name [OF ok(1), of "args @ ''>, '' @ ?r"] make_interface_name_dots [OF ok(1)]
    by (subst extract_loop.simps) (simp add: Let_def)
qed

lemma extract_demangled:
  "ifaces \<noteq> [] \<Longrightarrow> list_all iface_ok ifaces \<Longrightarrow>
     extract_interfaces (demangled ifaces) = Some (map (\<lambda>i. join ''.'' (fst i)) ifaces)"
  by (simp add: extract_interfaces_def demangled_def extract_loop_render)

section \<open>Error names, in place\<close>

text \<open>
  \<open>make_error_name\<close> with its two pointers \<open>to\<close> and \<open>from\<close> into one buffer.
\<close>

function make_error_name_loop :: "string \<Rightarrow> nat \<Rightarrow> nat \<Rightarrow> string option" where
  "make_error_name_loop str dst src =
     (if src < length str then
        (if str ! src = NUL then Some (str[dst := NUL])
         else if str ! src = CHR '':'' then
           make_error_name_loop (str[dst := CHR ''.'']) (Suc dst) (src + 2)
         else make_error_name_loop (str[dst := str ! src]) (Suc dst) (Suc src))
      else None)"
  by pat_completeness auto
termination
  by (relation "measure (\<lambda>(str, dst, src). length str - src)") auto

declare make_error_name_loop.simps [simp del]

definition make_error_name :: "string \<Rightarrow> string option" where
  "make_error_name str = make_error_name_loop str 0 0"

lemma make_error_name_loop_spec:
  "dst \<le> src \<Longrightarrow> nul_free (take dst str) \<Longrightarrow> drop src str = s @ NUL # t \<Longrightarrow> nul_free s \<Longrightarrow>
   make_interface_name s = Some n \<Longrightarrow>
   \<exists>str'. make_error_name_loop str dst src = Some str' \<and> c_str str' = take dst str @ n \<and>
     length str' = length str"
proof (induction s arbitrary: str dst src n rule: make_interface_name.induct)
  case 1
  then have l: "src < length str" "str ! src = NUL"
    by (metis append_Nil drop_eq_Nil2 linorder_not_le list.simps(3))
      (metis "1.prems"(3) append_Nil drop_eq_Nil2 hd_drop_conv_nth linorder_not_le list.sel(1) list.simps(3))
  have "c_str (str[dst := NUL]) = take dst str"
    using l 1 c_str_append_NUL [of "take dst str" "drop (Suc dst) str"]
    by (simp add: upd_conv_take_nth_drop)
  with l 1 show ?case
    by (subst make_error_name_loop.simps) simp
next
  case (2 c rest)
  have l: "src < length str" "str ! src = c"
    using "2.prems"(3)
    by (metis append_Cons drop_eq_Nil2 linorder_not_le list.simps(3))
      (metis "2.prems"(3) append_Cons drop_eq_Nil2 hd_drop_conv_nth linorder_not_le list.sel(1) list.simps(3))
  have c: "c \<noteq> NUL" using "2.prems"(4) by simp
  have tk: "take (Suc dst) (str[dst := x]) = take dst str @ [x]" for x
    using l "2.prems"(1) by (simp add: take_Suc_conv_app_nth)
  show ?case
  proof (cases "c = CHR '':''")
    case True
    with "2.prems"(5) obtain d rest' where rest: "rest = d # rest'"
      by (cases rest) auto
    with True "2.prems"(5) obtain n' where n': "make_interface_name rest' = Some n'" "n = CHR ''.'' # n'"
      by auto
    let ?s = "str[dst := CHR ''.'']"
    have "drop (src + 2) ?s = rest' @ NUL # t"
      using "2.prems"(1,3) True rest
      by (simp add: drop_update_cancel) (metis add_2_eq_Suc' drop_Suc drop_drop list.sel(3) tl_drop)
    moreover have "nul_free rest'" using "2.prems"(4) rest by simp
    moreover have "nul_free (take (Suc dst) ?s)"
      using tk "2.prems"(2) by (simp add: NUL_def)
    ultimately obtain str' where "make_error_name_loop ?s (Suc dst) (src + 2) = Some str'"
      "c_str str' = take (Suc dst) ?s @ n'" "length str' = length ?s"
      using "2.IH"(1) [OF True rest, of "Suc dst" "src + 2" ?s n'] "2.prems"(1) n'(1) by auto
    with l c True tk n'(2) show ?thesis
      by (subst make_error_name_loop.simps) (simp add: NUL_def)
  next
    case False
    with "2.prems"(5) obtain n' where n': "make_interface_name rest = Some n'" "n = c # n'"
      by auto
    let ?s = "str[dst := c]"
    have "drop (Suc src) ?s = rest @ NUL # t"
      using "2.prems"(1,3) by (simp add: drop_update_cancel) (metis drop_Suc list.sel(3) tl_drop)
    moreover have "nul_free (take (Suc dst) ?s)"
      using tk "2.prems"(2) c by simp
    ultimately obtain str' where "make_error_name_loop ?s (Suc dst) (Suc src) = Some str'"
      "c_str str' = take (Suc dst) ?s @ n'" "length str' = length ?s"
      using "2.IH"(2) [OF False, of "Suc dst" "Suc src" ?s n'] "2.prems"(1,4) n'(1) by auto
    with l c False tk n'(2) show ?thesis
      by (subst make_error_name_loop.simps) simp
  qed
qed

lemma make_error_name_dots:
  assumes "list_all cpp_identifier segs"
  shows "\<exists>str'. make_error_name (join ''::'' segs @ NUL # t) = Some str' \<and> c_str str' = join ''.'' segs"
proof -
  have "nul_free (join ''::'' segs)"
    by (rule join_nul_free [OF assms])
  then show ?thesis
    using make_error_name_loop_spec [of 0 0 "join ''::'' segs @ NUL # t" "join ''::'' segs" t "join ''.'' segs"]
      make_interface_name_dots [OF assms]
    by (auto simp: make_error_name_def)
qed

end
