(* ===== verification/CallStates.thy ===== *)
theory CallStates
  imports Bus Codec NameUtil
begin

text \<open>
  Errors across the bus (\<open>include/simppl/detail/error.h\<close>, \<open>callstate.h\<close>): how the server turns
  an exception into an error reply and how the client turns a reply into the state of a call.
\<close>

section \<open>ErrorFactory\<close>

text \<open>\<open>dbus_message_new_error\<close> appends the text as the first argument.\<close>

definition new_error :: "('w, 'r) dbus_iter_api \<Rightarrow> 'w \<Rightarrow> 'r in_msg \<Rightarrow> string option \<Rightarrow> string \<Rightarrow> 'w out_msg" where
  "new_error L root req name text = message_new_error req name (append_basic L root DBUS_TYPE_STRING (BString text))"

text \<open>
  \<open>ErrorFactory<Error>::reply\<close>. An \<open>Error\<close> without a name (one made by the protected default
  constructor of a derived class) violates the precondition of \<open>dbus_message_new_error\<close>.
\<close>

definition ErrorFactory_Error_reply ::
  "('w, 'r) dbus_iter_api \<Rightarrow> 'w \<Rightarrow> 'r in_msg \<Rightarrow> error_obj \<Rightarrow> 'w out_msg res" where
  "ErrorFactory_Error_reply L root req e =
     (case make_reply_for e None of (name, text) \<Rightarrow>
        if name = None then throw UndefinedBehaviour else ret (new_error L root req name text))"

text \<open>
  \<open>ErrorFactory<ExceptionT>::reply\<close> for an exception class with members: \<open>cls\<close> is the name
  of the class, \<open>c\<close> its serializer and \<open>m\<close> the members, absent when the \<open>dynamic_cast\<close> to the
  class fails.
\<close>

definition ErrorFactory_reply ::
  "('w, 'r) dbus_iter_api \<Rightarrow> 'w \<Rightarrow> string \<Rightarrow> ('w, 'r, 'm) codec \<Rightarrow> 'r in_msg \<Rightarrow> error_obj \<Rightarrow> 'm option
     \<Rightarrow> 'w out_msg res" where
  "ErrorFactory_reply L root cls c req e m =
     (case (if Error_name e = None then map_option (\<lambda>n. Some (c_str n)) (make_error_name (cls @ [NUL]))
            else Some None) of
        None \<Rightarrow> throw UndefinedBehaviour
      | Some class_name \<Rightarrow>
          (case make_reply_for e class_name of (name, text) \<Rightarrow>
             let rmsg = new_error L root req name text in
             ret (case m of Some x \<Rightarrow> rmsg\<lparr>om_body := enc c (om_body rmsg) x\<rparr> | None \<Rightarrow> rmsg)))"

text \<open>\<open>ErrorFactory<Error>::init\<close>, with the iterator behind the text.\<close>

definition ErrorFactory_Error_init ::
  "('w, 'r) dbus_iter_api \<Rightarrow> (nat \<Rightarrow> char) \<Rightarrow> error_obj \<Rightarrow> 'r in_msg \<Rightarrow> (error_obj \<times> 'r) res" where
  "ErrorFactory_Error_init L junk err msg =
     rbind (StringCodec_decode L (im_body msg)) (\<lambda>(text, iter).
       case im_error_name msg of
         None \<Rightarrow> throw UndefinedBehaviour
       | Some n \<Rightarrow>
           (case set_members junk n (Some text) (im_reply_serial msg) err of
              None \<Rightarrow> throw UndefinedBehaviour
            | Some err \<Rightarrow> ret (err, iter)))"

text \<open>\<open>ErrorFactory<ExceptionT>::init\<close>; the members keep their default when nothing is left.\<close>

definition ErrorFactory_init ::
  "('w, 'r) dbus_iter_api \<Rightarrow> (nat \<Rightarrow> char) \<Rightarrow> ('w, 'r, 'm) codec \<Rightarrow> 'm \<Rightarrow> error_obj \<Rightarrow> 'r in_msg \<Rightarrow> (error_obj \<times> 'm) res" where
  "ErrorFactory_init L junk c m0 err msg =
     rbind (ErrorFactory_Error_init L junk err msg) (\<lambda>(err, iter).
       if get_arg_type L iter \<noteq> DBUS_TYPE_INVALID
       then rbind (dec c iter) (\<lambda>(m, iter). ret (err, m))
       else ret (err, m0))"

section \<open>TCallState\<close>

record 'm call_state =
  cs_ex :: "(error_obj \<times> 'm) option"
  cs_serial :: "32 word"

text \<open>The three constructors; \<open>init\<close> is the \<open>ErrorFactory<ErrorT>::init\<close> of a fresh \<open>ErrorT\<close>.\<close>

definition CallState_serial :: "32 word \<Rightarrow> 'm call_state" where
  "CallState_serial s = \<lparr>cs_ex = None, cs_serial = s\<rparr>"

definition CallState_error :: "error_obj \<times> 'm \<Rightarrow> 'm call_state" where
  "CallState_error ex = \<lparr>cs_ex = Some ex, cs_serial = SIMPPL_INVALID_SERIAL\<rparr>"

definition CallState_msg :: "('r in_msg \<Rightarrow> (error_obj \<times> 'm) res) \<Rightarrow> 'r in_msg \<Rightarrow> 'm call_state res" where
  "CallState_msg init msg =
     (if im_type msg = ErrorReply
      then rbind (init msg) (\<lambda>ex. ret \<lparr>cs_ex = Some ex, cs_serial = SIMPPL_INVALID_SERIAL\<rparr>)
      else ret \<lparr>cs_ex = None, cs_serial = im_reply_serial msg\<rparr>)"

definition call_ok :: "'m call_state \<Rightarrow> bool" where
  "call_ok cs \<longleftrightarrow> cs_ex cs = None"

definition call_serial :: "'m call_state \<Rightarrow> 32 word" where
  "call_serial cs = (case cs_ex cs of Some ex \<Rightarrow> err_serial (fst ex) | None \<Rightarrow> cs_serial cs)"

section \<open>Errors arrive as they were sent\<close>

text \<open>What the peer receives of a message the code sent.\<close>

definition arrives :: "('w \<Rightarrow> dval list) \<Rightarrow> ('r \<Rightarrow> dval list) \<Rightarrow> 'w out_msg \<Rightarrow> 'r in_msg \<Rightarrow> bool" where
  "arrives wv rv om im \<longleftrightarrow>
     im_type im = om_type om \<and> im_path im = om_path om \<and> im_interface im = om_interface om \<and>
     im_member im = om_member om \<and> im_error_name im = om_error_name om \<and>
     im_reply_serial im = om_reply_to om \<and> rv (im_body im) = wv (om_body om)"

lemma make_reply_name: "fst (make_reply_for e None) = Error_name e" "snd (make_reply_for e n) = Error_message e"
  by (simp_all add: make_reply_for_def)

lemma error_text_nul_free [simp]: "nul_free (Error_message e)"
  by (auto simp: Error_message_def split: option.split)

lemma error_name_nul_free: "Error_name e = Some n \<Longrightarrow> nul_free n"
  by (auto simp: Error_name_def)

lemma new_error_fields [simp]:
  "om_type (new_error L root req name text) = ErrorReply"
  "om_error_name (new_error L root req name text) = name"
  "om_reply_to (new_error L root req name text) = im_serial req"
  by (simp_all add: new_error_def message_new_error_def)

context dbus_iter begin

lemma Error_init_vals:
  assumes "rv (im_body msg) = Basic (BString text) # vs" and "nul_free text" and "im_error_name msg = Some n"
  shows "\<exists>e it. ErrorFactory_Error_init L junk err msg = ret (e, it) \<and> rv it = vs \<and>
    Error_name e = Some (c_str n) \<and> Error_message e = text \<and> err_serial e = im_reply_serial msg"
proof -
  obtain e where e: "set_members junk n (Some text) (im_reply_serial msg) err = Some e"
    "Error_name e = Some (c_str n)" "Error_message e = text" "err_serial e = im_reply_serial msg"
    using set_members_ok [of junk n "Some text" "im_reply_serial msg" err] assms(2) by (auto simp: c_str_id)
  have "StringCodec_decode L (im_body msg) = ret (text, iter_next L (im_body msg))"
    using assms(1,2)
    by (simp add: StringCodec_decode_def simppl_dbus_message_iter_get_basic_def arg_type_val get_basic_val c_str_id)
  with e assms(3) next_vals [OF assms(1)] show ?thesis
    by (simp add: ErrorFactory_Error_init_def)
qed

lemma new_error_vals:
  assumes "wv root = []" and "bvalid (BString text)"
  shows "wv (om_body (new_error L root req name text)) = [Basic (BString text)]"
  using assms by (simp add: new_error_def message_new_error_def append_basic_vals)

text \<open>An \<open>Error\<close> the server replies with is the one the client's call ends with.\<close>

lemma Error_reply_arrives:
  assumes root: "wv root = []" and valid: "bvalid (BString (Error_message e))" and name: "Error_name e = Some n"
    and sent: "ErrorFactory_Error_reply L root req e = ret om" and a: "arrives wv rv om msg"
  shows "\<exists>e' it. ErrorFactory_Error_init L junk err msg = ret (e', it) \<and> rv it = [] \<and> im_type msg = ErrorReply \<and>
    Error_name e' = Some n \<and> Error_message e' = Error_message e \<and> err_serial e' = im_serial req"
proof -
  have m: "make_reply_for e None = (Some n, Error_message e)"
    by (simp add: make_reply_for_def name)
  have "rv (im_body msg) = [Basic (BString (Error_message e))]" "im_error_name msg = Some n"
    "im_reply_serial msg = im_serial req" "im_type msg = ErrorReply"
    using a sent new_error_vals [OF root valid] by (auto simp: arrives_def ErrorFactory_Error_reply_def m)
  with Error_init_vals [of msg _ "[]" n junk err] error_name_nul_free [OF name] show ?thesis
    by (simp add: c_str_id)
qed

text \<open>The same for an exception class with members.\<close>

lemma exception_reply_arrives:
  assumes c: "codec L bvalid wk wv rv c ok cv" and x: "ok x"
    and root: "wv root = []" and valid: "bvalid (BString (Error_message e))"
    and sent: "ErrorFactory_reply L root cls c req e (Some x) = ret om" and a: "arrives wv rv om msg"
    and n: "om_error_name om = Some n" "nul_free n"
  shows "\<exists>e'. ErrorFactory_init L junk c m0 err msg = ret (e', x) \<and> im_type msg = ErrorReply \<and>
    Error_name e' = Some n \<and> Error_message e' = Error_message e \<and> err_serial e' = im_serial req"
proof -
  obtain name where om: "om = (new_error L root req name (Error_message e))
      \<lparr>om_body := enc c (om_body (new_error L root req name (Error_message e))) x\<rparr>"
    using sent by (auto simp: ErrorFactory_reply_def make_reply_for_def Let_def split: option.splits if_splits)
  have body: "rv (im_body msg) = Basic (BString (Error_message e)) # [cv x]"
    using a codec.enc_vals [OF c x] new_error_vals [OF root valid] by (simp add: arrives_def om)
  have fields: "im_error_name msg = Some n" "im_reply_serial msg = im_serial req" "im_type msg = ErrorReply"
    using a n by (simp_all add: arrives_def om)
  obtain e' it where it: "ErrorFactory_Error_init L junk err msg = ret (e', it)" "rv it = [cv x]"
    "Error_name e' = Some n" "Error_message e' = Error_message e" "err_serial e' = im_serial req"
    using Error_init_vals [OF body _ fields(1), of junk err] fields(2) n(2) by (auto simp: c_str_id)
  moreover have "get_arg_type L it \<noteq> DBUS_TYPE_INVALID"
    using arg_type_val [OF it(2)] codec.cv_valid [OF c x] by simp
  moreover obtain it' where "dec c it = ret (x, it')"
    using codec.dec_vals [OF c x it(2)] by blast
  ultimately show ?thesis using fields by (simp add: ErrorFactory_init_def)
qed

text \<open>An error reply without a text argument makes \<open>init\<close> throw another exception.\<close>

lemma Error_init_no_text:
  assumes "rv (im_body msg) = []"
  shows "ErrorFactory_Error_init L junk err msg = throw DecoderError"
  using assms
  by (simp add: ErrorFactory_Error_init_def StringCodec_decode_def simppl_dbus_message_iter_get_basic_def
      arg_type_end)

end

lemma CallState_msg_ok:
  "im_type msg \<noteq> ErrorReply \<Longrightarrow> \<exists>cs. CallState_msg init msg = ret cs \<and> call_ok cs \<and> call_serial cs = im_reply_serial msg"
  by (simp add: CallState_msg_def call_ok_def call_serial_def)

lemma CallState_msg_error:
  "im_type msg = ErrorReply \<Longrightarrow> init msg = ret (e, m) \<Longrightarrow>
     \<exists>cs. CallState_msg init msg = ret cs \<and> \<not> call_ok cs \<and> cs_ex cs = Some (e, m) \<and> call_serial cs = err_serial e"
  by (simp add: CallState_msg_def call_ok_def call_serial_def)

end
