(* ===== verification/ServerState.thy ===== *)
theory ServerState
  imports Bus Variants CallStates
begin

text \<open>
  The server side's objects (\<open>include/simppl/skeletonbase.h\<close>, \<open>serverside.h\<close>,
  \<open>src/serverside.cpp\<close>, \<open>src/serverrequestdescriptor.cpp\<close>): a skeleton with its interfaces and,
  per interface, the intrusive lists of its methods, properties and signals; the request being
  handled; the values of properties.
\<close>

section \<open>Objects\<close>

text \<open>\<open>ServerRequestDescriptor\<close>; null pointers are \<open>None\<close>.\<close>

record 'r request_desc =
  requestor :: "nat option"
  rd_msg :: "'r in_msg option"

text \<open>
  \<open>ServerMethodBase\<close>: \<open>sm_args\<close> decodes the argument tuple, \<open>sm_cb\<close> says whether the callback
  \<open>f_\<close> is set, \<open>sm_throw\<close> is \<open>throw_\<close>, \<open>sm_xml\<close> what \<open>introspect_args\<close> writes.
\<close>

record ('w, 'r, 'v) server_method =
  sm_name :: string
  sm_next :: "nat option"
  sm_args :: "'r \<Rightarrow> ('v list \<times> 'r) res"
  sm_cb :: bool
  sm_throw :: "'r in_msg \<Rightarrow> error_obj \<Rightarrow> 'w out_msg res"
  sm_xml :: string

text \<open>The \<open>std::variant<DataT, cb_type>\<close> of a property.\<close>

datatype 'v prop_store = Holds 'v | OnRead

text \<open>\<open>ServerProperty<DataT, Flags>\<close> with its flags \<open>ReadWrite\<close>, \<open>Notifying\<close>, \<open>Always\<close>.\<close>

record ('w, 'r, 'v) server_property =
  sp_name :: string
  sp_next :: "nat option"
  sp_iface_id :: nat
  sp_codec :: "('w, 'r, 'v) codec"
  sp_store :: "'v prop_store"
  sp_rw :: bool
  sp_notifying :: bool
  sp_always :: bool
  sp_set_cb :: bool

record server_signal =
  ss_name :: string
  ss_next :: "nat option"
  ss_iface_id :: nat
  ss_xml :: string

text \<open>\<open>user\<close> is the state of the program that the callbacks belong to.\<close>

record ('b, 'w, 'r, 'v, 'u) server =
  sconn :: 'b
  sk_ifaces :: "string list"
  sk_busname :: string
  sk_objectpath :: string
  sk_disp :: bool
  current_request :: "'r request_desc"
  method_heads :: "nat option list"
  property_heads :: "nat option list"
  signal_heads :: "nat option list"
  method_at :: "nat \<Rightarrow> ('w, 'r, 'v) server_method"
  sprop_at :: "nat \<Rightarrow> ('w, 'r, 'v) server_property"
  ssig_at :: "nat \<Rightarrow> server_signal"
  user :: 'u

text \<open>
  What the program and a derived class supply: the callbacks of methods and properties, and
  \<open>handle_objectmanager_request\<close>, which is virtual.
\<close>

record ('x, 'r, 'v) server_code =
  method_cb :: "nat \<Rightarrow> 'v list \<Rightarrow> ('x, unit) prog"
  read_cb :: "nat \<Rightarrow> ('x, 'v) prog"
  set_cb :: "nat \<Rightarrow> 'v \<Rightarrow> ('x, unit) prog"
  objectmanager_request :: "'r in_msg \<Rightarrow> ('x, handler_result) prog"

section \<open>ServerRequestDescriptor\<close>

definition descriptor_new :: "'r request_desc" where
  "descriptor_new = \<lparr>requestor = None, rd_msg = None\<rparr>"

text \<open>The move constructor: the new descriptor and what is left of \<open>rhs\<close>.\<close>

definition descriptor_move :: "'r request_desc \<Rightarrow> 'r request_desc \<times> 'r request_desc" where
  "descriptor_move rhs =
     (\<lparr>requestor = requestor rhs, rd_msg = rd_msg rhs\<rparr>, rhs\<lparr>requestor := None, rd_msg := None\<rparr>)"

definition descriptor_clear :: "'r request_desc \<Rightarrow> 'r request_desc" where
  "descriptor_clear d = d\<lparr>requestor := None, rd_msg := None\<rparr>"

definition descriptor_set :: "nat option \<Rightarrow> 'r in_msg option \<Rightarrow> 'r request_desc \<Rightarrow> 'r request_desc" where
  "descriptor_set m msg d = (descriptor_clear d)\<lparr>requestor := m, rd_msg := msg\<rparr>"

definition descriptor_valid :: "'r request_desc \<Rightarrow> bool" where
  "descriptor_valid d \<longleftrightarrow> requestor d \<noteq> None"

section \<open>Constructors\<close>

text \<open>\<open>SkeletonBase::SkeletonBase(iface_count)\<close> on fresh storage.\<close>

definition SkeletonBase_new :: "nat \<Rightarrow> ('b, 'w, 'r, 'v, 'u) server \<Rightarrow> ('b, 'w, 'r, 'v, 'u) server" where
  "SkeletonBase_new iface_count w = w\<lparr>sk_ifaces := replicate iface_count [], sk_busname := [], sk_objectpath := [],
     sk_disp := False, current_request := descriptor_new,
     method_heads := replicate iface_count None, property_heads := replicate iface_count None,
     signal_heads := replicate iface_count None\<rparr>"

text \<open>The constructors of methods, properties and signals push themselves in front of their list.\<close>

definition ServerMethodBase_new :: "nat \<Rightarrow> string \<Rightarrow> nat \<Rightarrow> ('b, 'w, 'r, 'v, 'u) server \<Rightarrow> ('b, 'w, 'r, 'v, 'u) server" where
  "ServerMethodBase_new m name iface_id w =
     w\<lparr>method_at := (method_at w)(m := method_at w m\<lparr>sm_name := name, sm_next := method_heads w ! iface_id\<rparr>),
       method_heads := (method_heads w)[iface_id := Some m]\<rparr>"

definition ServerPropertyBase_new :: "nat \<Rightarrow> string \<Rightarrow> nat \<Rightarrow> ('b, 'w, 'r, 'v, 'u) server \<Rightarrow> ('b, 'w, 'r, 'v, 'u) server" where
  "ServerPropertyBase_new p name iface_id w =
     w\<lparr>sprop_at := (sprop_at w)(p := sprop_at w p
         \<lparr>sp_name := name, sp_iface_id := iface_id, sp_next := property_heads w ! iface_id\<rparr>),
       property_heads := (property_heads w)[iface_id := Some p]\<rparr>"

definition ServerSignalBase_new :: "nat \<Rightarrow> string \<Rightarrow> nat \<Rightarrow> ('b, 'w, 'r, 'v, 'u) server \<Rightarrow> ('b, 'w, 'r, 'v, 'u) server" where
  "ServerSignalBase_new g name iface_id w =
     w\<lparr>ssig_at := (ssig_at w)(g := ssig_at w g
         \<lparr>ss_name := name, ss_iface_id := iface_id, ss_next := signal_heads w ! iface_id\<rparr>),
       signal_heads := (signal_heads w)[iface_id := Some g]\<rparr>"

section \<open>Lookup\<close>

text \<open>\<open>iface(iface_id)\<close>: the names are stored in the reverse order of the ids.\<close>

definition iface_of :: "string list \<Rightarrow> nat \<Rightarrow> string option" where
  "iface_of ifs iface_id = (if iface_id < length ifs then Some (ifs ! (length ifs - iface_id - 1)) else None)"

definition invalid_iface_id :: int where
  "invalid_iface_id = - 1"

fun find_interface_loop :: "nat \<Rightarrow> nat \<Rightarrow> string list \<Rightarrow> string \<Rightarrow> int" where
  "find_interface_loop n i [] name = invalid_iface_id"
| "find_interface_loop n i (x # xs) name =
     (if c_str x = name then int n - int i - 1 else find_interface_loop n (Suc i) xs name)"

definition find_interface :: "string list \<Rightarrow> string \<Rightarrow> int" where
  "find_interface ifs name = find_interface_loop (length ifs) 0 ifs (c_str name)"

text \<open>The loops of \<open>find_method\<close> and \<open>find_property\<close>.\<close>

partial_function (option) find_named ::
  "(nat \<Rightarrow> string) \<Rightarrow> (nat \<Rightarrow> nat option) \<Rightarrow> nat option \<Rightarrow> string \<Rightarrow> nat option option" where
  "find_named nm nxt pp name =
     (case pp of None \<Rightarrow> Some None
      | Some q \<Rightarrow> if c_str (nm q) = name then Some (Some q) else find_named nm nxt (nxt q) name)"

text \<open>An element of a vector; out of range is undefined.\<close>

definition head_at :: "nat option list \<Rightarrow> int \<Rightarrow> nat option res" where
  "head_at hs iface_id =
     (if 0 \<le> iface_id \<and> nat iface_id < length hs then ret (hs ! nat iface_id) else throw UndefinedBehaviour)"

definition find_method :: "('b, 'w, 'r, 'v, 'u) server \<Rightarrow> int \<Rightarrow> string \<Rightarrow> nat option res" where
  "find_method w iface_id name =
     rbind (head_at (method_heads w) iface_id) (\<lambda>pm.
       map_option Inr (find_named (\<lambda>m. sm_name (method_at w m)) (\<lambda>m. sm_next (method_at w m)) pm (c_str name)))"

definition find_sproperty :: "('b, 'w, 'r, 'v, 'u) server \<Rightarrow> int \<Rightarrow> string \<Rightarrow> nat option res" where
  "find_sproperty w iface_id name =
     rbind (head_at (property_heads w) iface_id) (\<lambda>pp.
       map_option Inr (find_named (\<lambda>p. sp_name (sprop_at w p)) (\<lambda>p. sp_next (sprop_at w p)) pp (c_str name)))"

definition has_any_properties :: "('b, 'w, 'r, 'v, 'u) server \<Rightarrow> bool" where
  "has_any_properties w \<longleftrightarrow> list_ex (\<lambda>p. p \<noteq> None) (property_heads w)"

section \<open>Sending\<close>

definition server_send ::
  "('b, 'w, 'r) dbus_conn_api \<Rightarrow> 'w out_msg \<Rightarrow> (('b, 'w, 'r, 'v, 'u) server, unit) prog" where
  "server_send K msg w =
     (if sk_disp w then preturn () (w\<lparr>sconn := connection_send K (sconn w) msg\<rparr>)
      else pthrow UndefinedBehaviour w)"

text \<open>\<open>send_signal\<close>, \<open>send_property_invalidate\<close> and \<open>send_property_change\<close>.\<close>

definition send_signal ::
  "('b, 'w, 'r) dbus_conn_api \<Rightarrow> string \<Rightarrow> nat \<Rightarrow> ('w \<Rightarrow> 'w) \<Rightarrow> (('b, 'w, 'r, 'v, 'u) server, unit) prog" where
  "send_signal K signame iface_id f w =
     (case iface_of (sk_ifaces w) iface_id of
        None \<Rightarrow> pthrow UndefinedBehaviour w
      | Some i \<Rightarrow>
          server_send K (message_new_signal (c_str (sk_objectpath w)) (c_str i) signame (f (message_iter K))) w)"

definition properties_changed ::
  "('b, 'w, 'r) dbus_conn_api \<Rightarrow> 'w \<Rightarrow> (('b, 'w, 'r, 'v, 'u) server, unit) prog" where
  "properties_changed K body w =
     server_send K (message_new_signal (c_str (sk_objectpath w)) ''org.freedesktop.DBus.Properties''
        ''PropertiesChanged'' body) w"

text \<open>The empty dictionary of an invalidation is a \<open>std::map<int, int>\<close>.\<close>

definition invalidate_body :: "('w, 'r) dbus_iter_api \<Rightarrow> 'w \<Rightarrow> string \<Rightarrow> string \<Rightarrow> 'w" where
  "invalidate_body L root i prop =
     (let iter = StringCodec_encode L root i;
          map_iter = open_container L iter DBUS_TYPE_ARRAY (Some ''{ii}'');
          iter = close_container L iter map_iter;
          inv_iter = open_container L iter DBUS_TYPE_ARRAY (Some ''s'');
          inv_iter = StringCodec_encode L inv_iter prop
      in close_container L iter inv_iter)"

definition change_body :: "('w, 'r) dbus_iter_api \<Rightarrow> 'w \<Rightarrow> string \<Rightarrow> string \<Rightarrow> ('w \<Rightarrow> 'w) \<Rightarrow> 'w" where
  "change_body L root i prop f =
     (let iter = StringCodec_encode L root i;
          vec_iter = open_container L iter DBUS_TYPE_ARRAY (Some ''{sv}'');
          item_iterator = open_container L vec_iter DBUS_TYPE_DICT_ENTRY None;
          item_iterator = StringCodec_encode L item_iterator prop;
          item_iterator = f item_iterator;
          vec_iter = close_container L vec_iter item_iterator;
          iter = close_container L iter vec_iter
      in vector_encode L (string_codec L) iter [])"

definition send_property_invalidate ::
  "('w, 'r) dbus_iter_api \<Rightarrow> ('b, 'w, 'r) dbus_conn_api \<Rightarrow> string \<Rightarrow> nat \<Rightarrow> (('b, 'w, 'r, 'v, 'u) server, unit) prog" where
  "send_property_invalidate L K prop iface_id w =
     (case iface_of (sk_ifaces w) iface_id of
        None \<Rightarrow> pthrow UndefinedBehaviour w
      | Some i \<Rightarrow> properties_changed K (invalidate_body L (message_iter K) i prop) w)"

definition send_property_change ::
  "('w, 'r) dbus_iter_api \<Rightarrow> ('b, 'w, 'r) dbus_conn_api \<Rightarrow> string \<Rightarrow> nat \<Rightarrow> ('w \<Rightarrow> 'w)
     \<Rightarrow> (('b, 'w, 'r, 'v, 'u) server, unit) prog" where
  "send_property_change L K prop iface_id f w =
     (case iface_of (sk_ifaces w) iface_id of
        None \<Rightarrow> pthrow UndefinedBehaviour w
      | Some i \<Rightarrow> properties_changed K (change_body L (message_iter K) i prop f) w)"

section \<open>Property values\<close>

definition set_store :: "nat \<Rightarrow> 'v prop_store \<Rightarrow> ('b, 'w, 'r, 'v, 'u) server \<Rightarrow> ('b, 'w, 'r, 'v, 'u) server" where
  "set_store p x w = w\<lparr>sprop_at := (sprop_at w)(p := sprop_at w p\<lparr>sp_store := x\<rparr>)\<rparr>"

text \<open>\<open>BaseProperty::__eval\<close>, given the iterator to append to.\<close>

definition sproperty_eval ::
  "('w, 'r) dbus_iter_api \<Rightarrow> (('b, 'w, 'r, 'v, 'u) server, 'r, 'v) server_code \<Rightarrow> nat \<Rightarrow> 'w
     \<Rightarrow> (('b, 'w, 'r, 'v, 'u) server, 'w) prog" where
  "sproperty_eval L U p iter w =
     pbind (case sp_store (sprop_at w p) of OnRead \<Rightarrow> read_cb U p | Holds d \<Rightarrow> preturn d) (\<lambda>d w.
       preturn (PropertyCodec_encode L (sp_codec (sprop_at w p)) iter d) w) w"

text \<open>\<open>notify\<close>, \<open>invalidate\<close>, \<open>on_read\<close>.\<close>

definition sproperty_notify ::
  "('w, 'r) dbus_iter_api \<Rightarrow> ('b, 'w, 'r) dbus_conn_api \<Rightarrow> nat \<Rightarrow> 'v \<Rightarrow> (('b, 'w, 'r, 'v, 'u) server, unit) prog" where
  "sproperty_notify L K p d w =
     (let sp = sprop_at w p in
      send_property_change L K (sp_name sp) (sp_iface_id sp)
        (\<lambda>iter. PropertyCodec_encode L (sp_codec sp) iter d) w)"

definition sproperty_invalidate ::
  "('w, 'r) dbus_iter_api \<Rightarrow> ('b, 'w, 'r) dbus_conn_api \<Rightarrow> nat \<Rightarrow> (('b, 'w, 'r, 'v, 'u) server, unit) prog" where
  "sproperty_invalidate L K p w =
     send_property_invalidate L K (sp_name (sprop_at w p)) (sp_iface_id (sprop_at w p)) w"

definition on_read :: "nat \<Rightarrow> ('b, 'w, 'r, 'v, 'u) server \<Rightarrow> ('b, 'w, 'r, 'v, 'u) server" where
  "on_read p w = set_store p OnRead w"

text \<open>\<open>PropertyComparator::compare\<close>, \<open>value()\<close> and \<open>Assigner::eval\<close>.\<close>

definition PropertyComparator_compare :: "bool \<Rightarrow> 'v \<Rightarrow> 'v \<Rightarrow> bool" where
  "PropertyComparator_compare do_compare t1 t2 \<longleftrightarrow> (if do_compare then t1 \<noteq> t2 else True)"

definition sproperty_value :: "('w, 'r, 'v) server_property \<Rightarrow> 'v res" where
  "sproperty_value sp = (case sp_store sp of Holds d \<Rightarrow> ret d | OnRead \<Rightarrow> throw BadVariantAccess)"

definition Assigner_eval ::
  "('w, 'r) dbus_iter_api \<Rightarrow> ('b, 'w, 'r) dbus_conn_api \<Rightarrow> nat \<Rightarrow> 'v \<Rightarrow> (('b, 'w, 'r, 'v, 'u) server, unit) prog" where
  "Assigner_eval L K p d w =
     (if sp_notifying (sprop_at w p) then
        pbind (plift (sproperty_value (sprop_at w p))) (\<lambda>old w.
          if PropertyComparator_compare (\<not> sp_always (sprop_at w p)) old d
          then pbind (pmodify (set_store p (Holds d))) (\<lambda>_. sproperty_notify L K p d) w
          else preturn () w) w
      else pmodify (set_store p (Holds d)) w)"

text \<open>
  \<open>ServerProperty::operator=\<close>. The test for \<open>std::variant_npos\<close> is never true: a
  default-constructed variant holds its first alternative.
\<close>

definition sproperty_assign ::
  "('w, 'r) dbus_iter_api \<Rightarrow> ('b, 'w, 'r) dbus_conn_api \<Rightarrow> nat \<Rightarrow> 'v \<Rightarrow> (('b, 'w, 'r, 'v, 'u) server, unit) prog" where
  "sproperty_assign L K p d w = Assigner_eval L K p d w"

text \<open>
  \<open>evalSet\<close>. Only the constructor of a \<open>ReadWrite\<close> property sets the function pointer
  \<open>eval_set_\<close>; the others call an uninitialized pointer.
\<close>

definition sproperty_eval_set ::
  "('w, 'r) dbus_iter_api \<Rightarrow> ('b, 'w, 'r) dbus_conn_api \<Rightarrow> (('b, 'w, 'r, 'v, 'u) server, 'r, 'v) server_code
     \<Rightarrow> nat \<Rightarrow> 'r \<Rightarrow> (('b, 'w, 'r, 'v, 'u) server, unit) prog" where
  "sproperty_eval_set L K U p iter w =
     (if \<not> sp_rw (sprop_at w p) then pthrow UndefinedBehaviour w
      else pbind (plift (PropertyCodec_decode L (sp_codec (sprop_at w p)) iter)) (\<lambda>(t, iter) w.
        if sp_set_cb (sprop_at w p) then set_cb U p t w
        else sproperty_assign L K p t w) w)"

end
