(* ===== verification/Skeleton.thy ===== *)
theory Skeleton
  imports ServerState
begin

text \<open>
  \<open>simppl::dbus::SkeletonBase\<close> (\<open>src/skeletonbase.cpp\<close>): how a skeleton handles the requests that
  arrive at its object path, and the ways a method's callback may answer.
\<close>

section \<open>Responses\<close>

text \<open>\<open>ServerResponseHolder\<close>: the serializer of the arguments, an \<open>std::function\<close>.\<close>

type_synonym 'w response = "('w \<Rightarrow> 'w) option"

definition response_msg :: "('b, 'w, 'r) dbus_conn_api \<Rightarrow> 'r in_msg \<Rightarrow> 'w response \<Rightarrow> 'w out_msg" where
  "response_msg K req f =
     message_new_method_return req (case f of Some g \<Rightarrow> g (message_iter K) | None \<Rightarrow> message_iter K)"

definition defer_response :: "(('b, 'w, 'r, 'v, 'u) server, 'r request_desc) prog" where
  "defer_response w =
     (if \<not> descriptor_valid (current_request w) then pthrow UndefinedBehaviour w
      else case descriptor_move (current_request w) of (d, rest) \<Rightarrow>
        preturn d (w\<lparr>current_request := rest\<rparr>))"

text \<open>The two forms of \<open>respond_on\<close> return what they leave in the descriptor.\<close>

definition respond_on ::
  "('b, 'w, 'r) dbus_conn_api \<Rightarrow> 'r request_desc \<Rightarrow> 'w response \<Rightarrow> (('b, 'w, 'r, 'v, 'u) server, 'r request_desc) prog" where
  "respond_on K req response w =
     (case (requestor req, rd_msg req) of
        (Some m, Some msg) \<Rightarrow>
          pbind (server_send K (response_msg K msg response)) (\<lambda>_. preturn (descriptor_clear req)) w
      | _ \<Rightarrow> pthrow UndefinedBehaviour w)"

definition respond_on_error ::
  "('b, 'w, 'r) dbus_conn_api \<Rightarrow> 'r request_desc \<Rightarrow> error_obj \<Rightarrow> (('b, 'w, 'r, 'v, 'u) server, 'r request_desc) prog" where
  "respond_on_error K req err w =
     (case (requestor req, rd_msg req) of
        (Some m, Some msg) \<Rightarrow>
          pbind (plift (sm_throw (method_at w m) msg err)) (\<lambda>rmsg.
          pbind (server_send K rmsg) (\<lambda>_. preturn (descriptor_clear req))) w
      | _ \<Rightarrow> pthrow UndefinedBehaviour w)"

definition respond_with ::
  "('b, 'w, 'r) dbus_conn_api \<Rightarrow> 'w response \<Rightarrow> (('b, 'w, 'r, 'v, 'u) server, unit) prog" where
  "respond_with K response w =
     (case (requestor (current_request w), rd_msg (current_request w)) of
        (Some m, Some msg) \<Rightarrow>
          pbind (server_send K (response_msg K msg response)) (\<lambda>_.
          pmodify (\<lambda>w. w\<lparr>current_request := descriptor_clear (current_request w)\<rparr>)) w
      | _ \<Rightarrow> pthrow UndefinedBehaviour w)"

definition respond_with_error ::
  "('b, 'w, 'r) dbus_conn_api \<Rightarrow> error_obj \<Rightarrow> (('b, 'w, 'r, 'v, 'u) server, unit) prog" where
  "respond_with_error K err w =
     (case (requestor (current_request w), rd_msg (current_request w)) of
        (Some m, Some msg) \<Rightarrow>
          pbind (plift (sm_throw (method_at w m) msg err)) (\<lambda>rmsg.
          pbind (server_send K rmsg) (\<lambda>_.
          pmodify (\<lambda>w. w\<lparr>current_request := descriptor_clear (current_request w)\<rparr>))) w
      | _ \<Rightarrow> pthrow UndefinedBehaviour w)"

section \<open>Error replies\<close>

definition DBUS_ERROR_INVALID_ARGS :: string where
  "DBUS_ERROR_INVALID_ARGS = ''org.freedesktop.DBus.Error.InvalidArgs''"

definition DBUS_ERROR_UNKNOWN_INTERFACE :: string where
  "DBUS_ERROR_UNKNOWN_INTERFACE = ''org.freedesktop.DBus.Error.UnknownInterface''"

definition DBUS_ERROR_UNKNOWN_METHOD :: string where
  "DBUS_ERROR_UNKNOWN_METHOD = ''org.freedesktop.DBus.Error.UnknownMethod''"

definition DBUS_ERROR_UNKNOWN_PROPERTY :: string where
  "DBUS_ERROR_UNKNOWN_PROPERTY = ''org.freedesktop.DBus.Error.UnknownProperty''"

text \<open>\<open>Error err(name); ErrorFactory<Error>::reply(*msg, err)\<close>\<close>

definition named_error_reply ::
  "('w, 'r) dbus_iter_api \<Rightarrow> ('b, 'w, 'r) dbus_conn_api \<Rightarrow> (nat \<Rightarrow> char) \<Rightarrow> 'r in_msg \<Rightarrow> string \<Rightarrow> 'w out_msg res" where
  "named_error_reply L K junk msg name =
     (case Error_new junk name None SIMPPL_INVALID_SERIAL of
        None \<Rightarrow> throw UndefinedBehaviour
      | Some err \<Rightarrow> ErrorFactory_Error_reply L (message_iter K) msg err)"

definition handle_error ::
  "('w, 'r) dbus_iter_api \<Rightarrow> ('b, 'w, 'r) dbus_conn_api \<Rightarrow> (nat \<Rightarrow> char) \<Rightarrow> 'r in_msg \<Rightarrow> string
     \<Rightarrow> (('b, 'w, 'r, 'v, 'u) server, handler_result) prog" where
  "handle_error L K junk msg dbus_error =
     pbind (plift (named_error_reply L K junk msg dbus_error)) (\<lambda>r.
     pbind (server_send K r) (\<lambda>_. preturn Handled))"

text \<open>\<open>catch (const Error&)\<close> and \<open>catch (...)\<close>; undefined behaviour is not caught.\<close>

definition exception_reply ::
  "('w, 'r) dbus_iter_api \<Rightarrow> ('b, 'w, 'r) dbus_conn_api \<Rightarrow> (nat \<Rightarrow> char) \<Rightarrow> 'r in_msg \<Rightarrow> exn \<Rightarrow> 'w out_msg res" where
  "exception_reply L K junk msg e =
     (case e of
        UndefinedBehaviour \<Rightarrow> throw UndefinedBehaviour
      | ErrorExn err \<Rightarrow> ErrorFactory_Error_reply L (message_iter K) msg err
      | _ \<Rightarrow> named_error_reply L K junk msg ''simppl.dbus.UnhandledException'')"

section \<open>Methods\<close>

text \<open>\<open>ServerMethod::__eval\<close>: an empty \<open>std::function\<close> throws \<open>bad_function_call\<close>.\<close>

definition smethod_eval ::
  "(('b, 'w, 'r, 'v, 'u) server, 'r, 'v) server_code \<Rightarrow> nat \<Rightarrow> 'r in_msg \<Rightarrow> (('b, 'w, 'r, 'v, 'u) server, unit) prog" where
  "smethod_eval U m msg w =
     pbind (plift (sm_args (method_at w m) (im_body msg))) (\<lambda>(args, iter) w.
       if sm_cb (method_at w m) then method_cb U m args w else pthrow BadFunctionCall w) w"

definition handle_interface_request ::
  "('w, 'r) dbus_iter_api \<Rightarrow> ('b, 'w, 'r) dbus_conn_api \<Rightarrow> (nat \<Rightarrow> char)
     \<Rightarrow> (('b, 'w, 'r, 'v, 'u) server, 'r, 'v) server_code \<Rightarrow> 'r in_msg \<Rightarrow> nat
     \<Rightarrow> (('b, 'w, 'r, 'v, 'u) server, handler_result) prog" where
  "handle_interface_request L K junk U msg m w =
     pbind (pmodify (\<lambda>w. w\<lparr>current_request := descriptor_set (Some m) (Some msg) (current_request w)\<rparr>)) (\<lambda>_.
     pbind (pcatch (smethod_eval U m msg) (\<lambda>e.
       case e of
         UndefinedBehaviour \<Rightarrow> pthrow UndefinedBehaviour
       | DecoderError \<Rightarrow> pbind (plift (named_error_reply L K junk msg DBUS_ERROR_INVALID_ARGS)) (server_send K)
       | _ \<Rightarrow> pbind (plift (named_error_reply L K junk msg ''simppl.dbus.UnhandledException'')) (server_send K)))
       (\<lambda>_. pbind (pmodify (\<lambda>w. if descriptor_valid (current_request w)
                               then w\<lparr>current_request := descriptor_clear (current_request w)\<rparr> else w))
       (\<lambda>_. preturn Handled))) w"

section \<open>Properties\<close>

text \<open>The entries of \<open>GetAll\<close>; nothing is caught here.\<close>

partial_function (option) getall_entries ::
  "('w, 'r) dbus_iter_api \<Rightarrow> (('b, 'w, 'r, 'v, 'u) server, 'r, 'v) server_code \<Rightarrow> nat option \<Rightarrow> 'w
     \<Rightarrow> ('b, 'w, 'r, 'v, 'u) server \<Rightarrow> ((exn + 'w) \<times> ('b, 'w, 'r, 'v, 'u) server) option" where
  "getall_entries L U pp iter w =
     (case pp of None \<Rightarrow> preturn iter w
      | Some p \<Rightarrow>
          pbind (sproperty_eval L U p (StringCodec_encode L (open_container L iter DBUS_TYPE_DICT_ENTRY None)
                                         (sp_name (sprop_at w p)))) (\<lambda>item w.
            getall_entries L U (sp_next (sprop_at w p)) (close_container L iter item) w) w)"

definition handle_property_getall_request ::
  "('w, 'r) dbus_iter_api \<Rightarrow> ('b, 'w, 'r) dbus_conn_api \<Rightarrow> (('b, 'w, 'r, 'v, 'u) server, 'r, 'v) server_code
     \<Rightarrow> 'r in_msg \<Rightarrow> int \<Rightarrow> (('b, 'w, 'r, 'v, 'u) server, handler_result) prog" where
  "handle_property_getall_request L K U msg iface_id w =
     (let iter = message_iter K;
          arr = open_container L iter DBUS_TYPE_ARRAY (Some ''{sv}'') in
      pbind (plift (head_at (property_heads w) iface_id)) (\<lambda>pp.
      pbind (getall_entries L U pp arr) (\<lambda>arr.
      pbind (server_send K (message_new_method_return msg (close_container L iter arr))) (\<lambda>_.
      preturn Handled))) w)"

definition handle_property_get_request ::
  "('w, 'r) dbus_iter_api \<Rightarrow> ('b, 'w, 'r) dbus_conn_api \<Rightarrow> (nat \<Rightarrow> char)
     \<Rightarrow> (('b, 'w, 'r, 'v, 'u) server, 'r, 'v) server_code \<Rightarrow> 'r in_msg \<Rightarrow> nat
     \<Rightarrow> (('b, 'w, 'r, 'v, 'u) server, handler_result) prog" where
  "handle_property_get_request L K junk U msg p =
     pbind (pcatch (pbind (sproperty_eval L U p (message_iter K)) (\<lambda>iter. preturn (message_new_method_return msg iter)))
              (\<lambda>e. plift (exception_reply L K junk msg e))) (\<lambda>response.
     pbind (server_send K response) (\<lambda>_. preturn Handled))"

definition handle_property_set_request ::
  "('w, 'r) dbus_iter_api \<Rightarrow> ('b, 'w, 'r) dbus_conn_api \<Rightarrow> (nat \<Rightarrow> char)
     \<Rightarrow> (('b, 'w, 'r, 'v, 'u) server, 'r, 'v) server_code \<Rightarrow> 'r in_msg \<Rightarrow> nat \<Rightarrow> 'r
     \<Rightarrow> (('b, 'w, 'r, 'v, 'u) server, handler_result) prog" where
  "handle_property_set_request L K junk U msg p iter =
     pbind (pcatch (pbind (sproperty_eval_set L K U p iter) (\<lambda>_.
                      preturn (message_new_method_return msg (message_iter K))))
              (\<lambda>e. plift (exception_reply L K junk msg e))) (\<lambda>response.
     pbind (server_send K response) (\<lambda>_. preturn Handled))"

definition handle_property_request ::
  "('w, 'r) dbus_iter_api \<Rightarrow> ('b, 'w, 'r) dbus_conn_api \<Rightarrow> (nat \<Rightarrow> char)
     \<Rightarrow> (('b, 'w, 'r, 'v, 'u) server, 'r, 'v) server_code \<Rightarrow> 'r in_msg
     \<Rightarrow> (('b, 'w, 'r, 'v, 'u) server, handler_result) prog" where
  "handle_property_request L K junk U msg w =
     (case im_member msg of
        None \<Rightarrow> pthrow UndefinedBehaviour w
      | Some method \<Rightarrow>
          (case StringCodec_decode L (im_body msg) of
             None \<Rightarrow> None
           | Some (Inl e) \<Rightarrow> (if e = DecoderError then handle_error L K junk msg DBUS_ERROR_INVALID_ARGS w else pthrow e w)
           | Some (Inr (interface_name, iter)) \<Rightarrow>
               let iface_id = find_interface (sk_ifaces w) interface_name in
               if iface_id = invalid_iface_id then handle_error L K junk msg DBUS_ERROR_UNKNOWN_INTERFACE w
               else if c_str method = ''GetAll'' then handle_property_getall_request L K U msg iface_id w
               else
                 (case StringCodec_decode L iter of
                    None \<Rightarrow> None
                  | Some (Inl e) \<Rightarrow>
                      (if e = DecoderError then handle_error L K junk msg DBUS_ERROR_INVALID_ARGS w else pthrow e w)
                  | Some (Inr (property_name, iter)) \<Rightarrow>
                      pbind (plift (find_sproperty w iface_id property_name)) (\<lambda>found.
                        case found of
                          None \<Rightarrow> handle_error L K junk msg DBUS_ERROR_UNKNOWN_PROPERTY
                        | Some p \<Rightarrow>
                            if c_str method = ''Get'' then handle_property_get_request L K junk U msg p
                            else if c_str method = ''Set'' then handle_property_set_request L K junk U msg p iter
                            else handle_error L K junk msg DBUS_ERROR_UNKNOWN_METHOD) w)))"

section \<open>Introspection\<close>

definition dquoted :: "string \<Rightarrow> string" where
  "dquoted s = CHR 0x22 # s @ [CHR 0x22]"

definition line :: "string \<Rightarrow> string" where
  "line s = s @ [CHR 0x0A]"

definition xml_arg :: "string \<Rightarrow> string \<Rightarrow> string option \<Rightarrow> string" where
  "xml_arg name ty direction = line (''      <arg name='' @ dquoted name @ '' type='' @ dquoted ty
     @ (case direction of Some d \<Rightarrow> '' direction='' @ dquoted d | None \<Rightarrow> []) @ ''/>'')"

definition method_xml :: "string \<Rightarrow> string \<Rightarrow> string" where
  "method_xml name args = ''    <method name='' @ dquoted name @ ''>'' @ args @ line ''    </method>''"

definition signal_xml :: "string \<Rightarrow> string \<Rightarrow> string" where
  "signal_xml name args = ''    <signal name='' @ dquoted name @ ''>'' @ args @ line ''    </signal>''"

definition property_xml :: "string \<Rightarrow> string \<Rightarrow> bool \<Rightarrow> string" where
  "property_xml name ty rw = line (''    <property name='' @ dquoted name @ '' type='' @ dquoted ty
     @ '' access='' @ dquoted (if rw then ''readwrite'' else ''read'') @ ''/>'')"

text \<open>One of the three loops of \<open>introspect_interface\<close>.\<close>

partial_function (option) introspect_list ::
  "(nat \<Rightarrow> string) \<Rightarrow> (nat \<Rightarrow> nat option) \<Rightarrow> nat option \<Rightarrow> string \<Rightarrow> string option" where
  "introspect_list xml nxt p os =
     (case p of None \<Rightarrow> Some os | Some q \<Rightarrow> introspect_list xml nxt (nxt q) (os @ xml q))"

definition introspect_interface :: "('b, 'w, 'r, 'v, 'u) server \<Rightarrow> string \<Rightarrow> nat \<Rightarrow> string res" where
  "introspect_interface w os i =
     (case iface_of (sk_ifaces w) i of
        None \<Rightarrow> throw UndefinedBehaviour
      | Some nm \<Rightarrow>
          rbind (head_at (method_heads w) (int i)) (\<lambda>pm.
          rbind (head_at (property_heads w) (int i)) (\<lambda>pp.
          rbind (head_at (signal_heads w) (int i)) (\<lambda>ps.
          rbind (map_option Inr (introspect_list (\<lambda>m. method_xml (sm_name (method_at w m)) (sm_xml (method_at w m)))
             (\<lambda>m. sm_next (method_at w m)) pm (os @ line (''  <interface name='' @ dquoted (c_str nm) @ ''>'')))) (\<lambda>os.
          rbind (map_option Inr (introspect_list
             (\<lambda>p. property_xml (sp_name (sprop_at w p)) (sgn (sp_codec (sprop_at w p))) (sp_rw (sprop_at w p)))
             (\<lambda>p. sp_next (sprop_at w p)) pp os)) (\<lambda>os.
          rbind (map_option Inr (introspect_list (\<lambda>g. signal_xml (ss_name (ssig_at w g)) (ss_xml (ssig_at w g)))
             (\<lambda>g. ss_next (ssig_at w g)) ps os)) (\<lambda>os.
          ret (os @ line ''  </interface>''))))))))"

fun introspect_interfaces :: "('b, 'w, 'r, 'v, 'u) server \<Rightarrow> string \<Rightarrow> nat list \<Rightarrow> string res" where
  "introspect_interfaces w os [] = ret os"
| "introspect_interfaces w os (i # is) = rbind (introspect_interface w os i) (\<lambda>os. introspect_interfaces w os is)"

definition introspectable_xml :: string where
  "introspectable_xml =
     line (''  <interface name='' @ dquoted ''org.freedesktop.DBus.Introspectable'' @ ''>'')
     @ line (''    <method name='' @ dquoted ''Introspect'' @ ''>'')
     @ xml_arg ''data'' ''s'' (Some ''out'')
     @ line ''    </method>'' @ line ''  </interface>''"

definition properties_xml :: string where
  "properties_xml =
     line (''  <interface name='' @ dquoted ''org.freedesktop.DBus.Properties'' @ ''>'')
     @ line (''    <method name='' @ dquoted ''Get'' @ ''>'')
     @ xml_arg ''interface_name'' ''s'' (Some ''in'') @ xml_arg ''property_name'' ''s'' (Some ''in'')
     @ xml_arg ''value'' ''v'' (Some ''out'') @ line ''    </method>''
     @ line (''    <method name='' @ dquoted ''Set'' @ ''>'')
     @ xml_arg ''interface_name'' ''s'' (Some ''in'') @ xml_arg ''property_name'' ''s'' (Some ''in'')
     @ xml_arg ''value'' ''v'' (Some ''in'') @ line ''    </method>''
     @ line (''    <method name='' @ dquoted ''GetAll'' @ ''>'')
     @ xml_arg ''interface_name'' ''s'' (Some ''in'') @ xml_arg ''properties'' ''a{sv}'' (Some ''out'')
     @ line ''    </method>''
     @ line (''    <signal name='' @ dquoted ''PropertiesChanged'' @ ''>'')
     @ xml_arg ''interface_name'' ''s'' None @ xml_arg ''changed_properties'' ''a{sv}'' None
     @ xml_arg ''invalidated_properties'' ''as'' None @ line ''    </signal>'' @ line ''  </interface>''"

definition introspect_text :: "('b, 'w, 'r) dbus_conn_api \<Rightarrow> ('b, 'w, 'r, 'v, 'u) server \<Rightarrow> string res" where
  "introspect_text K w =
     rbind (introspect_interfaces w
       (line (''<?xml version='' @ dquoted ''1.0'' @ '' ?>'') @ line (''<node name='' @ dquoted (c_str (sk_objectpath w)) @ ''>''))
       [0..<length (sk_ifaces w)]) (\<lambda>os.
     ret (os @ introspectable_xml @ (if has_any_properties w then properties_xml else [])
       @ concat (map (\<lambda>child. line (''<node name='' @ dquoted child @ ''/>''))
           (list_registered K (sconn w) (c_str (sk_objectpath w))))
       @ line ''</node>''))"

definition handle_introspect_request ::
  "('w, 'r) dbus_iter_api \<Rightarrow> ('b, 'w, 'r) dbus_conn_api \<Rightarrow> 'r in_msg \<Rightarrow> (('b, 'w, 'r, 'v, 'u) server, handler_result) prog" where
  "handle_introspect_request L K msg w =
     (case im_member msg of
        None \<Rightarrow> pthrow UndefinedBehaviour w
      | Some method \<Rightarrow>
          if c_str method \<noteq> ''Introspect'' then preturn NotYetHandled w
          else pbind (plift (introspect_text K w)) (\<lambda>text.
               pbind (server_send K (message_new_method_return msg (StringCodec_encode L (message_iter K) text))) (\<lambda>_.
               preturn Handled)) w)"

section \<open>The request handler\<close>

text \<open>
  \<open>introspection\<close> and \<open>objectmanager\<close> stand for the build options \<open>SIMPPL_HAVE_INTROSPECTION\<close> and
  \<open>SIMPPL_HAVE_OBJECTMANAGER\<close>. A message without an interface name is compared through a null
  pointer.
\<close>

definition handle_objectmanager_request ::
  "('w, 'r) dbus_iter_api \<Rightarrow> ('b, 'w, 'r) dbus_conn_api \<Rightarrow> (nat \<Rightarrow> char) \<Rightarrow> 'r in_msg
     \<Rightarrow> (('b, 'w, 'r, 'v, 'u) server, handler_result) prog" where
  "handle_objectmanager_request L K junk msg = handle_error L K junk msg DBUS_ERROR_UNKNOWN_INTERFACE"

definition handle_request ::
  "bool \<Rightarrow> bool \<Rightarrow> ('w, 'r) dbus_iter_api \<Rightarrow> ('b, 'w, 'r) dbus_conn_api \<Rightarrow> (nat \<Rightarrow> char)
     \<Rightarrow> (('b, 'w, 'r, 'v, 'u) server, 'r, 'v) server_code \<Rightarrow> 'r in_msg
     \<Rightarrow> (('b, 'w, 'r, 'v, 'u) server, handler_result) prog" where
  "handle_request introspection objectmanager L K junk U msg w =
     (case (im_interface msg, im_member msg) of
        (Some i, Some method_name) \<Rightarrow>
          let interface_name = c_str i in
          if introspection \<and> interface_name = ''org.freedesktop.DBus.Introspectable''
            then handle_introspect_request L K msg w
          else if objectmanager \<and> interface_name = ''org.freedesktop.DBus.ObjectManager''
            then objectmanager_request U msg w
          else if interface_name = ''org.freedesktop.DBus.Properties'' then
            (if \<not> has_any_properties w then handle_error L K junk msg DBUS_ERROR_UNKNOWN_INTERFACE w
             else handle_property_request L K junk U msg w)
          else
            let iface_id = find_interface (sk_ifaces w) interface_name in
            if iface_id = invalid_iface_id then handle_error L K junk msg DBUS_ERROR_UNKNOWN_INTERFACE w
            else
              pbind (plift (find_method w iface_id method_name)) (\<lambda>found.
                case found of
                  None \<Rightarrow> handle_error L K junk msg DBUS_ERROR_UNKNOWN_METHOD
                | Some m \<Rightarrow> handle_interface_request L K junk U msg m) w
      | _ \<Rightarrow> pthrow UndefinedBehaviour w)"

text \<open>\<open>method_handler\<close>: the callback libdbus calls for the object path.\<close>

definition method_handler ::
  "bool \<Rightarrow> bool \<Rightarrow> ('w, 'r) dbus_iter_api \<Rightarrow> ('b, 'w, 'r) dbus_conn_api \<Rightarrow> (nat \<Rightarrow> char)
     \<Rightarrow> (('b, 'w, 'r, 'v, 'u) server, 'r, 'v) server_code \<Rightarrow> 'r in_msg
     \<Rightarrow> (('b, 'w, 'r, 'v, 'u) server, handler_result) prog" where
  "method_handler introspection objectmanager L K junk U msg =
     handle_request introspection objectmanager L K junk U msg"

end
