(* ===== verification/Serving.thy ===== *)
theory Serving
  imports Skeleton StubSignals
begin

text \<open>
  What a skeleton answers: lookups agree with the lists the constructors build, each request is
  routed to the right object, and how many replies a request gets.
\<close>

section \<open>Lookup\<close>

lemma find_named_chain:
  "chain nxt p xs \<Longrightarrow> find_named nm nxt p name = Some (find (\<lambda>q. c_str (nm q) = name) xs)"
proof (induction xs arbitrary: p)
  case Nil
  then show ?case by (subst find_named.simps) simp
next
  case (Cons x xs)
  then show ?case by (subst find_named.simps) auto
qed

lemma introspect_list_chain:
  "chain nxt p xs \<Longrightarrow> introspect_list xml nxt p os = Some (os @ concat (map xml xs))"
proof (induction xs arbitrary: p os)
  case Nil
  then show ?case by (subst introspect_list.simps) simp
next
  case (Cons x xs)
  then show ?case by (subst introspect_list.simps) auto
qed

lemma find_interface_loop_spec:
  "n = i + length xs \<Longrightarrow>
     (case find_interface_loop n i xs name of k \<Rightarrow>
        (k = invalid_iface_id \<and> name \<notin> c_str ` set xs) \<or>
        (\<exists>j < length xs. k = int (length xs - j - 1) \<and> c_str (xs ! j) = name \<and> (\<forall>l < j. c_str (xs ! l) \<noteq> name)))"
proof (induction n i xs name rule: find_interface_loop.induct)
  case (1 n i name)
  then show ?case by simp
next
  case (2 n i x xs name)
  show ?case
  proof (cases "c_str x = name")
    case True
    with 2 show ?thesis by (auto intro!: exI [of _ 0])
  next
    case False
    with 2 consider "find_interface_loop n (Suc i) xs name = invalid_iface_id" "name \<notin> c_str ` set xs"
      | j where "j < length xs" "find_interface_loop n (Suc i) xs name = int (length xs - j - 1)"
        "c_str (xs ! j) = name" "\<forall>l < j. c_str (xs ! l) \<noteq> name"
      by auto
    then show ?thesis
    proof cases
      case 1
      with False show ?thesis by auto
    next
      case (2 j)
      have "\<forall>l < Suc j. c_str ((x # xs) ! l) \<noteq> name"
        using 2(4) False by (auto simp: less_Suc_eq_0_disj)
      with 2 False have "\<exists>l < length (x # xs). find_interface_loop n i (x # xs) name = int (length (x # xs) - l - 1) \<and>
          c_str ((x # xs) ! l) = name \<and> (\<forall>k < l. c_str ((x # xs) ! k) \<noteq> name)"
        by (intro exI [of _ "Suc j"]) simp
      then show ?thesis by simp
    qed
  qed
qed

text \<open>The id found for a name is that of an interface with this name.\<close>

lemma find_interface_iface:
  assumes "find_interface ifs name = k" and "k \<noteq> invalid_iface_id"
  shows "0 \<le> k \<and> nat k < length ifs \<and> (\<exists>i. iface_of ifs (nat k) = Some i \<and> c_str i = c_str name)"
proof -
  obtain j where j: "j < length ifs" "k = int (length ifs - j - 1)" "c_str (ifs ! j) = c_str name"
    using find_interface_loop_spec [of "length ifs" 0 ifs "c_str name"] assms
    by (auto simp: find_interface_def)
  moreover from j have "nat k = length ifs - j - 1" "length ifs - nat k - 1 = j" by auto
  ultimately show ?thesis by (simp add: iface_of_def)
qed

lemma find_interface_none:
  "find_interface ifs name = invalid_iface_id \<longleftrightarrow> c_str name \<notin> c_str ` set ifs"
proof -
  have "find_interface ifs name \<noteq> invalid_iface_id" if "c_str name \<in> c_str ` set ifs"
    using find_interface_loop_spec [of "length ifs" 0 ifs "c_str name"] that
    by (auto simp: find_interface_def invalid_iface_id_def)
  moreover have "find_interface ifs name = invalid_iface_id" if "c_str name \<notin> c_str ` set ifs"
  proof (rule ccontr)
    assume "find_interface ifs name \<noteq> invalid_iface_id"
    from find_interface_iface [OF refl this] obtain i where
      "iface_of ifs (nat (find_interface ifs name)) = Some i" "c_str i = c_str name" by blast
    then have "i \<in> set ifs" by (auto simp: iface_of_def split: if_splits)
    with \<open>c_str i = c_str name\<close> that show False by (metis image_eqI)
  qed
  ultimately show ?thesis by blast
qed

text \<open>
  The intrusive lists of a skeleton, as lists: \<open>ms i\<close> are the methods of interface \<open>i\<close>, newest
  first, and so on.
\<close>

definition lists_ok ::
  "('b, 'w, 'r, 'v, 'u) server \<Rightarrow> (nat \<Rightarrow> nat list) \<Rightarrow> (nat \<Rightarrow> nat list) \<Rightarrow> (nat \<Rightarrow> nat list) \<Rightarrow> bool" where
  "lists_ok w ms ps gs \<longleftrightarrow>
     length (method_heads w) = length (sk_ifaces w) \<and> length (property_heads w) = length (sk_ifaces w) \<and>
     length (signal_heads w) = length (sk_ifaces w) \<and>
     (\<forall>i < length (sk_ifaces w).
        chain (\<lambda>m. sm_next (method_at w m)) (method_heads w ! i) (ms i) \<and>
        chain (\<lambda>p. sp_next (sprop_at w p)) (property_heads w ! i) (ps i) \<and>
        chain (\<lambda>g. ss_next (ssig_at w g)) (signal_heads w ! i) (gs i))"

lemma lists_new: "lists_ok (SkeletonBase_new n w) (\<lambda>_. []) (\<lambda>_. []) (\<lambda>_. [])"
  by (simp add: lists_ok_def SkeletonBase_new_def)

lemma lists_add_method:
  assumes "lists_ok w ms ps gs" and "i < length (sk_ifaces w)" and "\<forall>j < length (sk_ifaces w). m \<notin> set (ms j)"
  shows "lists_ok (ServerMethodBase_new m name i w) (ms(i := m # ms i)) ps gs"
proof -
  have "chain (\<lambda>x. sm_next (((method_at w)(m := y)) x)) p (ms j) = chain (\<lambda>x. sm_next (method_at w x)) p (ms j)"
    if "j < length (sk_ifaces w)" for p y j
    using assms(3) that by (intro chain_cong) auto
  with assms(1,2) show ?thesis
    by (auto simp: lists_ok_def ServerMethodBase_new_def nth_list_update)
qed

lemma lists_add_property:
  assumes "lists_ok w ms ps gs" and "i < length (sk_ifaces w)" and "\<forall>j < length (sk_ifaces w). p \<notin> set (ps j)"
  shows "lists_ok (ServerPropertyBase_new p name i w) ms (ps(i := p # ps i)) gs"
proof -
  have "chain (\<lambda>x. sp_next (((sprop_at w)(p := y)) x)) q (ps j) = chain (\<lambda>x. sp_next (sprop_at w x)) q (ps j)"
    if "j < length (sk_ifaces w)" for q y j
    using assms(3) that by (intro chain_cong) auto
  with assms(1,2) show ?thesis
    by (auto simp: lists_ok_def ServerPropertyBase_new_def nth_list_update)
qed

lemma find_method_list:
  assumes "lists_ok w ms ps gs" and "i < length (sk_ifaces w)"
  shows "find_method w (int i) name = ret (find (\<lambda>m. c_str (sm_name (method_at w m)) = c_str name) (ms i))"
  using assms find_named_chain [of "\<lambda>m. sm_next (method_at w m)" "method_heads w ! i" "ms i"]
  by (simp add: find_method_def head_at_def lists_ok_def ret_def)

lemma find_sproperty_list:
  assumes "lists_ok w ms ps gs" and "i < length (sk_ifaces w)"
  shows "find_sproperty w (int i) name = ret (find (\<lambda>p. c_str (sp_name (sprop_at w p)) = c_str name) (ps i))"
  using assms find_named_chain [of "\<lambda>p. sp_next (sprop_at w p)" "property_heads w ! i" "ps i"]
  by (simp add: find_sproperty_def head_at_def lists_ok_def ret_def)

section \<open>Replies\<close>

text \<open>The connection and the messages of one library: new messages are empty.\<close>

locale server_env = dbus_iter L bvalid wk wv rv + dbus_conn K rules sent paths timeouts
  for L :: "('w, 'r) dbus_iter_api" and bvalid wk wv rv
    and K :: "('b, 'w, 'r) dbus_conn_api" and rules sent paths timeouts +
  assumes new_message_empty: "wv (message_iter K) = []"

interpretation rec_srv: server_env ref_api "\<lambda>_. True" fst snd "\<lambda>r. r"
    "rec_api ref_root reply" rc_rules rc_sent rc_paths rc_timeouts
  by unfold_locales (simp add: rec_api_def ref_root_def)

text \<open>Messages other than signals that were sent.\<close>

definition replies :: "('b \<Rightarrow> 'w out_msg list) \<Rightarrow> ('b, 'w, 'r, 'v, 'u) server \<Rightarrow> 'w out_msg list" where
  "replies sent w = filter (\<lambda>om. om_type om \<noteq> Signal) (sent (sconn w))"

definition error_msg :: "('w, 'r) dbus_iter_api \<Rightarrow> ('b, 'w, 'r) dbus_conn_api \<Rightarrow> 'r in_msg \<Rightarrow> string \<Rightarrow> 'w out_msg" where
  "error_msg L K msg name = new_error L (message_iter K) msg (Some (c_str name)) []"

lemma named_error_reply_eq: "named_error_reply L K junk msg name = ret (error_msg L K msg name)"
proof -
  obtain e where "Error_new junk name None SIMPPL_INVALID_SERIAL = Some e" "Error_name e = Some (c_str name)"
    "Error_message e = []"
    using set_members_ok [of junk name None SIMPPL_INVALID_SERIAL] by (auto simp: Error_new_def)
  then show ?thesis
    by (simp add: named_error_reply_def ErrorFactory_Error_reply_def make_reply_for_def error_msg_def)
qed

lemma error_msg_fields [simp]:
  "om_type (error_msg L K msg name) = ErrorReply" "om_reply_to (error_msg L K msg name) = im_serial msg"
  "om_error_name (error_msg L K msg name) = Some (c_str name)"
  by (simp_all add: error_msg_def)

lemma handle_error_eq:
  "sk_disp w \<Longrightarrow> handle_error L K junk msg name w =
     Some (Inr Handled, w\<lparr>sconn := connection_send K (sconn w) (error_msg L K msg name)\<rparr>)"
  by (simp add: handle_error_def named_error_reply_eq server_send_def pbind_def preturn_def)

text \<open>Exceptions a callback may leave with: those that can be turned into a reply.\<close>

definition catchable :: "exn \<Rightarrow> bool" where
  "catchable e \<longleftrightarrow> e \<noteq> UndefinedBehaviour \<and> (\<forall>err. e = ErrorExn err \<longrightarrow> Error_name err \<noteq> None)"

definition reply_for :: "'r in_msg \<Rightarrow> 'w out_msg \<Rightarrow> bool" where
  "reply_for msg om \<longleftrightarrow> om_type om \<noteq> Signal \<and> om_reply_to om = im_serial msg"

lemma exception_reply_ok:
  assumes "catchable e"
  shows "\<exists>om. exception_reply L K junk msg e = ret om \<and> om_type om = ErrorReply \<and> om_reply_to om = im_serial msg \<and>
    om_error_name om = (case e of ErrorExn err \<Rightarrow> Error_name err | _ \<Rightarrow> Some ''simppl.dbus.UnhandledException'')"
proof -
  have "c_str ''simppl.dbus.UnhandledException'' = ''simppl.dbus.UnhandledException''"
    by (simp add: c_str_id NUL_def)
  with assms show ?thesis
    by (cases e) (auto simp: exception_reply_def catchable_def named_error_reply_eq ErrorFactory_Error_reply_def
        make_reply_for_def)
qed

text \<open>The objects of the skeleton stay, but the values of properties may change.\<close>

definition same_objects :: "('b, 'w, 'r, 'v, 'u) server \<Rightarrow> ('b, 'w, 'r, 'v, 'u) server \<Rightarrow> bool" where
  "same_objects w w' \<longleftrightarrow>
     sk_ifaces w' = sk_ifaces w \<and> sk_disp w' = sk_disp w \<and> method_at w' = method_at w \<and>
     property_heads w' = property_heads w \<and> (\<forall>p. \<exists>x. sprop_at w' p = sprop_at w p\<lparr>sp_store := x\<rparr>)"

lemma sp_store_self: "\<exists>x. sp = sp\<lparr>sp_store := x\<rparr>"
  by (rule exI [of _ "sp_store sp"]) simp

lemma same_objects_refl [simp]: "same_objects w w"
  by (simp add: same_objects_def sp_store_self)

lemma same_objects_set_store: "same_objects w (set_store p x w)"
proof -
  have "\<exists>y. sprop_at (set_store p x w) q = sprop_at w q\<lparr>sp_store := y\<rparr>" for q
    by (cases "q = p") (auto simp: set_store_def sp_store_self)
  then show ?thesis by (simp add: same_objects_def) (simp add: set_store_def)
qed

lemma same_objects_sconn: "same_objects w (w\<lparr>sconn := c\<rparr>)"
  by (simp add: same_objects_def sp_store_self)

lemma same_objects_trans:
  assumes a: "same_objects w w1" and b: "same_objects w1 w2"
  shows "same_objects w w2"
proof -
  have "\<exists>x. sprop_at w2 p = sprop_at w p\<lparr>sp_store := x\<rparr>" for p
  proof -
    obtain x y where "sprop_at w1 p = sprop_at w p\<lparr>sp_store := x\<rparr>" "sprop_at w2 p = sprop_at w1 p\<lparr>sp_store := y\<rparr>"
      using a b unfolding same_objects_def by blast
    then have "sprop_at w2 p = sprop_at w p\<lparr>sp_store := y\<rparr>" by simp
    then show ?thesis by blast
  qed
  with a b show ?thesis by (simp add: same_objects_def)
qed

lemma same_objectsD:
  assumes "same_objects w w'"
  shows "sp_next (sprop_at w' p) = sp_next (sprop_at w p)" "sp_name (sprop_at w' p) = sp_name (sprop_at w p)"
    "sp_codec (sprop_at w' p) = sp_codec (sprop_at w p)" "sk_disp w' = sk_disp w" "method_at w' = method_at w"
proof -
  obtain x where "sprop_at w' p = sprop_at w p\<lparr>sp_store := x\<rparr>"
    using assms unfolding same_objects_def by blast
  then show "sp_next (sprop_at w' p) = sp_next (sprop_at w p)" "sp_name (sprop_at w' p) = sp_name (sprop_at w p)"
    "sp_codec (sprop_at w' p) = sp_codec (sprop_at w p)" by simp_all
qed (use assms in \<open>simp_all add: same_objects_def\<close>)

text \<open>
  Code of the program that does not answer requests itself: it returns, it may send signals
  and throw, and it leaves the request being handled alone.
\<close>

definition calm :: "('b \<Rightarrow> 'w out_msg list) \<Rightarrow> (('b, 'w, 'r, 'v, 'u) server, 'a) prog \<Rightarrow> bool" where
  "calm sent f \<longleftrightarrow> (\<forall>w. sk_disp w \<longrightarrow> (\<exists>r w'. f w = Some (r, w') \<and> same_objects w w' \<and> replies sent w' = replies sent w \<and>
     current_request w' = current_request w \<and> (\<forall>e. r = Inl e \<longrightarrow> catchable e)))"

text \<open>
  A callback that answers request \<open>msg\<close> of method \<open>m\<close> at most once, and if it does, does not
  throw afterwards. \<open>T\<close> is the method's \<open>throw_\<close>.
\<close>

definition answers ::
  "('b \<Rightarrow> 'w out_msg list) \<Rightarrow> nat \<Rightarrow> ('r in_msg \<Rightarrow> error_obj \<Rightarrow> 'w out_msg res) \<Rightarrow> 'r in_msg
     \<Rightarrow> (('b, 'w, 'r, 'v, 'u) server, unit) prog \<Rightarrow> bool" where
  "answers sent m T msg f \<longleftrightarrow> (\<forall>w. sk_disp w \<and> sm_throw (method_at w m) = T \<and> current_request w = \<lparr>requestor = Some m, rd_msg = Some msg\<rparr> \<longrightarrow>
     (\<exists>r w'. f w = Some (r, w') \<and> sk_disp w' \<and>
       ((r = Inr () \<and> \<not> descriptor_valid (current_request w') \<and>
           (\<exists>om. replies sent w' = replies sent w @ [om] \<and> reply_for msg om)) \<or>
        (replies sent w' = replies sent w \<and> (\<forall>e. r = Inl e \<longrightarrow> catchable e)))))"

end
