(* ===== verification/Replies.thy ===== *)
theory Replies
  imports Serving
begin

text \<open>
  How many replies a request gets: the ways to respond, method calls, and the property
  requests.
\<close>

section \<open>Building blocks\<close>

lemma calmD:
  assumes "calm sent f" and "sk_disp w"
  obtains r w' where "f w = Some (r, w')" "same_objects w w'" "replies sent w' = replies sent w"
    "current_request w' = current_request w" "\<And>e. r = Inl e \<Longrightarrow> catchable e"
  using assms unfolding calm_def by blast

lemma calm_return [intro]: "calm sent (preturn x)"
  by (auto simp: calm_def preturn_def)

lemma calm_throw [intro]: "catchable e \<Longrightarrow> calm sent (pthrow e)"
  by (auto simp: calm_def pthrow_def)

lemma calm_bind [intro]:
  assumes "calm sent f" and "\<And>x. calm sent (g x)"
  shows "calm sent (pbind f g)"
  unfolding calm_def
proof (intro allI impI)
  fix w :: "('a, 'b, 'c, 'd, 'e) server"
  assume "sk_disp w"
  from calmD [OF assms(1) this] obtain r w1 where w1: "f w = Some (r, w1)" "same_objects w w1"
    "replies sent w1 = replies sent w" "current_request w1 = current_request w" "\<And>e. r = Inl e \<Longrightarrow> catchable e"
    by blast
  have d1: "sk_disp w1" using w1(2) \<open>sk_disp w\<close> by (simp add: same_objects_def)
  show "\<exists>r w'. pbind f g w = Some (r, w') \<and> same_objects w w' \<and> replies sent w' = replies sent w \<and>
    current_request w' = current_request w \<and> (\<forall>e. r = Inl e \<longrightarrow> catchable e)"
  proof (cases r)
    case (Inl e)
    with w1 show ?thesis by simp
  next
    case (Inr x)
    from calmD [OF assms(2) d1, of x] obtain r2 w2 where
      "g x w1 = Some (r2, w2)" "same_objects w1 w2" "replies sent w2 = replies sent w1"
      "current_request w2 = current_request w1" "\<And>e. r2 = Inl e \<Longrightarrow> catchable e"
      by blast
    then show ?thesis using w1 Inr same_objects_trans [OF w1(2)] by simp
  qed
qed

lemma calm_dep: "(\<And>w. calm sent (f w)) \<Longrightarrow> calm sent (\<lambda>w. f w w)"
  unfolding calm_def by blast

lemma answersD:
  assumes "answers sent m T msg f" and "sk_disp w" and "sm_throw (method_at w m) = T"
    and "current_request w = \<lparr>requestor = Some m, rd_msg = Some msg\<rparr>"
  obtains (answered) om w' where "f w = Some (Inr (), w')" "sk_disp w'" "\<not> descriptor_valid (current_request w')"
      "replies sent w' = replies sent w @ [om]" "reply_for msg om"
  | (silent) w' where "f w = Some (Inr (), w')" "sk_disp w'" "replies sent w' = replies sent w"
  | (threw) e w' where "f w = Some (Inl e, w')" "sk_disp w'" "replies sent w' = replies sent w" "catchable e"
proof -
  from assms obtain r w' where f: "f w = Some (r, w')" "sk_disp w'" and c:
    "(r = Inr () \<and> \<not> descriptor_valid (current_request w') \<and>
        (\<exists>om. replies sent w' = replies sent w @ [om] \<and> reply_for msg om)) \<or>
     (replies sent w' = replies sent w \<and> (\<forall>e. r = Inl e \<longrightarrow> catchable e))"
    unfolding answers_def by blast
  show thesis
  proof (cases r)
    case (Inl e)
    with f c threw show ?thesis by auto
  next
    case (Inr u)
    with f c answered silent show ?thesis by auto
  qed
qed

lemma answers_calm [intro]: "calm sent f \<Longrightarrow> answers sent m T msg f"
  unfolding calm_def answers_def by (metis same_objects_def)

text \<open>Code before the response.\<close>

lemma answers_bind [intro]:
  assumes "calm sent f" and "\<And>x. answers sent m T msg (g x)"
  shows "answers sent m T msg (pbind f g)"
  unfolding answers_def
proof (intro allI impI)
  fix w :: "('a, 'b, 'c, 'd, 'e) server"
  assume w: "sk_disp w \<and> sm_throw (method_at w m) = T \<and> current_request w = \<lparr>requestor = Some m, rd_msg = Some msg\<rparr>"
  then obtain r w1 where w1: "f w = Some (r, w1)" "same_objects w w1" "replies sent w1 = replies sent w"
    "current_request w1 = current_request w" "\<And>e. r = Inl e \<Longrightarrow> catchable e"
    using calmD [OF assms(1)] by blast
  have d1: "sk_disp w1" "sm_throw (method_at w1 m) = T" using w1(2) w by (simp_all add: same_objects_def)
  show "\<exists>r w'. pbind f g w = Some (r, w') \<and> sk_disp w' \<and>
      ((r = Inr () \<and> \<not> descriptor_valid (current_request w') \<and>
           (\<exists>om. replies sent w' = replies sent w @ [om] \<and> reply_for msg om)) \<or>
        (replies sent w' = replies sent w \<and> (\<forall>e. r = Inl e \<longrightarrow> catchable e)))"
  proof (cases r)
    case (Inl e)
    with w1 d1 show ?thesis by simp
  next
    case (Inr x)
    from w w1 have "current_request w1 = \<lparr>requestor = Some m, rd_msg = Some msg\<rparr>" by simp
    from assms(2) d1 this show ?thesis
      by (rule answersD [where f = "g x" and w = w1]) (use w1 Inr in auto)
  qed
qed

context server_env begin

lemma server_send_replies:
  assumes "sk_disp w"
  shows "\<exists>w'. server_send K om w = Some (Inr (), w') \<and> sk_disp w' \<and>
    sent (sconn w') = sent (sconn w) @ [om] \<and>
    replies sent w' = replies sent w @ (if om_type om = Signal then [] else [om]) \<and>
    w' = w\<lparr>sconn := sconn w'\<rparr>"
  using assms by (simp add: server_send_def preturn_def replies_def send_sent)

lemma respond_with_answers: "answers sent m T msg (respond_with K f)"
  unfolding answers_def
  by (auto simp: respond_with_def server_send_def pbind_def preturn_def pmodify_def descriptor_clear_def
      descriptor_valid_def replies_def send_sent response_msg_def reply_for_def message_new_method_return_def)

lemma respond_with_error_answers:
  assumes "T msg err = ret om" and "reply_for msg om"
  shows "answers sent m T msg (respond_with_error K err :: (('b, 'w, 'r, 'v, 'u) server, unit) prog)"
  using assms unfolding answers_def
  by (auto simp: respond_with_error_def server_send_def pbind_def preturn_def pmodify_def descriptor_clear_def
      descriptor_valid_def replies_def send_sent reply_for_def)

lemma handle_error_replies:
  assumes "sk_disp w"
  shows "\<exists>w'. handle_error L K junk msg name w = Some (Inr Handled, w') \<and> sk_disp w' \<and>
    replies sent w' = replies sent w @ [error_msg L K msg name] \<and> current_request w' = current_request w"
  using assms by (simp add: handle_error_eq replies_def send_sent)

section \<open>Method calls\<close>

text \<open>
  Whatever the callback does within the contract, the request is handled, the current request
  is cleared and there is at most one reply; a callback that throws leads to exactly one.
\<close>

lemma interface_request_replies:
  assumes d: "sk_disp w" and dec: "sm_args (method_at w m) (im_body msg) = ret (args, it)"
    and T: "sm_throw (method_at w m) = T" and cb: "answers sent m T msg (method_cb U m args)"
  shows "\<exists>w'. handle_interface_request L K junk U msg m w = Some (Inr Handled, w') \<and> sk_disp w' \<and>
    \<not> descriptor_valid (current_request w') \<and>
    (replies sent w' = replies sent w \<or> (\<exists>om. replies sent w' = replies sent w @ [om] \<and> reply_for msg om))"
proof -
  let ?w = "w\<lparr>current_request := \<lparr>requestor = Some m, rd_msg = Some msg\<rparr>\<rparr>"
  have set: "descriptor_set (Some m) (Some msg) (current_request w) = \<lparr>requestor = Some m, rd_msg = Some msg\<rparr>"
    by (simp add: descriptor_set_def descriptor_clear_def)
  have rep: "replies sent ?w = replies sent w" by (simp add: replies_def)
  let ?f = "if sm_cb (method_at w m) then method_cb U m args else pthrow BadFunctionCall"
  have "answers sent m T msg ?f"
    using cb by (auto simp: catchable_def intro!: answers_calm calm_throw)
  moreover have ev: "smethod_eval U m msg ?w = ?f ?w"
    using dec by (simp add: smethod_eval_def)
  show ?thesis
  proof (rule answersD [where f = ?f and w = ?w])
    show "answers sent m T msg ?f" by fact
  next
    fix om w'
    assume "?f ?w = Some (Inr (), w')" "sk_disp w'" "\<not> descriptor_valid (current_request w')"
      "replies sent w' = replies sent ?w @ [om]" "reply_for msg om"
    then show ?thesis
      by (auto simp: handle_interface_request_def pmodify_def set ev rep pcatch_def pbind_def preturn_def)
  next
    fix w'
    assume "?f ?w = Some (Inr (), w')" "sk_disp w'" "replies sent w' = replies sent ?w"
    then show ?thesis
      by (auto simp: handle_interface_request_def pmodify_def set ev rep pcatch_def pbind_def preturn_def
          replies_def descriptor_valid_def descriptor_clear_def)
  next
    fix e w'
    assume f: "?f ?w = Some (Inl e, w')" "sk_disp w'" "replies sent w' = replies sent ?w" "catchable e"
    then have ub: "e \<noteq> UndefinedBehaviour" by (simp add: catchable_def)
    have "reply_for msg (error_msg L K msg n)" for n by (simp add: reply_for_def)
    with f ub show ?thesis
      by (cases e) (auto simp: handle_interface_request_def pmodify_def set ev rep pcatch_def pbind_def preturn_def
          named_error_reply_eq plift_def ret_def server_send_def replies_def send_sent descriptor_valid_def
          descriptor_clear_def)
  qed (use d T in auto)
qed

text \<open>Arguments that do not decode.\<close>

lemma interface_request_bad_args:
  assumes d: "sk_disp w" and dec: "sm_args (method_at w m) (im_body msg) = throw DecoderError"
  shows "\<exists>w'. handle_interface_request L K junk U msg m w = Some (Inr Handled, w') \<and> sk_disp w' \<and>
    \<not> descriptor_valid (current_request w') \<and>
    replies sent w' = replies sent w @ [error_msg L K msg DBUS_ERROR_INVALID_ARGS]"
  using assms
  by (simp add: handle_interface_request_def pmodify_def pcatch_def smethod_eval_def pbind_def preturn_def
      pthrow_def named_error_reply_eq server_send_def replies_def send_sent descriptor_valid_def descriptor_clear_def)

text \<open>A callback that responds and throws afterwards: the request gets two replies.\<close>

lemma respond_then_throw:
  assumes d: "sk_disp w" and dec: "sm_args (method_at w m) (im_body msg) = ret (args, it)"
    and cb: "sm_cb (method_at w m)" "method_cb U m args = pbind (respond_with K f) (\<lambda>_. pthrow (UserExn n))"
  shows "\<exists>w'. handle_interface_request L K junk U msg m w = Some (Inr Handled, w') \<and>
    replies sent w' = replies sent w @ [response_msg K msg f, error_msg L K msg ''simppl.dbus.UnhandledException'']"
  using assms
  by (simp add: handle_interface_request_def pmodify_def pcatch_def smethod_eval_def pbind_def preturn_def
      pthrow_def named_error_reply_eq server_send_def replies_def send_sent descriptor_valid_def
      descriptor_clear_def descriptor_set_def respond_with_def response_msg_def message_new_method_return_def)

end

end
