(* ===== verification/PropertyServing.thy ===== *)
theory PropertyServing
  imports Replies
begin

text \<open>
  Properties from both sides: what assigning does, what \<open>Get\<close>, \<open>Set\<close> and \<open>GetAll\<close> answer, and
  that a change announced by the server reaches the callback of the client's property.
\<close>

section \<open>The messages\<close>

context server_env begin

lemma encode_string:
  "bvalid (BString (c_str s)) \<Longrightarrow> wv (StringCodec_encode L w s) = wv w @ [Basic (BString (c_str s))]"
  "wk (StringCodec_encode L w s) = wk w"
  by (simp_all add: StringCodec_encode_def append_basic_vals append_basic_ctx)

text \<open>\<open>f\<close> appends the variant \<open>d\<close>, as \<open>PropertyCodec::encode\<close> does.\<close>

definition appends_variant :: "('w \<Rightarrow> 'w) \<Rightarrow> dval \<Rightarrow> bool" where
  "appends_variant f d \<longleftrightarrow> (\<forall>w. wv (f w) = wv w @ [Cont DBUS_TYPE_VARIANT (dsig d) [d]] \<and> wk (f w) = wk w)"

lemma property_encode_appends:
  assumes "codec L bvalid wk wv rv c ok cv" and "ok x"
  shows "appends_variant (\<lambda>iter. PropertyCodec_encode L c iter x) (cv x)"
  using codec.VariantSerializer_vals [OF assms] codec.cv_sig [OF assms]
  by (simp add: appends_variant_def PropertyCodec_encode_def)

lemma change_body_vals:
  assumes "bvalid (BString (c_str i))" and "bvalid (BString (c_str prop))" and f: "appends_variant f d"
  shows "wv (change_body L (message_iter K) i prop f) =
    [Basic (BString (c_str i)), Cont DBUS_TYPE_ARRAY ''{sv}'' [prop_entry (c_str prop, d)], Cont DBUS_TYPE_ARRAY ''s'' []]"
proof -
  let ?iter = "StringCodec_encode L (message_iter K) i"
  let ?vec = "open_container L ?iter DBUS_TYPE_ARRAY (Some ''{sv}'')"
  let ?item = "f (StringCodec_encode L (open_container L ?vec DBUS_TYPE_DICT_ENTRY None) prop)"
  have item: "wv ?item = [Basic (BString (c_str prop)), Cont DBUS_TYPE_VARIANT (dsig d) [d]]"
    "wk ?item = (DBUS_TYPE_DICT_ENTRY, None)"
    using f by (simp_all add: appends_variant_def encode_string assms open_vals open_ctx)
  have vec: "wv (close_container L ?vec ?item) = [prop_entry (c_str prop, d)]"
    using close_entry [OF item(2,1)] by (simp add: open_vals prop_entry_def)
  have "wk (close_container L ?vec ?item) = (DBUS_TYPE_ARRAY, Some ''{sv}'')"
    by (simp add: close_ctx open_ctx)
  moreover have "list_all (\<lambda>v. dsig v = ''{sv}'') (wv (close_container L ?vec ?item))"
    by (simp add: vec prop_entry_def)
  ultimately have body: "wv (close_container L ?iter (close_container L ?vec ?item)) =
      [Basic (BString (c_str i)), Cont DBUS_TYPE_ARRAY ''{sv}'' [prop_entry (c_str prop, d)]]"
    using close_array [of "close_container L ?vec ?item" "''{sv}''" ?iter]
    by (simp add: vec encode_string assms new_message_empty)
  show ?thesis
    by (simp add: change_body_def Let_def vector_encode_def body close_array open_vals open_ctx string_codec_def
        StringCodec_make_type_signature_def)
qed

text \<open>The dictionary of an invalidation message is empty, and announced as \<open>a{ii}\<close>.\<close>

lemma invalidate_body_vals:
  assumes "bvalid (BString (c_str i))" and "bvalid (BString (c_str prop))"
  shows "wv (invalidate_body L (message_iter K) i prop) =
    [Basic (BString (c_str i)), Cont DBUS_TYPE_ARRAY ''{ii}'' [],
     Cont DBUS_TYPE_ARRAY ''s'' [Basic (BString (c_str prop))]]"
proof -
  let ?iter = "StringCodec_encode L (message_iter K) i"
  let ?iter1 = "close_container L ?iter (open_container L ?iter DBUS_TYPE_ARRAY (Some ''{ii}''))"
  let ?inv = "StringCodec_encode L (open_container L ?iter1 DBUS_TYPE_ARRAY (Some ''s'')) prop"
  have "wv ?iter1 = [Basic (BString (c_str i)), Cont DBUS_TYPE_ARRAY ''{ii}'' []]"
    using close_array [of "open_container L ?iter DBUS_TYPE_ARRAY (Some ''{ii}'')" "''{ii}''" ?iter]
    by (simp add: open_vals open_ctx encode_string assms new_message_empty)
  moreover have "wv (close_container L ?iter1 ?inv) =
      wv ?iter1 @ [Cont DBUS_TYPE_ARRAY ''s'' [Basic (BString (c_str prop))]]"
    using close_array [of ?inv "''s''" ?iter1] by (simp add: open_vals open_ctx encode_string assms)
  ultimately show ?thesis by (simp add: invalidate_body_def Let_def)
qed

section \<open>Assigning\<close>

definition change_msg :: "nat \<Rightarrow> 'v \<Rightarrow> string \<Rightarrow> ('b, 'w, 'r, 'v, 'u) server \<Rightarrow> 'w out_msg" where
  "change_msg p d i w = message_new_signal (c_str (sk_objectpath w)) ''org.freedesktop.DBus.Properties''
     ''PropertiesChanged'' (change_body L (message_iter K) i (sp_name (sprop_at w p))
        (\<lambda>iter. PropertyCodec_encode L (sp_codec (sprop_at w p)) iter d))"

text \<open>
  Assigning to a property stores the value, and a \<open>Notifying\<close> one announces it exactly when it
  differs from the old value or the property is declared \<open>Always\<close>.
\<close>

lemma assign_effect:
  assumes d: "sk_disp w" and i: "iface_of (sk_ifaces w) (sp_iface_id (sprop_at w p)) = Some i"
    and old: "sp_store (sprop_at w p) = Holds old"
  shows "\<exists>w'. sproperty_assign L K p new w = Some (Inr (), w') \<and> sp_store (sprop_at w' p) = Holds new \<and>
    sent (sconn w') = sent (sconn w) @
      (if sp_notifying (sprop_at w p) \<and> (sp_always (sprop_at w p) \<or> new \<noteq> old) then [change_msg p new i w] else []) \<and>
    same_objects w w' \<and> current_request w' = current_request w \<and> user w' = user w"
proof (cases "sp_notifying (sprop_at w p)")
  case False
  then show ?thesis
    using same_objects_set_store [of w p "Holds new"]
    by (simp add: sproperty_assign_def Assigner_eval_def pmodify_def) (simp add: set_store_def)
next
  case True
  show ?thesis
  proof (cases "sp_always (sprop_at w p) \<or> new \<noteq> old")
    case False
    with True old show ?thesis
      by (simp add: sproperty_assign_def Assigner_eval_def sproperty_value_def PropertyComparator_compare_def)
  next
    case changed: True
    let ?w = "set_store p (Holds new) w"
    have s: "sk_disp ?w" "sk_ifaces ?w = sk_ifaces w" "sconn ?w = sconn w" "sk_objectpath ?w = sk_objectpath w"
      "sp_iface_id (sprop_at ?w p) = sp_iface_id (sprop_at w p)" "sp_name (sprop_at ?w p) = sp_name (sprop_at w p)"
      "sp_codec (sprop_at ?w p) = sp_codec (sprop_at w p)" "sp_store (sprop_at ?w p) = Holds new"
      "same_objects w ?w" "current_request ?w = current_request w" "user ?w = user w"
      using d same_objects_set_store [of w p "Holds new"] by (simp_all add: set_store_def)
    have "sproperty_assign L K p new w = sproperty_notify L K p new ?w"
      using True changed old
      by (auto simp: sproperty_assign_def Assigner_eval_def sproperty_value_def PropertyComparator_compare_def
          pmodify_def)
    also have "\<dots> = server_send K (change_msg p new i w) ?w"
      by (simp add: sproperty_notify_def Let_def send_property_change_def properties_changed_def s i change_msg_def)
    also have "\<dots> = Some (Inr (), ?w\<lparr>sconn := connection_send K (sconn w) (change_msg p new i w)\<rparr>)"
      by (simp add: server_send_def s preturn_def)
    finally show ?thesis
      using True changed s same_objects_trans [OF s(9) same_objects_sconn]
      by (simp add: send_sent)
  qed
qed

text \<open>With an \<open>on_read\<close> callback there is no value to compare with: assigning throws.\<close>

lemma assign_on_read_throws:
  "sp_store (sprop_at w p) = OnRead \<Longrightarrow> sp_notifying (sprop_at w p) \<Longrightarrow>
     sproperty_assign L K p new w = Some (Inl BadVariantAccess, w)"
  by (simp add: sproperty_assign_def Assigner_eval_def sproperty_value_def pthrow_def)

lemma change_msg_no_reply [simp]: "om_type (change_msg p d i w) = Signal"
  by (simp add: change_msg_def message_new_signal_def)

section \<open>Get and Set\<close>

lemma get_request_value:
  assumes "sk_disp w" and "sp_store (sprop_at w p) = Holds x"
  shows "handle_property_get_request L K junk U msg p w = Some (Inr Handled, w\<lparr>sconn := connection_send K (sconn w)
    (message_new_method_return msg (PropertyCodec_encode L (sp_codec (sprop_at w p)) (message_iter K) x))\<rparr>)"
  using assms
  by (simp add: handle_property_get_request_def sproperty_eval_def pcatch_def pbind_def preturn_def server_send_def)

text \<open>Whatever the callback of a property does, \<open>Get\<close> gets exactly one reply.\<close>

lemma sproperty_eval_calm:
  assumes "calm sent (read_cb U p)"
  shows "calm sent (sproperty_eval L U p iter)"
proof -
  have "calm sent (pbind (case sp_store (sprop_at w p) of OnRead \<Rightarrow> read_cb U p | Holds d \<Rightarrow> preturn d)
      (\<lambda>d w. preturn (PropertyCodec_encode L (sp_codec (sprop_at w p)) iter d) w))" for w
  proof (rule calm_bind)
    show "calm sent (case sp_store (sprop_at w p) of OnRead \<Rightarrow> read_cb U p | Holds d \<Rightarrow> preturn d)"
      using assms by (auto split: prop_store.split)
    show "calm sent (\<lambda>w. preturn (PropertyCodec_encode L (sp_codec (sprop_at w p)) iter d) w)" for d
      by (simp add: calm_def preturn_def)
  qed
  from calm_dep [OF this] show ?thesis by (simp add: sproperty_eval_def [abs_def])
qed

text \<open>An evaluation guarded by \<open>catch (const Error&)\<close> and \<open>catch (...)\<close> ends in one reply.\<close>

lemma guarded_reply_at:
  assumes d: "sk_disp w" and ok: "\<And>x. reply_for msg (mk x)"
    and w1: "f w = Some (r, w1)" "same_objects w w1" "replies sent w1 = replies sent w"
      "current_request w1 = current_request w" "\<And>e. r = Inl e \<Longrightarrow> catchable e"
  shows "\<exists>w' om. pbind (pcatch (pbind f (\<lambda>x. preturn (mk x))) (\<lambda>e. plift (exception_reply L K junk msg e)))
      (\<lambda>response. pbind (server_send K response) (\<lambda>_. preturn Handled)) w = Some (Inr Handled, w') \<and>
    replies sent w' = replies sent w @ [om] \<and> reply_for msg om \<and> current_request w' = current_request w \<and>
    same_objects w w'"
proof -
  have d1: "sk_disp w1" using w1(2) d by (simp add: same_objects_def)
  have "\<exists>om. pcatch (pbind f (\<lambda>x. preturn (mk x))) (\<lambda>e. plift (exception_reply L K junk msg e)) w = Some (Inr om, w1)
      \<and> reply_for msg om"
  proof (cases r)
    case (Inl e)
    obtain om where "exception_reply L K junk msg e = ret om" "om_type om = ErrorReply" "om_reply_to om = im_serial msg"
      using exception_reply_ok [OF w1(5) [OF Inl], of L K junk msg] by blast
    with w1(1) Inl show ?thesis
      by (simp add: pcatch_def pbind_def preturn_def reply_for_def)
  next
    case (Inr x)
    with w1(1) ok show ?thesis by (simp add: pcatch_def pbind_def preturn_def)
  qed
  then obtain om where om: "pcatch (pbind f (\<lambda>x. preturn (mk x))) (\<lambda>e. plift (exception_reply L K junk msg e)) w = Some (Inr om, w1)"
    "reply_for msg om" by blast
  have "same_objects w (w1\<lparr>sconn := c\<rparr>)" for c
    by (rule same_objects_trans [OF w1(2) same_objects_sconn])
  with om w1 d1 show ?thesis
    by (auto simp: server_send_def preturn_def replies_def send_sent reply_for_def)
qed

lemma guarded_reply:
  assumes d: "sk_disp w" and f: "calm sent f" and ok: "\<And>x. reply_for msg (mk x)"
  shows "\<exists>w' om. pbind (pcatch (pbind f (\<lambda>x. preturn (mk x))) (\<lambda>e. plift (exception_reply L K junk msg e)))
      (\<lambda>response. pbind (server_send K response) (\<lambda>_. preturn Handled)) w = Some (Inr Handled, w') \<and>
    replies sent w' = replies sent w @ [om] \<and> reply_for msg om \<and> current_request w' = current_request w \<and>
    same_objects w w'"
proof -
  from calmD [OF f d] obtain r w1 where "f w = Some (r, w1)" "same_objects w w1"
    "replies sent w1 = replies sent w" "current_request w1 = current_request w" "\<And>e. r = Inl e \<Longrightarrow> catchable e"
    by blast
  then show ?thesis by (intro guarded_reply_at [where mk = mk and f = f] d ok)
qed

lemma get_request_replies:
  assumes d: "sk_disp w" and cb: "calm sent (read_cb U p)"
  shows "\<exists>w' om. handle_property_get_request L K junk U msg p w = Some (Inr Handled, w') \<and>
    replies sent w' = replies sent w @ [om] \<and> reply_for msg om \<and> current_request w' = current_request w \<and>
    same_objects w w'"
  unfolding handle_property_get_request_def
  by (rule guarded_reply [OF d sproperty_eval_calm [OF cb]]) (simp add: reply_for_def message_new_method_return_def)

text \<open>\<open>Set\<close> on a property that is not \<open>ReadWrite\<close> calls a pointer no constructor has set.\<close>

lemma set_request_read_only:
  "\<not> sp_rw (sprop_at w p) \<Longrightarrow>
     handle_property_set_request L K junk U msg p iter w = Some (Inl UndefinedBehaviour, w)"
  by (simp add: handle_property_set_request_def sproperty_eval_set_def pcatch_def pbind_def pthrow_def
      exception_reply_def plift_def throw_def)

lemma set_request_stores:
  assumes d: "sk_disp w" and rw: "sp_rw (sprop_at w p)" "\<not> sp_set_cb (sprop_at w p)"
    and i: "iface_of (sk_ifaces w) (sp_iface_id (sprop_at w p)) = Some i"
    and old: "sp_store (sprop_at w p) = Holds old"
    and dec: "PropertyCodec_decode L (sp_codec (sprop_at w p)) iter = ret (new, iter')"
  shows "\<exists>w'. handle_property_set_request L K junk U msg p iter w = Some (Inr Handled, w') \<and>
    sp_store (sprop_at w' p) = Holds new \<and> same_objects w w' \<and>
    sent (sconn w') = sent (sconn w) @
      (if sp_notifying (sprop_at w p) \<and> (sp_always (sprop_at w p) \<or> new \<noteq> old) then [change_msg p new i w] else [])
      @ [message_new_method_return msg (message_iter K)]"
proof -
  from assign_effect [OF d i old, of new] obtain w1 where
    w1: "sproperty_assign L K p new w = Some (Inr (), w1)" "sp_store (sprop_at w1 p) = Holds new"
      "sent (sconn w1) = sent (sconn w) @
        (if sp_notifying (sprop_at w p) \<and> (sp_always (sprop_at w p) \<or> new \<noteq> old) then [change_msg p new i w] else [])"
      "same_objects w w1" by blast
  have "sk_disp w1" using w1(4) d by (simp add: same_objects_def)
  with w1 rw dec same_objects_trans [OF w1(4) same_objects_sconn] show ?thesis
    by (simp add: handle_property_set_request_def sproperty_eval_set_def pcatch_def pbind_def preturn_def
        server_send_def send_sent)
qed

text \<open>Setting a property ends with or without an exception, but never in undefined behaviour.\<close>

lemma eval_set_calm:
  assumes d: "sk_disp w" and rw: "sp_rw (sprop_at w p)"
    and i: "iface_of (sk_ifaces w) (sp_iface_id (sprop_at w p)) = Some i"
    and dec: "PropertyCodec_decode L (sp_codec (sprop_at w p)) iter = throw DecoderError \<or>
      (\<exists>t it. PropertyCodec_decode L (sp_codec (sprop_at w p)) iter = ret (t, it))"
    and cb: "\<And>t. calm sent (set_cb U p t)"
  shows "\<exists>r w1. sproperty_eval_set L K U p iter w = Some (r, w1) \<and> same_objects w w1 \<and>
    replies sent w1 = replies sent w \<and> current_request w1 = current_request w \<and> (\<forall>e. r = Inl e \<longrightarrow> catchable e)"
  using dec
proof (elim disjE exE)
  assume "PropertyCodec_decode L (sp_codec (sprop_at w p)) iter = throw DecoderError"
  with rw show ?thesis
    by (simp add: sproperty_eval_set_def pbind_def pthrow_def plift_def throw_def catchable_def)
next
  fix t it
  assume t: "PropertyCodec_decode L (sp_codec (sprop_at w p)) iter = ret (t, it)"
  show ?thesis
  proof (cases "sp_set_cb (sprop_at w p)")
    case True
    with t rw have "sproperty_eval_set L K U p iter w = set_cb U p t w" by (simp add: sproperty_eval_set_def)
    with calmD [OF cb [of t] d] show ?thesis by metis
  next
    case False
    with t rw have e: "sproperty_eval_set L K U p iter w = sproperty_assign L K p t w"
      by (simp add: sproperty_eval_set_def)
    show ?thesis
    proof (cases "sp_store (sprop_at w p)")
      case (Holds old)
      from assign_effect [OF d i Holds, of t] show ?thesis by (auto simp: e replies_def)
    next
      case OnRead
      have "replies sent (set_store p x w) = replies sent w" "current_request (set_store p x w) = current_request w" for x
        by (simp_all add: replies_def set_store_def)
      moreover have "sproperty_assign L K p t w = (if sp_notifying (sprop_at w p) then Some (Inl BadVariantAccess, w)
          else Some (Inr (), set_store p (Holds t) w))"
        using OnRead assign_on_read_throws [of w p]
        by (simp add: sproperty_assign_def Assigner_eval_def pmodify_def)
      ultimately show ?thesis using same_objects_set_store [of w p "Holds t"]
        by (auto simp: e catchable_def)
    qed
  qed
qed

lemma set_request_replies:
  assumes d: "sk_disp w" and "sp_rw (sprop_at w p)" and "iface_of (sk_ifaces w) (sp_iface_id (sprop_at w p)) = Some i"
    and "PropertyCodec_decode L (sp_codec (sprop_at w p)) iter = throw DecoderError \<or>
      (\<exists>t it. PropertyCodec_decode L (sp_codec (sprop_at w p)) iter = ret (t, it))"
    and "\<And>t. calm sent (set_cb U p t)"
  shows "\<exists>w' om. handle_property_set_request L K junk U msg p iter w = Some (Inr Handled, w') \<and>
    replies sent w' = replies sent w @ [om] \<and> reply_for msg om"
proof -
  obtain r w1 where r: "sproperty_eval_set L K U p iter w = Some (r, w1)" "same_objects w w1"
    "replies sent w1 = replies sent w" "current_request w1 = current_request w" "\<And>e. r = Inl e \<Longrightarrow> catchable e"
    using eval_set_calm [OF assms] by blast
  have "reply_for msg (message_new_method_return msg (message_iter K))"
    by (simp add: reply_for_def message_new_method_return_def)
  note ok = this
  have "\<exists>w' om. handle_property_set_request L K junk U msg p iter w = Some (Inr Handled, w') \<and>
    replies sent w' = replies sent w @ [om] \<and> reply_for msg om \<and> current_request w' = current_request w \<and>
    same_objects w w'"
    unfolding handle_property_set_request_def
    by (rule guarded_reply_at [where f = "sproperty_eval_set L K U p iter" and mk = "\<lambda>_. message_new_method_return msg (message_iter K)", OF d ok r])
  then show ?thesis by blast
qed

text \<open>A value of another type: the property keeps its value and the caller gets an error.\<close>

lemma set_request_bad_value:
  assumes d: "sk_disp w" and rw: "sp_rw (sprop_at w p)"
    and dec: "PropertyCodec_decode L (sp_codec (sprop_at w p)) iter = throw DecoderError"
  shows "\<exists>w'. handle_property_set_request L K junk U msg p iter w = Some (Inr Handled, w') \<and>
    sprop_at w' = sprop_at w \<and>
    sent (sconn w') = sent (sconn w) @ [error_msg L K msg ''simppl.dbus.UnhandledException'']"
  using assms
  by (simp add: handle_property_set_request_def sproperty_eval_set_def pcatch_def pbind_def preturn_def
      pthrow_def plift_def throw_def ret_def exception_reply_def named_error_reply_eq [unfolded ret_def]
      server_send_def send_sent)

section \<open>GetAll\<close>

text \<open>The properties \<open>ps\<close> hold values, and \<open>pv\<close> are the D-Bus values they are sent as.\<close>

definition snapshot :: "('b, 'w, 'r, 'v, 'u) server \<Rightarrow> nat list \<Rightarrow> (nat \<Rightarrow> dval) \<Rightarrow> bool" where
  "snapshot w ps pv \<longleftrightarrow> (\<forall>p \<in> set ps. bvalid (BString (c_str (sp_name (sprop_at w p)))) \<and>
     (\<exists>x. sp_store (sprop_at w p) = Holds x \<and>
        appends_variant (\<lambda>iter. PropertyCodec_encode L (sp_codec (sprop_at w p)) iter x) (pv p)))"

lemma getall_entries_vals:
  "chain (\<lambda>p. sp_next (sprop_at w p)) pp ps \<Longrightarrow> snapshot w ps pv \<Longrightarrow>
     \<exists>it. getall_entries L U pp iter w = Some (Inr it, w) \<and> wk it = wk iter \<and>
       wv it = wv iter @ map (\<lambda>p. prop_entry (c_str (sp_name (sprop_at w p)), pv p)) ps"
proof (induction ps arbitrary: pp iter)
  case Nil
  then show ?case by (subst getall_entries.simps) (simp add: preturn_def)
next
  case (Cons p ps)
  let ?sp = "sprop_at w p"
  let ?item0 = "StringCodec_encode L (open_container L iter DBUS_TYPE_DICT_ENTRY None) (sp_name ?sp)"
  from Cons.prems(2) obtain x where x: "sp_store ?sp = Holds x" "bvalid (BString (c_str (sp_name ?sp)))"
    "appends_variant (\<lambda>iter. PropertyCodec_encode L (sp_codec ?sp) iter x) (pv p)"
    by (auto simp: snapshot_def)
  let ?item = "PropertyCodec_encode L (sp_codec ?sp) ?item0 x"
  have "wv ?item = [Basic (BString (c_str (sp_name ?sp))), Cont DBUS_TYPE_VARIANT (dsig (pv p)) [pv p]]"
    "wk ?item = (DBUS_TYPE_DICT_ENTRY, None)"
    using x by (simp_all add: appends_variant_def encode_string open_vals open_ctx)
  then have it1: "wv (close_container L iter ?item) = wv iter @ [prop_entry (c_str (sp_name ?sp), pv p)]"
    by (simp add: close_entry prop_entry_def)
  have tl: "chain (\<lambda>p. sp_next (sprop_at w p)) (sp_next ?sp) ps" "snapshot w ps pv" "pp = Some p"
    using Cons.prems by (auto simp: snapshot_def)
  from Cons.IH [OF tl(1,2), of "close_container L iter ?item"] obtain it where
    "getall_entries L U (sp_next ?sp) (close_container L iter ?item) w = Some (Inr it, w)"
    "wk it = wk iter" "wv it = wv (close_container L iter ?item) @
       map (\<lambda>p. prop_entry (c_str (sp_name (sprop_at w p)), pv p)) ps"
    by (auto simp: close_ctx)
  with it1 x(1) show ?case
    by (subst getall_entries.simps) (simp add: tl(3) sproperty_eval_def pbind_def preturn_def)
qed

lemma prop_entry_sig: "dsig (prop_entry e) = ''{sv}''"
  by (simp add: prop_entry_def)

lemma getall_request_vals:
  assumes d: "sk_disp w" and L: "lists_ok w ms ps gs" and i: "i < length (sk_ifaces w)" and sn: "snapshot w (ps i) pv"
  shows "\<exists>w' om. handle_property_getall_request L K U msg (int i) w = Some (Inr Handled, w') \<and>
    sent (sconn w') = sent (sconn w) @ [om] \<and> reply_for msg om \<and> om_type om = MethodReturn \<and>
    wv (om_body om) = [Cont DBUS_TYPE_ARRAY ''{sv}''
      (map (\<lambda>p. prop_entry (c_str (sp_name (sprop_at w p)), pv p)) (ps i))]"
proof -
  have ch: "chain (\<lambda>p. sp_next (sprop_at w p)) (property_heads w ! i) (ps i)"
    and hd: "head_at (property_heads w) (int i) = ret (property_heads w ! i)"
    using L i by (simp_all add: lists_ok_def head_at_def)
  let ?arr = "open_container L (message_iter K) DBUS_TYPE_ARRAY (Some ''{sv}'')"
  from getall_entries_vals [OF ch sn, of U ?arr] obtain it where
    it: "getall_entries L U (property_heads w ! i) ?arr w = Some (Inr it, w)"
      "wk it = (DBUS_TYPE_ARRAY, Some ''{sv}'')"
      "wv it = map (\<lambda>p. prop_entry (c_str (sp_name (sprop_at w p)), pv p)) (ps i)"
    by (auto simp: open_vals open_ctx)
  have "wv (close_container L (message_iter K) it) = [Cont DBUS_TYPE_ARRAY ''{sv}'' (wv it)]"
    using close_array [OF it(2), of "message_iter K"] it(3)
    by (simp add: new_message_empty list_all_iff prop_entry_sig)
  with it d hd show ?thesis
    by (simp add: handle_property_getall_request_def Let_def pbind_def preturn_def server_send_def send_sent
        reply_for_def message_new_method_return_def plift_def ret_def)
qed

text \<open>An exception of an \<open>on_read\<close> callback leaves \<open>GetAll\<close>, and with it the callback of libdbus.\<close>

lemma getall_request_throws:
  assumes "property_heads w ! i = Some p" and "i < length (property_heads w)"
    and "sp_store (sprop_at w p) = OnRead" and "read_cb U p = pthrow e"
  shows "handle_property_getall_request L K U msg (int i) w = Some (Inl e, w)"
  using assms
  by (subst handle_property_getall_request_def)
    (simp add: Let_def head_at_def plift_def ret_def pbind_def getall_entries.simps sproperty_eval_def pthrow_def)

section \<open>Changes arrive\<close>

text \<open>
  The client's property \<open>q\<close> has the codec of the server's property \<open>p\<close> and is the stub's
  property of that name. When the change message arrives, the callback is called with the value.
\<close>

lemma change_reaches_client:
  assumes c: "codec L bvalid wk wv rv (sp_codec (sprop_at w p)) ok cv" and x: "ok x"
    and names: "bvalid (BString (c_str i))" "bvalid (BString (c_str (sp_name (sprop_at w p))))"
    and a: "arrives wv rv (change_msg p x i w) msg"
    and q: "find_property cw (properties (stub_at cw s)) (c_str (sp_name (sprop_at w p))) = Some (q, flag)"
    and cod: "prop_codec (prop_at cw q) = sp_codec (sprop_at w p)"
  shows "stub_try_handle_signal L s msg cw = Some (Inr (), cw\<lparr>events := events cw @
    (if flag \<and> prop_cb (prop_at cw q) then [PropertyCallback q None x] else [])\<rparr>)"
proof -
  let ?n = "c_str (sp_name (sprop_at w p))"
  have m: "im_member msg = Some ''PropertiesChanged''" "c_str ''PropertiesChanged'' = ''PropertiesChanged''"
    using a by (simp_all add: arrives_def change_msg_def message_new_signal_def c_str_id NUL_def)
  have body: "rv (im_body msg) = Basic (BString (c_str i)) # [Cont DBUS_TYPE_ARRAY ''{sv}'' [prop_entry (?n, cv x)],
      Cont DBUS_TYPE_ARRAY ''s'' []]"
    using a change_body_vals [OF names property_encode_appends [OF c x]]
    by (simp add: arrives_def change_msg_def message_new_signal_def)
  let ?it = "iter_next L (im_body msg)"
  have it: "StringCodec_decode L (im_body msg) = ret (c_str i, ?it)"
    using StringCodec_decode_vals [OF body] by (simp add: c_str_nul_free)
  have r1: "rv ?it = Cont DBUS_TYPE_ARRAY ''{sv}'' [prop_entry (?n, cv x)] # [Cont DBUS_TYPE_ARRAY ''s'' []]"
    using next_vals [OF body] by simp
  have e1: "rv (iter_recurse L ?it) = map prop_entry [(?n, cv x)]"
    using recurse_vals [OF r1] by simp
  have e2: "rv (iter_recurse L (iter_next L ?it)) = map (\<lambda>n. Basic (BString n)) []"
    using recurse_vals [OF next_vals [OF r1]] by simp
  have "\<exists>it'. PropertyCodec_decode L (sp_codec (sprop_at w p)) item = ret (x, it')"
    if "rv item = [Cont DBUS_TYPE_VARIANT (dsig (cv x)) [cv x]]" for item
    using codec.dec_vals [OF property_ok [OF c] x, of item "[]"] that
    by (auto simp: property_val_def property_codec_def)
  then have dec: "decodable rv L cw (properties (stub_at cw s)) (\<lambda>_ _. x) [(?n, cv x)]"
    using q cod by (auto simp: decodable_def c_str_nul_free)
  have "change_events cw (properties (stub_at cw s)) False (\<lambda>_ _. x) [(?n, cv x)] =
      (if flag \<and> prop_cb (prop_at cw q) then [PropertyCallback q None x] else [])"
    by (simp add: change_events_def q)
  moreover have inv: "invalidated_loop L s (iter_recurse L (iter_next L ?it)) (cw\<lparr>events := es\<rparr>) =
      Some (Inr (), cw\<lparr>events := es\<rparr>)" for es
    using invalidated_loop_vals [OF e2, of s "cw\<lparr>events := es\<rparr>"] by (simp add: invalid_events_def)
  moreover have "invalidated_loop L s (iter_recurse L (iter_next L ?it)) cw = Some (Inr (), cw)"
    using inv [of "events cw"] by simp
  ultimately show ?thesis
    using changed_loop_vals [OF e1 dec]
    by (simp add: stub_try_handle_signal_def m it invalid_events_def)
qed

end

end
