(* ===== verification/Requests.thy ===== *)
theory Requests
  imports Dispatcher CallStates PropertyServing
begin

text \<open>
  Requests of a stub (\<open>src/stubbase.cpp\<close>, \<open>include/simppl/clientside.h\<close>, \<open>detail/holders.h\<close>,
  \<open>src/holders.cpp\<close>, \<open>src/properties.cpp\<close>, \<open>timeout.h\<close>): blocking and asynchronous calls of
  methods, reading and writing properties, and their timeouts.
\<close>

section \<open>State\<close>

text \<open>
  The thread's \<open>request_specific_timeout\<close> and \<open>timeout\<close> beside the stubs' world; both count
  milliseconds.
\<close>

record ('b, 'w, 'r, 'v) client =
  objs :: "('b, 'w, 'r, 'v) dworld"
  specific_timeout :: int
  timeout_value :: int

text \<open>\<open>ClientMethodBase\<close>: \<open>cm_throw\<close> builds the exception \<open>throw_\<close> throws.\<close>

record 'r client_method =
  cm_name :: string
  cm_throw :: "'r in_msg \<Rightarrow> exn res"

record pending_call =
  pc_serial :: "32 word"
  pc_pending :: "nat option"

definition upd_conn :: "('b \<Rightarrow> 'b) \<Rightarrow> ('b, 'w, 'r, 'v) client \<Rightarrow> ('b, 'w, 'r, 'v) client" where
  "upd_conn f c = c\<lparr>objs := upd_dispatcher (\<lambda>d. d\<lparr>conn := f (conn d)\<rparr>) (objs c)\<rparr>"

definition conn_of :: "('b, 'w, 'r, 'v) client \<Rightarrow> 'b" where
  "conn_of c = conn (disp (objs c))"

definition the_stub :: "nat \<Rightarrow> ('b, 'w, 'r, 'v) client \<Rightarrow> stub" where
  "the_stub s c = stub_at (objs c) s"

section \<open>Timeouts\<close>

text \<open>\<open>timeout = duration\<close> and the \<open>operator[]\<close> of methods and of \<open>get_all_properties\<close>.\<close>

definition set_timeout_value :: "int \<Rightarrow> ('b, 'w, 'r, 'v) client \<Rightarrow> ('b, 'w, 'r, 'v) client" where
  "set_timeout_value ms c = c\<lparr>timeout_value := ms\<rparr>"

definition with_flags :: "32 word \<Rightarrow> ('b, 'w, 'r, 'v) client \<Rightarrow> ('b, 'w, 'r, 'v) client" where
  "with_flags flags c = (if bit flags 0 then c\<lparr>specific_timeout := timeout_value c\<rparr> else c)"

text \<open>\<open>TimeoutRAIIHelper\<close>: its value, and its destructor at the end of the call.\<close>

definition helper_timeout :: "('b, 'w, 'r, 'v) client \<Rightarrow> int" where
  "helper_timeout c =
     (if specific_timeout c > 0 then specific_timeout c else request_timeout (disp (objs c)))"

definition helper_destroyed :: "('b, 'w, 'r, 'v) client \<Rightarrow> ('b, 'w, 'r, 'v) client" where
  "helper_destroyed c = c\<lparr>specific_timeout := 0\<rparr>"

section \<open>Sending\<close>

definition with_reply ::
  "('b, 'w, 'r) dbus_conn_api \<Rightarrow> 'w out_msg \<Rightarrow> int \<Rightarrow> (('b, 'w, 'r, 'v) client, nat) prog" where
  "with_reply K msg t c =
     (case send_with_reply K (conn_of c) msg t of (p, b) \<Rightarrow> preturn p (upd_conn (\<lambda>_. b) c))"

definition block ::
  "('b, 'w, 'r) dbus_conn_api \<Rightarrow> nat \<Rightarrow> (('b, 'w, 'r, 'v) client, 'r in_msg) prog" where
  "block K pending c = (case call_block K (conn_of c) pending of (reply, b) \<Rightarrow> preturn reply (upd_conn (\<lambda>_. b) c))"

text \<open>\<open>disp()\<close> on a stub without a dispatcher.\<close>

definition need_disp :: "nat \<Rightarrow> (('b, 'w, 'r, 'v) client, unit) prog" where
  "need_disp s c = (if has_disp (the_stub s c) then preturn () c else pthrow UndefinedBehaviour c)"

definition method_msg ::
  "('b, 'w, 'r) dbus_conn_api \<Rightarrow> stub \<Rightarrow> string \<Rightarrow> ('w \<Rightarrow> 'w) \<Rightarrow> 'w out_msg" where
  "method_msg K st method f =
     message_new_method_call (c_str (busname st)) (c_str (objectpath st)) (stub_iface st) method (f (message_iter K))"

definition send_request ::
  "('b, 'w, 'r) dbus_conn_api \<Rightarrow> nat \<Rightarrow> 'r client_method \<Rightarrow> ('w \<Rightarrow> 'w) \<Rightarrow> bool
     \<Rightarrow> (('b, 'w, 'r, 'v) client, pending_call) prog" where
  "send_request K s m f is_oneway =
     pbind (need_disp s) (\<lambda>_ c.
       let msg = method_msg K (the_stub s c) (cm_name m) f in
       if \<not> is_oneway then
         pbind (with_reply K msg (helper_timeout c)) (\<lambda>pending c.
           preturn \<lparr>pc_serial = last_serial K (conn_of c), pc_pending = Some pending\<rparr> (helper_destroyed c)) c
       else
         (let c = upd_conn (\<lambda>b. connection_send K b (msg\<lparr>om_no_reply := True\<rparr>)) c in
          preturn \<lparr>pc_serial = last_serial K (conn_of c), pc_pending = None\<rparr> c))"

text \<open>The reply, absent for a oneway request.\<close>

definition send_request_and_block ::
  "('b, 'w, 'r) dbus_conn_api \<Rightarrow> nat \<Rightarrow> 'r client_method \<Rightarrow> ('w \<Rightarrow> 'w) \<Rightarrow> bool
     \<Rightarrow> (('b, 'w, 'r, 'v) client, 'r in_msg option) prog" where
  "send_request_and_block K s m f is_oneway =
     pbind (need_disp s) (\<lambda>_ c.
       let msg = method_msg K (the_stub s c) (cm_name m) f in
       if \<not> is_oneway then
         pbind (with_reply K msg (helper_timeout c)) (\<lambda>pending c.
         pbind (block K pending) (\<lambda>rc.
           if im_type rc = ErrorReply then pbind (plift (cm_throw m rc)) pthrow else preturn (Some rc))
           (helper_destroyed c)) c
       else preturn None (upd_conn (\<lambda>b. connection_send K b (msg\<lparr>om_no_reply := True\<rparr>)) c))"

text \<open>
  \<open>ClientMethod::operator()\<close> with \<open>deserialize_and_return\<close>: \<open>ret_dec\<close> decodes the return value,
  and does not look at the message for \<open>void\<close>.
\<close>

definition method_call ::
  "('b, 'w, 'r) dbus_conn_api \<Rightarrow> nat \<Rightarrow> 'r client_method \<Rightarrow> bool \<Rightarrow> ('w \<Rightarrow> 'w) \<Rightarrow> ('r \<Rightarrow> ('a \<times> 'r) res) option
     \<Rightarrow> (('b, 'w, 'r, 'v) client, 'a option) prog" where
  "method_call K s m is_oneway f ret_dec =
     pbind (send_request_and_block K s m f is_oneway) (\<lambda>msg.
       case (ret_dec, msg) of
         (None, _) \<Rightarrow> preturn None
       | (Some d, Some rc) \<Rightarrow> pbind (plift (d (im_body rc))) (\<lambda>(x, iter). preturn (Some x))
       | (Some d, None) \<Rightarrow> pthrow UndefinedBehaviour)"

text \<open>\<open>ClientMethod::__throw\<close> for a method without an exception class of its own.\<close>

definition Error_throw :: "('w, 'r) dbus_iter_api \<Rightarrow> (nat \<Rightarrow> char) \<Rightarrow> 'r in_msg \<Rightarrow> exn res" where
  "Error_throw L junk msg = rbind (ErrorFactory_Error_init L junk Error_default msg) (\<lambda>(e, iter). ret (ErrorExn e))"

section \<open>Properties and GetAll\<close>

definition properties_msg ::
  "('b, 'w, 'r) dbus_conn_api \<Rightarrow> stub \<Rightarrow> string \<Rightarrow> 'w \<Rightarrow> 'w out_msg" where
  "properties_msg K st method body =
     message_new_method_call (c_str (busname st)) (c_str (objectpath st)) ''org.freedesktop.DBus.Properties'' method body"

definition name_args :: "('w, 'r) dbus_iter_api \<Rightarrow> ('b, 'w, 'r) dbus_conn_api \<Rightarrow> stub \<Rightarrow> string \<Rightarrow> 'w" where
  "name_args L K st name = StringCodec_encode L (StringCodec_encode L (message_iter K) (stub_iface st)) name"

text \<open>The four property requests use the dispatcher's timeout.\<close>

definition get_property_async ::
  "('w, 'r) dbus_iter_api \<Rightarrow> ('b, 'w, 'r) dbus_conn_api \<Rightarrow> nat \<Rightarrow> string \<Rightarrow> (('b, 'w, 'r, 'v) client, pending_call) prog" where
  "get_property_async L K s name =
     pbind (need_disp s) (\<lambda>_ c.
       pbind (with_reply K (properties_msg K (the_stub s c) ''Get'' (name_args L K (the_stub s c) name))
                (request_timeout (disp (objs c)))) (\<lambda>pending c.
         preturn \<lparr>pc_serial = last_serial K (conn_of c), pc_pending = Some pending\<rparr> c) c)"

definition set_property_async ::
  "('w, 'r) dbus_iter_api \<Rightarrow> ('b, 'w, 'r) dbus_conn_api \<Rightarrow> nat \<Rightarrow> string \<Rightarrow> ('w \<Rightarrow> 'w)
     \<Rightarrow> (('b, 'w, 'r, 'v) client, pending_call) prog" where
  "set_property_async L K s name f =
     pbind (need_disp s) (\<lambda>_ c.
       pbind (with_reply K (properties_msg K (the_stub s c) ''Set'' (f (name_args L K (the_stub s c) name)))
                (request_timeout (disp (objs c)))) (\<lambda>pending c.
         preturn \<lparr>pc_serial = last_serial K (conn_of c), pc_pending = Some pending\<rparr> c) c)"

text \<open>\<open>dbus_connection_send_with_reply_and_block\<close>: an error is thrown as \<open>Error\<close>.\<close>

definition request_and_block ::
  "('b, 'w, 'r) dbus_conn_api \<Rightarrow> (nat \<Rightarrow> char) \<Rightarrow> 'w out_msg \<Rightarrow> (('b, 'w, 'r, 'v) client, 'r in_msg) prog" where
  "request_and_block K junk msg c =
     (case send_and_block K (conn_of c) msg (request_timeout (disp (objs c))) of
        (Inl err, b) \<Rightarrow>
          (case Error_new junk (de_name err) (Some (de_message err)) SIMPPL_INVALID_SERIAL of
             None \<Rightarrow> pthrow UndefinedBehaviour (upd_conn (\<lambda>_. b) c)
           | Some ex \<Rightarrow> pthrow (ErrorExn ex) (upd_conn (\<lambda>_. b) c))
      | (Inr reply, b) \<Rightarrow> preturn reply (upd_conn (\<lambda>_. b) c))"

definition get_property ::
  "('w, 'r) dbus_iter_api \<Rightarrow> ('b, 'w, 'r) dbus_conn_api \<Rightarrow> (nat \<Rightarrow> char) \<Rightarrow> nat \<Rightarrow> string
     \<Rightarrow> (('b, 'w, 'r, 'v) client, 'r in_msg) prog" where
  "get_property L K junk s name =
     pbind (need_disp s) (\<lambda>_ c.
       request_and_block K junk (properties_msg K (the_stub s c) ''Get'' (name_args L K (the_stub s c) name)) c)"

definition set_property ::
  "('w, 'r) dbus_iter_api \<Rightarrow> ('b, 'w, 'r) dbus_conn_api \<Rightarrow> (nat \<Rightarrow> char) \<Rightarrow> nat \<Rightarrow> string \<Rightarrow> ('w \<Rightarrow> 'w)
     \<Rightarrow> (('b, 'w, 'r, 'v) client, unit) prog" where
  "set_property L K junk s name f =
     pbind (need_disp s) (\<lambda>_ c.
       pbind (request_and_block K junk (properties_msg K (the_stub s c) ''Set'' (f (name_args L K (the_stub s c) name))))
         (\<lambda>_. preturn ()) c)"

text \<open>\<open>ClientProperty::get\<close>, \<open>set\<close>.\<close>

definition cproperty_get ::
  "('w, 'r) dbus_iter_api \<Rightarrow> ('b, 'w, 'r) dbus_conn_api \<Rightarrow> (nat \<Rightarrow> char) \<Rightarrow> nat \<Rightarrow> nat
     \<Rightarrow> (('b, 'w, 'r, 'v) client, 'v) prog" where
  "cproperty_get L K junk s p c =
     pbind (get_property L K junk s (c_str (prop_name (prop_at (objs c) p)))) (\<lambda>msg.
       pbind (plift (PropertyCodec_decode L (prop_codec (prop_at (objs c) p)) (im_body msg))) (\<lambda>(t, iter).
         preturn t)) c"

definition cproperty_set ::
  "('w, 'r) dbus_iter_api \<Rightarrow> ('b, 'w, 'r) dbus_conn_api \<Rightarrow> (nat \<Rightarrow> char) \<Rightarrow> nat \<Rightarrow> nat \<Rightarrow> 'v
     \<Rightarrow> (('b, 'w, 'r, 'v) client, unit) prog" where
  "cproperty_set L K junk s p t c =
     set_property L K junk s (c_str (prop_name (prop_at (objs c) p)))
       (\<lambda>iter. PropertyCodec_encode L (prop_codec (prop_at (objs c) p)) iter t) c"

text \<open>\<open>ClientProperty::attach\<close>: attach, then ask for the value.\<close>

definition on_objs :: "(('b, 'w, 'r, 'v) dworld, 'a) prog \<Rightarrow> (('b, 'w, 'r, 'v) client, 'a) prog" where
  "on_objs m = on_part objs (\<lambda>w c. c\<lparr>objs := w\<rparr>) m"

definition cproperty_attach ::
  "('w, 'r) dbus_iter_api \<Rightarrow> ('b, 'w, 'r) dbus_conn_api \<Rightarrow> nat \<Rightarrow> nat \<Rightarrow> (('b, 'w, 'r, 'v) client, pending_call) prog" where
  "cproperty_attach L K s p =
     pbind (on_objs (attach_property (register_signal_match K) s p)) (\<lambda>_ c.
       get_property_async L K s (c_str (prop_name (prop_at (objs c) p))) c)"

section \<open>GetAll\<close>

definition getall_msg :: "('w, 'r) dbus_iter_api \<Rightarrow> ('b, 'w, 'r) dbus_conn_api \<Rightarrow> stub \<Rightarrow> 'w out_msg" where
  "getall_msg L K st = properties_msg K st ''GetAll'' (StringCodec_encode L (message_iter K) (stub_iface st))"

definition get_all_properties_handle_response ::
  "('w, 'r) dbus_iter_api \<Rightarrow> (nat \<Rightarrow> char) \<Rightarrow> nat \<Rightarrow> 'r in_msg \<Rightarrow> bool
     \<Rightarrow> (('b, 'w, 'r, 'v) client, unit call_state) prog" where
  "get_all_properties_handle_response L junk s response throws =
     pbind (if throws \<and> im_type response = ErrorReply
            then pbind (plift (Error_throw L junk response)) pthrow else preturn ()) (\<lambda>_.
     pbind (plift (CallState_msg
              (\<lambda>msg. rbind (ErrorFactory_Error_init L junk Error_default msg) (\<lambda>(e, iter). ret (e, ()))) response)) (\<lambda>cs.
     pbind (if call_ok cs then on_objs (getall_loop L s (iter_recurse L (im_body response))) else preturn ()) (\<lambda>_.
     preturn cs)))"

definition get_all_properties_request ::
  "('w, 'r) dbus_iter_api \<Rightarrow> ('b, 'w, 'r) dbus_conn_api \<Rightarrow> (nat \<Rightarrow> char) \<Rightarrow> nat
     \<Rightarrow> (('b, 'w, 'r, 'v) client, unit) prog" where
  "get_all_properties_request L K junk s =
     pbind (need_disp s) (\<lambda>_ c.
       pbind (with_reply K (getall_msg L K (the_stub s c)) (helper_timeout c)) (\<lambda>pending c.
       pbind (block K pending) (\<lambda>msg.
       pbind (get_all_properties_handle_response L junk s msg True) (\<lambda>cs. preturn ())) (helper_destroyed c)) c)"

definition get_all_properties_request_async ::
  "('w, 'r) dbus_iter_api \<Rightarrow> ('b, 'w, 'r) dbus_conn_api \<Rightarrow> nat \<Rightarrow> (('b, 'w, 'r, 'v) client, pending_call) prog" where
  "get_all_properties_request_async L K s =
     pbind (need_disp s) (\<lambda>_ c.
       pbind (with_reply K (getall_msg L K (the_stub s c)) (helper_timeout c)) (\<lambda>pending c.
         preturn \<lparr>pc_serial = last_serial K (conn_of c), pc_pending = Some pending\<rparr> (helper_destroyed c)) c)"

section \<open>Callbacks of asynchronous requests\<close>

text \<open>
  What the callback is called with when the reply arrives. \<open>CallbackHolder::pending_notify\<close>
  decodes the return values unless the call failed; else the tuple is a default one, \<open>t0\<close>.
\<close>

definition CallbackHolder_notify ::
  "('r in_msg \<Rightarrow> (error_obj \<times> 'm) res) \<Rightarrow> ('r \<Rightarrow> ('a \<times> 'r) res) \<Rightarrow> 'a \<Rightarrow> 'r in_msg \<Rightarrow> ('m call_state \<times> 'a) res" where
  "CallbackHolder_notify init d t0 msg =
     rbind (CallState_msg init msg) (\<lambda>cs.
       if call_ok cs then rbind (d (im_body msg)) (\<lambda>(t, iter). ret (cs, t)) else ret (cs, t0))"

text \<open>\<open>PropertyCallbackHolder::pending_notify\<close> decodes a \<open>std::variant<DataT>\<close>.\<close>

definition PropertyCallbackHolder_notify ::
  "('w, 'r) dbus_iter_api \<Rightarrow> ('r in_msg \<Rightarrow> (error_obj \<times> 'm) res) \<Rightarrow> ('w, 'r, 'a) codec \<Rightarrow> 'a \<Rightarrow> 'r in_msg
     \<Rightarrow> ('m call_state \<times> 'a) res" where
  "PropertyCallbackHolder_notify L init c t0 msg =
     rbind (CallState_msg init msg) (\<lambda>cs.
       if call_ok cs then rbind (variant_decode L (alts_last L c) t0 (im_body msg)) (\<lambda>(v, iter). ret (cs, v))
       else ret (cs, t0))"

text \<open>\<open>GetAllPropertiesHolder::pending_notify\<close>\<close>

definition GetAllPropertiesHolder_notify ::
  "('w, 'r) dbus_iter_api \<Rightarrow> (nat \<Rightarrow> char) \<Rightarrow> nat \<Rightarrow> 'r in_msg \<Rightarrow> (('b, 'w, 'r, 'v) client, unit call_state) prog" where
  "GetAllPropertiesHolder_notify L junk s msg = get_all_properties_handle_response L junk s msg False"

end
