(* ===== verification/Connections.thy ===== *)
theory Connections
  imports Dispatcher
begin

text \<open>
  The connection state of the stubs: what \<open>NameOwnerChanged\<close> and \<open>notify_client\<close> do to it,
  and the invariant that a stub is only connected while its bus name exists.
\<close>

section \<open>Stubs that change state\<close>

lemma state_changed_world:
  "stub_at (state_changed s x force w) = (stub_at w)(s := stub_at w s\<lparr>conn_state := x\<rparr>)"
  "disp (state_changed s x force w) = disp w"
  "sig_at (state_changed s x force w) = sig_at w"
  "prop_at (state_changed s x force w) = prop_at w"
  by (auto simp: state_changed_def Let_def fun_eq_iff)

lemma state_changed_events:
  "events (state_changed s x force w) = events w @
     (if (conn_state (stub_at w s) \<noteq> x \<or> force) \<and> connected_cb (stub_at w s) then [ConnectedCallback s x] else [])"
  by (auto simp: state_changed_def Let_def)

lemma fold_state_changed:
  "stub_at (fold (\<lambda>s. state_changed s x force) ss w) =
     (\<lambda>t. if t \<in> set ss then stub_at w t\<lparr>conn_state := x\<rparr> else stub_at w t) \<and>
   disp (fold (\<lambda>s. state_changed s x force) ss w) = disp w"
proof (induction ss arbitrary: w)
  case Nil
  then show ?case by simp
next
  case (Cons s ss)
  then show ?case by (auto simp: state_changed_world fun_eq_iff)
qed

lemma busname_conn_state [simp]:
  "busname (st\<lparr>conn_state := x\<rparr>) = busname st" "objectpath (st\<lparr>conn_state := x\<rparr>) = objectpath st"
  by simp_all

lemma notify_clients_fold:
  "fold (\<lambda>e w. if bname = busname (stub_at w (snd e)) then state_changed (snd e) state False w else w) es w =
   fold (\<lambda>s. state_changed s state False) (filter (\<lambda>s. busname (stub_at w s) = bname) (map snd es)) w"
proof (induction es arbitrary: w)
  case Nil
  then show ?case by simp
next
  case (Cons e es)
  have "busname (stub_at (state_changed (snd e) state False w) t) = busname (stub_at w t)" for t
    by (simp add: state_changed_world)
  with Cons show ?case by simp
qed

lemma fold_state_changed_sig_at [simp]: "sig_at (fold (\<lambda>s. state_changed s x force) ss w) = sig_at w"
  by (induction ss arbitrary: w) (simp_all add: state_changed_world)

lemma notify_clients_world:
  "sig_at (notify_clients bname x w) = sig_at w"
  "stub_at (notify_clients bname x w) = (\<lambda>t. if t \<in> snd ` set (dstubs (disp w)) \<and> busname (stub_at w t) = bname
     then stub_at w t\<lparr>conn_state := x\<rparr> else stub_at w t)"
  "disp (notify_clients bname x w) = disp w"
  unfolding notify_clients_def notify_clients_fold
  using fold_state_changed [of x False "filter (\<lambda>s. busname (stub_at w s) = bname) (map snd (dstubs (disp w)))" w]
  by (simp_all add: fun_eq_iff)

lemma notify_client_world:
  "sig_at (notify_client b k w) = sig_at w"
  "stub_at (notify_client b k w) = (\<lambda>t. if t \<in> set (equal_range (dstubs (disp w)) k)
     then stub_at w t\<lparr>conn_state := Connected\<rparr> else stub_at w t)"
  "disp (notify_client b k w) = disp w"
  using fold_state_changed [of Connected True "equal_range (dstubs (disp w)) k" w]
  by (simp_all add: notify_client_def)

lemma equal_range_in: "s \<in> set (equal_range m k) \<longleftrightarrow> (k, s) \<in> set m"
  by (force simp: equal_range_def)

section \<open>Callbacks\<close>

lemma fold_state_changed_events:
  "distinct ss \<Longrightarrow> events (fold (\<lambda>s. state_changed s x force) ss w) = events w @
     map (\<lambda>s. ConnectedCallback s x)
       (filter (\<lambda>s. (conn_state (stub_at w s) \<noteq> x \<or> force) \<and> connected_cb (stub_at w s)) ss)"
proof (induction ss arbitrary: w)
  case Nil
  then show ?case by simp
next
  case (Cons s ss)
  then have "filter (\<lambda>t. (conn_state (stub_at (state_changed s x force w) t) \<noteq> x \<or> force)
        \<and> connected_cb (stub_at (state_changed s x force w) t)) ss =
      filter (\<lambda>t. (conn_state (stub_at w t) \<noteq> x \<or> force) \<and> connected_cb (stub_at w t)) ss"
    by (intro filter_cong) (auto simp: state_changed_world)
  with Cons show ?case by (simp add: state_changed_events)
qed

section \<open>Connected only while the bus name exists\<close>

text \<open>\<open>M\<close> are the stubs for which nothing is claimed.\<close>

definition conn_inv :: "nat set \<Rightarrow> ('b, 'w, 'r, 'v) dworld \<Rightarrow> bool" where
  "conn_inv M w \<longleftrightarrow> (\<forall>s \<in> snd ` set (dstubs (disp w)) - M.
     conn_state (stub_at w s) = Connected \<longrightarrow> busname (stub_at w s) \<in> busnames (disp w))"

lemma name_owner_changed_conn_inv [inv_intros]:
  "conn_inv M w \<Longrightarrow> conn_inv M (name_owner_changed b old new w)"
  by (auto simp: conn_inv_def name_owner_changed_def notify_clients_world upd_dispatcher_def)

lemma notify_client_conn_inv [inv_intros]:
  assumes "conn_inv M w" and "b \<in> busnames (disp w)"
    and "\<forall>s \<in> set (equal_range (dstubs (disp w)) k) - M. busname (stub_at w s) = b"
  shows "conn_inv M (notify_client b k w)"
  using assms by (auto simp: conn_inv_def notify_client_world)

lemma stubs_emplace_set: "set (stubs_emplace k s m) = insert (k, s) (set m)"
  by (induction k s m rule: stubs_emplace.induct) auto

lemma add_client_world:
  "stub_at (add_client L K self s w) = (stub_at w)(s := stub_at w s\<lparr>has_disp := True\<rparr>)"
  "sig_at (add_client L K self s w) = sig_at w"
  "set (dstubs (disp (add_client L K self s w))) = insert (c_str (objectpath (stub_at w s)), s) (set (dstubs (disp w)))"
  "busnames (disp (add_client L K self s w)) = busnames (disp w)"
  "signal_matches (disp (add_client L K self s w)) = signal_matches (disp w)"
  by (auto simp: add_client_def Let_def upd_dispatcher_def notify_connected_def stubs_emplace_set)

lemma add_client_conn_inv [inv_intros]:
  "conn_inv M w \<Longrightarrow> conn_state (stub_at w s) = Disconnected \<Longrightarrow> conn_inv M (add_client L K self s w)"
  by (auto simp: conn_inv_def add_client_world)

text \<open>Ordinary signals reach callbacks only; no stub changes.\<close>

lemma property_eval_frame:
  "property_eval L p it w = Some (r, w') \<Longrightarrow> stub_at w' = stub_at w \<and> disp w' = disp w \<and> sig_at w' = sig_at w"
  by (auto simp: property_eval_def pbind_eq_Some plift_def pmodify_def preturn_def pthrow_def
      split: if_splits option.splits)

lemma signal_eval_frame:
  "signal_eval g it w = Some (r, w') \<Longrightarrow> stub_at w' = stub_at w \<and> disp w' = disp w \<and> sig_at w' = sig_at w"
  by (auto simp: signal_eval_def pbind_eq_Some plift_def pmodify_def split: if_splits)

lemma find_eval_frame:
  assumes "(case find_property w ps n of
      Some (p, flag) \<Rightarrow> if flag then property_eval L p it else preturn ()
    | None \<Rightarrow> preturn ()) u = Some (r, u')"
  shows "stub_at u' = stub_at u \<and> disp u' = disp u \<and> sig_at u' = sig_at u"
  using assms by (auto split: option.splits if_splits dest: property_eval_frame)

lemma changed_loop_frame:
  "changed_loop L s it w = Some x \<Longrightarrow> stub_at (snd x) = stub_at w \<and> disp (snd x) = disp w \<and> sig_at (snd x) = sig_at w"
proof (induction L s it w x rule: changed_loop.raw_induct [rotated, consumes 1, case_names 1])
  case (1 loop L s iter w x)
  obtain r w' where x: "x = (r, w')" by (cases x)
  have IH: "stub_at w' = stub_at u \<and> disp w' = disp u \<and> sig_at w' = sig_at u" if "loop L s it u = Some (r, w')" for it u
    using 1(1) [OF that] by simp
  from 1(2) show ?case
    by (auto simp: x pbind_eq_Some plift_def split: if_splits dest!: IH find_eval_frame)
qed

lemma invalidated_loop_frame:
  "invalidated_loop L s it w = Some x \<Longrightarrow> stub_at (snd x) = stub_at w \<and> disp (snd x) = disp w \<and> sig_at (snd x) = sig_at w"
proof (induction L s it w x rule: invalidated_loop.raw_induct [rotated, consumes 1, case_names 1])
  case (1 loop L s iter w x)
  obtain r w' where x: "x = (r, w')" by (cases x)
  have IH: "stub_at w' = stub_at u \<and> disp w' = disp u \<and> sig_at w' = sig_at u" if "loop L s it u = Some (r, w')" for it u
    using 1(1) [OF that] by simp
  from 1(2) show ?case
    by (auto simp: x pbind_eq_Some plift_def split: if_splits dest!: IH find_eval_frame)
qed

lemma signal_loop_frame:
  "signal_loop m it sig w = Some x \<Longrightarrow> stub_at (snd x) = stub_at w \<and> disp (snd x) = disp w \<and> sig_at (snd x) = sig_at w"
proof (induction m it sig w x rule: signal_loop.raw_induct [rotated, consumes 1, case_names 1])
  case (1 loop m it sig w x)
  obtain r w' where x: "x = (r, w')" by (cases x)
  have IH: "stub_at w' = stub_at w \<and> disp w' = disp w \<and> sig_at w' = sig_at w" if "loop m it p w = Some (r, w')" for p
    using 1(1) [OF that] by simp
  from 1(2) show ?case
    by (auto simp: x split: option.splits if_splits dest!: IH signal_eval_frame)
qed

lemma stub_signal_frame:
  assumes "stub_try_handle_signal L s msg w = Some (r, w')"
  shows "stub_at w' = stub_at w \<and> disp w' = disp w \<and> sig_at w' = sig_at w"
  using assms
  by (auto simp: stub_try_handle_signal_def pbind_eq_Some plift_def split: option.splits if_splits
      dest!: changed_loop_frame invalidated_loop_frame signal_loop_frame)

lemma pfor_frame:
  assumes "\<And>s w r w'. f s w = Some (r, w') \<Longrightarrow> stub_at w' = stub_at w \<and> disp w' = disp w \<and> sig_at w' = sig_at w"
  shows "pfor ss f w = Some (r, w') \<Longrightarrow> stub_at w' = stub_at w \<and> disp w' = disp w \<and> sig_at w' = sig_at w"
proof (induction ss arbitrary: w)
  case Nil
  then show ?case by simp
next
  case (Cons s ss)
  then show ?case using assms by (auto simp: pbind_eq_Some)
qed

text \<open>
  The stubs a \<open>notify_client\<close> signal misleads: those at its object path that have another bus name
  than the one it carries.
\<close>

definition misled :: "('w, 'r) dbus_iter_api \<Rightarrow> 'r in_msg \<Rightarrow> ('b, 'w, 'r, 'v) dworld \<Rightarrow> nat set" where
  "misled L msg w =
     (if map_option c_str (im_member msg) = Some ''notify_client'' then
        (case decode2 L (im_body msg) of
           Some (Inr (b, k)) \<Rightarrow> set (filter (\<lambda>s. busname (stub_at w s) \<noteq> b) (equal_range (dstubs (disp w)) k))
         | _ \<Rightarrow> {})
      else {})"

lemma try_handle_signal_conn_inv [inv_intros]:
  assumes inv: "conn_inv M w" and a: "misled L msg w \<subseteq> M" and run: "try_handle_signal L msg w = Some (r, w')"
  shows "conn_inv M w'"
proof -
  have same: "conn_inv M w''" if "stub_at w'' = stub_at w" "disp w'' = disp w" for w''
    using inv that by (simp add: conn_inv_def)
  show ?thesis
  proof (cases "im_type msg = Signal")
    case False
    with run inv show ?thesis by (simp add: try_handle_signal_def)
  next
    case True
    show ?thesis
    proof (cases "im_member msg")
      case None
      with run True inv show ?thesis by (simp add: try_handle_signal_def)
    next
      case (Some m)
      consider "c_str m = ''notify_client''" | "c_str m = ''NameOwnerChanged''"
        | "c_str m \<noteq> ''notify_client''" "c_str m \<noteq> ''NameOwnerChanged''" by blast
      then show ?thesis
      proof cases
        case 1
        have go: "try_handle_signal L msg w = pbind (plift (decode2 L (im_body msg)))
            (\<lambda>(b, k) w. preturn Handled (if b \<in> busnames (disp w) then notify_client b k w else w)) w"
          using True Some 1 by (simp add: try_handle_signal_def pbind_def)
        show ?thesis
        proof (cases "w' = w")
          case True
          with inv show ?thesis by simp
        next
          case False
          with run go obtain b k where d: "decode2 L (im_body msg) = Some (Inr (b, k))" "b \<in> busnames (disp w)"
            "w' = notify_client b k w"
            by (auto simp: pbind_eq_Some plift_def preturn_def split: if_splits)
          with 1 Some a have "\<forall>s \<in> set (equal_range (dstubs (disp w)) k) - M. busname (stub_at w s) = b"
            by (auto simp: misled_def)
          with d notify_client_conn_inv [OF inv] show ?thesis by simp
        qed
      next
        case 2
        with run True Some inv name_owner_changed_conn_inv [OF inv] show ?thesis
          by (auto simp: try_handle_signal_def pbind_eq_Some plift_def)
      next
        case 3
        have fr: "stub_at w' = stub_at w \<and> disp w' = disp w \<and> sig_at w' = sig_at w"
          if "pfor ss (\<lambda>s. stub_try_handle_signal L s msg) w = Some (r, w')" for ss r
          using that by (rule pfor_frame [rotated]) (rule stub_signal_frame)
        from run True Some 3 have "stub_at w' = stub_at w \<and> disp w' = disp w \<and> sig_at w' = sig_at w"
          by (auto dest!: fr simp: try_handle_signal_def Let_def pbind_eq_Some split: option.splits if_splits)
        with same show ?thesis by blast
      qed
    qed
  qed
qed

text \<open>What a signal may change at all.\<close>

lemma name_owner_changed_frame:
  "(\<forall>t. \<exists>x. stub_at (name_owner_changed b old new w) t = stub_at w t\<lparr>conn_state := x\<rparr>) \<and>
   sig_at (name_owner_changed b old new w) = sig_at w \<and>
   (\<exists>ns. disp (name_owner_changed b old new w) = disp w\<lparr>busnames := ns\<rparr>)"
proof -
  have self: "\<exists>x. st = st\<lparr>conn_state := x\<rparr>" for st :: stub
    by (rule exI [of _ "conn_state st"]) simp
  have "\<exists>ns. disp w = disp w\<lparr>busnames := ns\<rparr>"
    by (rule exI [of _ "busnames (disp w)"]) simp
  then show ?thesis
    using self by (auto simp: name_owner_changed_def notify_clients_world upd_dispatcher_def)
qed

lemma notify_client_frame:
  "(\<forall>t. \<exists>x. stub_at (notify_client b k w) t = stub_at w t\<lparr>conn_state := x\<rparr>) \<and>
   sig_at (notify_client b k w) = sig_at w \<and> disp (notify_client b k w) = disp w"
proof -
  have "\<exists>x. st = st\<lparr>conn_state := x\<rparr>" for st :: stub
    by (rule exI [of _ "conn_state st"]) simp
  then show ?thesis by (auto simp: notify_client_world)
qed

lemma try_handle_signal_frame:
  assumes run: "try_handle_signal L msg w = Some (r, w')"
  shows "(\<forall>t. \<exists>x. stub_at w' t = stub_at w t\<lparr>conn_state := x\<rparr>) \<and> sig_at w' = sig_at w \<and>
    (\<exists>ns. disp w' = disp w\<lparr>busnames := ns\<rparr>)"
proof -
  have self: "\<exists>x. st = st\<lparr>conn_state := x\<rparr>" for st :: stub
    by (rule exI [of _ "conn_state st"]) simp
  have nop: "\<exists>ns. disp w = disp w\<lparr>busnames := ns\<rparr>"
    by (rule exI [of _ "busnames (disp w)"]) simp
  have fr: "stub_at w' = stub_at w \<and> disp w' = disp w \<and> sig_at w' = sig_at w"
    if "pfor ss (\<lambda>s. stub_try_handle_signal L s msg) w = Some (r, w')" for ss r
    using that by (rule pfor_frame [rotated]) (rule stub_signal_frame)
  consider (keep) "stub_at w' = stub_at w" "sig_at w' = sig_at w" "disp w' = disp w"
    | (client) b k where "w' = notify_client b k w"
    | (owner) b old new where "w' = name_owner_changed b old new w"
    using run
    by (auto simp: try_handle_signal_def Let_def pbind_eq_Some plift_def
        split: if_splits option.splits prod.splits dest!: fr)
  then show ?thesis
  proof cases
    case keep
    with self nop show ?thesis by simp
  next
    case (client b k)
    with notify_client_frame [of b k w] nop show ?thesis by simp
  next
    case (owner b old new)
    with name_owner_changed_frame show ?thesis by blast
  qed
qed

end
