(* ===== verification/ClientRuns.thy ===== *)
theory ClientRuns
  imports Connections
begin

text \<open>
  A process with one dispatcher and any number of stubs, as a step relation: stubs are
  constructed and destroyed, signals and properties attached and detached, callbacks set, and
  signals arrive from the bus, in any order. What every reachable state keeps: the match rules
  at the bus are exactly those of the attached signals and properties.
\<close>

section \<open>What an operation does to the dispatcher\<close>

text \<open>Each registration is at most one call on the match table.\<close>

lemma register_signal_disp:
  "register_signal reg s g w = Some (r, w') \<Longrightarrow> disp w' = disp w \<or>
     (\<exists>x. reg (generate_matchstring (stub_at w s) (sig_name (sig_at w g))) (disp w) = Some (x, disp w'))"
  by (auto simp: register_signal_def pbind_eq_Some pmodify_def on_disp_def on_part_eq_Some
      split: option.splits if_splits)

lemma unlink_disp [simp]: "disp (unlink s g p w) = disp w"
  by (auto simp: unlink_def split: option.split)

lemma unregister_signal_disp:
  assumes "unregister_signal unreg s g w = Some (r, w')" and "stub_ok w s xs"
  shows "disp w' = disp w \<or>
     (\<exists>x. unreg (generate_matchstring (stub_at w s) (sig_name (sig_at w g))) (disp w) = Some (x, disp w')
        \<and> g \<in> set xs \<and> (\<forall>u. r = Inr u \<longrightarrow> x = Inr u))"
proof -
  have "chain (next_of w) (signals (stub_at w s)) xs" "has_disp (stub_at w s)"
    using assms(2) by (simp_all add: stub_ok_def attached_def)
  from unregister_loop_chain [OF this, of unreg g None] assms(1) show ?thesis
    by (auto simp: unregister_signal_def pbind_eq_Some pmodify_def on_disp_def on_part_eq_Some split: if_splits)
qed

lemma attach_property_disp:
  "attach_property reg s p w = Some (r, w') \<Longrightarrow> disp w' = disp w \<or>
     reg (generate_property_matchstring (stub_at w s)) (disp w) = Some (r, disp w')"
  by (auto simp: attach_unfold Let_def on_disp_def on_part_eq_Some split: option.splits if_splits)

lemma detach_property_disp:
  "detach_property unreg s p w = Some (r, w') \<Longrightarrow> disp w' = disp w \<or>
     unreg (generate_property_matchstring (stub_at w s)) (disp w) = Some (r, disp w')"
  by (auto simp: detach_unfold Let_def on_disp_def on_part_eq_Some split: option.splits if_splits)

text \<open>A property of the dispatcher that unregistering keeps is kept by \<open>cleanup\<close>.\<close>

lemma cleanup_loop_keeps:
  assumes P: "\<And>m d d'. nul_free m \<Longrightarrow> P d \<Longrightarrow> unreg m d = Some (Inr (), d') \<Longrightarrow> P d'"
  shows "chain (next_of w) sig xs \<Longrightarrow>
     \<forall>g \<in> set xs. nul_free (generate_matchstring (stub_at w s) (sig_name (sig_at w g))) \<Longrightarrow>
     cleanup_loop unreg s sig w = Some (Inr (), w') \<Longrightarrow> P (disp w) \<Longrightarrow> \<exists>d. w' = w\<lparr>disp := d\<rparr> \<and> P d"
proof (induction xs arbitrary: sig w)
  case Nil
  then show ?case by (subst (asm) cleanup_loop.simps) (auto intro: exI [of _ "disp w"])
next
  case (Cons x xs)
  from Cons.prems(1) have sig: "sig = Some x" and ch: "chain (next_of w) (next_of w x) xs" by auto
  from Cons.prems(3) obtain d where
    d: "unreg (generate_matchstring (stub_at w s) (sig_name (sig_at w x))) (disp w) = Some (Inr (), d)"
    and rest: "cleanup_loop unreg s (next_of (w\<lparr>disp := d\<rparr>) x) (w\<lparr>disp := d\<rparr>) = Some (Inr (), w')"
    by (subst (asm) cleanup_loop.simps) (auto simp: sig pbind_eq_Some on_disp_def on_part_eq_Some)
  have "P d" using P [OF _ Cons.prems(4) d] Cons.prems(2) by simp
  with Cons.IH [OF _ _ rest] ch Cons.prems(2) show ?case by simp
qed

context match_table begin

lemma cleanup_keeps:
  assumes P: "\<And>m d d'. nul_free m \<Longrightarrow> P d \<Longrightarrow> unreg m d = Some (Inr (), d') \<Longrightarrow> P d'"
    and st: "stub_ok w s xs" and run: "cleanup unreg s w = Some (Inr (), w')" and w: "P (disp w)"
  shows "P (disp w')"
proof -
  have hd: "has_disp (stub_at w s)" and ch: "chain (next_of w) (signals (stub_at w s)) xs"
    and nf: "\<forall>g \<in> set xs. nul_free (generate_matchstring (stub_at w s) (sig_name (sig_at w g)))"
      "nul_free (generate_property_matchstring (stub_at w s))"
    using st by (auto simp: stub_ok_def attached_def names_ok_def nul_free_match)
  from run hd obtain w1 where loop: "cleanup_loop unreg s (signals (stub_at w s)) w = Some (Inr (), w1)"
    by (auto simp: cleanup_def pbind_eq_Some)
  have "\<exists>d. w1 = w\<lparr>disp := d\<rparr> \<and> P d"
    by (rule cleanup_loop_keeps [of P unreg]) (use P ch nf loop w in blast)+
  then obtain d where d: "w1 = w\<lparr>disp := d\<rparr>" "P d" by blast
  show ?thesis
    using run cleanup_after_loop [OF hd loop [unfolded d(1)]] d(2) P [OF nf(2) d(2)]
    by (auto split: if_splits option.splits sum.splits)
qed

end

section \<open>Steps\<close>

definition live :: "('b, 'w, 'r, 'v) dworld \<Rightarrow> nat set" where
  "live w = snd ` set (dstubs (disp w))"

text \<open>
  Constructing a stub: it and its signals and properties are new objects, that is, the objects
  of the stubs in use stay as they are.
\<close>

definition constructed ::
  "nat \<Rightarrow> ('b, 'w, 'r, 'v) dworld \<Rightarrow> ('b, 'w, 'r, 'v) dworld \<Rightarrow> bool" where
  "constructed s w w1 \<longleftrightarrow>
     s \<notin> live w \<and> disp w1 = disp w \<and> (\<forall>t \<in> live w. stub_at w1 t = stub_at w t) \<and>
     (\<forall>g. sig_stub (sig_at w g) \<in> live w \<or> sig_stub (sig_at w1 g) \<in> live w \<longrightarrow> sig_at w1 g = sig_at w g) \<and>
     \<not> has_disp (stub_at w1 s) \<and> signals (stub_at w1 s) = None \<and> attached_properties (stub_at w1 s) = 0 \<and>
     conn_state (stub_at w1 s) = Disconnected \<and>
     (\<forall>e \<in> set (properties (stub_at w1 s)). \<not> snd e) \<and> distinct (map fst (properties (stub_at w1 s))) \<and>
     names_ok w1 s"

text \<open>
  The steps of a process: stubs are created and destroyed, attach and detach signals and properties
  and set callbacks, and any message may arrive at any time. Destroying a stub, detaching and
  attaching a property are steps when they do not throw: after an error of libdbus there the
  program cannot know whether its rule is at the bus.
\<close>

inductive client_step ::
  "('w, 'r) dbus_iter_api \<Rightarrow> ('b, 'w, 'r) dbus_conn_api \<Rightarrow> string
     \<Rightarrow> ('b, 'w, 'r, 'v) dworld \<Rightarrow> ('b, 'w, 'r, 'v) dworld \<Rightarrow> bool"
  for L K self where
  create: "constructed s w w1 \<Longrightarrow> client_step L K self w (add_client L K self s w1)"
| destroy: "destroy_stub K s w = Some (Inr (), w') \<Longrightarrow> s \<in> live w \<Longrightarrow> client_step L K self w w'"
| attach: "s \<in> live w \<Longrightarrow> sig_stub (sig_at w g) = s \<Longrightarrow>
    register_signal (register_signal_match K) s g w = Some (r, w') \<Longrightarrow> client_step L K self w w'"
| detach: "s \<in> live w \<Longrightarrow> unregister_signal (unregister_signal_match K) s g w = Some (Inr (), w') \<Longrightarrow>
    client_step L K self w w'"
| attach_prop: "s \<in> live w \<Longrightarrow> attach_property (register_signal_match K) s p w = Some (Inr (), w') \<Longrightarrow>
    client_step L K self w w'"
| detach_prop: "s \<in> live w \<Longrightarrow> detach_property (unregister_signal_match K) s p w = Some (Inr (), w') \<Longrightarrow>
    client_step L K self w w'"
| set_callback: "s \<in> live w \<Longrightarrow> set_connected_callback L K self s cb w = Some (r, w') \<Longrightarrow>
    client_step L K self w w'"
| receive: "try_handle_signal L msg w = Some (r, w') \<Longrightarrow> client_step L K self w w'"

definition client_inv ::
  "('b \<Rightarrow> string \<Rightarrow> nat) \<Rightarrow> (string \<Rightarrow> nat) \<Rightarrow> ('b, 'w, 'r, 'v) dworld \<Rightarrow> bool" where
  "client_inv rules base w \<longleftrightarrow>
     (\<exists>att. registered match_count (matches_ok rules) w (live w) att) \<and>
     matches_tidy rules base (disp w) \<and> distinct (map snd (dstubs (disp w)))"

section \<open>Each step keeps the invariant\<close>

lemma distinct_stubs_emplace: "distinct (map snd (stubs_emplace k s m)) \<longleftrightarrow> s \<notin> snd ` set m \<and> distinct (map snd m)"
  by (induction k s m rule: stubs_emplace.induct) (auto simp: stubs_emplace_set)

lemma add_client_dstubs:
  "dstubs (disp (add_client L K self s w)) =
     stubs_emplace (c_str (objectpath (stub_at w s))) s (dstubs (disp w))"
  by (simp add: add_client_def Let_def upd_dispatcher_def notify_connected_def)

lemma stubs_erase_live:
  "distinct (map snd m) \<Longrightarrow> snd ` set (stubs_erase s m) = snd ` set m - {s} \<and> distinct (map snd (stubs_erase s m))"
proof (induction s m rule: stubs_erase.induct)
  case (1 s)
  then show ?case by simp
next
  case (2 s k s' m)
  then show ?case by (cases "s' = s") auto
qed

text \<open>Connection state and callbacks do not matter to the registrations.\<close>

definition same_wants :: "stub \<Rightarrow> stub \<Rightarrow> bool" where
  "same_wants st st' \<longleftrightarrow> (\<exists>x cb. st' = st\<lparr>conn_state := x, connected_cb := cb\<rparr>)"

lemma same_wants_intros [intro]:
  "same_wants st st" "same_wants st (st\<lparr>conn_state := x\<rparr>)" "same_wants st (st\<lparr>connected_cb := cb\<rparr>)"
proof -
  have "st = st\<lparr>conn_state := conn_state st, connected_cb := connected_cb st\<rparr>" by simp
  then show "same_wants st st" unfolding same_wants_def by blast
  have "st\<lparr>conn_state := x\<rparr> = st\<lparr>conn_state := x, connected_cb := connected_cb st\<rparr>" by simp
  then show "same_wants st (st\<lparr>conn_state := x\<rparr>)" unfolding same_wants_def by blast
  have "st\<lparr>connected_cb := cb\<rparr> = st\<lparr>conn_state := conn_state st, connected_cb := cb\<rparr>" by simp
  then show "same_wants st (st\<lparr>connected_cb := cb\<rparr>)" unfolding same_wants_def by blast
qed

lemma same_wants_simps:
  assumes "same_wants st st'"
  shows "generate_matchstring st' n = generate_matchstring st n"
    "generate_property_matchstring st' = generate_property_matchstring st"
    "attached_properties st' = attached_properties st" "properties st' = properties st"
    "signals st' = signals st" "has_disp st' = has_disp st" "busname st' = busname st"
  using assms
  by (auto simp: same_wants_def generate_matchstring_def generate_property_matchstring_def stub_iface_def)

lemma registered_same_wants:
  assumes R: "registered cnt ok w S att"
    and "\<And>t. same_wants (stub_at w t) (stub_at w' t)" and "sig_at w' = sig_at w"
    and "ok (disp w')" and "cnt (disp w') = cnt (disp w)"
  shows "registered cnt ok w' S att"
proof -
  have "next_of w' = next_of w" by (simp add: next_of_def fun_eq_iff assms(3))
  note same = this assms(3) same_wants_simps [OF assms(2)]
  have "wants w' t xs m = wants w t xs m" for t xs m
    by (simp only: wants_def same)
  moreover have "stub_ok w' t xs = stub_ok w t xs" for t xs
    by (simp only: stub_ok_def attached_def names_ok_def props_ok_def same)
  ultimately show ?thesis
    using R assms(4,5) by (simp only: registered_def) simp
qed

text \<open>What the table does not see of the dispatcher: stubs, bus names, messages sent.\<close>

lemma matches_frame:
  assumes "signal_matches d' = signal_matches d" and "rules (conn d') = rules (conn d)"
  shows "match_count d' = match_count d" "matches_ok rules d' = matches_ok rules d"
    "matches_tidy rules base d' = matches_tidy rules base d"
  using assms by (simp_all add: match_count_def [abs_def] matches_ok_def matches_tidy_def)

lemma client_inv_same:
  assumes "client_inv rules base w"
    and "\<And>t. same_wants (stub_at w t) (stub_at w' t)" and "sig_at w' = sig_at w"
    and "dstubs (disp w') = dstubs (disp w)"
    and "signal_matches (disp w') = signal_matches (disp w)" and "rules (conn (disp w')) = rules (conn (disp w))"
  shows "client_inv rules base w'"
proof -
  note frame = matches_frame [of "disp w'" "disp w" rules, OF assms(5,6)]
  obtain att where R: "registered match_count (matches_ok rules) w (live w) att"
    using assms(1) by (auto simp: client_inv_def)
  then have "matches_ok rules (disp w')" by (simp add: registered_def frame)
  from registered_same_wants [OF R assms(2,3) this frame(1)]
  have "registered match_count (matches_ok rules) w' (live w') att" by (simp add: live_def assms(4))
  then show ?thesis
    using assms(1) by (auto simp: client_inv_def frame assms(4))
qed

context dbus_conn begin

lemma table_rest:
  "register_signal_match K m d = Some (x, d') \<Longrightarrow> dstubs d' = dstubs d \<and> busnames d' = busnames d"
  "unregister_signal_match K m d = Some (x, d') \<Longrightarrow> dstubs d' = dstubs d \<and> busnames d' = busnames d"
  using table.reg_others [of m d x d'] table.unreg_others [of m d x d'] by (simp_all add: match_others_def)

lemma client_inv_live:
  "client_inv rules base w \<Longrightarrow> s \<in> live w \<Longrightarrow> \<exists>xs. stub_ok w s xs"
  by (auto simp: client_inv_def registered_def)

lemma client_invD:
  assumes "client_inv rules base w"
  obtains att where "registered match_count (matches_ok rules) w (live w) att" "matches_ok rules (disp w)"
    "matches_tidy rules base (disp w)" "distinct (map snd (dstubs (disp w)))"
    "\<And>s. s \<in> live w \<Longrightarrow> stub_ok w s (att s)"
  using assms by (auto simp: client_inv_def registered_def)

lemma client_invI:
  assumes "registered match_count (matches_ok rules) w' (live w) att" and "matches_tidy rules base (disp w')"
    and "dstubs (disp w') = dstubs (disp w)" and "distinct (map snd (dstubs (disp w)))"
  shows "client_inv rules base w'"
  using assms by (auto simp: client_inv_def live_def)

lemma stub_ok_matches:
  assumes "stub_ok w s xs"
  shows "nul_free (generate_property_matchstring (stub_at w s))"
    and "sig_stub (sig_at w g) = s \<Longrightarrow> nul_free (generate_matchstring (stub_at w s) (sig_name (sig_at w g)))"
    and "g \<in> set xs \<Longrightarrow> sig_stub (sig_at w g) = s"
  using assms by (auto simp: stub_ok_def attached_def names_ok_def nul_free_match)

lemma attach_inv:
  assumes I: "client_inv rules base w" and s: "s \<in> live w" and g: "sig_stub (sig_at w g) = s"
    and run: "register_signal (register_signal_match K) s g w = Some (r, w')"
  shows "client_inv rules base w'"
proof -
  from I obtain att where R: "registered match_count (matches_ok rules) w (live w) att"
    and d: "matches_ok rules (disp w)" "matches_tidy rules base (disp w)" "distinct (map snd (dstubs (disp w)))"
    and st: "stub_ok w s (att s)"
    using s by (auto elim: client_invD)
  have "matches_tidy rules base (disp w') \<and> dstubs (disp w') = dstubs (disp w)"
    using register_signal_disp [OF run] table.reg_tidy [OF d(1) stub_ok_matches(2) [OF st g] d(2)] d(2) table_rest(1)
    by auto
  moreover obtain att' where "registered match_count (matches_ok rules) w' (live w) att'"
    using table.register_signal_law [OF R s g run] by blast
  ultimately show ?thesis using client_invI d(3) by blast
qed

lemma detach_inv:
  assumes I: "client_inv rules base w" and s: "s \<in> live w"
    and run: "unregister_signal (unregister_signal_match K) s g w = Some (Inr (), w')"
  shows "client_inv rules base w'"
proof -
  from I obtain att where R: "registered match_count (matches_ok rules) w (live w) att"
    and d: "matches_ok rules (disp w)" "matches_tidy rules base (disp w)" "distinct (map snd (dstubs (disp w)))"
    and st: "stub_ok w s (att s)"
    using s by (auto elim: client_invD)
  have "matches_tidy rules base (disp w') \<and> dstubs (disp w') = dstubs (disp w)"
    using unregister_signal_disp [OF run st] d(2) table_rest(2)
      table.unreg_tidy [OF d(1) stub_ok_matches(2) [OF st stub_ok_matches(3) [OF st]] d(2)]
    by auto
  with table.unregister_signal_law [OF R s run] client_invI d(3) show ?thesis by blast
qed

lemma attach_prop_inv:
  assumes I: "client_inv rules base w" and s: "s \<in> live w"
    and run: "attach_property (register_signal_match K) s p w = Some (Inr (), w')"
  shows "client_inv rules base w'"
proof -
  from I obtain att where R: "registered match_count (matches_ok rules) w (live w) att"
    and d: "matches_ok rules (disp w)" "matches_tidy rules base (disp w)" "distinct (map snd (dstubs (disp w)))"
    and st: "stub_ok w s (att s)"
    using s by (auto elim: client_invD)
  have "matches_tidy rules base (disp w') \<and> dstubs (disp w') = dstubs (disp w)"
    using attach_property_disp [OF run] table.reg_tidy [OF d(1) stub_ok_matches(1) [OF st] d(2)] d(2) table_rest(1)
    by auto
  with table.attach_property_law [OF R s run] client_invI d(3) show ?thesis by blast
qed

lemma detach_prop_inv:
  assumes I: "client_inv rules base w" and s: "s \<in> live w"
    and run: "detach_property (unregister_signal_match K) s p w = Some (Inr (), w')"
  shows "client_inv rules base w'"
proof -
  from I obtain att where R: "registered match_count (matches_ok rules) w (live w) att"
    and d: "matches_ok rules (disp w)" "matches_tidy rules base (disp w)" "distinct (map snd (dstubs (disp w)))"
    and st: "stub_ok w s (att s)"
    using s by (auto elim: client_invD)
  have "matches_tidy rules base (disp w') \<and> dstubs (disp w') = dstubs (disp w)"
    using detach_property_disp [OF run] table.unreg_tidy [OF d(1) stub_ok_matches(1) [OF st] d(2)] d(2) table_rest(2)
    by auto
  with table.detach_property_law [OF R s run] client_invI d(3) show ?thesis by blast
qed

lemma connection_send_rules: "rules (connection_send K b msg) = rules b"
  by (simp add: send_frame)

lemma set_callback_inv:
  assumes I: "client_inv rules base w" and run: "set_connected_callback L K self s cb w = Some (r, w')"
  shows "client_inv rules base w'"
proof (rule client_inv_same [OF I])
  show "same_wants (stub_at w t) (stub_at w' t)" for t
    using run by (auto simp: set_connected_callback_def Let_def upd_dispatcher_def split: if_splits)
qed (use run in \<open>auto simp: set_connected_callback_def Let_def upd_dispatcher_def notify_connected_def
  connection_send_rules split: if_splits\<close>)

lemma receive_inv:
  assumes I: "client_inv rules base w" and run: "try_handle_signal L msg w = Some (r, w')"
  shows "client_inv rules base w'"
proof (rule client_inv_same [OF I])
  from try_handle_signal_frame [OF run] obtain ns where
    f: "\<And>t. \<exists>x. stub_at w' t = stub_at w t\<lparr>conn_state := x\<rparr>" "sig_at w' = sig_at w"
      "disp w' = disp w\<lparr>busnames := ns\<rparr>" by blast
  show "same_wants (stub_at w t) (stub_at w' t)" for t
    using f(1) [of t] by auto
  show "sig_at w' = sig_at w" "dstubs (disp w') = dstubs (disp w)"
    "signal_matches (disp w') = signal_matches (disp w)" "rules (conn (disp w')) = rules (conn (disp w))"
    using f by simp_all
qed

text \<open>A new stub wants nothing.\<close>

lemma wants_new:
  "attached_properties (stub_at w s) = 0 \<Longrightarrow> wants w s [] m = 0"
  by (simp add: wants_def)

lemma constructed_registered:
  assumes R: "registered cnt ok w (live w) att" and c: "constructed s w w1"
    and st: "stub_at w2 = (stub_at w1)(s := stub_at w1 s\<lparr>has_disp := True\<rparr>)" and sg: "sig_at w2 = sig_at w1"
    and d: "ok (disp w2)" "cnt (disp w2) = cnt (disp w)"
  shows "registered cnt ok w2 (insert s (live w)) (att(s := []))"
proof -
  have new: "s \<notin> live w" and att1: "attached_properties (stub_at w1 s) = 0"
    and old: "\<And>t. t \<in> live w \<Longrightarrow> stub_at w2 t = stub_at w t"
    and sigs: "\<And>g. sig_stub (sig_at w g) \<in> live w \<or> sig_stub (sig_at w1 g) \<in> live w \<Longrightarrow> sig_at w2 g = sig_at w g"
    using c by (auto simp: constructed_def st sg)
  have "stub_ok w2 s []"
    using c by (auto simp: constructed_def stub_ok_def attached_def names_ok_def props_ok_def st sg filter_empty_conv)
  moreover have kept: "stub_ok w2 t (att t) \<and> wants w2 t (att t) = wants w t (att t)" if t: "t \<in> live w" for t
  proof -
    have ok: "stub_ok w t (att t)" using R t by (simp add: registered_def)
    then have own: "sig_stub (sig_at w g) = t" if "g \<in> set (att t)" for g
      using that by (simp add: stub_ok_def attached_def)
    then have same: "sig_at w2 g = sig_at w g" if "g \<in> set (att t)" for g
      using that t sigs by blast
    then have "chain (next_of w2) p (att t) = chain (next_of w) p (att t)" for p
      by (intro chain_cong) (simp add: next_of_def)
    then have "attached w2 t (att t)"
      using ok own same by (simp add: stub_ok_def attached_def old [OF t])
    moreover have "names_ok w2 t"
    proof -
      have "sig_stub (sig_at w2 g) = t \<Longrightarrow> sig_at w2 g = sig_at w g" for g
        using sigs [of g] t by (simp add: sg)
      then have "sig_stub (sig_at w2 g) = t \<Longrightarrow> nul_free (sig_name (sig_at w2 g))" for g
        using ok by (metis stub_ok_def names_ok_def)
      then show ?thesis using ok by (simp add: stub_ok_def names_ok_def old [OF t])
    qed
    ultimately have "stub_ok w2 t (att t)"
      using ok by (simp add: stub_ok_def old [OF t])
    moreover have ms: "map (\<lambda>g. generate_matchstring (stub_at w2 t) (sig_name (sig_at w2 g))) (att t) =
        map (\<lambda>g. generate_matchstring (stub_at w t) (sig_name (sig_at w g))) (att t)"
      unfolding old [OF t] using same by simp
    have "wants w2 t (att t) = wants w t (att t)"
      by (rule ext, simp only: wants_def ms [unfolded old [OF t]] old [OF t])
    ultimately show ?thesis by simp
  qed
  moreover have "(\<Sum>t\<in>insert s (live w). wants w2 t ((att(s := [])) t) m) = cnt (disp w2) m" for m
  proof -
    have fin: "finite (live w)" using R by (simp add: registered_def)
    have "wants w2 s [] m = 0"
      using att1 by (simp add: wants_def st)
    moreover have "(\<Sum>t\<in>live w. wants w2 t ((att(s := [])) t) m) = (\<Sum>t\<in>live w. wants w t (att t) m)"
      using kept new by (intro sum.cong) auto
    ultimately show ?thesis
      using R new fin d(2) by (simp add: registered_def del: fun_upd_apply add: fun_upd_same)
  qed
  ultimately show ?thesis
    using R new d(1) by (simp add: registered_def)
qed

lemma create_inv:
  assumes I: "client_inv rules base w" and c: "constructed s w w1"
  shows "client_inv rules base (add_client L K self s w1)"
proof -
  let ?w = "add_client L K self s w1"
  from I obtain att where R: "registered match_count (matches_ok rules) w (live w) att"
    and d: "matches_ok rules (disp w)" "matches_tidy rules base (disp w)" "distinct (map snd (dstubs (disp w)))"
    by (auto elim: client_invD)
  have dw: "disp w1 = disp w" "s \<notin> live w" using c by (auto simp: constructed_def)
  have frame: "signal_matches (disp ?w) = signal_matches (disp w)" "rules (conn (disp ?w)) = rules (conn (disp w))"
    by (simp_all add: add_client_world add_client_def Let_def upd_dispatcher_def notify_connected_def
        connection_send_rules dw)
  note m = matches_frame [of "disp ?w" "disp w" rules, OF frame]
  have "live ?w = insert s (live w)"
    by (simp add: live_def add_client_world dw)
  moreover have "distinct (map snd (dstubs (disp ?w)))"
    using d(3) dw by (simp add: add_client_dstubs distinct_stubs_emplace live_def)
  ultimately show ?thesis
    using constructed_registered [OF R c, of ?w] d m by (auto simp: client_inv_def add_client_world)
qed

lemma destroy_inv:
  assumes I: "client_inv rules base w" and s: "s \<in> live w"
    and run: "destroy_stub K s w = Some (Inr (), w')"
  shows "client_inv rules base w' \<and> live w' = live w - {s} \<and>
    (\<forall>t. t \<noteq> s \<longrightarrow> stub_at w' t = stub_at w t) \<and> busnames (disp w') = busnames (disp w)"
proof -
  from I obtain att where R: "registered match_count (matches_ok rules) w (live w) att"
    and d: "matches_ok rules (disp w)" "matches_tidy rules base (disp w)" "distinct (map snd (dstubs (disp w)))"
    and st: "stub_ok w s (att s)"
    using s by (auto elim: client_invD)
  have "has_disp (stub_at w s)" "s \<in> set (map snd (dstubs (disp w)))"
    using st s by (simp_all add: stub_ok_def live_def)
  then obtain w1 where w1: "cleanup (unregister_signal_match K) s w = Some (Inr (), w1)"
    and w': "w' = upd_dispatcher (\<lambda>d. d\<lparr>dstubs := stubs_erase s (dstubs d)\<rparr>) w1"
    using run by (auto simp: destroy_stub_def remove_client_def pbind_eq_Some pmodify_def)
  let ?P = "\<lambda>d'. matches_ok rules d' \<and> matches_tidy rules base d' \<and> dstubs d' = dstubs (disp w) \<and>
    busnames d' = busnames (disp w)"
  have P: "?P (disp w1)"
  proof (rule table.cleanup_keeps [OF _ st w1])
    show "?P (disp w)" using d by simp
    show "?P d''" if "nul_free m" "?P d'" "unregister_signal_match K m d' = Some (Inr (), d'')" for m d' d''
      using that table.unreg_ok [of d' m _ d''] table.unreg_tidy [of d' m base _ d''] table_rest(2) [of m d' _ d'']
      by auto
  qed
  have R1: "registered match_count (matches_ok rules) w1 (live w - {s}) att"
    and fr: "\<forall>t. t \<noteq> s \<longrightarrow> stub_at w1 t = stub_at w t" "sig_at w1 = sig_at w"
    using table.cleanup_law [OF R s w1] by auto
  note m = matches_frame [of "disp w'" "disp w1" rules]
  have "registered match_count (matches_ok rules) w' (live w - {s}) att"
    using registered_same_wants [OF R1, of w'] P m by (auto simp: w' upd_dispatcher_def)
  moreover have "live w' = live w - {s}" "distinct (map snd (dstubs (disp w')))"
    using P stubs_erase_live [OF d(3), of s] by (simp_all add: live_def w' upd_dispatcher_def)
  moreover have "matches_tidy rules base (disp w')" "busnames (disp w') = busnames (disp w)"
    using P m by (auto simp: w' upd_dispatcher_def)
  ultimately show ?thesis
    using fr by (auto simp: client_inv_def w' upd_dispatcher_def)
qed

theorem client_step_inv:
  assumes "client_step L K self w w'" and "client_inv rules base w"
  shows "client_inv rules base w'"
  using assms
proof cases
  case (create s w1)
  then show ?thesis using create_inv [OF assms(2)] by simp
next
  case (destroy s)
  then show ?thesis using destroy_inv [OF assms(2)] by simp
next
  case attach
  then show ?thesis using attach_inv [OF assms(2)] by blast
next
  case detach
  then show ?thesis using detach_inv [OF assms(2)] by blast
next
  case attach_prop
  then show ?thesis using attach_prop_inv [OF assms(2)] by blast
next
  case detach_prop
  then show ?thesis using detach_prop_inv [OF assms(2)] by blast
next
  case set_callback
  then show ?thesis using set_callback_inv [OF assms(2)] by blast
next
  case receive
  then show ?thesis using receive_inv [OF assms(2)] by blast
qed

lemma client_runs_inv:
  assumes "(client_step L K self)\<^sup>*\<^sup>* w w'" and "client_inv rules base w"
  shows "client_inv rules base w'"
  using assms by induction (auto intro: client_step_inv)

end

text \<open>The state of a process after \<open>Dispatcher_init\<close>.\<close>

definition no_stubs :: "'b dispatcher \<Rightarrow> bool" where
  "no_stubs d \<longleftrightarrow> dstubs d = [] \<and> signal_matches d = Map.empty"

context dbus_conn begin

lemma no_stubs_inv:
  assumes "no_stubs (disp w)"
  shows "client_inv rules (rules (conn (disp w))) w"
proof -
  have "registered match_count (matches_ok rules) w (live w) (\<lambda>_. [])"
    using assms
    by (simp add: no_stubs_def registered_def live_def matches_ok_def match_count_def)
  then show ?thesis
    using assms by (auto simp: client_inv_def no_stubs_def matches_tidy_def)
qed

text \<open>No attached signal and no attached property is without its rule at the bus.\<close>

lemma attached_signal_has_rule:
  assumes I: "client_inv rules base w" and s: "s \<in> live w"
    and g: "find_signal (next_of w) (signals (stub_at w s)) g = Some True"
  shows "0 < rules (conn (disp w)) (generate_matchstring (stub_at w s) (sig_name (sig_at w g)))"
proof -
  let ?m = "generate_matchstring (stub_at w s) (sig_name (sig_at w g))"
  from I obtain att where R: "registered match_count (matches_ok rules) w (live w) att"
    and d: "matches_ok rules (disp w)" and st: "stub_ok w s (att s)"
    using s by (auto elim: client_invD)
  have "g \<in> set (att s)"
    using g find_signal_chain [of "next_of w" "signals (stub_at w s)" "att s" g] st
    by (simp add: stub_ok_def attached_def)
  then have "?m \<in> set (map (\<lambda>g. generate_matchstring (stub_at w s) (sig_name (sig_at w g))) (att s))"
    by simp
  then have "0 < count_list (map (\<lambda>g. generate_matchstring (stub_at w s) (sig_name (sig_at w g))) (att s)) ?m"
    by (metis count_list_0_iff gr0I)
  then have "0 < wants w s (att s) ?m"
    by (simp add: wants_def)
  also have "wants w s (att s) ?m \<le> (\<Sum>t\<in>live w. wants w t (att t) ?m)"
    using R s by (intro member_le_sum) (auto simp: registered_def)
  finally have "0 < match_count (disp w) ?m"
    using R by (simp add: registered_def)
  then show ?thesis using table.delivered [OF d] by (simp add: match_delivered_def)
qed

lemma attached_property_has_rule:
  assumes I: "client_inv rules base w" and s: "s \<in> live w"
    and p: "property_flag (properties (stub_at w s)) p = Some True"
  shows "0 < rules (conn (disp w)) (generate_property_matchstring (stub_at w s))"
proof -
  let ?m = "generate_property_matchstring (stub_at w s)"
  from I obtain att where R: "registered match_count (matches_ok rules) w (live w) att"
    and d: "matches_ok rules (disp w)" and st: "stub_ok w s (att s)"
    using s by (auto elim: client_invD)
  have "0 < attached_properties (stub_at w s)"
    using st property_flag_raised [OF p] by (simp add: stub_ok_def props_ok_def)
  then have "0 < wants w s (att s) ?m" by (simp add: wants_def)
  also have "wants w s (att s) ?m \<le> (\<Sum>t\<in>live w. wants w t (att t) ?m)"
    using R s by (intro member_le_sum) (auto simp: registered_def)
  finally have "0 < match_count (disp w) ?m"
    using R by (simp add: registered_def)
  then show ?thesis using table.delivered [OF d] by (simp add: match_delivered_def)
qed

text \<open>When the last stub is gone, the bus has the rules it had at the start.\<close>

lemma no_rule_left:
  assumes I: "client_inv rules base w" and s: "live w = {}"
  shows "rules (conn (disp w)) = base"
proof -
  from I obtain att where R: "registered match_count (matches_ok rules) w (live w) att"
    and d: "matches_ok rules (disp w)" "matches_tidy rules base (disp w)"
    by (auto elim: client_invD)
  have "signal_matches (disp w) m = None" for m
  proof (rule ccontr)
    assume "signal_matches (disp w) m \<noteq> None"
    then obtain n where n: "signal_matches (disp w) m = Some n" by blast
    then have "0 < match_count (disp w) m"
      using matches_okD [OF d(1) n] by (simp add: match_count_def)
    then show False using R s by (simp add: registered_def)
  qed
  then show ?thesis using d(2) by (simp add: matches_tidy_def fun_eq_iff)
qed

end

section \<open>Connection state along a run\<close>

definition same_conn :: "('b, 'w, 'r, 'v) dworld \<Rightarrow> ('b, 'w, 'r, 'v) dworld \<Rightarrow> bool" where
  "same_conn w w' \<longleftrightarrow>
     (\<forall>t. conn_state (stub_at w' t) = conn_state (stub_at w t) \<and> busname (stub_at w' t) = busname (stub_at w t)) \<and>
     dstubs (disp w') = dstubs (disp w) \<and> busnames (disp w') = busnames (disp w)"

lemma same_conn_inv: "same_conn w w' \<Longrightarrow> conn_inv M w \<Longrightarrow> conn_inv M w'"
  by (auto simp: same_conn_def conn_inv_def)

text \<open>
  A stub that is connected although its bus name does not exist was so before, or has just been misled
  by a signal.
\<close>

definition astray :: "('b, 'w, 'r, 'v) dworld \<Rightarrow> nat \<Rightarrow> bool" where
  "astray w s \<longleftrightarrow> s \<in> live w \<and> conn_state (stub_at w s) = Connected \<and> busname (stub_at w s) \<notin> busnames (disp w)"

lemma conn_inv_astray: "conn_inv M w \<longleftrightarrow> {s. astray w s} \<subseteq> M"
  by (auto simp: conn_inv_def astray_def live_def)

lemma unlink_conn [simp]:
  "conn_state (stub_at (unlink s g p w) t) = conn_state (stub_at w t)"
  "busname (stub_at (unlink s g p w) t) = busname (stub_at w t)"
  by (simp_all add: unlink_def split: option.split)

context dbus_conn begin

lemma conn_frame:
  "register_signal (register_signal_match K) s g w = Some (r, w') \<Longrightarrow> same_conn w w'"
  "attach_property (register_signal_match K) s p w = Some (r, w') \<Longrightarrow> same_conn w w'"
  "detach_property (unregister_signal_match K) s p w = Some (r, w') \<Longrightarrow> same_conn w w'"
  "set_connected_callback L K self s cb w = Some (r, w') \<Longrightarrow> same_conn w w'"
proof -
  show "register_signal (register_signal_match K) s g w = Some (r, w') \<Longrightarrow> same_conn w w'"
    using table_rest(1)
    by (auto simp: same_conn_def register_signal_def pbind_eq_Some pmodify_def on_disp_def on_part_eq_Some
        split: option.splits if_splits)
  show "attach_property (register_signal_match K) s p w = Some (r, w') \<Longrightarrow> same_conn w w'"
    using table_rest(1)
    by (auto simp: same_conn_def attach_unfold flag_update_def Let_def on_disp_def on_part_eq_Some
        split: option.splits if_splits)
  show "detach_property (unregister_signal_match K) s p w = Some (r, w') \<Longrightarrow> same_conn w w'"
    using table_rest(2)
    by (auto simp: same_conn_def detach_unfold flag_update_def Let_def on_disp_def on_part_eq_Some
        split: option.splits if_splits)
  show "set_connected_callback L K self s cb w = Some (r, w') \<Longrightarrow> same_conn w w'"
    by (auto simp: same_conn_def set_connected_callback_def Let_def upd_dispatcher_def notify_connected_def
        split: if_splits)
qed

lemma unregister_conn_frame:
  assumes "unregister_signal (unregister_signal_match K) s g w = Some (r, w')" and st: "stub_ok w s xs"
  shows "same_conn w w'"
proof -
  have "chain (next_of w) (signals (stub_at w s)) xs" "has_disp (stub_at w s)"
    using st by (simp_all add: stub_ok_def attached_def)
  from unregister_loop_chain [OF this, of "unregister_signal_match K" g None] assms(1) show ?thesis
    using table_rest(2)
    by (auto simp: same_conn_def unregister_signal_def pbind_eq_Some pmodify_def on_disp_def on_part_eq_Some
        split: if_splits)
qed

lemma conn_step_inv:
  assumes "client_step L K self w w'" and I: "client_inv rules base w" and C: "conn_inv M w"
  shows "conn_inv M w' \<or> (\<exists>msg r. conn_inv (M \<union> misled L msg w) w' \<and> try_handle_signal L msg w = Some (r, w'))"
  using assms(1)
proof cases
  case (create s w1)
  then have "stub_at w1 t = stub_at w t" if "t \<in> snd ` set (dstubs (disp w))" for t
    using that by (auto simp: constructed_def live_def)
  then have "conn_inv M w1" using C create(2) by (simp add: conn_inv_def constructed_def)
  with create show ?thesis by (simp add: add_client_conn_inv constructed_def)
next
  case (destroy s)
  from destroy_inv [OF I destroy(2,1)] C show ?thesis
    by (auto simp: conn_inv_def live_def)
next
  case attach
  with conn_frame(1) same_conn_inv C show ?thesis by blast
next
  case (detach s)
  obtain xs where "stub_ok w s xs" using client_inv_live [OF I detach(1)] by blast
  with detach unregister_conn_frame same_conn_inv C show ?thesis by blast
next
  case attach_prop
  with conn_frame(2) same_conn_inv C show ?thesis by blast
next
  case detach_prop
  with conn_frame(3) same_conn_inv C show ?thesis by blast
next
  case set_callback
  with conn_frame(4) same_conn_inv C show ?thesis by blast
next
  case (receive msg r)
  have "conn_inv (M \<union> misled L msg w) w" using C by (auto simp: conn_inv_def)
  from try_handle_signal_conn_inv [OF this _ receive] receive show ?thesis by blast
qed

lemma astray_step:
  assumes "client_step L K self w w'" and "client_inv rules base w" and "astray w' s" and "\<not> astray w s"
  shows "\<exists>msg r. s \<in> misled L msg w \<and> try_handle_signal L msg w = Some (r, w')"
proof -
  have "conn_inv {s. astray w s} w" by (simp add: conn_inv_astray)
  from conn_step_inv [OF assms(1,2) this] assms(3,4) show ?thesis by (auto simp: conn_inv_astray)
qed

lemma astray_origin:
  assumes "(client_step L K self)\<^sup>*\<^sup>* w w'" and "client_inv rules base w" and "astray w' s" and "\<not> astray w s"
  shows "\<exists>u msg r u'. (client_step L K self)\<^sup>*\<^sup>* w u \<and> \<not> astray u s \<and> s \<in> misled L msg u \<and>
    try_handle_signal L msg u = Some (r, u') \<and> astray u' s \<and> (client_step L K self)\<^sup>*\<^sup>* u' w'"
  using assms
proof induction
  case base
  then show ?case by simp
next
  case (step v v')
  show ?case
  proof (cases "astray v s")
    case True
    from step.IH [OF step.prems(1) True step.prems(3)] step.hyps(2) show ?thesis
      by (meson rtranclp.rtrancl_into_rtrancl)
  next
    case False
    from astray_step [OF step.hyps(2) client_runs_inv [OF step.hyps(1) step.prems(1)] step.prems(2) False]
    show ?thesis using False step.hyps(1) step.prems(2) by blast
  qed
qed

end

end
