(* ===== verification/Calls.thy ===== *)
theory Calls
  imports Requests ClientRuns
begin

text \<open>
  Calls end to end: the timeout a request is sent with, a method call through the skeleton and
  back, errors, and \<open>GetAll\<close> with the callbacks of the client's properties.
\<close>

section \<open>Timeouts\<close>

lemma upd_conn_simps [simp]:
  "conn_of (upd_conn f c) = f (conn_of c)" "specific_timeout (upd_conn f c) = specific_timeout c"
  "the_stub s (upd_conn f c) = the_stub s c" "request_timeout (disp (objs (upd_conn f c))) = request_timeout (disp (objs c))"
  "upd_conn f (helper_destroyed c) = helper_destroyed (upd_conn f c)"
  "conn_of (helper_destroyed c) = conn_of c" "specific_timeout (helper_destroyed c) = 0"
  by (simp_all add: upd_conn_def conn_of_def upd_dispatcher_def the_stub_def helper_destroyed_def)

text \<open>A blocking call, given the reply that arrives.\<close>

lemma blocking_call:
  assumes d: "has_disp (the_stub s c)"
    and r: "send_with_reply K (conn_of c) (method_msg K (the_stub s c) (cm_name m) f) (helper_timeout c) = (p, b1)"
      "call_block K b1 p = (rc, b2)"
  shows "\<exists>c'. send_request_and_block K s m f False c =
      (if im_type rc = ErrorReply then pbind (plift (cm_throw m rc)) pthrow c' else Some (Inr (Some rc), c')) \<and>
    objs c' = objs (upd_conn (\<lambda>_. b2) c) \<and> specific_timeout c' = 0"
proof -
  let ?c = "helper_destroyed (upd_conn (\<lambda>_. b2) c)"
  have "objs ?c = objs (upd_conn (\<lambda>_. b2) c)" by (simp add: helper_destroyed_def)
  moreover have "upd_conn (\<lambda>_. b2) (upd_conn (\<lambda>_. b1) c) = upd_conn (\<lambda>_. b2) c"
    by (simp add: upd_conn_def upd_dispatcher_def)
  ultimately show ?thesis
    using d r
    by (intro exI [of _ ?c])
      (simp add: send_request_and_block_def need_disp_def Let_def with_reply_def block_def preturn_def pbind_def)
qed

context dbus_conn begin

text \<open>
  A request-specific timeout is used for the next two-way call and for that one only; a oneway
  call neither uses nor clears it, and neither do the requests of properties.
\<close>

lemma send_request_timeout:
  assumes d: "has_disp (the_stub s c)"
  shows "\<exists>pc c'. send_request K s m f oneway c = Some (Inr pc, c') \<and>
    sent (conn_of c') = sent (conn_of c) @
      [(method_msg K (the_stub s c) (cm_name m) f)\<lparr>om_no_reply := oneway\<rparr>] \<and>
    timeouts (conn_of c') = timeouts (conn_of c) @ (if oneway then [] else [helper_timeout c]) \<and>
    specific_timeout c' = (if oneway then specific_timeout c else 0) \<and>
    (pc_pending pc = None \<longleftrightarrow> oneway)"
proof (cases oneway)
  case True
  with d show ?thesis
    by (simp add: send_request_def need_disp_def Let_def send_sent send_frame preturn_def)
next
  case False
  let ?msg = "method_msg K (the_stub s c) (cm_name m) f"
  have m: "?msg\<lparr>om_no_reply := False\<rparr> = ?msg"
    by (simp add: method_msg_def message_new_method_call_def)
  obtain p b where pb: "send_with_reply K (conn_of c) ?msg (helper_timeout c) = (p, b)" by fastforce
  from request_sent [OF pb] d False pb m show ?thesis
    by (simp add: send_request_def need_disp_def Let_def with_reply_def preturn_def pbind_def)
qed

lemma get_property_async_timeout:
  assumes d: "has_disp (the_stub s c)"
  shows "\<exists>pc c'. get_property_async L K s name c = Some (Inr pc, c') \<and>
    timeouts (conn_of c') = timeouts (conn_of c) @ [request_timeout (disp (objs c))] \<and>
    specific_timeout c' = specific_timeout c"
proof -
  let ?msg = "properties_msg K (the_stub s c) ''Get'' (name_args L K (the_stub s c) name)"
  obtain p b where pb: "send_with_reply K (conn_of c) ?msg (request_timeout (disp (objs c))) = (p, b)" by fastforce
  from request_sent [OF pb] d pb show ?thesis
    by (simp add: get_property_async_def need_disp_def with_reply_def preturn_def pbind_def)
qed

end

section \<open>Method calls\<close>

text \<open>
  \<open>appends wv f ds\<close>: serializing appends the values \<open>ds\<close>.
\<close>

definition appends :: "('w \<Rightarrow> dval list) \<Rightarrow> ('w \<Rightarrow> 'w) \<Rightarrow> dval list \<Rightarrow> bool" where
  "appends wv f ds \<longleftrightarrow> (\<forall>w. wv (f w) = wv w @ ds)"

text \<open>The request's names lead the skeleton to method \<open>m\<close>.\<close>

definition ordinary_iface :: "string \<Rightarrow> bool" where
  "ordinary_iface i \<longleftrightarrow> c_str i \<notin> {''org.freedesktop.DBus.Introspectable'', ''org.freedesktop.DBus.ObjectManager'',
     ''org.freedesktop.DBus.Properties''}"

definition routes ::
  "('b, 'w, 'r, 'v, 'u) server \<Rightarrow> string \<Rightarrow> string \<Rightarrow> nat \<Rightarrow> bool" where
  "routes w i meth m \<longleftrightarrow> (\<exists>ms ps gs k. lists_ok w ms ps gs \<and> k < length (sk_ifaces w) \<and>
     find_interface (sk_ifaces w) (c_str i) = int k \<and>
     find (\<lambda>q. c_str (sm_name (method_at w q)) = c_str meth) (ms k) = Some m)"

context server_env begin

lemma handle_request_routes:
  assumes "im_interface msg = Some i" and "im_member msg = Some meth" and "ordinary_iface i" and "routes w i meth m"
  shows "handle_request introspection objectmanager L K junk U msg w = handle_interface_request L K junk U msg m w"
proof -
  from assms(4) obtain ms ps gs k where r: "lists_ok w ms ps gs" "k < length (sk_ifaces w)"
    "find_interface (sk_ifaces w) (c_str i) = int k"
    "find (\<lambda>q. c_str (sm_name (method_at w q)) = c_str meth) (ms k) = Some m"
    unfolding routes_def by blast
  with assms(1-3) find_method_list [OF r(1,2), of meth] show ?thesis
    by (simp add: handle_request_def Let_def ordinary_iface_def invalid_iface_id_def)
qed

text \<open>A method whose callback responds with the serializer \<open>g\<close>.\<close>

lemma handle_request_responds:
  assumes d: "sk_disp w" and route: "im_interface msg = Some i" "im_member msg = Some meth" "ordinary_iface i"
      "routes w i meth m"
    and dec: "sm_args (method_at w m) (im_body msg) = ret (args, it)" and cb: "sm_cb (method_at w m)"
    and h: "method_cb U m args = respond_with K g"
  shows "\<exists>w'. handle_request introspection objectmanager L K junk U msg w = Some (Inr Handled, w') \<and>
    sent (sconn w') = sent (sconn w) @ [response_msg K msg g]"
proof -
  have "handle_request introspection objectmanager L K junk U msg w = handle_interface_request L K junk U msg m w"
    by (rule handle_request_routes [OF route])
  with d dec cb h show ?thesis
    by (simp add: handle_interface_request_def pmodify_def pcatch_def smethod_eval_def pbind_def preturn_def
        respond_with_def server_send_def send_sent descriptor_set_def descriptor_clear_def descriptor_valid_def)
qed

lemma handle_request_responds_error:
  assumes d: "sk_disp w" and route: "im_interface msg = Some i" "im_member msg = Some meth" "ordinary_iface i"
      "routes w i meth m"
    and dec: "sm_args (method_at w m) (im_body msg) = ret (args, it)" and cb: "sm_cb (method_at w m)"
    and h: "method_cb U m args = respond_with_error K err" and t: "sm_throw (method_at w m) msg err = ret om"
  shows "\<exists>w'. handle_request introspection objectmanager L K junk U msg w = Some (Inr Handled, w') \<and>
    sent (sconn w') = sent (sconn w) @ [om]"
proof -
  have "handle_request introspection objectmanager L K junk U msg w = handle_interface_request L K junk U msg m w"
    by (rule handle_request_routes [OF route])
  with d dec cb h t show ?thesis
    by (simp add: handle_interface_request_def pmodify_def pcatch_def smethod_eval_def pbind_def preturn_def
        respond_with_error_def server_send_def send_sent descriptor_set_def descriptor_clear_def descriptor_valid_def)
qed

text \<open>What arrives at the server of a request, and at the client of a response.\<close>

lemma request_arrives:
  assumes "arrives wv rv (method_msg K st meth f) msg" and "appends wv f ds"
  shows "im_interface msg = Some (stub_iface st)" "im_member msg = Some meth" "rv (im_body msg) = ds"
  using assms new_message_empty
  by (simp_all add: arrives_def method_msg_def message_new_method_call_def appends_def)

lemma response_arrives:
  assumes "arrives wv rv (response_msg K msg (Some g)) rmsg" and "appends wv g rs"
  shows "im_type rmsg = MethodReturn" "rv (im_body rmsg) = rs" "im_reply_serial rmsg = im_serial msg"
  using assms new_message_empty
  by (simp_all add: arrives_def response_msg_def message_new_method_return_def appends_def)

text \<open>The value a callback responds with is the value the caller gets.\<close>

lemma call_round_trip:
  fixes w :: "('b, 'w, 'r, 'v, 'u) server" and c :: "('b, 'w, 'r, 'cv) client"
  assumes c: "has_disp (the_stub s c)" and f: "appends wv f ds" and g: "appends wv g rs"
    and req: "arrives wv rv (method_msg K (the_stub s c) (cm_name cm) f) msg"
    and srv: "sk_disp w" "ordinary_iface (stub_iface (the_stub s c))"
      "routes w (stub_iface (the_stub s c)) (cm_name cm) m" "sm_cb (method_at w m)"
    and dec: "\<And>r. rv r = ds \<Longrightarrow> \<exists>it. sm_args (method_at w m) r = ret (args, it)"
    and h: "method_cb U m args = respond_with K (Some g)"
    and rdec: "\<And>r. rv r = rs \<Longrightarrow> \<exists>it. d r = ret (x, it)"
  shows "\<exists>w'. handle_request introspection objectmanager L K junk U msg w = Some (Inr Handled, w') \<and>
    sent (sconn w') = sent (sconn w) @ [response_msg K msg (Some g)] \<and>
    (\<forall>p b1 rmsg b2. arrives wv rv (response_msg K msg (Some g)) rmsg \<longrightarrow>
       send_with_reply K (conn_of c) (method_msg K (the_stub s c) (cm_name cm) f) (helper_timeout c) = (p, b1) \<longrightarrow>
       call_block K b1 p = (rmsg, b2) \<longrightarrow>
       (\<exists>c'. method_call K s cm False f (Some d) c = Some (Inr (Some x), c')))"
proof -
  note ra = request_arrives [OF req f]
  obtain it where it: "sm_args (method_at w m) (im_body msg) = ret (args, it)"
    using dec [OF ra(3)] by blast
  obtain w' where w': "handle_request introspection objectmanager L K junk U msg w = Some (Inr Handled, w')"
    "sent (sconn w') = sent (sconn w) @ [response_msg K msg (Some g)]"
    using handle_request_responds [OF srv(1) ra(1,2) srv(2,3) it srv(4) h] by blast
  have "\<exists>c'. method_call K s cm False f (Some d) c = Some (Inr (Some x), c')"
    if a: "arrives wv rv (response_msg K msg (Some g)) rmsg"
      and p: "send_with_reply K (conn_of c) (method_msg K (the_stub s c) (cm_name cm) f) (helper_timeout c) = (p, b1)"
        "call_block K b1 p = (rmsg, b2)" for p b1 rmsg b2
  proof -
    note rr = response_arrives [OF a g]
    obtain it' where "d (im_body rmsg) = ret (x, it')" using rdec [OF rr(2)] by blast
    with blocking_call [OF c p] rr(1) show ?thesis
      by (auto simp: method_call_def pbind_def preturn_def plift_def ret_def)
  qed
  with w' show ?thesis by blast
qed

text \<open>An error the callback responds with is the exception the caller catches.\<close>

lemma error_call_round_trip:
  fixes w :: "('b, 'w, 'r, 'v, 'u) server" and c :: "('b, 'w, 'r, 'cv) client"
  assumes c: "has_disp (the_stub s c)" and f: "appends wv f ds"
    and req: "arrives wv rv (method_msg K (the_stub s c) (cm_name cm) f) msg"
    and srv: "sk_disp w" "ordinary_iface (stub_iface (the_stub s c))"
      "routes w (stub_iface (the_stub s c)) (cm_name cm) m" "sm_cb (method_at w m)"
    and dec: "\<And>r. rv r = ds \<Longrightarrow> \<exists>it. sm_args (method_at w m) r = ret (args, it)"
    and h: "method_cb U m args = respond_with_error K err"
    and err: "Error_name err = Some n" "bvalid (BString (Error_message err))"
    and st: "sm_throw (method_at w m) = ErrorFactory_Error_reply L (message_iter K)"
    and ct: "cm_throw cm = Error_throw L cjunk"
  shows "\<exists>w' reply. handle_request introspection objectmanager L K junk U msg w = Some (Inr Handled, w') \<and>
    ErrorFactory_Error_reply L (message_iter K) msg err = ret reply \<and> sent (sconn w') = sent (sconn w) @ [reply] \<and>
    (\<forall>p b1 rmsg b2. arrives wv rv reply rmsg \<longrightarrow>
       send_with_reply K (conn_of c) (method_msg K (the_stub s c) (cm_name cm) f) (helper_timeout c) = (p, b1) \<longrightarrow>
       call_block K b1 p = (rmsg, b2) \<longrightarrow>
       (\<exists>e c'. method_call K s cm False f rd c = Some (Inl (ErrorExn e), c') \<and>
          Error_name e = Some n \<and> Error_message e = Error_message err \<and> err_serial e = im_serial msg))"
proof -
  note ra = request_arrives [OF req f]
  obtain it where it: "sm_args (method_at w m) (im_body msg) = ret (args, it)"
    using dec [OF ra(3)] by blast
  obtain om where om: "ErrorFactory_Error_reply L (message_iter K) msg err = ret om"
    using err(1) by (simp add: ErrorFactory_Error_reply_def make_reply_for_def)
  obtain w' where w': "handle_request introspection objectmanager L K junk U msg w = Some (Inr Handled, w')"
    "sent (sconn w') = sent (sconn w) @ [om]"
    using handle_request_responds_error [OF srv(1) ra(1,2) srv(2,3) it srv(4) h, of om introspection objectmanager junk] om
    by (auto simp: st)
  have "\<exists>e c'. method_call K s cm False f rd c = Some (Inl (ErrorExn e), c') \<and>
      Error_name e = Some n \<and> Error_message e = Error_message err \<and> err_serial e = im_serial msg"
    if a: "arrives wv rv om rmsg"
      and p: "send_with_reply K (conn_of c) (method_msg K (the_stub s c) (cm_name cm) f) (helper_timeout c) = (p, b1)"
        "call_block K b1 p = (rmsg, b2)" for p b1 rmsg b2
  proof -
    obtain e it' where e: "ErrorFactory_Error_init L cjunk Error_default rmsg = ret (e, it')" "im_type rmsg = ErrorReply"
      "Error_name e = Some n" "Error_message e = Error_message err" "err_serial e = im_serial msg"
      using Error_reply_arrives [OF new_message_empty err(2,1) om a] by blast
    then have t: "cm_throw cm rmsg = ret (ErrorExn e)" by (simp add: ct Error_throw_def)
    with blocking_call [OF c p] e show ?thesis
      by (auto simp: method_call_def pbind_def pthrow_def preturn_def plift_def ret_def)
  qed
  with w' om show ?thesis by blast
qed

end

end
