(* ===== verification/TypedMethods.thy ===== *)
theory TypedMethods
  imports Deduction Calls
begin

text \<open>
  \<open>ClientMethod<ArgsT...>\<close> and \<open>ServerMethod<ArgsT...>\<close> (\<open>clientside.h\<close>, \<open>serverside.h\<close>) with
  the calls they generate (\<open>detail/callinterface.h\<close>, \<open>detail/deserialize_and_return.h\<close>,
  \<open>SerializerGenerator\<close> and \<open>encode\<close> of \<open>serialization.h\<close>): serializing an argument list,
  decoding it and calling the callback with it, for the types that the declaration deduces.
\<close>

section \<open>The codecs of an argument list\<close>

fun remove_all_const :: "cxx \<Rightarrow> cxx" where
  "remove_all_const (ConstPointer t) = Pointer t"
| "remove_all_const t = t"

definition cxx_codec :: "('w, 'r) dbus_iter_api \<Rightarrow> nat \<times> cpp_val \<Rightarrow> cxx \<Rightarrow> ('w, 'r, cpp_val) codec option" where
  "cxx_codec L v0 t = (case remove_all_const t of Val a \<Rightarrow> Some (Codec_of L v0 a) | _ \<Rightarrow> None)"

definition arg_codecs :: "('w, 'r) dbus_iter_api \<Rightarrow> nat \<times> cpp_val \<Rightarrow> cxx list \<Rightarrow> ('w, 'r, cpp_val) codec list option" where
  "arg_codecs L v0 ts = those (map (cxx_codec L v0) ts)"

lemma arg_codecs_Val [simp]: "arg_codecs L v0 (map Val as) = Some (map (Codec_of L v0) as)"
  by (induction as) (auto simp: arg_codecs_def cxx_codec_def)

text \<open>The variadic \<open>encode(iter, t1, t...)\<close>.\<close>

fun encode_all :: "('w, 'r, 'a) codec list \<Rightarrow> 'w \<Rightarrow> 'a list \<Rightarrow> 'w" where
  "encode_all (c # cs) iter (x # xs) = encode_all cs (enc c iter x) xs"
| "encode_all _ iter _ = iter"

definition SerializerGenerator_eval ::
  "('w, 'r) dbus_iter_api \<Rightarrow> nat \<times> cpp_val \<Rightarrow> cxx list \<Rightarrow> (cpp_val list \<Rightarrow> 'w \<Rightarrow> 'w) option" where
  "SerializerGenerator_eval L v0 ts = map_option (\<lambda>cs xs s. encode_all cs s xs) (arg_codecs L v0 ts)"

section \<open>Calling a function with the elements of a tuple\<close>

text \<open>
  \<open>FunctionCaller<N, TupleT>::eval_intern(f, tuple, t...)\<close>: the arguments \<open>f\<close> is finally called
  with. An index outside the tuple does not compile.
\<close>

function FunctionCaller :: "int \<Rightarrow> 'a list \<Rightarrow> 'a list \<Rightarrow> 'a list option" where
  "FunctionCaller n tuple ts =
     (if n = - 1 then Some ts
      else if n < 0 \<or> int (length tuple) \<le> n then None
      else FunctionCaller (if n + 1 = int (length tuple) then - 1 else n + 1) tuple (ts @ [tuple ! nat n]))"
  by auto
termination by (relation "measure (\<lambda>(n, tuple, ts). if n = - 1 then 0 else Suc (length tuple - nat n))") auto

declare FunctionCaller.simps [simp del]

lemma FunctionCaller_done: "FunctionCaller (- 1) tuple ts = Some ts"
  by (subst FunctionCaller.simps) simp

lemma FunctionCaller_from:
  "ys \<noteq> [] \<Longrightarrow> FunctionCaller (int (length xs)) (xs @ ys) ts = Some (ts @ ys)"
proof (induction ys arbitrary: xs ts)
  case (Cons y ys)
  show ?case
  proof (cases "ys = []")
    case True
    then show ?thesis by (subst FunctionCaller.simps) (simp add: FunctionCaller_done nth_append)
  next
    case False
    with Cons.IH [of "xs @ [y]" "ts @ [y]"] have
      "FunctionCaller (int (length (xs @ [y]))) (xs @ y # ys) (ts @ [y]) = Some (ts @ y # ys)" by simp
    with False show ?thesis by (subst FunctionCaller.simps) (simp add: nth_append add.commute)
  qed
qed simp

lemma FunctionCaller_all: "tuple \<noteq> [] \<Longrightarrow> FunctionCaller 0 tuple [] = Some tuple"
  using FunctionCaller_from [of tuple "[]" "[]"] by simp

text \<open>
  \<open>GetCaller<T>::type\<close>, by the types of the tuple it decodes: none for \<open>void\<close>
  (\<open>DeserializeAndCall0\<close>), the elements of a tuple type, else the one type.
\<close>

definition GetCaller :: "cxx \<Rightarrow> cxx list" where
  "GetCaller t = (if t = Void then [] else case std_tuple t of Some us \<Rightarrow> us | None \<Rightarrow> [t])"

text \<open>\<open>DeserializeAndCall::eval\<close>: decodes the tuple flattened; the arguments for the functor.\<close>

definition DeserializeAndCall_eval ::
  "('w, 'r) dbus_iter_api \<Rightarrow> nat \<times> cpp_val \<Rightarrow> cxx \<Rightarrow> ('r \<Rightarrow> (cpp_val list \<times> 'r) res) option" where
  "DeserializeAndCall_eval L v0 t =
     (if t = Void then Some (\<lambda>iter. ret ([], iter))
      else map_option (\<lambda>cs iter. rbind (decode_flattened (tuple_fields cs) iter) (\<lambda>(tuple, iter).
             map_option (\<lambda>ts. Inr (ts, iter)) (FunctionCaller 0 tuple [])))
           (if GetCaller t = [] then None else arg_codecs L v0 (GetCaller t)))"

text \<open>
  \<open>deserialize_and_return<T>::eval\<close>: nothing for \<open>void\<close>, the elements one after the other for a
  tuple, else one value.
\<close>

definition deserialize_and_return ::
  "('w, 'r) dbus_iter_api \<Rightarrow> nat \<times> cpp_val \<Rightarrow> cxx \<Rightarrow> ('r \<Rightarrow> (cpp_val \<times> 'r) res) option option" where
  "deserialize_and_return L v0 t =
     (if t = Void then Some None
      else case std_tuple t of
        Some us \<Rightarrow> map_option (\<lambda>cs. Some (\<lambda>iter. rbind (decode_flattened (tuple_fields cs) iter)
          (\<lambda>(rc, iter). ret (VTuple rc, iter)))) (arg_codecs L v0 us)
      | None \<Rightarrow> map_option (\<lambda>c. Some (dec c)) (cxx_codec L v0 t))"

section \<open>Method objects\<close>

text \<open>The member types of \<open>ClientMethod<ArgsT...>\<close>; \<open>None\<close> is a declaration that does not compile.\<close>

record client_method_types =
  cmt_oneway :: bool
  cmt_args :: cxx
  cmt_return :: cxx
  cmt_exception :: cxx
  cmt_callback :: cxx
  cmt_serializer :: "cxx list"

definition ClientMethod :: "cxx list \<Rightarrow> client_method_types option" where
  "ClientMethod ts =
     Option.bind (AllOf InOutThrowOrOneway (make_typelist ts)) (\<lambda>valid.
     Option.bind (is_oneway_request ts) (\<lambda>oneway.
     Option.bind (generate_argument_const_type ts) (\<lambda>a.
     Option.bind (generate_return_type ts) (\<lambda>r.
     Option.bind (get_exception_type ts) (\<lambda>e.
     Option.bind (generate_callback_function e ts) (\<lambda>f.
     Option.bind (Option.bind (const_list_type ts) generate_serializer) (\<lambda>s.
       if oneway \<longrightarrow> canonify r = Void
       then Some \<lparr>cmt_oneway = oneway, cmt_args = canonify a, cmt_return = canonify r, cmt_exception = e,
         cmt_callback = f, cmt_serializer = s\<rparr>
       else None)))))))"

record server_method_types =
  smt_oneway :: bool
  smt_args :: cxx
  smt_return :: cxx
  smt_exception :: cxx
  smt_callback :: cxx
  smt_serializer :: "cxx list"

text \<open>
  Calling \<open>f_\<close> in \<open>__eval\<close> compiles if each argument converts to its parameter: it has its type,
  or it is the element of the tuple of one that the parameter is.
\<close>

definition converts :: "cxx \<Rightarrow> cxx \<Rightarrow> bool" where
  "converts a p \<longleftrightarrow> a = p \<or> std_tuple p = Some [a]"

definition callable :: "cxx \<Rightarrow> cxx list \<Rightarrow> bool" where
  "callable f as = (case f of StdFunction ps \<Rightarrow> list_all2 converts as ps | _ \<Rightarrow> False)"

definition ServerMethod :: "cxx list \<Rightarrow> server_method_types option" where
  "ServerMethod ts =
     Option.bind (AllOf InOutThrowOrOneway (make_typelist ts)) (\<lambda>valid.
     Option.bind (is_oneway_request ts) (\<lambda>oneway.
     Option.bind (generate_argument_type ts) (\<lambda>a.
     Option.bind (generate_return_type ts) (\<lambda>r.
     Option.bind (generate_server_callback_function ts) (\<lambda>f.
     Option.bind (Option.bind (filter_args is_out ts) generate_serializer) (\<lambda>s.
     Option.bind (get_exception_type ts) (\<lambda>e.
       if (oneway \<longrightarrow> canonify r = Void) \<and> callable f (GetCaller (canonify a))
       then Some \<lparr>smt_oneway = oneway, smt_args = canonify a, smt_return = canonify r, smt_exception = e,
         smt_callback = f, smt_serializer = s\<rparr>
       else None)))))))"

text \<open>
  The parts of a call: what \<open>ClientMethod::operator()\<close> serializes and makes of the reply, what
  \<open>ServerMethod::__eval\<close> passes to the callback, what \<open>ServerMethod::operator()\<close> responds with.
\<close>

definition client_request ::
  "('w, 'r) dbus_iter_api \<Rightarrow> nat \<times> cpp_val \<Rightarrow> cxx list \<Rightarrow> (cpp_val list \<Rightarrow> 'w \<Rightarrow> 'w) option" where
  "client_request L v0 ts = Option.bind (ClientMethod ts) (\<lambda>m. SerializerGenerator_eval L v0 (cmt_serializer m))"

definition client_result ::
  "('w, 'r) dbus_iter_api \<Rightarrow> nat \<times> cpp_val \<Rightarrow> cxx list \<Rightarrow> ('r \<Rightarrow> (cpp_val \<times> 'r) res) option option" where
  "client_result L v0 ts = Option.bind (ClientMethod ts) (\<lambda>m. deserialize_and_return L v0 (cmt_return m))"

definition server_eval ::
  "('w, 'r) dbus_iter_api \<Rightarrow> nat \<times> cpp_val \<Rightarrow> cxx list \<Rightarrow> ('r \<Rightarrow> (cpp_val list \<times> 'r) res) option" where
  "server_eval L v0 ts = Option.bind (ServerMethod ts) (\<lambda>m. DeserializeAndCall_eval L v0 (smt_args m))"

definition server_response ::
  "('w, 'r) dbus_iter_api \<Rightarrow> nat \<times> cpp_val \<Rightarrow> cxx list \<Rightarrow> (cpp_val list \<Rightarrow> 'w \<Rightarrow> 'w) option" where
  "server_response L v0 ts = Option.bind (ServerMethod ts) (\<lambda>m.
     if smt_oneway m then None
     else map_option (\<lambda>f ys. if 0 < length ys then f ys else (\<lambda>s. s)) (SerializerGenerator_eval L v0 (smt_serializer m)))"

text \<open>\<open>ServerMethod::introspect\<close> and \<open>ServerSignal::introspect\<close>.\<close>

definition ServerMethod_introspect :: "string \<Rightarrow> cxx list \<Rightarrow> string option" where
  "ServerMethod_introspect name ts = map_option (method_xml name) (introspect_args ts)"

definition ServerSignal_introspect :: "string \<Rightarrow> cxx list \<Rightarrow> string option" where
  "ServerSignal_introspect name ts = map_option (signal_xml name) (introspect_args ts)"

text \<open>\<open>ServerSignal::notify\<close> hands this serializer to \<open>send_signal\<close>.\<close>

definition ServerSignal_serializer ::
  "('w, 'r) dbus_iter_api \<Rightarrow> nat \<times> cpp_val \<Rightarrow> cxx list \<Rightarrow> (cpp_val list \<Rightarrow> 'w \<Rightarrow> 'w) option" where
  "ServerSignal_serializer L v0 ts = map_option (\<lambda>cs xs iter. encode_all cs iter xs) (arg_codecs L v0 ts)"

text \<open>\<open>ClientSignal::__eval\<close> with \<open>args_type\<close>, which is not canonified.\<close>

definition ClientSignal_eval ::
  "('w, 'r) dbus_iter_api \<Rightarrow> nat \<times> cpp_val \<Rightarrow> cxx list \<Rightarrow> ('r \<Rightarrow> (cpp_val list \<times> 'r) res) option" where
  "ClientSignal_eval L v0 ts = DeserializeAndCall_eval L v0 (if ts = [] then Void else StdTuple ts)"

section \<open>What the members are\<close>

definition tuple_type :: "cpp_ty list \<Rightarrow> cxx" where
  "tuple_type as = canonify (StdTuple (map Val as))"

lemma tuple_type_simps [simp]:
  "tuple_type [] = Void" "tuple_type [a] = Val a" "tuple_type (a # b # as) = StdTuple (map Val (a # b # as))"
  by (simp_all add: tuple_type_def canonify_def)

lemma tuple_type_Void [simp]: "tuple_type as = Void \<longleftrightarrow> as = []"
  by (cases as rule: remdups_adj.cases) (auto simp: tuple_type_def canonify_def split: list.split)

text \<open>A list that is one tuple is flattened once more than it was put together.\<close>

definition single_tuple :: "cpp_ty list \<Rightarrow> bool" where
  "single_tuple as \<longleftrightarrow> (\<exists>us. as = [TyTuple us])"

lemma GetCaller_tuple_type:
  "GetCaller (tuple_type as) = (case as of [TyTuple us] \<Rightarrow> map Val us | _ \<Rightarrow> map Val as)"
proof (cases as)
  case (Cons a bs)
  then show ?thesis
    by (cases bs; cases a) (auto simp: GetCaller_def)
qed (simp add: GetCaller_def)

lemma GetCaller_not_single: "\<not> single_tuple as \<Longrightarrow> GetCaller (tuple_type as) = map Val as"
  by (auto simp: GetCaller_tuple_type single_tuple_def split: list.splits cpp_ty.splits)

lemma ClientMethod_declared:
  assumes "declared ts"
  shows "ClientMethod ts = Some \<lparr>cmt_oneway = Oneway \<in> set ts, cmt_args = tuple_type (ins ts),
    cmt_return = tuple_type (outs ts), cmt_exception = (case excs ts of [] \<Rightarrow> ErrorT | e # es \<Rightarrow> e),
    cmt_callback = StdFunction (CallStateRef (case excs ts of [] \<Rightarrow> ErrorT | e # es \<Rightarrow> e) # map Val (outs ts)),
    cmt_serializer = map Val (ins ts)\<rparr>"
proof -
  from assms have p: "list_all param ts" by (simp add: declared_def)
  have "Oneway \<in> set ts \<longrightarrow> tuple_type (outs ts) = Void"
    using assms by (auto simp: declared_def)
  with deductions [OF p] is_oneway_declared [OF p] valid_declared [OF p] exception_declared [OF assms]
  show ?thesis by (simp add: ClientMethod_def tuple_type_def)
qed

lemma callable_same: "callable (StdFunction ts) ts"
  by (simp add: callable_def list_all2_refl converts_def)

lemma callable_single:
  "callable (StdFunction [Val (TyTuple us)]) (map Val us) \<longleftrightarrow> (\<exists>u. us = [u])"
  by (cases us) (auto simp: callable_def converts_def list_all2_Cons2)

lemma ServerMethod_declared:
  assumes "declared ts"
  shows "ServerMethod ts = (if \<exists>us. ins ts = [TyTuple us] \<and> (\<nexists>u. us = [u]) then None else
    Some \<lparr>smt_oneway = Oneway \<in> set ts, smt_args = tuple_type (ins ts), smt_return = tuple_type (outs ts),
    smt_exception = (case excs ts of [] \<Rightarrow> ErrorT | e # es \<Rightarrow> e),
    smt_callback = StdFunction (map Val (ins ts)), smt_serializer = map Val (outs ts)\<rparr>)"
proof -
  from assms have p: "list_all param ts" by (simp add: declared_def)
  have "callable (StdFunction (map Val (ins ts))) (GetCaller (tuple_type (ins ts)))
      \<longleftrightarrow> \<not> (\<exists>us. ins ts = [TyTuple us] \<and> (\<nexists>u. us = [u]))"
  proof (cases "single_tuple (ins ts)")
    case True
    then show ?thesis by (auto simp: single_tuple_def GetCaller_tuple_type callable_single)
  next
    case False
    then show ?thesis
      using callable_same by (auto simp: GetCaller_not_single single_tuple_def)
  qed
  moreover have "Oneway \<in> set ts \<longrightarrow> tuple_type (outs ts) = Void"
    using assms by (auto simp: declared_def)
  ultimately show ?thesis
    using deductions [OF p] is_oneway_declared [OF p] valid_declared [OF p] exception_declared [OF assms]
    by (simp add: ServerMethod_def tuple_type_def)
qed

end
