(* ===== verification/ClientCorrect.thy ===== *)
theory ClientCorrect
  imports ClientRuns CallStates
begin

text \<open>
  What a program that uses stubs can rely on: which match rules the bus has in any reachable
  state, when a stub is connected, and which callbacks a signal leads to. The concrete stub at
  the start is used to show that the hypotheses of the theorems hold.
\<close>

section \<open>A concrete process\<close>

text \<open>Stub 0 has the signal 0, \<open>sig\<close> with a string argument, and the property 0, \<open>prop\<close>.\<close>

definition stub0 :: stub where
  "stub0 = \<lparr>ifaces = [''a.B''], objectpath = ''/a/B/r'', busname = ''a.B.r'', has_disp = False, signals = None,
     properties = [(0, False)], attached_properties = 0, conn_state = Disconnected, connected_cb = True\<rparr>"

type_synonym sample_world = "(ref_w rec_conn, ref_w, dval list, string) dworld"

definition world0 :: sample_world where
  "world0 = \<lparr>disp = \<lparr>conn = rec_conn0, request_timeout = - 1, running = False, dstubs = [],
       signal_matches = Map.empty, busnames = {''a.B.r''}\<rparr>,
     stub_at = (\<lambda>_. stub0),
     sig_at = (\<lambda>_. \<lparr>sig_name = ''sig'', sig_stub = 0, sig_next = None, sig_args = StringCodec_decode ref_api, sig_cb = True\<rparr>),
     prop_at = (\<lambda>_. \<lparr>prop_name = ''prop'', prop_codec = string_codec ref_api, prop_default = [], prop_cb = True\<rparr>),
     events = []\<rparr>"

abbreviation K0 :: "(ref_w rec_conn, ref_w, dval list) dbus_conn_api" where
  "K0 \<equiv> rec_api ref_root \<lparr>im_type = MethodReturn, im_path = None, im_interface = None, im_member = None,
     im_error_name = None, im_serial = 2, im_reply_serial = 1, im_body = []\<rparr>"

abbreviation self0 :: string where
  "self0 \<equiv> ''/org/simppl/dispatcher/1/1''"

definition world1 :: sample_world where
  "world1 = add_client ref_api K0 self0 0 world0"

definition rules1 :: "string \<Rightarrow> ref_w rec_conn" where
  "rules1 m = (let b = conn (disp world1) in b\<lparr>rc_rules := (rc_rules b)(m := Suc (rc_rules b m))\<rparr>)"

definition with_rule :: "string \<Rightarrow> (stub \<Rightarrow> stub) \<Rightarrow> sample_world" where
  "with_rule m f = upd_stub 0 f (world1\<lparr>disp := (disp world1)\<lparr>conn := rules1 m, signal_matches := [m \<mapsto> 1]\<rparr>\<rparr>)"

abbreviation sig_rule :: string where
  "sig_rule \<equiv> generate_matchstring stub0 ''sig''"

abbreviation prop_rule :: string where
  "prop_rule \<equiv> generate_property_matchstring stub0"

definition world_sig :: sample_world where
  "world_sig = with_rule sig_rule (\<lambda>st. st\<lparr>signals := Some 0\<rparr>)"

definition world_prop :: sample_world where
  "world_prop = with_rule prop_rule (\<lambda>st. st\<lparr>properties := [(0, True)], attached_properties := 1\<rparr>)"

lemma match_of_stub0 [simp]:
  "generate_matchstring (stub0\<lparr>has_disp := b\<rparr>) n = generate_matchstring stub0 n"
  "generate_matchstring (stub0\<lparr>has_disp := b, signals := x\<rparr>) n = generate_matchstring stub0 n"
  "generate_property_matchstring (stub0\<lparr>has_disp := b\<rparr>) = generate_property_matchstring stub0"
  "generate_property_matchstring (stub0\<lparr>has_disp := b, properties := ps, attached_properties := n'\<rparr>) =
     generate_property_matchstring stub0"
  by (simp_all add: generate_matchstring_def generate_property_matchstring_def stub_iface_def)

lemma stub0_fields:
  "signals stub0 = None" "properties stub0 = [(0, False)]" "attached_properties stub0 = 0" "busname stub0 = ''a.B.r''"
  "conn_state stub0 = Disconnected" "connected_cb stub0" "objectpath stub0 = ''/a/B/r''"
  by (simp_all add: stub0_def)

lemma world1_fields:
  "stub_at world1 0 = stub0\<lparr>has_disp := True\<rparr>" "sig_at world1 = sig_at world0" "prop_at world1 = prop_at world0"
  "signal_matches (disp world1) = Map.empty" "dstubs (disp world1) = [(''/a/B/r'', 0)]"
  "rc_rules (conn (disp world1)) = (\<lambda>_. 0)" "rc_fail (conn (disp world1)) = False"
  "busnames (disp world1) = {''a.B.r''}" "live world1 = {0}" "events world1 = []"
  by (simp_all add: world1_def add_client_def Let_def upd_stub_def upd_dispatcher_def notify_connected_def
      world0_def stub0_def rec_api_def rec_conn0_def c_str_def NUL_def live_def)

lemma no_stubs_world0: "no_stubs (disp world0)"
  by (simp add: no_stubs_def world0_def)

lemma nul_free_rules: "nul_free sig_rule" "nul_free prop_rule"
  by (simp_all add: generate_matchstring_def generate_property_matchstring_def stub0_def NUL_def)

lemma sample_create: "client_step ref_api K0 self0 world0 world1"
  unfolding world1_def
  by (rule client_step.create)
    (simp add: constructed_def live_def world0_def stub0_def names_ok_def NUL_def)

lemma world0_sig: "sig_at world0 g = \<lparr>sig_name = ''sig'', sig_stub = 0, sig_next = None,
    sig_args = StringCodec_decode ref_api, sig_cb = True\<rparr>"
  by (simp add: world0_def)

lemma add_rule:
  assumes "nul_free m"
  shows "register_signal_match K0 m (disp world1) = Some (Inr (), (disp world1)\<lparr>conn := rules1 m, signal_matches := [m \<mapsto> 1]\<rparr>)"
  using assms
  by (simp add: register_signal_match_def world1_fields c_str_id rec_api_def rules1_def Let_def preturn_def)

lemma sample_attach: "client_step ref_api K0 self0 world1 world_sig"
proof (rule client_step.attach)
  have "set_next 0 None w = w" if "sig_at w = sig_at world0" for w :: sample_world
    using that by (simp add: set_next_def fun_upd_idem world0_sig)
  moreover have "find_signal (next_of world1) (signals (stub_at world1 0)) 0 = Some False"
    by (subst find_signal.simps) (simp add: world1_fields stub0_fields)
  ultimately show "register_signal (register_signal_match K0) 0 0 world1 = Some (Inr (), world_sig)"
    using add_rule [OF nul_free_rules(1)]
    by (simp add: register_signal_def world1_fields world0_sig stub0_fields on_disp_def
        on_part_def pbind_def pmodify_def world_sig_def with_rule_def preturn_def)
qed (simp_all add: world1_fields world0_sig)

lemma sample_attach_prop: "client_step ref_api K0 self0 world1 world_prop"
proof (rule client_step.attach_prop)
  show "attach_property (register_signal_match K0) 0 0 world1 = Some (Inr (), world_prop)"
    using add_rule [OF nul_free_rules(2)]
    by (simp add: attach_property_def Let_def world1_fields on_disp_def on_part_def world_prop_def with_rule_def
        stub0_fields)
qed (simp add: world1_fields)

lemma runs_to_sig: "(client_step ref_api K0 self0)\<^sup>*\<^sup>* world0 world_sig"
  using sample_create sample_attach by (meson converse_rtranclp_into_rtranclp r_into_rtranclp)

lemma runs_to_prop: "(client_step ref_api K0 self0)\<^sup>*\<^sup>* world0 world_prop"
  using sample_create sample_attach_prop by (meson converse_rtranclp_into_rtranclp r_into_rtranclp)

section \<open>The list of attached signals\<close>

context dbus_conn begin

lemma signal_list_ops:
  assumes I: "client_inv rules base w" and s: "s \<in> live w" and a: "attached w s xs" and g: "sig_stub (sig_at w g) = s"
  shows "(\<exists>r w'. register_signal (register_signal_match K) s g w = Some (r, w') \<and>
      attached w' s (if r = Inr () then List.insert g xs else xs)) \<and>
    (\<exists>r w'. unregister_signal (unregister_signal_match K) s g w = Some (r, w') \<and>
      attached w' s (if r = Inr () then remove1 g xs else xs))"
proof -
  from I obtain att where R: "registered match_count (matches_ok rules) w (live w) att" and st: "stub_ok w s (att s)"
    using s by (auto elim: client_invD)
  then have att: "att s = xs"
    using a by (auto simp: stub_ok_def attached_def intro: chain_unique)
  have ch: "chain (next_of w) (signals (stub_at w s)) xs" "has_disp (stub_at w s)"
    using st a by (simp_all add: stub_ok_def attached_def)
  obtain r w' where r: "register_signal (register_signal_match K) s g w = Some (r, w')"
    using table.register_signal_total [OF st, of g] by fastforce
  from table.register_signal_law [OF R s g r] s have "attached w' s (if r = Inr () then List.insert g xs else xs)"
    by (auto simp: registered_def stub_ok_def att List.insert_def)
  moreover obtain q v where q: "unregister_signal (unregister_signal_match K) s g w = Some (q, v)"
    using table.unregister_signal_total [OF st, of g] by fastforce
  moreover have "attached v s (if q = Inr () then remove1 g xs else xs)"
  proof (cases "q = Inr ()")
    case True
    from table.unregister_signal_law [OF R s q [unfolded True]] s True show ?thesis
      by (auto simp: registered_def stub_ok_def att)
  next
    case False
    with q unregister_loop_chain [OF ch, of "unregister_signal_match K" g None] have "\<exists>d. v = w\<lparr>disp := d\<rparr>"
      by (auto simp: unregister_signal_def pbind_eq_Some pmodify_def on_disp_def on_part_eq_Some split: if_splits)
    with a False show ?thesis by (auto simp: attached_def next_of_def [abs_def])
  qed
  ultimately show ?thesis using r by blast
qed

end

section \<open>Match rules\<close>

text \<open>
  C7. In every reachable state of a process that started without stubs, whatever stubs,
  signals and properties came and went in between and whatever arrived from the bus, the bus
  has a match rule for each signal that is attached to a stub.
\<close>

theorem attached_signal_delivered:
  assumes "dbus_conn K rules sent paths timeouts" and "no_stubs (disp w)"
    and "(client_step L K self)\<^sup>*\<^sup>* w w'"
    and "s \<in> live w'" and "find_signal (next_of w') (signals (stub_at w' s)) g = Some True"
  shows "0 < rules (conn (disp w')) (generate_matchstring (stub_at w' s) (sig_name (sig_at w' g)))"
  by (rule dbus_conn.attached_signal_has_rule [OF assms(1)
        dbus_conn.client_runs_inv [OF assms(1,3) dbus_conn.no_stubs_inv [OF assms(1,2)]] assms(4,5)])

theorem attached_signal_delivered_witness:
  "0 < rc_rules (conn (disp world_sig)) (generate_matchstring (stub_at world_sig 0) (sig_name (sig_at world_sig 0)))"
proof (rule attached_signal_delivered [OF rec.dbus_conn_axioms no_stubs_world0 runs_to_sig])
  show "0 \<in> live world_sig"
    by (simp add: live_def world_sig_def with_rule_def world1_fields upd_stub_def)
  show "find_signal (next_of world_sig) (signals (stub_at world_sig 0)) 0 = Some True"
    by (subst find_signal.simps) (simp add: world_sig_def with_rule_def world1_fields upd_stub_def)
qed

text \<open>
  In every reachable state, the bus has a match rule for the \<open>PropertiesChanged\<close> signal of
  each stub that has a property attached.
\<close>

theorem attached_property_delivered:
  assumes "dbus_conn K rules sent paths timeouts" and "no_stubs (disp w)"
    and "(client_step L K self)\<^sup>*\<^sup>* w w'"
    and "s \<in> live w'" and "property_flag (properties (stub_at w' s)) p = Some True"
  shows "0 < rules (conn (disp w')) (generate_property_matchstring (stub_at w' s))"
  by (rule dbus_conn.attached_property_has_rule [OF assms(1)
        dbus_conn.client_runs_inv [OF assms(1,3) dbus_conn.no_stubs_inv [OF assms(1,2)]] assms(4,5)])

theorem attached_property_delivered_witness:
  "0 < rc_rules (conn (disp world_prop)) (generate_property_matchstring (stub_at world_prop 0))"
  by (rule attached_property_delivered [OF rec.dbus_conn_axioms no_stubs_world0 runs_to_prop, of 0 0])
    (simp_all add: live_def world_prop_def with_rule_def world1_fields upd_stub_def)

text \<open>
  C9. No match rule is leaked: when in a reachable state no stub is left, the bus has exactly
  the rules it had at the start.
\<close>

theorem no_rule_leaked:
  assumes "dbus_conn K rules sent paths timeouts" and "no_stubs (disp w)"
    and "(client_step L K self)\<^sup>*\<^sup>* w w'" and "live w' = {}"
  shows "rules (conn (disp w')) = rules (conn (disp w))"
  by (rule dbus_conn.no_rule_left [OF assms(1)
        dbus_conn.client_runs_inv [OF assms(1,3) dbus_conn.no_stubs_inv [OF assms(1,2)]] assms(4)])

lemma world_prop_fields:
  "stub_at world_prop 0 = stub0\<lparr>has_disp := True, properties := [(0, True)], attached_properties := 1\<rparr>"
  "dstubs (disp world_prop) = [(''/a/B/r'', 0)]" "signal_matches (disp world_prop) = [prop_rule \<mapsto> 1]"
  "conn (disp world_prop) = rules1 prop_rule" "live world_prop = {0}" "rc_fail (rules1 m) = False"
  by (simp_all add: world_prop_def with_rule_def world1_fields upd_stub_def live_def rules1_def Let_def)

lemma sample_destroy: "\<exists>w'. client_step ref_api K0 self0 world_prop w' \<and> live w' = {}"
proof -
  have "cleanup_loop (unregister_signal_match K0) 0 None w = preturn () w" for w :: sample_world
    by (subst cleanup_loop.simps) simp
  then have "\<exists>w'. destroy_stub K0 0 world_prop = Some (Inr (), w') \<and> live w' = {}"
    by (simp add: destroy_stub_def remove_client_def world_prop_fields cleanup_def stub0_fields on_disp_def on_part_def
        pbind_def pmodify_def preturn_def upd_stub_def unregister_signal_match_def rec_api_def Let_def
        upd_dispatcher_def live_def)
  then obtain w' where "destroy_stub K0 0 world_prop = Some (Inr (), w')" "live w' = {}" by blast
  moreover have "0 \<in> live world_prop" by (simp add: world_prop_fields(5))
  ultimately show ?thesis using client_step.destroy by blast
qed

theorem no_rule_leaked_witness:
  "\<exists>w'. client_step ref_api K0 self0 world_prop w' \<and> rc_rules (conn (disp w')) = (\<lambda>_. 0)"
proof -
  from sample_destroy
  obtain w' where w': "client_step ref_api K0 self0 world_prop w'" "live w' = {}" by (elim exE conjE)
  from runs_to_prop w'(1) have r: "(client_step ref_api K0 self0)\<^sup>*\<^sup>* world0 w'"
    by (rule rtranclp.rtrancl_into_rtrancl)
  note l = no_rule_leaked [OF rec.dbus_conn_axioms no_stubs_world0 r w'(2)]
  have "rc_rules (conn (disp world0)) = (\<lambda>_. 0)" by (simp add: world0_def rec_conn0_def)
  with l w'(1) show ?thesis by metis
qed

section \<open>Connection state\<close>

text \<open>
  C11. In every state a process can get to, a stub is \<open>Connected\<close> only while its bus name exists
  on the bus, or it was led astray: at some point before, when this held of the stub, a
  \<open>notify_client\<close> signal for its object path was received that names another bus name, and made the stub
  \<open>Connected\<close> although its own bus name did not exist. The dispatcher connects every stub at the object
  path, whatever its bus name (\<^verbatim>\<open>dispatcher.cpp\<close>); nothing else brings a stub into such a state.
\<close>

theorem connected_only_while_named:
  assumes "dbus_conn K rules sent paths timeouts" and "no_stubs (disp w)"
    and "(client_step L K self)\<^sup>*\<^sup>* w w'"
    and "s \<in> live w'" and "conn_state (stub_at w' s) = Connected"
  shows "busname (stub_at w' s) \<in> busnames (disp w') \<or>
    (\<exists>u msg r u'. (client_step L K self)\<^sup>*\<^sup>* w u \<and> \<not> astray u s \<and> s \<in> misled L msg u \<and>
       try_handle_signal L msg u = Some (r, u') \<and> astray u' s \<and> (client_step L K self)\<^sup>*\<^sup>* u' w')"
proof (cases "astray w' s")
  case True
  have "\<not> astray w s" using assms(2) by (simp add: astray_def live_def no_stubs_def)
  from dbus_conn.astray_origin [OF assms(1,3) dbus_conn.no_stubs_inv [OF assms(1,2)] True this] show ?thesis ..
next
  case False
  with assms(4,5) show ?thesis by (simp add: astray_def)
qed

text \<open>A signal of the bus that says that stub 0's server has appeared.\<close>

definition owner_msg :: "dval list in_msg" where
  "owner_msg = \<lparr>im_type = Signal, im_path = Some ''/org/freedesktop/DBus'', im_interface = Some ''org.freedesktop.DBus'',
     im_member = Some ''NameOwnerChanged'', im_error_name = None, im_serial = 3, im_reply_serial = 0,
     im_body = [Basic (BString ''a.B.r''), Basic (BString []), Basic (BString '':1.2'')]\<rparr>"

lemma owner_msg_received:
  "try_handle_signal ref_api owner_msg w =
     Some (Inr Handled, name_owner_changed ''a.B.r'' [] '':1.2'' w)"
  by (simp add: try_handle_signal_def owner_msg_def decode3_def StringCodec_decode_def
      simppl_dbus_message_iter_get_basic_def ref_api_simps c_str_def NUL_def pbind_def preturn_def)

theorem connected_only_while_named_witness:
  "\<exists>w'. (client_step ref_api K0 self0)\<^sup>*\<^sup>* world0 w' \<and> conn_state (stub_at w' 0) = Connected \<and>
     (''a.B.r'' \<in> busnames (disp w') \<or>
      (\<exists>u msg r. (client_step ref_api K0 self0)\<^sup>*\<^sup>* world0 u \<and> \<not> astray u 0 \<and> 0 \<in> misled ref_api msg u))"
proof -
  let ?w = "name_owner_changed ''a.B.r'' [] '':1.2'' world_sig"
  have "client_step ref_api K0 self0 world_sig ?w"
    by (rule client_step.receive [OF owner_msg_received])
  with runs_to_sig have r: "(client_step ref_api K0 self0)\<^sup>*\<^sup>* world0 ?w" by (rule rtranclp.rtrancl_into_rtrancl)
  have w: "0 \<in> live ?w" "conn_state (stub_at ?w 0) = Connected" "busname (stub_at ?w 0) = ''a.B.r''"
    by (simp_all add: name_owner_changed_def is_unique_name_def notify_clients_world upd_dispatcher_def live_def
        world_sig_def with_rule_def world1_fields upd_stub_def stub0_fields)
  from connected_only_while_named [OF rec.dbus_conn_axioms no_stubs_world0 r w(1,2)] r w(2) show ?thesis
    unfolding w(3) by blast
qed

text \<open>
  C17. \<open>NameOwnerChanged\<close> with an empty old owner connects exactly the stubs of that bus name
  and calls the connected callback of those that were not connected before; with an empty new
  owner it disconnects them. Names of connections (\<open>:1.2\<close>) and changes of ownership do nothing.
\<close>

theorem name_owner_changed_effect:
  assumes "distinct (map snd (dstubs (disp w)))" and "\<not> is_unique_name b"
  defines "of_name \<equiv> filter (\<lambda>s. busname (stub_at w s) = b) (map snd (dstubs (disp w)))"
    and "told x \<equiv> \<lambda>s. conn_state (stub_at w s) \<noteq> x \<and> connected_cb (stub_at w s)"
  shows "(let w' = name_owner_changed b [] new w in
      busnames (disp w') = insert b (busnames (disp w)) \<and>
      stub_at w' = (\<lambda>s. if s \<in> set of_name then stub_at w s\<lparr>conn_state := Connected\<rparr> else stub_at w s) \<and>
      events w' = events w @ map (\<lambda>s. ConnectedCallback s Connected) (filter (told Connected) of_name)) \<and>
    (old \<noteq> [] \<longrightarrow> (let w' = name_owner_changed b old [] w in
      busnames (disp w') = busnames (disp w) - {b} \<and>
      stub_at w' = (\<lambda>s. if s \<in> set of_name then stub_at w s\<lparr>conn_state := Disconnected\<rparr> else stub_at w s) \<and>
      events w' = events w @ map (\<lambda>s. ConnectedCallback s Disconnected) (filter (told Disconnected) of_name))) \<and>
    (old \<noteq> [] \<longrightarrow> new \<noteq> [] \<longrightarrow> name_owner_changed b old new w = w)"
proof -
  have d: "distinct of_name" using assms(1) by (simp add: of_name_def)
  have "events (notify_clients b x (w\<lparr>disp := e\<rparr>)) = events w @ map (\<lambda>s. ConnectedCallback s x) (filter (told x) of_name)"
    if "dstubs e = dstubs (disp w)" for x e
    using fold_state_changed_events [OF d, of x False "w\<lparr>disp := e\<rparr>"] that
    by (simp add: notify_clients_def notify_clients_fold of_name_def told_def)
  with assms(2) show ?thesis
    by (auto simp: name_owner_changed_def Let_def upd_dispatcher_def notify_clients_world of_name_def fun_eq_iff)
qed

theorem name_owner_changed_effect_witness:
  "events (name_owner_changed ''a.B.r'' [] '':1.2'' world_sig) = [ConnectedCallback 0 Connected]"
proof -
  have "distinct (map snd (dstubs (disp world_sig)))" "\<not> is_unique_name ''a.B.r''"
    by (simp_all add: world_sig_def with_rule_def world1_fields upd_stub_def is_unique_name_def)
  from name_owner_changed_effect [OF this, of "'':1.2''" "''x''"] show ?thesis
    by (simp add: Let_def world_sig_def with_rule_def world1_fields upd_stub_def stub0_fields)
qed

text \<open>
  The bus name a \<open>notify_client\<close> signal carries only decides whether it is looked at: every
  stub at the object path becomes \<open>Connected\<close>, also one whose own bus name does not exist.
\<close>

theorem notify_client_ignores_name:
  assumes "im_type msg = Signal" and "im_member msg = Some ''notify_client''"
    and "decode2 L (im_body msg) = ret (b, opath)" and "b \<in> busnames (disp w)"
    and "(opath, s) \<in> set (dstubs (disp w))"
  shows "\<exists>w'. try_handle_signal L msg w = Some (Inr Handled, w') \<and> conn_state (stub_at w' s) = Connected"
proof -
  have "c_str ''notify_client'' = ''notify_client''" by (simp add: c_str_def NUL_def)
  with assms show ?thesis
    by (auto simp: try_handle_signal_def pbind_def preturn_def notify_client_world equal_range_in)
qed

text \<open>A stub at the same path whose bus name nobody owns.\<close>

definition world_two :: sample_world where
  "world_two = add_client ref_api K0 self0 1 (upd_stub 1 (\<lambda>st. st\<lparr>busname := ''c.D.r''\<rparr>) world1)"

definition notify_msg :: "dval list in_msg" where
  "notify_msg = \<lparr>im_type = Signal, im_path = Some self0, im_interface = Some ''org.simppl.dispatcher'',
     im_member = Some ''notify_client'', im_error_name = None, im_serial = 3, im_reply_serial = 0,
     im_body = [Basic (BString ''a.B.r''), Basic (BString ''/a/B/r'')]\<rparr>"

theorem notify_client_ignores_name_witness:
  "\<exists>w'. try_handle_signal ref_api notify_msg world_two = Some (Inr Handled, w') \<and>
     conn_state (stub_at w' 1) = Connected \<and> busname (stub_at world_two 1) \<notin> busnames (disp world_two)"
proof -
  have w: "busnames (disp world_two) = {''a.B.r''}" "(''/a/B/r'', 1) \<in> set (dstubs (disp world_two))"
    "busname (stub_at world_two 1) = ''c.D.r''"
    by (simp_all add: world_two_def add_client_world world1_fields upd_stub_def)
      (simp_all add: world1_def world0_def add_client_world stub0_fields c_str_def NUL_def)
  have m: "im_type notify_msg = Signal" "im_member notify_msg = Some ''notify_client''"
    "decode2 ref_api (im_body notify_msg) = ret (''a.B.r'', ''/a/B/r'')"
    by (simp_all add: notify_msg_def decode2_def StringCodec_decode_def simppl_dbus_message_iter_get_basic_def
        ref_api_simps c_str_def NUL_def)
  from notify_client_ignores_name [OF m _ w(2)] w show ?thesis by auto
qed

lemma equal_range_emplace:
  "\<forall>e \<in> set m. fst e \<noteq> k \<Longrightarrow> equal_range (stubs_emplace k s m) k = [s]"
  by (induction k s m rule: stubs_emplace.induct) (auto simp: equal_range_def)

context dbus_iter begin

lemma decode2_strings:
  "rv r = [Basic (BString a), Basic (BString b)] \<Longrightarrow> nul_free a \<Longrightarrow> nul_free b \<Longrightarrow> decode2 L r = ret (a, b)"
  using StringCodec_decode_vals [of r a] StringCodec_decode_vals [of "iter_next L r" b] next_vals [of r]
  by (simp add: decode2_def)

end

text \<open>
  C18. A stub created while its server is there gets connected from the event loop: the
  dispatcher sends one \<open>notify_client\<close> signal to itself, and when that arrives, with the stub
  alone at its object path, the stub is connected and its connected callback is called.
\<close>

theorem created_stub_connects:
  assumes "dbus_iter L bvalid wk wv rv" and "dbus_conn K rules sent paths timeouts" and "wv (message_iter K) = []"
    and "busname (stub_at w s) \<in> busnames (disp w)" and "\<forall>e \<in> set (dstubs (disp w)). fst e \<noteq> objectpath (stub_at w s)"
    and "bvalid (BString (busname (stub_at w s)))" and "bvalid (BString (objectpath (stub_at w s)))"
    and "nul_free (busname (stub_at w s))" and "nul_free (objectpath (stub_at w s))"
  shows "\<exists>om. sent (conn (disp (add_client L K self s w))) = sent (conn (disp w)) @ [om] \<and>
    (\<forall>msg. arrives wv rv om msg \<longrightarrow>
       (\<exists>w'. try_handle_signal L msg (add_client L K self s w) = Some (Inr Handled, w') \<and>
          conn_state (stub_at w' s) = Connected \<and>
          events w' = events w @ (if connected_cb (stub_at w s) then [ConnectedCallback s Connected] else [])))"
proof -
  let ?st = "stub_at w s" and ?w = "add_client L K self s w"
  let ?om = "message_new_signal self ''org.simppl.dispatcher'' ''notify_client''
    (StringCodec_encode L (StringCodec_encode L (message_iter K) (busname ?st)) (objectpath ?st))"
  note c = assms(8,9) [THEN c_str_id]
  have s: "sent (conn (disp ?w)) = sent (conn (disp w)) @ [?om]"
    using assms(4) dbus_conn.send_sent [OF assms(2)]
    by (simp add: add_client_def Let_def upd_dispatcher_def notify_connected_def)
  have w: "equal_range (dstubs (disp ?w)) (objectpath ?st) = [s]" "busnames (disp ?w) = busnames (disp w)"
    "events ?w = events w" "stub_at ?w s = ?st\<lparr>has_disp := True\<rparr>"
    using equal_range_emplace [OF assms(5)]
    by (simp_all add: add_client_def Let_def upd_dispatcher_def notify_connected_def c)
  have "\<exists>w'. try_handle_signal L msg ?w = Some (Inr Handled, w') \<and> conn_state (stub_at w' s) = Connected \<and>
      events w' = events w @ (if connected_cb ?st then [ConnectedCallback s Connected] else [])"
    if "arrives wv rv ?om msg" for msg
  proof -
    have "rv (im_body msg) = [Basic (BString (busname ?st)), Basic (BString (objectpath ?st))]"
      using that assms(3,6,7) dbus_iter.append_basic_vals [OF assms(1)]
      by (simp add: arrives_def message_new_signal_def StringCodec_encode_def c)
    from dbus_iter.decode2_strings [OF assms(1) this assms(8,9)]
    have "try_handle_signal L msg ?w = Some (Inr Handled, notify_client (busname ?st) (objectpath ?st) ?w)"
      using that assms(4) w(2)
      by (simp add: try_handle_signal_def arrives_def message_new_signal_def c_str_id NUL_def pbind_def preturn_def)
    then show ?thesis
      using w by (simp add: notify_client_def state_changed_events state_changed_world)
  qed
  with s show ?thesis by blast
qed

theorem created_stub_connects_witness:
  "\<exists>om. rc_sent (conn (disp world1)) = [om] \<and>
    (\<forall>msg. arrives snd (\<lambda>r. r) om msg \<longrightarrow> (\<exists>w'. try_handle_signal ref_api msg world1 = Some (Inr Handled, w') \<and>
       conn_state (stub_at w' 0) = Connected \<and> events w' = [ConnectedCallback 0 Connected]))"
proof -
  have w: "stub_at world0 0 = stub0" "events world0 = []" "rc_sent (conn (disp world0)) = []"
    by (simp_all add: world0_def rec_conn0_def)
  have "\<exists>om. rc_sent (conn (disp world1)) = rc_sent (conn (disp world0)) @ [om] \<and>
    (\<forall>msg. arrives snd (\<lambda>r. r) om msg \<longrightarrow> (\<exists>w'. try_handle_signal ref_api msg world1 = Some (Inr Handled, w') \<and>
       conn_state (stub_at w' 0) = Connected \<and>
       events w' = events world0 @ (if connected_cb (stub_at world0 0) then [ConnectedCallback 0 Connected] else [])))"
    unfolding world1_def
    by (rule created_stub_connects [OF ref.dbus_iter_axioms rec.dbus_conn_axioms])
      (simp_all add: world0_def stub0_fields NUL_def rec_api_def ref_root_def)
  then show ?thesis by (simp add: w stub0_fields)
qed

text \<open>
  C10. An ordinary signal reaches, at each stub registered at its object path, the first attached
  signal of its name: its callback is called once with the decoded arguments, and nothing else
  changes. Sender and interface of the message are not looked at.
\<close>

theorem signal_delivery:
  assumes "\<forall>s \<in> live w. attached w s (att s)"
    and "im_type msg = Signal" and "im_path msg = Some p" and "im_member msg = Some m"
    and "c_str m \<notin> {''notify_client'', ''NameOwnerChanged'', ''PropertiesChanged''}"
    and "\<forall>s \<in> live w. \<forall>g \<in> set (att s). c_str (sig_name (sig_at w g)) = c_str m \<longrightarrow>
      sig_cb (sig_at w g) \<and> (\<exists>it. sig_args (sig_at w g) (im_body msg) = ret (val g, it))"
  defines "there \<equiv> equal_range (dstubs (disp w)) (c_str p)"
    and "called \<equiv> \<lambda>s. case find (\<lambda>g. c_str (sig_name (sig_at w g)) = c_str m) (att s) of
      Some g \<Rightarrow> [SignalCallback g (val g)] | None \<Rightarrow> []"
  shows "try_handle_signal L msg w =
    Some (Inr (if there = [] then NotYetHandled else Handled), w\<lparr>events := events w @ concat (map called there)\<rparr>)"
proof -
  have one: "stub_try_handle_signal L s msg (w\<lparr>events := es\<rparr>) = Some (Inr (), w\<lparr>events := es @ called s\<rparr>)"
    if "s \<in> live w" for s es
  proof -
    have "chain (next_of w) (signals (stub_at w s)) (att s)" using assms(1) that by (simp add: attached_def)
    then have "chain (next_of (w\<lparr>events := es\<rparr>)) (signals (stub_at w s)) (att s)" by (simp add: next_of_def [abs_def])
    note loop = signal_loop_chain [OF this, of "c_str m" "im_body msg"]
    show ?thesis
    proof (cases "find (\<lambda>g. c_str (sig_name (sig_at w g)) = c_str m) (att s)")
      case None
      with loop assms(4,5) show ?thesis
        by (simp add: stub_try_handle_signal_def called_def preturn_def)
    next
      case (Some g)
      then have "g \<in> set (att s)" "c_str (sig_name (sig_at w g)) = c_str m" by (auto simp: find_Some_nth)
      with assms(6) that obtain it where "sig_cb (sig_at w g)" "sig_args (sig_at w g) (im_body msg) = ret (val g, it)"
        by blast
      with loop Some assms(4,5) show ?thesis
        by (simp add: stub_try_handle_signal_def called_def signal_eval_def pbind_def preturn_def pmodify_def emit_def)
    qed
  qed
  have "pfor ss (\<lambda>s. stub_try_handle_signal L s msg) (w\<lparr>events := es\<rparr>) =
      Some (Inr (), w\<lparr>events := es @ concat (map called ss)\<rparr>)" if "set ss \<subseteq> live w" for ss es
    using that by (induction ss arbitrary: es) (simp_all add: one preturn_def)
  moreover have "set there \<subseteq> live w"
    by (force simp: there_def live_def equal_range_in)
  ultimately have "pfor there (\<lambda>s. stub_try_handle_signal L s msg) w =
      Some (Inr (), w\<lparr>events := events w @ concat (map called there)\<rparr>)"
    by (metis events_update_simps(1))
  with assms(2-5) show ?thesis
    by (simp add: try_handle_signal_def there_def Let_def preturn_def)
qed

text \<open>A signal for stub 0, of an interface that is not the stub's.\<close>

definition sig_msg :: "dval list in_msg" where
  "sig_msg = \<lparr>im_type = Signal, im_path = Some ''/a/B/r'', im_interface = Some ''x.Y'', im_member = Some ''sig'',
     im_error_name = None, im_serial = 3, im_reply_serial = 0, im_body = [Basic (BString ''hello'')]\<rparr>"

theorem signal_delivery_witness:
  "\<exists>w'. try_handle_signal ref_api sig_msg world_sig = Some (Inr Handled, w') \<and>
     events w' = [SignalCallback 0 ''hello'']"
proof -
  have w: "live world_sig = {0}" "dstubs (disp world_sig) = [(''/a/B/r'', 0)]" "events world_sig = []"
    "sig_at world_sig = sig_at world0" "signals (stub_at world_sig 0) = Some 0"
    by (simp_all add: world_sig_def with_rule_def world1_fields upd_stub_def live_def)
  have m: "im_type sig_msg = Signal" "im_path sig_msg = Some ''/a/B/r''" "im_member sig_msg = Some ''sig''"
    "c_str ''sig'' \<notin> {''notify_client'', ''NameOwnerChanged'', ''PropertiesChanged''}"
    by (simp_all add: sig_msg_def c_str_def NUL_def)
  have a: "\<forall>s \<in> live world_sig. attached world_sig s [0]"
    by (simp add: w attached_def world0_sig next_of_def)
  have v: "\<forall>s \<in> live world_sig. \<forall>g \<in> set [0]. c_str (sig_name (sig_at world_sig g)) = c_str ''sig'' \<longrightarrow>
      sig_cb (sig_at world_sig g) \<and> (\<exists>it. sig_args (sig_at world_sig g) (im_body sig_msg) = ret (''hello'', it))"
    by (simp add: w world0_sig sig_msg_def StringCodec_decode_def simppl_dbus_message_iter_get_basic_def
        ref_api_simps c_str_def NUL_def)
  from signal_delivery [OF a m v, of ref_api] show ?thesis
    by (simp add: w equal_range_def world0_sig c_str_def NUL_def)
qed

text \<open>
  C20. The attached signals of a stub, an intrusive list of pointers in the code, are a list
  without duplicates: attaching puts a signal in front unless it is there already, detaching
  removes it, both return, and a call that throws leaves the list as it is.
\<close>

theorem signal_list_refines:
  assumes "dbus_conn K rules sent paths timeouts" and "client_inv rules base w" and "s \<in> live w"
    and "attached w s xs" and "sig_stub (sig_at w g) = s"
  shows "(\<exists>r w'. register_signal (register_signal_match K) s g w = Some (r, w') \<and>
      attached w' s (if r = Inr () then List.insert g xs else xs)) \<and>
    (\<exists>r w'. unregister_signal (unregister_signal_match K) s g w = Some (r, w') \<and>
      attached w' s (if r = Inr () then remove1 g xs else xs))"
  by (rule dbus_conn.signal_list_ops [OF assms])

theorem signal_list_refines_witness:
  "\<exists>r w'. unregister_signal (unregister_signal_match K0) 0 0 world_sig = Some (r, w') \<and>
     attached w' 0 (if r = Inr () then [] else [0])"
proof -
  have i: "client_inv rc_rules (rc_rules (conn (disp world0))) world_sig"
    by (rule dbus_conn.client_runs_inv [OF rec.dbus_conn_axioms runs_to_sig
        dbus_conn.no_stubs_inv [OF rec.dbus_conn_axioms no_stubs_world0]])
  have a: "0 \<in> live world_sig" "attached world_sig 0 [0]" "sig_stub (sig_at world_sig 0) = 0"
    by (simp_all add: world_sig_def with_rule_def world1_fields upd_stub_def live_def attached_def world0_sig next_of_def)
  have "\<exists>r w'. unregister_signal (unregister_signal_match K0) 0 0 world_sig = Some (r, w') \<and>
      attached w' 0 (if r = Inr () then remove1 0 [0] else [0])"
    by (rule conjunct2 [OF signal_list_refines [OF rec.dbus_conn_axioms i a]])
  moreover have "remove1 (0 :: nat) [0] = []" by simp
  ultimately show ?thesis by (simp only:)
qed

text \<open>
  C19. A \<open>PropertiesChanged\<close> signal calls the callback of each attached property it has a new
  value for, in the order of the message. Of the properties it says are invalidated only the
  first, third, fifth and so on are told: the iterator is advanced twice per name.
\<close>

theorem properties_changed_delivery:
  assumes "dbus_iter L bvalid wk wv rv" and "im_member msg = Some ''PropertiesChanged''"
    and "rv (im_body msg) = [Basic (BString i), Cont DBUS_TYPE_ARRAY ''{sv}'' (map prop_entry items),
      Cont DBUS_TYPE_ARRAY ''s'' (map (\<lambda>n. Basic (BString n)) ns)]"
    and "nul_free i" and "list_all nul_free ns"
    and "decodable rv L w (properties (stub_at w s)) val items"
  shows "stub_try_handle_signal L s msg w = Some (Inr (), w\<lparr>events := events w
    @ change_events w (properties (stub_at w s)) False val items
    @ invalid_events w (properties (stub_at w s)) (every_other ns)\<rparr>)"
proof -
  have m: "c_str ''PropertiesChanged'' = ''PropertiesChanged''" by (simp add: c_str_def NUL_def)
  let ?it = "iter_next L (im_body msg)"
  have it: "StringCodec_decode L (im_body msg) = ret (i, ?it)"
    by (rule dbus_iter.StringCodec_decode_vals [OF assms(1,3,4)])
  note r1 = dbus_iter.next_vals [OF assms(1,3)]
  have e1: "rv (iter_recurse L ?it) = map prop_entry items"
    by (rule dbus_iter.recurse_vals [OF assms(1) r1])
  have e2: "rv (iter_recurse L (iter_next L ?it)) = map (\<lambda>n. Basic (BString n)) ns"
    by (rule dbus_iter.recurse_vals [OF assms(1) dbus_iter.next_vals [OF assms(1) r1]])
  show ?thesis
    using dbus_iter.changed_loop_vals [OF assms(1) e1 assms(6)]
      dbus_iter.invalidated_loop_vals [OF assms(1) e2 assms(5), of s
        "w\<lparr>events := events w @ change_events w (properties (stub_at w s)) False val items\<rparr>"]
    by (simp add: stub_try_handle_signal_def assms(2) m it)
qed

text \<open>Two properties attached, both invalidated: one callback.\<close>

definition world_props :: sample_world where
  "world_props = (upd_stub 0 (\<lambda>st. st\<lparr>properties := [(0, True), (1, True)], attached_properties := 2\<rparr>) world1)
     \<lparr>prop_at := (prop_at world1)(1 := prop_at world1 1\<lparr>prop_name := ''p2''\<rparr>)\<rparr>"

definition invalid_msg :: "dval list in_msg" where
  "invalid_msg = \<lparr>im_type = Signal, im_path = Some ''/a/B/r'', im_interface = Some ''org.freedesktop.DBus.Properties'',
     im_member = Some ''PropertiesChanged'', im_error_name = None, im_serial = 3, im_reply_serial = 0,
     im_body = [Basic (BString ''a.B''), Cont DBUS_TYPE_ARRAY ''{sv}'' [],
       Cont DBUS_TYPE_ARRAY ''s'' [Basic (BString ''prop''), Basic (BString ''p2'')]]\<rparr>"

theorem properties_changed_delivery_witness:
  "\<exists>w'. stub_try_handle_signal ref_api 0 invalid_msg world_props = Some (Inr (), w') \<and>
     events w' = [PropertyCallback 0 (Some ''simppl.dbus.Invalid'') []]"
proof -
  have w: "properties (stub_at world_props 0) = [(0, True), (1, True)]" "events world_props = []"
    "prop_at world_props 0 = prop_at world0 0" "prop_at world_props 1 = prop_at world0 1\<lparr>prop_name := ''p2''\<rparr>"
    by (simp_all add: world_props_def upd_stub_def world1_fields)
  have m: "im_member invalid_msg = Some ''PropertiesChanged''" "nul_free ''a.B''" "list_all nul_free [''prop'', ''p2'']"
    "im_body invalid_msg = [Basic (BString ''a.B''), Cont DBUS_TYPE_ARRAY ''{sv}'' (map prop_entry []),
       Cont DBUS_TYPE_ARRAY ''s'' (map (\<lambda>n. Basic (BString n)) [''prop'', ''p2''])]"
    by (simp_all add: invalid_msg_def NUL_def)
  have d: "decodable (\<lambda>r. r) ref_api world_props (properties (stub_at world_props 0)) (\<lambda>_ _. []) []"
    by (simp add: decodable_def)
  have "find_property world_props [(0, True), (1, True)] ''prop'' = Some (0, True)" "prop_cb (prop_at world_props 0)"
    "prop_default (prop_at world_props 0) = []"
    by (simp_all add: w world0_def c_str_def NUL_def)
  then show ?thesis
    using properties_changed_delivery [OF ref.dbus_iter_axioms m(1,4,2,3) d]
    by (simp add: w change_events_def invalid_events_def)
qed

end
