(* ===== verification/ServerCorrect.thy ===== *)
theory ServerCorrect
  imports ClientCorrect Calls
begin

text \<open>
  What clients and the program behind a skeleton can rely on: how often a request is answered,
  what the property requests do, how changes of properties reach the stubs, and where the
  library deviates. The concrete skeleton serves the stub of the client's theory.
\<close>

section \<open>A concrete skeleton\<close>

text \<open>Interface 0 has the method 0, \<open>echo\<close>, and the notifying read-write property 0, \<open>prop\<close>.\<close>

type_synonym sample_server = "(ref_w rec_conn, ref_w, dval list, string, unit) server"

definition blank0 :: sample_server where
  "blank0 = \<lparr>sconn = rec_conn0, sk_ifaces = [], sk_busname = [], sk_objectpath = [], sk_disp = False,
     current_request = descriptor_new, method_heads = [], property_heads = [], signal_heads = [],
     method_at = (\<lambda>_. \<lparr>sm_name = [], sm_next = None,
       sm_args = (\<lambda>r. rbind (StringCodec_decode ref_api r) (\<lambda>(s, it). ret ([s], it))),
       sm_cb = True, sm_throw = ErrorFactory_Error_reply ref_api ref_root, sm_xml = []\<rparr>),
     sprop_at = (\<lambda>_. \<lparr>sp_name = [], sp_next = None, sp_iface_id = 0, sp_codec = string_codec ref_api,
       sp_store = Holds ''x'', sp_rw = True, sp_notifying = True, sp_always = False, sp_set_cb = False\<rparr>),
     ssig_at = (\<lambda>_. \<lparr>ss_name = [], ss_next = None, ss_iface_id = 0, ss_xml = []\<rparr>),
     user = ()\<rparr>"

definition server0 :: sample_server where
  "server0 = (ServerPropertyBase_new 0 ''prop'' 0 (ServerMethodBase_new 0 ''echo'' 0 (SkeletonBase_new 1 blank0)))
     \<lparr>sk_ifaces := [''a.B''], sk_objectpath := ''/a/B/r'', sk_busname := ''a.B.r'', sk_disp := True\<rparr>"

definition code0 :: "(sample_server, dval list, string) server_code" where
  "code0 = \<lparr>method_cb = (\<lambda>m args. respond_with K0 (Some (\<lambda>w. StringCodec_encode ref_api w (hd args)))),
     read_cb = (\<lambda>p. preturn ''r''), set_cb = (\<lambda>p v. preturn ()),
     objectmanager_request = handle_objectmanager_request ref_api K0 (\<lambda>_. NUL)\<rparr>"

lemma server0_fields:
  "sk_disp server0" "sk_ifaces server0 = [''a.B'']" "sk_objectpath server0 = ''/a/B/r''"
  "method_heads server0 = [Some 0]" "property_heads server0 = [Some 0]" "signal_heads server0 = [None]"
  "sp_store (sprop_at server0 p) = Holds ''x''" "sp_codec (sprop_at server0 p) = string_codec ref_api"
  "sp_rw (sprop_at server0 p)" "sp_notifying (sprop_at server0 p)" "\<not> sp_always (sprop_at server0 p)"
  "\<not> sp_set_cb (sprop_at server0 p)" "sp_iface_id (sprop_at server0 p) = 0" "sp_next (sprop_at server0 p) = None"
  "sp_name (sprop_at server0 0) = ''prop''" "sm_name (method_at server0 0) = ''echo''"
  "sm_next (method_at server0 m) = None" "sm_cb (method_at server0 m)"
  "sm_args (method_at server0 m) = (\<lambda>r. rbind (StringCodec_decode ref_api r) (\<lambda>(s, it). ret ([s], it)))"
  "sm_throw (method_at server0 m) = ErrorFactory_Error_reply ref_api ref_root"
  "sconn server0 = rec_conn0" "iface_of [''a.B''] 0 = Some ''a.B''" "current_request server0 = descriptor_new"
  by (auto simp: server0_def ServerPropertyBase_new_def ServerMethodBase_new_def SkeletonBase_new_def blank0_def
      iface_of_def)

lemma server0_lists: "lists_ok server0 (\<lambda>_. [0]) (\<lambda>_. [0]) (\<lambda>_. [])"
  by (simp add: lists_ok_def server0_fields)

section \<open>Any request\<close>

text \<open>
  What the program has to provide for its skeleton to answer properly. Methods: the arguments
  decode or \<open>DecoderError\<close> is thrown, and the callback answers the request it is called for at
  most once. Properties: the type has a codec that always returns, callbacks return and do not answer
  requests. An object manager that overrides \<open>handle_objectmanager_request\<close> handles the request it gets
  and answers it at most once.
\<close>

definition decodes :: "('r \<Rightarrow> ('a \<times> 'r) res) \<Rightarrow> 'r \<Rightarrow> bool" where
  "decodes d r \<longleftrightarrow> d r = throw DecoderError \<or> (\<exists>x it. d r = ret (x, it))"

definition one_reply :: "'w out_msg list \<Rightarrow> 'r in_msg \<Rightarrow> 'w out_msg list \<Rightarrow> bool" where
  "one_reply before msg after \<longleftrightarrow> (\<exists>om. after = before @ [om] \<and> reply_for msg om)"

definition method_served ::
  "('b \<Rightarrow> 'w out_msg list) \<Rightarrow> (('b, 'w, 'r, 'v, 'u) server, 'r, 'v) server_code \<Rightarrow> 'r in_msg
     \<Rightarrow> ('b, 'w, 'r, 'v, 'u) server \<Rightarrow> nat \<Rightarrow> bool" where
  "method_served sent U msg w m \<longleftrightarrow> decodes (sm_args (method_at w m)) (im_body msg) \<and>
     (\<forall>args. answers sent m (sm_throw (method_at w m)) msg (method_cb U m args))"

definition property_served ::
  "('w, 'r) dbus_iter_api \<Rightarrow> (basic \<Rightarrow> bool) \<Rightarrow> ('w \<Rightarrow> char \<times> string option) \<Rightarrow> ('w \<Rightarrow> dval list) \<Rightarrow> ('r \<Rightarrow> dval list)
     \<Rightarrow> ('b \<Rightarrow> 'w out_msg list) \<Rightarrow> (('b, 'w, 'r, 'v, 'u) server, 'r, 'v) server_code
     \<Rightarrow> ('b, 'w, 'r, 'v, 'u) server \<Rightarrow> nat \<Rightarrow> bool" where
  "property_served L bvalid wk wv rv sent U w p \<longleftrightarrow>
     iface_of (sk_ifaces w) (sp_iface_id (sprop_at w p)) \<noteq> None \<and>
     bvalid (BString (c_str (sp_name (sprop_at w p)))) \<and>
     total_decoder L bvalid wk wv rv (sp_codec (sprop_at w p)) \<and>
     (\<exists>ok cv. codec L bvalid wk wv rv (sp_codec (sprop_at w p)) ok cv \<and>
        (\<forall>x. sp_store (sprop_at w p) = Holds x \<longrightarrow> ok x)) \<and>
     calm sent (read_cb U p) \<and> (\<forall>v. calm sent (set_cb U p v))"

definition objectmanager_served ::
  "('b \<Rightarrow> 'w out_msg list) \<Rightarrow> (('b, 'w, 'r, 'v, 'u) server, 'r, 'v) server_code \<Rightarrow> 'r in_msg
     \<Rightarrow> ('b, 'w, 'r, 'v, 'u) server \<Rightarrow> bool" where
  "objectmanager_served sent U msg w \<longleftrightarrow> (\<exists>w'. objectmanager_request U msg w = Some (Inr Handled, w') \<and>
     (replies sent w' = replies sent w \<or> one_reply (replies sent w) msg (replies sent w')))"

text \<open>A request that is left to libdbus: a member of \<open>Introspectable\<close> other than \<open>Introspect\<close>.\<close>

definition left_to_libdbus :: "bool \<Rightarrow> 'r in_msg \<Rightarrow> bool" where
  "left_to_libdbus introspection msg \<longleftrightarrow> introspection \<and>
     map_option c_str (im_interface msg) = Some ''org.freedesktop.DBus.Introspectable'' \<and>
     map_option c_str (im_member msg) \<noteq> Some ''Introspect''"

text \<open>The introspection data of a skeleton with proper lists can be written.\<close>

lemma introspect_interface_ret:
  assumes "lists_ok w ms ps gs" and "i < length (sk_ifaces w)"
  shows "\<exists>os'. introspect_interface w os i = ret os'"
proof -
  from assms(2) have "iface_of (sk_ifaces w) i = Some (sk_ifaces w ! (length (sk_ifaces w) - i - 1))"
    by (simp add: iface_of_def)
  moreover have "chain (\<lambda>m. sm_next (method_at w m)) (method_heads w ! i) (ms i)"
    "chain (\<lambda>p. sp_next (sprop_at w p)) (property_heads w ! i) (ps i)"
    "chain (\<lambda>g. ss_next (ssig_at w g)) (signal_heads w ! i) (gs i)"
    "i < length (method_heads w)" "i < length (property_heads w)" "i < length (signal_heads w)"
    using assms by (simp_all add: lists_ok_def)
  note c = this
  ultimately show ?thesis
    unfolding introspect_interface_def
    by (simp add: head_at_def c(4-6) introspect_list_chain [OF c(1)] introspect_list_chain [OF c(2)] introspect_list_chain [OF c(3)] ret_def [symmetric])
qed

lemma introspect_text_ret:
  assumes "lists_ok w ms ps gs"
  shows "\<exists>t. introspect_text K w = ret t"
proof -
  have "\<forall>i \<in> set is. i < length (sk_ifaces w) \<Longrightarrow> \<exists>os'. introspect_interfaces w os is = ret os'" for os "is"
  proof (induction "is" arbitrary: os)
    case (Cons i "is")
    then obtain os1 where "introspect_interface w os i = ret os1"
      using introspect_interface_ret [OF assms, of i os] by auto
    with Cons show ?case by simp
  qed simp
  note all = this
  have "\<exists>os'. introspect_interfaces w os [0..<length (sk_ifaces w)] = ret os'" for os
    by (rule all) simp
  then obtain f where "\<And>os. introspect_interfaces w os [0..<length (sk_ifaces w)] = ret (f os)"
    by metis
  then show ?thesis by (simp only: introspect_text_def rbind_simps(5)) blast
qed

context server_env begin

lemma StringCodec_decodes:
  assumes "list_all wf_dval (rv r)"
  shows "StringCodec_decode L r = throw DecoderError \<or>
    (\<exists>s it. StringCodec_decode L r = ret (s, it) \<and> list_all wf_dval (rv it))"
proof -
  from total_decoder.dec_total [OF basic_totals(6) assms] assms show ?thesis
    by (auto simp: string_codec_def) (metis list.pred_inject(2) list.exhaust_sel)
qed

lemma error_one_reply: "one_reply rs msg (rs @ [error_msg L K msg n])"
  by (simp add: one_reply_def reply_for_def)

lemma handle_error_one_reply:
  assumes "sk_disp w"
  shows "\<exists>w'. handle_error L K junk msg n w = Some (Inr Handled, w') \<and> one_reply (replies sent w) msg (replies sent w')"
  using handle_error_replies [OF assms, of junk msg n] error_one_reply by fastforce

lemma served_decodes:
  assumes "property_served L bvalid wk wv rv sent U w p" and "list_all wf_dval (rv it)"
  shows "decodes (PropertyCodec_decode L (sp_codec (sprop_at w p))) it"
proof -
  have "total_decoder L bvalid wk wv rv (sp_codec (sprop_at w p))"
    using assms(1) unfolding property_served_def by (elim conjE exE)
  from total_decoder.dec_total [OF property_total [OF this] assms(2)] show ?thesis
    by (auto simp: decodes_def property_codec_def)
qed

lemma served_snapshot:
  assumes U: "\<forall>p \<in> set ps. property_served L bvalid wk wv rv sent U w p"
    and s: "\<forall>p \<in> set ps. sp_store (sprop_at w p) \<noteq> OnRead"
  shows "\<exists>pv. snapshot w ps pv"
proof -
  have "\<exists>d. bvalid (BString (c_str (sp_name (sprop_at w p)))) \<and> (\<exists>x. sp_store (sprop_at w p) = Holds x \<and>
      appends_variant (\<lambda>iter. PropertyCodec_encode L (sp_codec (sprop_at w p)) iter x) d)" if p: "p \<in> set ps" for p
  proof -
    obtain x where x: "sp_store (sprop_at w p) = Holds x" using s p by (cases "sp_store (sprop_at w p)") auto
    from U p have "property_served L bvalid wk wv rv sent U w p" by (rule bspec)
    then obtain ok cv where c: "codec L bvalid wk wv rv (sp_codec (sprop_at w p)) ok cv"
      and v: "\<forall>x. sp_store (sprop_at w p) = Holds x \<longrightarrow> ok x" "bvalid (BString (c_str (sp_name (sprop_at w p))))"
      unfolding property_served_def by (elim conjE exE)
    from v(1) x have "ok x" by simp
    from property_encode_appends [OF c this] x v(2) show ?thesis by (intro exI conjI)
  qed
  then show ?thesis unfolding snapshot_def by metis
qed

lemma property_request_replies:
  assumes d: "sk_disp w" and lists: "lists_ok w ms ps gs" and m: "im_member msg = Some meth"
    and body: "list_all wf_dval (rv (im_body msg))" and U: "\<forall>i < length (sk_ifaces w). \<forall>p \<in> set (ps i). property_served L bvalid wk wv rv sent U w p"
    and rw: "c_str meth = ''Set'' \<Longrightarrow> \<forall>i < length (sk_ifaces w). \<forall>p \<in> set (ps i). sp_rw (sprop_at w p)"
    and all: "c_str meth = ''GetAll'' \<Longrightarrow> \<forall>i < length (sk_ifaces w). \<forall>p \<in> set (ps i).
      sp_store (sprop_at w p) \<noteq> OnRead"
  shows "\<exists>w'. handle_property_request L K junk U msg w = Some (Inr Handled, w') \<and>
    one_reply (replies sent w) msg (replies sent w')"
proof -
  note err = handle_error_one_reply [OF d, of junk msg]
  from StringCodec_decodes [OF body] show ?thesis
  proof (elim disjE exE conjE)
    assume "StringCodec_decode L (im_body msg) = throw DecoderError"
    with m err [of DBUS_ERROR_INVALID_ARGS] show ?thesis by (simp add: handle_property_request_def throw_def)
  next
    fix i it
    assume i: "StringCodec_decode L (im_body msg) = ret (i, it)" "list_all wf_dval (rv it)"
    let ?k = "find_interface (sk_ifaces w) i"
    show ?thesis
    proof (cases "?k = invalid_iface_id")
      case True
      with m i err [of DBUS_ERROR_UNKNOWN_INTERFACE] show ?thesis by (simp add: handle_property_request_def ret_def)
    next
      case False
      from find_interface_iface [OF refl this] have k: "nat ?k < length (sk_ifaces w)" "?k = int (nat ?k)" by simp_all
      show ?thesis
      proof (cases "c_str meth = ''GetAll''")
        case True
        then obtain pv where "snapshot w (ps (nat ?k)) pv"
          using served_snapshot [of "ps (nat ?k)" U w] U k(1) all by blast
        from getall_request_vals [OF d lists k(1) this, of U msg] obtain w' om where
          "handle_property_getall_request L K U msg ?k w = Some (Inr Handled, w')"
          "sent (sconn w') = sent (sconn w) @ [om]" "reply_for msg om"
          using k(2) by auto
        with True False m i show ?thesis
          by (simp add: handle_property_request_def ret_def one_reply_def replies_def reply_for_def)
      next
        case other: False
        from StringCodec_decodes [OF i(2)] show ?thesis
        proof (elim disjE exE conjE)
          assume "StringCodec_decode L it = throw DecoderError"
          with m i False other err [of DBUS_ERROR_INVALID_ARGS] show ?thesis
            by (simp add: handle_property_request_def throw_def ret_def)
        next
          fix n it2
          assume n: "StringCodec_decode L it = ret (n, it2)" "list_all wf_dval (rv it2)"
          let ?found = "find (\<lambda>p. c_str (sp_name (sprop_at w p)) = c_str n) (ps (nat ?k))"
          have f: "find_sproperty w ?k n = ret ?found"
            using find_sproperty_list [OF lists k(1), of n] k(2) by simp
          let ?go = "case ?found of None \<Rightarrow> handle_error L K junk msg DBUS_ERROR_UNKNOWN_PROPERTY
            | Some p \<Rightarrow> if c_str meth = ''Get'' then handle_property_get_request L K junk U msg p
                else if c_str meth = ''Set'' then handle_property_set_request L K junk U msg p it2
                else handle_error L K junk msg DBUS_ERROR_UNKNOWN_METHOD"
          have "handle_property_request L K junk U msg w = ?go w"
            using m i n f False other by (simp add: handle_property_request_def ret_def plift_def pbind_def)
          moreover have "\<exists>w'. ?go w = Some (Inr Handled, w') \<and> one_reply (replies sent w) msg (replies sent w')"
          proof (cases ?found)
            case None
            with err [of DBUS_ERROR_UNKNOWN_PROPERTY] show ?thesis by simp
          next
            case (Some p)
            then have mem: "p \<in> set (ps (nat ?k))" by (auto simp: find_Some_iff)
            with U k(1) have ps: "property_served L bvalid wk wv rv sent U w p" by blast
            then obtain ifc where "iface_of (sk_ifaces w) (sp_iface_id (sprop_at w p)) = Some ifc"
              "calm sent (read_cb U p)" "\<And>v. calm sent (set_cb U p v)"
              by (auto simp: property_served_def)
            note p = this
            from get_request_replies [OF d p(2), of junk msg] rw k(1) mem
              set_request_replies [OF d _ p(1) served_decodes [OF ps n(2), unfolded decodes_def] p(3), of junk msg]
            show ?thesis
              using Some err [of DBUS_ERROR_UNKNOWN_METHOD] by (auto simp: one_reply_def)
          qed
          ultimately show ?thesis by simp
        qed
      qed
    qed
  qed
qed

text \<open>The three handlers that a build option turns on or off.\<close>

lemma introspect_request_replies:
  assumes d: "sk_disp w" and lists: "lists_ok w ms ps gs" and m: "im_member msg = Some meth"
  shows "\<exists>r w'. handle_introspect_request L K msg w = Some (Inr r, w') \<and>
    (if c_str meth = ''Introspect'' then r = Handled \<and> one_reply (replies sent w) msg (replies sent w')
     else r = NotYetHandled \<and> w' = w)"
proof (cases "c_str meth = ''Introspect''")
  case True
  obtain t where "introspect_text K w = ret t" using introspect_text_ret [OF lists] by blast
  with True d m show ?thesis
    by (auto simp: handle_introspect_request_def pbind_def plift_def ret_def server_send_def preturn_def replies_def
        send_sent one_reply_def reply_for_def message_new_method_return_def)
next
  case False
  with m show ?thesis by (simp add: handle_introspect_request_def preturn_def)
qed

lemma interface_request_answered:
  assumes d: "sk_disp w" and lists: "lists_ok w ms ps gs"
    and m: "im_interface msg = Some i" "im_member msg = Some meth"
    and M: "\<forall>i < length (sk_ifaces w). \<forall>m \<in> set (ms i). method_served sent U msg w m"
    and i: "c_str i \<notin> {''org.freedesktop.DBus.Introspectable'', ''org.freedesktop.DBus.ObjectManager'',
      ''org.freedesktop.DBus.Properties''} \<or> (\<not> introspection \<and> c_str i = ''org.freedesktop.DBus.Introspectable'') \<or>
      (\<not> objectmanager \<and> c_str i = ''org.freedesktop.DBus.ObjectManager'')"
  shows "\<exists>w'. handle_request introspection objectmanager L K junk U msg w = Some (Inr Handled, w') \<and>
    (replies sent w' = replies sent w \<or> one_reply (replies sent w) msg (replies sent w'))"
proof -
  note err = handle_error_one_reply [OF d, of junk msg]
  let ?k = "find_interface (sk_ifaces w) (c_str i)"
  show ?thesis
  proof (cases "?k = invalid_iface_id")
    case True
    with err [of DBUS_ERROR_UNKNOWN_INTERFACE] m i show ?thesis by (auto simp: handle_request_def)
  next
    case False
    from find_interface_iface [OF refl this] have k: "nat ?k < length (sk_ifaces w)" "?k = int (nat ?k)" by simp_all
    let ?found = "find (\<lambda>m. c_str (sm_name (method_at w m)) = c_str meth) (ms (nat ?k))"
    have f: "find_method w ?k meth = ret ?found" using find_method_list [OF lists k(1), of meth] k(2) by simp
    have "handle_request introspection objectmanager L K junk U msg w =
        (case ?found of None \<Rightarrow> handle_error L K junk msg DBUS_ERROR_UNKNOWN_METHOD w
         | Some m \<Rightarrow> handle_interface_request L K junk U msg m w)"
      using m i False f by (cases ?found) (auto simp: handle_request_def)
    moreover have "\<exists>w'. handle_interface_request L K junk U msg q w = Some (Inr Handled, w') \<and>
        (replies sent w' = replies sent w \<or> one_reply (replies sent w) msg (replies sent w'))"
      if "?found = Some q" for q
    proof -
      from that have "q \<in> set (ms (nat ?k))" by (auto simp: find_Some_iff)
      with M k(1) have q: "decodes (sm_args (method_at w q)) (im_body msg)"
        "\<And>args. answers sent q (sm_throw (method_at w q)) msg (method_cb U q args)"
        by (simp_all add: method_served_def)
      show ?thesis
        using q(1) interface_request_bad_args [OF d, of q msg junk U] error_one_reply
          interface_request_replies [OF d _ refl q(2), of _ _ junk]
        unfolding decodes_def one_reply_def by metis
    qed
    ultimately show ?thesis
      using err [of DBUS_ERROR_UNKNOWN_METHOD] by (cases ?found) auto
  qed
qed

lemma request_replies:
  assumes d: "sk_disp w" and lists: "lists_ok w ms ps gs"
    and m: "im_interface msg = Some i" "im_member msg = Some meth"
    and body: "list_all wf_dval (rv (im_body msg))"
    and U: "\<forall>i < length (sk_ifaces w). \<forall>p \<in> set (ps i). property_served L bvalid wk wv rv sent U w p"
    and M: "\<forall>i < length (sk_ifaces w). \<forall>m \<in> set (ms i). method_served sent U msg w m"
    and O: "objectmanager_served sent U msg w"
    and rw: "c_str meth = ''Set'' \<Longrightarrow> \<forall>i < length (sk_ifaces w). \<forall>p \<in> set (ps i). sp_rw (sprop_at w p)"
    and all: "c_str meth = ''GetAll'' \<Longrightarrow> \<forall>i < length (sk_ifaces w). \<forall>p \<in> set (ps i).
      sp_store (sprop_at w p) \<noteq> OnRead"
  shows "\<exists>w'. handle_request introspection objectmanager L K junk U msg w =
      Some (Inr (if left_to_libdbus introspection msg then NotYetHandled else Handled), w') \<and>
    (replies sent w' = replies sent w \<or> \<not> left_to_libdbus introspection msg \<and> one_reply (replies sent w) msg (replies sent w'))"
proof -
  note err = handle_error_one_reply [OF d, of junk msg]
  consider (introspect) "introspection" "c_str i = ''org.freedesktop.DBus.Introspectable''"
    | (manager) "objectmanager" "c_str i = ''org.freedesktop.DBus.ObjectManager''"
    | (properties) "c_str i = ''org.freedesktop.DBus.Properties''"
    | (interface) "c_str i \<notin> {''org.freedesktop.DBus.Introspectable'', ''org.freedesktop.DBus.ObjectManager'',
      ''org.freedesktop.DBus.Properties''} \<or> (\<not> introspection \<and> c_str i = ''org.freedesktop.DBus.Introspectable'') \<or>
      (\<not> objectmanager \<and> c_str i = ''org.freedesktop.DBus.ObjectManager'')"
    by blast
  then show ?thesis
  proof cases
    case introspect
    with introspect_request_replies [OF d lists m(2)] m show ?thesis
      by (auto simp: handle_request_def left_to_libdbus_def split: if_splits)
  next
    case manager
    with O m show ?thesis by (auto simp: handle_request_def left_to_libdbus_def objectmanager_served_def)
  next
    case properties
    then have l: "\<not> left_to_libdbus introspection msg" using m by (simp add: left_to_libdbus_def)
    show ?thesis
    proof (cases "has_any_properties w")
      case True
      with property_request_replies [OF d lists m(2) body U rw all, where junk = junk] m properties l show ?thesis
        by (auto simp: handle_request_def)
    next
      case False
      with err [of DBUS_ERROR_UNKNOWN_INTERFACE] m properties l show ?thesis
        by (auto simp: handle_request_def)
    qed
  next
    case interface
    then have "\<not> left_to_libdbus introspection msg" using m by (auto simp: left_to_libdbus_def)
    with interface_request_answered [OF d lists m M interface, where junk = junk] show ?thesis by auto
  qed
qed

text \<open>Without an override the object manager's interface is answered with an error.\<close>

lemma default_objectmanager_served:
  assumes "sk_disp w" and "objectmanager_request U = handle_objectmanager_request L K junk"
  shows "objectmanager_served sent U msg w"
  using handle_error_one_reply [OF assms(1), of junk msg DBUS_ERROR_UNKNOWN_INTERFACE] assms(2)
  by (auto simp: objectmanager_served_def handle_objectmanager_request_def)

end


text \<open>A call of \<open>echo\<close>.\<close>

definition echo_msg :: "dval list in_msg" where
  "echo_msg = \<lparr>im_type = MethodCall, im_path = Some ''/a/B/r'', im_interface = Some ''a.B'', im_member = Some ''echo'',
     im_error_name = None, im_serial = 7, im_reply_serial = 0, im_body = [Basic (BString ''hi'')]\<rparr>"

lemma short_names [simp]:
  "nul_free ''zz''" "c_str ''prop'' = ''prop''" "c_str ''a.B'' = ''a.B''" "c_str ''echo'' = ''echo''" "c_str ''zz'' = ''zz''"
  "c_str ''hi'' = ''hi''" "nul_free ''x''" "nul_free ''hi''"
  by (simp_all add: c_str_def NUL_def)

lemma string_codec0: "codec ref_api (\<lambda>_. True) fst snd (\<lambda>r. r) (string_codec ref_api) nul_free (\<lambda>s. Basic (BString (c_str s)))"
proof -
  have "ref.string_ok = nul_free" by (simp add: fun_eq_iff ref.string_ok_def)
  with ref.string_codec_ok show ?thesis by (simp add: key_codec_def)
qed

lemma code0_served:
  "property_served ref_api (\<lambda>_. True) fst snd (\<lambda>r. r) rc_sent code0 server0 p" "method_served rc_sent code0 echo_msg server0 m"
proof -
  have "\<exists>ok cv. codec ref_api (\<lambda>_. True) fst snd (\<lambda>r. r) (string_codec ref_api) ok cv \<and> ok ''x''"
    using string_codec0 short_names(7) by blast
  with ref.basic_totals(6) show "property_served ref_api (\<lambda>_. True) fst snd (\<lambda>r. r) rc_sent code0 server0 p"
    by (simp add: property_served_def server0_fields code0_def calm_return)
  show "method_served rc_sent code0 echo_msg server0 m"
    unfolding method_served_def using rec_srv.respond_with_answers
    by (auto simp: server0_fields code0_def decodes_def echo_msg_def StringCodec_decode_def
        simppl_dbus_message_iter_get_basic_def ref_api_simps)
qed


section \<open>Properties\<close>

text \<open>
  C5. A change of a property reaches the subscriber: assigning a value that differs from the
  old one to a \<open>Notifying\<close> property sends exactly one message, and whenever that message
  arrives at a stub with a property of this name attached and a callback set, the callback is
  called once, with the new value. Assigning an equal value to a property that is not
  \<open>Always\<close> sends nothing.
\<close>

theorem change_reaches_subscriber:
  assumes "server_env L bvalid wk wv rv K rules sent paths timeouts"
    and "codec L bvalid wk wv rv (sp_codec (sprop_at w p)) ok cv" and "ok new"
    and "sk_disp w" and "iface_of (sk_ifaces w) (sp_iface_id (sprop_at w p)) = Some i"
    and "sp_store (sprop_at w p) = Holds old" and "sp_notifying (sprop_at w p)"
    and "bvalid (BString (c_str i))" and "bvalid (BString (c_str (sp_name (sprop_at w p))))"
  shows "\<exists>w' oms. sproperty_assign L K p new w = Some (Inr (), w') \<and> sp_store (sprop_at w' p) = Holds new \<and>
    sent (sconn w') = sent (sconn w) @ oms \<and>
    (if sp_always (sprop_at w p) \<or> new \<noteq> old
     then \<exists>om. oms = [om] \<and>
       (\<forall>msg cw s q. arrives wv rv om msg \<longrightarrow>
          find_property cw (properties (stub_at cw s)) (c_str (sp_name (sprop_at w p))) = Some (q, True) \<longrightarrow>
          prop_cb (prop_at cw q) \<longrightarrow> prop_codec (prop_at cw q) = sp_codec (sprop_at w p) \<longrightarrow>
          stub_try_handle_signal L s msg (cw :: ('d, 'w, 'r, 'v) world) =
            Some (Inr (), cw\<lparr>events := events cw @ [PropertyCallback q None new]\<rparr>))
     else oms = [])"
proof -
  from server_env.assign_effect [OF assms(1,4,5,6), of new] obtain w' where
    w': "sproperty_assign L K p new w = Some (Inr (), w')" "sp_store (sprop_at w' p) = Holds new"
    "sent (sconn w') = sent (sconn w) @
      (if sp_always (sprop_at w p) \<or> new \<noteq> old then [server_env.change_msg L K p new i w] else [])"
    using assms(7) by auto
  have "stub_try_handle_signal L s msg (cw :: ('d, 'w, 'r, 'v) world) =
      Some (Inr (), cw\<lparr>events := events cw @ [PropertyCallback q None new]\<rparr>)"
    if "arrives wv rv (server_env.change_msg L K p new i w) msg"
      "find_property cw (properties (stub_at cw s)) (c_str (sp_name (sprop_at w p))) = Some (q, True)"
      "prop_cb (prop_at cw q)" "prop_codec (prop_at cw q) = sp_codec (sprop_at w p)" for msg cw s q
    using server_env.change_reaches_client [OF assms(1,2,3,8,9) that(1,2,4)] that(3) by simp
  with w' show ?thesis by (auto split: if_splits)
qed

theorem change_reaches_subscriber_witness:
  "\<exists>w' om. sproperty_assign ref_api K0 0 ''zz'' server0 = Some (Inr (), w') \<and> rc_sent (sconn w') = [om] \<and>
     (\<forall>msg. arrives snd (\<lambda>r. r) om msg \<longrightarrow>
        stub_try_handle_signal ref_api 0 msg world_prop =
          Some (Inr (), world_prop\<lparr>events := [PropertyCallback 0 None ''zz'']\<rparr>))"
proof -
  have cw: "find_property world_prop (properties (stub_at world_prop 0)) ''prop'' = Some (0, True)"
    "prop_cb (prop_at world_prop 0)" "prop_codec (prop_at world_prop 0) = string_codec ref_api" "events world_prop = []"
    by (simp_all add: world_prop_def with_rule_def world1_fields upd_stub_def world0_def)
  have s: "rc_sent (sconn server0) = []" "(''zz'' :: string) \<noteq> ''x''" by (simp_all add: server0_fields rec_conn0_def)
  have "codec ref_api (\<lambda>_. True) fst snd (\<lambda>r. r) (sp_codec (sprop_at server0 0)) nul_free (\<lambda>s. Basic (BString (c_str s)))"
    using string_codec0 by (simp add: server0_fields)
  note c = change_reaches_subscriber [OF rec_srv.server_env_axioms this, of "''zz''" "''a.B''" "''x''"]
  have "\<exists>w' oms. sproperty_assign ref_api K0 0 ''zz'' server0 = Some (Inr (), w') \<and>
      sp_store (sprop_at w' 0) = Holds ''zz'' \<and> rc_sent (sconn w') = rc_sent (sconn server0) @ oms \<and>
      (if sp_always (sprop_at server0 0) \<or> ''zz'' \<noteq> ''x''
       then \<exists>om. oms = [om] \<and>
         (\<forall>msg cw s q. arrives snd (\<lambda>r. r) om msg \<longrightarrow>
            find_property cw (properties (stub_at cw s)) (c_str (sp_name (sprop_at server0 0))) = Some (q, True) \<longrightarrow>
            prop_cb (prop_at cw q) \<longrightarrow> prop_codec (prop_at cw q) = sp_codec (sprop_at server0 0) \<longrightarrow>
            stub_try_handle_signal ref_api s msg (cw :: sample_world) =
              Some (Inr (), cw\<lparr>events := events cw @ [PropertyCallback q None ''zz'']\<rparr>))
       else oms = [])"
    by (rule c) (simp_all add: server0_fields NUL_def)
  then obtain w' om where "sproperty_assign ref_api K0 0 ''zz'' server0 = Some (Inr (), w')" "rc_sent (sconn w') = [om]"
    and a: "\<And>msg cw s q. arrives snd (\<lambda>r. r) om msg \<Longrightarrow>
      find_property cw (properties (stub_at cw s)) ''prop'' = Some (q, True) \<Longrightarrow> prop_cb (prop_at cw q) \<Longrightarrow>
      prop_codec (prop_at cw q) = string_codec ref_api \<Longrightarrow>
      stub_try_handle_signal ref_api s msg (cw :: sample_world) =
        Some (Inr (), cw\<lparr>events := events cw @ [PropertyCallback q None ''zz'']\<rparr>)"
    using s by (auto simp: server0_fields)
  with cw show ?thesis by (metis append_Nil)
qed



text \<open>
  A \<open>Set\<close> request with a value of another type leaves the property as it is, and the caller
  gets an error.
\<close>

theorem set_wrong_type:
  assumes "server_env L bvalid wk wv rv K rules sent paths timeouts"
    and "codec L bvalid wk wv rv (sp_codec (sprop_at w p)) ok cv"
    and "sk_disp w" and "sp_rw (sprop_at w p)"
    and "rv it = [Cont DBUS_TYPE_VARIANT (dsig d) [d]]" and "dtype d \<noteq> sig_type (sgn (sp_codec (sprop_at w p)))"
  shows "\<exists>w'. handle_property_set_request L K junk U msg p it w = Some (Inr Handled, w') \<and>
    sprop_at w' = sprop_at w \<and> one_reply (replies sent w) msg (replies sent w')"
proof -
  have env: "dbus_iter L bvalid wk wv rv" using assms(1) by (simp add: server_env_def)
  have "rv (iter_recurse L it) = [d]" by (rule dbus_iter.recurse_vals [OF env assms(5)])
  then have "dec (sp_codec (sprop_at w p)) (iter_recurse L it) = throw DecoderError"
    using assms(6) by (intro codec.dec_type [OF assms(2)]) (simp add: dbus_iter.arg_type_val [OF env])
  moreover have "get_arg_type L it = DBUS_TYPE_VARIANT" using dbus_iter.arg_type_val [OF env assms(5)] by simp
  ultimately have "PropertyCodec_decode L (sp_codec (sprop_at w p)) it = throw DecoderError"
    by (simp add: PropertyCodec_decode_def simppl_dbus_message_iter_recurse_def)
  from server_env.set_request_bad_value [OF assms(1,3,4) this, of junk U msg] obtain w' where
    "handle_property_set_request L K junk U msg p it w = Some (Inr Handled, w')" "sprop_at w' = sprop_at w"
    "sent (sconn w') = sent (sconn w) @ [error_msg L K msg ''simppl.dbus.UnhandledException'']" by blast
  then show ?thesis by (simp add: one_reply_def replies_def reply_for_def)
qed

theorem set_wrong_type_witness:
  "\<exists>w'. handle_property_set_request ref_api K0 (\<lambda>_. NUL) code0 echo_msg 0
      [Cont DBUS_TYPE_VARIANT ''y'' [Basic (BByte 1)]] server0 = Some (Inr Handled, w') \<and>
    sprop_at w' = sprop_at server0 \<and> one_reply (replies rc_sent server0) echo_msg (replies rc_sent w')"
proof -
  have c: "codec ref_api (\<lambda>_. True) fst snd (\<lambda>r. r) (sp_codec (sprop_at server0 0)) nul_free (\<lambda>s. Basic (BString (c_str s)))"
    using string_codec0 by (simp add: server0_fields)
  show ?thesis
    by (rule set_wrong_type [where d = "Basic (BByte 1)" and ok = nul_free, OF rec_srv.server_env_axioms c])
      (simp_all add: server0_fields string_codec_def StringCodec_make_type_signature_def sig_type_def)
qed

text \<open>
  A \<open>Set\<close> request for a property that is not \<open>ReadWrite\<close> ends in undefined behaviour:
  the function pointer \<open>eval_set_\<close>, which the request calls, is not initialized.
\<close>

theorem set_read_only_undefined:
  assumes "\<not> sp_rw (sprop_at w p)"
  shows "handle_property_set_request L K junk U msg p it w = Some (Inl UndefinedBehaviour, w)"
  using assms
  by (simp add: handle_property_set_request_def sproperty_eval_set_def pcatch_def pbind_def pthrow_def
      exception_reply_def plift_def throw_def)

definition server_ro :: sample_server where
  "server_ro = server0\<lparr>sprop_at := \<lambda>p. sprop_at server0 p\<lparr>sp_rw := False\<rparr>\<rparr>"

theorem set_read_only_undefined_witness:
  "handle_property_set_request ref_api K0 (\<lambda>_. NUL) code0 echo_msg 0 [] server_ro = Some (Inl UndefinedBehaviour, server_ro)"
  by (rule set_read_only_undefined) (simp add: server_ro_def)

text \<open>
  C21. \<open>GetAll\<close> answers with one dictionary that has, in the order of the property list, the name
  and the value of every property of the interface, when all hold values.
\<close>

theorem getall_snapshot:
  assumes "server_env L bvalid wk wv rv K rules sent paths timeouts"
    and "sk_disp w" and "lists_ok w ms ps gs" and "i < length (sk_ifaces w)"
    and "\<forall>p \<in> set (ps i). codec L bvalid wk wv rv (sp_codec (sprop_at w p)) ok (cv p) \<and>
      sp_store (sprop_at w p) = Holds (val p) \<and> ok (val p) \<and> bvalid (BString (c_str (sp_name (sprop_at w p))))"
  shows "\<exists>w' reply. handle_property_getall_request L K U msg (int i) w = Some (Inr Handled, w') \<and>
    sent (sconn w') = sent (sconn w) @ [reply] \<and> reply_for msg reply \<and>
    wv (om_body reply) = [Cont DBUS_TYPE_ARRAY ''{sv}''
      (map (\<lambda>p. prop_entry (c_str (sp_name (sprop_at w p)), cv p (val p))) (ps i))]"
proof -
  have "server_env.appends_variant wk wv (\<lambda>iter. PropertyCodec_encode L (sp_codec (sprop_at w p)) iter (val p)) (cv p (val p))"
    if "p \<in> set (ps i)" for p
    using assms(5) that by (intro server_env.property_encode_appends [where ok = ok, OF assms(1)]) auto
  then have "server_env.snapshot L bvalid wk wv w (ps i) (\<lambda>p. cv p (val p))"
    using assms(5) by (auto simp: server_env.snapshot_def [OF assms(1)])
  from server_env.getall_request_vals [OF assms(1-4) this] show ?thesis by blast
qed

theorem getall_snapshot_witness:
  "\<exists>w' reply. handle_property_getall_request ref_api K0 code0 echo_msg 0 server0 = Some (Inr Handled, w') \<and>
    rc_sent (sconn w') = [reply] \<and> snd (om_body reply) = [Cont DBUS_TYPE_ARRAY ''{sv}''
      [Cont DBUS_TYPE_DICT_ENTRY [] [Basic (BString ''prop''), Cont DBUS_TYPE_VARIANT ''s'' [Basic (BString ''x'')]]]]"
proof -
  have "\<forall>p \<in> set [0]. codec ref_api (\<lambda>_. True) fst snd (\<lambda>r. r) (sp_codec (sprop_at server0 p)) nul_free
      (\<lambda>s. Basic (BString (c_str s))) \<and> sp_store (sprop_at server0 p) = Holds ''x'' \<and> nul_free ''x'' \<and> True"
    using string_codec0 by (simp add: server0_fields NUL_def)
  from getall_snapshot [OF rec_srv.server_env_axioms server0_fields(1) server0_lists _ this]
  show ?thesis by (force simp: server0_fields rec_conn0_def prop_entry_def c_str_def NUL_def)
qed

text \<open>
  \<open>GetAll\<close> does not catch what an \<open>on_read\<close> callback throws, unlike \<open>Get\<close>: the exception
  leaves the request handler, which libdbus calls, and the caller gets no reply.
\<close>

theorem getall_exception_escapes:
  assumes "i < length (property_heads w)" and "property_heads w ! i = Some p"
    and "sp_store (sprop_at w p) = OnRead" and "read_cb U p = pthrow (UserExn n)"
  shows "handle_property_getall_request L K U msg (int i) w = Some (Inl (UserExn n), w)"
  using assms
  by (subst handle_property_getall_request_def)
    (simp add: Let_def head_at_def plift_def ret_def pbind_def getall_entries.simps sproperty_eval_def pthrow_def)

theorem getall_exception_escapes_witness:
  "handle_property_getall_request ref_api K0 (code0\<lparr>read_cb := \<lambda>_. pthrow (UserExn 1)\<rparr>) echo_msg (int 0)
     (on_read 0 server0) = Some (Inl (UserExn 1), on_read 0 server0)"
  by (rule getall_exception_escapes) (simp_all add: on_read_def set_store_def server0_fields)

text \<open>
  Invalidating a property sends one message and the callback of an attached property is told
  with the error \<open>simppl.dbus.Invalid\<close>. The message has the signature \<open>sa{ii}as\<close>, not the
  \<open>sa{sv}as\<close> that the specification of \<open>PropertiesChanged\<close> and the introspection data promise.
\<close>

theorem invalidation_reaches_subscriber:
  assumes "server_env L bvalid wk wv rv K rules sent paths timeouts"
    and "sk_disp w" and "iface_of (sk_ifaces w) (sp_iface_id (sprop_at w p)) = Some i"
    and "bvalid (BString (c_str i))" and "bvalid (BString (c_str (sp_name (sprop_at w p))))"
  shows "\<exists>w' om. sproperty_invalidate L K p w = Some (Inr (), w') \<and> sent (sconn w') = sent (sconn w) @ [om] \<and>
    concat (map dsig (wv (om_body om))) = ''sa{ii}as'' \<and>
    (\<forall>msg cw s q. arrives wv rv om msg \<longrightarrow>
       find_property cw (properties (stub_at cw s)) (c_str (sp_name (sprop_at w p))) = Some (q, True) \<longrightarrow>
       prop_cb (prop_at cw q) \<longrightarrow>
       stub_try_handle_signal L s msg (cw :: ('d, 'w, 'r, 'v) world) = Some (Inr (), cw\<lparr>events := events cw @
         [PropertyCallback q (Some ''simppl.dbus.Invalid'') (prop_default (prop_at cw q))]\<rparr>))"
proof -
  have env: "dbus_iter L bvalid wk wv rv" "dbus_conn K rules sent paths timeouts"
    using assms(1) by (simp_all add: server_env_def)
  let ?n = "sp_name (sprop_at w p)"
  let ?om = "message_new_signal (c_str (sk_objectpath w)) ''org.freedesktop.DBus.Properties'' ''PropertiesChanged''
    (invalidate_body L (message_iter K) i ?n)"
  have body: "wv (om_body ?om) = [Basic (BString (c_str i)), Cont DBUS_TYPE_ARRAY ''{ii}'' [],
      Cont DBUS_TYPE_ARRAY ''s'' [Basic (BString (c_str ?n))]]"
    using server_env.invalidate_body_vals [OF assms(1,4,5)] by (simp add: message_new_signal_def)
  have "sproperty_invalidate L K p w = Some (Inr (), w\<lparr>sconn := connection_send K (sconn w) ?om\<rparr>)"
    using assms(2,3)
    by (simp add: sproperty_invalidate_def send_property_invalidate_def properties_changed_def server_send_def preturn_def)
  moreover have "stub_try_handle_signal L s msg (cw :: ('d, 'w, 'r, 'v) world) = Some (Inr (), cw\<lparr>events := events cw @
      [PropertyCallback q (Some ''simppl.dbus.Invalid'') (prop_default (prop_at cw q))]\<rparr>)"
    if a: "arrives wv rv ?om msg" and q: "find_property cw (properties (stub_at cw s)) (c_str ?n) = Some (q, True)"
      "prop_cb (prop_at cw q)" for msg cw s q
  proof -
    have m: "im_member msg = Some ''PropertiesChanged''" "c_str ''PropertiesChanged'' = ''PropertiesChanged''"
      using a by (simp_all add: arrives_def message_new_signal_def c_str_def NUL_def)
    have r: "rv (im_body msg) = [Basic (BString (c_str i)), Cont DBUS_TYPE_ARRAY ''{ii}'' [],
        Cont DBUS_TYPE_ARRAY ''s'' [Basic (BString (c_str ?n))]]"
      using a body by (simp add: arrives_def)
    let ?it = "iter_next L (im_body msg)"
    note r1 = dbus_iter.next_vals [OF env(1) r]
    have "StringCodec_decode L (im_body msg) = ret (c_str i, ?it)"
      by (rule dbus_iter.StringCodec_decode_vals [OF env(1) r c_str_nul_free])
    moreover have e: "rv (iter_recurse L ?it) = map prop_entry []"
      using dbus_iter.recurse_vals [OF env(1) r1] by simp
    moreover have "rv (iter_recurse L (iter_next L ?it)) = map (\<lambda>n. Basic (BString n)) [c_str ?n]"
      using dbus_iter.recurse_vals [OF env(1) dbus_iter.next_vals [OF env(1) r1]] by simp
    ultimately show ?thesis
      using dbus_iter.changed_loop_vals [OF env(1) e, where w = cw and s = s and val = "\<lambda>_ _. undefined"]
        dbus_iter.invalidated_loop_vals [OF env(1), of "iter_recurse L (iter_next L ?it)" "[c_str ?n]" s cw] q
      by (simp add: stub_try_handle_signal_def m decodable_def change_events_def invalid_events_def c_str_nul_free)
  qed
  ultimately show ?thesis
    using body dbus_conn.send_sent [OF env(2)] by (intro exI conjI) auto
qed

theorem invalidation_reaches_subscriber_witness:
  "\<exists>w' om. sproperty_invalidate ref_api K0 0 server0 = Some (Inr (), w') \<and> rc_sent (sconn w') = [om] \<and>
     concat (map dsig (snd (om_body om))) = ''sa{ii}as''"
proof -
  have "\<exists>w' om. sproperty_invalidate ref_api K0 0 server0 = Some (Inr (), w') \<and>
      rc_sent (sconn w') = rc_sent (sconn server0) @ [om] \<and> concat (map dsig (snd (om_body om))) = ''sa{ii}as'' \<and>
      (\<forall>msg cw s q. arrives snd (\<lambda>r. r) om msg \<longrightarrow>
         find_property cw (properties (stub_at cw s)) (c_str (sp_name (sprop_at server0 0))) = Some (q, True) \<longrightarrow>
         prop_cb (prop_at cw q) \<longrightarrow>
         stub_try_handle_signal ref_api s msg (cw :: sample_world) = Some (Inr (), cw\<lparr>events := events cw @
           [PropertyCallback q (Some ''simppl.dbus.Invalid'') (prop_default (prop_at cw q))]\<rparr>))"
    by (rule invalidation_reaches_subscriber [where i = "''a.B''", OF rec_srv.server_env_axioms])
      (simp_all add: server0_fields)
  moreover have "rc_sent (sconn server0) = []" by (simp add: server0_fields rec_conn0_def)
  ultimately show ?thesis by (simp only: append_Nil) blast
qed

section \<open>Replies of methods\<close>

text \<open>
  A method's callback that responds and then throws makes the skeleton send two replies to
  one call: after an exception the code does not look whether the request was answered.
\<close>

theorem respond_then_throw_replies_twice:
  assumes "server_env L bvalid wk wv rv K rules sent paths timeouts"
    and "sk_disp w" and "sm_args (method_at w m) (im_body msg) = ret (args, it)"
    and "sm_cb (method_at w m)" and "method_cb U m args = pbind (respond_with K f) (\<lambda>_. pthrow (UserExn n))"
  shows "\<exists>w' om1 om2. handle_interface_request L K junk U msg m w = Some (Inr Handled, w') \<and>
    replies sent w' = replies sent w @ [om1, om2] \<and> reply_for msg om1 \<and> reply_for msg om2"
  using server_env.respond_then_throw [OF assms, of junk]
  by (auto simp: reply_for_def response_msg_def message_new_method_return_def)

theorem respond_then_throw_replies_twice_witness:
  "\<exists>w' om1 om2. handle_interface_request ref_api K0 (\<lambda>_. NUL)
      (code0\<lparr>method_cb := \<lambda>m args. pbind (respond_with K0 None) (\<lambda>_. pthrow (UserExn 1))\<rparr>) echo_msg 0 server0 =
      Some (Inr Handled, w') \<and>
    replies rc_sent w' = replies rc_sent server0 @ [om1, om2] \<and> reply_for echo_msg om1 \<and> reply_for echo_msg om2"
  by (rule respond_then_throw_replies_twice [where args = "[''hi'']" and f = None and n = 1, OF rec_srv.server_env_axioms])
    (simp_all add: server0_fields echo_msg_def StringCodec_decode_def simppl_dbus_message_iter_get_basic_def ref_api_simps)

end
