(* ===== verification/CallCorrect.thy ===== *)
theory CallCorrect
  imports ServerCorrect
begin

text \<open>
  Calls from stub to skeleton and back: results and errors reach the caller, and which timeout
  a request is sent with. The concrete call is that of \<open>echo\<close> at the concrete skeleton.
\<close>

section \<open>Results and errors\<close>

text \<open>
  Method call end to end. When the request of a blocking call arrives at the skeleton that
  serves the method, the skeleton sends exactly one reply, and when this reply arrives, the call
  returns the very value the callback responded with, having passed it the very arguments.
\<close>

theorem method_call_round_trip:
  fixes w :: "('b, 'w, 'r, 'v, 'u) server" and c :: "('b, 'w, 'r, 'cv) client"
  assumes "server_env L bvalid wk wv rv K rules sent paths timeouts"
    and "has_disp (the_stub s c)" and "appends wv f ds" and "appends wv g rs"
    and "arrives wv rv (method_msg K (the_stub s c) (cm_name cm) f) msg"
    and "sk_disp w" and "ordinary_iface (stub_iface (the_stub s c))"
    and "routes w (stub_iface (the_stub s c)) (cm_name cm) m" and "sm_cb (method_at w m)"
    and "\<And>r. rv r = ds \<Longrightarrow> \<exists>it. sm_args (method_at w m) r = ret (args, it)"
    and "method_cb U m args = respond_with K (Some g)"
    and "\<And>r. rv r = rs \<Longrightarrow> \<exists>it. d r = ret (x, it)"
  shows "\<exists>w'. handle_request introspection objectmanager L K junk U msg w = Some (Inr Handled, w') \<and>
    sent (sconn w') = sent (sconn w) @ [response_msg K msg (Some g)] \<and>
    (\<forall>p b1 rmsg b2. arrives wv rv (response_msg K msg (Some g)) rmsg \<longrightarrow>
       send_with_reply K (conn_of c) (method_msg K (the_stub s c) (cm_name cm) f) (helper_timeout c) = (p, b1) \<longrightarrow>
       call_block K b1 p = (rmsg, b2) \<longrightarrow>
       (\<exists>c'. method_call K s cm False f (Some d) c = Some (Inr (Some x), c')))"
  by (rule server_env.call_round_trip [OF assms])

text \<open>
  C13. An error that the callback responds with is thrown by the blocking call: as an exception
  with the same name and message, and with the serial of the request.
\<close>

theorem method_error_round_trip:
  fixes w :: "('b, 'w, 'r, 'v, 'u) server" and c :: "('b, 'w, 'r, 'cv) client"
  assumes "server_env L bvalid wk wv rv K rules sent paths timeouts"
    and "has_disp (the_stub s c)" and "appends wv f ds"
    and "arrives wv rv (method_msg K (the_stub s c) (cm_name cm) f) msg"
    and "sk_disp w" and "ordinary_iface (stub_iface (the_stub s c))"
    and "routes w (stub_iface (the_stub s c)) (cm_name cm) m" and "sm_cb (method_at w m)"
    and "\<And>r. rv r = ds \<Longrightarrow> \<exists>it. sm_args (method_at w m) r = ret (args, it)"
    and "method_cb U m args = respond_with_error K err"
    and "Error_name err = Some n" and "bvalid (BString (Error_message err))"
    and "sm_throw (method_at w m) = ErrorFactory_Error_reply L (message_iter K)"
    and "cm_throw cm = Error_throw L cjunk"
  shows "\<exists>w' reply. handle_request introspection objectmanager L K junk U msg w = Some (Inr Handled, w') \<and>
    ErrorFactory_Error_reply L (message_iter K) msg err = ret reply \<and> sent (sconn w') = sent (sconn w) @ [reply] \<and>
    (\<forall>p b1 rmsg b2. arrives wv rv reply rmsg \<longrightarrow>
       send_with_reply K (conn_of c) (method_msg K (the_stub s c) (cm_name cm) f) (helper_timeout c) = (p, b1) \<longrightarrow>
       call_block K b1 p = (rmsg, b2) \<longrightarrow>
       (\<exists>e c'. method_call K s cm False f rd c = Some (Inl (ErrorExn e), c') \<and>
          Error_name e = Some n \<and> Error_message e = Error_message err \<and> err_serial e = im_serial msg))"
  by (rule server_env.error_call_round_trip [OF assms])

section \<open>Timeouts\<close>

text \<open>
  \<open>method[timeout = t](...)\<close>: a two-way request is sent with the request-specific timeout if one
  is set, else with the dispatcher's, and clears the specific one, so that it is used once. A
  oneway request has no timeout, asks for no reply and leaves a specific timeout in place.
\<close>

theorem request_timeout_used_once:
  assumes "dbus_conn K rules sent paths timeouts" and "has_disp (the_stub s c)"
  shows "\<exists>pc c'. send_request K s m f oneway c = Some (Inr pc, c') \<and>
    sent (conn_of c') = sent (conn_of c) @ [(method_msg K (the_stub s c) (cm_name m) f)\<lparr>om_no_reply := oneway\<rparr>] \<and>
    timeouts (conn_of c') = timeouts (conn_of c) @
      (if oneway then [] else if 0 < specific_timeout c then [specific_timeout c] else [request_timeout (disp (objs c))]) \<and>
    specific_timeout c' = (if oneway then specific_timeout c else 0) \<and>
    (pc_pending pc = None \<longleftrightarrow> oneway)"
  using dbus_conn.send_request_timeout [OF assms, of m f oneway] by (auto simp: helper_timeout_def split: if_splits)

section \<open>A concrete call\<close>

text \<open>The stub 0 calls \<open>echo\<close> with a timeout of 500 ms.\<close>

definition client0 :: "(ref_w rec_conn, ref_w, dval list, string) client" where
  "client0 = with_flags 1 (set_timeout_value 500 \<lparr>objs = world1, specific_timeout = 0, timeout_value = 0\<rparr>)"

definition echo0 :: "dval list client_method" where
  "echo0 = \<lparr>cm_name = ''echo'', cm_throw = Error_throw ref_api (\<lambda>_. NUL)\<rparr>"

lemma client0_fields: "the_stub 0 client0 = stub0\<lparr>has_disp := True\<rparr>" "specific_timeout client0 = 500"
  "conn_of client0 = conn (disp world1)" "disp (objs client0) = disp world1"
  by (simp_all add: client0_def set_timeout_value_def with_flags_def the_stub_def world1_fields conn_of_def)

theorem request_timeout_used_once_witness:
  "\<exists>pc c'. send_request K0 0 echo0 (\<lambda>w. w) False client0 = Some (Inr pc, c') \<and>
     rc_timeouts (conn_of c') = [500] \<and> specific_timeout c' = 0"
proof -
  have t: "rc_timeouts (conn (disp world1)) = []"
    by (simp add: world1_def add_client_def Let_def upd_stub_def upd_dispatcher_def notify_connected_def world0_def
        stub0_def rec_api_def rec_conn0_def)
  have "has_disp (the_stub 0 client0)" by (simp add: client0_fields)
  from request_timeout_used_once [OF rec.dbus_conn_axioms this, of ref_root _ echo0 "\<lambda>w. w" False]
  show ?thesis by (fastforce simp: client0_fields t)
qed

text \<open>A connection on which \<open>reply\<close> is what the next blocking call gets.\<close>

abbreviation K1 :: "dval list in_msg \<Rightarrow> (ref_w rec_conn, ref_w, dval list) dbus_conn_api" where
  "K1 reply \<equiv> rec_api ref_root reply"

definition echo_reply :: "dval list in_msg" where
  "echo_reply = \<lparr>im_type = MethodReturn, im_path = None, im_interface = None, im_member = None, im_error_name = None,
     im_serial = 9, im_reply_serial = 7, im_body = [Basic (BString ''hi'')]\<rparr>"

definition error_reply :: "dval list in_msg" where
  "error_reply = \<lparr>im_type = ErrorReply, im_path = None, im_interface = None, im_member = None,
     im_error_name = Some ''a.E'', im_serial = 9, im_reply_serial = 7, im_body = [Basic (BString ''bad'')]\<rparr>"

lemma echo_call:
  "appends snd (\<lambda>w. StringCodec_encode ref_api w ''hi'') [Basic (BString ''hi'')]"
  "arrives snd (\<lambda>r. r) (method_msg (K1 r) (the_stub 0 client0) (cm_name echo0) (\<lambda>w. StringCodec_encode ref_api w ''hi'')) echo_msg"
  "ordinary_iface (stub_iface (the_stub 0 client0))"
  "routes server0 (stub_iface (the_stub 0 client0)) (cm_name echo0) 0"
  "has_disp (the_stub 0 client0)"
  "sm_args (method_at server0 0) [Basic (BString ''hi'')] = ret ([''hi''], [])"
proof -
  have i: "stub_iface (stub0\<lparr>has_disp := True\<rparr>) = ''a.B''" by (simp add: stub_iface_def stub0_def)
  show "appends snd (\<lambda>w. StringCodec_encode ref_api w ''hi'') [Basic (BString ''hi'')]"
    by (simp add: appends_def StringCodec_encode_def ref_api_simps)
  show "arrives snd (\<lambda>r. r) (method_msg (K1 r) (the_stub 0 client0) (cm_name echo0) (\<lambda>w. StringCodec_encode ref_api w ''hi'')) echo_msg"
    by (simp add: arrives_def method_msg_def message_new_method_call_def client0_fields i echo0_def echo_msg_def
        stub0_fields StringCodec_encode_def ref_api_simps rec_api_def ref_root_def)
      (simp add: c_str_def NUL_def)
  show "ordinary_iface (stub_iface (the_stub 0 client0))" "has_disp (the_stub 0 client0)"
    by (simp_all add: client0_fields i ordinary_iface_def)
  show "routes server0 (stub_iface (the_stub 0 client0)) (cm_name echo0) 0"
    unfolding routes_def
    by (rule exI [of _ "\<lambda>_. [0]"], rule exI [of _ "\<lambda>_. [0]"], rule exI [of _ "\<lambda>_. []"], rule exI [of _ 0])
      (simp add: server0_lists server0_fields client0_fields i find_interface_def echo0_def)
  show "sm_args (method_at server0 0) [Basic (BString ''hi'')] = ret ([''hi''], [])"
    by (simp add: server0_fields StringCodec_decode_def simppl_dbus_message_iter_get_basic_def ref_api_simps)
qed

text \<open>\<open>echo\<close> responds with its argument, or with an error.\<close>

definition echo_code :: "dval list in_msg \<Rightarrow> (sample_server, dval list, string) server_code" where
  "echo_code r = code0\<lparr>method_cb := \<lambda>m args. respond_with (K1 r) (Some (\<lambda>w. StringCodec_encode ref_api w (hd args)))\<rparr>"

definition failing_code :: "error_obj \<Rightarrow> (sample_server, dval list, string) server_code" where
  "failing_code err = code0\<lparr>method_cb := \<lambda>m args. respond_with_error (K1 error_reply) err\<rparr>"

theorem method_call_round_trip_witness:
  "\<exists>w' c'. handle_request True True ref_api (K1 echo_reply) (\<lambda>_. NUL) (echo_code echo_reply) echo_msg server0 =
       Some (Inr Handled, w') \<and>
     method_call (K1 echo_reply) 0 echo0 False (\<lambda>w. StringCodec_encode ref_api w ''hi'') (Some (StringCodec_decode ref_api)) client0 =
       Some (Inr (Some ''hi''), c')"
proof -
  let ?K = "K1 echo_reply" and ?f = "\<lambda>w. StringCodec_encode ref_api w ''hi''"
  have cb: "method_cb (echo_code echo_reply) 0 [''hi''] = respond_with ?K (Some ?f)" by (simp add: echo_code_def)
  have args: "\<exists>it. sm_args (method_at server0 0) r = ret ([''hi''], it)" if "r = [Basic (BString ''hi'')]" for r
    using that echo_call(6) by blast
  have d: "\<exists>it. StringCodec_decode ref_api r = ret (''hi'', it)" if "r = [Basic (BString ''hi'')]" for r
    using that by (simp add: StringCodec_decode_def simppl_dbus_message_iter_get_basic_def ref_api_simps)
  have reply: "arrives snd (\<lambda>r. r) (response_msg ?K echo_msg (Some ?f)) echo_reply"
    by (simp add: arrives_def response_msg_def message_new_method_return_def echo_reply_def echo_msg_def
        StringCodec_encode_def ref_api_simps rec_api_def ref_root_def)
  obtain p b1 where req: "send_with_reply ?K (conn_of client0) (method_msg ?K (the_stub 0 client0) (cm_name echo0) ?f)
      (helper_timeout client0) = (p, b1)" by fastforce
  have blk: "call_block ?K b1 p = (echo_reply, b1)" by (simp add: rec_api_def)
  from method_call_round_trip [where introspection = True and objectmanager = True and junk = "\<lambda>_. NUL"
      and d = "StringCodec_decode ref_api" and rv = "\<lambda>r. r", OF rec_srv.server_env_axioms echo_call(5,1,1,2) server0_fields(1) echo_call(3,4)
      server0_fields(18) args cb d]
  obtain w' where w': "handle_request True True ref_api ?K (\<lambda>_. NUL) (echo_code echo_reply) echo_msg server0 = Some (Inr Handled, w')"
    and all: "\<forall>p b1 rmsg b2. arrives snd (\<lambda>r. r) (response_msg ?K echo_msg (Some ?f)) rmsg \<longrightarrow>
       send_with_reply ?K (conn_of client0) (method_msg ?K (the_stub 0 client0) (cm_name echo0) ?f) (helper_timeout client0) = (p, b1) \<longrightarrow>
       call_block ?K b1 p = (rmsg, b2) \<longrightarrow>
       (\<exists>c'. method_call ?K 0 echo0 False ?f (Some (StringCodec_decode ref_api)) client0 = Some (Inr (Some ''hi''), c'))"
    by fast
  from all [rule_format, OF reply req blk] w' show ?thesis by blast
qed

theorem method_error_round_trip_witness:
  "\<exists>err w' e c'. Error_name err = Some ''a.E'' \<and>
     handle_request True True ref_api (K1 error_reply) (\<lambda>_. NUL) (failing_code err) echo_msg server0 =
       Some (Inr Handled, w') \<and>
     method_call (K1 error_reply) 0 echo0 False (\<lambda>w. StringCodec_encode ref_api w ''hi'') (Some (StringCodec_decode ref_api)) client0 =
       Some (Inl (ErrorExn e), c') \<and>
     Error_name e = Some ''a.E'' \<and> Error_message e = ''bad'' \<and> err_serial e = 7"
proof -
  let ?K = "K1 error_reply" and ?f = "\<lambda>w. StringCodec_encode ref_api w ''hi''"
  obtain err where err: "Error_name err = Some ''a.E''" "Error_message err = ''bad''"
    using set_members_ok [of "\<lambda>_. NUL" "''a.E''" "Some ''bad''" 0] by (auto simp: c_str_def NUL_def)
  have cb: "method_cb (failing_code err) 0 [''hi''] = respond_with_error ?K err" by (simp add: failing_code_def)
  have args: "\<exists>it. sm_args (method_at server0 0) r = ret ([''hi''], it)" if "r = [Basic (BString ''hi'')]" for r
    using that echo_call(6) by blast
  have th: "sm_throw (method_at server0 0) = ErrorFactory_Error_reply ref_api (message_iter ?K)"
    "cm_throw echo0 = Error_throw ref_api (\<lambda>_. NUL)"
    by (simp_all add: server0_fields rec_api_def echo0_def)
  have reply: "arrives snd (\<lambda>r. r) om error_reply" if "ErrorFactory_Error_reply ref_api (message_iter ?K) echo_msg err = ret om" for om
    using that by (auto simp: ErrorFactory_Error_reply_def make_reply_for_def err new_error_def arrives_def error_reply_def
        echo_msg_def StringCodec_encode_def ref_api_simps rec_api_def ref_root_def ret_def message_new_error_def c_str_def NUL_def)
  obtain p b1 where req: "send_with_reply ?K (conn_of client0) (method_msg ?K (the_stub 0 client0) (cm_name echo0) ?f)
      (helper_timeout client0) = (p, b1)" by fastforce
  have blk: "call_block ?K b1 p = (error_reply, b1)" by (simp add: rec_api_def)
  from method_error_round_trip [where introspection = True and objectmanager = True and junk = "\<lambda>_. NUL"
      and rd = "Some (StringCodec_decode ref_api)", OF rec_srv.server_env_axioms echo_call(5,1,2) server0_fields(1) echo_call(3,4)
      server0_fields(18) args cb err(1) TrueI th]
  obtain w' om where w': "handle_request True True ref_api ?K (\<lambda>_. NUL) (failing_code err) echo_msg server0 = Some (Inr Handled, w')"
    "ErrorFactory_Error_reply ref_api (message_iter ?K) echo_msg err = ret om"
    and all: "\<forall>p b1 rmsg b2. arrives snd (\<lambda>r. r) om rmsg \<longrightarrow>
       send_with_reply ?K (conn_of client0) (method_msg ?K (the_stub 0 client0) (cm_name echo0) ?f) (helper_timeout client0) = (p, b1) \<longrightarrow>
       call_block ?K b1 p = (rmsg, b2) \<longrightarrow>
       (\<exists>e c'. method_call ?K 0 echo0 False ?f (Some (StringCodec_decode ref_api)) client0 = Some (Inl (ErrorExn e), c') \<and>
          Error_name e = Some ''a.E'' \<and> Error_message e = Error_message err \<and> err_serial e = im_serial echo_msg)"
    by blast
  from all reply [OF w'(2)] req blk obtain e c' where
    "method_call ?K 0 echo0 False ?f (Some (StringCodec_decode ref_api)) client0 = Some (Inl (ErrorExn e), c')"
    "Error_name e = Some ''a.E''" "Error_message e = Error_message err" "err_serial e = im_serial echo_msg" by blast
  moreover have "im_serial echo_msg = 7" by (simp add: echo_msg_def)
  ultimately show ?thesis using w'(1) err by auto
qed

end
