(* ===== verification/TypedCorrect.thy ===== *)
theory TypedCorrect
  imports TypedMethods CallCorrect
begin

text \<open>
  Declared methods end to end: the values a stub's method is called with are the values the
  skeleton's callback gets, the values it responds with are the result of the call, and both
  messages have the signatures that the introspection data announce.
\<close>

section \<open>Argument lists on the wire\<close>

lemma encode_all_fields:
  "cs \<noteq> [] \<Longrightarrow> length xs = length cs \<Longrightarrow> encode_all cs w xs = fenc (tuple_fields cs) w xs"
proof (induction cs arbitrary: w xs rule: tuple_fields.induct)
  case (2 c)
  then obtain x where "xs = [x]" by (auto simp: length_Suc_conv)
  then show ?case by (simp add: fields_iso_def StdTupleForEach_last_def)
next
  case (3 c d cs)
  then obtain x ys where "xs = x # ys" "length ys = length (d # cs)" by (auto simp: length_Suc_conv)
  with 3 show ?case by (simp add: fields_iso_def StdTupleForEach_def)
qed simp

definition vals_ok :: "(basic \<Rightarrow> bool) \<Rightarrow> cpp_ty list \<Rightarrow> cpp_val list \<Rightarrow> bool" where
  "vals_ok bvalid as xs \<longleftrightarrow> pointwise (map (val_ok bvalid) as) xs"

lemma vals_ok_simps [simp]:
  "vals_ok bvalid [] xs \<longleftrightarrow> xs = []"
  "vals_ok bvalid (a # as) xs \<longleftrightarrow> (\<exists>y ys. xs = y # ys \<and> val_ok bvalid a y \<and> vals_ok bvalid as ys)"
  by (auto simp: vals_ok_def)

lemma vals_ok_length: "vals_ok bvalid as xs \<Longrightarrow> length xs = length as"
  by (simp add: vals_ok_def pointwise_def)

context dbus_iter begin

lemma args_fields:
  assumes "list_all ty_ok as" and "as \<noteq> []"
  shows "\<exists>fv. Aggregates.fields L bvalid wk wv rv (tuple_fields (map (Codec_of L v0) as)) (vals_ok bvalid as) fv"
proof -
  have "list_all2 (\<lambda>c p. \<exists>cv. codec L bvalid wk wv rv c p cv) (map (Codec_of L v0) as) (map (val_ok bvalid) as)"
    using assms(1) Codec_of_ok by (simp add: list_all2_map1 list_all2_map2 list_all2_same list_all_iff)
  from tuple_fields_ok [OF this] assms(2) show ?thesis
    by (simp add: vals_ok_def [abs_def])
qed

lemma args_fsgn:
  assumes "list_all ty_ok as" and "as \<noteq> []"
  shows "fsgn (tuple_fields (map (Codec_of L v0) as)) = concat (map ty_sig as)"
proof -
  have "map (sgn \<circ> Codec_of L v0) as = map ty_sig as"
    using assms(1) by (simp add: Codec_of_sig list_all_iff)
  with tuple_fields_sgn [of "map (Codec_of L v0) as"] assms(2) show ?thesis by (simp del: map_eq_conv)
qed

text \<open>
  What an argument list is on the wire: a sequence of values with the signatures of the types,
  which the flattened decoder turns back into the arguments.
\<close>

lemma args_wire:
  assumes "list_all ty_ok as" and "vals_ok bvalid as xs"
  shows "\<exists>ds. appends wv (\<lambda>w. encode_all (map (Codec_of L v0) as) w xs) ds \<and>
    concat (map dsig ds) = concat (map ty_sig as) \<and>
    (as \<noteq> [] \<longrightarrow> (\<forall>r vs. rv r = ds @ vs \<longrightarrow>
       (\<exists>it. decode_flattened (tuple_fields (map (Codec_of L v0) as)) r = ret (xs, it) \<and> rv it = vs)))"
proof (cases "as = []")
  case True
  with assms show ?thesis by (auto simp: appends_def)
next
  case False
  let ?f = "tuple_fields (map (Codec_of L v0) as)"
  obtain fv where f: "Aggregates.fields L bvalid wk wv rv ?f (vals_ok bvalid as) fv"
    using args_fields [OF assms(1) False] by blast
  have "appends wv (\<lambda>w. encode_all (map (Codec_of L v0) as) w xs) (fv xs)"
    using fields.fenc_vals [OF f assms(2)] False vals_ok_length [OF assms(2)]
    by (simp add: appends_def encode_all_fields)
  moreover have "concat (map dsig (fv xs)) = concat (map ty_sig as)"
    using fields.fv_sig [OF f assms(2)] args_fsgn [OF assms(1) False] by simp
  moreover have "\<exists>it. decode_flattened ?f r = ret (xs, it) \<and> rv it = vs" if "rv r = fv xs @ vs" for r vs
    using fields.fdec_vals [OF f assms(2) that] by (simp add: decode_flattened_def)
  ultimately show ?thesis by blast
qed

lemma DeserializeAndCall_args:
  assumes ok: "list_all ty_ok as" "vals_ok bvalid as xs" and s: "\<not> single_tuple as"
    and d: "DeserializeAndCall_eval L v0 (tuple_type as) = Some d"
    and ds: "as \<noteq> [] \<longrightarrow> (\<exists>it. decode_flattened (tuple_fields (map (Codec_of L v0) as)) r = ret (xs, it))"
  shows "\<exists>it. d r = ret (xs, it)"
proof (cases "as = []")
  case True
  with ok d show ?thesis by (auto simp: DeserializeAndCall_eval_def)
next
  case False
  then obtain it where "decode_flattened (tuple_fields (map (Codec_of L v0) as)) r = ret (xs, it)"
    using ds by blast
  moreover have "xs \<noteq> []" using vals_ok_length [OF ok(2)] False by auto
  ultimately show ?thesis
    using d False GetCaller_not_single [OF s]
    by (auto simp: DeserializeAndCall_eval_def FunctionCaller_all ret_def)
qed

end

section \<open>Calls of declared methods\<close>

text \<open>What the result of a call is: nothing, one value, or the tuple of several.\<close>

definition call_result :: "cpp_val list \<Rightarrow> cpp_val option" where
  "call_result ys = (case ys of [] \<Rightarrow> None | [y] \<Rightarrow> Some y | _ \<Rightarrow> Some (VTuple ys))"

context dbus_iter begin

lemma deserialize_result:
  assumes ok: "list_all ty_ok as" "vals_ok bvalid as ys" and s: "\<not> single_tuple as"
    and d: "deserialize_and_return L v0 (tuple_type as) = Some rd"
    and ds: "as \<noteq> [] \<longrightarrow> (\<exists>it. decode_flattened (tuple_fields (map (Codec_of L v0) as)) r = ret (ys, it))"
  shows "if as = [] then rd = None
    else \<exists>f y it. rd = Some f \<and> f r = ret (y, it) \<and> call_result ys = Some y"
proof (cases as rule: remdups_adj.cases)
  case (2 a)
  with s have t: "std_tuple (Val a) = None"
    by (cases a) (auto simp: single_tuple_def)
  from 2 ok obtain y where y: "ys = [y]" by auto
  from 2 ds y obtain it where "dec (Codec_of L v0 a) r = ret (y, it)"
    by (auto simp: decode_flattened_def fields_iso_def StdTupleForEach_last_def rbind_eq_ret split: prod.splits)
  with 2 y d t show ?thesis
    by (auto simp: deserialize_and_return_def cxx_codec_def call_result_def)
next
  case (3 a b bs)
  then obtain it where it: "decode_flattened (tuple_fields (map (Codec_of L v0) as)) r = ret (ys, it)"
    using ds by blast
  have "arg_codecs L v0 (map Val as) = Some (map (Codec_of L v0) as)" by simp
  with 3 d have "rd = Some (\<lambda>iter. rbind (decode_flattened (tuple_fields (map (Codec_of L v0) as)) iter)
      (\<lambda>(rc, iter). ret (VTuple rc, iter)))"
    by (simp add: deserialize_and_return_def del: arg_codecs_Val)
  moreover obtain x y zs where "ys = x # y # zs" using ok(2) 3 by auto
  ultimately show ?thesis
    using it 3 by (simp add: call_result_def del: tuple_fields.simps)
qed (use d in \<open>auto simp: deserialize_and_return_def\<close>)

end

text \<open>The parts of a call, for a declaration that compiles on both sides.\<close>

definition plain :: "cxx list \<Rightarrow> bool" where
  "plain ts \<longleftrightarrow> declared ts \<and> Oneway \<notin> set ts \<and> \<not> single_tuple (ins ts) \<and> \<not> single_tuple (outs ts)"

lemma declared_oks: "declared ts \<Longrightarrow> list_all ty_ok (ins ts) \<and> list_all ty_ok (outs ts)"
proof -
  have "list_all param ts \<Longrightarrow> list_all ty_ok (ins ts) \<and> list_all ty_ok (outs ts)"
    by (induction ts) (auto elim!: param_cases)
  then show "declared ts \<Longrightarrow> list_all ty_ok (ins ts) \<and> list_all ty_ok (outs ts)"
    by (simp add: declared_def)
qed

lemma client_parts:
  assumes "declared ts"
  shows "client_request L v0 ts = Some (\<lambda>xs s. encode_all (map (Codec_of L v0) (ins ts)) s xs)"
    and "client_result L v0 ts = deserialize_and_return L v0 (tuple_type (outs ts))"
  using ClientMethod_declared [OF assms]
  by (simp_all add: client_request_def client_result_def SerializerGenerator_eval_def)

lemma encode_all_none: "encode_all cs s [] = s"
  by (cases cs) auto

lemma server_parts:
  assumes "plain ts"
  shows "server_eval L v0 ts = DeserializeAndCall_eval L v0 (tuple_type (ins ts))"
    and "server_response L v0 ts = Some (\<lambda>ys s. encode_all (map (Codec_of L v0) (outs ts)) s ys)"
proof -
  have "\<not> (\<exists>us. ins ts = [TyTuple us] \<and> (\<nexists>u. us = [u]))"
    using assms by (auto simp: plain_def single_tuple_def)
  with assms ServerMethod_declared [of ts] obtain m where m: "ServerMethod ts = Some m"
    "\<not> smt_oneway m" "smt_args m = tuple_type (ins ts)" "smt_serializer m = map Val (outs ts)"
    unfolding plain_def by fastforce
  then show "server_eval L v0 ts = DeserializeAndCall_eval L v0 (tuple_type (ins ts))"
    by (simp add: server_eval_def)
  show "server_response L v0 ts = Some (\<lambda>ys s. encode_all (map (Codec_of L v0) (outs ts)) s ys)"
    using m by (auto simp: server_response_def SerializerGenerator_eval_def encode_all_none fun_eq_iff)
qed

context server_env begin

lemma declared_call:
  fixes w :: "('b, 'w, 'r, cpp_val, 'u) server" and c :: "('b, 'w, 'r, 'cv) client"
  assumes ts: "plain ts" and xs: "vals_ok bvalid (ins ts) xs" and ys: "vals_ok bvalid (outs ts) ys"
    and parts: "client_request L v0 ts = Some f" "client_result L v0 ts = Some rd"
      "server_eval L v0 ts = Some d" "server_response L v0 ts = Some g"
    and c: "has_disp (the_stub s c)"
    and req: "arrives wv rv (method_msg K (the_stub s c) (cm_name cm) (f xs)) msg"
    and srv: "sk_disp w" "ordinary_iface (stub_iface (the_stub s c))"
      "routes w (stub_iface (the_stub s c)) (cm_name cm) m" "sm_cb (method_at w m)"
    and args: "sm_args (method_at w m) = d" and h: "method_cb U m xs = respond_with K (Some (g ys))"
  shows "\<exists>w'. handle_request introspection objectmanager L K junk U msg w = Some (Inr Handled, w') \<and>
    sent (sconn w') = sent (sconn w) @ [response_msg K msg (Some (g ys))] \<and>
    (\<forall>p b1 rmsg b2. arrives wv rv (response_msg K msg (Some (g ys))) rmsg \<longrightarrow>
       send_with_reply K (conn_of c) (method_msg K (the_stub s c) (cm_name cm) (f xs)) (helper_timeout c) = (p, b1) \<longrightarrow>
       call_block K b1 p = (rmsg, b2) \<longrightarrow>
       (\<exists>c'. method_call K s cm False (f xs) rd c = Some (Inr (call_result ys), c')))"
proof -
  have decl: "declared ts" and single: "\<not> single_tuple (ins ts)" "\<not> single_tuple (outs ts)"
    using ts by (simp_all add: plain_def)
  have oki: "list_all ty_ok (ins ts)" and oko: "list_all ty_ok (outs ts)"
    using declared_oks [OF decl] by simp_all
  note fs = client_parts [OF decl, of L v0] server_parts [OF ts, of L v0]
  have f: "f xs = (\<lambda>s. encode_all (map (Codec_of L v0) (ins ts)) s xs)"
    and g: "g ys = (\<lambda>s. encode_all (map (Codec_of L v0) (outs ts)) s ys)"
    using fs parts by auto
  obtain ds where ds: "appends wv (f xs) ds" and dec: "\<And>r. ins ts \<noteq> [] \<longrightarrow> rv r = ds \<longrightarrow>
      (\<exists>it. decode_flattened (tuple_fields (map (Codec_of L v0) (ins ts))) r = ret (xs, it))"
    using args_wire [OF oki xs, of v0] f by (metis append_Nil2)
  obtain es where es: "appends wv (g ys) es" and edec: "\<And>r. outs ts \<noteq> [] \<longrightarrow> rv r = es \<longrightarrow>
      (\<exists>it. decode_flattened (tuple_fields (map (Codec_of L v0) (outs ts))) r = ret (ys, it))"
    using args_wire [OF oko ys, of v0] g by (metis append_Nil2)
  have d: "DeserializeAndCall_eval L v0 (tuple_type (ins ts)) = Some d"
    and rd: "deserialize_and_return L v0 (tuple_type (outs ts)) = Some rd"
    using fs parts by simp_all
  note ra = request_arrives [OF req ds]
  obtain it where it: "sm_args (method_at w m) (im_body msg) = ret (xs, it)"
    using DeserializeAndCall_args [OF oki xs single(1) d, of "im_body msg"] dec [of "im_body msg"] ra(3) args by auto
  obtain w' where w': "handle_request introspection objectmanager L K junk U msg w = Some (Inr Handled, w')"
    "sent (sconn w') = sent (sconn w) @ [response_msg K msg (Some (g ys))]"
    using handle_request_responds [OF srv(1) ra(1,2) srv(2,3) it srv(4) h] by blast
  have "\<exists>c'. method_call K s cm False (f xs) rd c = Some (Inr (call_result ys), c')"
    if a: "arrives wv rv (response_msg K msg (Some (g ys))) rmsg"
      and p: "send_with_reply K (conn_of c) (method_msg K (the_stub s c) (cm_name cm) (f xs)) (helper_timeout c) = (p, b1)"
        "call_block K b1 p = (rmsg, b2)" for p b1 rmsg b2
  proof -
    note rr = response_arrives [OF a es]
    have res: "if outs ts = [] then rd = None
        else \<exists>h y it. rd = Some h \<and> h (im_body rmsg) = ret (y, it) \<and> call_result ys = Some y"
      using deserialize_result [OF oko ys single(2) rd, of "im_body rmsg"] edec [of "im_body rmsg"] rr(2) by simp
    obtain c' where c': "send_request_and_block K s cm (f xs) False c = Some (Inr (Some rmsg), c')"
      using blocking_call [OF c p] rr(1) by auto
    show ?thesis
    proof (cases "outs ts = []")
      case True
      with res ys c' show ?thesis
        by (simp add: method_call_def pbind_def preturn_def call_result_def)
    next
      case False
      with res obtain h y it where "rd = Some h" "h (im_body rmsg) = ret (y, it)" "call_result ys = Some y" by auto
      with c' show ?thesis
        by (simp add: method_call_def pbind_def preturn_def plift_def ret_def)
    qed
  qed
  with w' show ?thesis by blast
qed

end

section \<open>Results that are one tuple\<close>

text \<open>
  How many structs a value, and the values of a type, begin with. A decoder refuses a value
  that begins with more structs than its type.
\<close>

fun struct_depth :: "dval \<Rightarrow> nat" where
  "struct_depth (Cont t g (d # ds)) = (if t = DBUS_TYPE_STRUCT then Suc (struct_depth d) else 0)"
| "struct_depth _ = 0"

fun ty_depth :: "cpp_ty \<Rightarrow> nat" where
  "ty_depth (TyTuple (t # ts)) = Suc (ty_depth t)"
| "ty_depth _ = 0"

lemma struct_depth_pos: "0 < struct_depth d \<Longrightarrow> \<exists>g d1 ds. d = Cont DBUS_TYPE_STRUCT g (d1 # ds)"
  by (cases d rule: struct_depth.cases) (auto split: if_splits)

lemma fdec_first_throws:
  "dec c r = throw e \<Longrightarrow> fdec (tuple_fields (c # cs)) r = throw e"
  by (cases cs) (auto simp: fields_iso_def StdTupleForEach_last_def StdTupleForEach_def)

lemma ty_sig_not_struct:
  "ty_ok T \<Longrightarrow> \<nexists>ts. T = TyTuple ts \<Longrightarrow> sig_type (ty_sig T) \<noteq> DBUS_TYPE_STRUCT"
  by (cases T) (auto simp: sig_type_def dbus_type_code_def EnumTypeCodeHelper_def split: if_splits
      elim!: typecode_switch.elims)

context dbus_iter begin

lemma struct_refused:
  assumes "ty_ok T" and "\<nexists>ts. T = TyTuple ts" and "rv r = Cont DBUS_TYPE_STRUCT g ds # vs"
  shows "dec (Codec_of L v0 T) r = throw DecoderError"
proof -
  obtain cv where c: "codec L bvalid wk wv rv (Codec_of L v0 T) (val_ok bvalid T) cv"
    using Codec_of_ok [OF assms(1)] by blast
  show ?thesis
    by (rule codec.dec_type [OF c])
      (use ty_sig_not_struct [OF assms(1,2)] in \<open>simp add: arg_type_val [OF assms(3)] Codec_of_sig [OF assms(1)]\<close>)
qed

lemma deep_value_refused:
  "ty_ok T \<Longrightarrow> rv r = d # vs \<Longrightarrow> ty_depth T < struct_depth d \<Longrightarrow> dec (Codec_of L v0 T) r = throw DecoderError"
proof (induction "ty_depth T" arbitrary: T r d vs)
  case 0
  then obtain g d1 ds where "d = Cont DBUS_TYPE_STRUCT g (d1 # ds)"
    using struct_depth_pos [of d] by auto
  moreover have "\<nexists>ts. T = TyTuple ts"
    using 0 by (auto elim: ty_depth.elims)
  ultimately show ?case using 0 struct_refused by blast
next
  case (Suc n)
  then obtain t ts where T: "T = TyTuple (t # ts)" "ty_depth t = n"
    by (cases T rule: ty_depth.cases) auto
  obtain g d1 ds where d: "d = Cont DBUS_TYPE_STRUCT g (d1 # ds)"
    using Suc struct_depth_pos [of d] by auto
  have "dec (Codec_of L v0 t) (iter_recurse L r) = throw DecoderError"
    by (rule Suc.hyps(1) [where d = d1 and vs = ds]) (use Suc T d recurse_vals in auto)
  then have "fdec (tuple_fields (map (Codec_of L v0) (t # ts))) (iter_recurse L r) = throw DecoderError"
    by (simp add: fdec_first_throws)
  with d Suc.prems(2) T(1) show ?case
    using recurse_ret [of r DBUS_TYPE_STRUCT g "d1 # ds" vs]
    by (simp add: codec_iso_def tuple_codec_def tuple_decode_def)
qed

text \<open>The value of a type begins with as many structs as the type.\<close>

lemma tuple_on_wire:
  assumes "ty_ok (TyTuple (t # ts))" and "vals_ok bvalid (t # ts) (x # xs)"
  shows "\<exists>d ds. (\<forall>w. wv (enc (Codec_of L v0 (TyTuple (t # ts))) w (VTuple (x # xs))) =
      wv w @ [Cont DBUS_TYPE_STRUCT [] (d # ds)]) \<and> (\<forall>w. wv (enc (Codec_of L v0 t) w x) = wv w @ [d])"
proof -
  let ?cs = "map (Codec_of L v0) (t # ts)"
  from assms(1) have oks: "list_all ty_ok (t # ts)" by (simp add: list_all_iff)
  obtain fv where f: "Aggregates.fields L bvalid wk wv rv (tuple_fields ?cs) (vals_ok bvalid (t # ts)) fv"
    using args_fields [OF oks] by blast
  obtain cv where c: "codec L bvalid wk wv rv (Codec_of L v0 t) (val_ok bvalid t) cv"
    using Codec_of_ok [of t v0] oks by auto
  have x: "\<And>w. wv (enc (Codec_of L v0 t) w x) = wv w @ [cv x]"
    using codec.enc_vals [OF c] assms(2) by simp
  have fv: "\<And>w. wv (fenc (tuple_fields ?cs) w (x # xs)) = wv w @ fv (x # xs)"
    using fields.fenc_vals [OF f assms(2)] by simp
  have "\<exists>ds. fv (x # xs) = cv x # ds"
  proof (cases ts)
    case Nil
    with fv x assms(2) show ?thesis
      by (auto simp: fields_iso_def StdTupleForEach_last_def) metis
  next
    case (Cons u us)
    then have ts: "list_all ty_ok ts" "ts \<noteq> []" "vals_ok bvalid ts xs" using oks assms(2) by auto
    obtain gv where "Aggregates.fields L bvalid wk wv rv (tuple_fields (map (Codec_of L v0) ts)) (vals_ok bvalid ts) gv"
      using args_fields [OF ts(1,2)] by blast
    from fields.fenc_vals [OF this ts(3)] have
      "\<And>w. wv (fenc (tuple_fields (map (Codec_of L v0) ts)) w xs) = wv w @ gv xs" .
    then have "wv w @ fv (x # xs) = wv w @ cv x # gv xs" for w
      using fv [of w] Cons x by (simp add: fields_iso_def StdTupleForEach_def)
    then show ?thesis by auto
  qed
  moreover have "\<And>w. wv (enc (Codec_of L v0 (TyTuple (t # ts))) w (VTuple (x # xs))) =
      wv w @ [Cont DBUS_TYPE_STRUCT [] (fv (x # xs))]"
    using codec.enc_vals [OF tuple_ok [OF f] assms(2)] by (simp add: codec_iso_def)
  ultimately show ?thesis using x by metis
qed

lemma value_depth:
  "ty_ok T \<Longrightarrow> val_ok bvalid T v \<Longrightarrow> \<forall>w. wv (enc (Codec_of L v0 T) w v) = wv w @ [d] \<Longrightarrow>
     ty_depth T \<le> struct_depth d"
proof (induction T arbitrary: v d rule: ty_depth.induct)
  case (1 t ts)
  then obtain x xs where v: "v = VTuple (x # xs)" "vals_ok bvalid (t # ts) (x # xs)"
    by (auto simp: vals_ok_def)
  obtain d1 ds where d: "\<forall>w. wv (enc (Codec_of L v0 (TyTuple (t # ts))) w (VTuple (x # xs))) =
      wv w @ [Cont DBUS_TYPE_STRUCT [] (d1 # ds)]" "\<forall>w. wv (enc (Codec_of L v0 t) w x) = wv w @ [d1]"
    using tuple_on_wire [OF "1.prems"(1) v(2)] by blast
  have "ty_depth t \<le> struct_depth d1"
    by (rule "1.IH" [OF _ _ d(2)]) (use 1 v in auto)
  moreover have "d = Cont DBUS_TYPE_STRUCT [] (d1 # ds)"
    using d(1) "1.prems"(3) v(1) by (metis append_same_eq list.inject same_append_eq)
  ultimately show ?case by simp
qed simp_all

end

section \<open>Properties\<close>

text \<open>
  C2. Types agree. Every declaration compiles on the client's side, and on the server's side
  unless its only argument is a tuple of several elements; the argument types are the same on
  both sides and in the order of the declaration, so are the result types; and the signatures
  of the request and of the response are those of the \<open>in\<close> and \<open>out\<close> entries of the
  introspection data.
\<close>

theorem method_types_agree:
  assumes "dbus_iter L bvalid wk wv rv" and "declared ts"
    and "vals_ok bvalid (ins ts) xs" and "vals_ok bvalid (outs ts) ys"
  shows "\<exists>m f ds. ClientMethod ts = Some m \<and> client_request L v0 ts = Some f \<and>
    cmt_serializer m = map Val (ins ts) \<and> (\<exists>e. cmt_callback m = StdFunction (CallStateRef e # map Val (outs ts))) \<and>
    appends wv (f xs) ds \<and> concat (map dsig ds) = concat [g. (i, g, isin) \<leftarrow> announced 0 ts, isin] \<and>
    (case ServerMethod ts of
       None \<Rightarrow> \<exists>us. ins ts = [TyTuple us] \<and> length us \<noteq> 1
     | Some n \<Rightarrow> smt_callback n = StdFunction (cmt_serializer m) \<and> smt_return n = cmt_return m \<and>
         smt_exception n = cmt_exception m \<and>
         (\<forall>h. server_response L v0 ts = Some h \<longrightarrow>
            (\<exists>es. appends wv (h ys) es \<and> concat (map dsig es) = concat [g. (i, g, isin) \<leftarrow> announced 0 ts, \<not> isin]))) \<and>
    introspect_args ts = Some (concat (map (\<lambda>(i, g, isin). arg_xml i g isin) (announced 0 ts)))"
proof -
  have p: "list_all param ts" using assms(2) by (simp add: declared_def)
  note wire = dbus_iter.args_wire [OF assms(1)] and oks = declared_oks [OF assms(2)]
  obtain ds where ds: "appends wv (\<lambda>w. encode_all (map (Codec_of L v0) (ins ts)) w xs) ds"
    "concat (map dsig ds) = concat (map ty_sig (ins ts))"
    using wire [of "ins ts" xs v0] oks assms(3) by blast
  obtain es where es: "appends wv (\<lambda>w. encode_all (map (Codec_of L v0) (outs ts)) w ys) es"
    "concat (map dsig es) = concat (map ty_sig (outs ts))"
    using wire [of "outs ts" ys v0] oks assms(4) by blast
  have h: "h ys = (\<lambda>w. encode_all (map (Codec_of L v0) (outs ts)) w ys)"
    if "ServerMethod ts = Some n" "smt_serializer n = map Val (outs ts)" "server_response L v0 ts = Some h" for n h
    using that by (auto simp: server_response_def SerializerGenerator_eval_def encode_all_none split: if_splits)
  show ?thesis
  proof (cases "\<exists>us. ins ts = [TyTuple us] \<and> (\<nexists>u. us = [u])")
    case True
    then have "\<exists>us. ins ts = [TyTuple us] \<and> length us \<noteq> 1"
      by (metis One_nat_def Suc_length_conv length_0_conv)
    with True ClientMethod_declared [OF assms(2)] ServerMethod_declared [OF assms(2)] client_parts [OF assms(2), of L v0]
      ds announced_sigs [OF p, of 0] ForEach_announced [OF p, of 0]
    show ?thesis by (auto simp: introspect_args_def simp del: announced.simps)
  next
    case False
    with ServerMethod_declared [OF assms(2)] obtain n where n: "ServerMethod ts = Some n"
      "smt_callback n = StdFunction (map Val (ins ts))" "smt_return n = tuple_type (outs ts)"
      "smt_exception n = (case excs ts of [] \<Rightarrow> ErrorT | e # es \<Rightarrow> e)" "smt_serializer n = map Val (outs ts)"
      by fastforce
    have "\<exists>es. appends wv (h ys) es \<and> concat (map dsig es) = concat [g. (i, g, isin) \<leftarrow> announced 0 ts, \<not> isin]"
      if "server_response L v0 ts = Some h" for h
      using h [OF n(1,5) that] es announced_sigs(2) [OF p, of 0] by auto
    with n ClientMethod_declared [OF assms(2)] client_parts [OF assms(2), of L v0]
      ds announced_sigs(1) [OF p, of 0] ForEach_announced [OF p, of 0]
    show ?thesis by (simp add: introspect_args_def del: announced.simps) (rule exI [of _ ds], simp)
  qed
qed

text \<open>
  C1. Declared methods end to end. For every declaration without \<open>oneway\<close> and without a tuple as
  its only argument or its only result, and for values a message can carry (\<open>val_ok\<close>: valid strings,
  no enumeration of another size than the four bytes it is sent with): when the request of a
  blocking call arrives at the skeleton, the callback gets exactly the values the method was called
  with, and when the response with the values the callback responds with arrives, the call returns
  exactly these values: nothing, one value or the tuple of several. C38 is what happens to a result
  that is a single tuple.
\<close>

theorem declared_call_round_trip:
  fixes w :: "('b, 'w, 'r, cpp_val, 'u) server" and c :: "('b, 'w, 'r, 'cv) client"
  assumes "server_env L bvalid wk wv rv K rules sent paths timeouts"
    and "plain ts" and "vals_ok bvalid (ins ts) xs" and "vals_ok bvalid (outs ts) ys"
    and "client_request L v0 ts = Some f" and "client_result L v0 ts = Some rd"
    and "server_eval L v0 ts = Some d" and "server_response L v0 ts = Some g"
    and "has_disp (the_stub s c)"
    and "arrives wv rv (method_msg K (the_stub s c) (cm_name cm) (f xs)) msg"
    and "sk_disp w" and "ordinary_iface (stub_iface (the_stub s c))"
    and "routes w (stub_iface (the_stub s c)) (cm_name cm) m" and "sm_cb (method_at w m)"
    and "sm_args (method_at w m) = d" and "method_cb U m xs = respond_with K (Some (g ys))"
  shows "\<exists>w'. handle_request introspection objectmanager L K junk U msg w = Some (Inr Handled, w') \<and>
    sent (sconn w') = sent (sconn w) @ [response_msg K msg (Some (g ys))] \<and>
    (\<forall>p b1 rmsg b2. arrives wv rv (response_msg K msg (Some (g ys))) rmsg \<longrightarrow>
       send_with_reply K (conn_of c) (method_msg K (the_stub s c) (cm_name cm) (f xs)) (helper_timeout c) = (p, b1) \<longrightarrow>
       call_block K b1 p = (rmsg, b2) \<longrightarrow>
       (\<exists>c'. method_call K s cm False (f xs) rd c = Some (Inr (call_result ys), c')))"
  by (rule server_env.declared_call [OF assms])

text \<open>
  C38. A method whose only result is a tuple never returns it: whatever tuple the callback
  responds with, the client takes the struct it arrives as for the first element of the tuple
  and throws \<open>DecoderError\<close>.
\<close>

theorem single_tuple_result_refused:
  assumes "dbus_iter L bvalid wk wv rv" and "declared ts" and "outs ts = [TyTuple us]"
    and "vals_ok bvalid (outs ts) ys" and "client_result L v0 ts = Some rd" and "server_response L v0 ts = Some g"
    and "wv iter = []" and "rv r = wv (g ys iter)"
  shows "\<exists>h. rd = Some h \<and> h r = throw DecoderError"
proof -
  obtain t us' where us: "us = t # us'"
    using declared_oks [OF assms(2)] assms(3) by (cases us) auto
  obtain x xs where ys: "ys = [VTuple (x # xs)]" "vals_ok bvalid us (x # xs)"
    using assms(3,4) us by (auto simp: vals_ok_def)
  have ok: "ty_ok (TyTuple us)" "ty_ok t" "val_ok bvalid t x"
    using declared_oks [OF assms(2)] assms(3) ys(2) us by auto
  have g: "g ys iter = enc (Codec_of L v0 (TyTuple us)) iter (VTuple (x # xs))"
    using assms(6) ServerMethod_declared [OF assms(2)] ys(1) assms(3) arg_codecs_Val [of L v0 "[TyTuple us]"]
    by (auto simp: server_response_def SerializerGenerator_eval_def simp del: Codec_of.simps split: if_splits)
  obtain d ds where d: "\<forall>w. wv (enc (Codec_of L v0 (TyTuple us)) w (VTuple (x # xs))) =
      wv w @ [Cont DBUS_TYPE_STRUCT [] (d # ds)]" "\<forall>w. wv (enc (Codec_of L v0 t) w x) = wv w @ [d]"
    using dbus_iter.tuple_on_wire [OF assms(1), of t us' x xs v0] ok(1) ys(2) us by blast
  then have r: "rv r = [Cont DBUS_TYPE_STRUCT [] (d # ds)]"
    using assms(7,8) g by simp
  have "ty_depth t < struct_depth (Cont DBUS_TYPE_STRUCT [] (d # ds))"
    using dbus_iter.value_depth [OF assms(1) ok(2,3) d(2)] by simp
  from dbus_iter.deep_value_refused [OF assms(1) ok(2) r this, of v0]
  have throws: "decode_flattened (tuple_fields (map (Codec_of L v0) us)) r = throw DecoderError"
    by (simp add: us decode_flattened_def fdec_first_throws)
  have "arg_codecs L v0 (map Val us) = Some (map (Codec_of L v0) us)" by simp
  then have "rd = Some (\<lambda>iter. rbind (decode_flattened (tuple_fields (map (Codec_of L v0) us)) iter)
      (\<lambda>(rc, iter). ret (VTuple rc, iter)))"
    using assms(3,5) client_parts(2) [OF assms(2), of L v0]
    by (simp add: deserialize_and_return_def del: arg_codecs_Val)
  with throws show ?thesis by simp
qed

text \<open>
  C4. Signals. For every list of the types of \<open>CppTypes\<close>, values a message can carry (\<open>val_ok\<close>: valid
  strings, no enumeration of another size than the four bytes it is sent with) that a signal is
  notified with are the values the callback of an attached signal is called with.
\<close>

theorem signal_values_delivered:
  assumes "dbus_iter L bvalid wk wv rv" and "list_all ty_ok as" and "vals_ok bvalid as xs"
    and "ServerSignal_serializer L v0 (map Val as) = Some f" and "ClientSignal_eval L v0 (map Val as) = Some d"
    and "wv iter = []" and "rv r = wv (f xs iter)"
  shows "\<exists>it. d r = ret (xs, it)"
proof (cases "as = []")
  case True
  with assms(3,5) show ?thesis by (auto simp: ClientSignal_eval_def DeserializeAndCall_eval_def)
next
  case False
  obtain ds where ds: "appends wv (\<lambda>w. encode_all (map (Codec_of L v0) as) w xs) ds"
    "as \<noteq> [] \<longrightarrow> (\<forall>r vs. rv r = ds @ vs \<longrightarrow>
       (\<exists>it. decode_flattened (tuple_fields (map (Codec_of L v0) as)) r = ret (xs, it) \<and> rv it = vs))"
    using dbus_iter.args_wire [OF assms(1-3), of v0] by blast
  have f: "f xs iter = encode_all (map (Codec_of L v0) as) iter xs"
    using assms(4) by (auto simp: ServerSignal_serializer_def)
  have "rv r = ds"
    using ds(1) assms(6,7) f by (simp add: appends_def)
  then obtain it where
    "decode_flattened (tuple_fields (map (Codec_of L v0) as)) r = ret (xs, it)"
    using ds(2) [THEN mp, OF False, THEN spec, THEN spec, of r "[]"] by auto
  moreover have "xs \<noteq> []" using vals_ok_length [OF assms(3)] False by auto
  moreover have "d = (\<lambda>iter. rbind (decode_flattened (tuple_fields (map (Codec_of L v0) as)) iter)
      (\<lambda>(tuple, iter). map_option (\<lambda>ts. Inr (ts, iter)) (FunctionCaller 0 tuple [])))"
    using assms(5) False by (simp add: ClientSignal_eval_def DeserializeAndCall_eval_def GetCaller_def)
  ultimately show ?thesis by (simp add: FunctionCaller_all ret_def)
qed

text \<open>
  Type lists. On every list of types, in either of its two forms, the metaprograms of
  \<open>typelist.h\<close> compute length, element, index of the first occurrence, number of occurrences,
  prefix removal, reversal and image; only \<open>PopBack\<close> and \<open>Back\<close> depend on the form.
\<close>

theorem typelist_refines_list:
  assumes "elems l = Some xs" and "l \<noteq> NilType" and "s \<noteq> NilType"
  shows "Size l = Some (length xs) \<and> Find s l 0 = Some (first_index s xs) \<and> Count s l = Some (count_list xs s) \<and>
    (\<forall>i < length xs. TypeAt (int i) l = Some (xs ! i)) \<and>
    (\<forall>n. RelaxedTypeAt n l = Some (if 0 \<le> n \<and> nat n < length xs then xs ! nat n else NilType)) \<and>
    (\<forall>n. Option.bind (PopFrontN (int n) l) elems = Some (drop n xs)) \<and>
    elems (PushFront l s) = Some (s # xs) \<and>
    Option.bind (PopBack l) elems = Some (if compact l then butlast xs else xs) \<and>
    (xs \<noteq> [] \<longrightarrow> Back l = Some (if compact l then last xs else NilType)) \<and>
    Option.bind (Reverse l) elems = (if xs = [] then None else Some (rev xs)) \<and>
    Option.bind (transform_list add_const_for_pointer l) elems = Some (map add_const_for_pointer xs)"
proof -
  note l = assms(1)
  have "\<forall>n. Option.bind (PopFrontN (int n) l) elems = Some (drop n xs)"
  proof
    fix n
    show "Option.bind (PopFrontN (int n) l) elems = Some (drop n xs)"
      using PopFrontN_elems [OF l, of "int n"] by auto
  qed
  moreover have "Option.bind (PopBack l) elems = Some (if compact l then butlast xs else xs)"
    using PopBack_elems [OF l] by auto
  moreover have "xs \<noteq> [] \<longrightarrow> Back l = Some (if compact l then last xs else NilType)"
    using Back_elems [OF l] Back_not_compact [OF l] by simp
  moreover have "Option.bind (Reverse l) elems = (if xs = [] then None else Some (rev xs))"
    using Reverse_elems [OF l] Reverse_empty [of l] l by (cases "xs = []") auto
  moreover have "Option.bind (transform_list add_const_for_pointer l) elems = Some (map add_const_for_pointer xs)"
    using transform_elems [OF l assms(2), of add_const_for_pointer] by auto
  ultimately show ?thesis
    using Size_elems [OF l assms(2)] Find_elems [OF l assms(3)] Count_elems [OF l assms(3)] TypeAt_elems [OF l]
      RelaxedTypeAt_elems [OF l] PushFront_elems [OF l, of s] assms(3) by simp
qed

section \<open>A concrete declaration\<close>

text \<open>\<open>Method<in<std::string>, out<std::string>, out<int32_t>>\<close>, served by a skeleton.\<close>

definition sample_decl :: "cxx list" where
  "sample_decl = [In (Val TyString), Out (Val TyString), Out (Val (TyPod Int32))]"

abbreviation holds0 :: "nat \<times> cpp_val" where
  "holds0 \<equiv> (0, VBool False)"

lemma sample_decl_ok:
  "plain sample_decl" "declared sample_decl" "ins sample_decl = [TyString]" "outs sample_decl = [TyString, TyPod Int32]"
  by (auto simp: sample_decl_def plain_def declared_def single_tuple_def dbus_type_code_def EnumTypeCodeHelper_def
      deduces_pod_def isPod_def pod_types_def)

lemma sample_vals:
  "vals_ok (\<lambda>_. True) [TyString] [VStr ''hi'']"
  "vals_ok (\<lambda>_. True) [TyString, TyPod Int32] [VStr ''hi'', VPod (BInt32 2)]"
  by (auto simp: str_ok_def dbus_type_code_def EnumTypeCodeHelper_def NUL_def wire_size_def)

theorem method_types_agree_witness:
  "\<exists>m f ds. ClientMethod sample_decl = Some m \<and> client_request ref_api holds0 sample_decl = Some f \<and>
     appends snd (f [VStr ''hi'']) ds \<and> concat (map dsig ds) = ''s'' \<and>
     introspect_args sample_decl = Some (arg_xml 0 ''s'' True @ arg_xml 1 ''s'' False @ arg_xml 2 ''i'' False)"
proof -
  have a: "announced 0 sample_decl = [(0, ''s'', True), (1, ''s'', False), (2, ''i'', False)]"
    by (simp add: sample_decl_def dbus_type_code_def EnumTypeCodeHelper_def)
  from method_types_agree [OF ref.dbus_iter_axioms sample_decl_ok(2), of "[VStr ''hi'']" "[VStr ''hi'', VPod (BInt32 2)]" holds0]
  show ?thesis
    unfolding a sample_decl_ok using sample_vals by auto
qed

theorem single_tuple_result_refused_witness:
  "\<exists>rd h g. client_result ref_api holds0 [Out (Val (TyTuple [TyString, TyBool]))] = Some rd \<and> rd = Some h \<and>
     server_response ref_api holds0 [Out (Val (TyTuple [TyString, TyBool]))] = Some g \<and>
     h (snd (g [VTuple [VStr ''hi'', VBool True]] ref_root)) = throw DecoderError"
proof -
  let ?ts = "[Out (Val (TyTuple [TyString, TyBool]))]"
  have d: "declared ?ts" and o: "outs ?ts = [TyTuple [TyString, TyBool]]"
    by (simp_all add: declared_def)
  have v: "vals_ok (\<lambda>_. True) (outs ?ts) [VTuple [VStr ''hi'', VBool True]]"
    by (auto simp: str_ok_def NUL_def)
  obtain rd where rd: "client_result ref_api holds0 ?ts = Some rd"
    using client_parts(2) [OF d, of ref_api holds0] arg_codecs_Val [of ref_api holds0 "[TyString, TyBool]"]
    by (auto simp: deserialize_and_return_def)
  obtain g where g: "server_response ref_api holds0 ?ts = Some g"
    using ServerMethod_declared [OF d] arg_codecs_Val [of ref_api holds0 "[TyTuple [TyString, TyBool]]"]
    by (auto simp: server_response_def SerializerGenerator_eval_def)
  have "snd ref_root = []" by (simp add: ref_root_def)
  from single_tuple_result_refused [OF ref.dbus_iter_axioms d o v rd g this refl] rd g show ?thesis by auto
qed

theorem signal_values_delivered_witness:
  "\<exists>f d it. ServerSignal_serializer ref_api holds0 [Val TyString, Val (TyPod Int32)] = Some f \<and>
     ClientSignal_eval ref_api holds0 [Val TyString, Val (TyPod Int32)] = Some d \<and>
     d (snd (f [VStr ''hi'', VPod (BInt32 2)] ref_root)) = ret ([VStr ''hi'', VPod (BInt32 2)], it)"
proof -
  let ?as = "[TyString, TyPod Int32]"
  have ok: "list_all ty_ok ?as"
    using sample_decl_ok(2,4) declared_oks by metis
  obtain f where f: "ServerSignal_serializer ref_api holds0 (map Val ?as) = Some f"
    by (simp add: ServerSignal_serializer_def del: list.map)
  obtain d where d: "ClientSignal_eval ref_api holds0 (map Val ?as) = Some d"
    using arg_codecs_Val [of ref_api holds0 ?as]
    by (auto simp: ClientSignal_eval_def DeserializeAndCall_eval_def GetCaller_def)
  have "snd ref_root = []" by (simp add: ref_root_def)
  from signal_values_delivered [OF ref.dbus_iter_axioms ok sample_vals(2) f d this refl] f d show ?thesis by auto
qed

theorem typelist_refines_list_witness:
  "Reverse (TypeList (Val TyBool) (TypeList Oneway NilType)) = Some (TypeList Oneway (TypeList (Val TyBool) NilType)) \<and>
   Find Oneway (TypeList (Val TyBool) (TypeList Oneway NilType)) 0 = Some 1 \<and>
   Size (TypeList (Val TyBool) (TypeList Oneway (TypeList NilType NilType))) = Some 2"
  using typelist_refines_list [of "TypeList (Val TyBool) (TypeList Oneway NilType)" "[Val TyBool, Oneway]" Oneway]
    typelist_refines_list [of "TypeList (Val TyBool) (TypeList Oneway (TypeList NilType NilType))" "[Val TyBool, Oneway]" Oneway]
  by (simp add: Reverse_def numeral_2_eq_2)

text \<open>A skeleton whose method 0 has this declaration and responds with two values.\<close>

type_synonym typed_server = "(ref_w rec_conn, ref_w, dval list, cpp_val, unit) server"

definition typed_reply :: "dval list in_msg" where
  "typed_reply = echo_reply\<lparr>im_body := [Basic (BString ''hi''), Basic (BInt32 2)]\<rparr>"

definition typed_server0 :: typed_server where
  "typed_server0 = (ServerMethodBase_new 0 ''echo'' 0 (SkeletonBase_new 1
     \<lparr>sconn = rec_conn0, sk_ifaces = [], sk_busname = [], sk_objectpath = [], sk_disp = False,
      current_request = descriptor_new, method_heads = [], property_heads = [], signal_heads = [],
      method_at = (\<lambda>_. \<lparr>sm_name = [], sm_next = None, sm_args = the (server_eval ref_api holds0 sample_decl),
        sm_cb = True, sm_throw = ErrorFactory_Error_reply ref_api ref_root, sm_xml = []\<rparr>),
      sprop_at = (\<lambda>_. \<lparr>sp_name = [], sp_next = None, sp_iface_id = 0, sp_codec = Codec_of ref_api holds0 TyBool,
        sp_store = OnRead, sp_rw = True, sp_notifying = False, sp_always = False, sp_set_cb = False\<rparr>),
      ssig_at = (\<lambda>_. \<lparr>ss_name = [], ss_next = None, ss_iface_id = 0, ss_xml = []\<rparr>),
      user = ()\<rparr>))
     \<lparr>sk_ifaces := [''a.B''], sk_objectpath := ''/a/B/r'', sk_busname := ''a.B.r'', sk_disp := True\<rparr>"

definition typed_code :: "(typed_server, dval list, cpp_val) server_code" where
  "typed_code = \<lparr>method_cb = (\<lambda>m args. respond_with (K1 typed_reply)
       (Some (the (server_response ref_api holds0 sample_decl) [hd args, VPod (BInt32 2)]))),
     read_cb = (\<lambda>p. preturn (VBool True)), set_cb = (\<lambda>p v. preturn ()),
     objectmanager_request = (\<lambda>msg. preturn NotYetHandled)\<rparr>"

lemma typed_server0_fields:
  "sk_disp typed_server0" "sk_ifaces typed_server0 = [''a.B'']" "sm_cb (method_at typed_server0 m)"
  "sm_name (method_at typed_server0 0) = ''echo''" "sm_args (method_at typed_server0 m) = the (server_eval ref_api holds0 sample_decl)"
  "lists_ok typed_server0 (\<lambda>_. [0]) (\<lambda>_. []) (\<lambda>_. [])"
  by (auto simp: typed_server0_def ServerMethodBase_new_def SkeletonBase_new_def lists_ok_def)

lemma typed_server0_routes: "routes typed_server0 (stub_iface (the_stub 0 client0)) (cm_name echo0) 0"
proof -
  have i: "stub_iface (stub0\<lparr>has_disp := True\<rparr>) = ''a.B''" by (simp add: stub_iface_def stub0_def)
  show ?thesis
    unfolding routes_def
    by (rule exI [of _ "\<lambda>_. [0]"], rule exI [of _ "\<lambda>_. []"], rule exI [of _ "\<lambda>_. []"], rule exI [of _ 0])
      (simp add: typed_server0_fields client0_fields i find_interface_def echo0_def)
qed

lemma sample_parts:
  "client_request ref_api holds0 sample_decl = Some (\<lambda>xs s. encode_all [Codec_of ref_api holds0 TyString] s xs)"
  "server_response ref_api holds0 sample_decl =
     Some (\<lambda>ys s. encode_all [Codec_of ref_api holds0 TyString, Codec_of ref_api holds0 (TyPod Int32)] s ys)"
  "\<exists>d. server_eval ref_api holds0 sample_decl = Some d" "\<exists>rd. client_result ref_api holds0 sample_decl = Some rd"
  using client_parts [OF sample_decl_ok(2), of ref_api holds0] server_parts [OF sample_decl_ok(1), of ref_api holds0]
    arg_codecs_Val [of ref_api holds0 "[TyString]"] arg_codecs_Val [of ref_api holds0 "[TyString, TyPod Int32]"]
  by (auto simp: sample_decl_ok DeserializeAndCall_eval_def GetCaller_def deserialize_and_return_def)

lemma sample_messages:
  "(\<lambda>s. encode_all [Codec_of ref_api holds0 TyString] s [VStr ''hi'']) = (\<lambda>w. StringCodec_encode ref_api w ''hi'')"
  "snd (encode_all [Codec_of ref_api holds0 TyString, Codec_of ref_api holds0 (TyPod Int32)] ref_root
     [VStr ''hi'', VPod (BInt32 2)]) = [Basic (BString ''hi''), Basic (BInt32 2)]"
  by (auto simp: codec_iso_def string_codec_def StringCodec_encode_def pod_codec_def basic_codec_def pod_load_def
      wire_size_def dbus_type_code_def EnumTypeCodeHelper_def deduces_pod_def isPod_def pod_types_def ref_api_simps ref_root_def)

theorem declared_call_round_trip_witness:
  "\<exists>f rd w' c'. client_request ref_api holds0 sample_decl = Some f \<and> client_result ref_api holds0 sample_decl = Some rd \<and>
     handle_request True True ref_api (K1 typed_reply) (\<lambda>_. NUL) typed_code echo_msg typed_server0 = Some (Inr Handled, w') \<and>
     method_call (K1 typed_reply) 0 echo0 False (f [VStr ''hi'']) rd client0 =
       Some (Inr (Some (VTuple [VStr ''hi'', VPod (BInt32 2)])), c')"
proof -
  let ?K = "K1 typed_reply" and ?x = "[VStr ''hi'']" and ?y = "[VStr ''hi'', VPod (BInt32 2)]"
  obtain d rd where d: "server_eval ref_api holds0 sample_decl = Some d"
    and rd: "client_result ref_api holds0 sample_decl = Some rd" using sample_parts by blast
  define f where "f = (\<lambda>xs s. encode_all [Codec_of ref_api holds0 TyString] s xs)"
  define g where "g = (\<lambda>ys s. encode_all [Codec_of ref_api holds0 TyString, Codec_of ref_api holds0 (TyPod Int32)] s ys)"
  have f: "client_request ref_api holds0 sample_decl = Some f" and g: "server_response ref_api holds0 sample_decl = Some g"
    using sample_parts by (simp_all add: f_def g_def)
  have vals: "vals_ok (\<lambda>_. True) (ins sample_decl) ?x" "vals_ok (\<lambda>_. True) (outs sample_decl) ?y"
    using sample_vals by (simp_all only: sample_decl_ok)
  have fx: "f ?x = (\<lambda>w. StringCodec_encode ref_api w ''hi'')"
    unfolding f_def by (rule sample_messages(1))
  have req: "arrives snd (\<lambda>r. r) (method_msg ?K (the_stub 0 client0) (cm_name echo0) (f ?x)) echo_msg"
    unfolding fx by (rule echo_call(2))
  have args: "sm_args (method_at typed_server0 0) = d" by (simp add: typed_server0_fields d)
  have cb: "method_cb typed_code 0 ?x = respond_with ?K (Some (g ?y))" by (simp add: typed_code_def g)
  have reply: "arrives snd (\<lambda>r. r) (response_msg ?K echo_msg (Some (g ?y))) typed_reply"
    using sample_messages(2) by (simp add: g_def arrives_def response_msg_def message_new_method_return_def
        typed_reply_def echo_reply_def echo_msg_def rec_api_def)
  obtain p b1 where snt: "send_with_reply ?K (conn_of client0) (method_msg ?K (the_stub 0 client0) (cm_name echo0) (f ?x))
      (helper_timeout client0) = (p, b1)" by fastforce
  have blk: "call_block ?K b1 p = (typed_reply, b1)" by (simp add: rec_api_def)
  from declared_call_round_trip [where introspection = True and objectmanager = True and junk = "\<lambda>_. NUL" and rv = "\<lambda>r. r",
      OF rec_srv.server_env_axioms sample_decl_ok(1) vals f rd d g echo_call(5) req typed_server0_fields(1)
      echo_call(3) typed_server0_routes typed_server0_fields(3) args cb]
  obtain w' where w': "handle_request True True ref_api ?K (\<lambda>_. NUL) typed_code echo_msg typed_server0 = Some (Inr Handled, w')"
    and all: "\<forall>p b1 rmsg b2. arrives snd (\<lambda>r. r) (response_msg ?K echo_msg (Some (g ?y))) rmsg \<longrightarrow>
       send_with_reply ?K (conn_of client0) (method_msg ?K (the_stub 0 client0) (cm_name echo0) (f ?x)) (helper_timeout client0) = (p, b1) \<longrightarrow>
       call_block ?K b1 p = (rmsg, b2) \<longrightarrow>
       (\<exists>c'. method_call ?K 0 echo0 False (f ?x) rd client0 = Some (Inr (call_result ?y), c'))"
    by fast
  from all [rule_format, OF reply snt blk] obtain c' where
    "method_call ?K 0 echo0 False (f ?x) rd client0 = Some (Inr (call_result ?y), c')" by blast
  with w' f rd show ?thesis by (auto simp: call_result_def)
qed

end
