(* ===== verification/PollLoop.thy ===== *)
theory PollLoop
  imports Dispatcher "HOL-Library.Signed_Division"
begin

text \<open>
  The dispatcher's main loop (\<open>src/dispatcher.cpp\<close>): the watches and timeouts libdbus asks the
  dispatcher to look after, \<open>poll\<close>, \<open>dispatch\<close>, \<open>step_ms\<close> and \<open>run\<close>. libdbus' watches and
  timeouts are numbers; what libdbus and the kernel say about them is a parameter.
\<close>

unbundle bit_operations_syntax

section \<open>Flags\<close>

text \<open>The constants of \<open>sys/poll.h\<close> and \<open>dbus/dbus-connection.h\<close>.\<close>

abbreviation "POLLIN \<equiv> 1 :: 16 word"
abbreviation "POLLOUT \<equiv> 4 :: 16 word"
abbreviation "POLLERR \<equiv> 8 :: 16 word"
abbreviation "POLLHUP \<equiv> 16 :: 16 word"

abbreviation "DBUS_WATCH_READABLE \<equiv> 1 :: 32 word"
abbreviation "DBUS_WATCH_WRITABLE \<equiv> 2 :: 32 word"
abbreviation "DBUS_WATCH_ERROR \<equiv> 4 :: 32 word"
abbreviation "DBUS_WATCH_HANGUP \<equiv> 8 :: 32 word"

definition make_poll_events :: "32 word \<Rightarrow> 16 word" where
  "make_poll_events flags =
     (if flags AND DBUS_WATCH_READABLE \<noteq> 0 then POLLIN else 0) OR
     (if flags AND DBUS_WATCH_WRITABLE \<noteq> 0 then POLLOUT else 0)"

definition make_dbus_flags :: "16 word \<Rightarrow> 32 word" where
  "make_dbus_flags ev =
     (if ev AND POLLIN \<noteq> 0 then DBUS_WATCH_READABLE else 0) OR
     (if ev AND POLLOUT \<noteq> 0 then DBUS_WATCH_WRITABLE else 0) OR
     (if ev AND POLLHUP \<noteq> 0 then DBUS_WATCH_HANGUP else 0) OR
     (if ev AND POLLERR \<noteq> 0 then DBUS_WATCH_ERROR else 0)"

section \<open>State\<close>

record pollfd =
  pf_fd :: int
  pf_events :: "16 word"
  pf_revents :: "16 word"

text \<open>What \<open>dbus_watch_get_*\<close> and \<open>dbus_timeout_get_*\<close> say.\<close>

record watch_info =
  w_fd :: int
  w_flags :: "32 word"
  w_enabled :: bool

record timeout_info =
  t_enabled :: bool
  t_interval :: int

text \<open>
  \<open>timeout_data\<close> is what \<open>dbus_timeout_set_data\<close> stored. Of the kernel: the timer descriptors
  that are open, and the period (seconds, nanoseconds) of those that are armed.
\<close>

record poller =
  fds :: "pollfd list"
  watch_handlers :: "(int \<times> nat) list"
  tm_handlers :: "int \<Rightarrow> nat option"
  timeout_data :: "nat \<Rightarrow> int"
  timer_fds :: "int set"
  armed :: "int \<Rightarrow> (int \<times> int) option"

section \<open>Watches\<close>

fun watches_emplace :: "int \<Rightarrow> nat \<Rightarrow> (int \<times> nat) list \<Rightarrow> (int \<times> nat) list" where
  "watches_emplace k w [] = [(k, w)]"
| "watches_emplace k w ((k', w') # m) = (if k < k' then (k, w) # (k', w') # m else (k', w') # watches_emplace k w m)"

definition watches_of :: "'x poller_scheme \<Rightarrow> int \<Rightarrow> nat list" where
  "watches_of p fd = map snd (filter (\<lambda>e. fst e = fd) (watch_handlers p))"

definition add_watch :: "(nat \<Rightarrow> watch_info) \<Rightarrow> nat \<Rightarrow> 'x poller_scheme \<Rightarrow> 'x poller_scheme" where
  "add_watch W w p =
     (let fd = w_fd (W w);
          p = (if w_enabled (W w)
               then p\<lparr>fds := fds p @ [\<lparr>pf_fd = fd, pf_events = make_poll_events (w_flags (W w)), pf_revents = 0\<rparr>]\<rparr>
               else p)
      in p\<lparr>watch_handlers := watches_emplace fd w (watch_handlers p)\<rparr>)"

text \<open>\<open>erase\<close> of the first element that \<open>find_if\<close> finds.\<close>

fun erase_first :: "('a \<Rightarrow> bool) \<Rightarrow> 'a list \<Rightarrow> 'a list" where
  "erase_first P [] = []"
| "erase_first P (x # xs) = (if P x then xs else x # erase_first P xs)"

definition remove_watch :: "(nat \<Rightarrow> watch_info) \<Rightarrow> nat \<Rightarrow> 'x poller_scheme \<Rightarrow> 'x poller_scheme" where
  "remove_watch W w p =
     (if w \<in> set (watches_of p (w_fd (W w))) then
        p\<lparr>fds := erase_first (\<lambda>pfd. w_fd (W w) = pf_fd pfd \<and> pf_revents pfd AND make_poll_events (w_flags (W w)) \<noteq> 0) (fds p),
          watch_handlers := erase_first (\<lambda>e. e = (w_fd (W w), w)) (watch_handlers p)\<rparr>
      else p)"

section \<open>Timeouts\<close>

text \<open>\<open>timerfd_settime\<close>: a null pointer is refused with \<open>EFAULT\<close>, a zero period disarms.\<close>

definition timerfd_settime :: "int \<Rightarrow> (int \<times> int) option \<Rightarrow> 'x poller_scheme \<Rightarrow> 'x poller_scheme" where
  "timerfd_settime fd spec p =
     (case spec of None \<Rightarrow> p
      | Some s \<Rightarrow> p\<lparr>armed := (armed p)(fd := if s = (0, 0) then None else Some s)\<rparr>)"

definition timer_spec :: "int \<Rightarrow> int \<times> int" where
  "timer_spec interval_ms = (interval_ms sdiv 1000, (interval_ms smod 1000) * 1000000)"

text \<open>
  \<open>fd\<close> is the descriptor \<open>timerfd_create\<close> returns, \<open>junk\<close> the content of the uninitialized
  \<open>revents\<close>.
\<close>

definition add_timeout ::
  "(nat \<Rightarrow> timeout_info) \<Rightarrow> int \<Rightarrow> 16 word \<Rightarrow> nat \<Rightarrow> 'x poller_scheme \<Rightarrow> 'x poller_scheme" where
  "add_timeout T fd junk t p =
     (let p = p\<lparr>timer_fds := insert fd (timer_fds p), armed := (armed p)(fd := None)\<rparr>;
          p = (if t_enabled (T t) then timerfd_settime fd (Some (timer_spec (t_interval (T t)))) p else p);
          p = p\<lparr>timeout_data := (timeout_data p)(t := fd)\<rparr>
      in p\<lparr>fds := fds p @ [\<lparr>pf_fd = fd, pf_events = POLLIN, pf_revents = junk\<rparr>],
           tm_handlers := (tm_handlers p)(fd := Some t)\<rparr>)"

definition close_timer :: "int \<Rightarrow> 'x poller_scheme \<Rightarrow> 'x poller_scheme" where
  "close_timer fd p = p\<lparr>timer_fds := timer_fds p - {fd}, armed := (armed p)(fd := None)\<rparr>"

definition remove_timeout :: "nat \<Rightarrow> 'x poller_scheme \<Rightarrow> 'x poller_scheme" where
  "remove_timeout t p =
     (case find (\<lambda>pfd. timeout_data p t = pf_fd pfd) (fds p) of
        None \<Rightarrow> p
      | Some pfd \<Rightarrow>
          close_timer (pf_fd pfd)
            (p\<lparr>tm_handlers := (tm_handlers p)(pf_fd pfd := None),
               fds := erase_first (\<lambda>pfd. timeout_data p t = pf_fd pfd) (fds p)\<rparr>))"

definition toggle_timeout :: "(nat \<Rightarrow> timeout_info) \<Rightarrow> nat \<Rightarrow> 'x poller_scheme \<Rightarrow> 'x poller_scheme" where
  "toggle_timeout T t p =
     (case find (\<lambda>pfd. timeout_data p t = pf_fd pfd) (fds p) of
        None \<Rightarrow> p
      | Some pfd \<Rightarrow>
          timerfd_settime (pf_fd pfd) (if t_enabled (T t) then Some (timer_spec (t_interval (T t))) else None) p)"

section \<open>poll\<close>

text \<open>
  What the loop calls in libdbus: the handlers may add and remove watches and timeouts. \<open>sys\<close>
  is the kernel's \<open>poll\<close>, which returns a count and fills in \<open>revents\<close>.
\<close>

record 's poll_handlers =
  watch_handle :: "nat \<Rightarrow> 32 word \<Rightarrow> ('s, unit) prog"
  timeout_handle :: "nat \<Rightarrow> ('s, unit) prog"

definition poll ::
  "(nat \<Rightarrow> watch_info) \<Rightarrow> 'x poller_scheme poll_handlers \<Rightarrow> (pollfd list \<Rightarrow> int \<Rightarrow> int \<times> pollfd list) \<Rightarrow> int
     \<Rightarrow> ('x poller_scheme, int) prog" where
  "poll W H sys timeout p =
     (if fds p = [] then pthrow UndefinedBehaviour p
      else case sys (fds p) timeout of (rc, fs) \<Rightarrow>
        let p = p\<lparr>fds := fs\<rparr> in
        if rc > 0 then
          (case find (\<lambda>pfd. pf_revents pfd \<noteq> 0) (fds p) of
             None \<Rightarrow> preturn 0 p
           | Some pfd \<Rightarrow>
               if watches_of p (pf_fd pfd) \<noteq> [] then
                 (case find (\<lambda>w. pf_revents pfd AND make_poll_events (w_flags (W w)) \<noteq> 0) (watches_of p (pf_fd pfd)) of
                    None \<Rightarrow> preturn 0 p
                  | Some w \<Rightarrow> pbind (watch_handle H w (make_dbus_flags (pf_revents pfd))) (\<lambda>_. preturn 0) p)
               else
                 (case tm_handlers p (pf_fd pfd) of
                    None \<Rightarrow> preturn 0 p
                  | Some t \<Rightarrow> pbind (timeout_handle H t) (\<lambda>_. preturn 0) p))
        else preturn 0 p)"

section \<open>The main loop\<close>

datatype dispatch_status = DataRemains | DispatchComplete | NeedMemory

text \<open>\<open>dispatch\<close>: \<open>one\<close> is \<open>dbus_connection_dispatch\<close>.\<close>

partial_function (option) dispatch :: "('s, dispatch_status) prog \<Rightarrow> 's \<Rightarrow> ((exn + unit) \<times> 's) option" where
  "dispatch one s = pbind one (\<lambda>rc s. if rc \<noteq> DispatchComplete then dispatch one s else preturn () s) s"

definition step_ms :: "(int \<Rightarrow> ('s, int) prog) \<Rightarrow> ('s, dispatch_status) prog \<Rightarrow> int \<Rightarrow> ('s, int) prog" where
  "step_ms poll1 one timeout_ms = pbind (poll1 timeout_ms) (\<lambda>_. pbind (dispatch one) (\<lambda>_. preturn 0))"

text \<open>\<open>run\<close>, where \<open>init\<close> sets the watch functions and \<open>set_running\<close> stores to the flag.\<close>

definition run ::
  "('s, unit) prog \<Rightarrow> (bool \<Rightarrow> 's \<Rightarrow> 's) \<Rightarrow> ('s \<Rightarrow> bool) \<Rightarrow> (int \<Rightarrow> ('s, int) prog) \<Rightarrow> ('s, dispatch_status) prog
     \<Rightarrow> ('s, int) prog" where
  "run init set_running is_running poll1 one =
     pbind init (\<lambda>_. pbind (pmodify (set_running True)) (\<lambda>_. run_loop (step_ms poll1 one 100) is_running))"

end
