(* ===== verification/PollCorrect.thy ===== *)
theory PollCorrect
  imports PollLoop
begin

text \<open>
  The main loop: whatever libdbus adds, removes and toggles, each watch that was enabled when it was
  added and each timeout is in the array handed to \<open>poll\<close>; timer periods; when \<open>dispatch\<close> and \<open>run\<close> return; and what a removed
  watch and a disabled timeout leave behind.
\<close>

section \<open>Flags and periods\<close>

lemma and_poll_bits:
  "(f :: 32 word) AND 1 = (if bit f 0 then 1 else 0)" "(f :: 32 word) AND 2 = (if bit f 1 then 2 else 0)"
  "(f :: 32 word) AND 3 = (if bit f 0 then 1 else 0) OR (if bit f 1 then 2 else 0)"
proof -
  show 1: "(f :: 32 word) AND 1 = (if bit f 0 then 1 else 0)"
    by (rule bit_eqI) (auto simp: bit_simps intro: gr0I)
  show 2: "(f :: 32 word) AND 2 = (if bit f 1 then 2 else 0)"
    by (rule bit_eqI) (auto simp: bit_simps)
  have "f AND 3 = (f AND 1) OR (f AND 2)" by (simp flip: bit.conj_disj_distrib)
  with 1 2 show "(f :: 32 word) AND 3 = (if bit f 0 then 1 else 0) OR (if bit f 1 then 2 else 0)" by simp
qed

text \<open>Converting the flags of a watch to poll events and back loses only errors and hang-ups.\<close>

lemma flags_round_trip: "make_dbus_flags (make_poll_events f) = f AND (DBUS_WATCH_READABLE OR DBUS_WATCH_WRITABLE)"
  by (simp add: make_dbus_flags_def make_poll_events_def and_poll_bits)

lemma timer_spec_exact:
  assumes "0 \<le> ms" and "timer_spec ms = (s, ns)"
  shows "s * 1000000000 + ns = ms * 1000000 \<and> 0 \<le> s \<and> 0 \<le> ns \<and> ns < 1000000000"
proof -
  have e: "s = ms div 1000" "ns = ms mod 1000 * 1000000"
    using assms by (auto simp: timer_spec_def signed_divide_int_def signed_modulo_int_def sgn_if)
  define q r where "q = ms div 1000" and "r = ms mod 1000"
  then have "ms = q * 1000 + r" "s = q" "ns = r * 1000000" "0 \<le> q" "0 \<le> r" "r < 1000"
    using e assms(1) by simp_all
  then show ?thesis by simp
qed

section \<open>Everything registered is polled\<close>

text \<open>The kernel reports an event only where it was asked for it.\<close>

definition reported_ok :: "pollfd \<Rightarrow> bool" where
  "reported_ok pfd \<longleftrightarrow> (\<forall>f. pf_revents pfd AND make_poll_events f \<noteq> 0 \<longrightarrow> pf_events pfd AND make_poll_events f \<noteq> 0)"

definition polled :: "'x poller_scheme \<Rightarrow> int \<Rightarrow> 16 word \<Rightarrow> bool" where
  "polled p fd ev \<longleftrightarrow> (\<exists>pfd \<in> set (fds p). pf_fd pfd = fd \<and> pf_events pfd = ev)"

text \<open>Watches on one descriptor wait for different events: one reads, one writes.\<close>

definition apart :: "(nat \<Rightarrow> watch_info) \<Rightarrow> nat \<Rightarrow> nat \<Rightarrow> bool" where
  "apart W v w \<longleftrightarrow> (w_fd (W v) = w_fd (W w) \<longrightarrow> make_poll_events (w_flags (W v)) AND make_poll_events (w_flags (W w)) = 0)"

text \<open>\<open>A\<close> are the watches that were enabled when libdbus added them.\<close>

definition watches_polled :: "(nat \<Rightarrow> watch_info) \<Rightarrow> nat set \<Rightarrow> 'x poller_scheme \<Rightarrow> bool" where
  "watches_polled W A p \<longleftrightarrow> (\<forall>(fd, w) \<in> set (watch_handlers p). fd = w_fd (W w) \<and> fd \<notin> timer_fds p \<and>
     (w \<in> A \<longrightarrow> polled p fd (make_poll_events (w_flags (W w)))) \<and>
     (\<forall>v \<in> snd ` set (watch_handlers p). v \<noteq> w \<longrightarrow> apart W v w)) \<and> distinct (map snd (watch_handlers p))"

definition timeouts_polled :: "'x poller_scheme \<Rightarrow> bool" where
  "timeouts_polled p \<longleftrightarrow>
     (\<forall>fd t. tm_handlers p fd = Some t \<longrightarrow> fd \<in> timer_fds p \<and> timeout_data p t = fd \<and> polled p fd POLLIN) \<and>
     distinct (map pf_fd (filter (\<lambda>pfd. pf_fd pfd \<in> timer_fds p) (fds p)))"

definition poll_inv :: "(nat \<Rightarrow> watch_info) \<Rightarrow> nat set \<Rightarrow> 'x poller_scheme \<Rightarrow> bool" where
  "poll_inv W A p \<longleftrightarrow> watches_polled W A p \<and> timeouts_polled p \<and>
     (\<forall>pfd \<in> set (fds p). pf_fd pfd \<in> timer_fds p \<or> reported_ok pfd)"

text \<open>
  What libdbus and the kernel may do next. \<open>timerfd_create\<close> returns a descriptor that is not in
  use, also not by an entry that a removed watch left behind.
\<close>

definition kernel_fills :: "pollfd list \<Rightarrow> pollfd list \<Rightarrow> bool" where
  "kernel_fills fs fs' \<longleftrightarrow> map (\<lambda>pfd. (pf_fd pfd, pf_events pfd)) fs' = map (\<lambda>pfd. (pf_fd pfd, pf_events pfd)) fs \<and>
     list_all reported_ok fs'"

text \<open>
  A state is what \<open>dbus_watch_get_*\<close> and \<open>dbus_timeout_get_*\<close> say, the watches that were enabled when
  they were added, and the poller. libdbus enables and disables its watches as it likes: no
  callback is installed for that (\<open>init\<close> passes a null pointer for \<open>toggle_watch\<close>), so the
  dispatcher does not notice. It does install \<open>toggle_timeout\<close>, which runs after a timeout has changed.
\<close>

type_synonym 'p poll_state = "(nat \<Rightarrow> watch_info) \<times> (nat \<Rightarrow> timeout_info) \<times> nat set \<times> 'p"

inductive poll_step :: "'x poller_scheme poll_state \<Rightarrow> 'x poller_scheme poll_state \<Rightarrow> bool" where
  add_watch: "w_fd (W w) \<notin> timer_fds p \<Longrightarrow> \<forall>v \<in> snd ` set (watch_handlers p). v \<noteq> w \<and> apart W v w \<and> apart W w v \<Longrightarrow>
    poll_step (W, T, A, p) (W, T, if w_enabled (W w) then insert w A else A - {w}, add_watch W w p)"
| remove_watch: "poll_step (W, T, A, p) (W, T, A, remove_watch W w p)"
| enable_watch: "poll_step (W, T, A, p) (W(w := W w\<lparr>w_enabled := b\<rparr>), T, A, p)"
| add_timeout: "fd \<notin> pf_fd ` set (fds p) \<Longrightarrow> fd \<notin> fst ` set (watch_handlers p) \<Longrightarrow> \<forall>fd. tm_handlers p fd \<noteq> Some t \<Longrightarrow>
    poll_step (W, T, A, p) (W, T, A, add_timeout T fd junk t p)"
| remove_timeout: "tm_handlers p fd = Some t \<Longrightarrow> poll_step (W, T, A, p) (W, T, A, remove_timeout t p)"
| toggle_timeout: "T' = T(t := \<lparr>t_enabled = b, t_interval = ms\<rparr>) \<Longrightarrow>
    poll_step (W, T, A, p) (W, T', A, toggle_timeout T' t p)"
| kernel: "kernel_fills (fds p) fs \<Longrightarrow> poll_step (W, T, A, p) (W, T, A, p\<lparr>fds := fs\<rparr>)"

lemma watches_emplace_set: "set (watches_emplace k w m) = insert (k, w) (set m)"
  by (induction k w m rule: watches_emplace.induct) auto

lemma watches_emplace_distinct: "distinct (map snd (watches_emplace k w m)) \<longleftrightarrow> w \<notin> snd ` set m \<and> distinct (map snd m)"
  by (induction k w m rule: watches_emplace.induct) (auto simp: watches_emplace_set)

lemma erase_first_eq: "distinct xs \<Longrightarrow> a \<in> set xs \<Longrightarrow> erase_first (\<lambda>x. x = a) xs = remove1 a xs"
  by (induction xs) auto

lemma erase_first_keeps: "x \<in> set xs \<Longrightarrow> \<not> P x \<Longrightarrow> x \<in> set (erase_first P xs)"
  by (induction xs) auto

lemma erase_first_subset: "set (erase_first P xs) \<subseteq> set xs"
  by (induction xs) auto

lemma erase_first_distinct:
  "distinct (map f (filter Q xs)) \<Longrightarrow> distinct (map f (filter Q (erase_first P xs)))"
proof (induction xs)
  case (Cons x xs)
  have "f ` {y \<in> set (erase_first P xs). Q y} \<subseteq> f ` {y \<in> set xs. Q y}"
    using erase_first_subset [of P xs] by blast
  with Cons show ?case by (auto simp: subset_iff)
qed simp

lemma erase_first_gone:
  "distinct (map f (filter (\<lambda>x. f x \<in> S) xs)) \<Longrightarrow> a \<in> S \<Longrightarrow> a \<notin> f ` set (erase_first (\<lambda>x. a = f x) xs)"
  by (induction xs) (auto split: if_splits)

lemma polled_simps [simp]:
  "polled (p\<lparr>watch_handlers := x\<rparr>) = polled p" "polled (p\<lparr>tm_handlers := y\<rparr>) = polled p"
  "polled (p\<lparr>timeout_data := z\<rparr>) = polled p" "polled (p\<lparr>timer_fds := u\<rparr>) = polled p" "polled (p\<lparr>armed := v\<rparr>) = polled p"
  by (simp_all add: polled_def fun_eq_iff)

lemma add_watch_inv:
  assumes I: "poll_inv W A p" and w: "w_fd (W w) \<notin> timer_fds p"
    and new: "\<forall>v \<in> snd ` set (watch_handlers p). v \<noteq> w \<and> apart W v w \<and> apart W w v"
  shows "poll_inv W (if w_enabled (W w) then insert w A else A - {w}) (add_watch W w p)"
proof -
  let ?p = "add_watch W w p" and ?A = "if w_enabled (W w) then insert w A else A - {w}"
  have d: "distinct (map snd (watch_handlers ?p))"
    using I new by (auto simp: add_watch_def Let_def watches_emplace_distinct poll_inv_def watches_polled_def)
  have f: "set (watch_handlers ?p) = insert (w_fd (W w), w) (set (watch_handlers p))" "timer_fds ?p = timer_fds p"
    "tm_handlers ?p = tm_handlers p" "timeout_data ?p = timeout_data p"
    "fds ?p = fds p @ (if w_enabled (W w)
      then [\<lparr>pf_fd = w_fd (W w), pf_events = make_poll_events (w_flags (W w)), pf_revents = 0\<rparr>] else [])"
    by (auto simp: add_watch_def Let_def watches_emplace_set)
  have mono: "polled p fd ev \<Longrightarrow> polled ?p fd ev" for fd ev by (auto simp: polled_def f)
  have "w_enabled (W w) \<Longrightarrow> polled ?p (w_fd (W w)) (make_poll_events (w_flags (W w)))" by (simp add: polled_def f)
  then have "watches_polled W ?A ?p"
    using I new w d by (auto simp: poll_inv_def watches_polled_def f intro: mono)
  moreover have "timeouts_polled ?p" using I w by (auto simp: poll_inv_def timeouts_polled_def f intro: mono)
  moreover have "\<forall>pfd \<in> set (fds ?p). pf_fd pfd \<in> timer_fds ?p \<or> reported_ok pfd"
    using I by (auto simp: poll_inv_def f reported_ok_def)
  ultimately show ?thesis by (simp add: poll_inv_def)
qed

lemma watch_no_timer: "poll_inv W A p \<Longrightarrow> fd \<in> fst ` set (watch_handlers p) \<Longrightarrow> fd \<notin> timer_fds p"
  by (auto simp: poll_inv_def watches_polled_def)

lemma registered_timeout:
  "poll_inv W A p \<Longrightarrow> tm_handlers p fd = Some t \<Longrightarrow> fd \<in> timer_fds p \<and> timeout_data p t = fd \<and> polled p fd POLLIN"
  by (simp add: poll_inv_def timeouts_polled_def)

lemma watches_polled_mono:
  assumes P: "watches_polled W A p" and h: "watch_handlers q = watch_handlers p"
    and n: "\<And>fd. fd \<in> fst ` set (watch_handlers p) \<Longrightarrow> fd \<notin> timer_fds q"
    and m: "\<And>fd ev. fd \<in> fst ` set (watch_handlers p) \<Longrightarrow> polled p fd ev \<Longrightarrow> polled q fd ev"
  shows "watches_polled W A q"
  unfolding watches_polled_def h
proof (intro conjI ballI, clarify)
  fix fd w assume w: "(fd, w) \<in> set (watch_handlers p)"
  then have "fd \<in> fst ` set (watch_handlers p)" by force
  with P w n m show "fd = w_fd (W w) \<and> fd \<notin> timer_fds q \<and>
      (w \<in> A \<longrightarrow> polled q fd (make_poll_events (w_flags (W w)))) \<and>
      (\<forall>v \<in> snd ` set (watch_handlers p). v \<noteq> w \<longrightarrow> apart W v w)"
    unfolding watches_polled_def by fast
next
  show "distinct (map snd (watch_handlers p))" using P by (simp add: watches_polled_def)
qed

lemma remove_watch_inv:
  assumes I: "poll_inv W A p"
  shows "poll_inv W A (remove_watch W w p)"
proof (cases "w \<in> set (watches_of p (w_fd (W w)))")
  case True
  let ?p = "remove_watch W w p" and ?fd = "w_fd (W w)" and ?ev = "make_poll_events (w_flags (W w))"
  let ?P = "\<lambda>pfd. ?fd = pf_fd pfd \<and> pf_revents pfd AND ?ev \<noteq> 0"
  have f: "fds ?p = erase_first ?P (fds p)" "set (watch_handlers ?p) \<subseteq> set (watch_handlers p)"
    "timer_fds ?p = timer_fds p" "tm_handlers ?p = tm_handlers p" "timeout_data ?p = timeout_data p"
    using True erase_first_subset [of "\<lambda>e. e = (?fd, w)" "watch_handlers p"] by (simp_all add: remove_watch_def)
  have w: "(?fd, w) \<in> set (watch_handlers p)" using True by (auto simp: watches_of_def)
  have nt: "?fd \<notin> timer_fds p" using I w by (auto simp: poll_inv_def watches_polled_def)
  have keep: "polled ?p fd ev" if "polled p fd ev" "fd \<noteq> ?fd \<or> ev AND ?ev = 0" for fd ev
  proof -
    from that(1) obtain x where x: "x \<in> set (fds p)" "pf_fd x = fd" "pf_events x = ev" by (auto simp: polled_def)
    have "\<not> ?P x"
    proof
      assume P: "?P x"
      with nt I x have "reported_ok x" by (auto simp: poll_inv_def)
      with P have "pf_events x AND ?ev \<noteq> 0" by (auto simp: reported_ok_def)
      with P x that(2) show False by simp
    qed
    with erase_first_keeps [OF x(1), of ?P] x show ?thesis by (auto simp: polled_def f)
  qed
  have dist: "distinct (map snd (watch_handlers p))" using I by (simp add: poll_inv_def watches_polled_def)
  have dl: "distinct (watch_handlers p)" using dist by (simp add: distinct_map)
  have h: "watch_handlers ?p = remove1 (?fd, w) (watch_handlers p)"
    using True erase_first_eq [OF dl w] by (simp add: remove_watch_def)
  have "distinct (map snd (watch_handlers ?p))"
    using dist unfolding h distinct_map by (auto intro: inj_on_subset dest: notin_set_remove1)
  moreover have "fd = w_fd (W v) \<and> fd \<notin> timer_fds ?p \<and>
      (v \<in> A \<longrightarrow> polled ?p fd (make_poll_events (w_flags (W v)))) \<and>
      (\<forall>u \<in> snd ` set (watch_handlers ?p). u \<noteq> v \<longrightarrow> apart W u v)"
    if v: "(fd, v) \<in> set (watch_handlers ?p)" for fd v
  proof -
    have v': "(fd, v) \<in> set (watch_handlers p)" using v f(2) by blast
    have "v \<noteq> w"
      using v v' w dl I by (auto simp: h set_remove1_eq poll_inv_def watches_polled_def)
    with I v' w have a: "fd = w_fd (W v)" "fd \<notin> timer_fds p" "v \<in> A \<longrightarrow> polled p fd (make_poll_events (w_flags (W v)))"
      "\<forall>u \<in> snd ` set (watch_handlers p). u \<noteq> v \<longrightarrow> apart W u v" "apart W v w"
      by (force simp: poll_inv_def watches_polled_def)+
    from a(1,5) have "fd \<noteq> ?fd \<or> make_poll_events (w_flags (W v)) AND ?ev = 0" by (auto simp: apart_def)
    with keep a f(2,3) show ?thesis by blast
  qed
  ultimately have "watches_polled W A ?p" by (auto simp: watches_polled_def)
  moreover have "timeouts_polled ?p"
  proof -
    have "fd \<in> timer_fds ?p \<and> timeout_data ?p t = fd \<and> polled ?p fd POLLIN" if "tm_handlers ?p fd = Some t" for fd t
    proof -
      from that registered_timeout [OF I] have a: "fd \<in> timer_fds p" "timeout_data p t = fd" "polled p fd POLLIN"
        by (simp_all add: f)
      with nt have "fd \<noteq> ?fd" by auto
      with a keep show ?thesis by (simp add: f)
    qed
    moreover have "distinct (map pf_fd (filter (\<lambda>pfd. pf_fd pfd \<in> timer_fds p) (fds p)))"
      using I by (simp add: poll_inv_def timeouts_polled_def)
    ultimately show ?thesis using erase_first_distinct by (simp add: timeouts_polled_def f)
  qed
  moreover have "\<forall>pfd \<in> set (fds ?p). pf_fd pfd \<in> timer_fds ?p \<or> reported_ok pfd"
    using I erase_first_subset [of ?P "fds p"] by (auto simp: poll_inv_def f)
  ultimately show ?thesis by (simp add: poll_inv_def)
next
  case False
  with I show ?thesis by (simp add: remove_watch_def)
qed

lemma add_timeout_inv:
  assumes I: "poll_inv W A p" and "fd \<notin> pf_fd ` set (fds p)" "fd \<notin> fst ` set (watch_handlers p)" "\<forall>fd. tm_handlers p fd \<noteq> Some t"
  shows "poll_inv W A (add_timeout T fd junk t p)"
proof -
  let ?p = "add_timeout T fd junk t p"
  have f: "fds ?p = fds p @ [\<lparr>pf_fd = fd, pf_events = POLLIN, pf_revents = junk\<rparr>]" "watch_handlers ?p = watch_handlers p"
    "timer_fds ?p = insert fd (timer_fds p)" "tm_handlers ?p = (tm_handlers p)(fd := Some t)"
    "timeout_data ?p = (timeout_data p)(t := fd)"
    by (auto simp: add_timeout_def Let_def timerfd_settime_def)
  have mono: "polled p fd ev \<Longrightarrow> polled ?p fd ev" for fd ev by (auto simp: polled_def f)
  have P: "watches_polled W A p" using I by (simp add: poll_inv_def)
  have nt: "fd' \<notin> timer_fds ?p" if w: "fd' \<in> fst ` set (watch_handlers p)" for fd'
    using watch_no_timer [OF I w] w assms(3) by (auto simp: f)
  have "watches_polled W A ?p" by (rule watches_polled_mono [OF P f(2) nt mono])
  moreover have "timeouts_polled ?p"
  proof -
    have "filter (\<lambda>pfd. pf_fd pfd \<in> insert fd (timer_fds p)) (fds p) = filter (\<lambda>pfd. pf_fd pfd \<in> timer_fds p) (fds p)"
      using assms(2) by (intro filter_cong) auto
    then have "distinct (map pf_fd (filter (\<lambda>pfd. pf_fd pfd \<in> timer_fds ?p) (fds ?p)))"
      using I assms(2) by (auto simp: f poll_inv_def timeouts_polled_def)
    moreover have "polled ?p fd POLLIN" by (simp add: polled_def f)
    moreover have "fd' \<in> timer_fds ?p \<and> timeout_data ?p t' = fd' \<and> polled ?p fd' POLLIN"
      if "tm_handlers ?p fd' = Some t'" for fd' t'
    proof (cases "fd' = fd")
      case False
      with that have h: "tm_handlers p fd' = Some t'" by (simp add: f)
      with assms(4) have "t' \<noteq> t" by auto
      with registered_timeout [OF I h] mono show ?thesis by (simp add: f)
    next
      case True
      with that have e: "t' = t" by (simp add: f)
      show ?thesis unfolding e True using \<open>polled ?p fd POLLIN\<close> by (simp add: f)
    qed
    ultimately show ?thesis by (simp add: timeouts_polled_def)
  qed
  moreover have "\<forall>pfd \<in> set (fds ?p). pf_fd pfd \<in> timer_fds ?p \<or> reported_ok pfd" using I by (auto simp: f poll_inv_def)
  ultimately show ?thesis by (simp add: poll_inv_def)
qed

lemma find_Some_holds: "find P xs = Some x \<Longrightarrow> x \<in> set xs \<and> P x"
  by (auto simp: find_Some_iff)

lemma remove_timeout_inv:
  assumes I: "poll_inv W A p" and t: "tm_handlers p fd = Some t"
  shows "poll_inv W A (remove_timeout t p)"
proof -
  let ?p = "remove_timeout t p" and ?P = "\<lambda>pfd. fd = pf_fd pfd"
  from I t have d: "fd \<in> timer_fds p" "timeout_data p t = fd" "polled p fd POLLIN"
    by (auto simp: poll_inv_def timeouts_polled_def)
  obtain x where x: "find ?P (fds p) = Some x"
    using d(3) by (cases "find ?P (fds p)") (auto simp: polled_def find_None_iff)
  then have "pf_fd x = fd" using find_Some_holds by fastforce
  with x d have f: "fds ?p = erase_first ?P (fds p)" "watch_handlers ?p = watch_handlers p"
    "timer_fds ?p = timer_fds p - {fd}" "tm_handlers ?p = (tm_handlers p)(fd := None)" "timeout_data ?p = timeout_data p"
    by (simp_all add: remove_timeout_def close_timer_def)
  have dist: "distinct (map pf_fd (filter (\<lambda>pfd. pf_fd pfd \<in> timer_fds p) (fds p)))"
    using I by (simp add: poll_inv_def timeouts_polled_def)
  have gone: "fd \<notin> pf_fd ` set (fds ?p)" using erase_first_gone [OF dist d(1)] by (simp add: f)
  have keep: "polled ?p fd' ev" if "polled p fd' ev" "fd' \<noteq> fd" for fd' ev
    using that erase_first_keeps [of _ "fds p" ?P] by (auto simp: polled_def f)
  have P: "watches_polled W A p" using I by (simp add: poll_inv_def)
  have "fd' \<notin> timer_fds ?p" "polled p fd' ev \<Longrightarrow> polled ?p fd' ev" if w: "fd' \<in> fst ` set (watch_handlers p)" for fd' ev
    using watch_no_timer [OF I w] d(1) keep by (auto simp: f)
  with P f(2) have "watches_polled W A ?p" by (rule watches_polled_mono)
  moreover have "timeouts_polled ?p"
  proof -
    have "filter (\<lambda>pfd. pf_fd pfd \<in> timer_fds p - {fd}) (fds ?p) = filter (\<lambda>pfd. pf_fd pfd \<in> timer_fds p) (fds ?p)"
      using gone by (intro filter_cong) auto
    then have "distinct (map pf_fd (filter (\<lambda>pfd. pf_fd pfd \<in> timer_fds ?p) (fds ?p)))"
      using erase_first_distinct [OF dist] by (simp add: f)
    moreover have "fd' \<in> timer_fds ?p \<and> timeout_data ?p t' = fd' \<and> polled ?p fd' POLLIN"
      if h: "tm_handlers ?p fd' = Some t'" for fd' t'
    proof -
      from h have "fd' \<noteq> fd" "tm_handlers p fd' = Some t'" by (auto simp: f split: if_splits)
      with registered_timeout [OF I] keep show ?thesis by (simp add: f)
    qed
    ultimately show ?thesis by (simp add: timeouts_polled_def)
  qed
  moreover have "\<forall>pfd \<in> set (fds ?p). pf_fd pfd \<in> timer_fds ?p \<or> reported_ok pfd"
    using I gone erase_first_subset [of ?P "fds p"] by (auto simp: f poll_inv_def)
  ultimately show ?thesis by (simp add: poll_inv_def)
qed

lemma same_table_inv:
  assumes I: "poll_inv W A p"
    and e: "map (\<lambda>pfd. (pf_fd pfd, pf_events pfd)) (fds q) = map (\<lambda>pfd. (pf_fd pfd, pf_events pfd)) (fds p)"
    and s: "watch_handlers q = watch_handlers p" "timer_fds q = timer_fds p" "tm_handlers q = tm_handlers p"
      "timeout_data q = timeout_data p"
    and r: "list_all reported_ok (fds q) \<or> fds q = fds p"
  shows "poll_inv W A q"
proof -
  have p: "polled q fd ev = polled p fd ev" for fd ev
    using arg_cong [OF e, of "\<lambda>xs. (fd, ev) \<in> set xs"] by (auto simp: polled_def image_iff Bex_def)
  have m: "map pf_fd (filter (\<lambda>pfd. pf_fd pfd \<in> S) xs) = filter (\<lambda>fd. fd \<in> S) (map fst (map (\<lambda>pfd. (pf_fd pfd, pf_events pfd)) xs))"
    for S and xs :: "pollfd list"
    by (induction xs) auto
  have "map pf_fd (filter (\<lambda>pfd. pf_fd pfd \<in> S) (fds q)) = map pf_fd (filter (\<lambda>pfd. pf_fd pfd \<in> S) (fds p))" for S
    unfolding m e ..
  with I p s r show ?thesis
    by (auto simp: poll_inv_def watches_polled_def timeouts_polled_def list_all_iff)
qed

lemma enable_watch_inv: "poll_inv W A p \<Longrightarrow> poll_inv (W(w := W w\<lparr>w_enabled := b\<rparr>)) A p"
  by (auto simp: poll_inv_def watches_polled_def apart_def)

lemma poll_step_inv:
  assumes "poll_step s s'" and "case s of (W, T, A, p) \<Rightarrow> poll_inv W A p"
  shows "case s' of (W, T, A, p) \<Rightarrow> poll_inv W A p"
  using assms
proof cases
  case (add_watch W w p T A)
  with assms(2) add_watch_inv [of W A p w] show ?thesis by simp
next
  case (toggle_timeout T' T t b ms W A p)
  with assms(2) show ?thesis
    by (auto elim!: same_table_inv simp: toggle_timeout_def timerfd_settime_def split: option.splits)
next
  case (kernel p fs W T A)
  with assms(2) show ?thesis by (auto elim!: same_table_inv simp: kernel_fills_def)
qed (use assms(2) in \<open>simp_all add: remove_watch_inv add_timeout_inv remove_timeout_inv enable_watch_inv\<close>)

definition nothing_registered :: "'x poller_scheme \<Rightarrow> bool" where
  "nothing_registered p \<longleftrightarrow> fds p = [] \<and> watch_handlers p = [] \<and> tm_handlers p = Map.empty"

text \<open>
  C25. Whatever watches and timeouts libdbus adds and removes, whatever it enables, disables and
  toggles, and whatever the kernel reports in between: each watch in use that was enabled when
  libdbus added it and each timeout in use has its entry, with the events it waits for, in the array the
  loop hands to \<open>poll\<close>, and the timers of two timeouts are different descriptors. (A watch that libdbus
  enables only later may have none, see below.)
\<close>

theorem registered_is_polled:
  assumes "poll_step\<^sup>*\<^sup>* (W0, T0, {}, p0) (W, T, A, p)" and "nothing_registered p0"
  shows "(\<forall>(fd, w) \<in> set (watch_handlers p). fd = w_fd (W w) \<and>
      (w \<in> A \<longrightarrow> (\<exists>pfd \<in> set (fds p). pf_fd pfd = fd \<and> pf_events pfd = make_poll_events (w_flags (W w))))) \<and>
    (\<forall>fd t. tm_handlers p fd = Some t \<longrightarrow> fd \<in> timer_fds p \<and> timeout_data p t = fd \<and>
      (\<exists>pfd \<in> set (fds p). pf_fd pfd = fd \<and> pf_events pfd = POLLIN))"
proof -
  have "case s of (W, T, A, p) \<Rightarrow> poll_inv W A p" if "poll_step\<^sup>*\<^sup>* (W0, T0, {}, p0) s" for s
    using that
  proof induction
    case base
    show ?case
      using assms(2) by (simp add: nothing_registered_def poll_inv_def watches_polled_def timeouts_polled_def)
  qed (rule poll_step_inv)
  from this [OF assms(1)] have I: "poll_inv W A p" by simp
  then have "\<forall>(fd, w) \<in> set (watch_handlers p). fd = w_fd (W w) \<and> (w \<in> A \<longrightarrow> polled p fd (make_poll_events (w_flags (W w))))"
    by (auto simp: poll_inv_def watches_polled_def)
  with registered_timeout [OF I] show ?thesis by (simp add: polled_def)
qed

text \<open>A read watch and a write watch on descriptor 5, and a timeout.\<close>

definition W0 :: "nat \<Rightarrow> watch_info" where
  "W0 w = \<lparr>w_fd = 5, w_flags = (if w = 0 then DBUS_WATCH_READABLE else DBUS_WATCH_WRITABLE), w_enabled = True\<rparr>"

definition T0 :: "nat \<Rightarrow> timeout_info" where
  "T0 t = \<lparr>t_enabled = True, t_interval = 1500\<rparr>"

definition poller0 :: poller where
  "poller0 = \<lparr>fds = [], watch_handlers = [], tm_handlers = Map.empty, timeout_data = (\<lambda>_. 0), timer_fds = {},
     armed = (\<lambda>_. None)\<rparr>"

definition poller1 :: poller where
  "poller1 = add_timeout T0 9 0 0 (add_watch W0 1 (add_watch W0 0 poller0))"

lemma runs_to_poller1: "poll_step\<^sup>*\<^sup>* (W0, T0, {}, poller0) (W0, T0, {0, 1}, poller1)"
proof -
  have "poll_step (W0, T0, {}, poller0) (W0, T0, if w_enabled (W0 0) then insert 0 {} else {} - {0}, add_watch W0 0 poller0)"
    by (rule poll_step.add_watch) (simp_all add: poller0_def)
  moreover have "poll_step (W0, T0, {0}, add_watch W0 0 poller0)
      (W0, T0, if w_enabled (W0 1) then insert 1 {0} else {0} - {1}, add_watch W0 1 (add_watch W0 0 poller0))"
    by (rule poll_step.add_watch)
      (simp_all add: poller0_def add_watch_def Let_def W0_def apart_def make_poll_events_def)
  moreover have "poll_step (W0, T0, {0, 1}, add_watch W0 1 (add_watch W0 0 poller0)) (W0, T0, {0, 1}, poller1)"
    unfolding poller1_def
    by (rule poll_step.add_timeout) (simp_all add: poller0_def add_watch_def Let_def W0_def)
  moreover have "w_enabled (W0 w)" for w by (simp add: W0_def)
  ultimately show ?thesis
    by (simp add: insert_commute)
qed

theorem registered_is_polled_witness:
  "tm_handlers poller1 9 = Some 0 \<and> (\<exists>pfd \<in> set (fds poller1). pf_fd pfd = 9 \<and> pf_events pfd = POLLIN) \<and>
   (\<exists>pfd \<in> set (fds poller1). pf_fd pfd = 5 \<and> pf_events pfd = POLLOUT)"
proof -
  have t: "tm_handlers poller1 9 = Some 0" by (simp add: poller1_def add_timeout_def Let_def)
  have w: "(5, 1) \<in> set (watch_handlers poller1)"
    by (simp add: poller1_def add_timeout_def add_watch_def Let_def W0_def poller0_def timerfd_settime_def T0_def)
  have "nothing_registered poller0" by (simp add: nothing_registered_def poller0_def)
  note r = registered_is_polled [OF runs_to_poller1 this]
  from bspec [OF conjunct1 [OF r] w] have "\<exists>pfd \<in> set (fds poller1). pf_fd pfd = 5 \<and> pf_events pfd = POLLOUT"
    by (simp add: W0_def make_poll_events_def)
  with r t show ?thesis by blast
qed

text \<open>
  A watch that is disabled when libdbus adds it and enabled later is registered and enabled, but
  its descriptor is not polled: nobody tells the dispatcher.
\<close>

theorem enabled_later_not_polled:
  assumes "\<not> w_enabled (W w)" and "w_fd (W w) \<notin> pf_fd ` set (fds p)" and "w_fd (W w) \<notin> timer_fds p"
    and "\<forall>v \<in> snd ` set (watch_handlers p). v \<noteq> w \<and> apart W v w \<and> apart W w v"
  shows "\<exists>W' A' q. poll_step\<^sup>*\<^sup>* (W, T, A, p) (W', T, A', q) \<and> (w_fd (W' w), w) \<in> set (watch_handlers q) \<and>
    w_enabled (W' w) \<and> w_fd (W' w) \<notin> pf_fd ` set (fds q)"
proof -
  let ?W = "W(w := W w\<lparr>w_enabled := True\<rparr>)" and ?q = "add_watch W w p"
  have "poll_step (W, T, A, p) (W, T, if w_enabled (W w) then insert w A else A - {w}, ?q)"
    by (rule poll_step.add_watch [OF assms(3,4)])
  with assms(1) have "poll_step\<^sup>*\<^sup>* (W, T, A, p) (?W, T, A - {w}, ?q)"
    using poll_step.enable_watch [of W T "A - {w}" ?q w True]
    by (simp only: if_False)
  moreover have "fds ?q = fds p" "(w_fd (W w), w) \<in> set (watch_handlers ?q)"
    using assms(1) by (simp_all add: add_watch_def Let_def watches_emplace_set)
  ultimately show ?thesis
    using assms(2) by (intro exI [of _ ?W] exI [of _ "A - {w}"] exI [of _ ?q]) simp
qed

section \<open>Timeouts\<close>

lemma erase_first_append: "\<forall>x \<in> set xs. \<not> P x \<Longrightarrow> erase_first P (xs @ ys) = xs @ erase_first P ys"
  by (induction xs) auto

lemma find_append_not: "\<forall>x \<in> set xs. \<not> P x \<Longrightarrow> find P (xs @ ys) = find P ys"
  by (induction xs) auto

text \<open>
  A timeout's life. Adding an enabled timeout arms a new timer descriptor with a period of
  exactly the interval (an interval of 0 leaves it disarmed) and polls it for input; removing
  the timeout closes the descriptor and restores the table, the handlers and the timers.
\<close>

theorem timeout_life:
  assumes "t_enabled (T t)" and "0 \<le> t_interval (T t)" and "fd \<notin> pf_fd ` set (fds p)" and "fd \<notin> timer_fds p"
    and "tm_handlers p fd = None" and "armed p fd = None"
  shows "let q = add_timeout T fd junk t p; r = remove_timeout t q in
    (\<exists>sec nsec. armed q fd = (if t_interval (T t) = 0 then None else Some (sec, nsec)) \<and>
      sec * 1000000000 + nsec = t_interval (T t) * 1000000 \<and> 0 \<le> sec \<and> 0 \<le> nsec \<and> nsec < 1000000000) \<and>
    tm_handlers q fd = Some t \<and> (\<exists>pfd \<in> set (fds q). pf_fd pfd = fd \<and> pf_events pfd = POLLIN) \<and>
    fds r = fds p \<and> tm_handlers r = tm_handlers p \<and> armed r = armed p \<and> timer_fds r = timer_fds p"
proof -
  let ?q = "add_timeout T fd junk t p" and ?e = "\<lparr>pf_fd = fd, pf_events = POLLIN, pf_revents = junk\<rparr>"
  obtain sec nsec where s: "timer_spec (t_interval (T t)) = (sec, nsec)" by (cases "timer_spec (t_interval (T t))")
  note ex = timer_spec_exact [OF assms(2) s]
  have "sec = 0 \<and> nsec = 0" if "t_interval (T t) = 0" using ex unfolding that by linarith
  moreover have "t_interval (T t) = 0" if "sec = 0 \<and> nsec = 0" using ex that by simp
  ultimately have z: "(sec, nsec) = (0, 0) \<longleftrightarrow> t_interval (T t) = 0" by blast
  have q: "fds ?q = fds p @ [?e]" "tm_handlers ?q = (tm_handlers p)(fd := Some t)" "timeout_data ?q t = fd"
    "timer_fds ?q = insert fd (timer_fds p)"
    "armed ?q = (armed p)(fd := if t_interval (T t) = 0 then None else Some (sec, nsec))"
    using assms(1) z s by (auto simp: add_timeout_def Let_def timerfd_settime_def)
  have n: "\<forall>x \<in> set (fds p). \<not> fd = pf_fd x" using assms(3) by auto
  have r: "remove_timeout t ?q = close_timer fd (?q\<lparr>tm_handlers := (tm_handlers p)(fd := None), fds := fds p\<rparr>)"
    by (simp add: remove_timeout_def q find_append_not [OF n] erase_first_append [OF n])
  have "(armed p)(fd := None) = armed p" "(tm_handlers p)(fd := None) = tm_handlers p" "timer_fds p - {fd} = timer_fds p"
    using assms(4-6) by (simp_all add: fun_upd_idem_iff)
  with r q have "fds (remove_timeout t ?q) = fds p" "tm_handlers (remove_timeout t ?q) = tm_handlers p"
    "armed (remove_timeout t ?q) = armed p" "timer_fds (remove_timeout t ?q) = timer_fds p"
    by (simp_all add: close_timer_def)
  moreover have "armed ?q fd = (if t_interval (T t) = 0 then None else Some (sec, nsec))" using q(5) by simp
  moreover have "tm_handlers ?q fd = Some t" "\<exists>pfd \<in> set (fds ?q). pf_fd pfd = fd \<and> pf_events pfd = POLLIN"
    by (simp_all add: q)
  ultimately show ?thesis using ex unfolding Let_def by blast
qed

theorem timeout_life_witness:
  "armed (add_timeout T0 9 3 0 poller0) 9 = Some (1, 500000000) \<and> fds (remove_timeout 0 (add_timeout T0 9 3 0 poller0)) = []"
  using timeout_life [of T0 0 9 poller0 3]
  by (simp add: T0_def poller0_def Let_def add_timeout_def timerfd_settime_def timer_spec_def signed_divide_int_def
      signed_modulo_int_def)

text \<open>
  Disabling a timeout does not stop it. \<open>toggle_timeout\<close> passes a null pointer to
  \<open>timerfd_settime\<close>, which refuses it: the timer of a disabled timeout stays armed, its
  descriptor polled and its handler registered.
\<close>

theorem disabled_timeout_fires:
  assumes "\<not> t_enabled (T' t)"
  shows "toggle_timeout T' t p = p"
  using assms by (simp add: toggle_timeout_def timerfd_settime_def split: option.splits)

theorem disabled_timeout_fires_witness:
  "armed (toggle_timeout (\<lambda>_. \<lparr>t_enabled = False, t_interval = 1500\<rparr>) 0 poller1) 9 = Some (1, 500000000)"
proof -
  have "toggle_timeout (\<lambda>_. \<lparr>t_enabled = False, t_interval = 1500\<rparr>) 0 poller1 = poller1"
    by (rule disabled_timeout_fires) simp
  then show ?thesis
    by (simp add: poller1_def poller0_def add_timeout_def Let_def T0_def timerfd_settime_def timer_spec_def
      signed_divide_int_def signed_modulo_int_def)
qed

section \<open>A removed watch\<close>

lemma erase_first_none: "\<forall>x \<in> set xs. \<not> P x \<Longrightarrow> erase_first P xs = xs"
  by (induction xs) auto

text \<open>
  C35. A removed watch starves the others. \<open>remove_watch\<close> looks for the table entry whose
  reported events are the watch's, so that a watch removed while nothing is reported for it
  leaves its entry behind. If it was the only watch of its descriptor, then whenever the kernel
  reports that descriptor first, \<open>poll\<close> calls no handler at all, whatever else is ready.
\<close>

theorem removed_watch_starves:
  assumes "watches_of p (w_fd (W w)) = [w]" and "tm_handlers p (w_fd (W w)) = None"
    and "\<forall>pfd \<in> set (fds p). pf_fd pfd = w_fd (W w) \<longrightarrow> pf_revents pfd = 0"
    and "sys (fds p) timeout = (rc, fs)" and "find (\<lambda>pfd. pf_revents pfd \<noteq> 0) fs = Some pfd" and "pf_fd pfd = w_fd (W w)"
    and "fds p \<noteq> []"
  shows "fds (remove_watch W w p) = fds p \<and>
    poll W H sys timeout (remove_watch W w p) = Some (Inr 0, (remove_watch W w p)\<lparr>fds := fs\<rparr>)"
proof -
  let ?fd = "w_fd (W w)"
  have n: "\<forall>pfd \<in> set (fds p). \<not> (?fd = pf_fd pfd \<and> pf_revents pfd AND make_poll_events (w_flags (W w)) \<noteq> 0)"
    using assms(3) by auto
  have r: "remove_watch W w p = p\<lparr>watch_handlers := erase_first (\<lambda>e. e = (?fd, w)) (watch_handlers p)\<rparr>"
    using assms(1) by (simp add: remove_watch_def erase_first_none [OF n])
  have "map snd (filter (\<lambda>e. fst e = ?fd) (erase_first (\<lambda>e. e = (?fd, w)) m)) = []"
    if "map snd (filter (\<lambda>e. fst e = ?fd) m) = [w]" for m :: "(int \<times> nat) list"
    using that
  proof (induction m)
    case (Cons e m)
    then show ?case by (cases e) (auto split: if_splits)
  qed simp
  with assms(1) have "watches_of (remove_watch W w p) ?fd = []" by (simp add: r watches_of_def)
  then have "watches_of (remove_watch W w p\<lparr>fds := fs\<rparr>) (pf_fd pfd) = []" using assms(6) by (simp add: watches_of_def)
  moreover have "tm_handlers (remove_watch W w p) (pf_fd pfd) = None" "fds (remove_watch W w p) = fds p"
    using assms(2,6) by (simp_all add: r)
  ultimately show ?thesis using assms(4,5,7) by (simp add: poll_def preturn_def Let_def)
qed

text \<open>Descriptor 5 was only read from and is ready; so is descriptor 6, whose watch is still in use.\<close>

definition W1 :: "nat \<Rightarrow> watch_info" where
  "W1 w = \<lparr>w_fd = (if w = 0 then 5 else 6), w_flags = DBUS_WATCH_READABLE, w_enabled = True\<rparr>"

definition all_ready :: "pollfd list \<Rightarrow> int \<Rightarrow> int \<times> pollfd list" where
  "all_ready fs t = (int (length fs), map (\<lambda>pfd. pfd\<lparr>pf_revents := pf_events pfd\<rparr>) fs)"

definition idle_handlers :: "poller poll_handlers" where
  "idle_handlers = \<lparr>watch_handle = \<lambda>_ _. preturn (), timeout_handle = \<lambda>_. preturn ()\<rparr>"

theorem removed_watch_starves_witness:
  "let p = add_watch W1 1 (add_watch W1 0 poller0) in
   poll W1 idle_handlers all_ready 100 (remove_watch W1 0 p) = Some (Inr 0, (remove_watch W1 0 p)\<lparr>fds := snd (all_ready (fds p) 100)\<rparr>)"
proof -
  define p where "p = add_watch W1 1 (add_watch W1 0 poller0)"
  have e: "fds p = [\<lparr>pf_fd = 5, pf_events = 1, pf_revents = 0\<rparr>, \<lparr>pf_fd = 6, pf_events = 1, pf_revents = 0\<rparr>]"
    "watch_handlers p = [(5, 0), (6, 1)]" "tm_handlers p = Map.empty"
    by (simp_all add: p_def add_watch_def Let_def W1_def poller0_def make_poll_events_def)
  show ?thesis
    unfolding p_def [symmetric] Let_def
    by (rule conjunct2 [OF removed_watch_starves [where rc = 2 and pfd = "\<lparr>pf_fd = 5, pf_events = 1, pf_revents = 1\<rparr>"]])
      (simp_all add: e W1_def watches_of_def all_ready_def)
qed

section \<open>dispatch and run\<close>

text \<open>
  \<open>dbus_connection_dispatch\<close> takes the first message off the connection's queue and passes it
  to the handlers, and says whether another one is left.
\<close>

definition dispatches :: "('s \<Rightarrow> 'm list) \<Rightarrow> ('m \<Rightarrow> 's \<Rightarrow> 's) \<Rightarrow> ('s, dispatch_status) prog \<Rightarrow> bool" where
  "dispatches queue handle one \<longleftrightarrow>
     (\<forall>s. queue s = [] \<longrightarrow> one s = preturn DispatchComplete s) \<and>
     (\<forall>s m ms. queue s = m # ms \<longrightarrow> queue (handle m s) = ms \<and>
        one s = preturn (if ms = [] then DispatchComplete else DataRemains) (handle m s))"

lemma dispatch_drains:
  assumes "dispatches queue handle one"
  shows "dispatch one s = Some (Inr (), fold handle (queue s) s) \<and> queue (fold handle (queue s) s) = []"
proof (induction "queue s" arbitrary: s)
  case Nil
  with assms have "one s = preturn DispatchComplete s" by (simp add: dispatches_def)
  with Nil show ?case by (subst dispatch.simps) (simp add: pbind_def preturn_def)
next
  case (Cons m ms)
  from assms Cons(2) have q: "queue (handle m s) = ms"
    and o: "one s = preturn (if ms = [] then DispatchComplete else DataRemains) (handle m s)"
    unfolding dispatches_def by metis+
  show ?case
  proof (cases "ms = []")
    case True
    with o q Cons(2) [symmetric] show ?thesis by (subst dispatch.simps) (simp add: pbind_def preturn_def)
  next
    case False
    have d: "dispatch one s = dispatch one (handle m s)"
      using o False by (subst dispatch.simps) (simp add: pbind_def preturn_def)
    from Cons(1) [OF q [symmetric]] q Cons(2) [symmetric] show ?thesis by (simp add: d)
  qed
qed

text \<open>One round of the loop: what arrives is appended by \<open>poll\<close>, then every message is handled.\<close>

definition serve_round :: "('s \<Rightarrow> 'm list) \<Rightarrow> ('m \<Rightarrow> 's \<Rightarrow> 's) \<Rightarrow> ('s \<Rightarrow> 's) \<Rightarrow> 's \<Rightarrow> 's" where
  "serve_round queue handle arrive s = fold handle (queue (arrive s)) (arrive s)"

lemma run_loop_rounds:
  assumes D: "dispatches queue handle one" and P: "\<forall>s. poll1 100 s = Some (Inr 0, arrive s)"
    and r: "\<forall>k < n. is_running ((serve_round queue handle arrive ^^ k) s)"
    and "\<not> is_running ((serve_round queue handle arrive ^^ n) s)"
  shows "run_loop (step_ms poll1 one 100) is_running s = Some (Inr 0, (serve_round queue handle arrive ^^ n) s)"
  using r assms(4)
proof (induction n arbitrary: s)
  case 0
  then show ?case by (subst run_loop.simps) (simp add: preturn_def)
next
  case (Suc n)
  let ?r = "serve_round queue handle arrive"
  have step: "step_ms poll1 one 100 s = Some (Inr 0, ?r s)"
    using P dispatch_drains [OF D] by (simp add: step_ms_def pbind_def preturn_def serve_round_def)
  have "is_running s" using Suc.prems(1) by force
  moreover have "\<forall>k < n. is_running ((?r ^^ k) (?r s))" using Suc.prems(1) by (metis Suc_less_eq funpow_Suc_right comp_apply)
  moreover have "\<not> is_running ((?r ^^ n) (?r s))" using Suc.prems(2) by (metis funpow_Suc_right comp_apply)
  ultimately show ?case
    using Suc.IH [of "?r s"] step by (subst run_loop.simps) (simp add: pbind_def funpow_Suc_right del: funpow.simps)
qed

text \<open>
  C26. The main loop. In every round \<open>run\<close> handles all messages that have arrived, in order.
  It returns 0 as soon as the round is over in which a handler called \<open>stop\<close>, with the rest of
  that round's messages handled too; a \<open>stop\<close> before \<open>run\<close> has no effect.
\<close>

theorem run_until_stopped:
  assumes "dispatches queue handle one" and "\<forall>s. poll1 100 s = Some (Inr 0, arrive s)" and "init s = Some (Inr (), s1)"
    and "\<forall>k < n. is_running ((serve_round queue handle arrive ^^ k) (set_running True s1))"
    and "\<not> is_running ((serve_round queue handle arrive ^^ n) (set_running True s1))"
  shows "run init set_running is_running poll1 one s = Some (Inr 0, (serve_round queue handle arrive ^^ n) (set_running True s1))"
proof -
  have "run_loop (step_ms poll1 one 100) is_running (set_running True s1) =
      Some (Inr 0, (serve_round queue handle arrive ^^ n) (set_running True s1))"
    using assms(1,2,4,5) by (rule run_loop_rounds)
  with assms(3) show ?thesis by (simp add: run_def pbind_def pmodify_def)
qed

text \<open>
  A process whose state is the flag, the queue, what will arrive in the next rounds and the
  messages handled; message 0 leads to a call of \<open>stop\<close>.
\<close>

type_synonym sample_loop = "bool \<times> nat list \<times> nat list list \<times> nat list"

definition sample_handle :: "nat \<Rightarrow> sample_loop \<Rightarrow> sample_loop" where
  "sample_handle m s = (case s of (r, q, a, d) \<Rightarrow> (if m = 0 then False else r, tl q, a, d @ [m]))"

definition sample_one :: "(sample_loop, dispatch_status) prog" where
  "sample_one s = (case s of (r, q, a, d) \<Rightarrow>
     (case q of [] \<Rightarrow> preturn DispatchComplete s
      | m # ms \<Rightarrow> preturn (if ms = [] then DispatchComplete else DataRemains) (sample_handle m s)))"

definition sample_arrive :: "sample_loop \<Rightarrow> sample_loop" where
  "sample_arrive s = (case s of (r, q, a, d) \<Rightarrow> (r, q @ concat (take 1 a), tl a, d))"

theorem run_until_stopped_witness:
  "run (preturn ()) (\<lambda>b (r, s). (b, s)) fst (\<lambda>_ s. Some (Inr 0, sample_arrive s)) sample_one (False, [], [[4, 5], [], [0, 6], [7]], [])
     = Some (Inr 0, (False, [], [[7]], [4, 5, 0, 6]))"
proof -
  let ?q = "\<lambda>s :: sample_loop. fst (snd s)"
  have "dispatches ?q sample_handle sample_one"
    by (auto simp: dispatches_def sample_one_def sample_handle_def split: prod.splits)
  from run_until_stopped [OF this, where init = "preturn ()" and n = 3 and arrive = sample_arrive
      and s = "(False, [], [[4, 5], [], [0, 6], [7]], [])" and set_running = "\<lambda>b (r, s). (b, s)" and is_running = fst]
  show ?thesis
    by (simp add: preturn_def numeral_3_eq_3 All_less_Suc serve_round_def sample_arrive_def sample_handle_def)
qed

end
