(* ===== verification/Lifetime.thy ===== *)
theory Lifetime
  imports Serving NameUtil Dispatcher
begin

text \<open>
  Skeletons and stubs come and go: the constructors (\<open>include/simppl/skeleton.h\<close>, \<open>stub.h\<close>),
  \<open>init\<close> and the destructor of \<open>SkeletonBase\<close> and \<open>StubBase\<close>, \<open>add_server\<close> and \<open>remove_server\<close> of
  the dispatcher. The skeletons of a process share its connection; libdbus keeps for each
  registered object path the pointer of the skeleton it passes to \<open>method_handler\<close>.
\<close>

section \<open>Names\<close>

definition opt_res :: "'a option \<Rightarrow> 'a res" where
  "opt_res x = (case x of None \<Rightarrow> throw UndefinedBehaviour | Some y \<Rightarrow> ret y)"

lemma opt_res_simps [simp]: "opt_res None = throw UndefinedBehaviour" "opt_res (Some x) = ret x"
  by (simp_all add: opt_res_def)

text \<open>
  \<open>SkeletonBase::init\<close>: from a role, from explicit names, and for a skeleton without interfaces.
  \<open>demangled_list\<close> is what \<open>__cxa_demangle\<close> makes of the type list's name.
\<close>

definition SkeletonBase_init_role ::
  "(nat \<Rightarrow> char) \<Rightarrow> string \<Rightarrow> string \<Rightarrow> ('b, 'w, 'r, 'v, 'u) server \<Rightarrow> ('b, 'w, 'r, 'v, 'u) server res" where
  "SkeletonBase_init_role junk demangled_list role w =
     rbind (opt_res (extract_interfaces demangled_list)) (\<lambda>is.
     case is of [] \<Rightarrow> throw UndefinedBehaviour
     | i # _ \<Rightarrow>
         rbind (opt_res (create_objectpath junk i role)) (\<lambda>p.
         rbind (opt_res (create_busname junk i role)) (\<lambda>b.
         ret (w\<lparr>sk_ifaces := is, sk_objectpath := c_str p, sk_busname := c_str b\<rparr>))))"

definition SkeletonBase_init ::
  "string \<Rightarrow> string \<Rightarrow> string \<Rightarrow> ('b, 'w, 'r, 'v, 'u) server \<Rightarrow> ('b, 'w, 'r, 'v, 'u) server res" where
  "SkeletonBase_init demangled_list bname opath w =
     rbind (opt_res (extract_interfaces demangled_list)) (\<lambda>is.
     ret (w\<lparr>sk_ifaces := is, sk_busname := bname, sk_objectpath := opath\<rparr>))"

definition SkeletonBase_init_names ::
  "string \<Rightarrow> string \<Rightarrow> ('b, 'w, 'r, 'v, 'u) server \<Rightarrow> ('b, 'w, 'r, 'v, 'u) server" where
  "SkeletonBase_init_names bname opath w = w\<lparr>sk_busname := bname, sk_objectpath := opath\<rparr>"

text \<open>\<open>StubBase::init\<close>. The object path of a stub is a C string of its own.\<close>

definition StubBase_init :: "string \<Rightarrow> string \<Rightarrow> string \<Rightarrow> stub \<Rightarrow> stub res" where
  "StubBase_init iface bname opath st =
     rbind (opt_res (extract_interfaces iface)) (\<lambda>is.
     rbind (opt_res (strcpy_at (replicate (length (c_str opath) + 1) NUL) 0 opath)) (\<lambda>p.
     ret (st\<lparr>ifaces := is, objectpath := c_str p, busname := c_str bname\<rparr>)))"

definition StubBase_init_role :: "(nat \<Rightarrow> char) \<Rightarrow> string \<Rightarrow> string \<Rightarrow> stub \<Rightarrow> stub res" where
  "StubBase_init_role junk iface role st =
     rbind (opt_res (extract_interfaces iface)) (\<lambda>is.
     case is of [] \<Rightarrow> throw UndefinedBehaviour
     | i # _ \<Rightarrow>
         rbind (opt_res (create_objectpath junk i role)) (\<lambda>p.
         ret (st\<lparr>ifaces := is, objectpath := c_str p, busname := stub_busname i role\<rparr>)))"

text \<open>\<open>StubBase::StubBase\<close>, with the \<open>Connected\<close> it contains.\<close>

definition StubBase_new :: "stub" where
  "StubBase_new = \<lparr>ifaces = [], objectpath = [], busname = [], has_disp = False, signals = None, properties = [],
     attached_properties = 0, conn_state = Disconnected, connected_cb = False\<rparr>"

section \<open>Registration\<close>

text \<open>\<open>add_server\<close>; \<open>this\<close> is the skeleton's address.\<close>

definition add_server ::
  "('b, 'w, 'r) dbus_conn_api \<Rightarrow> nat \<Rightarrow> (('b, 'w, 'r, 'v, 'u) server, unit) prog" where
  "add_server K this w =
     (case (if c_str (sk_busname w) \<noteq> [] then bus_request_name K (sconn w) (c_str (sk_busname w)) else (None, sconn w)) of
        (Some err, b) \<Rightarrow> pthrow (RuntimeErrorExn (RuntimeError_new ''dbus_bus_request_name'' err)) (w\<lparr>sconn := b\<rparr>)
      | (None, b) \<Rightarrow>
          (case try_register_object_path K b (c_str (sk_objectpath w)) this of
             (Some err, b) \<Rightarrow>
               pthrow (RuntimeErrorExn (RuntimeError_new ''dbus_connection_register_object_path'' err)) (w\<lparr>sconn := b\<rparr>)
           | (None, b) \<Rightarrow> preturn () (w\<lparr>sconn := b, sk_disp := True\<rparr>)))"

definition remove_server ::
  "('b, 'w, 'r) dbus_conn_api \<Rightarrow> ('b, 'w, 'r, 'v, 'u) server \<Rightarrow> ('b, 'w, 'r, 'v, 'u) server" where
  "remove_server K w = w\<lparr>sconn := unregister_object_path K (sconn w) (c_str (sk_objectpath w))\<rparr>"

definition SkeletonBase_destroy ::
  "('b, 'w, 'r) dbus_conn_api \<Rightarrow> ('b, 'w, 'r, 'v, 'u) server \<Rightarrow> ('b, 'w, 'r, 'v, 'u) server" where
  "SkeletonBase_destroy K w = (if sk_disp w then remove_server K w else w)"

text \<open>
  The constructors of \<open>Skeleton<...>\<close>: the base, \<open>members\<close> (the constructors of the methods,
  properties and signals), the names, the registration.
\<close>

definition Skeleton_role ::
  "('b, 'w, 'r) dbus_conn_api \<Rightarrow> (nat \<Rightarrow> char) \<Rightarrow> (('b, 'w, 'r, 'v, 'u) server \<Rightarrow> ('b, 'w, 'r, 'v, 'u) server)
     \<Rightarrow> string \<Rightarrow> string \<Rightarrow> nat \<Rightarrow> (('b, 'w, 'r, 'v, 'u) server, unit) prog" where
  "Skeleton_role K junk members demangled_list role this w =
     (let w = members (SkeletonBase_new 1 w) in
      pbind (plift (SkeletonBase_init_role junk demangled_list role w)) (\<lambda>w _. add_server K this w) w)"

definition Skeleton_named ::
  "('b, 'w, 'r) dbus_conn_api \<Rightarrow> (('b, 'w, 'r, 'v, 'u) server \<Rightarrow> ('b, 'w, 'r, 'v, 'u) server)
     \<Rightarrow> nat \<Rightarrow> string \<Rightarrow> string \<Rightarrow> string \<Rightarrow> nat \<Rightarrow> (('b, 'w, 'r, 'v, 'u) server, unit) prog" where
  "Skeleton_named K members iface_count demangled_list bname opath this w =
     (let w = members (SkeletonBase_new iface_count w) in
      pbind (plift (SkeletonBase_init demangled_list bname opath w)) (\<lambda>w _. add_server K this w) w)"

text \<open>\<open>Stub<Iface>(disp, role)\<close>: \<open>members\<close> are the constructors of signals and properties.\<close>

definition Stub_role ::
  "('w, 'r) dbus_iter_api \<Rightarrow> ('b, 'w, 'r) dbus_conn_api \<Rightarrow> string \<Rightarrow> (nat \<Rightarrow> char)
     \<Rightarrow> (('b, 'w, 'r, 'v) dworld \<Rightarrow> ('b, 'w, 'r, 'v) dworld) \<Rightarrow> string \<Rightarrow> string \<Rightarrow> nat
     \<Rightarrow> (('b, 'w, 'r, 'v) dworld, unit) prog" where
  "Stub_role L K self junk members iface role s w =
     (let w = members (upd_stub s (\<lambda>_. StubBase_new) w) in
      pbind (plift (StubBase_init_role junk iface role (stub_at w s))) (\<lambda>st.
      pmodify (\<lambda>w. add_client L K self s (upd_stub s (\<lambda>_. st) w))) w)"

definition Stub_named ::
  "('w, 'r) dbus_iter_api \<Rightarrow> ('b, 'w, 'r) dbus_conn_api \<Rightarrow> string
     \<Rightarrow> (('b, 'w, 'r, 'v) dworld \<Rightarrow> ('b, 'w, 'r, 'v) dworld) \<Rightarrow> string \<Rightarrow> string \<Rightarrow> string \<Rightarrow> nat
     \<Rightarrow> (('b, 'w, 'r, 'v) dworld, unit) prog" where
  "Stub_named L K self members iface bname opath s w =
     (let w = members (upd_stub s (\<lambda>_. StubBase_new) w) in
      pbind (plift (StubBase_init iface bname opath (stub_at w s))) (\<lambda>st.
      pmodify (\<lambda>w. add_client L K self s (upd_stub s (\<lambda>_. st) w))) w)"

section \<open>A process with skeletons\<close>

text \<open>The skeletons in use, by address, and the connection of the dispatcher they share.\<close>

record ('b, 'w, 'r, 'v, 'u) host =
  hconn :: 'b
  skeletons :: "nat \<Rightarrow> ('b, 'w, 'r, 'v, 'u) server option"

text \<open>
  What may happen: a constructor of a skeleton returns or throws, a skeleton is destroyed, or
  one works, that is, sends, handles requests and changes in any way but the object path and
  the dispatcher, which are private to the base class.
\<close>

inductive host_step ::
  "('b, 'w, 'r) dbus_conn_api \<Rightarrow> ('b \<Rightarrow> string \<Rightarrow> nat option) \<Rightarrow> ('b, 'w, 'r, 'v, 'u) host \<Rightarrow> ('b, 'w, 'r, 'v, 'u) host \<Rightarrow> bool"
  for K paths where
  create: "skeletons h u = None \<Longrightarrow> \<not> sk_disp s \<Longrightarrow> add_server K u (s\<lparr>sconn := hconn h\<rparr>) = Some (Inr (), s') \<Longrightarrow>
    host_step K paths h (h\<lparr>hconn := sconn s', skeletons := (skeletons h)(u \<mapsto> s')\<rparr>)"
| create_fails: "skeletons h u = None \<Longrightarrow> \<not> sk_disp (s :: ('b, 'w, 'r, 'v, 'u) server) \<Longrightarrow> add_server K u (s\<lparr>sconn := hconn h\<rparr>) = Some (Inl e, s') \<Longrightarrow>
    host_step K paths h (h\<lparr>hconn := sconn (SkeletonBase_destroy K s')\<rparr>)"
| destroy: "skeletons h u = Some s \<Longrightarrow>
    host_step K paths h (h\<lparr>hconn := sconn (SkeletonBase_destroy K (s\<lparr>sconn := hconn h\<rparr>)), skeletons := (skeletons h)(u := None)\<rparr>)"
| work: "skeletons h u = Some s \<Longrightarrow> sk_disp s' = sk_disp s \<Longrightarrow> sk_objectpath s' = sk_objectpath s \<Longrightarrow>
    paths (sconn s') = paths (hconn h) \<Longrightarrow>
    host_step K paths h (h\<lparr>hconn := sconn s', skeletons := (skeletons h)(u \<mapsto> s')\<rparr>)"

end
