(* ===== verification/LifetimeCorrect.thy ===== *)
theory LifetimeCorrect
  imports Lifetime ServerCorrect
begin

text \<open>
  The object paths libdbus knows are those of the skeletons in use, and a stub and a skeleton made
  from the same interface and role meet.
\<close>

section \<open>No dangling registration\<close>

definition host_inv :: "('b \<Rightarrow> string \<Rightarrow> nat option) \<Rightarrow> ('b, 'w, 'r, 'v, 'u) host \<Rightarrow> bool" where
  "host_inv paths h \<longleftrightarrow>
     (\<forall>u s. skeletons h u = Some s \<longrightarrow> sk_disp s \<and> paths (hconn h) (c_str (sk_objectpath s)) = Some u) \<and>
     (\<forall>p u. paths (hconn h) p = Some u \<longrightarrow> (\<exists>s. skeletons h u = Some s \<and> c_str (sk_objectpath s) = p))"

context dbus_conn begin

lemma add_server_effect:
  assumes "add_server K this w = Some (r, w')"
  shows "sk_objectpath w' = sk_objectpath w \<and> sk_ifaces w' = sk_ifaces w \<and> sk_busname w' = sk_busname w \<and>
    (r = Inr () \<longrightarrow> sk_disp w' \<and> paths (sconn w) (c_str (sk_objectpath w)) = None \<and>
       paths (sconn w') = (paths (sconn w))(c_str (sk_objectpath w) := Some this)) \<and>
    (r \<noteq> Inr () \<longrightarrow> sk_disp w' = sk_disp w \<and> paths (sconn w') = paths (sconn w))"
proof -
  obtain e b where q: "(if c_str (sk_busname w) \<noteq> [] then bus_request_name K (sconn w) (c_str (sk_busname w)) else (None, sconn w)) = (e, b)"
    by fastforce
  then have b: "paths b = paths (sconn w)"
    using request_name_frame by (auto split: if_splits)
  show ?thesis
  proof (cases e)
    case (Some err)
    with assms q b show ?thesis by (auto simp: add_server_def pthrow_def)
  next
    case None
    obtain e' b' where q': "try_register_object_path K b (c_str (sk_objectpath w)) this = (e', b')" by fastforce
    show ?thesis
    proof (cases e')
      case (Some err)
      with assms q q' None b register_path_err show ?thesis by (auto simp: add_server_def pthrow_def)
    next
      case N: None
      from register_path_ok [OF q' [unfolded N]] b assms q q' None N show ?thesis
        by (auto simp: add_server_def preturn_def)
    qed
  qed
qed

lemma SkeletonBase_destroy_paths:
  "paths (sconn (SkeletonBase_destroy K w)) =
     (if sk_disp w then (paths (sconn w))(c_str (sk_objectpath w) := None) else paths (sconn w))"
  by (simp add: SkeletonBase_destroy_def remove_server_def unregister_path)

lemma host_inv_path: "host_inv paths h \<Longrightarrow> skeletons h u = Some s \<Longrightarrow> paths (hconn h) (c_str (sk_objectpath s)) = Some u"
  by (simp add: host_inv_def)

lemma host_invI:
  assumes "\<And>v t. skeletons h v = Some t \<Longrightarrow> sk_disp t \<and> paths (hconn h) (c_str (sk_objectpath t)) = Some v"
    and "\<And>p v. paths (hconn h) p = Some v \<Longrightarrow> \<exists>t. skeletons h v = Some t \<and> c_str (sk_objectpath t) = p"
  shows "host_inv paths h"
  using assms by (simp add: host_inv_def)

lemma host_inv_skeleton:
  "host_inv paths h \<Longrightarrow> paths (hconn h) p = Some v \<Longrightarrow> \<exists>t. skeletons h v = Some t \<and> c_str (sk_objectpath t) = p"
  by (simp add: host_inv_def)

lemma host_inv_disp: "host_inv paths h \<Longrightarrow> skeletons h v = Some t \<Longrightarrow> sk_disp t"
  by (simp add: host_inv_def)

lemma host_step_inv: "host_step K paths h h' \<Longrightarrow> host_inv paths h \<Longrightarrow> host_inv paths h'"
proof (induction rule: host_step.induct)
  case (create h u s s')
  from add_server_effect [OF create(3)] have s': "sk_disp s'" "sk_objectpath s' = sk_objectpath s"
    "paths (hconn h) (c_str (sk_objectpath s)) = None" "paths (sconn s') = (paths (hconn h))(c_str (sk_objectpath s) := Some u)"
    by simp_all
  have other: "c_str (sk_objectpath t) \<noteq> c_str (sk_objectpath s)" if "skeletons h v = Some t" for v t
    using host_inv_path [OF create(4) that] s'(3) by auto
  show ?case
  proof (rule host_invI)
    fix v t assume "skeletons (h\<lparr>hconn := sconn s', skeletons := (skeletons h)(u \<mapsto> s')\<rparr>) v = Some t"
    then show "sk_disp t \<and> paths (hconn (h\<lparr>hconn := sconn s', skeletons := (skeletons h)(u \<mapsto> s')\<rparr>)) (c_str (sk_objectpath t)) = Some v"
      using s' other host_inv_path [OF create(4), of v t] host_inv_disp [OF create(4), of v t] by (auto split: if_splits)
  next
    fix p v assume "paths (hconn (h\<lparr>hconn := sconn s', skeletons := (skeletons h)(u \<mapsto> s')\<rparr>)) p = Some v"
    then show "\<exists>t. skeletons (h\<lparr>hconn := sconn s', skeletons := (skeletons h)(u \<mapsto> s')\<rparr>) v = Some t \<and> c_str (sk_objectpath t) = p"
      using s' create(1) host_inv_skeleton [OF create(4), of p v] by (auto split: if_splits)
  qed
next
  case (create_fails h u s e s')
  from add_server_effect [OF create_fails(3)] create_fails(2) have
    "\<not> sk_disp s'" "paths (sconn s') = paths (hconn h)" by simp_all
  with create_fails(4) show ?case by (simp add: host_inv_def SkeletonBase_destroy_paths)
next
  case (destroy h u s)
  then have d: "sk_disp s" by (simp add: host_inv_def)
  have other: "c_str (sk_objectpath t) \<noteq> c_str (sk_objectpath s)" if "skeletons h v = Some t" "v \<noteq> u" for v t
    using host_inv_path [OF destroy(2) that(1)] host_inv_path [OF destroy(2,1)] that(2) by auto
  let ?h = "h\<lparr>hconn := sconn (SkeletonBase_destroy K (s\<lparr>sconn := hconn h\<rparr>)), skeletons := (skeletons h)(u := None)\<rparr>"
  have p: "paths (hconn ?h) = (paths (hconn h))(c_str (sk_objectpath s) := None)"
    by (simp add: SkeletonBase_destroy_paths d)
  show ?case
  proof (rule host_invI)
    fix v t assume "skeletons ?h v = Some t"
    then have v: "skeletons h v = Some t" "v \<noteq> u" by (auto split: if_splits)
    then show "sk_disp t \<and> paths (hconn ?h) (c_str (sk_objectpath t)) = Some v"
      using other [OF v] host_inv_path [OF destroy(2) v(1)] host_inv_disp [OF destroy(2) v(1)] by (simp only: p) simp
  next
    fix q v assume "paths (hconn ?h) q = Some v"
    then have q: "paths (hconn h) q = Some v" "q \<noteq> c_str (sk_objectpath s)" unfolding p by (auto split: if_splits)
    then obtain t where "skeletons h v = Some t" "c_str (sk_objectpath t) = q" using host_inv_skeleton [OF destroy(2)] by blast
    with q destroy(1) show "\<exists>t. skeletons ?h v = Some t \<and> c_str (sk_objectpath t) = q" by auto
  qed
next
  case (work h u s s')
  let ?h = "h\<lparr>hconn := sconn s', skeletons := (skeletons h)(u \<mapsto> s')\<rparr>"
  show ?case
  proof (rule host_invI)
    fix v t assume "skeletons ?h v = Some t"
    then show "sk_disp t \<and> paths (hconn ?h) (c_str (sk_objectpath t)) = Some v"
      using work host_inv_path [OF work(5)] host_inv_disp [OF work(5)] by (auto split: if_splits)
  next
    fix q v assume "paths (hconn ?h) q = Some v"
    then show "\<exists>t. skeletons ?h v = Some t \<and> c_str (sk_objectpath t) = q"
      using work host_inv_skeleton [OF work(5), of q v] by auto
  qed
qed

end

text \<open>
  C23. No dangling registration. In every reachable state of a process, whatever skeletons were
  constructed, failed to be constructed, worked and were destroyed: libdbus passes a request for
  an object path to a skeleton exactly if this skeleton is in use and has that path.
\<close>

theorem registered_paths_live:
  assumes "dbus_conn K rules sent paths timeouts" and "(host_step K paths)\<^sup>*\<^sup>* h0 h"
    and "\<forall>u. skeletons h0 u = None" and "\<forall>p. paths (hconn h0) p = None"
  shows "paths (hconn h) p = Some u \<longleftrightarrow> (\<exists>s. skeletons h u = Some s \<and> c_str (sk_objectpath s) = p)"
proof -
  have "host_inv paths h0" using assms(3,4) by (simp add: host_inv_def)
  with assms(2) have "host_inv paths h"
    by (induction rule: rtranclp_induct) (auto intro: dbus_conn.host_step_inv [OF assms(1)])
  then show ?thesis by (auto simp: host_inv_def)
qed

text \<open>The skeleton of the server's theory is constructed and destroyed, then another one at its path.\<close>

definition host0 :: "(ref_w rec_conn, ref_w, dval list, string, unit) host" where
  "host0 = \<lparr>hconn = rec_conn0, skeletons = Map.empty\<rparr>"

definition conn1 :: "nat \<Rightarrow> ref_w rec_conn" where
  "conn1 u = rec_conn0\<lparr>rc_paths := [''/a/B/r'' \<mapsto> u]\<rparr>"

abbreviation unregistered :: sample_server where
  "unregistered \<equiv> server0\<lparr>sk_disp := False\<rparr>"

lemma add_sample: "add_server K0 u (unregistered\<lparr>sconn := rec_conn0\<rparr>) = Some (Inr (), server0\<lparr>sconn := conn1 u\<rparr>)"
  by (simp add: add_server_def server0_fields conn1_def rec_api_def rec_conn0_def preturn_def c_str_id NUL_def)

definition host1 :: "nat \<Rightarrow> (ref_w rec_conn, ref_w, dval list, string, unit) host" where
  "host1 u = \<lparr>hconn = conn1 u, skeletons = [u \<mapsto> server0\<lparr>sconn := conn1 u\<rparr>]\<rparr>"

lemma host_creates: "host_step K0 rc_paths host0 (host1 u)"
proof -
  have "host_step K0 rc_paths host0 (host0\<lparr>hconn := sconn (server0\<lparr>sconn := conn1 u\<rparr>),
      skeletons := (skeletons host0)(u \<mapsto> server0\<lparr>sconn := conn1 u\<rparr>)\<rparr>)"
    by (rule host_step.create [of _ _ unregistered]) (use add_sample [of u] in \<open>simp_all add: host0_def\<close>)
  then show ?thesis by (simp add: host0_def host1_def)
qed

lemma host_destroys: "host_step K0 rc_paths (host1 u) host0"
proof -
  have "host_step K0 rc_paths (host1 u) ((host1 u)\<lparr>hconn := sconn (SkeletonBase_destroy K0 ((server0\<lparr>sconn := conn1 u\<rparr>)
      \<lparr>sconn := hconn (host1 u)\<rparr>)), skeletons := (skeletons (host1 u))(u := None)\<rparr>)"
    by (rule host_step.destroy) (simp add: host1_def)
  moreover have "sconn (SkeletonBase_destroy K0 ((server0\<lparr>sconn := conn1 u\<rparr>)\<lparr>sconn := hconn (host1 u)\<rparr>)) = rec_conn0"
    by (simp add: SkeletonBase_destroy_def remove_server_def server0_fields rec_api_def conn1_def host1_def c_str_id NUL_def rec_conn0_def)
  moreover have "(host1 u)\<lparr>hconn := rec_conn0, skeletons := (skeletons (host1 u))(u := None)\<rparr> = host0"
    by (simp add: host1_def host0_def)
  ultimately show ?thesis by simp
qed

theorem registered_paths_live_witness:
  "\<exists>h. (host_step K0 rc_paths)\<^sup>*\<^sup>* host0 h \<and> rc_paths (hconn h) ''/a/B/r'' = Some 8 \<and>
     rc_paths (hconn h) ''/a/B/r'' \<noteq> Some 7 \<and> (\<exists>s. skeletons h 8 = Some s)"
proof -
  have r: "(host_step K0 rc_paths)\<^sup>*\<^sup>* host0 (host1 8)"
    using host_creates [of 7] host_destroys [of 7] host_creates [of 8]
    by (meson converse_rtranclp_into_rtranclp r_into_rtranclp)
  have p: "rc_paths (hconn (host1 8)) ''/a/B/r'' = Some 8" by (simp add: host1_def conn1_def)
  have "rc_paths (hconn (host1 8)) ''/a/B/r'' = Some 8 \<longleftrightarrow>
      (\<exists>s. skeletons (host1 8) 8 = Some s \<and> c_str (sk_objectpath s) = ''/a/B/r'')"
    by (rule registered_paths_live [OF rec.dbus_conn_axioms r]) (simp_all add: host0_def rec_conn0_def)
  with r p show ?thesis by fastforce
qed

section \<open>Stub and skeleton meet\<close>

lemma extract_one:
  "iface_ok (segs, args) \<Longrightarrow> extract_interfaces (demangled [(segs, args)]) = Some [join ''.'' segs]"
  using extract_demangled [of "[(segs, args)]"] by simp

lemma add_client_stub_names:
  "objectpath (stub_at (add_client L K self s w) t) = objectpath (stub_at w t)"
  "busname (stub_at (add_client L K self s w) t) = busname (stub_at w t)"
  "ifaces (stub_at (add_client L K self s w) t) = ifaces (stub_at w t)"
  by (simp_all add: add_client_def Let_def upd_stub_def upd_dispatcher_def)

text \<open>
  Stub and skeleton meet. For an interface and a role: constructing the stub succeeds, and if
  constructing the skeleton succeeds, the skeleton is registered at the stub's object path, has
  requested the stub's bus name and finds the stub's interface name among its interfaces. The
  lists of template arguments differ, as the stub instantiates the interface for clients.
\<close>

theorem role_pair_meets:
  assumes "dbus_conn K rules sent paths timeouts" and "iface_ok (segs, args)" and "iface_ok (segs, args')"
  shows "\<exists>cw'. Stub_role L K' self junk' smembers (demangled [(segs, args')]) role s cw = Some (Inr (), cw') \<and>
    (\<forall>w'. Skeleton_role K junk members (demangled [(segs, args)]) role this w = Some (Inr (), w') \<longrightarrow>
      sk_disp w' \<and> paths (sconn w') (objectpath (stub_at cw' s)) = Some this \<and>
      c_str (sk_busname w') = busname (stub_at cw' s) \<and> find_interface (sk_ifaces w') (stub_iface (stub_at cw' s)) = 0)"
proof -
  let ?i = "join ''.'' segs"
  obtain p where p: "create_objectpath junk ?i role = Some p" "c_str p = ''/'' @ slashed (c_str ?i) @ ''/'' @ slashed (c_str role)"
    using objectpath_text by blast
  obtain p' where p': "create_objectpath junk' ?i role = Some p'" "c_str p' = c_str p"
    using objectpath_text [of junk' ?i role] p by auto
  obtain b where b: "create_busname junk ?i role = Some b" "c_str b = stub_busname ?i role"
    using busname_text by blast
  let ?w = "members (SkeletonBase_new 1 w)"
  let ?w1 = "?w\<lparr>sk_ifaces := [?i], sk_objectpath := c_str p, sk_busname := c_str b\<rparr>"
  have "Skeleton_role K junk members (demangled [(segs, args)]) role this w = add_server K this ?w1"
    by (simp add: Skeleton_role_def Let_def SkeletonBase_init_role_def extract_one [OF assms(2)] p b)
  note skel = this
  define cw0 where "cw0 = smembers (upd_stub s (\<lambda>_. StubBase_new) cw)"
  define st where "st = (stub_at cw0 s)\<lparr>ifaces := [?i], objectpath := c_str p', busname := stub_busname ?i role\<rparr>"
  define cw' where "cw' = add_client L K' self s (upd_stub s (\<lambda>_. st) cw0)"
  have stub: "Stub_role L K' self junk' smembers (demangled [(segs, args')]) role s cw = Some (Inr (), cw')"
    by (simp add: Stub_role_def Let_def StubBase_init_role_def extract_one [OF assms(3)] p' pmodify_def cw'_def st_def
        flip: cw0_def)
  have names: "objectpath (stub_at cw' s) = c_str p" "busname (stub_at cw' s) = stub_busname ?i role"
    "stub_iface (stub_at cw' s) = c_str ?i"
    by (simp_all add: cw'_def add_client_stub_names upd_stub_def st_def p' stub_iface_def)
  have "sk_disp w' \<and> paths (sconn w') (objectpath (stub_at cw' s)) = Some this \<and>
      c_str (sk_busname w') = busname (stub_at cw' s) \<and> find_interface (sk_ifaces w') (stub_iface (stub_at cw' s)) = 0"
    if "Skeleton_role K junk members (demangled [(segs, args)]) role this w = Some (Inr (), w')" for w'
    using dbus_conn.add_server_effect [OF assms(1) that [unfolded skel]] b(2) c_str_idem [of b]
    by (simp add: names find_interface_def)
  with stub show ?thesis by blast
qed

text \<open>The interface \<open>a::B\<close> and the role \<open>r\<close>, in a process with both sides.\<close>

theorem role_pair_meets_witness:
  "\<exists>cw' w'. Stub_role ref_api K0 self0 (\<lambda>_. NUL) (\<lambda>w. w) ''simppl::make_typelist<a::B<Y> >'' ''r'' 0 world0 = Some (Inr (), cw') \<and>
    Skeleton_role K0 (\<lambda>_. NUL) (ServerMethodBase_new 0 ''echo'' 0) ''simppl::make_typelist<a::B<X> >'' ''r'' 7 blank0 = Some (Inr (), w') \<and>
    rc_paths (sconn w') (objectpath (stub_at cw' 0)) = Some 7"
proof -
  have i: "iface_ok ([''a'', ''B''], ''X'')" "iface_ok ([''a'', ''B''], ''Y'')"
    by (simp_all add: iface_ok_def cpp_identifier_def NUL_def isspace_def)
  have d: "demangled [([''a'', ''B''], ''X'')] = ''simppl::make_typelist<a::B<X> >''"
    "demangled [([''a'', ''B''], ''Y'')] = ''simppl::make_typelist<a::B<Y> >''"
    by (simp_all add: demangled_def typelist_prefix_def)
  obtain p where p: "create_objectpath (\<lambda>_. NUL) ''a.B'' ''r'' = Some p" using objectpath_text by blast
  obtain b where b: "create_busname (\<lambda>_. NUL) ''a.B'' ''r'' = Some b" using busname_text by blast
  have e: "extract_interfaces (demangled [([''a'', ''B''], ''X'')]) = Some [''a.B'']" using extract_one [OF i(1)] by simp
  have "\<exists>w'. Skeleton_role K0 (\<lambda>_. NUL) (ServerMethodBase_new 0 ''echo'' 0) (demangled [([''a'', ''B''], ''X'')]) ''r'' 7 blank0
      = Some (Inr (), w')"
    by (simp add: Skeleton_role_def SkeletonBase_init_role_def e p b add_server_def rec_api_def preturn_def
        ServerMethodBase_new_def SkeletonBase_new_def blank0_def rec_conn0_def Let_def)
  then obtain w' where w': "Skeleton_role K0 (\<lambda>_. NUL) (ServerMethodBase_new 0 ''echo'' 0) (demangled [([''a'', ''B''], ''X'')])
      ''r'' 7 blank0 = Some (Inr (), w')" ..
  from role_pair_meets [OF rec.dbus_conn_axioms i, where L = ref_api and K' = K0 and self = self0 and junk = "\<lambda>_. NUL"
      and junk' = "\<lambda>_. NUL" and smembers = "\<lambda>w. w" and members = "ServerMethodBase_new 0 ''echo'' 0"
      and role = "''r''" and s = 0 and cw = world0 and w = blank0 and this = 7]
  obtain cw' where c: "Stub_role ref_api K0 self0 (\<lambda>_. NUL) (\<lambda>w. w) (demangled [([''a'', ''B''], ''Y'')]) ''r'' 0 world0
      = Some (Inr (), cw')" "rc_paths (sconn w') (objectpath (stub_at cw' 0)) = Some 7"
    using w' by metis
  then show ?thesis using w' unfolding d by (intro exI conjI)
qed

end
