(* ===== verification/ObjectManager.thy ===== *)
theory ObjectManager
  imports Serving PropertyServing
begin

text \<open>
  \<open>ObjectManagerMixin\<close> (\<open>src/objectmanagermixin.cpp\<close>): a skeleton that announces other skeletons
  of the process and lists them with all their properties. The set of managed objects is part
  of the manager's own state, which is what its \<open>user\<close> component holds here.
\<close>

section \<open>Managed objects\<close>

text \<open>
  \<open>objects_\<close> is a \<open>std::set\<close> of pointers, kept in the order of the addresses. \<open>object_at\<close> are
  the skeletons behind them; a destroyed one is \<open>None\<close>.
\<close>

record ('b, 'w, 'r, 'v, 'u) managed =
  object_at :: "nat \<Rightarrow> ('b, 'w, 'r, 'v, 'u) server option"
  objects :: "nat list"

type_synonym ('b, 'w, 'r, 'v, 'u) manager = "('b, 'w, 'r, 'v, ('b, 'w, 'r, 'v, 'u) managed) server"

definition upd_objects ::
  "(('b, 'w, 'r, 'v, 'u) managed \<Rightarrow> ('b, 'w, 'r, 'v, 'u) managed) \<Rightarrow> ('b, 'w, 'r, 'v, 'u) manager \<Rightarrow> ('b, 'w, 'r, 'v, 'u) manager" where
  "upd_objects f m = m\<lparr>user := f (user m)\<rparr>"

fun set_insert :: "nat \<Rightarrow> nat list \<Rightarrow> nat list" where
  "set_insert x [] = [x]"
| "set_insert x (y # ys) = (if x < y then x # y # ys else if x = y then y # ys else y # set_insert x ys)"

text \<open>
  Code that works on another skeleton of the process, which shares the connection: that of the
  manager is the one in use. Using a pointer to a destroyed skeleton is undefined. Callbacks that
  change the set while it is being walked through are left aside.
\<close>

definition in_object ::
  "nat \<Rightarrow> (('b, 'w, 'r, 'v, 'u) server, 'a) prog \<Rightarrow> (('b, 'w, 'r, 'v, 'u) manager, 'a) prog" where
  "in_object o1 f m =
     (case object_at (user m) o1 of
        None \<Rightarrow> pthrow UndefinedBehaviour m
      | Some s \<Rightarrow>
          on_part (\<lambda>m. s\<lparr>sconn := sconn m\<rparr>)
            (\<lambda>s' m. upd_objects (\<lambda>t. t\<lparr>object_at := (object_at t)(o1 \<mapsto> s'\<lparr>sconn := sconn s\<rparr>)\<rparr>) (m\<lparr>sconn := sconn s'\<rparr>)) f m)"

section \<open>Serializing an object\<close>

text \<open>The loop over the interfaces: name \<open>i\<close> is written with property list \<open>i\<close>.\<close>

fun serialize_ifaces ::
  "('w, 'r) dbus_iter_api \<Rightarrow> (('b, 'w, 'r, 'v, 'u) server, 'r, 'v) server_code \<Rightarrow> nat list \<Rightarrow> 'w
     \<Rightarrow> (('b, 'w, 'r, 'v, 'u) server, 'w) prog" where
  "serialize_ifaces L U [] arr = preturn arr"
| "serialize_ifaces L U (i # is) arr = (\<lambda>obj.
     let entry = StringCodec_encode L (open_container L arr DBUS_TYPE_DICT_ENTRY None) (sk_ifaces obj ! i);
         props = open_container L entry DBUS_TYPE_ARRAY (Some ''{sv}'')
     in pbind (plift (head_at (property_heads obj) (int i))) (\<lambda>pp.
        pbind (getall_entries L U pp props) (\<lambda>props.
        serialize_ifaces L U is (close_container L arr (close_container L entry props)))) obj)"

definition serialize_object ::
  "('w, 'r) dbus_iter_api \<Rightarrow> (('b, 'w, 'r, 'v, 'u) server, 'r, 'v) server_code \<Rightarrow> 'w
     \<Rightarrow> (('b, 'w, 'r, 'v, 'u) server, 'w) prog" where
  "serialize_object L U iter obj =
     (let iter = ObjectPathCodec_encode L iter (ObjectPath (c_str (sk_objectpath obj)));
          arr = open_container L iter DBUS_TYPE_ARRAY (Some ''{sa{sv}}'')
      in pbind (serialize_ifaces L U [0..<length (sk_ifaces obj)] arr) (\<lambda>arr.
         preturn (close_container L iter arr)) obj)"

section \<open>Operations\<close>

definition manager_signal ::
  "('b, 'w, 'r) dbus_conn_api \<Rightarrow> string \<Rightarrow> 'w \<Rightarrow> (('b, 'w, 'r, 'v, 'u) server, unit) prog" where
  "manager_signal K name body m =
     server_send K (message_new_signal (c_str (sk_objectpath m)) ''org.freedesktop.DBus.ObjectManager'' name body) m"

definition add_managed_object ::
  "('w, 'r) dbus_iter_api \<Rightarrow> ('b, 'w, 'r) dbus_conn_api \<Rightarrow> (nat \<Rightarrow> (('b, 'w, 'r, 'v, 'u) server, 'r, 'v) server_code)
     \<Rightarrow> nat \<Rightarrow> (('b, 'w, 'r, 'v, 'u) manager, unit) prog" where
  "add_managed_object L K U obj =
     pbind (pmodify (upd_objects (\<lambda>t. t\<lparr>objects := set_insert obj (objects t)\<rparr>))) (\<lambda>_.
     pbind (in_object obj (serialize_object L (U obj) (message_iter K))) (\<lambda>body.
     manager_signal K ''InterfacesAdded'' body))"

definition remove_managed_object ::
  "('w, 'r) dbus_iter_api \<Rightarrow> ('b, 'w, 'r) dbus_conn_api \<Rightarrow> nat \<Rightarrow> (('b, 'w, 'r, 'v, 'u) manager, unit) prog" where
  "remove_managed_object L K obj =
     pbind (pmodify (upd_objects (\<lambda>t. t\<lparr>objects := remove1 obj (objects t)\<rparr>))) (\<lambda>_.
     pbind (in_object obj (\<lambda>s.
       let iter = ObjectPathCodec_encode L (message_iter K) (ObjectPath (c_str (sk_objectpath s)));
           arr = open_container L iter DBUS_TYPE_ARRAY (Some ''s'');
           arr = fold (\<lambda>i arr. StringCodec_encode L arr i) (sk_ifaces s) arr
       in preturn (close_container L iter arr) s)) (\<lambda>body.
     manager_signal K ''InterfacesRemoved'' body))"

fun serialize_objects ::
  "('w, 'r) dbus_iter_api \<Rightarrow> (nat \<Rightarrow> (('b, 'w, 'r, 'v, 'u) server, 'r, 'v) server_code) \<Rightarrow> nat list \<Rightarrow> 'w
     \<Rightarrow> (('b, 'w, 'r, 'v, 'u) manager, 'w) prog" where
  "serialize_objects L U [] arr = preturn arr"
| "serialize_objects L U (obj # os) arr =
     pbind (in_object obj (serialize_object L (U obj) (open_container L arr DBUS_TYPE_DICT_ENTRY None))) (\<lambda>entry.
     serialize_objects L U os (close_container L arr entry))"

definition managed_objects_request ::
  "('w, 'r) dbus_iter_api \<Rightarrow> ('b, 'w, 'r) dbus_conn_api \<Rightarrow> (nat \<Rightarrow> (('b, 'w, 'r, 'v, 'u) server, 'r, 'v) server_code)
     \<Rightarrow> 'r in_msg \<Rightarrow> (('b, 'w, 'r, 'v, 'u) manager, handler_result) prog" where
  "managed_objects_request L K U msg m =
     (let iter = message_iter K in
      pbind (serialize_objects L U (objects (user m)) (open_container L iter DBUS_TYPE_ARRAY (Some ''{oa{sa{sv}}}''))) (\<lambda>arr.
      pbind (server_send K (message_new_method_return msg (close_container L iter arr))) (\<lambda>_.
      preturn Handled)) m)"

end
