(* ===== verification/ObjectManagerCorrect.thy ===== *)
theory ObjectManagerCorrect
  imports ObjectManager ServerCorrect
begin

text \<open>
  What the object manager announces and lists, and where it deviates from what the skeletons
  themselves answer.
\<close>

section \<open>The values\<close>

definition iface_entry :: "string \<Rightarrow> (string \<times> dval) list \<Rightarrow> dval" where
  "iface_entry n props = Cont DBUS_TYPE_DICT_ENTRY []
     [Basic (BString n), Cont DBUS_TYPE_ARRAY ''{sv}'' (map prop_entry props)]"

text \<open>The properties in the list of interface \<open>i\<close>, with their values.\<close>

definition prop_values :: "('b, 'w, 'r, 'v, 'u) server \<Rightarrow> (nat \<Rightarrow> dval) \<Rightarrow> nat list \<Rightarrow> (string \<times> dval) list" where
  "prop_values s pv ps = map (\<lambda>p. (c_str (sp_name (sprop_at s p)), pv p)) ps"

definition object_vals :: "('b, 'w, 'r, 'v, 'u) server \<Rightarrow> (nat \<Rightarrow> nat list) \<Rightarrow> (nat \<Rightarrow> dval) \<Rightarrow> dval list" where
  "object_vals s ps pv = [Basic (BObjectPath (c_str (sk_objectpath s))), Cont DBUS_TYPE_ARRAY ''{sa{sv}}''
     (map (\<lambda>i. iface_entry (c_str (sk_ifaces s ! i)) (prop_values s pv (ps i))) [0..<length (sk_ifaces s)])]"

lemma object_sigs:
  "dsig (iface_entry n props) = ''{sa{sv}}''"
  "dsig (Cont DBUS_TYPE_DICT_ENTRY [] (object_vals s ps pv)) = ''{oa{sa{sv}}}''"
  by (simp_all add: iface_entry_def object_vals_def)

lemma set_insert_set: "set (set_insert x xs) = insert x (set xs)"
  by (induction x xs rule: set_insert.induct) auto

lemma set_insert_sorted: "sorted_wrt (<) xs \<Longrightarrow> sorted_wrt (<) (set_insert x xs)"
  by (induction x xs rule: set_insert.induct) (auto simp: set_insert_set)

context server_env begin

definition listable ::
  "('b, 'w, 'r, 'v, 'u) server \<Rightarrow> (nat \<Rightarrow> nat list) \<Rightarrow> (nat \<Rightarrow> dval) \<Rightarrow> bool" where
  "listable s ps pv \<longleftrightarrow> (\<exists>ms gs. lists_ok s ms ps gs) \<and> bvalid (BObjectPath (c_str (sk_objectpath s))) \<and>
     (\<forall>i < length (sk_ifaces s). bvalid (BString (c_str (sk_ifaces s ! i))) \<and> snapshot s (ps i) pv)"

lemma serialize_ifaces_vals:
  assumes "listable s ps pv"
  shows "\<forall>i \<in> set is. i < length (sk_ifaces s) \<Longrightarrow> \<exists>a. serialize_ifaces L U is arr s = Some (Inr a, s) \<and> wk a = wk arr \<and>
    wv a = wv arr @ map (\<lambda>i. iface_entry (c_str (sk_ifaces s ! i)) (prop_values s pv (ps i))) is"
proof (induction "is" arbitrary: arr)
  case Nil
  then show ?case by (simp add: preturn_def)
next
  case (Cons i "is")
  then have i: "i < length (sk_ifaces s)" "\<forall>i \<in> set is. i < length (sk_ifaces s)" by simp_all
  let ?e = "StringCodec_encode L (open_container L arr DBUS_TYPE_DICT_ENTRY None) (sk_ifaces s ! i)"
  let ?p = "open_container L ?e DBUS_TYPE_ARRAY (Some ''{sv}'')"
  from assms i obtain ms gs where lk: "lists_ok s ms ps gs" and b: "bvalid (BString (c_str (sk_ifaces s ! i)))"
    and sn: "snapshot s (ps i) pv" by (auto simp: listable_def)
  from lk i have hd: "head_at (property_heads s) (int i) = ret (property_heads s ! i)"
    and ch: "chain (\<lambda>p. sp_next (sprop_at s p)) (property_heads s ! i) (ps i)"
    by (simp_all add: lists_ok_def head_at_def)
  from getall_entries_vals [OF ch sn, of U ?p] obtain it where
    it: "getall_entries L U (property_heads s ! i) ?p s = Some (Inr it, s)" "wk it = (DBUS_TYPE_ARRAY, Some ''{sv}'')"
      "wv it = map prop_entry (prop_values s pv (ps i))"
    by (auto simp: open_vals open_ctx prop_values_def comp_def)
  have e: "wv ?e = [Basic (BString (c_str (sk_ifaces s ! i)))]" "wk ?e = (DBUS_TYPE_DICT_ENTRY, None)"
    by (simp_all add: encode_string b open_vals open_ctx)
  have "list_all (\<lambda>v. dsig v = ''{sv}'') (wv it)" by (simp add: it(3) list_all_iff prop_entry_sig)
  with it have "wv (close_container L ?e it) = [Basic (BString (c_str (sk_ifaces s ! i))),
      Cont DBUS_TYPE_ARRAY ''{sv}'' (map prop_entry (prop_values s pv (ps i)))]"
    by (simp add: close_array e)
  then have c: "wv (close_container L arr (close_container L ?e it)) =
      wv arr @ [iface_entry (c_str (sk_ifaces s ! i)) (prop_values s pv (ps i))]"
    by (simp add: close_entry close_ctx e iface_entry_def)
  from Cons.IH [OF i(2), of "close_container L arr (close_container L ?e it)"] c hd it(1) show ?case
    by (auto simp: Let_def pbind_def close_ctx plift_def ret_def)
qed

lemma serialize_object_vals:
  assumes "listable s ps pv"
  shows "\<exists>a. serialize_object L U iter s = Some (Inr a, s) \<and> wk a = wk iter \<and> wv a = wv iter @ object_vals s ps pv"
proof -
  let ?i = "ObjectPathCodec_encode L iter (ObjectPath (c_str (sk_objectpath s)))"
  let ?arr = "open_container L ?i DBUS_TYPE_ARRAY (Some ''{sa{sv}}'')"
  have i: "wv ?i = wv iter @ [Basic (BObjectPath (c_str (sk_objectpath s)))]" "wk ?i = wk iter"
    using assms by (simp_all add: ObjectPathCodec_encode_def listable_def append_basic_vals append_basic_ctx)
  have "\<forall>i \<in> set [0..<length (sk_ifaces s)]. i < length (sk_ifaces s)" by simp
  from serialize_ifaces_vals [OF assms this, of U ?arr] obtain a where
    a: "serialize_ifaces L U [0..<length (sk_ifaces s)] ?arr s = Some (Inr a, s)" "wk a = (DBUS_TYPE_ARRAY, Some ''{sa{sv}}'')"
      "wv a = map (\<lambda>i. iface_entry (c_str (sk_ifaces s ! i)) (prop_values s pv (ps i))) [0..<length (sk_ifaces s)]"
    by (auto simp: open_vals open_ctx)
  have "list_all (\<lambda>v. dsig v = ''{sa{sv}}'') (wv a)" by (simp add: a(3) list_all_iff object_sigs)
  with a i show ?thesis
    by (simp add: serialize_object_def Let_def pbind_def preturn_def close_ctx close_array object_vals_def)
qed

lemma listable_sconn [simp]: "listable (s\<lparr>sconn := c\<rparr>) ps pv = listable s ps pv"
  by (simp add: listable_def lists_ok_def snapshot_def)

lemma object_vals_sconn [simp]: "object_vals (s\<lparr>sconn := c\<rparr>) ps pv = object_vals s ps pv"
  by (simp add: object_vals_def prop_values_def)

lemma in_object_vals:
  assumes o: "object_at (user m) o1 = Some s" and l: "listable s ps pv"
  shows "\<exists>a. in_object o1 (serialize_object L U iter) m = Some (Inr a, m) \<and> wk a = wk iter \<and> wv a = wv iter @ object_vals s ps pv"
proof -
  from l obtain a where "serialize_object L U iter (s\<lparr>sconn := sconn m\<rparr>) = Some (Inr a, s\<lparr>sconn := sconn m\<rparr>)"
    "wk a = wk iter" "wv a = wv iter @ object_vals s ps pv"
    using serialize_object_vals [of "s\<lparr>sconn := sconn m\<rparr>" ps pv U iter] by auto
  moreover have "(object_at (user m))(o1 \<mapsto> s) = object_at (user m)" using o by (simp add: fun_upd_idem)
  ultimately show ?thesis using o by (simp add: in_object_def on_part_def upd_objects_def)
qed

lemma serialize_objects_vals:
  "\<forall>obj \<in> set os. object_at (user m) obj = Some (sv obj) \<and> listable (sv obj) (ps obj) (pv obj) \<Longrightarrow>
     \<exists>a. serialize_objects L U os arr m = Some (Inr a, m) \<and> wk a = wk arr \<and>
       wv a = wv arr @ map (\<lambda>obj. Cont DBUS_TYPE_DICT_ENTRY [] (object_vals (sv obj) (ps obj) (pv obj))) os"
proof (induction os arbitrary: arr)
  case Nil
  then show ?case by (simp add: preturn_def)
next
  case (Cons obj os)
  then have o: "object_at (user m) obj = Some (sv obj)" "listable (sv obj) (ps obj) (pv obj)"
    "\<forall>obj \<in> set os. object_at (user m) obj = Some (sv obj) \<and> listable (sv obj) (ps obj) (pv obj)" by simp_all
  from in_object_vals [OF o(1,2), of "U obj" "open_container L arr DBUS_TYPE_DICT_ENTRY None"] obtain a where
    a: "in_object obj (serialize_object L (U obj) (open_container L arr DBUS_TYPE_DICT_ENTRY None)) m = Some (Inr a, m)"
      "wk a = (DBUS_TYPE_DICT_ENTRY, None)" "wv a = object_vals (sv obj) (ps obj) (pv obj)"
    by (auto simp: open_vals open_ctx)
  then have "wv (close_container L arr a) = wv arr @ [Cont DBUS_TYPE_DICT_ENTRY [] (object_vals (sv obj) (ps obj) (pv obj))]"
    by (simp add: object_vals_def close_entry)
  with Cons.IH [OF o(3), of "close_container L arr a"] a(1) show ?case by (auto simp: pbind_def close_ctx)
qed

end

section \<open>Listing and announcing\<close>

text \<open>
  A skeleton whose names can be sent and whose properties hold values of types with a codec:
  \<open>val p\<close> is the value of property \<open>p\<close>, \<open>ps i\<close> are the properties of interface \<open>i\<close>.
\<close>

definition readable ::
  "('w, 'r) dbus_iter_api \<Rightarrow> (basic \<Rightarrow> bool) \<Rightarrow> ('w \<Rightarrow> char \<times> string option) \<Rightarrow> ('w \<Rightarrow> dval list) \<Rightarrow> ('r \<Rightarrow> dval list)
     \<Rightarrow> ('v \<Rightarrow> bool) \<Rightarrow> (nat \<Rightarrow> 'v \<Rightarrow> dval) \<Rightarrow> (nat \<Rightarrow> 'v) \<Rightarrow> ('b, 'w, 'r, 'v, 'u) server \<Rightarrow> (nat \<Rightarrow> nat list) \<Rightarrow> bool" where
  "readable L bvalid wk wv rv ok cv val s ps \<longleftrightarrow>
     (\<exists>ms gs. lists_ok s ms ps gs) \<and> bvalid (BObjectPath (c_str (sk_objectpath s))) \<and>
     (\<forall>i < length (sk_ifaces s). bvalid (BString (c_str (sk_ifaces s ! i))) \<and>
       (\<forall>p \<in> set (ps i). codec L bvalid wk wv rv (sp_codec (sprop_at s p)) ok (cv p) \<and>
         sp_store (sprop_at s p) = Holds (val p) \<and> ok (val p) \<and> bvalid (BString (c_str (sp_name (sprop_at s p))))))"

lemma readable_listable:
  fixes K :: "('b, 'w, 'r) dbus_conn_api" and s :: "('b, 'w, 'r, 'v, 'u) server"
  assumes "server_env L bvalid wk wv rv K rules sent paths timeouts" and "readable L bvalid wk wv rv ok cv val s ps"
  shows "server_env.listable L bvalid wk wv s ps (\<lambda>p. cv p (val p))"
proof -
  have "server_env.appends_variant wk wv (\<lambda>iter. PropertyCodec_encode L (sp_codec (sprop_at s p)) iter (val p)) (cv p (val p))"
    if "i < length (sk_ifaces s)" "p \<in> set (ps i)" for i p
    using assms(2) that by (intro server_env.property_encode_appends [where ok = ok, OF assms(1)]) (auto simp: readable_def)
  then have "server_env.snapshot L bvalid wk wv s (ps i) (\<lambda>p. cv p (val p))" if "i < length (sk_ifaces s)" for i
    using assms(2) that by (auto simp: server_env.snapshot_def [OF assms(1)] readable_def)
  with assms(2) show ?thesis by (auto simp: server_env.listable_def [OF assms(1)] readable_def)
qed

lemma single_interface_getall:
  assumes "server_env L bvalid wk wv rv K rules sent paths timeouts" and "readable L bvalid wk wv rv ok cv val s ps"
    and "sk_disp s" and "sk_ifaces s = [i]"
  shows "\<exists>s' answer. handle_property_getall_request L K U q 0 s = Some (Inr Handled, s') \<and>
    sent (sconn s') = sent (sconn s) @ [answer] \<and>
    wv (om_body answer) = [Cont DBUS_TYPE_ARRAY ''{sv}'' (map prop_entry (prop_values s (\<lambda>p. cv p (val p)) (ps 0)))]"
proof -
  note E = assms(1) and l = readable_listable [OF assms(1,2)]
  have z: "0 < length (sk_ifaces s)" using assms(4) by simp
  from assms(2) obtain ms gs where lk: "lists_ok s ms ps gs" by (auto simp: readable_def)
  have "server_env.snapshot L bvalid wk wv s (ps 0) (\<lambda>p. cv p (val p))"
    using l z by (auto simp: server_env.listable_def [OF E])
  from server_env.getall_request_vals [OF E assms(3) lk z this, of U q] show ?thesis
    by (auto simp: prop_values_def comp_def)
qed

text \<open>
  C24. \<open>GetManagedObjects\<close> is answered with one dictionary from the object path of each managed
  object, in the order of their addresses, to its interfaces, name \<open>i\<close> of the list of names with the
  values of property list \<open>i\<close>. For an object with one interface this is its name with exactly the
  properties that the object itself answers a \<open>GetAll\<close> request for this interface with. For an object with
  several interfaces name \<open>i\<close> and property list \<open>i\<close> do not belong together, see below.
\<close>

theorem managed_objects_listed:
  assumes "server_env L bvalid wk wv rv K rules sent paths timeouts" and "sk_disp m"
    and "\<forall>obj \<in> set (objects (user m)). object_at (user m) obj = Some (sv obj) \<and>
      readable L bvalid wk wv rv ok cv (val obj) (sv obj) (ps obj)"
  shows "\<exists>reply. managed_objects_request L K U msg m = Some (Inr Handled, m\<lparr>sconn := connection_send K (sconn m) reply\<rparr>) \<and>
    reply_for msg reply \<and> wv (om_body reply) = [Cont DBUS_TYPE_ARRAY ''{oa{sa{sv}}}''
      (map (\<lambda>obj. Cont DBUS_TYPE_DICT_ENTRY [] (object_vals (sv obj) (ps obj) (\<lambda>p. cv p (val obj p)))) (objects (user m)))] \<and>
    (\<forall>obj \<in> set (objects (user m)). \<forall>i q. sk_disp (sv obj) \<longrightarrow> sk_ifaces (sv obj) = [i] \<longrightarrow>
      (\<exists>s' answer props. handle_property_getall_request L K (U obj) q 0 (sv obj) = Some (Inr Handled, s') \<and>
        sent (sconn s') = sent (sconn (sv obj)) @ [answer] \<and> wv (om_body answer) = [Cont DBUS_TYPE_ARRAY ''{sv}'' props] \<and>
        object_vals (sv obj) (ps obj) (\<lambda>p. cv p (val obj p)) = [Basic (BObjectPath (c_str (sk_objectpath (sv obj)))),
          Cont DBUS_TYPE_ARRAY ''{sa{sv}}'' [Cont DBUS_TYPE_DICT_ENTRY [] [Basic (BString (c_str i)), Cont DBUS_TYPE_ARRAY ''{sv}'' props]]]))"
proof -
  let ?arr = "open_container L (message_iter K) DBUS_TYPE_ARRAY (Some ''{oa{sa{sv}}}'')"
  note E = assms(1)
  then have D: "dbus_iter L bvalid wk wv rv" by (rule server_env.axioms(1))
  have "\<forall>obj \<in> set (objects (user m)). object_at (user m) obj = Some (sv obj) \<and>
      server_env.listable L bvalid wk wv (sv obj) (ps obj) (\<lambda>p. cv p (val obj p))"
    using assms(3) readable_listable [OF E] by blast
  from server_env.serialize_objects_vals [OF E this, of U ?arr] obtain a where
    a: "serialize_objects L U (objects (user m)) ?arr m = Some (Inr a, m)" "wk a = (DBUS_TYPE_ARRAY, Some ''{oa{sa{sv}}}'')"
      "wv a = map (\<lambda>obj. Cont DBUS_TYPE_DICT_ENTRY [] (object_vals (sv obj) (ps obj) (\<lambda>p. cv p (val obj p)))) (objects (user m))"
    by (auto simp: dbus_iter.open_vals [OF D] dbus_iter.open_ctx [OF D])
  have "list_all (\<lambda>v. dsig v = ''{oa{sa{sv}}}'') (wv a)" by (simp add: a(3) list_all_iff object_sigs del: dsig.simps)
  with a have "wv (close_container L (message_iter K) a) = [Cont DBUS_TYPE_ARRAY ''{oa{sa{sv}}}'' (wv a)]"
    by (simp add: dbus_iter.close_array [OF D] server_env.new_message_empty [OF E])
  moreover have "\<exists>s' answer props. handle_property_getall_request L K (U obj) q 0 (sv obj) = Some (Inr Handled, s') \<and>
      sent (sconn s') = sent (sconn (sv obj)) @ [answer] \<and> wv (om_body answer) = [Cont DBUS_TYPE_ARRAY ''{sv}'' props] \<and>
      object_vals (sv obj) (ps obj) (\<lambda>p. cv p (val obj p)) = [Basic (BObjectPath (c_str (sk_objectpath (sv obj)))),
        Cont DBUS_TYPE_ARRAY ''{sa{sv}}'' [Cont DBUS_TYPE_DICT_ENTRY [] [Basic (BString (c_str i)), Cont DBUS_TYPE_ARRAY ''{sv}'' props]]]"
    if "obj \<in> set (objects (user m))" "sk_disp (sv obj)" "sk_ifaces (sv obj) = [i]" for obj i q
    using single_interface_getall [OF E _ that(2,3), of ok cv "val obj" "ps obj" "U obj" q] assms(3) that(1,3)
    by (auto simp: object_vals_def iface_entry_def)
  ultimately show ?thesis
    using a assms(2)
    by (intro exI [of _ "message_new_method_return msg (close_container L (message_iter K) a)"])
      (simp add: managed_objects_request_def Let_def pbind_def server_send_def preturn_def reply_for_def
        message_new_method_return_def)
qed

text \<open>An object manager that lists its objects meets what its skeleton needs of it.\<close>

lemma managed_objects_served:
  assumes "server_env L bvalid wk wv rv K rules sent paths timeouts" and "sk_disp m"
    and "\<forall>obj \<in> set (objects (user m)). object_at (user m) obj = Some (sv obj) \<and>
      server_env.listable L bvalid wk wv (sv obj) (ps obj) (pv obj)"
    and "objectmanager_request V = managed_objects_request L K U"
  shows "objectmanager_served sent V msg m"
proof -
  note E = assms(1)
  then have C: "dbus_conn K rules sent paths timeouts" by (rule server_env.axioms(2))
  from server_env.serialize_objects_vals [OF E assms(3)] obtain a where
    "serialize_objects L U (objects (user m)) (open_container L (message_iter K) DBUS_TYPE_ARRAY (Some ''{oa{sa{sv}}}'')) m =
      Some (Inr a, m)" by blast
  with assms(2,4) show ?thesis
    by (simp add: objectmanager_served_def managed_objects_request_def pbind_def server_send_def preturn_def
        replies_def dbus_conn.send_sent [OF C] one_reply_def reply_for_def message_new_method_return_def)
qed

text \<open>The skeleton of the server's theory, managed by another one.\<close>

type_synonym sample_manager = "(ref_w rec_conn, ref_w, dval list, string, unit) manager"

definition manager0 :: sample_manager where
  "manager0 = \<lparr>sconn = rec_conn0, sk_ifaces = [], sk_busname = ''a.M'', sk_objectpath = ''/m'', sk_disp = True,
     current_request = descriptor_new, method_heads = [], property_heads = [], signal_heads = [],
     method_at = (\<lambda>_. \<lparr>sm_name = [], sm_next = None, sm_args = \<lambda>r. throw DecoderError, sm_cb = False,
       sm_throw = ErrorFactory_Error_reply ref_api ref_root, sm_xml = []\<rparr>),
     sprop_at = (\<lambda>_. sprop_at blank0 0), ssig_at = (\<lambda>_. ssig_at blank0 0),
     user = \<lparr>object_at = [7 \<mapsto> server0], objects = [7]\<rparr>\<rparr>"

lemma manager0_fields:
  "sk_disp manager0" "object_at (user manager0) = [7 \<mapsto> server0]" "objects (user manager0) = [7]"
  "sk_objectpath manager0 = ''/m''" "sconn manager0 = rec_conn0"
  by (simp_all add: manager0_def)

lemma server0_readable:
  "readable ref_api (\<lambda>_. True) fst snd (\<lambda>r. r) nul_free (\<lambda>_ s. Basic (BString (c_str s))) (\<lambda>_. ''x'') server0 (\<lambda>_. [0])"
  using server0_lists string_codec0 by (auto simp: readable_def server0_fields NUL_def)

abbreviation server0_vals :: "dval list" where
  "server0_vals \<equiv> [Basic (BObjectPath ''/a/B/r''), Cont DBUS_TYPE_ARRAY ''{sa{sv}}'' [Cont DBUS_TYPE_DICT_ENTRY []
     [Basic (BString ''a.B''), Cont DBUS_TYPE_ARRAY ''{sv}'' [Cont DBUS_TYPE_DICT_ENTRY []
       [Basic (BString ''prop''), Cont DBUS_TYPE_VARIANT ''s'' [Basic (BString ''x'')]]]]]]"

lemma server0_object_vals: "object_vals server0 (\<lambda>_. [0]) (\<lambda>p. Basic (BString (c_str ''x''))) = server0_vals"
  by (simp add: object_vals_def server0_fields iface_entry_def prop_values_def prop_entry_def c_str_id NUL_def)

theorem managed_objects_listed_witness:
  "\<exists>reply. managed_objects_request ref_api K0 (\<lambda>_. code0) echo_msg manager0 =
      Some (Inr Handled, manager0\<lparr>sconn := connection_send K0 rec_conn0 reply\<rparr>) \<and>
    snd (om_body reply) = [Cont DBUS_TYPE_ARRAY ''{oa{sa{sv}}}'' [Cont DBUS_TYPE_DICT_ENTRY [] server0_vals]]"
proof -
  have "\<forall>obj \<in> set (objects (user manager0)). object_at (user manager0) obj = Some server0 \<and>
      readable ref_api (\<lambda>_. True) fst snd (\<lambda>r. r) nul_free (\<lambda>_ s. Basic (BString (c_str s))) (\<lambda>_. ''x'') server0 (\<lambda>_. [0])"
    by (simp add: manager0_fields server0_readable)
  from managed_objects_listed [OF rec_srv.server_env_axioms manager0_fields(1) this]
  show ?thesis by (simp add: manager0_fields server0_object_vals) blast
qed

text \<open>
  Adding a skeleton to the manager sends one \<open>InterfacesAdded\<close> signal with what
  \<open>GetManagedObjects\<close> lists for it, and removing it one \<open>InterfacesRemoved\<close> signal with its
  path and interface names; the managed objects are then as if it had not been added.
\<close>

theorem added_object_announced:
  assumes "server_env L bvalid wk wv rv K rules sent paths timeouts" and "sk_disp m" and "obj \<notin> set (objects (user m))"
    and "sorted_wrt (<) (objects (user m))"
    and "object_at (user m) obj = Some s" and "readable L bvalid wk wv rv ok cv val s ps"
  shows "\<exists>added m1 removed m2. add_managed_object L K U obj m = Some (Inr (), m1) \<and>
    remove_managed_object L K obj m1 = Some (Inr (), m2) \<and> sent (sconn m2) = sent (sconn m) @ [added, removed] \<and>
    objects (user m1) = set_insert obj (objects (user m)) \<and> user m2 = user m \<and>
    om_member added = Some ''InterfacesAdded'' \<and> wv (om_body added) = object_vals s ps (\<lambda>p. cv p (val p)) \<and>
    om_member removed = Some ''InterfacesRemoved'' \<and> wv (om_body removed) = [Basic (BObjectPath (c_str (sk_objectpath s))),
      Cont DBUS_TYPE_ARRAY ''s'' (map (\<lambda>i. Basic (BString (c_str i))) (sk_ifaces s))]"
proof -
  note E = assms(1)
  then have D: "dbus_iter L bvalid wk wv rv" and C: "dbus_conn K rules sent paths timeouts"
    by (rule server_env.axioms(1)) (rule server_env.axioms(2) [OF E])
  let ?m = "upd_objects (\<lambda>t. t\<lparr>objects := set_insert obj (objects t)\<rparr>) m"
  have o: "object_at (user ?m) obj = Some s" using assms(5) by (simp add: upd_objects_def)
  from server_env.in_object_vals [OF E o readable_listable [OF E assms(6)], of "U obj" "message_iter K"] obtain a where
    a: "in_object obj (serialize_object L (U obj) (message_iter K)) ?m = Some (Inr a, ?m)"
      "wv a = object_vals s ps (\<lambda>p. cv p (val p))"
    by (auto simp: server_env.new_message_empty [OF E])
  let ?added = "message_new_signal (c_str (sk_objectpath m)) ''org.freedesktop.DBus.ObjectManager'' ''InterfacesAdded'' a"
  let ?m1 = "?m\<lparr>sconn := connection_send K (sconn m) ?added\<rparr>"
  have add: "add_managed_object L K U obj m = Some (Inr (), ?m1)"
    using a assms(2) by (simp add: add_managed_object_def pbind_def pmodify_def manager_signal_def server_send_def preturn_def)
      (simp add: upd_objects_def)
  let ?it = "ObjectPathCodec_encode L (message_iter K) (ObjectPath (c_str (sk_objectpath s)))"
  let ?arr = "fold (\<lambda>i arr. StringCodec_encode L arr i) (sk_ifaces s) (open_container L ?it DBUS_TYPE_ARRAY (Some ''s''))"
  let ?removed = "message_new_signal (c_str (sk_objectpath m)) ''org.freedesktop.DBus.ObjectManager'' ''InterfacesRemoved''
    (close_container L ?it ?arr)"
  have rem1: "remove1 obj (set_insert obj xs) = xs" if "obj \<notin> set xs" for xs
    using that by (induction obj xs rule: set_insert.induct) auto
  have m2: "remove_managed_object L K obj ?m1 = Some (Inr (), m\<lparr>sconn := connection_send K (sconn ?m1) ?removed\<rparr>)"
    using assms(2,3,5)
    by (simp add: remove_managed_object_def pbind_def pmodify_def in_object_def on_part_def upd_objects_def rem1 Let_def
        preturn_def manager_signal_def server_send_def fun_upd_idem)
  have i: "wv ?it = [Basic (BObjectPath (c_str (sk_objectpath s)))]"
    using assms(6) by (simp add: ObjectPathCodec_encode_def dbus_iter.append_basic_vals [OF D] readable_def
        server_env.new_message_empty [OF E])
  have "\<forall>i \<in> set is. bvalid (BString (c_str i)) \<Longrightarrow>
      wv (fold (\<lambda>i arr. StringCodec_encode L arr i) is x) = wv x @ map (\<lambda>i. Basic (BString (c_str i))) is \<and>
      wk (fold (\<lambda>i arr. StringCodec_encode L arr i) is x) = wk x" for "is" x
    by (induction "is" arbitrary: x) (simp_all add: server_env.encode_string [OF E])
  moreover have "\<forall>i \<in> set (sk_ifaces s). bvalid (BString (c_str i))"
    using assms(6) by (auto simp: readable_def in_set_conv_nth)
  ultimately have arr: "wv ?arr = map (\<lambda>i. Basic (BString (c_str i))) (sk_ifaces s)" "wk ?arr = (DBUS_TYPE_ARRAY, Some ''s'')"
    by (simp_all add: dbus_iter.open_vals [OF D] dbus_iter.open_ctx [OF D])
  then have "wv (close_container L ?it ?arr) = [Basic (BObjectPath (c_str (sk_objectpath s))),
      Cont DBUS_TYPE_ARRAY ''s'' (map (\<lambda>i. Basic (BString (c_str i))) (sk_ifaces s))]"
    by (simp add: dbus_iter.close_array [OF D] i list_all_iff)
  moreover have "sent (connection_send K (sconn ?m1) ?removed) = sent (sconn m) @ [?added, ?removed]"
    by (simp add: dbus_conn.send_sent [OF C])
  moreover have "objects (user ?m1) = set_insert obj (objects (user m))" by (simp add: upd_objects_def)
  ultimately show ?thesis
    using add m2 a(2)
    by - (rule exI [of _ ?added], rule exI [of _ ?m1], rule exI [of _ ?removed],
      rule exI [of _ "m\<lparr>sconn := connection_send K (sconn ?m1) ?removed\<rparr>"], intro conjI,
      (assumption | simp add: message_new_signal_def)+)
qed

theorem added_object_announced_witness:
  "\<exists>m1 m2 added removed. add_managed_object ref_api K0 (\<lambda>_. code0) 7 (upd_objects (\<lambda>t. t\<lparr>objects := []\<rparr>) manager0) = Some (Inr (), m1) \<and>
     remove_managed_object ref_api K0 7 m1 = Some (Inr (), m2) \<and> rc_sent (sconn m2) = [added, removed] \<and>
     snd (om_body added) = server0_vals \<and>
     snd (om_body removed) = [Basic (BObjectPath ''/a/B/r''), Cont DBUS_TYPE_ARRAY ''s'' [Basic (BString ''a.B'')]]"
proof -
  let ?m = "upd_objects (\<lambda>t. t\<lparr>objects := []\<rparr>) manager0"
  have "sk_disp ?m" "7 \<notin> set (objects (user ?m))" "sorted_wrt (<) (objects (user ?m))" "object_at (user ?m) 7 = Some server0"
    by (simp_all add: upd_objects_def manager0_fields)
  from added_object_announced [OF rec_srv.server_env_axioms this server0_readable, where U = "\<lambda>_. code0"]
  obtain m1 m2 added removed where "add_managed_object ref_api K0 (\<lambda>_. code0) 7 ?m = Some (Inr (), m1)"
    "remove_managed_object ref_api K0 7 m1 = Some (Inr (), m2)" "rc_sent (sconn m2) = rc_sent (sconn ?m) @ [added, removed]"
    "snd (om_body added) = object_vals server0 (\<lambda>_. [0]) (\<lambda>p. Basic (BString (c_str ''x'')))"
    "snd (om_body removed) = [Basic (BObjectPath (c_str (sk_objectpath server0))),
      Cont DBUS_TYPE_ARRAY ''s'' (map (\<lambda>i. Basic (BString (c_str i))) (sk_ifaces server0))]"
    by metis
  then show ?thesis
    unfolding server0_object_vals
    by (intro exI conjI) (assumption | simp add: server0_fields upd_objects_def manager0_fields rec_conn0_def c_str_id NUL_def)+
qed

section \<open>Deviations\<close>

text \<open>
  C34. The object manager mixes up the properties of a skeleton with several interfaces: it writes
  the first interface name, which has the highest id, with the properties of id 0. A \<open>GetAll\<close>
  request for that name, which \<open>find_interface\<close> resolves to the id, is answered with the others.
\<close>

theorem managed_interfaces_mixed_up:
  assumes "server_env L bvalid wk wv rv K rules sent paths timeouts" and "sk_disp s" and "sk_ifaces s = [a, b]"
    and "readable L bvalid wk wv rv ok cv val s ps"
  shows "find_interface (sk_ifaces s) a = 1 \<and>
    (\<exists>s' reply. handle_property_getall_request L K U msg 1 s = Some (Inr Handled, s') \<and> sent (sconn s') = sent (sconn s) @ [reply] \<and>
      wv (om_body reply) = [Cont DBUS_TYPE_ARRAY ''{sv}'' (map prop_entry (prop_values s (\<lambda>p. cv p (val p)) (ps 1)))]) \<and>
    (\<exists>it. serialize_object L U iter s = Some (Inr it, s) \<and>
      wv it = wv iter @ [Basic (BObjectPath (c_str (sk_objectpath s))), Cont DBUS_TYPE_ARRAY ''{sa{sv}}''
        [iface_entry (c_str a) (prop_values s (\<lambda>p. cv p (val p)) (ps 0)),
         iface_entry (c_str b) (prop_values s (\<lambda>p. cv p (val p)) (ps 1))]])"
proof -
  let ?pv = "\<lambda>p. cv p (val p)"
  note E = assms(1) and l = readable_listable [OF assms(1,4)]
  have one: "1 < length (sk_ifaces s)" using assms(3) by simp
  from assms(4) obtain ms gs where lk: "lists_ok s ms ps gs" by (auto simp: readable_def)
  have sn: "server_env.snapshot L bvalid wk wv s (ps 1) ?pv" using l one by (auto simp: server_env.listable_def [OF E])
  have f: "find_interface (sk_ifaces s) a = 1" by (simp add: find_interface_def assms(3))
  from server_env.getall_request_vals [OF E assms(2) lk one sn, of U msg]
  have g: "\<exists>s' reply. handle_property_getall_request L K U msg 1 s = Some (Inr Handled, s') \<and> sent (sconn s') = sent (sconn s) @ [reply] \<and>
      wv (om_body reply) = [Cont DBUS_TYPE_ARRAY ''{sv}'' (map prop_entry (prop_values s ?pv (ps 1)))]"
    by (auto simp: prop_values_def comp_def)
  from server_env.serialize_object_vals [OF E l, of U iter]
  have "\<exists>it. serialize_object L U iter s = Some (Inr it, s) \<and> wv it = wv iter @ object_vals s ps ?pv" by blast
  moreover have "[0..<length (sk_ifaces s)] = [0, 1]" by (simp add: assms(3) numeral_2_eq_2)
  then have "object_vals s ps ?pv = [Basic (BObjectPath (c_str (sk_objectpath s))), Cont DBUS_TYPE_ARRAY ''{sa{sv}}''
      [iface_entry (c_str a) (prop_values s ?pv (ps 0)), iface_entry (c_str b) (prop_values s ?pv (ps 1))]]"
    by (simp only: object_vals_def list.map) (simp add: assms(3))
  ultimately show ?thesis using f g by simp
qed

text \<open>Interface \<open>a.A\<close> has the property \<open>pa\<close>, interface \<open>a.B\<close> the property \<open>pb\<close>.\<close>

definition server2 :: sample_server where
  "server2 = (ServerPropertyBase_new 1 ''pb'' 0 (ServerPropertyBase_new 0 ''pa'' 1 (SkeletonBase_new 2 blank0)))
     \<lparr>sk_ifaces := [''a.A'', ''a.B''], sk_objectpath := ''/a'', sk_disp := True\<rparr>"

lemma server2_lists: "lists_ok server2 (\<lambda>_. []) (\<lambda>i. if i = 0 then [1] else [0]) (\<lambda>_. [])"
  by (simp add: lists_ok_def server2_def ServerPropertyBase_new_def SkeletonBase_new_def blank0_def numeral_2_eq_2
      less_Suc_eq All_less_Suc)

theorem managed_interfaces_mixed_up_witness:
  "\<exists>it. serialize_object ref_api code0 ref_root server2 = Some (Inr it, server2) \<and>
     snd it = [Basic (BObjectPath ''/a''), Cont DBUS_TYPE_ARRAY ''{sa{sv}}''
       [iface_entry ''a.A'' [(''pb'', Basic (BString ''x''))], iface_entry ''a.B'' [(''pa'', Basic (BString ''x''))]]]"
proof -
  let ?ps = "\<lambda>i::nat. if i = 0 then [1::nat] else [0]"
  have f: "sk_disp server2" "sk_ifaces server2 = [''a.A'', ''a.B'']" "sp_store (sprop_at server2 p) = Holds ''x''"
    "sp_codec (sprop_at server2 p) = string_codec ref_api" "sk_objectpath server2 = ''/a''"
    "sp_name (sprop_at server2 0) = ''pa''" "sp_name (sprop_at server2 (Suc 0)) = ''pb''" for p
    by (simp_all add: server2_def ServerPropertyBase_new_def SkeletonBase_new_def blank0_def)
  have "readable ref_api (\<lambda>_. True) fst snd (\<lambda>r. r) nul_free (\<lambda>_ s. Basic (BString (c_str s))) (\<lambda>_. ''x'') server2 ?ps"
    using server2_lists string_codec0 by (auto simp: readable_def f NUL_def)
  from managed_interfaces_mixed_up [OF rec_srv.server_env_axioms f(1,2) this, where U = code0 and iter = ref_root]
  show ?thesis by (simp add: prop_values_def f ref_root_def c_str_id NUL_def)
qed

lemma in_object_keeps: "in_object q f m = Some (r, m') \<Longrightarrow> object_at (user m) p = None \<Longrightarrow> object_at (user m') p = None"
  by (auto simp: in_object_def on_part_eq_Some upd_objects_def split: option.splits)

lemma serialize_objects_dangling:
  "p \<in> set os \<Longrightarrow> object_at (user m) p = None \<Longrightarrow> serialize_objects L U os arr m \<noteq> Some (Inr a, m')"
proof (induction os arbitrary: arr m)
  case (Cons q os)
  show ?case
  proof (cases "q = p")
    case True
    with Cons.prems(2) show ?thesis by (simp add: pbind_def in_object_def pthrow_def)
  next
    case False
    with Cons show ?thesis by (auto simp: pbind_eq_Some dest: in_object_keeps)
  qed
qed simp

text \<open>
  Destroying a skeleton does not take it off the object manager's list: while a destroyed
  skeleton is on it, no \<open>GetManagedObjects\<close> request is answered. What happens instead is
  undefined, as the manager follows the dangling pointer.
\<close>

theorem destroyed_object_listed:
  assumes "obj \<in> set (objects (user m))" and "object_at (user m) obj = None"
  shows "managed_objects_request L K U msg m \<noteq> Some (Inr r, m')"
  using serialize_objects_dangling [OF assms] by (auto simp: managed_objects_request_def Let_def pbind_eq_Some)

theorem destroyed_object_listed_witness:
  "managed_objects_request ref_api K0 (\<lambda>_. code0) echo_msg (upd_objects (\<lambda>t. t\<lparr>object_at := Map.empty\<rparr>) manager0) \<noteq>
     Some (Inr Handled, manager0)"
  by (rule destroyed_object_listed [of 7]) (simp_all add: upd_objects_def manager0_fields)

end
