(* ===== verification/Resources.thy ===== *)
theory Resources
  imports Requests
begin

text \<open>
  Objects that own something outside the process's memory: \<open>FileDescriptor\<close>
  (\<open>src/filedescriptor.cpp\<close>), the reference to a message in a \<open>ServerRequestDescriptor\<close>
  (\<open>src/serverrequestdescriptor.cpp\<close>) and \<open>PendingCall\<close> (\<open>src/pendingcall.cpp\<close>). The objects are
  kept in a store, as assignments may have the same object on both sides.
\<close>

section \<open>File descriptors\<close>

text \<open>\<open>owning\<close>: the destructor is \<open>close\<close> and not \<open>noop\<close>.\<close>

record fdesc =
  fd_val :: int
  owning :: bool

text \<open>
  The kernel's open descriptors, those of them the program itself has to close, the objects, and
  how often a descriptor was closed that was not open or not the object's to close.
\<close>

record fd_world =
  kopen :: "int set"
  user_fds :: "int set"
  descs :: "nat \<Rightarrow> fdesc option"
  bad_closes :: nat

definition close_fd :: "int \<Rightarrow> fd_world \<Rightarrow> fd_world" where
  "close_fd fd w =
     (if fd \<in> kopen w \<and> fd \<notin> user_fds w then w\<lparr>kopen := kopen w - {fd}\<rparr> else w\<lparr>bad_closes := Suc (bad_closes w)\<rparr>)"

text \<open>\<open>dup\<close> with the result \<open>r\<close>, which is negative when it fails.\<close>

definition dup_fd :: "int \<Rightarrow> fd_world \<Rightarrow> fd_world" where
  "dup_fd r w = (if r < 0 then w else w\<lparr>kopen := insert r (kopen w)\<rparr>)"

definition set_desc :: "nat \<Rightarrow> fdesc \<Rightarrow> fd_world \<Rightarrow> fd_world" where
  "set_desc i d w = w\<lparr>descs := (descs w)(i \<mapsto> d)\<rparr>"

definition FileDescriptor_default :: fdesc where
  "FileDescriptor_default = \<lparr>fd_val = - 1, owning = True\<rparr>"

definition FileDescriptor_own :: "int \<Rightarrow> fdesc" where
  "FileDescriptor_own fd = \<lparr>fd_val = fd, owning = True\<rparr>"

definition FileDescriptor_ref :: "int \<Rightarrow> fdesc" where
  "FileDescriptor_ref fd = \<lparr>fd_val = fd, owning = False\<rparr>"

text \<open>\<open>if (fd_ != -1) (*destructor_)(fd_)\<close>\<close>

definition run_destructor :: "fdesc \<Rightarrow> fd_world \<Rightarrow> fd_world" where
  "run_destructor d w = (if fd_val d \<noteq> - 1 \<and> owning d then close_fd (fd_val d) w else w)"

definition FileDescriptor_destroy :: "nat \<Rightarrow> fd_world \<Rightarrow> fd_world" where
  "FileDescriptor_destroy this w =
     (case descs w this of None \<Rightarrow> w | Some d \<Rightarrow> (run_destructor d w)\<lparr>descs := (descs w)(this := None)\<rparr>)"

text \<open>The copy of \<open>rhs\<close>; \<open>r\<close> is what \<open>dup\<close> returns if it is called.\<close>

definition copied :: "int \<Rightarrow> fdesc \<Rightarrow> int" where
  "copied r rhs = (if fd_val rhs \<noteq> - 1 then if \<not> owning rhs then fd_val rhs else r else - 1)"

definition dups :: "fdesc \<Rightarrow> bool" where
  "dups rhs \<longleftrightarrow> fd_val rhs \<noteq> - 1 \<and> owning rhs"

definition FileDescriptor_copy :: "int \<Rightarrow> nat \<Rightarrow> fdesc \<Rightarrow> fd_world \<Rightarrow> fd_world" where
  "FileDescriptor_copy r this rhs w =
     set_desc this \<lparr>fd_val = copied r rhs, owning = owning rhs\<rparr> (if dups rhs then dup_fd r w else w)"

definition FileDescriptor_copy_assign :: "int \<Rightarrow> nat \<Rightarrow> nat \<Rightarrow> fd_world \<Rightarrow> fd_world" where
  "FileDescriptor_copy_assign r this rhs w =
     (if this = rhs then w
      else case (descs w this, descs w rhs) of
        (Some d, Some e) \<Rightarrow>
          let w = run_destructor d w in
          set_desc this \<lparr>fd_val = copied r e, owning = owning e\<rparr> (if dups e then dup_fd r w else w)
      | _ \<Rightarrow> w)"

definition FileDescriptor_move :: "nat \<Rightarrow> nat \<Rightarrow> fd_world \<Rightarrow> fd_world" where
  "FileDescriptor_move this rhs w =
     (case descs w rhs of None \<Rightarrow> w | Some e \<Rightarrow> set_desc rhs (e\<lparr>fd_val := - 1\<rparr>) (set_desc this e w))"

text \<open>Assignments through \<open>this\<close> and \<open>rhs\<close> in the order of the code, as they may be the same.\<close>

definition FileDescriptor_move_assign :: "nat \<Rightarrow> nat \<Rightarrow> fd_world \<Rightarrow> fd_world" where
  "FileDescriptor_move_assign this rhs w =
     (case (descs w this, descs w rhs) of
        (Some d, Some e) \<Rightarrow>
          let w = run_destructor d w;
              w = set_desc this (d\<lparr>fd_val := fd_val e\<rparr>) w;
              w = set_desc rhs (the (descs w rhs)\<lparr>fd_val := - 1\<rparr>) w
          in set_desc this (the (descs w this)\<lparr>owning := owning (the (descs w rhs))\<rparr>) w
      | _ \<Rightarrow> w)"

definition FileDescriptor_assign_int :: "nat \<Rightarrow> int \<Rightarrow> fd_world \<Rightarrow> fd_world" where
  "FileDescriptor_assign_int this fd w =
     (case descs w this of None \<Rightarrow> w
      | Some d \<Rightarrow> set_desc this (d\<lparr>fd_val := if fd < 0 then - 1 else fd\<rparr>) (run_destructor d w))"

definition native_handle :: "nat \<Rightarrow> fd_world \<Rightarrow> int" where
  "native_handle this w = (case descs w this of None \<Rightarrow> - 1 | Some d \<Rightarrow> fd_val d)"

definition FileDescriptor_release :: "nat \<Rightarrow> fd_world \<Rightarrow> int \<times> fd_world" where
  "FileDescriptor_release this w =
     (case descs w this of None \<Rightarrow> (- 1, w) | Some d \<Rightarrow> (fd_val d, set_desc this (d\<lparr>fd_val := - 1\<rparr>) w))"

text \<open>
  The codec. Reading a descriptor out of a message makes libdbus duplicate it: the number that is
  returned is open and the receiver's to close.
\<close>

definition FileDescriptorCodec_encode :: "('w, 'r) dbus_iter_api \<Rightarrow> 'w \<Rightarrow> nat \<Rightarrow> fd_world \<Rightarrow> 'w" where
  "FileDescriptorCodec_encode L iter this w =
     append_basic L iter DBUS_TYPE_UNIX_FD (BUnixFd (word_of_int (native_handle this w)))"

definition FileDescriptorCodec_decode ::
  "('w, 'r) dbus_iter_api \<Rightarrow> 'r \<Rightarrow> nat \<Rightarrow> fd_world \<Rightarrow> (fd_world \<times> 'r) res" where
  "FileDescriptorCodec_decode L iter this w =
     rbind (simppl_dbus_message_iter_get_basic L iter DBUS_TYPE_UNIX_FD) (\<lambda>(b, iter).
     ret (FileDescriptor_assign_int this (sint (un_unix_fd b)) w, iter))"

section \<open>Requests to be answered later\<close>

text \<open>
  Descriptors with the pointers they have, and how many references libdbus counts for each
  message; the reference of the caller is in \<open>base\<close>.
\<close>

record req_slot =
  slot_requestor :: "nat option"
  slot_msg :: "nat option"

record req_world =
  refs :: "nat \<Rightarrow> int"
  slots :: "nat \<Rightarrow> req_slot option"

definition set_slot :: "nat \<Rightarrow> req_slot \<Rightarrow> req_world \<Rightarrow> req_world" where
  "set_slot i s w = w\<lparr>slots := (slots w)(i \<mapsto> s)\<rparr>"

definition message_ref :: "int \<Rightarrow> nat option \<Rightarrow> req_world \<Rightarrow> req_world" where
  "message_ref n msg w = (case msg of None \<Rightarrow> w | Some m \<Rightarrow> w\<lparr>refs := (refs w)(m := refs w m + n)\<rparr>)"

definition slot_new :: req_slot where
  "slot_new = \<lparr>slot_requestor = None, slot_msg = None\<rparr>"

definition slot_clear :: "nat \<Rightarrow> req_world \<Rightarrow> req_world" where
  "slot_clear this w =
     (case slots w this of None \<Rightarrow> w | Some s \<Rightarrow> set_slot this slot_new (message_ref (- 1) (slot_msg s) w))"

definition slot_set :: "nat \<Rightarrow> nat option \<Rightarrow> nat option \<Rightarrow> req_world \<Rightarrow> req_world" where
  "slot_set this requester msg w =
     message_ref 1 msg (set_slot this \<lparr>slot_requestor = requester, slot_msg = msg\<rparr> (slot_clear this w))"

definition slot_move :: "nat \<Rightarrow> nat \<Rightarrow> req_world \<Rightarrow> req_world" where
  "slot_move this rhs w = (case slots w rhs of None \<Rightarrow> w | Some s \<Rightarrow> set_slot rhs slot_new (set_slot this s w))"

definition slot_move_assign :: "nat \<Rightarrow> nat \<Rightarrow> req_world \<Rightarrow> req_world" where
  "slot_move_assign this rhs w =
     (if this = rhs then w
      else case (slots w this, slots w rhs) of
        (Some _, Some s) \<Rightarrow> set_slot rhs slot_new (set_slot this s w)
      | _ \<Rightarrow> w)"

definition slot_destroy :: "nat \<Rightarrow> req_world \<Rightarrow> req_world" where
  "slot_destroy this w = (slot_clear this w)\<lparr>slots := (slots w)(this := None)\<rparr>"

section \<open>Pending calls\<close>

text \<open>
  \<open>pending_\<close> is a shared pointer: libdbus' call object lives while some object of the store holds
  it. \<open>cancelled\<close> are the calls \<open>dbus_pending_call_cancel\<close> was called for.
\<close>

record call_world =
  calls :: "nat \<Rightarrow> pending_call option"
  cancelled :: "nat set"

definition set_call :: "nat \<Rightarrow> pending_call \<Rightarrow> call_world \<Rightarrow> call_world" where
  "set_call i c w = w\<lparr>calls := (calls w)(i \<mapsto> c)\<rparr>"

definition PendingCall_default :: pending_call where
  "PendingCall_default = \<lparr>pc_serial = SIMPPL_INVALID_SERIAL, pc_pending = None\<rparr>"

definition PendingCall_new :: "32 word \<Rightarrow> nat option \<Rightarrow> pending_call" where
  "PendingCall_new serial p = \<lparr>pc_serial = serial, pc_pending = p\<rparr>"

definition PendingCall_reset :: "nat \<Rightarrow> call_world \<Rightarrow> call_world" where
  "PendingCall_reset this w = set_call this PendingCall_default w"

definition PendingCall_move :: "nat \<Rightarrow> nat \<Rightarrow> call_world \<Rightarrow> call_world" where
  "PendingCall_move this rhs w =
     (case calls w rhs of None \<Rightarrow> w | Some c \<Rightarrow> PendingCall_reset rhs (set_call this c w))"

definition PendingCall_copy_assign :: "nat \<Rightarrow> nat \<Rightarrow> call_world \<Rightarrow> call_world" where
  "PendingCall_copy_assign this rhs w =
     (if rhs = this then w else case calls w rhs of None \<Rightarrow> w | Some c \<Rightarrow> set_call this c w)"

definition PendingCall_cancel :: "nat \<Rightarrow> call_world \<Rightarrow> call_world" where
  "PendingCall_cancel this w =
     (case calls w this of None \<Rightarrow> w
      | Some c \<Rightarrow> PendingCall_reset this
          (case pc_pending c of None \<Rightarrow> w | Some p \<Rightarrow> w\<lparr>cancelled := insert p (cancelled w)\<rparr>))"

definition held_calls :: "call_world \<Rightarrow> nat set" where
  "held_calls w = {p. \<exists>i c. calls w i = Some c \<and> pc_pending c = Some p}"

end
