(* ===== verification/Ownership.thy ===== *)
theory Ownership
  imports Prelude
begin

text \<open>
  Two ways to account for resources that objects hold, for maps from objects to what they hold:
  exclusive ownership, where each resource has one owner that gives it back, and counted
  references, where the number of references is that of the objects holding one.
\<close>

section \<open>Exclusive ownership\<close>

definition one_owner :: "(nat \<Rightarrow> 'a option) \<Rightarrow> bool" where
  "one_owner f \<longleftrightarrow> (\<forall>i j x. f i = Some x \<longrightarrow> f j = Some x \<longrightarrow> i = j)"

text \<open>The live resources \<open>K\<close> are those in \<open>U\<close>, which nobody owns, and those with an owner.\<close>

definition own_ok :: "'a set \<Rightarrow> 'a set \<Rightarrow> (nat \<Rightarrow> 'a option) \<Rightarrow> bool" where
  "own_ok K U f \<longleftrightarrow> K = U \<union> ran f \<and> U \<inter> ran f = {} \<and> one_owner f"

lemma ran_lose: "one_owner f \<Longrightarrow> ran (f(i := None)) = ran f - set_option (f i)"
proof (intro set_eqI iffI)
  fix x assume o: "one_owner f" and "x \<in> ran (f(i := None))"
  then obtain a where "a \<noteq> i" "f a = Some x" by (auto simp: ran_def split: if_splits)
  with o show "x \<in> ran f - set_option (f i)" by (auto simp: ran_def one_owner_def)
next
  fix x assume "x \<in> ran f - set_option (f i)"
  then obtain a where "f a = Some x" "f i \<noteq> Some x" by (auto simp: ran_def)
  then have "(f(i := None)) a = Some x" by auto
  then show "x \<in> ran (f(i := None))" by (rule ranI)
qed

lemma ran_move:
  assumes "f i = None"
  shows "ran (f(i := f j, j := None)) = ran f"
proof (intro set_eqI iffI)
  fix x assume "x \<in> ran f"
  then obtain a where "f a = Some x" by (auto simp: ran_def)
  with assms have "(f(i := f j, j := None)) (if a = j then i else a) = Some x" by auto
  then show "x \<in> ran (f(i := f j, j := None))" by (rule ranI)
qed (auto simp: ran_def split: if_splits)

lemma one_owner_upd:
  "one_owner f \<Longrightarrow> one_owner (f(i := None))"
  "one_owner f \<Longrightarrow> r \<notin> ran f \<Longrightarrow> one_owner (f(i := Some r))"
  "one_owner f \<Longrightarrow> one_owner (f(i := f j, j := None))"
  by (auto simp: one_owner_def ran_def)

lemma own_ok_lose: "own_ok K U f \<Longrightarrow> own_ok (K - set_option (f i)) U (f(i := None))"
  by (cases "f i") (auto simp: own_ok_def ran_lose one_owner_upd dest: ranI [of f])

lemma own_ok_gain: "own_ok K U f \<Longrightarrow> f i = None \<Longrightarrow> r \<notin> K \<Longrightarrow> own_ok (insert r K) U (f(i := Some r))"
  by (auto simp: own_ok_def one_owner_upd)

text \<open>A new resource that nobody gets.\<close>

lemma own_ok_lost: "own_ok K U f \<Longrightarrow> r \<notin> K \<Longrightarrow> own_ok (insert r K) (insert r U) f"
  by (auto simp: own_ok_def)

lemma own_ok_take: "own_ok K U f \<Longrightarrow> f i = None \<Longrightarrow> r \<in> U \<Longrightarrow> own_ok K (U - {r}) (f(i := Some r))"
  by (auto simp: own_ok_def intro!: one_owner_upd)

lemma own_ok_give: "own_ok K U f \<Longrightarrow> f i = Some r \<Longrightarrow> own_ok K (insert r U) (f(i := None))"
  by (auto simp: own_ok_def ran_lose one_owner_upd intro: ranI)

lemma own_ok_move: "own_ok K U f \<Longrightarrow> f i = None \<Longrightarrow> own_ok K U (f(i := f j, j := None))"
  by (auto simp: own_ok_def ran_move one_owner_upd)

lemma own_ok_owned: "own_ok K U f \<Longrightarrow> f i = Some r \<Longrightarrow> r \<in> K \<and> r \<notin> U"
  by (auto simp: own_ok_def intro: ranI)

section \<open>Counted references\<close>

text \<open>How many of the objects below \<open>n\<close> hold \<open>m\<close>, and the references that nobody of them holds.\<close>

definition holders :: "nat \<Rightarrow> (nat \<Rightarrow> nat option) \<Rightarrow> nat \<Rightarrow> int" where
  "holders n f m = (\<Sum>i < n. if f i = Some m then 1 else 0)"

definition balance :: "nat \<Rightarrow> (nat \<Rightarrow> int) \<Rightarrow> (nat \<Rightarrow> nat option) \<Rightarrow> nat \<Rightarrow> int" where
  "balance n r f m = r m - holders n f m"

lemma holders_card: "holders n f m = int (card {i. i < n \<and> f i = Some m})"
proof -
  have "holders n f m = (\<Sum>i \<in> {i \<in> {..<n}. f i = Some m}. 1)"
    unfolding holders_def by (subst sum.inter_filter) simp_all
  also have "{i \<in> {..<n}. f i = Some m} = {i. i < n \<and> f i = Some m}" by auto
  finally show ?thesis by simp
qed

lemma holders_none: "\<forall>i < n. f i = None \<Longrightarrow> holders n f m = 0"
  by (simp add: holders_def)

lemma holders_upd:
  assumes "i < n"
  shows "holders n (f(i := x)) m = holders n f m - (if f i = Some m then 1 else 0) + (if x = Some m then 1 else 0)"
proof -
  have "holders n g m = (if g i = Some m then 1 else 0) + (\<Sum>j \<in> {..<n} - {i}. if g j = Some m then 1 else 0)" for g
    using assms by (simp add: holders_def sum.remove [of "{..<n}" i])
  from this [of f] this [of "f(i := x)"]
  have "holders n f m = (if f i = Some m then 1 else 0) + (\<Sum>j \<in> {..<n} - {i}. if f j = Some m then 1 else 0)"
    "holders n (f(i := x)) m = (if x = Some m then 1 else 0) + (\<Sum>j \<in> {..<n} - {i}. if (f(i := x)) j = Some m then 1 else 0)"
    by simp_all
  moreover have "(\<Sum>j \<in> {..<n} - {i}. if (f(i := x)) j = Some m then 1 else 0) =
      (\<Sum>j \<in> {..<n} - {i}. if f j = Some m then 1 else 0 :: int)"
    by (rule sum.cong) auto
  ultimately show ?thesis by simp
qed

text \<open>An object lets go of what it holds and takes something else, and the count follows.\<close>

lemma balance_set:
  assumes "i < n" and "r' m = r m + (if x = Some m then 1 else 0) - (if f i = Some m then 1 else 0)"
  shows "balance n r' (f(i := x)) m = balance n r f m"
  using assms by (simp add: balance_def holders_upd)

lemma balanceI:
  assumes "i < n" and "\<And>j. g j = (if j = i then x else f j)"
    and "r' m = r m + (if x = Some m then 1 else 0) - (if f i = Some m then 1 else 0)"
  shows "balance n r' g m = balance n r f m"
proof -
  have "g = f(i := x)" using assms(2) by auto
  with balance_set [of i n r' m r x f] assms show ?thesis by simp
qed

lemma balance_move:
  assumes "i < n" and "j < n" and "i \<noteq> j" and "f i = None"
  shows "balance n r (f(i := f j, j := None)) m = balance n r f m"
  using assms by (simp add: balance_def holders_upd)

end
