(* ===== verification/ResourcesCorrect.thy ===== *)
theory ResourcesCorrect
  imports Resources Ownership
begin

text \<open>
  Ownership: no descriptor is leaked, closed twice or closed under the program's feet, and the
  references to messages are balanced, as long as two assignments are not used on objects they
  are not made for.
\<close>

section \<open>File descriptors\<close>

text \<open>The descriptor an object has to close.\<close>

definition owned :: "fdesc \<Rightarrow> int option" where
  "owned d = (if owning d \<and> fd_val d \<noteq> - 1 then Some (fd_val d) else None)"

definition owns :: "fd_world \<Rightarrow> nat \<Rightarrow> int option" where
  "owns w i = Option.bind (descs w i) owned"

text \<open>
  What a program may do. A descriptor that is open and that nobody owns yet may be given to an
  object, by construction or by assignment; descriptors received in messages are such. An object
  made from a reference keeps \<open>noop\<close> as its destructor when a descriptor is assigned to it: it takes the
  descriptor and never closes it. \<open>X\<close> are the descriptors lost in this way; the program may still take
  one back by its number (\<open>native_handle\<close>, \<open>release\<close>).
\<close>

inductive fd_step :: "int set \<times> fd_world \<Rightarrow> int set \<times> fd_world \<Rightarrow> bool" where
  opened: "r \<notin> kopen w \<Longrightarrow> 0 \<le> r \<Longrightarrow>
    fd_step (X, w) (X, w\<lparr>kopen := insert r (kopen w), user_fds := insert r (user_fds w)\<rparr>)"
| closed: "r \<in> user_fds w \<Longrightarrow> fd_step (X, w) (X, w\<lparr>kopen := kopen w - {r}, user_fds := user_fds w - {r}\<rparr>)"
| default: "descs w i = None \<Longrightarrow> fd_step (X, w) (X, set_desc i FileDescriptor_default w)"
| own: "descs w i = None \<Longrightarrow> fd \<in> user_fds w \<Longrightarrow>
    fd_step (X, w) (X, set_desc i (FileDescriptor_own fd) (w\<lparr>user_fds := user_fds w - {fd}\<rparr>))"
| refer: "descs w i = None \<Longrightarrow> fd_step (X, w) (X, set_desc i (FileDescriptor_ref fd) w)"
| copy: "descs w i = None \<Longrightarrow> descs w j = Some e \<Longrightarrow> r = - 1 \<or> 0 \<le> r \<and> r \<notin> kopen w \<Longrightarrow>
    fd_step (X, w) (X, FileDescriptor_copy r i e w)"
| copy_assign: "descs w i = Some d \<Longrightarrow> descs w j \<noteq> None \<Longrightarrow> r = - 1 \<or> 0 \<le> r \<and> r \<notin> kopen (run_destructor d w) \<Longrightarrow>
    fd_step (X, w) (X, FileDescriptor_copy_assign r i j w)"
| move: "descs w i = None \<Longrightarrow> descs w j \<noteq> None \<Longrightarrow> fd_step (X, w) (X, FileDescriptor_move i j w)"
| move_assign: "descs w i \<noteq> None \<Longrightarrow> descs w j \<noteq> None \<Longrightarrow> fd_step (X, w) (X, FileDescriptor_move_assign i j w)"
| assign: "descs w i = Some d \<Longrightarrow> fd \<in> user_fds w \<or> fd < 0 \<Longrightarrow>
    fd_step (X, w) (if owning d \<or> fd < 0 then X else insert fd X,
      FileDescriptor_assign_int i fd w\<lparr>user_fds := user_fds w - {fd}\<rparr>)"
| take_back: "r \<in> X \<Longrightarrow> fd_step (X, w) (X - {r}, w\<lparr>user_fds := insert r (user_fds w)\<rparr>)"
| release: "descs w i \<noteq> None \<Longrightarrow> FileDescriptor_release i w = (fd, w') \<Longrightarrow>
    fd_step (X, w) (X, case owns w i of None \<Rightarrow> w' | Some fd \<Rightarrow> w'\<lparr>user_fds := insert fd (user_fds w)\<rparr>)"
| destroy: "fd_step (X, w) (X, FileDescriptor_destroy i w)"

text \<open>What is to be shown of every reachable state, of the map from objects to their descriptors.\<close>

definition fd_ok :: "int set \<Rightarrow> int set \<Rightarrow> (nat \<Rightarrow> int option) \<Rightarrow> bool" where
  "fd_ok K U f \<longleftrightarrow> own_ok K U f \<and> (\<forall>fd \<in> K. 0 \<le> fd)"

definition fd_inv :: "int set \<Rightarrow> fd_world \<Rightarrow> bool" where
  "fd_inv X w \<longleftrightarrow> bad_closes w = 0 \<and> fd_ok (kopen w) (user_fds w \<union> X) (owns w) \<and> user_fds w \<inter> X = {}"

lemmas fd_ok_iff = fd_ok_def own_ok_def

lemma fd_ok_lose: "fd_ok K U f \<Longrightarrow> fd_ok (K - set_option (f i)) U (f(i := None))"
  using own_ok_lose [of K U f i] by (auto simp: fd_ok_def)

lemma fd_ok_gain: "fd_ok K U f \<Longrightarrow> f i = None \<Longrightarrow> r \<notin> K \<Longrightarrow> 0 \<le> r \<Longrightarrow> fd_ok (insert r K) U (f(i := Some r))"
  using own_ok_gain [of K U f i r] by (auto simp: fd_ok_def)

lemma fd_ok_take: "fd_ok K U f \<Longrightarrow> f i = None \<Longrightarrow> r \<in> U \<Longrightarrow> fd_ok K (U - {r}) (f(i := Some r))"
  using own_ok_take [of K U f i r] by (auto simp: fd_ok_def)

lemma fd_ok_give: "fd_ok K U f \<Longrightarrow> f i = Some r \<Longrightarrow> fd_ok K (insert r U) (f(i := None))"
  using own_ok_give [of K U f i r] own_ok_owned [of K U f i r] by (auto simp: fd_ok_def)

lemma fd_ok_move: "fd_ok K U f \<Longrightarrow> f i = None \<Longrightarrow> fd_ok K U (f(i := f j, j := None))"
  using own_ok_move [of K U f i j] by (auto simp: fd_ok_def)

text \<open>The operations, as changes of that map.\<close>

lemma set_desc_simps [simp]:
  "owns (set_desc i d w) = (owns w)(i := owned d)" "kopen (set_desc i d w) = kopen w" "user_fds (set_desc i d w) = user_fds w"
  "bad_closes (set_desc i d w) = bad_closes w" "descs (set_desc i d w) = (descs w)(i \<mapsto> d)"
  by (auto simp: set_desc_def owns_def)

lemma dup_fd_simps [simp]:
  "owns (dup_fd r w) = owns w" "descs (dup_fd r w) = descs w" "user_fds (dup_fd r w) = user_fds w"
  "bad_closes (dup_fd r w) = bad_closes w" "kopen (dup_fd r w) = (if r < 0 then kopen w else insert r (kopen w))"
  by (auto simp: dup_fd_def owns_def)

lemma run_destructor_inv:
  assumes I: "fd_inv X w" and d: "descs w i = Some d"
  shows "descs (run_destructor d w) = descs w" "user_fds (run_destructor d w) = user_fds w"
    "bad_closes (run_destructor d w) = 0" "kopen (run_destructor d w) = kopen w - set_option (owns w i)"
    "fd_ok (kopen (run_destructor d w)) (user_fds w \<union> X) ((owns w)(i := None))"
proof -
  have o: "owns w i = owned d" using d by (simp add: owns_def)
  have "fd_val d \<in> kopen w \<and> fd_val d \<notin> user_fds w" if "owned d = Some (fd_val d)"
    using I that o own_ok_owned [of "kopen w" "user_fds w \<union> X" "owns w" i] by (simp add: fd_inv_def fd_ok_def)
  then show k: "descs (run_destructor d w) = descs w" "user_fds (run_destructor d w) = user_fds w"
    "bad_closes (run_destructor d w) = 0" "kopen (run_destructor d w) = kopen w - set_option (owns w i)"
    using I by (auto simp: run_destructor_def close_fd_def owned_def o fd_inv_def)
  show "fd_ok (kopen (run_destructor d w)) (user_fds w \<union> X) ((owns w)(i := None))"
    using I fd_ok_lose [of "kopen w" "user_fds w \<union> X" "owns w" i] by (simp add: k fd_inv_def)
qed

lemma copied_inv:
  assumes "fd_ok K U f" and "f i = None" and "r = - 1 \<or> 0 \<le> r \<and> r \<notin> K"
  shows "fd_ok (if dups e \<and> 0 \<le> r then insert r K else K) U (f(i := owned \<lparr>fd_val = copied r e, owning = owning e\<rparr>))"
proof (cases "dups e \<and> 0 \<le> r")
  case True
  with fd_ok_gain [OF assms(1,2), of r] assms(3) show ?thesis by (auto simp: dups_def copied_def owned_def)
next
  case False
  then have "owned \<lparr>fd_val = copied r e, owning = owning e\<rparr> = None"
    using assms(3) by (auto simp: dups_def copied_def owned_def)
  with False assms(1,2) show ?thesis by (auto simp: fun_upd_idem)
qed

lemma owns_upd: "owns (w\<lparr>descs := (descs w)(i := None)\<rparr>) = (owns w)(i := None)" "owns (w\<lparr>user_fds := U\<rparr>) = owns w"
  "owns (w\<lparr>kopen := K\<rparr>) = owns w"
  by (auto simp: owns_def)

lemma owns_cong: "descs w' = descs w \<Longrightarrow> owns w' = owns w"
  by (simp add: owns_def fun_eq_iff)

text \<open>The operations that close, hand over or lose something keep the invariant.\<close>

lemma fd_copy_assign_inv:
  assumes I: "fd_inv X w" and d: "descs w i = Some d" and "descs w j \<noteq> None"
    and r: "r = - 1 \<or> 0 \<le> r \<and> r \<notin> kopen (run_destructor d w)"
  shows "fd_inv X (FileDescriptor_copy_assign r i j w)"
proof (cases "i = j")
  case True
  with d I show ?thesis by (simp add: FileDescriptor_copy_assign_def)
next
  case False
  obtain e where e: "descs w j = Some e" using assms(3) by auto
  note D = run_destructor_inv [OF I d]
  have "fd_ok (if dups e \<and> 0 \<le> r then insert r (kopen (run_destructor d w)) else kopen (run_destructor d w))
      (user_fds w \<union> X) (((owns w)(i := None))(i := owned \<lparr>fd_val = copied r e, owning = owning e\<rparr>))"
    by (rule copied_inv [OF D(5) _ r]) simp
  with False e d D I show ?thesis
    by (auto simp: FileDescriptor_copy_assign_def Let_def fd_inv_def not_less owns_cong [OF D(1)] split: if_splits)
qed

lemma fd_move_inv:
  assumes I: "fd_inv X w" and "descs w i = None" and "descs w j \<noteq> None"
  shows "fd_inv X (FileDescriptor_move i j w)"
proof -
  obtain e where e: "descs w j = Some e" "owns w i = None" "owns w j = owned e"
    using assms(2,3) by (auto simp: owns_def)
  have "owned (e\<lparr>fd_val := - 1\<rparr>) = None" by (simp add: owned_def)
  with fd_ok_move [of "kopen w" "user_fds w \<union> X" "owns w" i j] e I show ?thesis
    by (simp add: FileDescriptor_move_def fd_inv_def)
qed

lemma fd_move_assign_inv:
  assumes I: "fd_inv X w" and "descs w i \<noteq> None" and "descs w j \<noteq> None"
  shows "fd_inv X (FileDescriptor_move_assign i j w)"
proof -
  from assms obtain d e where d: "descs w i = Some d" and e: "descs w j = Some e" by auto
  note D = run_destructor_inv [OF I d]
  have n: "owned (x\<lparr>fd_val := - 1\<rparr>) = None" "owned \<lparr>fd_val = - 1, owning = b\<rparr> = None" for x b by (simp_all add: owned_def)
  have u: "user_fds w \<inter> X = {}" using I by (simp add: fd_inv_def)
  show ?thesis
  proof (cases "i = j")
    case True
    with d e D n u show ?thesis
      by (simp add: FileDescriptor_move_assign_def Let_def fd_inv_def owns_cong [OF D(1)] owned_def)
  next
    case False
    have "owned (d\<lparr>fd_val := fd_val e, owning := owning e\<rparr>) = owns w j" by (simp add: owns_def e owned_def)
    moreover have "fd_ok (kopen (run_destructor d w)) (user_fds w \<union> X) ((owns w)(i := None, i := ((owns w)(i := None)) j, j := None))"
      by (rule fd_ok_move [OF D(5)]) simp
    ultimately show ?thesis
      using d e D n u False
      by (simp add: FileDescriptor_move_assign_def Let_def fd_inv_def owns_cong [OF D(1)] fun_upd_twist)
  qed
qed

lemma fd_assign_inv:
  assumes I: "fd_inv X w" and d: "descs w i = Some d" and fd: "fd \<in> user_fds w \<or> fd < 0"
  shows "fd_inv (if owning d \<or> fd < 0 then X else insert fd X)
    (FileDescriptor_assign_int i fd w\<lparr>user_fds := user_fds w - {fd}\<rparr>)"
proof -
  note D = run_destructor_inv [OF I d]
  have u: "user_fds w \<inter> X = {}" "\<forall>fd \<in> user_fds w. 0 \<le> fd" using I by (auto simp: fd_inv_def fd_ok_iff)
  show ?thesis
  proof (cases "fd < 0")
    case True
    with u(2) have "fd \<notin> user_fds w" by fastforce
    with True D d u show ?thesis
      by (simp add: FileDescriptor_assign_int_def fd_inv_def owned_def owns_upd owns_cong [OF D(1)])
  next
    case False
    with fd u(1) have e: "fd \<in> user_fds w" "(user_fds w \<union> X) - {fd} = (user_fds w - {fd}) \<union> X"
      "(user_fds w - {fd}) \<union> insert fd X = user_fds w \<union> X" by auto
    show ?thesis
    proof (cases "owning d")
      case True
      with fd_ok_take [OF D(5), of i fd] False D d u e show ?thesis
        by (auto simp: FileDescriptor_assign_int_def fd_inv_def owned_def owns_upd owns_cong [OF D(1)])
    next
      case lost: False
      with False D d u e show ?thesis
        by (auto simp: FileDescriptor_assign_int_def fd_inv_def owned_def owns_upd owns_cong [OF D(1)])
    qed
  qed
qed

lemma fd_release_inv:
  assumes I: "fd_inv X w" and "descs w i \<noteq> None" and rel: "FileDescriptor_release i w = (fd, w')"
  shows "fd_inv X (case owns w i of None \<Rightarrow> w' | Some fd \<Rightarrow> w'\<lparr>user_fds := insert fd (user_fds w)\<rparr>)"
proof -
  obtain d where "descs w i = Some d" using assms(2) by auto
  with rel have w': "w' = set_desc i (d\<lparr>fd_val := - 1\<rparr>) w" by (simp add: FileDescriptor_release_def)
  show ?thesis
  proof (cases "owns w i")
    case None
    with w' I show ?thesis by (simp add: fd_inv_def owned_def fun_upd_idem)
  next
    case (Some r)
    with I have r: "fd_ok (kopen w) (user_fds w \<union> X) (owns w)" "user_fds w \<inter> X = {}" "bad_closes w = 0"
      by (simp_all add: fd_inv_def)
    from r(1) Some have "r \<notin> X" by (auto simp: fd_ok_iff intro: ranI)
    with fd_ok_give [OF r(1) Some] w' Some r show ?thesis
      by (auto simp: fd_inv_def owns_upd owned_def)
  qed
qed

lemma fd_destroy_inv:
  assumes I: "fd_inv X w"
  shows "fd_inv X (FileDescriptor_destroy i w)"
proof (cases "descs w i")
  case None
  with I show ?thesis by (simp add: FileDescriptor_destroy_def)
next
  case (Some d)
  note D = run_destructor_inv [OF I Some]
  have "owns (run_destructor d w\<lparr>descs := (descs w)(i := None)\<rparr>) = (owns w)(i := None)" by (auto simp: owns_def)
  with Some D I show ?thesis by (simp add: FileDescriptor_destroy_def fd_inv_def)
qed

lemma fd_step_inv:
  assumes "fd_step s s'" and I: "case s of (X, w) \<Rightarrow> fd_inv X w"
  shows "case s' of (X, w) \<Rightarrow> fd_inv X w"
  using assms(1)
proof cases
  case (own w i fd X)
  with I have IX: "fd_inv X w" by simp
  with own have f: "owns w i = None" "0 \<le> fd" "(user_fds w \<union> X) - {fd} = (user_fds w - {fd}) \<union> X"
    by (auto simp: owns_def fd_inv_def fd_ok_iff)
  with own IX fd_ok_take [of "kopen w" "user_fds w \<union> X" "owns w" i fd] show ?thesis
    by (auto simp: fd_inv_def FileDescriptor_own_def owned_def owns_upd)
next
  case (copy w i j e r X)
  with I have "fd_ok (kopen w) (user_fds w \<union> X) (owns w)" "owns w i = None" by (simp_all add: owns_def fd_inv_def)
  from copied_inv [OF this copy(5), of e] copy I show ?thesis
    by (auto simp: FileDescriptor_copy_def fd_inv_def not_less split: if_splits)
next
  case (take_back r X w)
  then have "insert r (user_fds w) \<union> (X - {r}) = user_fds w \<union> X" by auto
  with take_back I show ?thesis by (auto simp: fd_inv_def owns_upd)
next
  case (default w i X)
  then have "owns w i = None" by (simp add: owns_def)
  with default I show ?thesis by (simp add: fd_inv_def FileDescriptor_default_def owned_def fun_upd_idem)
next
  case (refer w i X fd)
  then have "owns w i = None" by (simp add: owns_def)
  with refer I show ?thesis by (simp add: fd_inv_def FileDescriptor_ref_def owned_def fun_upd_idem)
next
  case (opened r w X)
  with I show ?thesis by (auto simp: fd_inv_def fd_ok_iff owns_upd)
next
  case (closed r w X)
  with I show ?thesis by (auto simp: fd_inv_def fd_ok_iff owns_upd)
qed (use I in \<open>simp_all add: fd_copy_assign_inv fd_move_inv fd_move_assign_inv fd_assign_inv fd_release_inv fd_destroy_inv\<close>)

text \<open>
  C27. Whatever descriptors a program opens, closes, wraps, copies, moves, assigns and releases: no
  object closes a descriptor that is not open or not its own, no two objects own the same one,
  and the open descriptors are exactly those the program has to close itself, those owned by an object
  and those that were assigned to an object made from a reference and not taken back since. Only the
  last ones are leaked: when all objects are destroyed, they and the program's own are left.
\<close>

theorem descriptors_closed_once:
  assumes "fd_step\<^sup>*\<^sup>* ({}, w0) (X, w)" and "\<forall>i. descs w0 i = None" and "bad_closes w0 = 0"
    and "kopen w0 = user_fds w0" and "\<forall>fd \<in> kopen w0. 0 \<le> fd"
  shows "bad_closes w = 0 \<and> kopen w = user_fds w \<union> X \<union> ran (owns w) \<and> (user_fds w \<union> X) \<inter> ran (owns w) = {} \<and>
    user_fds w \<inter> X = {} \<and> (\<forall>i j fd. owns w i = Some fd \<longrightarrow> owns w j = Some fd \<longrightarrow> i = j) \<and>
    ((\<forall>i. descs w i = None) \<longrightarrow> kopen w = user_fds w \<union> X)"
proof -
  have "owns w0 = Map.empty" using assms(2) by (simp add: owns_def fun_eq_iff)
  with assms(3-5) have I0: "fd_inv {} w0" by (simp add: fd_inv_def fd_ok_iff one_owner_def)
  have "case s of (X, w) \<Rightarrow> fd_inv X w" if "fd_step\<^sup>*\<^sup>* ({}, w0) s" for s
    using that I0 by induction (auto dest: fd_step_inv)
  from this [OF assms(1)] have I: "fd_inv X w" by simp
  have "ran (owns w) = {}" if "\<forall>i. descs w i = None" using that by (simp add: owns_def ran_def)
  with I show ?thesis by (auto simp: fd_inv_def fd_ok_iff one_owner_def)
qed

text \<open>Descriptor 3 is wrapped, copied with \<open>dup\<close>, the original moved onto itself, which closes it.\<close>

definition fd_world0 :: fd_world where
  "fd_world0 = \<lparr>kopen = {3}, user_fds = {3}, descs = Map.empty, bad_closes = 0\<rparr>"

theorem descriptors_closed_once_witness:
  "\<exists>w. fd_step\<^sup>*\<^sup>* ({}, fd_world0) ({}, w) \<and> descs w 0 = Some (FileDescriptor_default) \<and> descs w 1 = Some (FileDescriptor_own 4) \<and>
     kopen w = {4} \<and> bad_closes w = 0"
proof -
  let ?w1 = "set_desc 0 (FileDescriptor_own 3) (fd_world0\<lparr>user_fds := user_fds fd_world0 - {3}\<rparr>)"
  let ?w2 = "FileDescriptor_copy 4 1 (FileDescriptor_own 3) ?w1"
  let ?w3 = "FileDescriptor_move_assign 0 0 ?w2"
  have "fd_step ({}, fd_world0) ({}, ?w1)" by (rule fd_step.own) (simp_all add: fd_world0_def)
  moreover have "fd_step ({}, ?w1) ({}, ?w2)" by (rule fd_step.copy [of _ _ 0]) (simp_all add: fd_world0_def)
  moreover have "fd_step ({}, ?w2) ({}, ?w3)" by (rule fd_step.move_assign) (simp_all add: FileDescriptor_copy_def fd_world0_def)
  ultimately have r: "fd_step\<^sup>*\<^sup>* ({}, fd_world0) ({}, ?w3)" by (meson converse_rtranclp_into_rtranclp r_into_rtranclp)
  from descriptors_closed_once [OF r]
  have b: "bad_closes ?w3 = 0" "kopen ?w3 = user_fds ?w3 \<union> ran (owns ?w3)" by (simp_all add: fd_world0_def)
  have d: "descs ?w3 = [1 \<mapsto> FileDescriptor_own 4, 0 \<mapsto> FileDescriptor_default]" "user_fds ?w3 = {}"
    by (simp_all add: FileDescriptor_move_assign_def Let_def FileDescriptor_copy_def fd_world0_def FileDescriptor_own_def
        FileDescriptor_default_def run_destructor_def close_fd_def dups_def copied_def dup_fd_def set_desc_def fun_upd_twist)
  have "owns ?w3 = [1 \<mapsto> 4]"
    unfolding owns_def d by (auto simp: FileDescriptor_own_def FileDescriptor_default_def owned_def)
  then have "ran (owns ?w3) = {4}" by simp
  with r b d show ?thesis by (intro exI [of _ ?w3]) simp
qed

text \<open>
  An object made from a reference keeps \<open>noop\<close> as its destructor when a descriptor is assigned to
  it: decoding a received descriptor into such an object leaks it.
\<close>

lemma assign_to_reference_leaks:
  assumes "descs w i = Some d" and "\<not> owning d" and "fd \<in> kopen w" and "0 \<le> fd"
  shows "fd \<in> kopen (FileDescriptor_destroy i (FileDescriptor_assign_int i fd w))"
  using assms by (simp add: FileDescriptor_destroy_def FileDescriptor_assign_int_def run_destructor_def set_desc_def)

section \<open>References to messages\<close>

text \<open>The message a descriptor holds.\<close>

definition slot_holds :: "req_world \<Rightarrow> nat \<Rightarrow> nat option" where
  "slot_holds w i = Option.bind (slots w i) slot_msg"

text \<open>The descriptor on the left of a move assignment has to be empty.\<close>

inductive req_step :: "nat \<Rightarrow> req_world \<Rightarrow> req_world \<Rightarrow> bool" for n where
  new: "i < n \<Longrightarrow> slots w i = None \<Longrightarrow> req_step n w (set_slot i slot_new w)"
| set: "i < n \<Longrightarrow> slots w i \<noteq> None \<Longrightarrow> req_step n w (slot_set i r msg w)"
| clear: "i < n \<Longrightarrow> slots w i \<noteq> None \<Longrightarrow> req_step n w (slot_clear i w)"
| move: "i < n \<Longrightarrow> j < n \<Longrightarrow> slots w i = None \<Longrightarrow> slots w j \<noteq> None \<Longrightarrow> req_step n w (slot_move i j w)"
| assign: "i < n \<Longrightarrow> j < n \<Longrightarrow> slots w i = Some s \<Longrightarrow> slot_msg s = None \<Longrightarrow> slots w j \<noteq> None \<Longrightarrow>
    req_step n w (slot_move_assign i j w)"
| destroy: "i < n \<Longrightarrow> slots w i \<noteq> None \<Longrightarrow> req_step n w (slot_destroy i w)"

lemma slot_simps [simp]:
  "slot_holds (set_slot i s w) = (slot_holds w)(i := slot_msg s)" "refs (set_slot i s w) = refs w"
  "slots (set_slot i s w) = (slots w)(i \<mapsto> s)"
  by (auto simp: set_slot_def slot_holds_def)

lemma message_ref_simps [simp]:
  "slot_holds (message_ref k msg w) = slot_holds w" "slots (message_ref k msg w) = slots w"
  "refs (message_ref k msg w) m = refs w m + (if msg = Some m then k else 0)"
  by (auto simp: message_ref_def slot_holds_def split: option.splits)

lemma slot_clear_refs:
  assumes "slots w i = Some s"
  shows "slot_holds (slot_clear i w) = (slot_holds w)(i := None)"
    and "refs (slot_clear i w) m = refs w m - (if slot_holds w i = Some m then 1 else 0)"
    and "slots (slot_clear i w) = (slots w)(i \<mapsto> slot_new)"
  using assms by (simp_all add: slot_clear_def slot_new_def slot_holds_def)

lemma req_step_balanced: "req_step n w w' \<Longrightarrow> balance n (refs w') (slot_holds w') m = balance n (refs w) (slot_holds w) m"
proof (induction rule: req_step.induct)
  case (new i w)
  then have "slot_holds w = (slot_holds w)(i := None)" by (auto simp: slot_holds_def)
  then show ?case by (metis slot_simps(1,2) slot_new_def req_slot.select_convs(2))
next
  case (set i w r msg)
  then obtain s where "slots w i = Some s" by auto
  with set show ?case
    by (intro balanceI [where i = i and x = msg]) (simp_all add: slot_set_def slot_clear_refs)
next
  case (clear i w)
  then obtain s where "slots w i = Some s" by auto
  with clear show ?case by (intro balanceI [where i = i and x = None]) (simp_all add: slot_clear_refs)
next
  case (move i j w)
  then obtain s where "slots w j = Some s" by auto
  with move(3) have s: "slots w j = Some s" "i \<noteq> j" by auto
  then have "slot_holds (slot_move i j w) = (slot_holds w)(i := slot_holds w j, j := None)"
    "refs (slot_move i j w) = refs w" "slot_holds w i = None"
    using move(3) by (auto simp: slot_move_def slot_new_def slot_holds_def)
  with balance_move [OF move(1,2) s(2), of "slot_holds w" "refs w" m] show ?case by (simp only: simp_thms)
next
  case (assign i j w s0)
  then obtain s where s: "slots w j = Some s" by auto
  show ?case
  proof (cases "i = j")
    case True
    then show ?thesis by (simp add: slot_move_assign_def)
  next
    case False
    with s assign have "slot_holds (slot_move_assign i j w) = (slot_holds w)(i := slot_holds w j, j := None)"
      "refs (slot_move_assign i j w) = refs w" "slot_holds w i = None"
      by (auto simp: slot_move_assign_def slot_new_def slot_holds_def)
    with balance_move [OF assign(1,2) False, of "slot_holds w" "refs w" m] show ?thesis by (simp only: simp_thms)
  qed
next
  case (destroy i w)
  then obtain s where s: "slots w i = Some s" by auto
  have "slot_holds (slot_destroy i w) = (slot_holds w)(i := None)" by (auto simp: slot_destroy_def slot_holds_def)
  moreover have "refs (slot_destroy i w) = refs (slot_clear i w)" by (simp add: slot_destroy_def)
  ultimately show ?case
    using s destroy by (intro balanceI [where i = i and x = None]) (simp_all add: slot_clear_refs)
qed

text \<open>
  Deferred requests hold their message. Whatever descriptors are created, set, cleared, moved,
  assigned to while empty and destroyed: libdbus counts one reference for each descriptor that
  holds a message, so a message lives as long as it can be answered, and when all descriptors
  are gone the count is what it was.
\<close>

theorem request_refs_balanced:
  assumes "(req_step n)\<^sup>*\<^sup>* w0 w" and "\<forall>i < n. slots w0 i = None"
  shows "refs w m = refs w0 m + int (card {i. i < n \<and> (\<exists>s. slots w i = Some s \<and> slot_msg s = Some m)})"
proof -
  have "balance n (refs w) (slot_holds w) m = balance n (refs w0) (slot_holds w0) m"
    using assms(1) by (induction rule: rtranclp_induct) (auto simp: req_step_balanced)
  moreover have "holders n (slot_holds w0) m = 0" using assms(2) by (simp add: holders_none slot_holds_def)
  moreover have "{i. i < n \<and> slot_holds w i = Some m} = {i. i < n \<and> (\<exists>s. slots w i = Some s \<and> slot_msg s = Some m)}"
    by (auto simp: slot_holds_def bind_eq_Some_conv)
  ultimately show ?thesis by (simp add: balance_def) (simp add: holders_card)
qed

text \<open>The current request of a skeleton, message 5, is moved into a deferred request and that answered.\<close>

definition req_world0 :: req_world where
  "req_world0 = \<lparr>refs = \<lambda>_. 1, slots = Map.empty\<rparr>"

theorem request_refs_balanced_witness:
  "\<exists>w. (req_step 2)\<^sup>*\<^sup>* req_world0 w \<and> slots w 1 = Some \<lparr>slot_requestor = Some 0, slot_msg = Some 5\<rparr> \<and> refs w 5 = 2"
proof -
  let ?w1 = "set_slot 0 slot_new req_world0"
  let ?w2 = "slot_set 0 (Some 0) (Some 5) ?w1"
  let ?w3 = "slot_move 1 0 ?w2"
  have "req_step 2 req_world0 ?w1" by (rule req_step.new) (simp_all add: req_world0_def)
  moreover have "req_step 2 ?w1 ?w2" by (rule req_step.set) (simp_all add: set_slot_def)
  moreover have "req_step 2 ?w2 ?w3"
    by (rule req_step.move) (simp_all add: slot_set_def slot_clear_def set_slot_def message_ref_def slot_new_def req_world0_def)
  ultimately have r: "(req_step 2)\<^sup>*\<^sup>* req_world0 ?w3" by (meson converse_rtranclp_into_rtranclp r_into_rtranclp)
  have s: "slots ?w3 = [1 \<mapsto> \<lparr>slot_requestor = Some 0, slot_msg = Some 5\<rparr>, 0 \<mapsto> slot_new]"
    by (simp add: slot_move_def slot_set_def slot_clear_def set_slot_def message_ref_def slot_new_def req_world0_def fun_upd_twist)
  have "{i. i < 2 \<and> (\<exists>s. slots ?w3 i = Some s \<and> slot_msg s = Some 5)} = {1}"
    unfolding s by (auto simp: slot_new_def)
  moreover have "refs ?w3 5 = refs req_world0 5 + int (card {i. i < 2 \<and> (\<exists>s. slots ?w3 i = Some s \<and> slot_msg s = Some 5)})"
    by (rule request_refs_balanced [OF r]) (simp add: req_world0_def)
  ultimately show ?thesis using r s by (intro exI [of _ ?w3]) (simp add: req_world0_def)
qed

text \<open>Assigning to a descriptor that holds another message loses the reference to that one.\<close>

lemma assign_loses_reference:
  assumes "slots w i = Some s" and "slot_msg s = Some m" and "slots w j = Some t" and "i \<noteq> j" and "slot_msg t \<noteq> Some m"
  shows "refs (slot_move_assign i j w) m = refs w m \<and> slot_holds (slot_move_assign i j w) i \<noteq> Some m \<and>
    slot_holds (slot_move_assign i j w) j \<noteq> Some m"
  using assms by (simp add: slot_move_assign_def slot_new_def)

section \<open>Pending calls\<close>

text \<open>
  Moving leaves an empty object behind and keeps libdbus' call alive, except that a move onto
  itself drops it; cancelling cancels the call of this object only.
\<close>

lemma pending_call_ops:
  assumes "calls w j = Some c"
  shows "calls (PendingCall_move i j w) j = Some PendingCall_default"
    and "i \<noteq> j \<Longrightarrow> calls (PendingCall_move i j w) i = Some c"
    and "pc_pending c = Some p \<Longrightarrow> i \<noteq> j \<Longrightarrow> p \<in> held_calls (PendingCall_move i j w)"
    and "calls (PendingCall_copy_assign i j w) i = Some c" and "held_calls w \<inter> {p. pc_pending c = Some p} \<subseteq> held_calls (PendingCall_copy_assign i j w)"
    and "cancelled (PendingCall_cancel j w) = cancelled w \<union> set_option (pc_pending c)"
  using assms
  by (auto simp: PendingCall_move_def PendingCall_reset_def set_call_def held_calls_def PendingCall_copy_assign_def
      PendingCall_cancel_def split: option.splits)

end
