(* ===== verification/Startup.thy ===== *)
theory Startup
  imports Dispatcher Serving
begin

text \<open>
  Construction and destruction of a \<open>Dispatcher\<close> (\<open>Dispatcher::init\<close> and \<open>~Dispatcher\<close> in
  \<open>src/dispatcher.cpp\<close>): which bus it connects to, and that a program either has a dispatcher
  which hears what it has to hear and knows the names on the bus, or an exception that names the
  call that failed.
\<close>

section \<open>Opening a connection\<close>

datatype bus_type = SessionBus | SystemBus

text \<open>What libdbus offers: the connection or the error that was set.\<close>

record 'b bus_open_api =
  bus_get_private :: "bus_type \<Rightarrow> dbus_error + 'b"
  open_private :: "string \<Rightarrow> dbus_error + 'b"
  bus_register :: "'b \<Rightarrow> dbus_error option \<times> 'b"

text \<open>
  The first half of \<open>init\<close>: the last action, the error that is set after it and \<open>conn_\<close>. In a
  Release build any other name than those two is taken for an address.
\<close>

definition opened :: "string \<Rightarrow> dbus_error + 'b \<Rightarrow> string \<times> dbus_error option \<times> 'b option" where
  "opened action r = (case r of Inl e \<Rightarrow> (action, Some e, None) | Inr b \<Rightarrow> (action, None, Some b))"

definition open_bus :: "'b bus_open_api \<Rightarrow> string option \<Rightarrow> string \<times> dbus_error option \<times> 'b option" where
  "open_bus Bus addr =
     (if addr = None \<or> map_option c_str addr = Some ''bus:session''
      then opened ''dbus_bus_get_private'' (bus_get_private Bus SessionBus)
      else if map_option c_str addr = Some ''bus:system''
      then opened ''dbus_bus_get_private'' (bus_get_private Bus SystemBus)
      else case open_private Bus (c_str (the addr)) of
          Inl e \<Rightarrow> opened ''dbus_connection_open_private'' (Inl e)
        | Inr b \<Rightarrow> (case bus_register Bus b of (e, b) \<Rightarrow> (''dbus_bus_register'', e, Some b)))"

definition Dispatcher_new ::
  "'b bus_open_api \<Rightarrow> ('w, 'r) dbus_iter_api \<Rightarrow> ('b, 'w, 'r) dbus_conn_api \<Rightarrow> string \<Rightarrow> string option
     \<Rightarrow> ('b dispatcher) res" where
  "Dispatcher_new Bus L K self addr =
     (case open_bus Bus addr of
        (action, Some e, _) \<Rightarrow> throw (RuntimeErrorExn (RuntimeError_new action e))
      | (action, None, Some b) \<Rightarrow> Dispatcher_init L K self b
      | (action, None, None) \<Rightarrow> throw UndefinedBehaviour)"

text \<open>\<open>~Dispatcher\<close>: what happens to the connection.\<close>

datatype conn_event = Closed | Unreferenced

definition Dispatcher_destroy :: "conn_event list" where
  "Dispatcher_destroy = [Closed, Unreferenced]"

definition list_names :: "('b, 'w, 'r) dbus_conn_api \<Rightarrow> 'w out_msg" where
  "list_names K = message_new_method_call ''org.freedesktop.DBus'' ''/org/freedesktop/DBus'' ''org.freedesktop.DBus''
     ''ListNames'' (message_iter K)"

section \<open>A dispatcher that has started\<close>

lemma match_rules_differ: "name_owner_match \<noteq> notify_client_match self"
  by (simp add: name_owner_match_def notify_client_match_def quoted_def)

text \<open>
  Which bus a name stands for, as the documentation of \<open>Dispatcher\<close> has it, and that \<open>b\<close> is the
  connection asked for: a private one to that bus, or one to the address that is registered.
\<close>

definition private_bus :: "string option \<Rightarrow> bus_type option" where
  "private_bus addr =
     (case addr of None \<Rightarrow> Some SessionBus
      | Some a \<Rightarrow> map_of [(''bus:session'', SessionBus), (''bus:system'', SystemBus)] (c_str a))"

definition connected_to :: "'b bus_open_api \<Rightarrow> string option \<Rightarrow> 'b \<Rightarrow> bool" where
  "connected_to Bus addr b \<longleftrightarrow>
     (case private_bus addr of Some t \<Rightarrow> bus_get_private Bus t = Inr b
      | None \<Rightarrow> \<exists>b0. open_private Bus (c_str (the addr)) = Inr b0 \<and> bus_register Bus b0 = (None, b))"

lemma open_bus_cases:
  obtains (connected) action b where "open_bus Bus addr = (action, None, Some b)" "connected_to Bus addr b"
  | (no_bus) t e c where "open_bus Bus addr = (''dbus_bus_get_private'', Some e, c)" "private_bus addr = Some t"
      "bus_get_private Bus t = Inl e"
  | (no_connection) e c where "open_bus Bus addr = (''dbus_connection_open_private'', Some e, c)" "private_bus addr = None"
      "open_private Bus (c_str (the addr)) = Inl e"
  | (not_registered) b0 e b c where "open_bus Bus addr = (''dbus_bus_register'', Some e, c)" "private_bus addr = None"
      "open_private Bus (c_str (the addr)) = Inr b0" "bus_register Bus b0 = (Some e, b)"
proof (cases "private_bus addr")
  case (Some t)
  then have o: "open_bus Bus addr = opened ''dbus_bus_get_private'' (bus_get_private Bus t)"
    by (auto simp: private_bus_def open_bus_def split: option.splits if_splits)
  show thesis
  proof (cases "bus_get_private Bus t")
    case (Inl e)
    with o Some show thesis by (intro no_bus) (simp_all add: opened_def)
  next
    case (Inr b)
    with o Some show thesis by (intro connected) (simp_all add: opened_def connected_to_def)
  qed
next
  case None
  then have o: "open_bus Bus addr = (case open_private Bus (c_str (the addr)) of
          Inl e \<Rightarrow> opened ''dbus_connection_open_private'' (Inl e)
        | Inr b \<Rightarrow> (case bus_register Bus b of (e, b) \<Rightarrow> (''dbus_bus_register'', e, Some b)))"
    by (auto simp: private_bus_def open_bus_def split: option.splits if_splits)
  show thesis
  proof (cases "open_private Bus (c_str (the addr))")
    case (Inl e)
    with o None show thesis by (intro no_connection) (simp_all add: opened_def)
  next
    case (Inr b0)
    obtain e b where r: "bus_register Bus b0 = (e, b)" by fastforce
    show thesis
    proof (cases e)
      case None
      with o Inr r \<open>private_bus addr = None\<close> show thesis by (intro connected) (simp_all add: connected_to_def)
    next
      case (Some x)
      with o Inr r None show thesis by (intro not_registered) simp_all
    qed
  qed
qed

context server_env begin

lemma names_decode:
  assumes "list_all string_ok ns" and "rv r = [vector_val ''s'' (\<lambda>n. Basic (BString (c_str n))) ns]"
  shows "\<exists>it. vector_decode L (string_codec L) r = ret (ns, it)"
proof -
  have "codec L bvalid wk wv rv (vector_codec L (string_codec L)) (list_all string_ok)
      (vector_val (sgn (string_codec L)) (\<lambda>s. Basic (BString (c_str s))))"
    by (rule vector_ok [OF key_codec.axioms(1) [OF string_codec_ok]])
  moreover have "sgn (string_codec L) = ''s''" by (simp add: string_codec_def StringCodec_make_type_signature_def)
  ultimately obtain it where "dec (vector_codec L (string_codec L)) r = ret (ns, it)"
    using codec.dec_vals [of L bvalid wk wv rv "vector_codec L (string_codec L)" _ _ ns r "[]"] assms by metis
  then show ?thesis by (auto simp: vector_codec_def)
qed

lemma init_starts:
  assumes reply: "\<And>b reply b'. send_and_block K b (list_names K) 1000 = (Inr reply, b') \<Longrightarrow>
      rv (im_body reply) = [vector_val ''s'' (\<lambda>n. Basic (BString (c_str n))) ns]"
    and ns: "list_all string_ok ns" and d: "Dispatcher_init L K self b = ret d"
  shows "busnames d = {n \<in> set ns. \<not> is_unique_name n} \<and> dstubs d = [] \<and> \<not> running d \<and> signal_matches d = Map.empty \<and>
    rules (conn d) = (rules b)(name_owner_match := Suc (rules b name_owner_match),
      notify_client_match self := Suc (rules b (notify_client_match self))) \<and>
    sent (conn d) = sent b @ [list_names K] \<and> timeouts (conn d) = timeouts b @ [1000]"
proof -
  obtain b1 b2 reply b3 where m: "bus_add_match K b name_owner_match = (None, b1)"
    "bus_add_match K b1 (notify_client_match self) = (None, b2)"
    "send_and_block K b2 (list_names K) 1000 = (Inr reply, b3)"
    using d by (auto simp: Dispatcher_init_def list_names_def split: prod.splits option.splits sum.splits)
  obtain it where it: "vector_decode L (string_codec L) (im_body reply) = ret (ns, it)"
    using names_decode [OF ns reply [OF m(3)]] by blast
  have "d = \<lparr>conn = b3, request_timeout = - 1, running = False, dstubs = [],
      signal_matches = Map.empty, busnames = known_busnames ns\<rparr>"
    using d m it by (simp add: Dispatcher_init_def list_names_def)
  with request_block_sent [OF m(3)] add_match_ok [OF m(1)] add_match_ok [OF m(2)] match_frame(1) [OF m(1)]
    match_frame(1) [OF m(2)] match_rules_differ [of self]
  show ?thesis by (auto simp: known_busnames_def)
qed

lemma init_fails:
  assumes reply: "\<And>b reply b'. send_and_block K b (list_names K) 1000 = (Inr reply, b') \<Longrightarrow>
      rv (im_body reply) = [vector_val ''s'' (\<lambda>n. Basic (BString (c_str n))) ns]"
    and answered: "\<And>b e b'. send_and_block K b (list_names K) 1000 \<noteq> (Inl e, b')"
    and ns: "list_all string_ok ns"
  shows "(\<exists>d. Dispatcher_init L K self b = ret d) \<or>
    (\<exists>e b1. (bus_add_match K b name_owner_match = (Some e, b1) \<or>
        (\<exists>b2. bus_add_match K b name_owner_match = (None, b2) \<and> bus_add_match K b2 (notify_client_match self) = (Some e, b1))) \<and>
      Dispatcher_init L K self b = throw (RuntimeErrorExn (RuntimeError_new ''dbus_bus_add_match'' e)))"
proof -
  obtain x1 b1 where m1: "bus_add_match K b name_owner_match = (x1, b1)" by fastforce
  obtain x2 b2 where m2: "bus_add_match K b1 (notify_client_match self) = (x2, b2)" by fastforce
  obtain x3 b3 where m3: "send_and_block K b2 (list_names K) 1000 = (x3, b3)" by fastforce
  with answered obtain rep where rep: "x3 = Inr rep" by (cases x3) auto
  obtain it where "vector_decode L (string_codec L) (im_body rep) = ret (ns, it)"
    using names_decode [OF ns reply] m3 rep by blast
  with m1 m2 m3 rep show ?thesis
    by (cases x1; cases x2) (auto simp: Dispatcher_init_def list_names_def)
qed

end

text \<open>
  C31. A dispatcher starts properly or not at all. When the bus answers \<open>ListNames\<close>, the
  constructor returns or throws a \<open>RuntimeError\<close> with the name and the error of the call that
  failed: opening the private connection to the session bus (no name or \<open>bus:session\<close>) or to the
  system bus (\<open>bus:system\<close>), opening the one to another address, registering the latter, or adding a
  match rule on the connection that was opened. If it returns, the connection is the one it was
  asked for, the rules for changes of name owners and for the dispatcher's own signal are added once
  each, and it knows exactly the well-known names.
\<close>

theorem dispatcher_starts:
  assumes "server_env L bvalid wk wv rv K rules sent paths timeouts"
    and "\<And>b reply b'. send_and_block K b (list_names K) 1000 = (Inr reply, b') \<Longrightarrow>
      rv (im_body reply) = [vector_val ''s'' (\<lambda>n. Basic (BString (c_str n))) ns]"
    and "\<And>b e b'. send_and_block K b (list_names K) 1000 \<noteq> (Inl e, b')"
    and "list_all (dbus_iter.string_ok bvalid) ns"
  shows "(\<exists>d b. Dispatcher_new Bus L K self addr = ret d \<and> connected_to Bus addr b \<and>
       busnames d = {n \<in> set ns. \<not> is_unique_name n} \<and> dstubs d = [] \<and> \<not> running d \<and> signal_matches d = Map.empty \<and>
       rules (conn d) = (rules b)(name_owner_match := Suc (rules b name_owner_match),
         notify_client_match self := Suc (rules b (notify_client_match self))) \<and>
       sent (conn d) = sent b @ [list_names K]) \<or>
     (\<exists>action e. Dispatcher_new Bus L K self addr = throw (RuntimeErrorExn (RuntimeError_new action e)) \<and>
       ((action = ''dbus_bus_get_private'' \<and> (\<exists>t. private_bus addr = Some t \<and> bus_get_private Bus t = Inl e)) \<or>
        (action = ''dbus_connection_open_private'' \<and> private_bus addr = None \<and> open_private Bus (c_str (the addr)) = Inl e) \<or>
        (action = ''dbus_bus_register'' \<and> private_bus addr = None \<and>
          (\<exists>b0 b. open_private Bus (c_str (the addr)) = Inr b0 \<and> bus_register Bus b0 = (Some e, b))) \<or>
        (action = ''dbus_bus_add_match'' \<and>
          (\<exists>b b1. connected_to Bus addr b \<and>
            (bus_add_match K b name_owner_match = (Some e, b1) \<or>
             (\<exists>b2. bus_add_match K b name_owner_match = (None, b2) \<and>
                bus_add_match K b2 (notify_client_match self) = (Some e, b1)))))))"
proof (cases rule: open_bus_cases [of Bus addr])
  case (connected action b)
  from server_env.init_fails [OF assms, where self = self and b = b] show ?thesis
  proof
    assume "\<exists>d. Dispatcher_init L K self b = ret d"
    then obtain d where d: "Dispatcher_init L K self b = ret d" ..
    from server_env.init_starts [OF assms(1,2,4) d] connected d show ?thesis
      by (intro disjI1 exI [of _ d] exI [of _ b]) (simp add: Dispatcher_new_def)
  next
    assume "\<exists>e b1. (bus_add_match K b name_owner_match = (Some e, b1) \<or>
        (\<exists>b2. bus_add_match K b name_owner_match = (None, b2) \<and> bus_add_match K b2 (notify_client_match self) = (Some e, b1))) \<and>
      Dispatcher_init L K self b = throw (RuntimeErrorExn (RuntimeError_new ''dbus_bus_add_match'' e))"
    then obtain e b1 where m: "bus_add_match K b name_owner_match = (Some e, b1) \<or>
        (\<exists>b2. bus_add_match K b name_owner_match = (None, b2) \<and> bus_add_match K b2 (notify_client_match self) = (Some e, b1))"
      and i: "Dispatcher_init L K self b = throw (RuntimeErrorExn (RuntimeError_new ''dbus_bus_add_match'' e))" by blast
    have T: "Dispatcher_new Bus L K self addr = throw (RuntimeErrorExn (RuntimeError_new ''dbus_bus_add_match'' e))"
      using connected(1) i by (simp add: Dispatcher_new_def)
    have M: "\<exists>b b1. connected_to Bus addr b \<and> (bus_add_match K b name_owner_match = (Some e, b1) \<or>
        (\<exists>b2. bus_add_match K b name_owner_match = (None, b2) \<and> bus_add_match K b2 (notify_client_match self) = (Some e, b1)))"
      using m connected(2) by (intro exI [of _ b] exI [of _ b1] conjI)
    show ?thesis by (rule disjI2, rule exI, rule exI, rule conjI [OF T], intro disjI2 conjI refl M)
  qed
qed (auto simp: Dispatcher_new_def)

text \<open>A session bus with one well-known and one unique name; there is no system bus.\<close>

definition names_reply :: "dval list in_msg" where
  "names_reply = \<lparr>im_type = MethodReturn, im_path = None, im_interface = None, im_member = None, im_error_name = None,
     im_serial = 1, im_reply_serial = 1,
     im_body = [Cont DBUS_TYPE_ARRAY ''s'' [Basic (BString ''a.B''), Basic (BString '':1'')]]\<rparr>"

definition one_bus :: "ref_w rec_conn bus_open_api" where
  "one_bus = \<lparr>bus_get_private = (\<lambda>t. if t = SessionBus then Inr rec_conn0 else Inl rec_error),
     open_private = (\<lambda>_. Inl rec_error), bus_register = (\<lambda>b. (None, b))\<rparr>"

theorem dispatcher_starts_witness:
  "\<exists>d. Dispatcher_new one_bus ref_api (rec_api ref_root names_reply) ''/x'' None = ret d \<and> busnames d = {''a.B''} \<and>
     rc_rules (conn d) name_owner_match = 1"
proof -
  let ?K = "rec_api ref_root names_reply"
  have r: "im_body reply = [vector_val ''s'' (\<lambda>n. Basic (BString (c_str n))) [''a.B'', '':1'']]"
    if "send_and_block ?K b (list_names ?K) 1000 = (Inr reply, b')" for b reply b'
    using that by (auto simp: rec_api_def names_reply_def vector_val_def c_str_def NUL_def)
  have a: "send_and_block ?K b (list_names ?K) 1000 \<noteq> (Inl e, b')" for b e b'
    by (simp add: rec_api_def)
  have n: "list_all (dbus_iter.string_ok (\<lambda>_. True)) [''a.B'', '':1'']"
    by (simp add: ref.string_ok_def NUL_def)
  obtain it where "vector_decode ref_api (string_codec ref_api) (im_body names_reply) = ret ([''a.B'', '':1''], it)"
    using rec_srv.names_decode [OF n, of "im_body names_reply"]
    by (auto simp: names_reply_def vector_val_def c_str_def NUL_def)
  then have throws: "Dispatcher_new one_bus ref_api ?K ''/x'' None \<noteq> throw e" for e
    by (simp add: Dispatcher_new_def open_bus_def opened_def one_bus_def Dispatcher_init_def rec_api_def rec_conn0_def)
  have u: "{m \<in> set [''a.B'', '':1'']. \<not> is_unique_name m} = {''a.B''}"
    by (auto simp: is_unique_name_def)
  have "(\<exists>d b. Dispatcher_new one_bus ref_api ?K ''/x'' None = ret d \<and>
       connected_to one_bus None b \<and> busnames d = {n \<in> set [''a.B'', '':1'']. \<not> is_unique_name n} \<and>
       dstubs d = [] \<and> \<not> running d \<and> signal_matches d = Map.empty \<and>
       rc_rules (conn d) = (rc_rules b)(name_owner_match := Suc (rc_rules b name_owner_match),
         notify_client_match ''/x'' := Suc (rc_rules b (notify_client_match ''/x''))) \<and>
       rc_sent (conn d) = rc_sent b @ [list_names ?K]) \<or>
     (\<exists>action e. Dispatcher_new one_bus ref_api ?K ''/x'' None = throw (RuntimeErrorExn (RuntimeError_new action e)) \<and>
       ((action = ''dbus_bus_get_private'' \<and> (\<exists>t. private_bus None = Some t \<and> bus_get_private one_bus t = Inl e)) \<or>
        (action = ''dbus_connection_open_private'' \<and> private_bus None = None \<and> open_private one_bus (c_str (the None)) = Inl e) \<or>
        (action = ''dbus_bus_register'' \<and> private_bus None = None \<and>
          (\<exists>b0 b. open_private one_bus (c_str (the None)) = Inr b0 \<and> bus_register one_bus b0 = (Some e, b))) \<or>
        (action = ''dbus_bus_add_match'' \<and>
          (\<exists>b b1. connected_to one_bus None b \<and>
            (bus_add_match ?K b name_owner_match = (Some e, b1) \<or>
             (\<exists>b2. bus_add_match ?K b name_owner_match = (None, b2) \<and>
                bus_add_match ?K b2 (notify_client_match ''/x'') = (Some e, b1)))))))"
    by (rule dispatcher_starts [OF rec_srv.server_env_axioms]) (use r a n in auto)
  then obtain d b where d: "Dispatcher_new one_bus ref_api ?K ''/x'' None = ret d" "connected_to one_bus None b" "busnames d = {''a.B''}"
    and rules: "rc_rules (conn d) = (rc_rules b)(name_owner_match := Suc (rc_rules b name_owner_match),
         notify_client_match ''/x'' := Suc (rc_rules b (notify_client_match ''/x'')))"
    unfolding u using throws by blast
  have "b = rec_conn0" using d(2) by (simp add: connected_to_def private_bus_def one_bus_def)
  then have "rc_rules (conn d) name_owner_match = 1"
    using rules match_rules_differ [of "''/x''"] by (simp add: rec_conn0_def)
  with d(1,3) show ?thesis by blast
qed

end
