(* ===== verification/HeldData.thy ===== *)
theory HeldData
  imports Ownership
begin

text \<open>
  Two kinds of values that hold on to memory: \<open>FixedSizeBuffer\<close> (\<open>include/simppl/buffer.h\<close>), which
  may own the bytes it points to, and a received \<open>Any\<close> (\<open>include/simppl/any.h\<close>), which holds a
  reference to the message it was received in.
\<close>

section \<open>FixedSizeBuffer\<close>

text \<open>
  The allocated blocks, those the program has to free itself, the buffer objects, and how often a
  block was deleted that was not there or not the object's to delete.
\<close>

record fixed_buffer =
  fb_buf :: "nat option"
  fb_self :: bool

record buf_world =
  blocks :: "nat \<Rightarrow> 8 word list option"
  user_blocks :: "nat set"
  buffers :: "nat \<Rightarrow> fixed_buffer option"
  bad_deletes :: nat

definition set_buffer :: "nat \<Rightarrow> fixed_buffer \<Rightarrow> buf_world \<Rightarrow> buf_world" where
  "set_buffer i b w = w\<lparr>buffers := (buffers w)(i \<mapsto> b)\<rparr>"

text \<open>\<open>new unsigned char[len]\<close> with result \<open>a\<close>, and what is copied into it.\<close>

definition write_block :: "nat \<Rightarrow> 8 word list \<Rightarrow> buf_world \<Rightarrow> buf_world" where
  "write_block a bytes w = w\<lparr>blocks := (blocks w)(a \<mapsto> bytes)\<rparr>"

definition delete_block :: "nat \<Rightarrow> buf_world \<Rightarrow> buf_world" where
  "delete_block a w =
     (if blocks w a \<noteq> None \<and> a \<notin> user_blocks w then w\<lparr>blocks := (blocks w)(a := None)\<rparr>
      else w\<lparr>bad_deletes := Suc (bad_deletes w)\<rparr>)"

definition FixedSizeBuffer_default :: fixed_buffer where
  "FixedSizeBuffer_default = \<lparr>fb_buf = None, fb_self = False\<rparr>"

definition FixedSizeBuffer_wrap :: "nat option \<Rightarrow> fixed_buffer" where
  "FixedSizeBuffer_wrap p = \<lparr>fb_buf = p, fb_self = False\<rparr>"

text \<open>\<open>memcpy\<close> reads the block of \<open>rhs\<close>; a buffer that owns no block is never copied from.\<close>

definition FixedSizeBuffer_copy :: "nat \<Rightarrow> nat \<Rightarrow> fixed_buffer \<Rightarrow> buf_world \<Rightarrow> buf_world" where
  "FixedSizeBuffer_copy a this rhs w =
     (if fb_self rhs
      then set_buffer this \<lparr>fb_buf = Some a, fb_self = fb_self rhs\<rparr> (write_block a (the (blocks w (the (fb_buf rhs)))) w)
      else set_buffer this \<lparr>fb_buf = fb_buf rhs, fb_self = fb_self rhs\<rparr> w)"

definition FixedSizeBuffer_assign :: "nat \<Rightarrow> nat \<Rightarrow> 8 word list \<Rightarrow> buf_world \<Rightarrow> buf_world" where
  "FixedSizeBuffer_assign a this b w =
     (case buffers w this of None \<Rightarrow> w
      | Some fb \<Rightarrow>
          let p = (if \<not> fb_self fb then Some a else fb_buf fb)
          in set_buffer this \<lparr>fb_buf = p, fb_self = True\<rparr> (write_block (the p) b w))"

definition FixedSizeBuffer_destroy :: "nat \<Rightarrow> buf_world \<Rightarrow> buf_world" where
  "FixedSizeBuffer_destroy this w =
     (case buffers w this of None \<Rightarrow> w
      | Some fb \<Rightarrow> (if fb_self fb then delete_block (the (fb_buf fb)) w else w)\<lparr>buffers := (buffers w)(this := None)\<rparr>)"

text \<open>What a program may do with buffers of \<open>len\<close> bytes; an address that \<open>new\<close> returns is free.\<close>

inductive buf_step :: "nat \<Rightarrow> buf_world \<Rightarrow> buf_world \<Rightarrow> bool" for len where
  alloc: "blocks w a = None \<Longrightarrow>
    buf_step len w (write_block a bytes w\<lparr>user_blocks := insert a (user_blocks w)\<rparr>)"
| free: "a \<in> user_blocks w \<Longrightarrow>
    buf_step len w (w\<lparr>blocks := (blocks w)(a := None), user_blocks := user_blocks w - {a}\<rparr>)"
| default: "buffers w i = None \<Longrightarrow> buf_step len w (set_buffer i FixedSizeBuffer_default w)"
| wrap: "buffers w i = None \<Longrightarrow> buf_step len w (set_buffer i (FixedSizeBuffer_wrap p) w)"
| copy: "buffers w i = None \<Longrightarrow> buffers w j = Some fb \<Longrightarrow> blocks w a = None \<Longrightarrow>
    buf_step len w (FixedSizeBuffer_copy a i fb w)"
| assign: "buffers w i \<noteq> None \<Longrightarrow> blocks w a = None \<Longrightarrow> length bytes = len \<Longrightarrow>
    buf_step len w (FixedSizeBuffer_assign a i bytes w)"
| destroy: "buf_step len w (FixedSizeBuffer_destroy i w)"

definition buf_owned :: "fixed_buffer \<Rightarrow> nat option" where
  "buf_owned fb = (if fb_self fb then fb_buf fb else None)"

definition buf_owns :: "buf_world \<Rightarrow> nat \<Rightarrow> nat option" where
  "buf_owns w i = Option.bind (buffers w i) buf_owned"

definition buf_inv :: "nat \<Rightarrow> buf_world \<Rightarrow> bool" where
  "buf_inv len w \<longleftrightarrow> bad_deletes w = 0 \<and> own_ok (dom (blocks w)) (user_blocks w) (buf_owns w) \<and>
     (\<forall>i fb. buffers w i = Some fb \<longrightarrow> fb_self fb \<longrightarrow> fb_buf fb \<noteq> None) \<and>
     (\<forall>i a. buf_owns w i = Some a \<longrightarrow> length (the (blocks w a)) = len)"

lemma set_buffer_simps [simp]:
  "buf_owns (set_buffer i b w) = (buf_owns w)(i := buf_owned b)" "blocks (set_buffer i b w) = blocks w"
  "user_blocks (set_buffer i b w) = user_blocks w" "bad_deletes (set_buffer i b w) = bad_deletes w"
  "buffers (set_buffer i b w) = (buffers w)(i \<mapsto> b)"
  by (auto simp: set_buffer_def buf_owns_def)

lemma write_block_simps [simp]:
  "buf_owns (write_block a bs w) = buf_owns w" "blocks (write_block a bs w) = (blocks w)(a \<mapsto> bs)"
  "user_blocks (write_block a bs w) = user_blocks w" "bad_deletes (write_block a bs w) = bad_deletes w"
  "buffers (write_block a bs w) = buffers w"
  by (auto simp: write_block_def buf_owns_def)

lemma buf_owns_upd [simp]:
  "buf_owns (w\<lparr>user_blocks := U\<rparr>) = buf_owns w" "buf_owns (w\<lparr>blocks := B\<rparr>) = buf_owns w"
  "buf_owns (w\<lparr>buffers := (buffers w)(i := None)\<rparr>) = (buf_owns w)(i := None)"
  by (auto simp: buf_owns_def)

lemma buf_owned_simps [simp]:
  "buf_owned FixedSizeBuffer_default = None" "buf_owned (FixedSizeBuffer_wrap p) = None"
  "buf_owned \<lparr>fb_buf = p, fb_self = True\<rparr> = p" "\<not> fb_self fb \<Longrightarrow> buf_owned fb = None"
  "\<not> fb_self FixedSizeBuffer_default" "\<not> fb_self (FixedSizeBuffer_wrap p)"
  by (auto simp: buf_owned_def FixedSizeBuffer_default_def FixedSizeBuffer_wrap_def)

text \<open>Taking a new block of the right size.\<close>

lemma buf_inv_gain:
  assumes I: "buf_inv len w" and a: "blocks w a = None" and none: "buf_owns w i = None" and len: "length bytes = len"
  shows "buf_inv len (set_buffer i \<lparr>fb_buf = Some a, fb_self = True\<rparr> (write_block a bytes w))"
proof -
  have "a \<notin> dom (blocks w)" using a by auto
  with I none have "own_ok (insert a (dom (blocks w))) (user_blocks w) ((buf_owns w)(i := Some a))"
    by (intro own_ok_gain) (auto simp: buf_inv_def)
  moreover have "buf_owns w j \<noteq> Some a" for j
    using I a own_ok_owned [of "dom (blocks w)" "user_blocks w" "buf_owns w" j a] by (auto simp: buf_inv_def)
  ultimately show ?thesis using I len by (auto simp: buf_inv_def)
qed

lemma buf_inv_plain:
  assumes "buf_inv len w" and "buffers w i = None" and "\<not> fb_self fb"
  shows "buf_inv len (set_buffer i fb w)"
proof -
  have "(buf_owns w)(i := None) = buf_owns w" using assms(2) by (auto simp: buf_owns_def)
  with assms show ?thesis by (auto simp: buf_inv_def)
qed

lemma buf_inv_self:
  assumes "buf_inv len w" and "buffers w i = Some fb" and "fb_self fb"
  obtains p where "fb_buf fb = Some p" and "buf_owns w i = Some p"
proof -
  from assms obtain p where "fb_buf fb = Some p" unfolding buf_inv_def by blast
  with assms that show ?thesis by (simp add: buf_owns_def buf_owned_def)
qed

lemma buf_step_inv: "buf_step len w w' \<Longrightarrow> buf_inv len w \<Longrightarrow> buf_inv len w'"
proof (induction rule: buf_step.induct)
  case (alloc w a bytes)
  then have "a \<notin> dom (blocks w)" by auto
  moreover have "buf_owns w j \<noteq> Some a" for j
    using alloc own_ok_owned [of "dom (blocks w)" "user_blocks w" "buf_owns w" j a] by (auto simp: buf_inv_def)
  ultimately show ?case using alloc by (auto simp: buf_inv_def own_ok_def ran_def)
next
  case (free a w)
  then have "buf_owns w j \<noteq> Some a" for j
    using own_ok_owned [of "dom (blocks w)" "user_blocks w" "buf_owns w" j a] by (auto simp: buf_inv_def)
  with free show ?case by (auto simp: buf_inv_def own_ok_def ran_def)
next
  case (default w i)
  then show ?case by (simp add: buf_inv_plain)
next
  case (wrap w i p)
  then show ?case by (simp add: buf_inv_plain)
next
  case (copy w i j fb a)
  show ?case
  proof (cases "fb_self fb")
    case True
    from buf_inv_self [OF copy(4,2) this] obtain p where p: "fb_buf fb = Some p" "buf_owns w j = Some p" .
    have "length (the (blocks w p)) = len" using copy(4) p(2) by (auto simp: buf_inv_def)
    moreover have "buf_owns w i = None" using copy(1) by (simp add: buf_owns_def)
    ultimately show ?thesis
      using buf_inv_gain [OF copy(4,3)] True p by (simp add: FixedSizeBuffer_copy_def)
  next
    case False
    with copy show ?thesis by (simp add: FixedSizeBuffer_copy_def buf_inv_plain)
  qed
next
  case (assign w i a bytes)
  then obtain fb where fb: "buffers w i = Some fb" by auto
  show ?case
  proof (cases "fb_self fb")
    case False
    with fb have "buf_owns w i = None" by (simp add: buf_owns_def)
    with buf_inv_gain [OF assign(4,2) _ assign(3)] False fb show ?thesis
      by (simp add: FixedSizeBuffer_assign_def)
  next
    case True
    from buf_inv_self [OF assign(4) fb this] obtain p where p: "fb_buf fb = Some p" "buf_owns w i = Some p" .
    then have o: "(buf_owns w)(i := Some p) = buf_owns w" by auto
    have "p \<in> dom (blocks w)"
      using own_ok_owned [of "dom (blocks w)" "user_blocks w" "buf_owns w" i p] assign(4) p by (auto simp: buf_inv_def)
    then have "dom ((blocks w)(p \<mapsto> bytes)) = dom (blocks w)" by auto
    with assign p o fb True show ?thesis
      by (auto simp: FixedSizeBuffer_assign_def buf_inv_def)
  qed
next
  case (destroy w i)
  show ?case
  proof (cases "buffers w i")
    case None
    with destroy show ?thesis by (simp add: FixedSizeBuffer_destroy_def)
  next
    case (Some fb)
    show ?thesis
    proof (cases "fb_self fb")
      case False
      with Some have "(buf_owns w)(i := None) = buf_owns w" by (auto simp: buf_owns_def)
      with Some False destroy show ?thesis by (auto simp: FixedSizeBuffer_destroy_def buf_inv_def)
    next
      case True
      from buf_inv_self [OF destroy Some this] obtain p where p: "fb_buf fb = Some p" "buf_owns w i = Some p" .
      have I: "own_ok (dom (blocks w)) (user_blocks w) (buf_owns w)" using destroy by (simp add: buf_inv_def)
      have live: "blocks w p \<noteq> None" "p \<notin> user_blocks w" using own_ok_owned [OF I p(2)] by auto
      have other: "buf_owns w j \<noteq> Some p" if "j \<noteq> i" for j
        using I p(2) that by (auto simp: own_ok_def one_owner_def)
      have "own_ok (dom (blocks w) - {p}) (user_blocks w) ((buf_owns w)(i := None))"
        using own_ok_lose [OF I, of i] p(2) by simp
      moreover have "buf_owns (delete_block p w\<lparr>buffers := (buffers w)(i := None)\<rparr>) = (buf_owns w)(i := None)"
        by (auto simp: buf_owns_def)
      ultimately show ?thesis
        using Some True p(1) live destroy other
        by (auto simp: FixedSizeBuffer_destroy_def delete_block_def buf_inv_def split: if_splits)
    qed
  qed
qed

text \<open>
  Byte buffers own what they delete. Whatever buffers a program makes, wraps around its own
  memory, copies, assigns to and destroys: no buffer deletes a block that is not there or not its
  own, every block has at most one owner, the blocks are those of the program and those owned, so
  none is leaked, and an owned block has the buffer's full length.
\<close>

theorem buffers_freed_once:
  assumes "(buf_step len)\<^sup>*\<^sup>* w0 w" and "\<forall>i. buffers w0 i = None" and "bad_deletes w0 = 0"
    and "dom (blocks w0) = user_blocks w0"
  shows "bad_deletes w = 0 \<and> dom (blocks w) = user_blocks w \<union> ran (buf_owns w) \<and> user_blocks w \<inter> ran (buf_owns w) = {} \<and>
    (\<forall>i j a. buf_owns w i = Some a \<longrightarrow> buf_owns w j = Some a \<longrightarrow> i = j) \<and>
    (\<forall>i a. buf_owns w i = Some a \<longrightarrow> length (the (blocks w a)) = len) \<and>
    ((\<forall>i. buffers w i = None) \<longrightarrow> dom (blocks w) = user_blocks w)"
proof -
  have "buf_owns w0 = Map.empty" using assms(2) by (simp add: buf_owns_def fun_eq_iff)
  with assms(2-4) have "buf_inv len w0" by (simp add: buf_inv_def own_ok_def one_owner_def)
  with assms(1) have I: "buf_inv len w" by (induction rule: rtranclp_induct) (auto intro: buf_step_inv)
  have "ran (buf_owns w) = {}" if "\<forall>i. buffers w i = None" using that by (simp add: buf_owns_def ran_def)
  with I show ?thesis by (auto simp: buf_inv_def own_ok_def one_owner_def)
qed

text \<open>The program's block 0 is wrapped, its bytes assigned to the buffer, the buffer copied and destroyed.\<close>

definition buf_world0 :: buf_world where
  "buf_world0 = \<lparr>blocks = [0 \<mapsto> [1, 2]], user_blocks = {0}, buffers = Map.empty, bad_deletes = 0\<rparr>"

theorem buffers_freed_once_witness:
  "\<exists>w. (buf_step 2)\<^sup>*\<^sup>* buf_world0 w \<and> buffers w = [1 \<mapsto> \<lparr>fb_buf = Some 6, fb_self = True\<rparr>] \<and>
     blocks w = [0 \<mapsto> [1, 2], 6 \<mapsto> [1, 2]] \<and> bad_deletes w = 0"
proof -
  let ?w1 = "set_buffer 0 (FixedSizeBuffer_wrap (Some 0)) buf_world0"
  let ?w2 = "FixedSizeBuffer_assign 5 0 [1, 2] ?w1"
  let ?w3 = "FixedSizeBuffer_copy 6 1 \<lparr>fb_buf = Some 5, fb_self = True\<rparr> ?w2"
  let ?w4 = "FixedSizeBuffer_destroy 0 ?w3"
  note defs = buf_world0_def FixedSizeBuffer_assign_def FixedSizeBuffer_wrap_def FixedSizeBuffer_copy_def
    FixedSizeBuffer_destroy_def delete_block_def Let_def
  have "buf_step 2 buf_world0 ?w1" by (rule buf_step.wrap) (simp add: buf_world0_def)
  moreover have "buf_step 2 ?w1 ?w2" by (rule buf_step.assign) (simp_all add: buf_world0_def)
  moreover have "buf_step 2 ?w2 ?w3" by (rule buf_step.copy [of _ _ 0]) (simp_all add: defs)
  moreover have "buf_step 2 ?w3 ?w4" by (rule buf_step.destroy)
  ultimately have r: "(buf_step 2)\<^sup>*\<^sup>* buf_world0 ?w4" by (meson converse_rtranclp_into_rtranclp r_into_rtranclp)
  have b: "bad_deletes ?w4 = 0"
    using buffers_freed_once [OF r] by (simp add: buf_world0_def)
  have "buffers ?w4 = [1 \<mapsto> \<lparr>fb_buf = Some 6, fb_self = True\<rparr>]" "blocks ?w4 = [0 \<mapsto> [1, 2], 6 \<mapsto> [1, 2]]"
    by (auto simp: defs fun_eq_iff)
  with r b show ?thesis by blast
qed

section \<open>The message behind an Any\<close>

text \<open>
  The \<open>std::variant\<close> of an \<open>Any\<close>, as far as references go: an \<open>Iterator\<close> with its message, if it
  has one, or a value. libdbus counts the references to each message.
\<close>

datatype any_ref = RefIterator "nat option" | RefValue

record any_world =
  msg_refs :: "nat \<Rightarrow> int"
  any_at :: "nat \<Rightarrow> any_ref option"

definition set_any :: "nat \<Rightarrow> any_ref \<Rightarrow> any_world \<Rightarrow> any_world" where
  "set_any i a w = w\<lparr>any_at := (any_at w)(i \<mapsto> a)\<rparr>"

text \<open>\<open>if (msg_) dbus_message_ref(msg_)\<close> for \<open>k = 1\<close>, \<open>dbus_message_unref\<close> for \<open>k = -1\<close>.\<close>

definition count_ref :: "int \<Rightarrow> nat option \<Rightarrow> any_world \<Rightarrow> any_world" where
  "count_ref k msg w = (case msg of None \<Rightarrow> w | Some m \<Rightarrow> w\<lparr>msg_refs := (msg_refs w)(m := msg_refs w m + k)\<rparr>)"

text \<open>Copy constructor and destructor of an alternative.\<close>

fun ref_copy :: "any_ref \<Rightarrow> any_world \<Rightarrow> any_world" where
  "ref_copy (RefIterator msg) w = count_ref 1 msg w"
| "ref_copy RefValue w = w"

fun ref_destroy :: "any_ref \<Rightarrow> any_world \<Rightarrow> any_world" where
  "ref_destroy (RefIterator msg) w = count_ref (- 1) msg w"
| "ref_destroy RefValue w = w"

text \<open>\<open>Iterator::operator=\<close> on another object: the old message is let go before the new one is taken.\<close>

definition Iterator_assign :: "nat \<Rightarrow> nat option \<Rightarrow> nat option \<Rightarrow> any_world \<Rightarrow> any_world" where
  "Iterator_assign this old new w = count_ref 1 new (set_any this (RefIterator new) (count_ref (- 1) old w))"

text \<open>
  Assignment of \<open>rhs\<close>, an object of its own, to the variant in \<open>this\<close>: the same alternative is
  assigned to, a different one is copied before the old one is destroyed.
\<close>

definition variant_assign :: "nat \<Rightarrow> any_ref \<Rightarrow> any_world \<Rightarrow> any_world" where
  "variant_assign this rhs w =
     (case any_at w this of
        None \<Rightarrow> w
      | Some lhs \<Rightarrow>
          (case (lhs, rhs) of
             (RefIterator old, RefIterator new) \<Rightarrow> Iterator_assign this old new w
           | _ \<Rightarrow> set_any this rhs (ref_destroy lhs (ref_copy rhs w))))"

text \<open>Constructors, assignments and destructor of \<open>Any\<close>.\<close>

definition Any_default :: "nat \<Rightarrow> any_world \<Rightarrow> any_world" where
  "Any_default this w = set_any this (RefIterator None) w"

definition Any_value :: "nat \<Rightarrow> any_world \<Rightarrow> any_world" where
  "Any_value this w = set_any this RefValue w"

definition Any_copy :: "nat \<Rightarrow> any_ref \<Rightarrow> any_world \<Rightarrow> any_world" where
  "Any_copy this rhs w = set_any this rhs (ref_copy rhs w)"

definition Any_copy_assign :: "nat \<Rightarrow> nat \<Rightarrow> any_world \<Rightarrow> any_world" where
  "Any_copy_assign this rhs w =
     (if this = rhs then w else case any_at w rhs of None \<Rightarrow> w | Some a \<Rightarrow> variant_assign this a w)"

definition Any_assign_value :: "nat \<Rightarrow> any_world \<Rightarrow> any_world" where
  "Any_assign_value this w = variant_assign this RefValue w"

definition Any_destroy :: "nat \<Rightarrow> any_world \<Rightarrow> any_world" where
  "Any_destroy this w =
     (case any_at w this of None \<Rightarrow> w | Some a \<Rightarrow> (ref_destroy a w)\<lparr>any_at := (any_at w)(this := None)\<rparr>)"

text \<open>\<open>Any::set_message_iterator\<close>: a temporary \<open>Iterator\<close> is made, assigned and destroyed.\<close>

definition set_message_iterator :: "nat \<Rightarrow> nat \<Rightarrow> any_world \<Rightarrow> any_world" where
  "set_message_iterator this msg w =
     ref_destroy (RefIterator (Some msg)) (variant_assign this (RefIterator (Some msg)) (count_ref 1 (Some msg) w))"

text \<open>A program with at most \<open>n\<close> objects of type \<open>Any\<close>.\<close>

inductive any_step :: "nat \<Rightarrow> any_world \<Rightarrow> any_world \<Rightarrow> bool" for n where
  default: "i < n \<Longrightarrow> any_at w i = None \<Longrightarrow> any_step n w (Any_default i w)"
| val: "i < n \<Longrightarrow> any_at w i = None \<Longrightarrow> any_step n w (Any_value i w)"
| copy: "i < n \<Longrightarrow> any_at w i = None \<Longrightarrow> any_at w j = Some a \<Longrightarrow> any_step n w (Any_copy i a w)"
| copy_assign: "i < n \<Longrightarrow> any_at w i \<noteq> None \<Longrightarrow> any_step n w (Any_copy_assign i j w)"
| assign_value: "i < n \<Longrightarrow> any_at w i \<noteq> None \<Longrightarrow> any_step n w (Any_assign_value i w)"
| receive: "i < n \<Longrightarrow> any_at w i \<noteq> None \<Longrightarrow> any_step n w (set_message_iterator i msg w)"
| destroy: "i < n \<Longrightarrow> any_step n w (Any_destroy i w)"

text \<open>The message an \<open>Any\<close> holds.\<close>

fun ref_msg :: "any_ref \<Rightarrow> nat option" where
  "ref_msg (RefIterator msg) = msg"
| "ref_msg RefValue = None"

definition any_msg :: "any_world \<Rightarrow> nat \<Rightarrow> nat option" where
  "any_msg w i = Option.bind (any_at w i) ref_msg"

lemma set_any_simps [simp]:
  "msg_refs (set_any i a w) = msg_refs w" "any_at (set_any i a w) = (any_at w)(i \<mapsto> a)"
  by (simp_all add: set_any_def)

lemma count_ref_simps [simp]:
  "any_at (count_ref k msg w) = any_at w"
  "msg_refs (count_ref k msg w) m = msg_refs w m + (if msg = Some m then k else 0)"
  by (auto simp: count_ref_def split: option.splits)

lemma ref_simps [simp]:
  "any_at (ref_copy a w) = any_at w" "any_at (ref_destroy a w) = any_at w"
  "msg_refs (ref_copy a w) m = msg_refs w m + (if ref_msg a = Some m then 1 else 0)"
  "msg_refs (ref_destroy a w) m = msg_refs w m - (if ref_msg a = Some m then 1 else 0)"
  by (cases a; simp)+

text \<open>Assigning lets go of one message and takes the other, whatever the alternatives.\<close>

lemma variant_assign_refs:
  assumes "any_at w i = Some lhs"
  shows "any_at (variant_assign i rhs w) = (any_at w)(i \<mapsto> rhs)"
    and "msg_refs (variant_assign i rhs w) m =
      msg_refs w m + (if ref_msg rhs = Some m then 1 else 0) - (if ref_msg lhs = Some m then 1 else 0)"
  using assms by (simp_all add: variant_assign_def Iterator_assign_def split: any_ref.splits)

lemma any_step_balance: "any_step n w w' \<Longrightarrow> balance n (msg_refs w') (any_msg w') m = balance n (msg_refs w) (any_msg w) m"
proof (induction rule: any_step.induct)
  case (default i w)
  then show ?case by (intro balanceI [where i = i and x = None]) (simp_all add: Any_default_def any_msg_def)
next
  case (val i w)
  then show ?case by (intro balanceI [where i = i and x = None]) (simp_all add: Any_value_def any_msg_def)
next
  case (copy i w j a)
  then show ?case
    by (intro balanceI [where i = i and x = "ref_msg a"]) (simp_all add: Any_copy_def any_msg_def)
next
  case (copy_assign i w j)
  then obtain lhs where lhs: "any_at w i = Some lhs" by auto
  show ?case
  proof (cases "i = j \<or> any_at w j = None")
    case True
    then show ?thesis by (auto simp: Any_copy_assign_def)
  next
    case False
    then obtain a where a: "any_at w j = Some a" "i \<noteq> j" by auto
    then show ?thesis
      using copy_assign(1) lhs variant_assign_refs [OF lhs, of a]
      by (intro balanceI [where i = i and x = "ref_msg a"]) (simp_all add: Any_copy_assign_def any_msg_def)
  qed
next
  case (assign_value i w)
  then obtain lhs where lhs: "any_at w i = Some lhs" by auto
  with assign_value(1) variant_assign_refs [OF lhs, of RefValue] show ?case
    by (intro balanceI [where i = i and x = None]) (simp_all add: Any_assign_value_def any_msg_def)
next
  case (receive i w msg)
  then obtain lhs where lhs: "any_at (count_ref 1 (Some msg) w) i = Some lhs" by auto
  with receive(1) variant_assign_refs [OF lhs, of "RefIterator (Some msg)"] show ?case
    by (intro balanceI [where i = i and x = "Some msg"]) (simp_all add: set_message_iterator_def any_msg_def)
next
  case (destroy i w)
  show ?case
  proof (cases "any_at w i")
    case None
    then show ?thesis by (simp add: Any_destroy_def)
  next
    case (Some a)
    with destroy show ?thesis
      by (intro balanceI [where i = i and x = None]) (simp_all add: Any_destroy_def any_msg_def)
  qed
qed

text \<open>
  A received \<open>Any\<close> keeps its message. Whatever objects of type \<open>Any\<close> are made, received,
  copied, assigned, fb_self-assigned, overwritten with values and destroyed: libdbus counts one
  reference for each \<open>Any\<close> that was received in a message, so the message lives as long as an
  \<open>Any\<close> refers to it, and when none does the count is what it was.
\<close>

theorem any_keeps_message:
  assumes "(any_step n)\<^sup>*\<^sup>* w0 w" and "\<forall>i < n. any_at w0 i = None"
  shows "msg_refs w m = msg_refs w0 m + int (card {i. i < n \<and> any_at w i = Some (RefIterator (Some m))})"
proof -
  have "balance n (msg_refs w) (any_msg w) m = balance n (msg_refs w0) (any_msg w0) m"
    using assms(1) by (induction rule: rtranclp_induct) (auto simp: any_step_balance)
  moreover have "holders n (any_msg w0) m = 0" using assms(2) by (simp add: holders_none any_msg_def)
  moreover have "any_msg w i = Some m \<longleftrightarrow> any_at w i = Some (RefIterator (Some m))" for i
  proof (cases "any_at w i")
    case (Some a)
    then show ?thesis by (cases a) (auto simp: any_msg_def)
  qed (simp add: any_msg_def)
  ultimately show ?thesis by (simp add: balance_def) (simp add: holders_card)
qed

text \<open>An \<open>Any\<close> received in message 5 is copied, then overwritten with a value.\<close>

definition any_world0 :: any_world where
  "any_world0 = \<lparr>msg_refs = \<lambda>_. 1, any_at = Map.empty\<rparr>"

theorem any_keeps_message_witness:
  "\<exists>w. (any_step 2)\<^sup>*\<^sup>* any_world0 w \<and> any_at w = [0 \<mapsto> RefValue, 1 \<mapsto> RefIterator (Some 5)] \<and> msg_refs w 5 = 2"
proof -
  let ?w1 = "Any_default 0 any_world0"
  let ?w2 = "set_message_iterator 0 5 ?w1"
  let ?w3 = "Any_copy 1 (RefIterator (Some 5)) ?w2"
  let ?w4 = "Any_assign_value 0 ?w3"
  note defs = any_world0_def Any_default_def set_message_iterator_def Any_copy_def Any_assign_value_def variant_assign_def
    Iterator_assign_def
  have "any_step 2 any_world0 ?w1" by (rule any_step.default) (simp_all add: any_world0_def)
  moreover have "any_step 2 ?w1 ?w2" by (rule any_step.receive) (simp_all add: defs)
  moreover have "any_step 2 ?w2 ?w3" by (rule any_step.copy [of _ _ _ 0]) (simp_all add: defs)
  moreover have "any_step 2 ?w3 ?w4" by (rule any_step.assign_value) (simp_all add: defs)
  ultimately have r: "(any_step 2)\<^sup>*\<^sup>* any_world0 ?w4" by (meson converse_rtranclp_into_rtranclp r_into_rtranclp)
  have a: "any_at ?w4 = [0 \<mapsto> RefValue, 1 \<mapsto> RefIterator (Some 5)]"
    by (auto simp: defs fun_eq_iff)
  have "{i. i < 2 \<and> any_at ?w4 i = Some (RefIterator (Some 5))} = {1}" unfolding a by auto
  moreover have "msg_refs ?w4 5 = msg_refs any_world0 5 + int (card {i. i < 2 \<and> any_at ?w4 i = Some (RefIterator (Some 5))})"
    by (rule any_keeps_message [OF r]) (simp add: any_world0_def)
  ultimately have "msg_refs ?w4 5 = 2" by (simp add: any_world0_def)
  with r a show ?thesis by blast
qed

end
