(* ===== verification/StructTypes.thy ===== *)
theory StructTypes
  imports TypedMethods
begin

text \<open>
  Structs of the program (\<open>struct.h\<close>): the \<open>serializer_type\<close> that \<open>make_serializer\<close> computes from
  the list of member types, and the codec of a struct adapted with Boost.Fusion. Both put on the
  wire, and read, what the codec of a \<open>std::tuple\<close> of the members does.
\<close>

section \<open>make_serializer\<close>

lemma size_PopBack: "PopBack l = Some p \<Longrightarrow> l \<noteq> NilType \<Longrightarrow> size p < size l"
proof (induction l arbitrary: p)
  case (TypeList h t)
  then show ?case by (cases "t = NilType") auto
qed auto

text \<open>
  The members of a struct, in order, are the values of the inheritance chain of
  \<open>SerializerTuple\<close>s: the base part is the list without its last element. \<open>None\<close> is a list of
  types that does not compile.
\<close>

function make_serializer_imp ::
  "('w, 'r) dbus_iter_api \<Rightarrow> nat \<times> cpp_val \<Rightarrow> cxx \<Rightarrow> ('w, 'r, cpp_val list) fields option" where
  "make_serializer_imp L v0 l =
     (case l of
        TypeList t1 list \<Rightarrow>
          (if list = NilType
           then map_option (\<lambda>c. fields_iso (\<lambda>x. [x]) hd (SerializerTuple_nil c)) (cxx_codec L v0 t1)
           else (case PopBack list of
               None \<Rightarrow> None
             | Some front \<Rightarrow>
               Option.bind (make_serializer_imp L v0 (TypeList t1 front)) (\<lambda>base.
               Option.bind (Back list) (\<lambda>t2.
                 map_option (\<lambda>c. fields_iso (\<lambda>(xs, x). xs @ [x]) (\<lambda>xs. (butlast xs, last xs)) (SerializerTuple base c))
                   (cxx_codec L v0 t2)))))
      | _ \<Rightarrow> None)"
  by pat_completeness auto
termination
  by (relation "measure (\<lambda>(L, v0, l). size l)") (auto dest: size_PopBack)

declare make_serializer_imp.simps [simp del]

definition make_serializer ::
  "('w, 'r) dbus_iter_api \<Rightarrow> nat \<times> cpp_val \<Rightarrow> cxx list \<Rightarrow> ('w, 'r, cpp_val list) fields option" where
  "make_serializer L v0 ts = make_serializer_imp L v0 (make_typelist ts)"

section \<open>Boost.Fusion\<close>

text \<open>
  \<open>boost::fusion::for_each\<close> calls the function object with each member in the order of the
  adaption; \<open>FusionEncoder\<close>, \<open>FusionDecoder\<close> and \<open>FusionTypeWriter\<close> take the codec of the
  member's type.
\<close>

definition FusionEncoder :: "'w \<Rightarrow> ('w, 'r, 'a) codec \<times> 'a \<Rightarrow> 'w" where
  "FusionEncoder iter = (\<lambda>(c, t). enc c iter t)"

definition FusionDecoder :: "('w, 'r, 'a) codec \<Rightarrow> 'r \<Rightarrow> ('a \<times> 'r) res" where
  "FusionDecoder c iter = dec c iter"

definition FusionTypeWriter :: "string \<Rightarrow> ('w, 'r, 'a) codec \<Rightarrow> string" where
  "FusionTypeWriter os c = os @ sgn c"

definition fusion_encode :: "('w, 'r) dbus_iter_api \<Rightarrow> ('w, 'r, 'a) codec list \<Rightarrow> 'w \<Rightarrow> 'a list \<Rightarrow> 'w" where
  "fusion_encode L cs iter st =
     (let sub = open_container L iter DBUS_TYPE_STRUCT None;
          sub = foldl FusionEncoder sub (zip cs st)
      in close_container L iter sub)"

fun fusion_for_each_decode :: "('w, 'r, 'a) codec list \<Rightarrow> 'r \<Rightarrow> 'a list \<Rightarrow> ('a list \<times> 'r) res" where
  "fusion_for_each_decode [] iter st = ret (st, iter)"
| "fusion_for_each_decode (c # cs) iter st =
     rbind (FusionDecoder c iter) (\<lambda>(t, iter). fusion_for_each_decode cs iter (st @ [t]))"

definition fusion_decode :: "('w, 'r) dbus_iter_api \<Rightarrow> ('w, 'r, 'a) codec list \<Rightarrow> 'r \<Rightarrow> ('a list \<times> 'r) res" where
  "fusion_decode L cs iter =
     rbind (simppl_dbus_message_iter_recurse L iter DBUS_TYPE_STRUCT) (\<lambda>sub.
     rbind (fusion_for_each_decode cs sub []) (\<lambda>(st, sub). ret (st, iter_next L iter)))"

definition fusion_make_type_signature :: "('w, 'r, 'a) codec list \<Rightarrow> string" where
  "fusion_make_type_signature cs = foldl FusionTypeWriter ''('' cs @ '')''"

definition fusion_codec :: "('w, 'r) dbus_iter_api \<Rightarrow> ('w, 'r, 'a) codec list \<Rightarrow> ('w, 'r, 'a list) codec" where
  "fusion_codec L cs = \<lparr>enc = fusion_encode L cs, dec = fusion_decode L cs, sgn = fusion_make_type_signature cs\<rparr>"

text \<open>
  \<open>CodecImpl<T, Struct>\<close>: built with Boost.Fusion it takes the members of an adapted struct, else
  the serializer type of the struct.
\<close>

definition CodecImpl_Struct ::
  "('w, 'r) dbus_iter_api \<Rightarrow> bool \<Rightarrow> bool \<Rightarrow> ('w, 'r, 'a) codec list \<Rightarrow> ('w, 'r, 'a list) fields \<Rightarrow> ('w, 'r, 'a list) codec" where
  "CodecImpl_Struct L have_fusion is_sequence members serializer =
     (if have_fusion \<and> is_sequence then fusion_codec L members else struct_codec L serializer)"

section \<open>Member by member\<close>

text \<open>What all three do between opening and closing the struct.\<close>

fun decode_all :: "('w, 'r, 'a) codec list \<Rightarrow> 'r \<Rightarrow> ('a list \<times> 'r) res" where
  "decode_all [] iter = ret ([], iter)"
| "decode_all (c # cs) iter =
     rbind (dec c iter) (\<lambda>(x, iter). rbind (decode_all cs iter) (\<lambda>(xs, iter). ret (x # xs, iter)))"

definition in_order :: "('w, 'r, 'a) codec list \<Rightarrow> ('w, 'r, 'a list) fields \<Rightarrow> bool" where
  "in_order cs f \<longleftrightarrow> (\<forall>w xs. length xs = length cs \<longrightarrow> fenc f w xs = encode_all cs w xs)
     \<and> fdec f = decode_all cs \<and> fsgn f = concat (map sgn cs)"

lemma encode_all_snoc:
  "length xs = length cs \<Longrightarrow> encode_all (cs @ [c]) w (xs @ [x]) = enc c (encode_all cs w xs) x"
proof (induction cs arbitrary: xs w)
  case (Cons d cs)
  then show ?case by (cases xs) auto
qed simp

lemma rbind_ext: "(\<And>x. f x = g x) \<Longrightarrow> rbind m f = rbind m g"
  by (rule arg_cong [where f = "rbind m"]) auto

lemma decode_all_snoc:
  "decode_all (cs @ [c]) r = rbind (decode_all cs r) (\<lambda>(xs, r). rbind (dec c r) (\<lambda>(x, r). ret (xs @ [x], r)))"
  by (induction cs arbitrary: r) (auto simp: rbind_assoc split_beta intro!: rbind_ext)

lemma tuple_fields_in_order: "cs \<noteq> [] \<Longrightarrow> in_order cs (tuple_fields cs)"
proof (induction cs rule: tuple_fields.induct)
  case (2 c)
  have "fdec (tuple_fields [c]) = decode_all [c]"
    by (auto simp: fun_eq_iff fields_iso_def StdTupleForEach_last_def)
  moreover have "length xs = Suc 0 \<Longrightarrow> fenc (tuple_fields [c]) w xs = encode_all [c] w xs" for w xs
    by (cases xs) (auto simp: fields_iso_def StdTupleForEach_last_def)
  ultimately show ?case by (simp add: in_order_def fields_iso_def StdTupleForEach_last_def)
next
  case (3 c d cs)
  then have IH: "in_order (d # cs) (tuple_fields (d # cs))" by simp
  have "fdec (tuple_fields (c # d # cs)) r = decode_all (c # d # cs) r" for r
    using IH by (auto simp: fields_iso_def StdTupleForEach_def in_order_def rbind_assoc split_beta
        decode_all.simps(2) [of c "d # cs"] simp del: tuple_fields.simps(2) decode_all.simps(2) intro!: rbind_ext)
  then have "fdec (tuple_fields (c # d # cs)) = decode_all (c # d # cs)" by auto
  moreover have "length xs = Suc (Suc (length cs)) \<Longrightarrow> fenc (tuple_fields (c # d # cs)) w xs = encode_all (c # d # cs) w xs" for w xs
    using IH by (cases xs) (auto simp: fields_iso_def StdTupleForEach_def in_order_def)
  ultimately show ?case using IH by (simp add: in_order_def fields_iso_def StdTupleForEach_def)
qed simp

text \<open>The chain that \<open>make_serializer\<close> builds visits the members in order too.\<close>

lemma SerializerTuple_in_order:
  assumes "in_order cs base"
  shows "in_order (cs @ [c]) (fields_iso (\<lambda>(xs, x). xs @ [x]) (\<lambda>xs. (butlast xs, last xs)) (SerializerTuple base c))"
proof -
  let ?f = "fields_iso (\<lambda>(xs, x). xs @ [x]) (\<lambda>xs. (butlast xs, last xs)) (SerializerTuple base c)"
  have "fenc ?f w xs = encode_all (cs @ [c]) w xs" if "length xs = length (cs @ [c])" for w xs
    using that assms encode_all_snoc [of "butlast xs" cs c w "last xs"]
    by (cases xs rule: rev_cases) (simp_all add: fields_iso_def SerializerTuple_def in_order_def)
  moreover have "fdec ?f r = decode_all (cs @ [c]) r" for r
    using assms by (auto simp: fields_iso_def SerializerTuple_def in_order_def decode_all_snoc rbind_assoc split_beta
        intro!: rbind_ext)
  then have "fdec ?f = decode_all (cs @ [c])" by auto
  ultimately show ?thesis
    using assms by (simp add: in_order_def) (simp add: fields_iso_def SerializerTuple_def)
qed

lemma make_typelist_snoc:
  "ts \<noteq> [] \<Longrightarrow> PopBack (make_typelist (map Val ts @ [t])) = Some (make_typelist (map Val ts)) \<and>
     Back (make_typelist (map Val ts @ [t])) = Some t"
proof (induction ts)
  case (Cons a ts)
  then show ?case by (cases ts) auto
qed simp

lemma make_serializer_in_order:
  "as \<noteq> [] \<Longrightarrow> \<exists>f. make_serializer L v0 (map Val as) = Some f \<and> in_order (map (Codec_of L v0) as) f"
proof (induction as rule: rev_induct)
  case (snoc b as)
  show ?case
  proof (cases as)
    case Nil
    have "in_order [Codec_of L v0 b] (fields_iso (\<lambda>x. [x]) hd (SerializerTuple_nil (Codec_of L v0 b)))"
      by (auto simp: in_order_def fields_iso_def SerializerTuple_nil_def length_Suc_conv fun_eq_iff)
    with Nil show ?thesis
      by (simp add: make_serializer_def make_serializer_imp.simps cxx_codec_def)
  next
    case (Cons a bs)
    with snoc.IH obtain f where f: "make_serializer L v0 (map Val as) = Some f" "in_order (map (Codec_of L v0) as) f"
      by auto
    let ?list = "make_typelist (map Val bs @ [Val b])"
    have list: "make_typelist (map Val (as @ [b])) = TypeList (Val a) ?list" "?list \<noteq> NilType"
      using Cons by (cases bs; simp)+
    have fr: "\<exists>front. PopBack ?list = Some front \<and> make_typelist (map Val as) = TypeList (Val a) front"
      using Cons make_typelist_snoc [of bs "Val b"] by (cases bs) auto
    have bk: "Back ?list = Some (Val b)"
      using make_typelist_snoc [of bs "Val b"] by (cases bs) auto
    from fr f(1) obtain front where "PopBack ?list = Some front"
      "make_serializer_imp L v0 (TypeList (Val a) front) = Some f" by (auto simp: make_serializer_def)
    with list bk have "make_serializer L v0 (map Val (as @ [b])) =
        Some (fields_iso (\<lambda>(xs, x). xs @ [x]) (\<lambda>xs. (butlast xs, last xs)) (SerializerTuple f (Codec_of L v0 b)))"
      unfolding make_serializer_def list(1)
      by (subst make_serializer_imp.simps) (simp add: cxx_codec_def)
    with SerializerTuple_in_order [OF f(2)] show ?thesis by simp
  qed
qed simp

lemma fusion_encode_all:
  "length xs = length cs \<Longrightarrow> foldl FusionEncoder w (zip cs xs) = encode_all cs w xs"
proof (induction cs arbitrary: xs w)
  case (Cons c cs)
  then show ?case by (cases xs) (auto simp: FusionEncoder_def)
qed simp

lemma fusion_decode_all:
  "fusion_for_each_decode cs r st = rbind (decode_all cs r) (\<lambda>(xs, r). ret (st @ xs, r))"
proof (induction cs arbitrary: r st)
  case (Cons c cs)
  then show ?case by (auto simp: FusionDecoder_def rbind_assoc split_beta intro!: rbind_ext)
qed simp

lemma fusion_signature: "foldl FusionTypeWriter s cs = s @ concat (map sgn cs)"
  by (induction cs arbitrary: s) (auto simp: FusionTypeWriter_def)

section \<open>Structs and tuples agree\<close>

text \<open>Two codecs of lists of members that write, read and announce the same.\<close>

definition same_codec :: "nat \<Rightarrow> ('w, 'r, 'a list) codec \<Rightarrow> ('w, 'r, 'a list) codec \<Rightarrow> bool" where
  "same_codec n c d \<longleftrightarrow> sgn c = sgn d \<and> (\<forall>r. dec c r = dec d r) \<and> (\<forall>w xs. length xs = n \<longrightarrow> enc c w xs = enc d w xs)"

lemma same_codecD: "same_codec n c d \<Longrightarrow> length xs = n \<Longrightarrow> enc c w xs = enc d w xs"
  by (simp add: same_codec_def)

lemma in_order_same:
  "in_order cs f \<Longrightarrow> in_order cs g \<Longrightarrow> same_codec (length cs) (struct_codec L f) (tuple_codec L g)"
  by (simp add: in_order_def same_codec_def struct_is_tuple) (simp add: tuple_codec_def tuple_encode_def tuple_decode_def
      tuple_make_type_signature_def)

lemma fusion_same:
  "in_order cs g \<Longrightarrow> same_codec (length cs) (fusion_codec L cs) (tuple_codec L g)"
  by (auto simp: in_order_def same_codec_def fusion_codec_def fusion_encode_def fusion_decode_def fusion_encode_all
      fusion_decode_all fusion_make_type_signature_def fusion_signature tuple_codec_def tuple_encode_def tuple_decode_def
      tuple_make_type_signature_def rbind_assoc split_beta intro!: rbind_ext)

text \<open>
  C12. A struct is sent and received as a tuple of its members. For every non-empty list of
  member types \<open>make_serializer\<close> yields a serializer; the codec of the struct, with this
  serializer or adapted with Boost.Fusion, and the codec of the tuple announce the same
  signature, append the same values and decode alike, whatever the message holds.
\<close>
theorem struct_as_tuple:
  assumes "as \<noteq> []"
  shows "\<exists>f. make_serializer L v0 (map Val as) = Some f \<and>
    (\<forall>have_fusion is_sequence.
       same_codec (length as) (CodecImpl_Struct L have_fusion is_sequence (map (Codec_of L v0) as) f)
         (tuple_codec L (tuple_fields (map (Codec_of L v0) as))))"
proof -
  obtain f where f: "make_serializer L v0 (map Val as) = Some f" "in_order (map (Codec_of L v0) as) f"
    using make_serializer_in_order [OF assms] by blast
  have t: "in_order (map (Codec_of L v0) as) (tuple_fields (map (Codec_of L v0) as))"
    using assms by (intro tuple_fields_in_order) simp
  show ?thesis
    using f in_order_same [OF f(2) t, of L] fusion_same [OF t, of L] by (auto simp: CodecImpl_Struct_def)
qed

theorem struct_as_tuple_witness:
  "\<exists>f. make_serializer ref_api (0, VBool False) [Val TyString, Val TyBool, Val TyString] = Some f \<and>
     snd (enc (CodecImpl_Struct ref_api True False [] f) ref_root [VStr ''a'', VBool True, VStr ''b'']) =
     snd (enc (Codec_of ref_api (0, VBool False) (TyTuple [TyString, TyBool, TyString])) ref_root (VTuple [VStr ''a'', VBool True, VStr ''b'']))"
proof -
  let ?as = "[TyString, TyBool, TyString]" and ?v0 = "(0 :: nat, VBool False)"
  let ?xs = "[VStr ''a'', VBool True, VStr ''b'']"
  obtain f where f: "make_serializer ref_api ?v0 (map Val ?as) = Some f"
    and all: "\<forall>have_fusion is_sequence.
       same_codec (length ?as) (CodecImpl_Struct ref_api have_fusion is_sequence (map (Codec_of ref_api ?v0) ?as) f)
         (tuple_codec ref_api (tuple_fields (map (Codec_of ref_api ?v0) ?as)))"
    using struct_as_tuple [of ?as ref_api ?v0] by (auto simp del: Codec_of.simps tuple_fields.simps list.map list.size)
  from all have "same_codec (length ?as) (CodecImpl_Struct ref_api True False (map (Codec_of ref_api ?v0) ?as) f)
      (tuple_codec ref_api (tuple_fields (map (Codec_of ref_api ?v0) ?as)))" by blast
  then have same: "same_codec 3 (struct_codec ref_api f) (tuple_codec ref_api (tuple_fields (map (Codec_of ref_api ?v0) ?as)))"
    by (simp add: CodecImpl_Struct_def numeral_3_eq_3 del: Codec_of.simps tuple_fields.simps list.map)
  from same have "enc (struct_codec ref_api f) ref_root ?xs =
      enc (tuple_codec ref_api (tuple_fields (map (Codec_of ref_api ?v0) ?as))) ref_root ?xs"
    by (rule same_codecD) simp
  also have "\<dots> = enc (Codec_of ref_api ?v0 (TyTuple ?as)) ref_root (VTuple ?xs)"
    by (simp add: codec_iso_def del: tuple_fields.simps)
  finally show ?thesis using f by (intro exI [of _ f]) (simp add: CodecImpl_Struct_def)
qed

end
