(* ===== verification/AsyncCalls.thy ===== *)
theory AsyncCalls
  imports TypedCorrect
begin

text \<open>
  Asynchronous calls of declared methods: \<open>ClientMethod::async\<close>, the callback holder that
  \<open>operator>>\<close> hands to libdbus, and what the callback is called with when the reply arrives
  (\<open>clientside.h\<close>, \<open>detail/holders.h\<close>, \<open>detail/callinterface.h\<close>); the same for the value of a
  property. They are compared with the blocking operations on the same reply.
\<close>

section \<open>Default values\<close>

text \<open>The members of a default constructed \<open>std::tuple\<close> are value-initialised.\<close>

fun default_basic :: "char \<Rightarrow> basic" where
  "default_basic c =
     (if c = DBUS_TYPE_INT16 then BInt16 0
      else if c = DBUS_TYPE_UINT16 then BUint16 0
      else if c = DBUS_TYPE_INT32 then BInt32 0
      else if c = DBUS_TYPE_UINT32 then BUint32 0
      else if c = DBUS_TYPE_INT64 then BInt64 0
      else if c = DBUS_TYPE_UINT64 then BUint64 0
      else if c = DBUS_TYPE_DOUBLE then BDouble 0
      else BByte 0)"

primrec default_val :: "cpp_ty \<Rightarrow> cpp_val" where
  "default_val (TyPod k) = VPod (default_basic (case dbus_type_code k of Some c \<Rightarrow> c | None \<Rightarrow> DBUS_TYPE_BYTE))"
| "default_val TyBool = VBool False"
| "default_val TyString = VStr []"
| "default_val TyObjectPath = VPath (ObjectPath [])"
| "default_val TyWString = VWStr []"
| "default_val (TyVector t) = VVector []"
| "default_val (TyMap k t) = (case k of KeyString \<Rightarrow> VStrMap [] | KeyObjectPath \<Rightarrow> VPathMap [] | KeyUint32 \<Rightarrow> VUint32Map [])"
| "default_val (TyTuple ts) = VTuple (map default_val ts)"
| "default_val (TyVariant ts) = VVariant 0 (hd (map default_val ts))"

definition cxx_default :: "cxx \<Rightarrow> cpp_val" where
  "cxx_default t = (case t of Val a \<Rightarrow> default_val a | _ \<Rightarrow> VTuple [])"

lemma cxx_default_Val [simp]: "cxx_default (Val a) = default_val a"
  by (simp add: cxx_default_def)

section \<open>The callback of a method\<close>

text \<open>
  \<open>DeserializeAndCall::evalResponse\<close>: the tuple is decoded only when the call state says that the
  call succeeded; the functor gets the call state and the elements of the tuple.
\<close>

definition DeserializeAndCall_evalResponse ::
  "('w, 'r) dbus_iter_api \<Rightarrow> nat \<times> cpp_val \<Rightarrow> cxx \<Rightarrow> (bool \<Rightarrow> 'r \<Rightarrow> cpp_val list res) option" where
  "DeserializeAndCall_evalResponse L v0 t =
     (if t = Void then Some (\<lambda>ok iter. ret [])
      else map_option (\<lambda>cs ok iter.
             rbind (if ok then rbind (decode_flattened (tuple_fields cs) iter) (\<lambda>(tuple, iter). ret tuple)
                    else ret (map cxx_default (GetCaller t)))
               (\<lambda>tuple. map_option Inr (FunctionCaller 0 tuple [])))
           (if GetCaller t = [] then None else arg_codecs L v0 (GetCaller t)))"

text \<open>
  \<open>CallbackHolder<cb_type, return_type, exception_type>::pending_notify\<close>: what \<open>f_\<close> is called with.
  \<open>init\<close> is the \<open>ErrorFactory::init\<close> of a fresh exception of the method's class. \<open>None\<close> is a
  declaration, or a call of \<open>f_\<close>, that does not compile.
\<close>

definition method_notify ::
  "('w, 'r) dbus_iter_api \<Rightarrow> nat \<times> cpp_val \<Rightarrow> ('r in_msg \<Rightarrow> (error_obj \<times> 'm) res) \<Rightarrow> cxx list
     \<Rightarrow> ('r in_msg \<Rightarrow> ('m call_state \<times> cpp_val list) res) option" where
  "method_notify L v0 init ts =
     Option.bind (ClientMethod ts) (\<lambda>m.
       if callable (cmt_callback m) (CallStateRef (cmt_exception m) # GetCaller (cmt_return m))
       then map_option (\<lambda>d msg. rbind (CallState_msg init msg) (\<lambda>cs.
              rbind (d (call_ok cs) (im_body msg)) (\<lambda>tuple. ret (cs, tuple))))
              (DeserializeAndCall_evalResponse L v0 (cmt_return m))
       else None)"

text \<open>\<open>ClientMethod::async\<close>; the \<open>InterimCallbackHolder\<close> it returns holds the pending call only.\<close>

definition method_async ::
  "('b, 'w, 'r) dbus_conn_api \<Rightarrow> nat \<Rightarrow> 'r client_method \<Rightarrow> ('w \<Rightarrow> 'w) \<Rightarrow> (('b, 'w, 'r, 'v) client, pending_call) prog" where
  "method_async K s m f = send_request K s m f False"

text \<open>
  \<open>operator>>\<close>: libdbus keeps the new holder with the pending call, in place of one it had
  (\<open>dbus_pending_call_set_notify\<close>); a pending call that is null is not checked for.
\<close>

definition set_notify :: "pending_call \<Rightarrow> 'h \<Rightarrow> (nat \<Rightarrow> 'h option) \<Rightarrow> (pending_call \<times> (nat \<Rightarrow> 'h option)) res" where
  "set_notify r f notify =
     (case pc_pending r of None \<Rightarrow> throw UndefinedBehaviour | Some p \<Rightarrow> ret (r, notify(p \<mapsto> f)))"

text \<open>The arrival of a reply: the callback the holder of the pending call has, with its arguments.\<close>

definition reply_notified ::
  "('r in_msg \<Rightarrow> 'a res) \<Rightarrow> (nat \<Rightarrow> ('a \<Rightarrow> 'u \<Rightarrow> 'u) option) \<Rightarrow> nat \<Rightarrow> 'r in_msg \<Rightarrow> 'u \<Rightarrow> 'u res" where
  "reply_notified nf notify p msg u =
     (case notify p of None \<Rightarrow> ret u | Some f \<Rightarrow> rbind (nf msg) (\<lambda>args. ret (f args u)))"

section \<open>Blocking and asynchronous calls agree\<close>

text \<open>The arguments of the callback, from what the blocking call returns.\<close>

definition result_args :: "cpp_ty list \<Rightarrow> cpp_val option \<Rightarrow> cpp_val list" where
  "result_args as x = (if as = [] then [] else if length as = 1 then [the x] else un_VTuple (the x))"

lemma GetCaller_Void: "GetCaller Void = []"
  by (simp add: GetCaller_def)

lemma decoded_tuple_ne:
  "cs \<noteq> [] \<Longrightarrow> decode_flattened (tuple_fields cs) iter = ret (tuple, it) \<Longrightarrow> tuple \<noteq> []"
  by (cases cs rule: remdups_adj.cases) (auto simp: decode_flattened_def fields_iso_def rbind_eq_ret split: prod.splits)

text \<open>Calling the functor does not change a decoded tuple.\<close>

lemma call_with_decoded:
  assumes "cs \<noteq> []"
  shows "rbind (rbind (decode_flattened (tuple_fields cs) iter) (\<lambda>(tuple, iter). ret tuple))
      (\<lambda>tuple. map_option Inr (FunctionCaller 0 tuple [])) =
    rbind (decode_flattened (tuple_fields cs) iter) (\<lambda>(tuple, iter). ret tuple)"
proof (cases "decode_flattened (tuple_fields cs) iter" rule: res_cases)
  case (returns x)
  then obtain tuple it where x: "decode_flattened (tuple_fields cs) iter = ret (tuple, it)" by (cases x) auto
  with decoded_tuple_ne [OF assms x] show ?thesis by (simp add: FunctionCaller_all) (simp add: ret_def)
qed simp_all

lemma evalResponse_args:
  assumes "\<not> single_tuple as" "deserialize_and_return L v0 (tuple_type as) = Some rd"
    and "DeserializeAndCall_evalResponse L v0 (tuple_type as) = Some d"
  shows "d False iter = ret (map default_val as)"
    and "d True iter = rbind (case rd of None \<Rightarrow> ret None | Some h \<Rightarrow> rbind (h iter) (\<lambda>(x, it). ret (Some x)))
                         (\<lambda>x. ret (result_args as x))"
proof -
  have caller: "GetCaller (tuple_type as) = map Val as"
    using assms(1) by (rule GetCaller_not_single)
  show "d False iter = ret (map default_val as)"
    using assms(3) caller
    by (cases "as = []") (auto simp: DeserializeAndCall_evalResponse_def FunctionCaller_all comp_def ret_def)
  show "d True iter = rbind (case rd of None \<Rightarrow> ret None | Some h \<Rightarrow> rbind (h iter) (\<lambda>(x, it). ret (Some x)))
                         (\<lambda>x. ret (result_args as x))"
  proof (cases as rule: remdups_adj.cases)
    case 1
    with assms(2,3) show ?thesis
      by (auto simp: deserialize_and_return_def DeserializeAndCall_evalResponse_def result_args_def)
  next
    case (2 a)
    with assms(1) have "std_tuple (Val a) = None" by (cases a) (auto simp: single_tuple_def)
    with 2 assms(2) have rd: "rd = Some (dec (Codec_of L v0 a))"
      by (auto simp: deserialize_and_return_def cxx_codec_def)
    have "d True iter = rbind (decode_flattened (tuple_fields [Codec_of L v0 a]) iter) (\<lambda>(tuple, iter). ret tuple)"
      using assms(3) caller 2 call_with_decoded [of "[Codec_of L v0 a]" iter]
        arg_codecs_Val [of L v0 "[a]"] by (auto simp: DeserializeAndCall_evalResponse_def simp del: tuple_fields.simps)
    with 2 rd show ?thesis
      by (cases "dec (Codec_of L v0 a) iter" rule: res_cases)
        (auto simp: decode_flattened_def fields_iso_def StdTupleForEach_last_def result_args_def split: prod.splits)
  next
    case (3 a b bs)
    let ?cs = "map (Codec_of L v0) as"
    have cs: "arg_codecs L v0 (map Val as) = Some ?cs" by simp
    with 3 assms(2) have rd: "rd = Some (\<lambda>iter. rbind (decode_flattened (tuple_fields ?cs) iter) (\<lambda>(rc, iter). ret (VTuple rc, iter)))"
      by (simp add: deserialize_and_return_def del: arg_codecs_Val)
    have "d True iter = rbind (decode_flattened (tuple_fields ?cs) iter) (\<lambda>(tuple, iter). ret tuple)"
      using assms(3) caller cs 3 call_with_decoded [of ?cs iter]
      by (auto simp: DeserializeAndCall_evalResponse_def simp del: tuple_fields.simps arg_codecs_Val)
    with 3 rd show ?thesis
      by (cases "decode_flattened (tuple_fields ?cs) iter" rule: res_cases)
        (auto simp: result_args_def simp del: tuple_fields.simps split: prod.splits)
  qed
qed

lemma method_notify_declared:
  assumes "plain ts" "method_notify L v0 init ts = Some nf"
  obtains d where "DeserializeAndCall_evalResponse L v0 (tuple_type (outs ts)) = Some d"
    and "\<And>msg. nf msg = rbind (CallState_msg init msg) (\<lambda>cs. rbind (d (call_ok cs) (im_body msg)) (\<lambda>tuple. ret (cs, tuple)))"
  using assms ClientMethod_declared [of ts]
  by (auto simp: method_notify_def plain_def split: if_splits)

lemma method_notify_compiles:
  assumes "plain ts"
  shows "\<exists>nf. method_notify L v0 init ts = Some nf"
proof -
  have "GetCaller (tuple_type (outs ts)) = map Val (outs ts)"
    using assms by (intro GetCaller_not_single) (simp add: plain_def)
  moreover have "declared ts" using assms by (simp add: plain_def)
  ultimately show ?thesis
    using ClientMethod_declared [of ts]
    by (auto simp: method_notify_def callable_same DeserializeAndCall_evalResponse_def)
qed

text \<open>
  C3. Blocking and asynchronous calls agree. An asynchronous call sends the same message with
  the same timeout, and for whatever reply arrives its callback gets what the blocking call
  makes of this reply: where that returns, a call state without error and the returned values;
  where the peer answered with an error, this error and default values; where decoding throws,
  nothing, and the notification of libdbus is left with the exception.
\<close>
theorem async_matches_blocking:
  fixes c :: "('b, 'w, 'r, 'v) client"
  assumes "plain ts" and "client_result L v0 ts = Some rd" and "method_notify L v0 init ts = Some nf"
    and "has_disp (the_stub s c)" and "cm_throw cm = (\<lambda>msg. rbind (init msg) (\<lambda>ex. ret (exn_of ex)))"
    and "send_with_reply K (conn_of c) (method_msg K (the_stub s c) (cm_name cm) f) (helper_timeout c) = (p, b1)"
    and "call_block K b1 p = (rmsg, b2)"
  shows "(\<exists>pc c'. method_async K s cm f c = Some (Inr pc, c') \<and> pc_pending pc = Some p \<and> conn_of c' = b1) \<and>
    (if im_type rmsg = ErrorReply then
       map_option fst (method_call K s cm False f rd c) = rbind (init rmsg) (\<lambda>ex. throw (exn_of ex)) \<and>
       nf rmsg = rbind (init rmsg) (\<lambda>ex. ret (CallState_error ex, map default_val (outs ts)))
     else nf rmsg = rbind (map_option fst (method_call K s cm False f rd c))
       (\<lambda>x. ret (CallState_serial (im_reply_serial rmsg), result_args (outs ts) x)))"
proof -
  obtain d where d: "DeserializeAndCall_evalResponse L v0 (tuple_type (outs ts)) = Some d"
    and nf: "\<And>msg. nf msg = rbind (CallState_msg init msg) (\<lambda>cs. rbind (d (call_ok cs) (im_body msg)) (\<lambda>tuple. ret (cs, tuple)))"
    using method_notify_declared [OF assms(1,3)] by blast
  have s: "\<not> single_tuple (outs ts)" and rd: "deserialize_and_return L v0 (tuple_type (outs ts)) = Some rd"
    using assms(1,2) client_parts(2) [of ts L v0] by (auto simp: plain_def)
  note args = evalResponse_args [OF s rd d]
  have "\<exists>pc c'. method_async K s cm f c = Some (Inr pc, c') \<and> pc_pending pc = Some p \<and> conn_of c' = b1"
    using assms(4,6) by (simp add: method_async_def send_request_def need_disp_def with_reply_def pbind_def preturn_def
        Let_def)
  moreover obtain c' where blk: "send_request_and_block K s cm f False c =
      (if im_type rmsg = ErrorReply then pbind (plift (cm_throw cm rmsg)) pthrow c' else Some (Inr (Some rmsg), c'))"
    using blocking_call [OF assms(4,6,7)] by blast
  have "if im_type rmsg = ErrorReply then
       map_option fst (method_call K s cm False f rd c) = rbind (init rmsg) (\<lambda>ex. throw (exn_of ex)) \<and>
       nf rmsg = rbind (init rmsg) (\<lambda>ex. ret (CallState_error ex, map default_val (outs ts)))
     else nf rmsg = rbind (map_option fst (method_call K s cm False f rd c))
       (\<lambda>x. ret (CallState_serial (im_reply_serial rmsg), result_args (outs ts) x))"
  proof (cases "im_type rmsg = ErrorReply")
    case True
    have "map_option fst (method_call K s cm False f rd c) = rbind (init rmsg) (\<lambda>ex. throw (exn_of ex))"
      using blk assms(5) True
      by (cases "init rmsg" rule: res_cases) (auto simp: method_call_def plift_def pbind_def preturn_def pthrow_def throw_def ret_def)
    moreover have "nf rmsg = rbind (init rmsg) (\<lambda>ex. ret (CallState_error ex, map default_val (outs ts)))"
      using True args(1)
      by (cases "init rmsg" rule: res_cases) (simp_all add: nf CallState_msg_def CallState_error_def call_ok_def)
    ultimately show ?thesis using True by simp
  next
    case False
    have "map_option fst (method_call K s cm False f rd c) =
        (case rd of None \<Rightarrow> ret None | Some h \<Rightarrow> rbind (h (im_body rmsg)) (\<lambda>(x, it). ret (Some x)))"
    proof (cases rd)
      case None
      with blk False show ?thesis by (simp add: method_call_def preturn_def ret_def)
    next
      case (Some h)
      with blk False show ?thesis
        by (cases "h (im_body rmsg)" rule: res_cases)
          (auto simp: method_call_def plift_def pbind_def preturn_def pthrow_def throw_def ret_def)
    qed
    moreover have "nf rmsg = rbind (d True (im_body rmsg)) (\<lambda>tuple. ret (CallState_serial (im_reply_serial rmsg), tuple))"
      using False by (simp add: nf CallState_msg_def CallState_serial_def call_ok_def)
    ultimately show ?thesis using False args(2) by (simp add: rbind_assoc)
  qed
  ultimately show ?thesis by blast
qed

section \<open>Property values that do not have the declared type\<close>

lemma dsig_type: "wf_dval v \<Longrightarrow> sig_type (dsig v) = dtype v"
proof (cases v)
  case (Basic b)
  then show ?thesis by (cases b) (simp_all add: sig_type_def)
next
  case (Cont t g vs)
  assume "wf_dval v"
  with Cont wf_dval_type [of t g vs] show ?thesis by (auto simp: sig_type_def)
qed

text \<open>
  C40. When the reply to a request for a property holds a value of another type, the blocking
  read throws \<open>DecoderError\<close>, but the callback of the asynchronous one is told that the call
  succeeded, with a default value.
\<close>
theorem property_reply_of_other_type:
  assumes "dbus_iter L bvalid wk wv rv" and "ty_ok T" and "wf_dval v" and "dtype v \<noteq> sig_type (ty_sig T)"
    and "rv (im_body msg) = [Cont DBUS_TYPE_VARIANT (dsig v) [v]]" and "im_type msg \<noteq> ErrorReply"
  shows "PropertyCodec_decode L (Codec_of L v0 T) (im_body msg) = throw DecoderError \<and>
    PropertyCallbackHolder_notify L init (Codec_of L v0 T) (default_val T) msg =
      ret (CallState_serial (im_reply_serial msg), default_val T)"
proof -
  obtain cv where c: "codec L bvalid wk wv rv (Codec_of L v0 T) (val_ok bvalid T) cv"
    using dbus_iter.Codec_of_ok [OF assms(1,2)] by blast
  let ?r = "im_body msg"
  have sub: "simppl_dbus_message_iter_recurse L ?r DBUS_TYPE_VARIANT = ret (iter_recurse L ?r)" "rv (iter_recurse L ?r) = [v]"
    using dbus_iter.recurse_ret [OF assms(1,5)] by simp_all
  have "dec (Codec_of L v0 T) (iter_recurse L ?r) = throw DecoderError"
    using assms(4) dbus_iter.arg_type_val [OF assms(1) sub(2)]
    by (intro codec.dec_type [OF c]) (simp add: Codec_of_sig [OF assms(2)])
  moreover have s: "sgn (Codec_of L v0 T) = ty_sig T" by (rule Codec_of_sig [OF assms(2)])
  have "sgn (Codec_of L v0 T) \<noteq> get_signature L (iter_recurse L ?r)"
    using dbus_iter.signature_val [OF assms(1) sub(2)] dsig_type [OF assms(3)] assms(4) s by auto
  ultimately show ?thesis
    using sub(1) assms(6)
    by (simp add: PropertyCodec_decode_def PropertyCallbackHolder_notify_def CallState_msg_def CallState_serial_def
        call_ok_def variant_decode_def alts_last_def VariantDeserializer_last_def)
qed

theorem property_reply_of_other_type_witness:
  "PropertyCodec_decode ref_api (Codec_of ref_api holds0 TyString)
     [Cont DBUS_TYPE_VARIANT ''i'' [Basic (BInt32 7)]] = throw DecoderError \<and>
   PropertyCallbackHolder_notify ref_api (\<lambda>msg. ret (Error_default, ())) (Codec_of ref_api holds0 TyString) (default_val TyString)
     (echo_reply\<lparr>im_body := [Cont DBUS_TYPE_VARIANT ''i'' [Basic (BInt32 7)]]\<rparr>) =
     ret (CallState_serial (im_reply_serial echo_reply), VStr [])"
  using property_reply_of_other_type [OF ref.dbus_iter_axioms, of TyString "Basic (BInt32 7)"
      "echo_reply\<lparr>im_body := [Cont DBUS_TYPE_VARIANT ''i'' [Basic (BInt32 7)]]\<rparr>" holds0 "\<lambda>msg. ret (Error_default, ())"]
  by (simp add: echo_reply_def sig_type_def)

theorem async_matches_blocking_witness:
  "\<exists>f rd nf pc c'. client_request ref_api holds0 sample_decl = Some f \<and> client_result ref_api holds0 sample_decl = Some rd \<and>
     method_notify ref_api holds0 (\<lambda>msg. rbind (ErrorFactory_Error_init ref_api (\<lambda>_. NUL) Error_default msg) (\<lambda>(e, it). ret (e, ()))) sample_decl = Some nf \<and>
     method_async (K1 typed_reply) 0 echo0 (f [VStr ''hi'']) client0 = Some (Inr pc, c') \<and>
     nf typed_reply = rbind (map_option fst (method_call (K1 typed_reply) 0 echo0 False (f [VStr ''hi'']) rd client0))
       (\<lambda>x. ret (CallState_serial (im_reply_serial typed_reply), result_args (outs sample_decl) x))"
proof -
  let ?K = "K1 typed_reply" and ?init = "\<lambda>msg. rbind (ErrorFactory_Error_init ref_api (\<lambda>_. NUL) Error_default msg) (\<lambda>(e, it). ret (e, ()))"
  obtain f rd where f: "client_request ref_api holds0 sample_decl = Some f" and rd: "client_result ref_api holds0 sample_decl = Some rd"
    using sample_parts by blast
  obtain nf where nf: "method_notify ref_api holds0 ?init sample_decl = Some nf"
    using method_notify_compiles [OF sample_decl_ok(1)] by blast
  have throw: "cm_throw echo0 = (\<lambda>msg. rbind (?init msg) (\<lambda>ex. ret (ErrorExn (fst ex))))"
    by (auto simp: echo0_def Error_throw_def rbind_assoc fun_eq_iff intro!: arg_cong [where f = "rbind _"])
  obtain p b1 where snt: "send_with_reply ?K (conn_of client0) (method_msg ?K (the_stub 0 client0) (cm_name echo0) (f [VStr ''hi'']))
      (helper_timeout client0) = (p, b1)" by fastforce
  have blk: "call_block ?K b1 p = (typed_reply, b1)" by (simp add: rec_api_def)
  have "im_type typed_reply \<noteq> ErrorReply" by (simp add: typed_reply_def echo_reply_def)
  with async_matches_blocking [OF sample_decl_ok(1) rd nf echo_call(5) throw snt blk] f rd nf show ?thesis by auto
qed


end
