(* ===== verification/IniFile.thy ===== *)
theory IniFile
  imports ErrorObj
begin

text \<open>
  The line parsers of \<^verbatim>\<open>detail/inifile.h\<close>: \<open>KeyValueParser\<close>, \<open>SectionNameParser\<close>,
  \<open>skipComments\<close>, the converters of option values and the reader of lines.

  A line is a \<open>char*\<close> into an array that the parsers read and write. The model keeps the
  array as the list of its characters (the terminating NUL and what lies behind it included)
  and pointers as indices; reading or writing outside the array is \<open>UndefinedBehaviour\<close>.
  The parsers are chains of states: each state is a member function, the table \<open>states\<close>
  says which one follows, and \<open>parse\<close> calls the current one until \<open>success\<close> or \<open>fail\<close>.
\<close>

section \<open>Characters and arrays\<close>

definition char_code :: "char \<Rightarrow> nat" where
  "char_code c = of_char c"

definition isblank :: "char \<Rightarrow> bool" where
  "isblank c \<longleftrightarrow> char_code c = 32 \<or> char_code c = 9"

definition isgraph :: "char \<Rightarrow> bool" where
  "isgraph c \<longleftrightarrow> 33 \<le> char_code c \<and> char_code c \<le> 126"

definition isdigit :: "char \<Rightarrow> bool" where
  "isdigit c \<longleftrightarrow> 48 \<le> char_code c \<and> char_code c \<le> 57"

definition isalnum :: "char \<Rightarrow> bool" where
  "isalnum c \<longleftrightarrow> isdigit c \<or> 65 \<le> char_code c \<and> char_code c \<le> 90
     \<or> 97 \<le> char_code c \<and> char_code c \<le> 122"

definition is_space :: "char \<Rightarrow> bool" where
  "is_space c \<longleftrightarrow> char_code c = 32 \<or> 9 \<le> char_code c \<and> char_code c \<le> 13"

definition ascii :: "char \<Rightarrow> bool" where
  "ascii c \<longleftrightarrow> char_code c < 128"

text \<open>
  The functions of \<^verbatim>\<open>ctype.h\<close> take an \<open>int\<close> that has to be a value of \<open>unsigned char\<close>. The
  code hands them a plain \<open>char\<close>: outside ASCII it is negative, and the call undefined.
\<close>

definition ctype :: "(char \<Rightarrow> bool) \<Rightarrow> char \<Rightarrow> bool res" where
  "ctype P c = (if ascii c then ret (P c) else throw UndefinedBehaviour)"

definition char_at :: "string \<Rightarrow> nat \<Rightarrow> char res" where
  "char_at s i = (if i < length s then ret (s ! i) else throw UndefinedBehaviour)"

definition put_char :: "string \<Rightarrow> nat \<Rightarrow> char \<Rightarrow> string res" where
  "put_char s i c = (if i < length s then ret (s[i := c]) else throw UndefinedBehaviour)"

definition name_char :: "char \<Rightarrow> bool" where
  "name_char c \<longleftrightarrow> isalnum c \<or> c = CHR ''_'' \<or> c = CHR ''-'' \<or> c = CHR ''.''"

section \<open>Chains of states\<close>

partial_function (option) run_states :: "('p \<Rightarrow> bool) \<Rightarrow> ('p \<Rightarrow> 'p res) \<Rightarrow> 'p \<Rightarrow> 'p res" where
  "run_states final step p = (if final p then ret p else rbind (step p) (run_states final step))"

section \<open>Key-value lines\<close>

datatype kv_state = KeyPart | Ws | Equal | BeginQuote | EndQuote | ValuePart | Success | Fail | Finish

record kv_parser =
  kv_at :: "kv_state option"
  kv_line :: string
  kv_cur :: nat
  kv_idx :: int
  kv_quoted :: bool
  kv_beginkey :: "nat option"
  kv_endkey :: "nat option"
  kv_beginvalue :: "nat option"
  kv_endvalue :: "nat option"

definition KeyValueParser :: "string \<Rightarrow> kv_parser" where
  "KeyValueParser line = \<lparr>kv_at = None, kv_line = line, kv_cur = 0, kv_idx = - 1, kv_quoted = False,
     kv_beginkey = None, kv_endkey = None, kv_beginvalue = None, kv_endvalue = None\<rparr>"

definition kv_states :: "kv_state list" where
  "kv_states = [Ws, KeyPart, Ws, Equal, Ws, BeginQuote, ValuePart, EndQuote, Ws, Finish]"

text \<open>\<open>state_ = next()\<close>.\<close>

definition kv_next :: "kv_parser \<Rightarrow> kv_parser res" where
  "kv_next p =
     (let i = kv_idx p + 1 in
      if 0 \<le> i \<and> nat i < length kv_states
      then ret (p\<lparr>kv_at := Some (kv_states ! nat i), kv_idx := i\<rparr>)
      else throw UndefinedBehaviour)"

definition kv_goto :: "kv_state \<Rightarrow> kv_parser \<Rightarrow> kv_parser" where
  "kv_goto s p = p\<lparr>kv_at := Some s\<rparr>"

definition kv_inc :: "kv_parser \<Rightarrow> kv_parser" where
  "kv_inc p = p\<lparr>kv_cur := Suc (kv_cur p)\<rparr>"

definition kv_char :: "kv_parser \<Rightarrow> char res" where
  "kv_char p = char_at (kv_line p) (kv_cur p)"

definition kv_key :: "kv_parser \<Rightarrow> kv_parser res" where
  "kv_key p =
     rbind (kv_char p) (\<lambda>c.
     rbind (ctype isalnum c) (\<lambda>alnum.
       if alnum \<or> c = CHR ''_'' \<or> c = CHR ''-'' \<or> c = CHR ''.''
       then let p = (if kv_beginkey p = None then p\<lparr>kv_beginkey := Some (kv_cur p)\<rparr> else p);
                p = kv_inc p
            in ret (p\<lparr>kv_endkey := Some (kv_cur p)\<rparr>)
       else kv_next p))"

definition kv_ws :: "kv_parser \<Rightarrow> kv_parser res" where
  "kv_ws p =
     rbind (kv_char p) (\<lambda>c.
     rbind (ctype isblank c) (\<lambda>blank.
       if blank then ret (kv_inc p) else kv_next p))"

definition kv_equal :: "kv_parser \<Rightarrow> kv_parser res" where
  "kv_equal p =
     rbind (kv_char p) (\<lambda>c.
     rbind (if c = CHR ''='' then kv_next p else ret (kv_goto Fail p)) (\<lambda>p. ret (kv_inc p)))"

definition kv_beginquote :: "kv_parser \<Rightarrow> kv_parser res" where
  "kv_beginquote p =
     rbind (kv_char p) (\<lambda>c. kv_next (if c = CHR 0x22 then kv_inc (p\<lparr>kv_quoted := True\<rparr>) else p))"

definition kv_endquote :: "kv_parser \<Rightarrow> kv_parser res" where
  "kv_endquote p =
     rbind (kv_char p) (\<lambda>c.
     rbind (if kv_quoted p \<and> c = CHR 0x22 \<or> \<not> kv_quoted p \<and> c \<noteq> CHR 0x22 then kv_next p
            else ret (kv_goto Fail p)) (\<lambda>p.
     ret (if kv_quoted p then kv_inc p else p)))"

text \<open>\<open>strmove\<close>: a copy towards the front, with the NUL, \<open>dest\<close> in front of \<open>src\<close>.\<close>

function strmove :: "string \<Rightarrow> nat \<Rightarrow> nat \<Rightarrow> string res" where
  "strmove s dest src =
     (if src < length s then
        if s ! src \<noteq> NUL
        then (if dest < length s then strmove (s[dest := s ! src]) (Suc dest) (Suc src)
              else throw UndefinedBehaviour)
        else put_char s dest NUL
      else throw UndefinedBehaviour)"
  by pat_completeness auto
termination
  by (relation "measure (\<lambda>(s, dest, src). length s - src)") auto

declare strmove.simps [simp del]

definition storeAndAdvanceValuePtrs :: "kv_parser \<Rightarrow> kv_parser" where
  "storeAndAdvanceValuePtrs p =
     (let p = (if kv_beginvalue p = None then p\<lparr>kv_beginvalue := Some (kv_cur p)\<rparr> else p);
          p = kv_inc p
      in p\<lparr>kv_endvalue := Some (kv_cur p)\<rparr>)"

definition kv_value :: "kv_parser \<Rightarrow> kv_parser res" where
  "kv_value p =
     rbind (kv_char p) (\<lambda>c.
       if \<not> kv_quoted p then
         rbind (ctype isgraph c) (\<lambda>graph.
           if graph then ret (storeAndAdvanceValuePtrs p) else kv_next p)
       else if c = CHR 0x22 then
         (if kv_cur p = 0 then throw UndefinedBehaviour
          else rbind (char_at (kv_line p) (kv_cur p - 1)) (\<lambda>b.
            if b = CHR 0x5C
            then rbind (strmove (kv_line p) (kv_cur p - 1) (kv_cur p)) (\<lambda>l. ret (p\<lparr>kv_line := l\<rparr>))
            else kv_next p))
       else
         rbind (ctype isgraph c) (\<lambda>graph.
         rbind (if graph then ret True else ctype isblank c) (\<lambda>printable.
           if printable then ret (storeAndAdvanceValuePtrs p) else kv_next p)))"

definition kv_finish :: "kv_parser \<Rightarrow> kv_parser res" where
  "kv_finish p =
     rbind (kv_char p) (\<lambda>c. ret (kv_goto (if c = NUL \<or> c = CHR ''#'' then Success else Fail) p))"

text \<open>\<open>(this->*state_)()\<close>; the pointer is null before \<open>parse\<close> sets it.\<close>

definition kv_call :: "kv_parser \<Rightarrow> kv_parser res" where
  "kv_call p = (case kv_at p of
       None \<Rightarrow> throw UndefinedBehaviour
     | Some KeyPart \<Rightarrow> kv_key p
     | Some Ws \<Rightarrow> kv_ws p
     | Some Equal \<Rightarrow> kv_equal p
     | Some BeginQuote \<Rightarrow> kv_beginquote p
     | Some EndQuote \<Rightarrow> kv_endquote p
     | Some ValuePart \<Rightarrow> kv_value p
     | Some Finish \<Rightarrow> kv_finish p
     | Some _ \<Rightarrow> ret p)"

definition kv_final :: "kv_parser \<Rightarrow> bool" where
  "kv_final p \<longleftrightarrow> kv_at p = Some Fail \<or> kv_at p = Some Success"

definition kv_parse :: "kv_parser \<Rightarrow> kv_parser res" where
  "kv_parse p = rbind (kv_next p) (run_states kv_final kv_call)"

definition kv_good :: "kv_parser \<Rightarrow> bool" where
  "kv_good p \<longleftrightarrow> kv_at p = Some Success"

text \<open>\<open>key()\<close> and \<open>value()\<close> terminate the token in the line and return a pointer to it.\<close>

definition terminate_token :: "nat option \<Rightarrow> string \<Rightarrow> string res" where
  "terminate_token e s = (case e of None \<Rightarrow> throw UndefinedBehaviour | Some i \<Rightarrow> put_char s i NUL)"

definition key_of :: "kv_parser \<Rightarrow> (nat option \<times> kv_parser) res" where
  "key_of p = rbind (terminate_token (kv_endkey p) (kv_line p)) (\<lambda>l. ret (kv_beginkey p, p\<lparr>kv_line := l\<rparr>))"

definition value_of :: "kv_parser \<Rightarrow> (nat option \<times> kv_parser) res" where
  "value_of p = rbind (terminate_token (kv_endvalue p) (kv_line p)) (\<lambda>l. ret (kv_beginvalue p, p\<lparr>kv_line := l\<rparr>))"

text \<open>What a \<open>const char*\<close> into the line is read as.\<close>

definition read_at :: "string \<Rightarrow> nat option \<Rightarrow> string res" where
  "read_at s b = (case b of None \<Rightarrow> throw UndefinedBehaviour | Some i \<Rightarrow> ret (c_str (drop i s)))"

text \<open>
  \<open>ParserChainSectionBase::eval\<close> up to the call of the handlers: \<open>None\<close> when the line is
  refused, else the key and the value the handlers read. Both tokens are terminated before the
  handlers are called.
\<close>

definition tokens_read :: "kv_parser \<Rightarrow> (string \<times> string) option res" where
  "tokens_read p =
     rbind (key_of p) (\<lambda>(k, p).
     rbind (value_of p) (\<lambda>(v, p).
     rbind (read_at (kv_line p) k) (\<lambda>key.
     rbind (read_at (kv_line p) v) (\<lambda>val. ret (Some (key, val))))))"

definition section_eval :: "string \<Rightarrow> (string \<times> string) option res" where
  "section_eval line =
     rbind (kv_parse (KeyValueParser line)) (\<lambda>p. if kv_good p then tokens_read p else ret None)"

section \<open>Comments\<close>

text \<open>
  \<open>skipComments\<close>: the first loop finds the NUL or the \<open>#\<close>, the second walks back over blanks;
  \<open>--ptr\<close> at the start of the line leaves the array.
\<close>

function find_comment :: "string \<Rightarrow> nat \<Rightarrow> nat res" where
  "find_comment s i =
     (if i < length s
      then if s ! i \<noteq> NUL \<and> s ! i \<noteq> CHR ''#'' then find_comment s (Suc i) else ret i
      else throw UndefinedBehaviour)"
  by pat_completeness auto
termination
  by (relation "measure (\<lambda>(s, i). length s - i)") auto

declare find_comment.simps [simp del]

fun strip_blanks :: "string \<Rightarrow> nat \<Rightarrow> string res" where
  "strip_blanks s 0 = throw UndefinedBehaviour"
| "strip_blanks s (Suc i) =
     rbind (char_at s i) (\<lambda>c. rbind (ctype isblank c) (\<lambda>blank.
       if blank then strip_blanks (s[i := NUL]) i else ret s))"

definition skipComments :: "string \<Rightarrow> string res" where
  "skipComments s =
     rbind (find_comment s 0) (\<lambda>i. rbind (put_char s i NUL) (\<lambda>s. strip_blanks s i))"

section \<open>Section headers\<close>

datatype sn_state = SnStart | SnWs | SnName | SnEnd | SnSuccess | SnFail | SnFinish

record sn_parser =
  sn_at :: "sn_state option"
  sn_line :: string
  sn_cur :: nat
  sn_idx :: int
  sn_start :: "nat option"
  sn_end :: "nat option"

definition SectionNameParser :: "string \<Rightarrow> sn_parser" where
  "SectionNameParser line = \<lparr>sn_at = None, sn_line = line, sn_cur = 0, sn_idx = - 1, sn_start = None, sn_end = None\<rparr>"

definition sn_states :: "sn_state list" where
  "sn_states = [SnStart, SnWs, SnName, SnWs, SnEnd, SnWs, SnFinish]"

definition sn_next :: "sn_parser \<Rightarrow> sn_parser res" where
  "sn_next p =
     (let i = sn_idx p + 1 in
      if 0 \<le> i \<and> nat i < length sn_states
      then ret (p\<lparr>sn_at := Some (sn_states ! nat i), sn_idx := i\<rparr>)
      else throw UndefinedBehaviour)"

definition sn_goto :: "sn_state \<Rightarrow> sn_parser \<Rightarrow> sn_parser" where
  "sn_goto s p = p\<lparr>sn_at := Some s\<rparr>"

definition sn_inc :: "sn_parser \<Rightarrow> sn_parser" where
  "sn_inc p = p\<lparr>sn_cur := Suc (sn_cur p)\<rparr>"

definition sn_char :: "sn_parser \<Rightarrow> char res" where
  "sn_char p = char_at (sn_line p) (sn_cur p)"

text \<open>\<open>start\<close> and \<open>end\<close>: the brackets.\<close>

definition sn_bracket :: "char \<Rightarrow> sn_parser \<Rightarrow> sn_parser res" where
  "sn_bracket b p =
     rbind (sn_char p) (\<lambda>c.
     rbind (if c = b then sn_next p else ret (sn_goto SnFail p)) (\<lambda>p. ret (sn_inc p)))"

definition sn_ws :: "sn_parser \<Rightarrow> sn_parser res" where
  "sn_ws p =
     rbind (sn_char p) (\<lambda>c.
     rbind (ctype isblank c) (\<lambda>blank.
       if blank then ret (sn_inc p) else sn_next p))"

definition sn_name :: "sn_parser \<Rightarrow> sn_parser res" where
  "sn_name p =
     rbind (sn_char p) (\<lambda>c.
     rbind (ctype isalnum c) (\<lambda>alnum.
       if alnum \<or> c = CHR ''_'' \<or> c = CHR ''-'' \<or> c = CHR ''.''
       then let p = (if sn_start p = None then p\<lparr>sn_start := Some (sn_cur p)\<rparr> else p);
                p = sn_inc p
            in ret (p\<lparr>sn_end := Some (sn_cur p)\<rparr>)
       else sn_next p))"

definition sn_finish :: "sn_parser \<Rightarrow> sn_parser res" where
  "sn_finish p =
     rbind (sn_char p) (\<lambda>c. ret (sn_goto (if c = NUL \<or> c = CHR ''#'' then SnSuccess else SnFail) p))"

definition sn_call :: "sn_parser \<Rightarrow> sn_parser res" where
  "sn_call p = (case sn_at p of
       None \<Rightarrow> throw UndefinedBehaviour
     | Some SnStart \<Rightarrow> sn_bracket (CHR ''['') p
     | Some SnWs \<Rightarrow> sn_ws p
     | Some SnName \<Rightarrow> sn_name p
     | Some SnEnd \<Rightarrow> sn_bracket (CHR '']'') p
     | Some SnFinish \<Rightarrow> sn_finish p
     | Some _ \<Rightarrow> ret p)"

definition sn_final :: "sn_parser \<Rightarrow> bool" where
  "sn_final p \<longleftrightarrow> sn_at p = Some SnFail \<or> sn_at p = Some SnSuccess"

definition sn_parse :: "sn_parser \<Rightarrow> sn_parser res" where
  "sn_parse p = rbind (sn_next p) (run_states sn_final sn_call)"

definition sn_good :: "sn_parser \<Rightarrow> bool" where
  "sn_good p \<longleftrightarrow> sn_at p = Some SnSuccess"

text \<open>\<open>name()\<close>: the characters at the pointer it returns, \<open>None\<close> when \<open>good()\<close> says no.\<close>

definition section_name :: "string \<Rightarrow> string option res" where
  "section_name line =
     rbind (sn_parse (SectionNameParser line)) (\<lambda>p.
       if sn_good p
       then rbind (terminate_token (sn_end p) (sn_line p)) (\<lambda>l.
            rbind (read_at l (sn_start p)) (\<lambda>s. ret (Some s)))
       else ret None)"

end
