(* ===== verification/IniFileCorrect.thy ===== *)
theory IniFileCorrect
  imports IniFile
begin

text \<open>
  The state machines of \<^verbatim>\<open>detail/inifile.h\<close> against reference parsers on strings.
\<close>

section \<open>Text in an array\<close>

definition plain :: "string \<Rightarrow> bool" where
  "plain s \<longleftrightarrow> (\<forall>c\<in>set s. ascii c \<and> c \<noteq> NUL)"

text \<open>At index \<open>i\<close> of the array the C string \<open>s\<close> starts.\<close>

definition text_at :: "string \<Rightarrow> nat \<Rightarrow> string \<Rightarrow> bool" where
  "text_at l i s \<longleftrightarrow> (\<exists>t. drop i l = s @ NUL # t)"

text \<open>At index \<open>i\<close> of the array there are the characters \<open>s\<close>, and one more character follows.\<close>

definition token :: "string \<Rightarrow> nat \<Rightarrow> string \<Rightarrow> bool" where
  "token l i s \<longleftrightarrow> take (length s) (drop i l) = s \<and> i + length s < length l"

lemma plain_simps [simp]:
  "plain []" "plain (c # s) \<longleftrightarrow> ascii c \<and> c \<noteq> NUL \<and> plain s" "plain (s @ u) \<longleftrightarrow> plain s \<and> plain u"
  by (auto simp: plain_def)

lemma plain_sub [intro]:
  "plain s \<Longrightarrow> plain (takeWhile P s)" "plain s \<Longrightarrow> plain (dropWhile P s)"
  by (auto simp: plain_def dest: set_takeWhileD set_dropWhileD)

lemma plain_nul_free: "plain s \<Longrightarrow> nul_free s"
  by (auto simp: plain_def nul_free_def)

lemma char_code_simps [simp]:
  "char_code (CHR 0x00) = 0" "char_code (CHR 0x22) = 34" "char_code (CHR 0x5C) = 92"
  "char_code (CHR ''='') = 61" "char_code (CHR ''#'') = 35" "char_code (CHR '' '') = 32"
  "char_code (CHR ''['') = 91" "char_code (CHR '']'') = 93" "char_code (CHR ''-'') = 45"
  "char_code (CHR ''_'') = 95" "char_code (CHR ''.'') = 46"
  by (simp_all add: char_code_def)

lemma NUL_code [simp]: "char_code NUL = 0"
  by (simp add: NUL_def)

lemma ctype_ascii [simp]: "ascii c \<Longrightarrow> ctype P c = ret (P c)"
  by (simp add: ctype_def)

lemma NUL_class [simp]: "ascii NUL" "\<not> isblank NUL" "\<not> isgraph NUL" "\<not> isalnum NUL" "\<not> name_char NUL"
  by (simp_all add: ascii_def isblank_def isgraph_def isalnum_def isdigit_def name_char_def NUL_def)

lemma isgraph_quote: "isgraph (CHR 0x22)"
  by (simp add: isgraph_def)

lemma NUL_other [simp]:
  "NUL \<noteq> CHR ''_''" "NUL \<noteq> CHR ''-''" "NUL \<noteq> CHR ''.''" "NUL \<noteq> CHR ''=''" "NUL \<noteq> CHR ''#''"
  "NUL \<noteq> CHR 0x22" "NUL \<noteq> CHR ''[''" "NUL \<noteq> CHR '']''"
  by (simp_all add: NUL_def)

lemma text_at_length: "text_at l i s \<Longrightarrow> i + length s < length l"
  unfolding text_at_def
proof (elim exE)
  fix t
  assume "drop i l = s @ NUL # t"
  from arg_cong [OF this, of length] show ?thesis by simp
qed

lemma text_at_Nil: "text_at l i [] \<Longrightarrow> char_at l i = ret NUL"
  using text_at_length [of l i "[]"]
  by (auto simp: text_at_def char_at_def nth_via_drop)

lemma text_at_Cons: "text_at l i (c # s) \<Longrightarrow> char_at l i = ret c \<and> l ! i = c \<and> text_at l (Suc i) s"
  using text_at_length [of l i "c # s"]
  by (auto simp: text_at_def char_at_def nth_via_drop dest: nth_via_drop) (metis drop_Suc list.sel(3) tl_drop)

lemma text_at_ConsI: "l ! i = c \<Longrightarrow> text_at l (Suc i) s \<Longrightarrow> text_at l i (c # s)"
  using text_at_length [of l "Suc i" s] by (auto simp: text_at_def Cons_nth_drop_Suc [symmetric])

lemma text_at_append: "text_at l i (a @ s) \<Longrightarrow> text_at l (i + length a) s"
proof (induction a arbitrary: i)
  case (Cons c a)
  from text_at_Cons [of l i c "a @ s"] Cons.prems Cons.IH [of "Suc i"] show ?case by simp
qed simp

lemma text_at_dropWhile: "text_at l i s \<Longrightarrow> text_at l (i + length (takeWhile P s)) (dropWhile P s)"
  using text_at_append [of l i "takeWhile P s" "dropWhile P s"] by simp

lemma text_at_token: "text_at l i (a @ s) \<Longrightarrow> token l i a"
  using text_at_length [of l i "a @ s"] by (auto simp: text_at_def token_def)

lemma text_at_upd: "text_at l i s \<Longrightarrow> j < i \<Longrightarrow> text_at (l[j := c]) i s"
  by (simp add: text_at_def)

lemma token_takeWhile: "text_at l i s \<Longrightarrow> token l i (takeWhile P s)"
  using text_at_token [of l i "takeWhile P s" "dropWhile P s"] by simp

lemma token_before: "token l i s \<Longrightarrow> j < i \<Longrightarrow> token (l[j := c]) i s"
  by (simp add: token_def)

lemma token_behind: "token l i s \<Longrightarrow> i + length s \<le> j \<Longrightarrow> token (l[j := c]) i s"
  by (simp add: token_def drop_update_swap take_update_cancel)

lemma token_same: "token l i s \<Longrightarrow> take k l' = take k l \<Longrightarrow> length l' = length l \<Longrightarrow> i + length s \<le> k \<Longrightarrow> token l' i s"
proof -
  assume t: "token l i s" and l: "take k l' = take k l" "length l' = length l" and k: "i + length s \<le> k"
  from k l(1) have "take (length s + i) l' = take (length s + i) l"
    by (metis add.commute min.absorb1 take_take)
  with t l(2) show ?thesis by (simp add: token_def take_drop)
qed

lemma token_terminated:
  assumes "token l i s" "nul_free s"
  shows "c_str (drop i (l[i + length s := NUL])) = s"
proof -
  have "drop i (l[i + length s := NUL]) = (drop i l)[length s := NUL]"
    by (simp add: drop_update_swap)
  also have "\<dots> = s @ NUL # drop (Suc (length s)) (drop i l)"
    using assms(1) by (auto simp: token_def upd_conv_take_nth_drop)
  finally show ?thesis
    using c_str_append_NUL [OF assms(2)] by simp
qed

lemma terminate_token_Some: "token l i s \<Longrightarrow> terminate_token (Some (i + length s)) l = ret (l[i + length s := NUL])"
  by (simp add: terminate_token_def put_char_def token_def)

lemma run_states_final [simp]: "final p \<Longrightarrow> run_states final step p = ret p"
  by (simp add: run_states.simps)

lemma run_states_step: "\<not> final p \<Longrightarrow> step p = ret p' \<Longrightarrow> run_states final step p = run_states final step p'"
  by (subst run_states.simps) simp

text \<open>
  A state that stays while the character under the cursor is in \<open>P\<close> and goes to the next
  state otherwise: \<open>g j\<close> is the parser after \<open>j\<close> characters, \<open>h j\<close> the one that has left the
  state after them.
\<close>

lemma run_span:
  assumes "text_at l i s" "plain s" "\<not> P NUL"
    and "\<And>j c. char_at l (i + j) = ret c \<Longrightarrow> ascii c \<Longrightarrow> P c \<Longrightarrow> \<not> final (g j) \<and> step (g j) = ret (g (Suc j))"
    and "\<And>j c. char_at l (i + j) = ret c \<Longrightarrow> ascii c \<Longrightarrow> \<not> P c \<Longrightarrow> \<not> final (g j) \<and> step (g j) = ret (h j)"
  shows "run_states final step (g 0) = run_states final step (h (length (takeWhile P s)))"
proof -
  have "text_at l (i + j) u \<Longrightarrow> plain u \<Longrightarrow>
      run_states final step (g j) = run_states final step (h (j + length (takeWhile P u)))" for j u
  proof (induction u arbitrary: j)
    case Nil
    with assms(3) assms(5) [of j NUL] show ?case by (simp add: text_at_Nil run_states_step)
  next
    case (Cons c u)
    from text_at_Cons [OF Cons.prems(1)] Cons.prems(2) Cons.IH [of "Suc j"] assms(4) [of j c] assms(5) [of j c]
    show ?case by (cases "P c") (simp_all add: run_states_step)
  qed
  from this [of 0 s] assms(1,2) show ?thesis by simp
qed

text \<open>The pointers to the first character of a token and behind its last one.\<close>

definition first_ptr :: "nat \<Rightarrow> nat \<Rightarrow> nat option \<Rightarrow> nat option" where
  "first_ptr i n b = (if n = 0 \<or> b \<noteq> None then b else Some i)"

definition end_ptr :: "nat \<Rightarrow> nat \<Rightarrow> nat option \<Rightarrow> nat option" where
  "end_ptr i n e = (if n = 0 then e else Some (i + n))"

lemma ptr_simps [simp]:
  "first_ptr i 0 b = b" "end_ptr i 0 e = e" "first_ptr i n (Some j) = Some j"
  "first_ptr i (Suc n) None = Some i" "end_ptr i (Suc n) e = Some (Suc (i + n))"
  by (auto simp: first_ptr_def end_ptr_def)

section \<open>Key-value lines\<close>

abbreviation kv_run :: "kv_parser \<Rightarrow> kv_parser res" where
  "kv_run \<equiv> run_states kv_final kv_call"

abbreviation kv_enter :: "nat \<Rightarrow> kv_parser \<Rightarrow> kv_parser" where
  "kv_enter i p \<equiv> p\<lparr>kv_at := Some (kv_states ! i), kv_idx := int i\<rparr>"

lemma kv_next_enter: "kv_idx p = int i - 1 \<Longrightarrow> i < 10 \<Longrightarrow> kv_next p = ret (kv_enter i p)"
  by (simp add: kv_next_def kv_states_def)

text \<open>\<open>ws\<close> skips the blanks, \<open>key__\<close> takes the key, \<open>value__\<close> a value without quotes.\<close>

lemma kv_run_ws:
  assumes "kv_at p = Some Ws" "kv_idx p = int i - 1" "i < 10" "text_at (kv_line p) (kv_cur p) s" "plain s"
  shows "kv_run p = kv_run (kv_enter i (p\<lparr>kv_cur := kv_cur p + length (takeWhile isblank s)\<rparr>))"
  using run_span [where P = isblank and g = "\<lambda>j. p\<lparr>kv_cur := kv_cur p + j\<rparr>" and final = kv_final
      and h = "\<lambda>j. kv_enter i (p\<lparr>kv_cur := kv_cur p + j\<rparr>)" and step = kv_call, OF assms(4,5)] assms(1-3)
  by (simp add: kv_call_def kv_ws_def kv_char_def kv_final_def kv_inc_def kv_next_enter)

lemma kv_run_key:
  assumes "kv_at p = Some KeyPart" "kv_idx p = int i - 1" "i < 10" "text_at (kv_line p) (kv_cur p) s" "plain s"
  shows "kv_run p = kv_run (kv_enter i (p\<lparr>kv_cur := kv_cur p + length (takeWhile name_char s),
      kv_beginkey := first_ptr (kv_cur p) (length (takeWhile name_char s)) (kv_beginkey p),
      kv_endkey := end_ptr (kv_cur p) (length (takeWhile name_char s)) (kv_endkey p)\<rparr>))"
proof -
  let ?g = "\<lambda>j. p\<lparr>kv_cur := kv_cur p + j, kv_beginkey := first_ptr (kv_cur p) j (kv_beginkey p),
      kv_endkey := end_ptr (kv_cur p) j (kv_endkey p)\<rparr>"
  have "kv_run (?g 0) = kv_run (kv_enter i (?g (length (takeWhile name_char s))))"
    by (rule run_span [where h = "\<lambda>j. kv_enter i (?g j)", OF assms(4,5)])
      (use assms(1-3) in \<open>auto simp: kv_call_def kv_key_def kv_char_def kv_final_def kv_inc_def name_char_def
        kv_next_enter first_ptr_def end_ptr_def\<close>)
  then show ?thesis by simp
qed

lemma kv_run_value:
  assumes "kv_at p = Some ValuePart" "kv_idx p = int i - 1" "i < 10" "text_at (kv_line p) (kv_cur p) s" "plain s"
    and "\<not> kv_quoted p"
  shows "kv_run p = kv_run (kv_enter i (p\<lparr>kv_cur := kv_cur p + length (takeWhile isgraph s),
      kv_beginvalue := first_ptr (kv_cur p) (length (takeWhile isgraph s)) (kv_beginvalue p),
      kv_endvalue := end_ptr (kv_cur p) (length (takeWhile isgraph s)) (kv_endvalue p)\<rparr>))"
proof -
  let ?g = "\<lambda>j. p\<lparr>kv_cur := kv_cur p + j, kv_beginvalue := first_ptr (kv_cur p) j (kv_beginvalue p),
      kv_endvalue := end_ptr (kv_cur p) j (kv_endvalue p)\<rparr>"
  have "kv_run (?g 0) = kv_run (kv_enter i (?g (length (takeWhile isgraph s))))"
    by (rule run_span [where h = "\<lambda>j. kv_enter i (?g j)", OF assms(4,5)])
      (use assms(1-3,6) in \<open>auto simp: kv_call_def kv_value_def kv_char_def kv_final_def kv_inc_def
        storeAndAdvanceValuePtrs_def kv_next_enter first_ptr_def end_ptr_def\<close>)
  then show ?thesis by simp
qed

text \<open>The value in quotes: a backslash and a quote are read as a quote.\<close>

fun unquote :: "string \<Rightarrow> string \<times> string" where
  "unquote [] = ([], [])"
| "unquote (c # s) =
     (if c = CHR 0x22 \<or> \<not> (isgraph c \<or> isblank c) then ([], c # s)
      else if c = CHR 0x5C \<and> s \<noteq> [] \<and> hd s = CHR 0x22
      then apfst ((#) (CHR 0x22)) (unquote (tl s))
      else apfst ((#) c) (unquote s))"

lemma plain_unquote: "plain s \<Longrightarrow> plain (snd (unquote s))"
  by (induction s rule: unquote.induct) (auto simp: neq_Nil_conv)

lemma strmove_shift:
  "text_at l (Suc i) s \<Longrightarrow> nul_free s \<Longrightarrow>
   \<exists>l'. strmove l i (Suc i) = ret l' \<and> text_at l' i s \<and> take i l' = take i l \<and> length l' = length l"
proof (induction s arbitrary: l i)
  case Nil
  then have n: "Suc i < length l" "l ! Suc i = NUL"
    using text_at_length [of l "Suc i" "[]"] text_at_Nil [of l "Suc i"] by (auto simp: char_at_def)
  then have "strmove l i (Suc i) = ret (l[i := NUL])"
    by (subst strmove.simps) (simp add: put_char_def)
  moreover have "text_at (l[i := NUL]) i []"
    using n(1) Cons_nth_drop_Suc [of i "l[i := NUL]", symmetric] by (simp add: text_at_def)
  ultimately show ?case by simp
next
  case (Cons c s)
  from text_at_Cons [OF Cons.prems(1)] have c: "l ! Suc i = c" and s: "text_at l (Suc (Suc i)) s"
    by simp_all
  have len: "Suc i < length l" using text_at_length [OF Cons.prems(1)] by simp
  from s have "text_at (l[i := c]) (Suc (Suc i)) s" by (simp add: text_at_upd)
  from Cons.IH [OF this] Cons.prems(2) obtain l' where
    l': "strmove (l[i := c]) (Suc i) (Suc (Suc i)) = ret l'" "text_at l' (Suc i) s"
      "take (Suc i) l' = take (Suc i) (l[i := c])" "length l' = length l" by auto
  have "strmove l i (Suc i) = ret l'"
    using len c Cons.prems(2) l'(1) by (subst strmove.simps) simp
  moreover have "l' ! i = c"
    using len l'(3,4) by (metis Suc_lessD lessI nth_list_update_eq nth_take)
  moreover have "take i l' = take i l"
    using l'(3) by (metis le_add2 min.absorb1 plus_1_eq_Suc take_take take_update_cancel order_refl)
  ultimately show ?case using l'(2,4) by (auto intro: text_at_ConsI)
qed

text \<open>One character of the value is taken.\<close>

definition kv_take :: "kv_parser \<Rightarrow> kv_parser" where
  "kv_take p = p\<lparr>kv_cur := Suc (kv_cur p), kv_beginvalue := first_ptr (kv_cur p) 1 (kv_beginvalue p),
     kv_endvalue := Some (Suc (kv_cur p))\<rparr>"

lemma kv_run_take:
  assumes "kv_at p = Some ValuePart" "kv_quoted p" "text_at (kv_line p) (kv_cur p) (c # s)" "ascii c"
    and "c \<noteq> CHR 0x22" "isgraph c \<or> isblank c"
  shows "kv_run p = kv_run (kv_take p)"
proof -
  from assms have "kv_call p = ret (kv_take p)"
    by (auto simp: kv_call_def kv_value_def kv_char_def text_at_Cons storeAndAdvanceValuePtrs_def
        kv_take_def kv_inc_def first_ptr_def)
  with assms(1) show ?thesis by (simp add: run_states_step kv_final_def)
qed

text \<open>The parser after the value \<open>v\<close>, with the array as \<open>l\<close>.\<close>

definition kv_took :: "string \<Rightarrow> string \<Rightarrow> kv_parser \<Rightarrow> kv_parser" where
  "kv_took v l p = p\<lparr>kv_line := l, kv_cur := kv_cur p + length v,
     kv_beginvalue := first_ptr (kv_cur p) (length v) (kv_beginvalue p),
     kv_endvalue := end_ptr (kv_cur p) (length v) (kv_endvalue p)\<rparr>"

lemma kv_took_Cons: "kv_took v l (kv_take p) = kv_took (c # v) l p"
  by (cases "kv_beginvalue p"; cases v) (simp_all add: kv_took_def kv_take_def first_ptr_def end_ptr_def)

lemma kv_took_Nil: "kv_took [] (kv_line p) p = p"
  by (simp add: kv_took_def)

definition quoted_result :: "kv_parser \<Rightarrow> string \<Rightarrow> string \<Rightarrow> string \<Rightarrow> bool" where
  "quoted_result p v r l \<longleftrightarrow> text_at l (kv_cur p + length v) r \<and> take (kv_cur p) l = take (kv_cur p) (kv_line p)
     \<and> length l = length (kv_line p) \<and> token l (kv_cur p) v"

lemma quoted_result_Cons:
  assumes "quoted_result q v r l" "kv_cur q = Suc (kv_cur p)" "length (kv_line q) = length (kv_line p)"
    and "take (kv_cur p) (kv_line q) = take (kv_cur p) (kv_line p)" "kv_line q ! kv_cur p = c"
  shows "quoted_result p (c # v) r l"
proof -
  let ?i = "kv_cur p"
  from assms have same: "take (Suc ?i) l = take (Suc ?i) (kv_line q)" by (simp add: quoted_result_def)
  from assms(1,2) have tok: "token l (Suc ?i) v" by (simp add: quoted_result_def)
  then have len: "?i < length l" by (simp add: token_def)
  with same assms(5) have c: "l ! ?i = c" by (metis lessI nth_take)
  from same have "take ?i l = take ?i (kv_line q)"
    by (metis le_add2 min.absorb1 plus_1_eq_Suc take_take)
  moreover have "token l ?i (c # v)"
    using tok c len by (simp add: token_def Cons_nth_drop_Suc [of ?i l, symmetric])
  ultimately show ?thesis using assms by (simp add: quoted_result_def)
qed

lemma kv_run_quoted:
  assumes "kv_at p = Some ValuePart" "kv_idx p = int i - 1" "i < 10" "kv_quoted p" "0 < kv_cur p"
    and "text_at (kv_line p) (kv_cur p) s" "plain s"
    and "kv_line p ! (kv_cur p - 1) \<noteq> CHR 0x5C \<or> s = [] \<or> hd s \<noteq> CHR 0x22"
  shows "\<exists>l. kv_run p = kv_run (kv_enter i (kv_took (fst (unquote s)) l p))
             \<and> quoted_result p (fst (unquote s)) (snd (unquote s)) l"
  using assms
proof (induction s arbitrary: p rule: unquote.induct)
  case (1 p)
  then have "kv_call p = ret (kv_enter i p)"
    by (simp add: kv_call_def kv_value_def kv_char_def text_at_Nil kv_next_enter)
  with 1 show ?case
    using text_at_token [of "kv_line p" "kv_cur p" "[]" "[]"]
    by (intro exI [of _ "kv_line p"])
      (simp add: run_states_step kv_final_def kv_took_Nil quoted_result_def)
next
  case (2 c s p)
  from text_at_Cons [OF "2.prems"(6)] have c: "char_at (kv_line p) (kv_cur p) = ret c"
    and pc: "kv_line p ! kv_cur p = c" and s: "text_at (kv_line p) (Suc (kv_cur p)) s" by simp_all
  have len: "kv_cur p < length (kv_line p)" using text_at_length [OF "2.prems"(6)] by simp
  consider (stop) "c = CHR 0x22 \<or> \<not> (isgraph c \<or> isblank c)"
    | (escaped) u where "c = CHR 0x5C" "s = CHR 0x22 # u"
    | (plain) "\<not> (c = CHR 0x22 \<or> \<not> (isgraph c \<or> isblank c))" "\<not> (c = CHR 0x5C \<and> s \<noteq> [] \<and> hd s = CHR 0x22)"
    by (cases s) auto
  then show ?case
  proof cases
    case stop
    have "kv_call p = ret (kv_enter i p)"
      using stop "2.prems" c len by (auto simp: kv_call_def kv_value_def kv_char_def kv_next_enter char_at_def)
    with "2.prems" stop show ?thesis
      using text_at_token [of "kv_line p" "kv_cur p" "[]" "c # s"]
      by (intro exI [of _ "kv_line p"])
        (simp add: run_states_step kv_final_def kv_took_Nil quoted_result_def)
  next
    case plain
    have "kv_run p = kv_run (kv_take p)"
      using "2.prems" plain by (intro kv_run_take [of p c s]) auto
    moreover have "\<exists>l. kv_run (kv_take p) = kv_run (kv_enter i (kv_took (fst (unquote s)) l (kv_take p)))
             \<and> quoted_result (kv_take p) (fst (unquote s)) (snd (unquote s)) l"
      using "2.prems" plain s pc by (intro "2.IH"(2)) (auto simp: kv_take_def)
    then obtain l where l: "kv_run (kv_take p) = kv_run (kv_enter i (kv_took (fst (unquote s)) l (kv_take p)))"
        "quoted_result (kv_take p) (fst (unquote s)) (snd (unquote s)) l" by blast
    moreover have "quoted_result p (c # fst (unquote s)) (snd (unquote s)) l"
      using pc by (intro quoted_result_Cons [OF l(2)]) (simp_all add: kv_take_def)
    ultimately show ?thesis
      using plain by (intro exI [of _ l]) (auto simp: kv_took_Cons [of _ _ p c])
  next
    case escaped
    have "nul_free s" using "2.prems"(7) by (simp add: plain_nul_free)
    with strmove_shift [OF s] obtain l1 where l1: "strmove (kv_line p) (kv_cur p) (Suc (kv_cur p)) = ret l1"
      "text_at l1 (kv_cur p) s" "take (kv_cur p) l1 = take (kv_cur p) (kv_line p)"
      "length l1 = length (kv_line p)" by blast
    define q where "q = (kv_take p)\<lparr>kv_line := l1\<rparr>"
    from escaped text_at_Cons [of l1 "kv_cur p" "CHR 0x22" u] l1(2)
    have u: "l1 ! kv_cur p = CHR 0x22" "text_at l1 (Suc (kv_cur p)) u" by simp_all
    have "kv_run p = kv_run (kv_take p)"
      using "2.prems" escaped by (intro kv_run_take [of p c s]) (auto simp: isgraph_def)
    moreover have "kv_call (kv_take p) = ret q"
      using escaped "2.prems" c l1(1) text_at_Cons [OF s [unfolded escaped(2)]]
      by (simp add: kv_call_def kv_value_def kv_char_def kv_take_def q_def)
    then have "kv_run (kv_take p) = kv_run q"
      using "2.prems" by (simp add: run_states_step kv_final_def kv_take_def)
    moreover have "\<exists>l. kv_run q = kv_run (kv_enter i (kv_took (fst (unquote u)) l q))
             \<and> quoted_result q (fst (unquote u)) (snd (unquote u)) l"
      using "2.prems" escaped u by (intro "2.IH"(1) [simplified escaped list.sel]) (auto simp: kv_take_def q_def isgraph_def)
    then obtain l where l: "kv_run q = kv_run (kv_enter i (kv_took (fst (unquote u)) l q))"
        "quoted_result q (fst (unquote u)) (snd (unquote u)) l" by blast
    moreover have "quoted_result p (CHR 0x22 # fst (unquote u)) (snd (unquote u)) l"
      using u l1 by (intro quoted_result_Cons [OF l(2)]) (simp_all add: q_def kv_take_def)
    moreover have "kv_took v l q = kv_took (CHR 0x22 # v) l p" for v
      using kv_took_Cons [of v l p "CHR 0x22"] by (simp add: q_def kv_took_def kv_take_def)
    ultimately show ?thesis
      using escaped by (intro exI [of _ l]) (auto simp: isgraph_def)
  qed
qed

text \<open>The remaining states.\<close>

lemma kv_run_equal:
  assumes "kv_at p = Some Equal" "kv_idx p = int i - 1" "i < 10" "text_at (kv_line p) (kv_cur p) s"
  shows "kv_run p = (if s \<noteq> [] \<and> hd s = CHR ''='' then kv_run (kv_inc (kv_enter i p))
                     else ret (kv_inc (kv_goto Fail p)))"
proof -
  have "kv_call p = ret (if s \<noteq> [] \<and> hd s = CHR ''='' then kv_inc (kv_enter i p) else kv_inc (kv_goto Fail p))"
    using assms by (cases s) (auto simp: kv_call_def kv_equal_def kv_char_def text_at_Nil text_at_Cons kv_next_enter)
  then show ?thesis
    using assms(1) by (auto simp: run_states_step kv_final_def kv_inc_def kv_goto_def)
qed

lemma kv_run_beginquote:
  assumes "kv_at p = Some BeginQuote" "kv_idx p = int i - 1" "i < 10" "text_at (kv_line p) (kv_cur p) s"
  shows "kv_run p = kv_run (kv_enter i (if s \<noteq> [] \<and> hd s = CHR 0x22 then kv_inc (p\<lparr>kv_quoted := True\<rparr>) else p))"
proof -
  have "kv_call p = ret (kv_enter i (if s \<noteq> [] \<and> hd s = CHR 0x22 then kv_inc (p\<lparr>kv_quoted := True\<rparr>) else p))"
    using assms by (cases s) (auto simp: kv_call_def kv_beginquote_def kv_char_def text_at_Nil text_at_Cons
        kv_inc_def intro: kv_next_enter)
  then show ?thesis
    using assms(1) by (auto simp: run_states_step kv_final_def)
qed

lemma kv_run_endquote:
  assumes "kv_at p = Some EndQuote" "kv_idx p = int i - 1" "i < 10" "text_at (kv_line p) (kv_cur p) s"
  shows "kv_run p = (if kv_quoted p
      then (if s \<noteq> [] \<and> hd s = CHR 0x22 then kv_run (kv_inc (kv_enter i p)) else ret (kv_inc (kv_goto Fail p)))
      else (if s = [] \<or> hd s \<noteq> CHR 0x22 then kv_run (kv_enter i p) else ret (kv_goto Fail p)))"
proof -
  have "kv_call p = ret (if kv_quoted p
      then (if s \<noteq> [] \<and> hd s = CHR 0x22 then kv_inc (kv_enter i p) else kv_inc (kv_goto Fail p))
      else (if s = [] \<or> hd s \<noteq> CHR 0x22 then kv_enter i p else kv_goto Fail p))"
    using assms by (cases s) (auto simp: kv_call_def kv_endquote_def kv_char_def text_at_Nil text_at_Cons
        kv_next_enter kv_goto_def)
  then show ?thesis
    using assms(1) by (auto simp: run_states_step kv_final_def kv_inc_def kv_goto_def)
qed

lemma kv_run_finish:
  assumes "kv_at p = Some Finish" "text_at (kv_line p) (kv_cur p) s" "plain s"
  shows "kv_run p = ret (kv_goto (if s = [] \<or> hd s = CHR ''#'' then Success else Fail) p)"
proof -
  have "kv_call p = ret (kv_goto (if s = [] \<or> hd s = CHR ''#'' then Success else Fail) p)"
    using assms by (cases s) (auto simp: kv_call_def kv_finish_def kv_char_def text_at_Nil text_at_Cons)
  then show ?thesis
    using assms(1) by (simp add: run_states_step kv_final_def kv_goto_def)
qed

text \<open>
  The reference parser on the string alone: \<open>None\<close> when the line is refused, else the key and
  the value.
\<close>

definition line_end :: "string \<Rightarrow> bool" where
  "line_end s \<longleftrightarrow> (let s = dropWhile isblank s in s = [] \<or> hd s = CHR ''#'')"

definition value_spec :: "string \<Rightarrow> string option" where
  "value_spec s =
     (if s \<noteq> [] \<and> hd s = CHR 0x22 then
        (case unquote (tl s) of (v, r) \<Rightarrow>
          if r \<noteq> [] \<and> hd r = CHR 0x22 \<and> line_end (tl r) then Some v else None)
      else if line_end (dropWhile isgraph s) then Some (takeWhile isgraph s) else None)"

text \<open>A name with blanks around it, and what follows.\<close>

definition name_part :: "string \<Rightarrow> string" where
  "name_part s = takeWhile name_char (dropWhile isblank s)"

definition after_name :: "string \<Rightarrow> string" where
  "after_name s = dropWhile isblank (dropWhile name_char (dropWhile isblank s))"

definition key_value_spec :: "string \<Rightarrow> (string \<times> string) option" where
  "key_value_spec s =
     (let r = after_name s
      in if r \<noteq> [] \<and> hd r = CHR ''='' then map_option (Pair (name_part s)) (value_spec (dropWhile isblank (tl r)))
         else None)"

lemma kv_run_end:
  assumes "kv_at p = Some Ws" "kv_idx p = 8" "text_at (kv_line p) (kv_cur p) s" "plain s"
  shows "\<exists>q. kv_run p = ret q \<and> kv_at q = Some (if line_end s then Success else Fail)
    \<and> kv_line q = kv_line p \<and> kv_beginkey q = kv_beginkey p \<and> kv_endkey q = kv_endkey p
    \<and> kv_beginvalue q = kv_beginvalue p \<and> kv_endvalue q = kv_endvalue p"
proof -
  let ?p = "kv_enter 9 (p\<lparr>kv_cur := kv_cur p + length (takeWhile isblank s)\<rparr>)"
  have "kv_run p = kv_run ?p"
    using assms by (intro kv_run_ws) simp_all
  also have "\<dots> = ret (kv_goto (if dropWhile isblank s = [] \<or> hd (dropWhile isblank s) = CHR ''#'' then Success else Fail) ?p)"
    using assms(3,4) by (intro kv_run_finish) (auto simp: kv_states_def text_at_dropWhile)
  finally show ?thesis
    by (auto simp: kv_goto_def line_end_def Let_def)
qed

text \<open>From the value on: what the state machine has found when it stops.\<close>

definition value_found :: "kv_parser \<Rightarrow> kv_parser \<Rightarrow> string option \<Rightarrow> bool" where
  "value_found p q v \<longleftrightarrow>
     (case v of None \<Rightarrow> kv_at q = Some Fail
      | Some v \<Rightarrow> kv_at q = Some Success \<and> take (kv_cur p) (kv_line q) = take (kv_cur p) (kv_line p)
         \<and> length (kv_line q) = length (kv_line p) \<and> kv_beginkey q = kv_beginkey p \<and> kv_endkey q = kv_endkey p
         \<and> (if v = [] then kv_endvalue q = None
            else \<exists>b\<ge>kv_cur p. kv_beginvalue q = Some b \<and> kv_endvalue q = Some (b + length v) \<and> token (kv_line q) b v))"

lemma kv_run_from_value:
  assumes "kv_at p = Some BeginQuote" "kv_idx p = 5" "text_at (kv_line p) (kv_cur p) s" "plain s"
    and "\<not> kv_quoted p" "kv_beginvalue p = None" "kv_endvalue p = None"
  shows "\<exists>q. kv_run p = ret q \<and> value_found p q (value_spec s)"
proof (cases "s \<noteq> [] \<and> hd s = CHR 0x22")
  case False
  let ?n = "length (takeWhile isgraph s)"
  let ?v = "kv_enter 7 (p\<lparr>kv_idx := 6, kv_cur := kv_cur p + ?n,
      kv_beginvalue := first_ptr (kv_cur p) ?n None, kv_endvalue := end_ptr (kv_cur p) ?n None\<rparr>)"
  let ?r = "dropWhile isgraph s"
  have r: "text_at (kv_line p) (kv_cur p + ?n) ?r" "plain ?r"
    using assms(3,4) by (auto intro: text_at_dropWhile)
  have stop: "?r = [] \<or> hd ?r \<noteq> CHR 0x22"
    using hd_dropWhile [of isgraph s] isgraph_quote by metis
  have "kv_run p = kv_run (kv_enter 6 p)"
    using kv_run_beginquote [of p 6 s] assms False by auto
  also have "\<dots> = kv_run ?v"
    using assms kv_run_value [of "kv_enter 6 p" 7 s] by (simp add: kv_states_def)
  also have "\<dots> = kv_run (kv_enter 8 ?v)"
    using r(1) assms(5) stop kv_run_endquote [of ?v 8 ?r] by (simp add: kv_states_def del: dropWhile_eq_Nil_conv)
  finally have "kv_run p = kv_run (kv_enter 8 ?v)" .
  with kv_run_end [of "kv_enter 8 ?v" ?r] r show ?thesis
    using False token_takeWhile [OF assms(3), of isgraph] assms
    by (auto simp: value_found_def value_spec_def kv_states_def first_ptr_def end_ptr_def takeWhile_eq_Nil_iff)
next
  case True
  then obtain u where s: "s = CHR 0x22 # u" by (cases s) auto
  let ?p = "kv_enter 6 (kv_inc (p\<lparr>kv_quoted := True\<rparr>))"
  have u: "text_at (kv_line p) (Suc (kv_cur p)) u" "kv_line p ! kv_cur p = CHR 0x22"
    using text_at_Cons [OF assms(3) [unfolded s]] by simp_all
  have "kv_run p = kv_run ?p"
    using kv_run_beginquote [of p 6 s] assms True by auto
  moreover have "\<exists>l. kv_run ?p = kv_run (kv_enter 7 (kv_took (fst (unquote u)) l ?p))
             \<and> quoted_result ?p (fst (unquote u)) (snd (unquote u)) l"
    using u assms(4) s by (intro kv_run_quoted) (auto simp: kv_states_def kv_inc_def)
  then obtain l where l: "kv_run ?p = kv_run (kv_enter 7 (kv_took (fst (unquote u)) l ?p))"
    "quoted_result ?p (fst (unquote u)) (snd (unquote u)) l" by blast
  let ?v = "fst (unquote u)" and ?r = "snd (unquote u)"
  let ?t = "kv_enter 7 (kv_took ?v l ?p)"
  have r: "text_at l (Suc (kv_cur p) + length ?v) ?r" "plain ?r"
    using l(2) plain_unquote [of u] assms(4) s by (auto simp: quoted_result_def kv_inc_def)
  have t: "kv_line ?t = l" "kv_cur ?t = Suc (kv_cur p) + length ?v" "kv_quoted ?t"
    "kv_beginkey ?t = kv_beginkey p" "kv_endkey ?t = kv_endkey p"
    "kv_beginvalue ?t = first_ptr (Suc (kv_cur p)) (length ?v) None"
    "kv_endvalue ?t = end_ptr (Suc (kv_cur p)) (length ?v) None"
    using assms by (simp_all add: kv_took_def kv_inc_def)
  have same: "take (kv_cur p) l = take (kv_cur p) (kv_line p)" "length l = length (kv_line p)"
    "token l (Suc (kv_cur p)) ?v"
    using l(2) by (auto simp: quoted_result_def kv_inc_def) (metis le_add2 min.absorb1 plus_1_eq_Suc take_take)
  have e: "kv_run ?t = (if ?r \<noteq> [] \<and> hd ?r = CHR 0x22 then kv_run (kv_inc (kv_enter 8 ?t)) else ret (kv_inc (kv_goto Fail ?t)))"
    using kv_run_endquote [of ?t 8 ?r] t(1-3) r(1) by (simp add: kv_states_def)
  show ?thesis
  proof (cases "?r \<noteq> [] \<and> hd ?r = CHR 0x22")
    case False
    with \<open>kv_run p = kv_run ?p\<close> l(1) e True show ?thesis
      by (auto simp: value_found_def value_spec_def s kv_goto_def kv_inc_def split: prod.splits)
  next
    case quote: True
    then have "text_at l (Suc (Suc (kv_cur p) + length ?v)) (tl ?r)" "plain (tl ?r)"
      using r text_at_Cons [of l "Suc (kv_cur p) + length ?v" "hd ?r" "tl ?r"] by (cases ?r; simp)+
    then have "\<exists>q. kv_run (kv_inc (kv_enter 8 ?t)) = ret q \<and> kv_at q = Some (if line_end (tl ?r) then Success else Fail)
      \<and> kv_line q = l \<and> kv_beginkey q = kv_beginkey p \<and> kv_endkey q = kv_endkey p
      \<and> kv_beginvalue q = first_ptr (Suc (kv_cur p)) (length ?v) None
      \<and> kv_endvalue q = end_ptr (Suc (kv_cur p)) (length ?v) None"
      using kv_run_end [of "kv_inc (kv_enter 8 ?t)" "tl ?r"] t by (simp add: kv_inc_def kv_states_def)
    with \<open>kv_run p = kv_run ?p\<close> l(1) e quote True same show ?thesis
      by (auto simp: value_found_def value_spec_def s first_ptr_def end_ptr_def split: prod.splits)
  qed
qed

lemma token_end: "token l i s \<Longrightarrow> i + length s < length l"
  by (simp add: token_def)

lemma tokens_read_missing:
  assumes "kv_endkey p = None \<or> kv_endvalue p = None"
  shows "tokens_read p = throw UndefinedBehaviour"
proof -
  have "key_of p = throw UndefinedBehaviour \<or> (\<exists>k q. key_of p = ret (k, q) \<and> kv_endvalue q = kv_endvalue p)"
    by (auto simp: key_of_def terminate_token_def put_char_def split: option.splits)
  moreover have "kv_endkey p = None \<Longrightarrow> key_of p = throw UndefinedBehaviour"
    by (simp add: key_of_def terminate_token_def)
  moreover have "kv_endvalue q = None \<Longrightarrow> value_of q = throw UndefinedBehaviour" for q
    by (simp add: value_of_def terminate_token_def)
  ultimately show ?thesis using assms by (auto simp: tokens_read_def)
qed

lemma tokens_read_found:
  assumes "kv_beginkey p = Some i" "kv_endkey p = Some (i + length k)" "token (kv_line p) i k" "nul_free k"
    and "kv_beginvalue p = Some j" "kv_endvalue p = Some (j + length v)" "token (kv_line p) j v" "nul_free v"
    and "i + length k < j"
  shows "tokens_read p = ret (Some (k, v))"
proof -
  let ?l = "kv_line p" and ?k = "i + length k" and ?v = "j + length v"
  have tv: "token (?l[?k := NUL]) j v" and tk: "token (?l[?v := NUL]) i k"
    using assms(3,7,9) by (auto intro: token_before token_behind)
  have swap: "(?l[?k := NUL])[?v := NUL] = (?l[?v := NUL])[?k := NUL]"
    using assms(9) by (intro list_update_swap) simp
  show ?thesis
    using assms token_end [OF assms(3)] token_end [OF tv] token_terminated [OF tv assms(8)]
      token_terminated [OF tk assms(4)]
    by (simp add: tokens_read_def key_of_def value_of_def terminate_token_def put_char_def read_at_def swap)
qed

lemma value_found_read:
  assumes "value_found p q (Some v)" "nul_free v" "nul_free k" "token (kv_line p) i k" "i + length k < kv_cur p"
    and "kv_beginkey p = first_ptr i (length k) None" "kv_endkey p = end_ptr i (length k) None"
  shows "kv_good q \<and> tokens_read q = (if k = [] \<or> v = [] then throw UndefinedBehaviour else ret (Some (k, v)))"
proof (cases "k = [] \<or> v = []")
  case True
  with assms show ?thesis
    by (auto simp: value_found_def kv_good_def end_ptr_def intro: tokens_read_missing)
next
  case False
  with assms(1) obtain b where b: "kv_beginvalue q = Some b" "kv_endvalue q = Some (b + length v)"
    "token (kv_line q) b v" "kv_cur p \<le> b" by (auto simp: value_found_def)
  have "token (kv_line q) i k"
    using assms(1,5) by (intro token_same [OF assms(4), where k = "kv_cur p"]) (simp_all add: value_found_def)
  with False assms b show ?thesis
    by (auto simp: value_found_def kv_good_def first_ptr_def end_ptr_def intro!: tokens_read_found)
qed

lemma value_spec_plain: "plain s \<Longrightarrow> value_spec s = Some v \<Longrightarrow> plain v"
proof -
  have "plain s \<Longrightarrow> plain (fst (unquote s))" for s
    by (induction s rule: unquote.induct) (auto simp: neq_Nil_conv)
  from this [of "tl s"] show "plain s \<Longrightarrow> value_spec s = Some v \<Longrightarrow> plain v"
    by (cases s) (auto simp: value_spec_def split: if_splits prod.splits)
qed

lemma name_part_plain: "plain s \<Longrightarrow> plain (name_part s) \<and> plain (after_name s)"
  by (auto simp: name_part_def after_name_def)

text \<open>Blanks, a name, blanks: where the name is, and where the cursor is behind it.\<close>

definition name_found :: "string \<Rightarrow> nat \<Rightarrow> string \<Rightarrow> nat \<Rightarrow> nat \<Rightarrow> bool" where
  "name_found l i s n m \<longleftrightarrow> n = i + length (takeWhile isblank s)
     \<and> m = n + length (name_part s) + length (takeWhile isblank (dropWhile name_char (dropWhile isblank s)))"

lemma name_found_at:
  assumes "name_found l i s n m" "text_at l i s"
  shows "text_at l n (dropWhile isblank s)" "text_at l (n + length (name_part s)) (dropWhile name_char (dropWhile isblank s))"
    "text_at l m (after_name s)" "token l n (name_part s)" "n + length (name_part s) \<le> m"
proof -
  show n: "text_at l n (dropWhile isblank s)"
    using assms by (simp add: name_found_def text_at_dropWhile)
  then show "token l n (name_part s)" unfolding name_part_def by (rule token_takeWhile)
  show k: "text_at l (n + length (name_part s)) (dropWhile name_char (dropWhile isblank s))"
    using text_at_dropWhile [OF n, of name_char] by (simp add: name_part_def)
  show "text_at l m (after_name s)"
    using text_at_dropWhile [OF k, of isblank] assms(1) by (simp add: name_found_def after_name_def)
  show "n + length (name_part s) \<le> m" using assms(1) by (simp add: name_found_def)
qed

text \<open>The first three states take the key.\<close>

lemma kv_parse_key:
  assumes "plain s" "text_at l 0 s" "name_found l 0 s n m"
  shows "kv_parse (KeyValueParser l) = kv_run (kv_enter 3 ((KeyValueParser l)\<lparr>kv_beginkey := first_ptr n (length (name_part s)) None,
    kv_endkey := end_ptr n (length (name_part s)) None, kv_cur := m\<rparr>))"
proof -
  let ?p = "KeyValueParser l" and ?n = "length (name_part s)"
  let ?k = "?p\<lparr>kv_cur := n + ?n, kv_beginkey := first_ptr n ?n None, kv_endkey := end_ptr n ?n None\<rparr>"
  note at = name_found_at [OF assms(3,2)]
  have f: "kv_line ?p = l" "kv_cur ?p = 0" "kv_beginkey ?p = None" "kv_endkey ?p = None"
    by (simp_all add: KeyValueParser_def)
  have "kv_parse ?p = kv_run (kv_enter 0 ?p)"
    by (simp add: kv_parse_def kv_next_def kv_states_def KeyValueParser_def)
  also have "\<dots> = kv_run (kv_enter 1 (?p\<lparr>kv_cur := n\<rparr>))"
    using kv_run_ws [of "kv_enter 0 ?p" 1 s] assms f by (simp add: kv_states_def name_found_def)
  also have "\<dots> = kv_run (kv_enter 2 ?k)"
    using kv_run_key [of "kv_enter 1 (?p\<lparr>kv_cur := n\<rparr>)" 2 "dropWhile isblank s"] assms(1) at(1) f
    by (simp add: kv_states_def name_part_def plain_sub)
  also have "\<dots> = kv_run (kv_enter 3 (?p\<lparr>kv_beginkey := first_ptr n ?n None,
    kv_endkey := end_ptr n ?n None, kv_cur := m\<rparr>))"
    using kv_run_ws [of "kv_enter 2 ?k" 3 "dropWhile name_char (dropWhile isblank s)"] assms(1,3) at(2) f
    by (simp add: kv_states_def name_found_def plain_sub)
  finally show ?thesis .
qed

lemma kv_line:
  assumes "plain s"
  shows "section_eval (s @ NUL # t) =
    (case key_value_spec s of
       None \<Rightarrow> ret None
     | Some (k, v) \<Rightarrow> if k = [] \<or> v = [] then throw UndefinedBehaviour else ret (Some (k, v)))"
proof -
  let ?l = "s @ NUL # t" and ?k = "name_part s" and ?r = "after_name s"
  obtain n m where nm: "name_found ?l 0 s n m" by (simp add: name_found_def)
  have at0: "text_at ?l 0 s" by (auto simp: text_at_def)
  note at = name_found_at [OF nm at0] and plain = name_part_plain [OF assms]
  define p where "p = kv_enter 3 ((KeyValueParser ?l)\<lparr>kv_beginkey := first_ptr n (length ?k) None,
    kv_endkey := end_ptr n (length ?k) None, kv_cur := m\<rparr>)"
  have p: "kv_at p = Some Equal" "kv_idx p = 3" "kv_line p = ?l" "kv_cur p = m" "\<not> kv_quoted p"
    "kv_beginvalue p = None" "kv_endvalue p = None" "kv_beginkey p = first_ptr n (length ?k) None"
    "kv_endkey p = end_ptr n (length ?k) None"
    by (simp_all add: p_def KeyValueParser_def kv_states_def)
  have "kv_parse (KeyValueParser ?l) = kv_run p"
    unfolding p_def by (rule kv_parse_key [OF assms at0 nm])
  also have "\<dots> = (if ?r \<noteq> [] \<and> hd ?r = CHR ''='' then kv_run (kv_inc (kv_enter 4 p)) else ret (kv_inc (kv_goto Fail p)))"
    using kv_run_equal [of p 4 ?r] p at(3) by simp
  finally have run: "kv_parse (KeyValueParser ?l) = \<dots>" .
  show ?thesis
  proof (cases "?r \<noteq> [] \<and> hd ?r = CHR ''=''")
    case False
    with run show ?thesis
      by (auto simp: section_eval_def kv_good_def kv_inc_def kv_goto_def key_value_spec_def Let_def)
  next
    case True
    let ?u = "dropWhile isblank (tl ?r)"
    let ?q = "kv_enter 5 (p\<lparr>kv_cur := Suc m + length (takeWhile isblank (tl ?r))\<rparr>)"
    have tl: "text_at ?l (Suc m) (tl ?r)" "plain (tl ?r)"
      using True at(3) plain text_at_Cons [of ?l m "hd ?r" "tl ?r"] by (cases ?r; simp)+
    have "kv_run (kv_inc (kv_enter 4 p)) = kv_run ?q"
      using kv_run_ws [of "kv_inc (kv_enter 4 p)" 5 "tl ?r"] tl p by (simp add: kv_inc_def kv_states_def)
    moreover have "\<exists>q. kv_run ?q = ret q \<and> value_found ?q q (value_spec ?u)"
      using tl p text_at_dropWhile [OF tl(1), of isblank]
      by (intro kv_run_from_value) (auto simp: kv_states_def)
    ultimately obtain q where q: "kv_parse (KeyValueParser ?l) = ret q" "value_found ?q q (value_spec ?u)"
      using run True by auto
    have "kv_good q \<and> tokens_read q = (if ?k = [] \<or> v = [] then throw UndefinedBehaviour else ret (Some (?k, v)))"
      if "value_spec ?u = Some v" for v
      using that q(2) plain p at(4,5) value_spec_plain [OF plain_sub(2) [OF tl(2)]]
      by (intro value_found_read [where p = ?q and i = n]) (auto simp: plain_nul_free)
    with q True show ?thesis
      by (auto simp: section_eval_def kv_good_def value_found_def key_value_spec_def split: option.splits)
  qed
qed

text \<open>
  C39. Lines of a section. For every line of ASCII characters other than NUL, whatever the array holds
  behind it, the state machine for definitions ends without leaving the array. It accepts exactly the
  lines the reference parser on strings accepts, with the key and the value that finds; where one of
  these is empty, \<open>key()\<close> or \<open>value()\<close> then writes through a null pointer.
\<close>

theorem key_value_lines:
  assumes "plain s"
  shows "section_eval (s @ NUL # t) =
    (case key_value_spec s of
       None \<Rightarrow> ret None
     | Some (k, v) \<Rightarrow> if k = [] \<or> v = [] then throw UndefinedBehaviour else ret (Some (k, v)))"
  using assms by (rule kv_line)

lemma plain_code: "plain s \<longleftrightarrow> list_all (\<lambda>c. 0 < char_code c \<and> char_code c < 128) s"
proof -
  have "c = NUL \<longleftrightarrow> char_code c = 0" for c
    by (metis NUL_code char_code_def of_char_eq_iff)
  then show ?thesis by (auto simp: plain_def ascii_def list_all_iff)
qed

theorem key_value_lines_witness:
  "section_eval (''rate = 50 # percent'' @ [NUL]) = ret (Some (''rate'', ''50'')) \<and>
   section_eval (''rate = 50 percent'' @ [NUL]) = ret None \<and>
   section_eval (''rate = '' @ [NUL]) = throw UndefinedBehaviour"
  using key_value_lines [of "''rate = 50 # percent''" "[]"] key_value_lines [of "''rate = 50 percent''" "[]"]
    key_value_lines [of "''rate = ''" "[]"]
  by (simp add: plain_code key_value_spec_def name_part_def after_name_def value_spec_def line_end_def char_code_def isblank_def isgraph_def
      name_char_def isalnum_def isdigit_def)

text \<open>The value in quotes, each quote of the value behind a backslash.\<close>

definition escape :: "string \<Rightarrow> string" where
  "escape v = concat (map (\<lambda>c. if c = CHR 0x22 then [CHR 0x5C, CHR 0x22] else [c]) v)"

definition printable :: "string \<Rightarrow> bool" where
  "printable v \<longleftrightarrow> (\<forall>c\<in>set v. isgraph c \<or> isblank c)"

lemma escape_simps [simp]:
  "escape [] = []" "escape (c # v) = (if c = CHR 0x22 then CHR 0x5C # CHR 0x22 # escape v else c # escape v)"
  by (simp_all add: escape_def)

lemma isgraph_backslash: "isgraph (CHR 0x5C)"
  by (simp add: isgraph_def)

lemma escape_hd: "escape v \<noteq> [] \<Longrightarrow> hd (escape v @ s) \<noteq> CHR 0x22"
  by (cases v) auto

lemma unquote_escape:
  "printable v \<Longrightarrow> v = [] \<or> last v \<noteq> CHR 0x5C \<Longrightarrow> unquote (escape v @ CHR 0x22 # s) = (v, CHR 0x22 # s)"
proof (induction v)
  case (Cons c v)
  have "v = [] \<or> hd (escape v @ CHR 0x22 # s) \<noteq> CHR 0x22"
    using escape_hd [of v] by (cases v) auto
  with Cons show ?case
    by (auto simp: printable_def isgraph_backslash split: if_splits)
qed simp

lemma span_append:
  assumes "\<forall>c\<in>set a. P c" "s = [] \<or> \<not> P (hd s)"
  shows "takeWhile P (a @ s) = a" "dropWhile P (a @ s) = s"
  using assms by (cases s; simp)+

lemma classes_plain:
  "\<forall>c\<in>set s. isblank c \<Longrightarrow> plain s" "\<forall>c\<in>set s. name_char c \<Longrightarrow> plain s" "printable s \<Longrightarrow> plain (escape s)"
proof -
  have b: "isblank c \<or> isgraph c \<or> name_char c \<Longrightarrow> ascii c \<and> c \<noteq> NUL" for c
    by (auto simp: isblank_def isgraph_def name_char_def isalnum_def isdigit_def ascii_def NUL_def)
  then show "\<forall>c\<in>set s. isblank c \<Longrightarrow> plain s" "\<forall>c\<in>set s. name_char c \<Longrightarrow> plain s"
    by (auto simp: plain_def)
  have e: "plain [CHR 0x5C]" "plain [CHR 0x22]" by (simp_all add: ascii_def NUL_def)
  with b show "printable s \<Longrightarrow> plain (escape s)"
    by (induction s) (auto simp: printable_def)
qed

lemma class_heads: "\<not> isblank (CHR ''='')" "\<not> isblank (CHR 0x22)" "\<not> isblank (CHR ''#'')" "\<not> name_char (CHR ''='')"
  by (simp_all add: isblank_def name_char_def isalnum_def isdigit_def)

lemma blank_not_name: "isblank c \<Longrightarrow> \<not> name_char c"
  by (auto simp: isblank_def name_char_def isalnum_def isdigit_def)

text \<open>
  A line that is written as the comment of \<open>KeyValueParser\<close> describes it, with the value in
  quotes, each quote in it behind a backslash, and blanks and a comment where they are allowed,
  is read back as the same key and value, whatever visible characters and blanks the value has,
  unless it ends in a backslash.
\<close>
theorem key_value_round_trip:
  assumes k: "k \<noteq> []" "\<forall>c\<in>set k. name_char c"
    and v: "v \<noteq> []" "printable v" "last v \<noteq> CHR 0x5C"
    and b: "\<forall>c\<in>set (b0 @ b1 @ b2 @ b3). isblank c"
    and c: "c = [] \<or> hd c = CHR ''#''" "plain c"
  shows "section_eval (b0 @ k @ b1 @ ''='' @ b2 @ [CHR 0x22] @ escape v @ [CHR 0x22] @ b3 @ c @ NUL # t) = ret (Some (k, v))"
proof -
  let ?q = "CHR 0x22 # escape v @ CHR 0x22 # b3 @ c"
  let ?s = "b0 @ k @ b1 @ CHR ''='' # b2 @ ?q"
  have hk: "\<not> isblank (hd (k @ s))" for s
    using k blank_not_name by (cases k) auto
  have hb: "\<not> name_char (hd (b1 @ CHR ''='' # s))" for s
    using b blank_not_name class_heads by (cases b1) auto
  have s1: "dropWhile isblank ?s = k @ b1 @ CHR ''='' # b2 @ ?q"
    using b hk by (intro span_append) auto
  have s2: "takeWhile name_char (k @ b1 @ CHR ''='' # b2 @ ?q) = k"
    "dropWhile name_char (k @ b1 @ CHR ''='' # b2 @ ?q) = b1 @ CHR ''='' # b2 @ ?q"
    by (rule span_append [OF k(2)], use hb in simp)+
  have s3: "dropWhile isblank (b1 @ CHR ''='' # b2 @ ?q) = CHR ''='' # b2 @ ?q"
    using b class_heads by (intro span_append) auto
  have s4: "dropWhile isblank (b2 @ ?q) = ?q"
    using b class_heads by (intro span_append) auto
  have "dropWhile isblank (b3 @ c) = c"
    using b c class_heads by (intro span_append) auto
  with c have "line_end (b3 @ c)" by (simp add: line_end_def)
  with v have "value_spec ?q = Some v" by (simp add: value_spec_def unquote_escape)
  with s1 s2 s3 s4 have spec: "key_value_spec ?s = Some (k, v)"
    by (simp add: key_value_spec_def after_name_def name_part_def class_heads)
  have "plain ?s"
    using k v b c classes_plain(1) [of b0] classes_plain(1) [of b1] classes_plain(1) [of b2]
      classes_plain(1) [of b3] classes_plain(2) [of k] classes_plain(3) [of v]
    by (auto simp: ascii_def NUL_def)
  from kv_line [OF this, of t] spec k(1) v(1) show ?thesis by simp
qed

theorem key_value_round_trip_witness:
  "section_eval ('' name='' @ [CHR 0x22] @ escape [CHR 0x22, CHR ''#'', CHR '' '', CHR 0x22] @ [CHR 0x22] @ '' #x'' @ NUL # []) =
   ret (Some (''name'', [CHR 0x22, CHR ''#'', CHR '' '', CHR 0x22]))"
  using key_value_round_trip [of "''name''" "[CHR 0x22, CHR ''#'', CHR '' '', CHR 0x22]" "'' ''" "[]" "[]" "'' ''" "''#x''" "[]"]
  by (simp add: plain_code printable_def char_code_def isblank_def isgraph_def name_char_def isalnum_def isdigit_def)

section \<open>Section headers\<close>

abbreviation sn_run :: "sn_parser \<Rightarrow> sn_parser res" where
  "sn_run \<equiv> run_states sn_final sn_call"

abbreviation sn_enter :: "nat \<Rightarrow> sn_parser \<Rightarrow> sn_parser" where
  "sn_enter i p \<equiv> p\<lparr>sn_at := Some (sn_states ! i), sn_idx := int i\<rparr>"

lemma sn_next_enter: "sn_idx p = int i - 1 \<Longrightarrow> i < 7 \<Longrightarrow> sn_next p = ret (sn_enter i p)"
  by (simp add: sn_next_def sn_states_def)

lemma sn_run_ws:
  assumes "sn_at p = Some SnWs" "sn_idx p = int i - 1" "i < 7" "text_at (sn_line p) (sn_cur p) s" "plain s"
  shows "sn_run p = sn_run (sn_enter i (p\<lparr>sn_cur := sn_cur p + length (takeWhile isblank s)\<rparr>))"
  using run_span [where P = isblank and g = "\<lambda>j. p\<lparr>sn_cur := sn_cur p + j\<rparr>" and final = sn_final
      and h = "\<lambda>j. sn_enter i (p\<lparr>sn_cur := sn_cur p + j\<rparr>)" and step = sn_call, OF assms(4,5)] assms(1-3)
  by (simp add: sn_call_def sn_ws_def sn_char_def sn_final_def sn_inc_def sn_next_enter)

lemma sn_run_name:
  assumes "sn_at p = Some SnName" "sn_idx p = int i - 1" "i < 7" "text_at (sn_line p) (sn_cur p) s" "plain s"
  shows "sn_run p = sn_run (sn_enter i (p\<lparr>sn_cur := sn_cur p + length (takeWhile name_char s),
      sn_start := first_ptr (sn_cur p) (length (takeWhile name_char s)) (sn_start p),
      sn_end := end_ptr (sn_cur p) (length (takeWhile name_char s)) (sn_end p)\<rparr>))"
proof -
  let ?g = "\<lambda>j. p\<lparr>sn_cur := sn_cur p + j, sn_start := first_ptr (sn_cur p) j (sn_start p),
      sn_end := end_ptr (sn_cur p) j (sn_end p)\<rparr>"
  have "sn_run (?g 0) = sn_run (sn_enter i (?g (length (takeWhile name_char s))))"
    by (rule run_span [where h = "\<lambda>j. sn_enter i (?g j)", OF assms(4,5)])
      (use assms(1-3) in \<open>auto simp: sn_call_def sn_name_def sn_char_def sn_final_def sn_inc_def name_char_def
        sn_next_enter first_ptr_def end_ptr_def\<close>)
  then show ?thesis by simp
qed

lemma sn_run_bracket:
  assumes "sn_at p = Some st" "(st, b) \<in> {(SnStart, CHR ''[''), (SnEnd, CHR '']'')}"
    and "sn_idx p = int i - 1" "i < 7" "text_at (sn_line p) (sn_cur p) s"
  shows "sn_run p = (if s \<noteq> [] \<and> hd s = b then sn_run (sn_inc (sn_enter i p)) else ret (sn_inc (sn_goto SnFail p)))"
proof -
  have "sn_call p = ret (if s \<noteq> [] \<and> hd s = b then sn_inc (sn_enter i p) else sn_inc (sn_goto SnFail p))"
    using assms by (cases s) (auto simp: sn_call_def sn_bracket_def sn_char_def text_at_Nil text_at_Cons sn_next_enter)
  then show ?thesis
    using assms(1,2) by (auto simp: run_states_step sn_final_def sn_inc_def sn_goto_def)
qed

lemma sn_run_finish:
  assumes "sn_at p = Some SnFinish" "text_at (sn_line p) (sn_cur p) s" "plain s"
  shows "sn_run p = ret (sn_goto (if s = [] \<or> hd s = CHR ''#'' then SnSuccess else SnFail) p)"
proof -
  have "sn_call p = ret (sn_goto (if s = [] \<or> hd s = CHR ''#'' then SnSuccess else SnFail) p)"
    using assms by (cases s) (auto simp: sn_call_def sn_finish_def sn_char_def text_at_Nil text_at_Cons)
  then show ?thesis
    using assms(1) by (simp add: run_states_step sn_final_def sn_goto_def)
qed

definition section_spec :: "string \<Rightarrow> string option" where
  "section_spec s =
     (if s \<noteq> [] \<and> hd s = CHR ''['' then
        let r = after_name (tl s)
        in if r \<noteq> [] \<and> hd r = CHR '']'' \<and> line_end (tl r) then Some (name_part (tl s)) else None
      else None)"

lemma sn_run_name_part:
  assumes "sn_at p = Some SnStart" "sn_idx p = 0" "sn_line p = l" "sn_start p = None" "sn_end p = None"
    and "plain s" "text_at l (Suc (sn_cur p)) s" "name_found l (Suc (sn_cur p)) s n m"
  shows "sn_run (sn_inc (sn_enter 1 p)) = sn_run (sn_enter 4 (p\<lparr>sn_start := first_ptr n (length (name_part s)) None,
    sn_end := end_ptr n (length (name_part s)) None, sn_cur := m\<rparr>))"
proof -
  let ?n = "length (name_part s)"
  let ?k = "p\<lparr>sn_cur := n + ?n, sn_start := first_ptr n ?n None, sn_end := end_ptr n ?n None\<rparr>"
  note at = name_found_at [OF assms(8,7)]
  have "sn_run (sn_inc (sn_enter 1 p)) = sn_run (sn_enter 2 (p\<lparr>sn_cur := n\<rparr>))"
    using sn_run_ws [of "sn_inc (sn_enter 1 p)" 2 s] assms by (simp add: sn_inc_def sn_states_def name_found_def)
  also have "\<dots> = sn_run (sn_enter 3 ?k)"
    using sn_run_name [of "sn_enter 2 (p\<lparr>sn_cur := n\<rparr>)" 3 "dropWhile isblank s"] at(1) assms
    by (simp add: sn_states_def name_part_def plain_sub)
  also have "\<dots> = sn_run (sn_enter 4 (p\<lparr>sn_start := first_ptr n ?n None,
    sn_end := end_ptr n ?n None, sn_cur := m\<rparr>))"
    using sn_run_ws [of "sn_enter 3 ?k" 4 "dropWhile name_char (dropWhile isblank s)"] at(2) assms
    by (simp add: sn_states_def name_found_def plain_sub)
  finally show ?thesis .
qed

lemma sn_run_end:
  assumes "sn_at p = Some SnEnd" "sn_idx p = 4" "text_at (sn_line p) (sn_cur p) s" "plain s"
  shows "\<exists>q. sn_run p = ret q \<and> (sn_good q \<longleftrightarrow> s \<noteq> [] \<and> hd s = CHR '']'' \<and> line_end (tl s))
    \<and> sn_line q = sn_line p \<and> sn_start q = sn_start p \<and> sn_end q = sn_end p"
proof -
  have run: "sn_run p = (if s \<noteq> [] \<and> hd s = CHR '']'' then sn_run (sn_inc (sn_enter 5 p)) else ret (sn_inc (sn_goto SnFail p)))"
    using sn_run_bracket [of p SnEnd "CHR '']''" 5 s] assms by simp
  show ?thesis
  proof (cases "s \<noteq> [] \<and> hd s = CHR '']''")
    case False
    with run show ?thesis by (auto simp: sn_good_def sn_inc_def sn_goto_def)
  next
    case True
    let ?q = "sn_enter 6 (p\<lparr>sn_cur := Suc (sn_cur p) + length (takeWhile isblank (tl s))\<rparr>)"
    have tl: "text_at (sn_line p) (Suc (sn_cur p)) (tl s)" "plain (tl s)"
      using True assms(3,4) text_at_Cons [of "sn_line p" "sn_cur p" "hd s" "tl s"] by (cases s; simp)+
    have "sn_run (sn_inc (sn_enter 5 p)) = sn_run ?q"
      using sn_run_ws [of "sn_inc (sn_enter 5 p)" 6 "tl s"] tl assms by (simp add: sn_inc_def sn_states_def)
    also have "\<dots> = ret (sn_goto (if dropWhile isblank (tl s) = [] \<or> hd (dropWhile isblank (tl s)) = CHR ''#''
        then SnSuccess else SnFail) ?q)"
      using tl text_at_dropWhile [OF tl(1), of isblank]
      by (intro sn_run_finish) (auto simp: sn_states_def)
    finally show ?thesis
      using run True by (auto simp: sn_good_def sn_goto_def line_end_def Let_def)
  qed
qed

text \<open>
  For every line of ASCII characters \<open>SectionNameParser\<close> ends without leaving the array and
  accepts exactly the lines \<open>[ name ]\<close> with optional blanks and comment; where the brackets hold
  no name, \<open>name()\<close> writes through a null pointer.
\<close>
theorem section_names:
  assumes "plain s"
  shows "section_name (s @ NUL # t) =
    (case section_spec s of None \<Rightarrow> ret None | Some n \<Rightarrow> if n = [] then throw UndefinedBehaviour else ret (Some n))"
proof -
  let ?l = "s @ NUL # t" and ?p = "sn_enter 0 (SectionNameParser (s @ NUL # t))"
  have p: "sn_at ?p = Some SnStart" "sn_idx ?p = 0" "sn_line ?p = ?l" "sn_cur ?p = 0" "sn_start ?p = None" "sn_end ?p = None"
    by (simp_all add: SectionNameParser_def sn_states_def)
  have at0: "text_at ?l 0 s" by (auto simp: text_at_def)
  have "sn_parse (SectionNameParser ?l) = sn_run ?p"
    by (simp add: sn_parse_def sn_next_def sn_states_def SectionNameParser_def)
  also have "\<dots> = (if s \<noteq> [] \<and> hd s = CHR ''['' then sn_run (sn_inc (sn_enter 1 ?p)) else ret (sn_inc (sn_goto SnFail ?p)))"
    using sn_run_bracket [OF p(1), of "CHR ''[''" 1 s] p at0 by simp
  finally have run: "sn_parse (SectionNameParser ?l) = \<dots>" .
  show ?thesis
  proof (cases "s \<noteq> [] \<and> hd s = CHR ''[''")
    case False
    with run show ?thesis
      by (auto simp: section_name_def sn_good_def sn_inc_def sn_goto_def section_spec_def)
  next
    case True
    let ?s = "tl s" and ?n = "name_part (tl s)"
    have tl: "text_at ?l 1 ?s" "plain ?s"
      using True at0 assms text_at_Cons [of ?l 0 "hd s" "tl s"] by (cases s; simp)+
    obtain n m where nm: "name_found ?l 1 ?s n m" by (simp add: name_found_def)
    note at = name_found_at [OF nm tl(1)] and plain = name_part_plain [OF tl(2)]
    let ?q = "sn_enter 4 (?p\<lparr>sn_start := first_ptr n (length ?n) None,
    sn_end := end_ptr n (length ?n) None, sn_cur := m\<rparr>)"
    have "sn_parse (SectionNameParser ?l) = sn_run ?q"
      using run True sn_run_name_part [of ?p ?l ?s n m] p tl nm by simp
    moreover have "\<exists>q. sn_run ?q = ret q \<and> (sn_good q \<longleftrightarrow> after_name ?s \<noteq> [] \<and> hd (after_name ?s) = CHR '']'' \<and> line_end (tl (after_name ?s)))
      \<and> sn_line q = ?l \<and> sn_start q = first_ptr n (length ?n) None \<and> sn_end q = end_ptr n (length ?n) None"
      using sn_run_end [of ?q "after_name ?s"] at(3) plain p by (simp add: sn_states_def)
    ultimately show ?thesis
      using True plain token_terminated [OF at(4)] terminate_token_Some [OF at(4)]
      by (auto simp: section_name_def section_spec_def Let_def first_ptr_def end_ptr_def read_at_def
          plain_nul_free terminate_token_def)
  qed
qed

theorem section_names_witness:
  "section_name (''[ net.eth0 ]  # first'' @ [NUL]) = ret (Some ''net.eth0'') \<and>
   section_name (''[]'' @ [NUL]) = throw UndefinedBehaviour"
  using section_names [of "''[ net.eth0 ]  # first''" "[]"] section_names [of "''[]''" "[]"]
  by (simp add: plain_code section_spec_def name_part_def after_name_def line_end_def char_code_def isblank_def name_char_def isalnum_def isdigit_def)

end
