(* ===== verification/IniValues.thy ===== *)
theory IniValues
  imports IniFile
begin

text \<open>
  The values of \<^verbatim>\<open>detail/inifile.h\<close>: \<open>InputFileStream::getline\<close> and the header line, the
  converters from the text of a value to the type of an option, and the handler that splits a
  value at commas.
\<close>

section \<open>Lines of a file\<close>

text \<open>
  \<open>s_file\<close> is \<open>None\<close> for a null \<open>FILE*\<close>, else the characters not read yet; \<open>s_broken\<close> says
  that reading behind them is a read error and not the end of the file.
\<close>

record in_stream =
  s_file :: "string option"
  s_broken :: bool
  s_eof :: bool
  s_err :: bool
  s_last :: nat

definition stream_ok :: "in_stream \<Rightarrow> bool" where
  "stream_ok s \<longleftrightarrow> s_file s \<noteq> None \<and> \<not> s_eof s \<and> \<not> s_err s"

definition stream_bad :: "in_stream \<Rightarrow> bool" where
  "stream_bad s \<longleftrightarrow> s_file s = None \<or> s_err s \<and> \<not> s_eof s"

text \<open>\<open>fgets\<close>: at most \<open>n\<close> characters, up to and with the first newline.\<close>

fun take_line :: "nat \<Rightarrow> string \<Rightarrow> string" where
  "take_line 0 s = []"
| "take_line (Suc n) [] = []"
| "take_line (Suc n) (c # s) = (if c = CHR 0x0A then [c] else c # take_line n s)"

definition fgets :: "string \<Rightarrow> nat \<Rightarrow> string \<Rightarrow> in_stream \<Rightarrow> (string option \<times> in_stream)" where
  "fgets buf n rest s =
     (let l = take_line (n - 1) rest;
          s' = s\<lparr>s_file := Some (drop (length l) rest)\<rparr>;
          at_end = (length l < n - 1 \<and> (l = [] \<or> last l \<noteq> CHR 0x0A))
      in if at_end \<and> s_broken s then (None, s'\<lparr>s_err := True\<rparr>)
         else if at_end \<and> l = [] then (None, s'\<lparr>s_eof := True\<rparr>)
         else (Some (l @ NUL # drop (Suc (length l)) buf), if at_end then s'\<lparr>s_eof := True\<rparr> else s'))"

text \<open>\<open>if (len > 0 && buffer[len-1] == c) buffer[--len] = '\0'\<close>.\<close>

definition chop :: "char \<Rightarrow> string \<times> nat \<Rightarrow> string \<times> nat" where
  "chop c p = (case p of (b, len) \<Rightarrow> if 0 < len \<and> b ! (len - 1) = c then (b[len - 1 := NUL], len - 1) else (b, len))"

definition getline :: "string \<Rightarrow> in_stream \<Rightarrow> string \<times> in_stream" where
  "getline buf s =
     (case s_file s of
        None \<Rightarrow> (buf, s)
      | Some rest \<Rightarrow>
        (case fgets buf (length buf) rest s of
           (None, s) \<Rightarrow> (buf, s\<lparr>s_last := 0\<rparr>)
         | (Some b, s) \<Rightarrow>
           (let len = length (c_str b) in
            if len = length buf - 1
            then (b, if b ! (len - 1) \<noteq> CHR 0x0A then s\<lparr>s_last := length buf + 1\<rparr> else s)
            else if 0 < len
            then (fst (chop (CHR 0x0D) (chop (CHR 0x0A) (b, len))), s\<lparr>s_last := len\<rparr>)
            else (b, s\<lparr>s_last := 0\<rparr>))))"

text \<open>
  The header line: \<open>buf\<close> is the uninitialised array of 128 characters, the program's parser
  gets the line only when \<open>gcount\<close> says that it is not empty and was not too long.
\<close>

definition headerline_eval :: "string \<Rightarrow> (string \<Rightarrow> bool) \<Rightarrow> in_stream \<Rightarrow> int \<Rightarrow> bool \<times> in_stream \<times> int" where
  "headerline_eval buf parser s line =
     (let (b, s) = getline buf s
      in (0 < s_last s \<and> s_last s < length buf - 1 \<and> parser (c_str b), s, line + 1))"

section \<open>Numbers\<close>

text \<open>\<open>strtoll\<close>: the number and what is left of the string behind it; out of range it saturates.\<close>

definition digit_of :: "nat \<Rightarrow> char \<Rightarrow> nat option" where
  "digit_of base c =
     (let x = char_code c;
          d = (if 48 \<le> x \<and> x \<le> 57 then Some (x - 48)
               else if 65 \<le> x \<and> x \<le> 90 then Some (x - 55)
               else if 97 \<le> x \<and> x \<le> 122 then Some (x - 87)
               else None)
      in case d of None \<Rightarrow> None | Some d \<Rightarrow> if d < base then Some d else None)"

definition number_of :: "nat \<Rightarrow> string \<Rightarrow> int" where
  "number_of base s = foldl (\<lambda>n c. n * int base + int (the (digit_of base c))) 0 s"

definition int64_min :: int where "int64_min = - (2 ^ 63)"

definition int64_max :: int where "int64_max = 2 ^ 63 - 1"

definition strtoll :: "nat \<Rightarrow> string \<Rightarrow> int \<times> string" where
  "strtoll base s =
     (let r = dropWhile is_space s;
          neg = (r \<noteq> [] \<and> hd r = CHR ''-'');
          r = (if r \<noteq> [] \<and> (hd r = CHR ''-'' \<or> hd r = CHR ''+'') then tl r else r);
          r = (if base = 16 \<and> 3 \<le> length r \<and> r ! 0 = CHR ''0'' \<and> (r ! 1 = CHR ''x'' \<or> r ! 1 = CHR ''X'')
                  \<and> digit_of 16 (r ! 2) \<noteq> None
               then drop 2 r else r);
          ds = takeWhile (\<lambda>c. digit_of base c \<noteq> None) r;
          n = (if neg then - number_of base ds else number_of base ds)
      in if ds = [] then (0, s)
         else (max int64_min (min int64_max n), drop (length ds) r))"

text \<open>\<open>convert\<close>: the base from the start of the text, success when all of it was read.\<close>

definition convert :: "string \<Rightarrow> int \<times> bool" where
  "convert s =
     (let base = (if s \<noteq> [] \<and> hd s = CHR ''0'' \<and> tl s \<noteq> [] then (if s ! 1 = CHR ''x'' then 16 else 8) else 10)
      in case strtoll base s of (n, rest) \<Rightarrow> (n, rest = []))"

datatype int_option = OptShort | OptUShort | OptInt | OptUInt | OptChar | OptSChar | OptUChar

text \<open>\<open>std::numeric_limits\<close> of a platform with 32-bit \<open>int\<close> and signed \<open>char\<close>.\<close>

fun limits :: "int_option \<Rightarrow> int \<times> int" where
  "limits OptShort = (- (2 ^ 15), 2 ^ 15 - 1)"
| "limits OptUShort = (0, 2 ^ 16 - 1)"
| "limits OptInt = (- (2 ^ 31), 2 ^ 31 - 1)"
| "limits OptUInt = (0, 2 ^ 32 - 1)"
| "limits OptChar = (- (2 ^ 7), 2 ^ 7 - 1)"
| "limits OptSChar = (- (2 ^ 7), 2 ^ 7 - 1)"
| "limits OptUChar = (0, 2 ^ 8 - 1)"

text \<open>The value returned is \<open>rc\<close> converted to the type.\<close>

definition wrap_to :: "int_option \<Rightarrow> int \<Rightarrow> int" where
  "wrap_to T n = (case limits T of (lo, hi) \<Rightarrow> lo + (n - lo) mod (hi - lo + 1))"

definition int_converter :: "int_option \<Rightarrow> string \<Rightarrow> int \<times> bool" where
  "int_converter T s =
     (case convert s of (rc, success) \<Rightarrow>
       (case limits T of (lo, hi) \<Rightarrow> (wrap_to T rc, success \<and> lo \<le> rc \<and> rc \<le> hi)))"

text \<open>
  \<open>Converter<bool>\<close>: \<open>strcasecmp\<close> with \<open>true\<close>; the check of the text is compiled out, so the
  flag stays as it was.
\<close>

definition to_lower :: "char \<Rightarrow> char" where
  "to_lower c = (if 65 \<le> char_code c \<and> char_code c \<le> 90 then char_of (char_code c + 32) else c)"

definition bool_converter :: "string \<Rightarrow> bool \<Rightarrow> bool \<times> bool" where
  "bool_converter s success = (map to_lower s = ''true'', success)"

section \<open>Options\<close>

text \<open>
  \<open>ActionCaller\<close>: the action is called with what the converter returns, whether or not it set
  the flag; an action that returns \<open>bool\<close> can refuse the value too.
\<close>

definition action_eval :: "(string \<Rightarrow> bool \<Rightarrow> 'v \<times> bool) \<Rightarrow> ('v \<Rightarrow> 's \<Rightarrow> 's) \<Rightarrow> string \<Rightarrow> 's \<Rightarrow> bool \<times> 's" where
  "action_eval conv a val s = (case conv val True of (v, success) \<Rightarrow> (success, a v s))"

definition action_eval_bool ::
  "(string \<Rightarrow> bool \<Rightarrow> 'v \<times> bool) \<Rightarrow> ('v \<Rightarrow> 's \<Rightarrow> bool \<times> 's) \<Rightarrow> string \<Rightarrow> 's \<Rightarrow> bool \<times> 's" where
  "action_eval_bool conv a val s =
     (case conv val True of (v, success) \<Rightarrow> case a v s of (r, s) \<Rightarrow> (r \<and> success, s))"

text \<open>\<open>set<T>\<close>: the setter of an option, here of a variable of an integral type.\<close>

definition set_option :: "'v \<Rightarrow> 'v \<Rightarrow> 'v" where
  "set_option t old = t"

definition int_option_eval :: "int_option \<Rightarrow> string \<Rightarrow> int \<Rightarrow> bool \<times> int" where
  "int_option_eval T = action_eval (\<lambda>s success. int_converter T s) set_option"

section \<open>Lists of values\<close>

text \<open>\<open>strtok(v, ",")\<close> and \<open>strtok(0, ",")\<close>: the next token and what is left behind it.\<close>

definition next_token :: "string \<Rightarrow> (string \<times> string) option" where
  "next_token s =
     (let r = dropWhile (\<lambda>c. c = CHR '','') s
      in if r = [] then None
         else Some (takeWhile (\<lambda>c. c \<noteq> CHR '','') r, drop 1 (dropWhile (\<lambda>c. c \<noteq> CHR '','') r)))"

lemma next_token_shorter: "next_token r = Some (t, r') \<Longrightarrow> length r' < length r"
  using length_dropWhile_le [of "\<lambda>c. c = CHR '',''" r]
    length_dropWhile_le [of "\<lambda>c. c \<noteq> CHR '',''" "dropWhile (\<lambda>c. c = CHR '','') r"]
  by (cases "dropWhile (\<lambda>c. c = CHR '','') r") (auto simp: next_token_def Let_def split: if_splits)

text \<open>
  The loop of \<open>BackInserterContainerHandler\<close>: the converter may set the flag, and what it
  returns is appended in any case. The next token is asked for before the flag is looked at.
\<close>

function insert_tokens :: "(string \<Rightarrow> bool \<Rightarrow> 'v \<times> bool) \<Rightarrow> (string \<times> string) option \<Rightarrow> bool \<Rightarrow> 'v list \<Rightarrow> bool \<times> 'v list" where
  "insert_tokens conv tok rc container =
     (case tok of
        None \<Rightarrow> (rc, container)
      | Some (token, rest) \<Rightarrow>
        if rc then (case conv token rc of (v, rc') \<Rightarrow> insert_tokens conv (next_token rest) rc' (container @ [v]))
        else (rc, container))"
  by pat_completeness auto
termination
  by (relation "measure (\<lambda>(conv, tok, rc, c). case tok of None \<Rightarrow> 0 | Some (t, r) \<Rightarrow> Suc (length r))")
    (auto dest: next_token_shorter split: option.split)

declare insert_tokens.simps [simp del]

definition back_insert :: "(string \<Rightarrow> bool \<Rightarrow> 'v \<times> bool) \<Rightarrow> string \<Rightarrow> 'v list \<Rightarrow> bool \<times> 'v list" where
  "back_insert conv val container = insert_tokens conv (next_token val) True container"

end
