(* ===== verification/IniValuesCorrect.thy ===== *)
theory IniValuesCorrect
  imports IniValues IniFileCorrect
begin

text \<open>
  What the converters and the line reader of \<^verbatim>\<open>detail/inifile.h\<close> guarantee.
\<close>

section \<open>Numbers\<close>

fun digits_of :: "nat \<Rightarrow> string" where
  "digits_of n = (if n < 10 then [char_of (n + 48)] else digits_of (n div 10) @ [char_of (n mod 10 + 48)])"

declare digits_of.simps [simp del]

definition decimal :: "int \<Rightarrow> string" where
  "decimal i = (if i < 0 then CHR ''-'' # digits_of (nat (- i)) else digits_of (nat i))"

lemma digit_code: "d < 10 \<Longrightarrow> char_code (char_of (d + 48)) = d + 48"
  by (simp add: char_code_def take_bit_eq_mod)

lemma digit_of_digit: "d < 10 \<Longrightarrow> digit_of 10 (char_of (d + 48)) = Some d"
  by (simp add: digit_of_def digit_code)

lemma digits_digits: "c \<in> set (digits_of n) \<Longrightarrow> digit_of 10 c \<noteq> None"
  by (induction n rule: digits_of.induct) (subst (asm) (2) digits_of.simps, auto simp: digit_of_digit split: if_splits)

lemma digits_first: "\<exists>d<10::nat. digits_of n \<noteq> [] \<and> hd (digits_of n) = char_of (d + 48) \<and> (d = 0 \<longrightarrow> n = 0)"
proof (induction n rule: digits_of.induct)
  case (1 n)
  show ?case
  proof (cases "n < 10")
    case True
    then show ?thesis by (subst (1 2) digits_of.simps) auto
  next
    case False
    with 1 obtain d :: nat where "d < 10" "digits_of (n div 10) \<noteq> []" "hd (digits_of (n div 10)) = char_of (d + 48)"
      "d = 0 \<longrightarrow> n div 10 = 0" by auto
    with False show ?thesis by (subst (1 2) digits_of.simps) (auto simp: div_eq_0_iff)
  qed
qed

lemma number_of_digits: "number_of 10 (digits_of n) = int n"
proof (induction n rule: digits_of.induct)
  case (1 n)
  have "int (n div 10) * 10 + int (n mod 10) = int n"
    by (simp add: zdiv_int zmod_int)
  with 1 show ?case
    by (subst digits_of.simps) (auto simp: number_of_def digit_of_digit)
qed

lemma digits_zero: "digits_of 0 = ''0''"
  by (subst digits_of.simps) code_simp

lemma first_digit_class:
  assumes "(d :: nat) < 10"
  shows "\<not> is_space (char_of (d + 48 :: nat))" "char_of (d + 48 :: nat) \<noteq> CHR ''-''" "char_of (d + 48 :: nat) \<noteq> CHR ''+''"
    "char_of (d + 48 :: nat) = CHR ''0'' \<longleftrightarrow> d = 0"
proof -
  show "\<not> is_space (char_of (d + 48 :: nat))" using assms by (simp add: is_space_def digit_code)
  have "char_of (d + 48) = c \<longleftrightarrow> d + 48 = char_code c" for c
    using digit_code [OF assms] by (metis char_code_def char_of_char)
  then show "char_of (d + 48 :: nat) \<noteq> CHR ''-''" "char_of (d + 48 :: nat) \<noteq> CHR ''+''"
    "char_of (d + 48 :: nat) = CHR ''0'' \<longleftrightarrow> d = 0"
    by (simp_all add: char_code_def)
qed

lemma strtoll_decimal: "strtoll 10 (decimal i) = (max int64_min (min int64_max i), [])"
proof -
  let ?n = "nat \<bar>i\<bar>"
  obtain d :: nat where d: "d < 10" "digits_of ?n \<noteq> []" "hd (digits_of ?n) = char_of (d + 48)"
    using digits_first [of ?n] by blast
  note fd = first_digit_class [OF d(1)]
  have all: "takeWhile (\<lambda>c. \<exists>y. digit_of 10 c = Some y) (digits_of ?n) = digits_of ?n"
    by (subst takeWhile_eq_all_conv) (use digits_digits [of _ ?n] in auto)
  have skip: "dropWhile is_space (digits_of ?n) = digits_of ?n"
    using d fd by (cases "digits_of ?n") auto
  have minus: "\<not> is_space (CHR ''-'')" by (simp add: is_space_def)
  show ?thesis
  proof (cases "i < 0")
    case True
    then have "decimal i = CHR ''-'' # digits_of ?n" by (simp add: decimal_def)
    with True d minus all [unfolded abs_of_neg [OF True]] show ?thesis
      by (simp add: strtoll_def Let_def number_of_digits del: takeWhile_eq_all_conv)
  next
    case False
    then have "decimal i = digits_of ?n" by (simp add: decimal_def)
    with False d all skip fd show ?thesis
      by (simp add: strtoll_def Let_def number_of_digits del: takeWhile_eq_all_conv)
  qed
qed

lemma convert_decimal: "convert (decimal i) = (max int64_min (min int64_max i), True)"
proof -
  obtain d :: nat where d: "d < 10" "digits_of (nat i) \<noteq> []" "hd (digits_of (nat i)) = char_of (d + 48)" "d = 0 \<longrightarrow> nat i = 0"
    using digits_first [of "nat i"] by blast
  have "\<not> (decimal i \<noteq> [] \<and> hd (decimal i) = CHR ''0'' \<and> tl (decimal i) \<noteq> [])"
    using d first_digit_class(4) [OF d(1)] by (auto simp: decimal_def digits_zero)
  then show ?thesis unfolding convert_def Let_def by (simp only: if_False strtoll_decimal prod.case simp_thms)
qed

lemma limits_in_int64: "limits T = (lo, hi) \<Longrightarrow> int64_min < lo \<and> hi < int64_max \<and> lo \<le> hi"
  by (cases T) (auto simp: int64_min_def int64_max_def)

text \<open>
  An option of an integral type takes a decimal number exactly when the type can hold it,
  also where the number does not fit into 64 bits; a number that is refused has nevertheless
  been stored, saturated to 64 bits and cut to the type.
\<close>
theorem integer_option_set:
  "int_option_eval T (decimal i) old =
     (if fst (limits T) \<le> i \<and> i \<le> snd (limits T) then (True, i)
      else (False, wrap_to T (max int64_min (min int64_max i))))"
proof -
  obtain lo hi where l: "limits T = (lo, hi)" by fastforce
  with limits_in_int64 [OF l] show ?thesis
    by (auto simp: int_option_eval_def action_eval_def set_option_def int_converter_def convert_decimal wrap_to_def
        max_def min_def)
qed

text \<open>Other bases; what the code accepts although it is no number, and the reverse.\<close>

lemma integer_option_bases:
  "int_converter OptInt ''0x1F'' = (31, True)" "int_converter OptInt ''017'' = (15, True)"
  "snd (int_converter OptInt ''0X1F'') = False" "snd (int_converter OptInt ''08'') = False"
  "snd (int_converter OptInt ''-0x1F'') = False" "int_converter OptInt '''' = (0, True)"
  by (simp_all add: int_converter_def convert_def strtoll_def number_of_def digit_of_def wrap_to_def
      char_code_def is_space_def int64_min_def int64_max_def)

section \<open>Lines\<close>

lemma take_line_newline:
  "CHR 0x0A \<notin> set l \<Longrightarrow> length l < n \<Longrightarrow> take_line n (l @ CHR 0x0A # rest) = l @ [CHR 0x0A]"
proof (induction l arbitrary: n)
  case Nil
  then show ?case by (cases n) auto
next
  case (Cons c l)
  then show ?case by (cases n) auto
qed

lemma LF_NUL [simp]: "CHR 0x0A \<noteq> NUL" "CHR 0x0D \<noteq> NUL"
  by (simp_all add: NUL_def)

lemma fgets_newline:
  assumes "CHR 0x0A \<notin> set l" "length l + 1 < n"
  shows "fgets buf n (l @ CHR 0x0A # rest) s =
    (Some ((l @ [CHR 0x0A]) @ NUL # drop (length l + 2) buf), s\<lparr>s_file := Some rest\<rparr>)"
  using take_line_newline [OF assms(1), of "n - 1" rest] assms(2) by (simp add: fgets_def)

text \<open>What the two cuts leave of a line that ends in a newline.\<close>

definition without_cr :: "string \<Rightarrow> string" where
  "without_cr l = (if l \<noteq> [] \<and> last l = CHR 0x0D then butlast l else l)"

lemma chop_newline:
  assumes "nul_free l"
  shows "c_str (fst (chop (CHR 0x0D) (chop (CHR 0x0A) ((l @ [CHR 0x0A]) @ NUL # t, Suc (length l))))) = without_cr l"
proof -
  have lf: "chop (CHR 0x0A) ((l @ [CHR 0x0A]) @ NUL # t, Suc (length l)) = (l @ NUL # NUL # t, length l)"
    by (simp add: chop_def nth_append)
  show ?thesis
  proof (cases l rule: rev_cases)
    case Nil
    with lf show ?thesis by (simp add: chop_def without_cr_def c_str_append_NUL [of "[]", simplified])
  next
    case (snoc k c)
    with assms have k: "nul_free k" "nul_free (k @ [c])" by simp_all
    have "chop (CHR 0x0D) (l @ NUL # NUL # t, length l)
      = (if c = CHR 0x0D then (k @ NUL # NUL # NUL # t, length k) else (l @ NUL # NUL # t, length l))"
      using snoc by (simp add: chop_def nth_append)
    with lf snoc k show ?thesis
      using c_str_append_NUL [OF k(2), of "NUL # t"] by (simp add: without_cr_def c_str_append_NUL)
  qed
qed

lemma line_strlen: "nul_free l \<Longrightarrow> c_str ((l @ [CHR 0x0A]) @ NUL # t) = l @ [CHR 0x0A]"
  by (rule c_str_append_NUL) simp

text \<open>
  A header line that is shorter than the buffer by at least three characters is handed to
  the program's parser without its line end, in both conventions, the rest of the file stays
  unread and the line is counted.
\<close>
theorem header_line_read:
  assumes "s_file s = Some (l @ CHR 0x0A # rest)" "CHR 0x0A \<notin> set l" "nul_free l" "length l + 2 < length buf"
  shows "headerline_eval buf parser s n =
    (parser (without_cr l), s\<lparr>s_file := Some rest, s_last := length l + 1\<rparr>, n + 1)"
proof -
  have "fgets buf (length buf) (l @ CHR 0x0A # rest) s
      = (Some ((l @ [CHR 0x0A]) @ NUL # drop (length l + 2) buf), s\<lparr>s_file := Some rest\<rparr>)"
    using assms by (intro fgets_newline) auto
  moreover have short: "Suc (length l) \<noteq> length buf - Suc 0" using assms(4) by linarith
  ultimately have "getline buf s = (fst (chop (CHR 0x0D) (chop (CHR 0x0A)
      ((l @ [CHR 0x0A]) @ NUL # drop (length l + 2) buf, Suc (length l)))), s\<lparr>s_file := Some rest, s_last := length l + 1\<rparr>)"
    using assms(1) line_strlen [OF assms(3)] short by (simp add: getline_def)
  then show ?thesis
    using assms(4) chop_newline [OF assms(3)] by (simp add: headerline_eval_def less_diff_conv)
qed

theorem header_line_read_witness:
  "headerline_eval (replicate 128 (CHR ''?'')) (\<lambda>h. h = ''#ini'')
     \<lparr>s_file = Some (''#ini'' @ [CHR 0x0D] @ CHR 0x0A # ''[a]''), s_broken = False, s_eof = False, s_err = False, s_last = 0\<rparr> 0
   = (True, \<lparr>s_file = Some ''[a]'', s_broken = False, s_eof = False, s_err = False, s_last = 6\<rparr>, 1)"
  using header_line_read [of "\<lparr>s_file = Some (''#ini'' @ [CHR 0x0D] @ CHR 0x0A # ''[a]''), s_broken = False, s_eof = False, s_err = False, s_last = 0\<rparr>"
      "''#ini'' @ [CHR 0x0D]" "''[a]''" "replicate 128 (CHR ''?'')" "\<lambda>h. h = ''#ini''" 0]
  by (simp add: without_cr_def NUL_def)

text \<open>
  One character more and the newline stays in the buffer, while \<open>gcount\<close> still tells of the
  line before.
\<close>

lemma full_line_stale:
  assumes "s_file s = Some (l @ CHR 0x0A # rest)" "CHR 0x0A \<notin> set l" "nul_free l" "length l + 2 = length buf"
  shows "c_str (fst (getline buf s)) = l @ [CHR 0x0A] \<and> s_last (snd (getline buf s)) = s_last s"
proof -
  have "fgets buf (length buf) (l @ CHR 0x0A # rest) s
      = (Some ((l @ [CHR 0x0A]) @ NUL # drop (length l + 2) buf), s\<lparr>s_file := Some rest\<rparr>)"
    using assms by (intro fgets_newline) auto
  moreover have full: "length buf - Suc 0 = Suc (length l)" using assms(4) by linarith
  ultimately have "getline buf s = ((l @ [CHR 0x0A]) @ NUL # drop (length l + 2) buf, s\<lparr>s_file := Some rest\<rparr>)"
    using assms(1) line_strlen [OF assms(3), of "drop (length l + 2) buf"] full by (simp add: getline_def nth_append)
  then show ?thesis using line_strlen [OF assms(3)] by simp
qed

section \<open>Lists of values\<close>

text \<open>The parts of a list between commas.\<close>

fun comma_fields :: "string \<Rightarrow> string list" where
  "comma_fields [] = [[]]"
| "comma_fields (c # s) = (if c = CHR '','' then [] # comma_fields s else (c # hd (comma_fields s)) # tl (comma_fields s))"

lemma fields_ne [simp]: "comma_fields s \<noteq> []"
  by (cases s) auto

lemma fields_span:
  "comma_fields s = takeWhile (\<lambda>c. c \<noteq> CHR '','') s #
     (case dropWhile (\<lambda>c. c \<noteq> CHR '','') s of [] \<Rightarrow> [] | c # r \<Rightarrow> comma_fields r)"
  by (induction s) auto

lemma fields_skip:
  "filter (\<lambda>f. f \<noteq> []) (comma_fields (dropWhile (\<lambda>c. c = CHR '','') s)) = filter (\<lambda>f. f \<noteq> []) (comma_fields s)"
  by (induction s) auto

lemma next_token_None:
  assumes "next_token s = None"
  shows "filter (\<lambda>f. f \<noteq> []) (comma_fields s) = []"
proof -
  have "dropWhile (\<lambda>c. c = CHR '','') s = []"
    using assms by (auto simp: next_token_def Let_def simp del: dropWhile_eq_Nil_conv split: if_splits)
  then have "filter (\<lambda>f. f \<noteq> []) (comma_fields (dropWhile (\<lambda>c. c = CHR '','') s)) = []"
    by (simp only: comma_fields.simps filter.simps simp_thms if_False)
  then show ?thesis by (rule trans [OF fields_skip [symmetric]])
qed

lemma next_token_Some:
  assumes "next_token s = Some (t, r)"
  shows "filter (\<lambda>f. f \<noteq> []) (comma_fields s) = t # filter (\<lambda>f. f \<noteq> []) (comma_fields r)"
proof -
  let ?u = "dropWhile (\<lambda>c. c = CHR '','') s"
  from assms have u: "?u \<noteq> []" "t = takeWhile (\<lambda>c. c \<noteq> CHR '','') ?u" "r = drop 1 (dropWhile (\<lambda>c. c \<noteq> CHR '','') ?u)"
    by (auto simp: next_token_def Let_def split: if_splits)
  then have t: "t \<noteq> []" using hd_dropWhile [of "\<lambda>c. c = CHR '',''" s] by (cases ?u) auto
  have "filter (\<lambda>f. f \<noteq> []) (comma_fields ?u) = t # filter (\<lambda>f. f \<noteq> []) (comma_fields r)"
  proof (cases "dropWhile (\<lambda>c. c \<noteq> CHR '','') ?u")
    case Nil
    with t u(3) show ?thesis
      by (simp only: fields_span [of ?u] u(2) [symmetric] list.case filter.simps comma_fields.simps drop_Nil simp_thms if_True if_False)
  next
    case (Cons c v)
    with t u(3) show ?thesis
      by (simp only: fields_span [of ?u] u(2) [symmetric] list.case filter.simps One_nat_def drop_Suc_Cons drop_0 simp_thms if_True)
  qed
  then show ?thesis by (rule trans [OF fields_skip [symmetric]])
qed

text \<open>What \<open>push_back\<close> was called with: all non-empty fields up to the first that is refused.\<close>

fun convert_until :: "(string \<Rightarrow> 'v \<times> bool) \<Rightarrow> string list \<Rightarrow> bool \<times> 'v list" where
  "convert_until conv [] = (True, [])"
| "convert_until conv (f # fs) =
     (case conv f of (v, ok) \<Rightarrow> if ok then apsnd ((#) v) (convert_until conv fs) else (False, [v]))"

text \<open>
  A list option gets the non-empty fields between the commas, each converted, in order and
  behind what the container holds; a field that cannot be converted ends the list and makes the
  handler fail, but its value is in the container.
\<close>
theorem list_option_read:
  "back_insert (\<lambda>s ok. conv s) s container =
     (case convert_until conv (filter (\<lambda>f. f \<noteq> []) (comma_fields s)) of (ok, vs) \<Rightarrow> (ok, container @ vs))"
proof -
  let ?conv = "\<lambda>s ok. conv s" and ?spec = "\<lambda>s. convert_until conv (filter (\<lambda>f. f \<noteq> []) (comma_fields s))"
  have "insert_tokens ?conv (next_token s) True container = (case ?spec s of (ok, vs) \<Rightarrow> (ok, container @ vs))"
  proof (induction "length s" arbitrary: s container rule: less_induct)
    case less
    show ?case
    proof (cases "next_token s")
      case None
      then show ?thesis by (subst insert_tokens.simps) (simp add: next_token_None)
    next
      case (Some p)
      obtain t r where p: "p = (t, r)" by fastforce
      obtain v ok where v: "conv t = (v, ok)" by fastforce
      have IH: "insert_tokens ?conv (next_token r) True (container @ [v])
          = (case ?spec r of (ok, vs) \<Rightarrow> (ok, (container @ [v]) @ vs))"
        using Some p by (intro less next_token_shorter) auto
      have stop: "insert_tokens ?conv tok False c = (False, c)" for tok and c :: "'a list"
        by (subst insert_tokens.simps) (auto split: option.split)
      have step: "insert_tokens ?conv (next_token s) True container = insert_tokens ?conv (next_token r) ok (container @ [v])"
        using Some p v by (subst insert_tokens.simps) simp
      have spec: "?spec s = (if ok then apsnd ((#) v) (?spec r) else (False, [v]))"
        using next_token_Some [OF Some [unfolded p]] v by simp
      show ?thesis
        using IH by (cases ok; cases "?spec r") (simp_all only: step spec stop if_True if_False apsnd_conv prod.case append_assoc append_Cons append_Nil)
    qed
  qed
  then show ?thesis by (simp add: back_insert_def)
qed

end
