(* ===== verification/IniSections.thy ===== *)
theory IniSections
  imports IniFileCorrect IniValuesCorrect
begin

text \<open>
  The handlers and sections of \<^verbatim>\<open>detail/inifile.h\<close>: chains of keys with their handlers
  (\<open>KeyHandlerComposite\<close>, \<open>HandlerComposite\<close>), sections that parse lines with them
  (\<open>ParserChainSection\<close>, \<open>FullHandledSection\<close>) and files made of sections (\<open>SectionatedIniFile\<close>).

  The classes \<open>Key\<close>, \<open>Section\<close>, \<open>File\<close> and \<open>tribool\<close> are not part of the repository. The record
  \<open>ini_api\<close> holds what the code calls on them, the locale \<open>ini_env\<close> what it relies on.
\<close>

section \<open>Keys, sections and files of the program\<close>

text \<open>
  \<open>key_call\<close> is \<open>Key::operator()\<close>, which may change the key; \<open>tri_known\<close> is \<open>rc || !rc\<close>. The base
  class \<open>Section\<close> evaluates lines of a section that has no handlers.
\<close>

record ('k, 'tri, 'f) ini_api =
  key_call :: "'k \<Rightarrow> string \<Rightarrow> bool \<times> 'k"
  key_name :: "'k \<Rightarrow> string"
  key_ok :: "'k \<Rightarrow> bool"
  tri_of_bool :: "bool \<Rightarrow> 'tri"
  tri_unknown :: 'tri
  tri_known :: "'tri \<Rightarrow> bool"
  base_eval :: "string \<Rightarrow> string \<Rightarrow> 'tri"
  base_ok :: "string \<Rightarrow> string \<times> string \<Rightarrow> bool \<times> (string \<times> string)"
  file_find :: "'f \<Rightarrow> string \<Rightarrow> nat option"
  file_ok :: "'f \<Rightarrow> string \<times> string \<Rightarrow> bool \<times> (string \<times> string)"

locale ini_env =
  fixes I :: "('k, 'tri, 'f) ini_api"
  assumes key_matches: "fst (key_call I k s) \<longleftrightarrow> s = key_name I k"
    and key_kept: "key_name I (snd (key_call I k s)) = key_name I k"
    and known_bool: "tri_known I (tri_of_bool I b)"
    and unknown: "\<not> tri_known I (tri_unknown I)"

section \<open>Handlers\<close>

text \<open>
  A handler is what \<open>ActionCaller\<close> makes of an action (\<open>action_eval\<close>, \<open>action_eval_bool\<close>): it gets
  the text of the value, changes the state of the program and says whether it took the value.
\<close>

type_synonym 's handler = "string \<Rightarrow> 's \<Rightarrow> bool \<times> 's"

definition KeyHandlerComposite_call ::
  "('k, 'tri, 'f) ini_api \<Rightarrow> 'k \<Rightarrow> 's handler \<Rightarrow> string \<Rightarrow> string \<Rightarrow> 's \<Rightarrow> 'tri \<times> 'k \<times> 's" where
  "KeyHandlerComposite_call I k h key val s =
     (case key_call I k key of (m, k) \<Rightarrow>
        if m then (case h val s of (b, s) \<Rightarrow> (tri_of_bool I b, k, s)) else (tri_unknown I, k, s))"

definition KeyHandlerComposite_ok :: "('k, 'tri, 'f) ini_api \<Rightarrow> 'k \<Rightarrow> string \<times> string \<Rightarrow> bool \<times> (string \<times> string)" where
  "KeyHandlerComposite_ok I k p = (key_ok I k, (fst p, key_name I k))"

datatype ('k, 's) composite =
    KeyHandler 'k "'s handler"
  | HandlerComposite 'k "'s handler" "('k, 's) composite"

fun contains :: "('k, 'tri, 'f) ini_api \<Rightarrow> ('k, 's) composite \<Rightarrow> string \<Rightarrow> bool" where
  "contains I (KeyHandler k h) key \<longleftrightarrow> key_name I k = key"
| "contains I (HandlerComposite k h rhs) key \<longleftrightarrow> key_name I k = key \<or> contains I rhs key"

text \<open>What the constructor of a composite asserts, for all of its parts.\<close>

fun no_duplicates :: "('k, 'tri, 'f) ini_api \<Rightarrow> ('k, 's) composite \<Rightarrow> bool" where
  "no_duplicates I (KeyHandler k h) \<longleftrightarrow> True"
| "no_duplicates I (HandlerComposite k h rhs) \<longleftrightarrow> \<not> contains I rhs (key_name I k) \<and> no_duplicates I rhs"

fun composite_call ::
  "('k, 'tri, 'f) ini_api \<Rightarrow> ('k, 's) composite \<Rightarrow> string \<Rightarrow> string \<Rightarrow> 's \<Rightarrow> 'tri \<times> ('k, 's) composite \<times> 's" where
  "composite_call I (KeyHandler k h) key val s =
     (case KeyHandlerComposite_call I k h key val s of (rc, k, s) \<Rightarrow> (rc, KeyHandler k h, s))"
| "composite_call I (HandlerComposite k h rhs) key val s =
     (case KeyHandlerComposite_call I k h key val s of (rc, k, s) \<Rightarrow>
        if tri_known I rc then (rc, HandlerComposite k h rhs, s)
        else (case composite_call I rhs key val s of (rc, rhs, s) \<Rightarrow> (rc, HandlerComposite k h rhs, s)))"

fun composite_ok :: "('k, 'tri, 'f) ini_api \<Rightarrow> ('k, 's) composite \<Rightarrow> string \<times> string \<Rightarrow> bool \<times> (string \<times> string)" where
  "composite_ok I (KeyHandler k h) p = KeyHandlerComposite_ok I k p"
| "composite_ok I (HandlerComposite k h rhs) p =
     (case KeyHandlerComposite_ok I k p of (b, p) \<Rightarrow> if b then composite_ok I rhs p else (False, p))"

section \<open>Sections\<close>

text \<open>A section with its name.\<close>

datatype ('k, 's) ini_section =
    ParserChainSection string "('k, 's) composite"
  | FullHandledSection string "'s handler"
  | NoopDefaultSection string

fun section_title :: "('k, 's) ini_section \<Rightarrow> string" where
  "section_title (ParserChainSection n c) = n"
| "section_title (FullHandledSection n h) = n"
| "section_title (NoopDefaultSection n) = n"

text \<open>\<open>eval(line)\<close>: \<open>line\<close> is the array with its terminating NUL.\<close>

definition ParserChainSection_eval ::
  "('k, 'tri, 'f) ini_api \<Rightarrow> ('k, 's) composite \<Rightarrow> string \<Rightarrow> 's \<Rightarrow> ('tri \<times> ('k, 's) composite \<times> 's) res" where
  "ParserChainSection_eval I c line s =
     rbind (section_eval line)
       (\<lambda>r. case r of Some (key, val) \<Rightarrow> ret (composite_call I c key val s) | None \<Rightarrow> ret (tri_of_bool I False, c, s))"

definition FullHandledSection_eval :: "('k, 'tri, 'f) ini_api \<Rightarrow> 's handler \<Rightarrow> string \<Rightarrow> 's \<Rightarrow> ('tri \<times> 's) res" where
  "FullHandledSection_eval I h line s =
     rbind (skipComments line) (\<lambda>l. case h (c_str l) s of (b, s) \<Rightarrow> ret (tri_of_bool I b, s))"

fun section_line ::
  "('k, 'tri, 'f) ini_api \<Rightarrow> ('k, 's) ini_section \<Rightarrow> string \<Rightarrow> 's \<Rightarrow> ('tri \<times> ('k, 's) ini_section \<times> 's) res" where
  "section_line I (ParserChainSection n c) line s =
     rbind (ParserChainSection_eval I c line s) (\<lambda>(rc, c, s). ret (rc, ParserChainSection n c, s))"
| "section_line I (FullHandledSection n h) line s =
     rbind (FullHandledSection_eval I h line s) (\<lambda>(rc, s). ret (rc, FullHandledSection n h, s))"
| "section_line I (NoopDefaultSection n) line s = ret (base_eval I n (c_str line), NoopDefaultSection n, s)"

fun section_ok :: "('k, 'tri, 'f) ini_api \<Rightarrow> ('k, 's) ini_section \<Rightarrow> string \<times> string \<Rightarrow> bool \<times> (string \<times> string)" where
  "section_ok I (ParserChainSection n c) p = composite_ok I c (n, snd p)"
| "section_ok I (FullHandledSection n h) p = base_ok I n p"
| "section_ok I (NoopDefaultSection n) p = base_ok I n p"

section \<open>Files\<close>

text \<open>
  \<open>SectionatedIniFile\<close>: a section and what is included, in the end a \<open>File\<close>. A section is pointed
  to by its position, counted from the outermost one.
\<close>

datatype ('k, 's, 'f) ini_file =
    IniSection "('k, 's) ini_section" "('k, 's, 'f) ini_file"
  | IniFile 'f

fun ini_find :: "('k, 'tri, 'f) ini_api \<Rightarrow> ('k, 's, 'f) ini_file \<Rightarrow> string \<Rightarrow> nat option" where
  "ini_find I (IniSection sec included) name =
     (if section_title sec = name then Some 0 else map_option Suc (ini_find I included name))"
| "ini_find I (IniFile f) name = file_find I f name"

text \<open>\<open>defaultSection\<close>, which a \<open>File\<close> alone does not have: the choice is made by the type.\<close>

fun default_section :: "('k, 's, 'f) ini_file \<Rightarrow> nat option" where
  "default_section (IniSection sec (IniFile f)) = Some 0"
| "default_section (IniSection sec (IniSection sec' included)) =
     map_option Suc (default_section (IniSection sec' included))"
| "default_section (IniFile f) = None"

fun ini_ok :: "('k, 'tri, 'f) ini_api \<Rightarrow> ('k, 's, 'f) ini_file \<Rightarrow> string \<times> string \<Rightarrow> bool \<times> (string \<times> string)" where
  "ini_ok I (IniSection sec included) p =
     (case section_ok I sec p of (b, p) \<Rightarrow> if b then ini_ok I included p else (False, p))"
| "ini_ok I (IniFile f) p = file_ok I f p"

text \<open>What the constructors assert.\<close>

fun distinct_sections :: "('k, 'tri, 'f) ini_api \<Rightarrow> ('k, 's, 'f) ini_file \<Rightarrow> bool" where
  "distinct_sections I (IniSection sec included) \<longleftrightarrow>
     ini_find I included (section_title sec) = None \<and> distinct_sections I included"
| "distinct_sections I (IniFile f) \<longleftrightarrow> True"

section \<open>Keys of a program\<close>

text \<open>A key with a flag that it must be there and one that it was seen; three values as options.\<close>

record demo_key =
  dk_name :: string
  dk_mandatory :: bool
  dk_seen :: bool

definition demo_api :: "(demo_key, bool option, unit) ini_api" where
  "demo_api = \<lparr>
     key_call = (\<lambda>k s. (s = dk_name k, if s = dk_name k then k\<lparr>dk_seen := True\<rparr> else k)),
     key_name = dk_name, key_ok = (\<lambda>k. dk_mandatory k \<longrightarrow> dk_seen k),
     tri_of_bool = Some, tri_unknown = None, tri_known = (\<lambda>t. t \<noteq> None),
     base_eval = (\<lambda>_ _. None), base_ok = (\<lambda>_ p. (True, p)), file_find = (\<lambda>_ _. None), file_ok = (\<lambda>_ p. (True, p)) \<rparr>"

interpretation demo: ini_env demo_api
  by unfold_locales (simp_all add: demo_api_def)

section \<open>Composites are maps from keys to handlers\<close>

fun handlers :: "('k, 'tri, 'f) ini_api \<Rightarrow> ('k, 's) composite \<Rightarrow> (string \<times> 's handler) list" where
  "handlers I (KeyHandler k h) = [(key_name I k, h)]"
| "handlers I (HandlerComposite k h rhs) = (key_name I k, h) # handlers I rhs"

lemma contains_handlers: "contains I c key \<longleftrightarrow> key \<in> fst ` set (handlers I c)"
  by (induction c) auto

lemma no_duplicates_distinct: "no_duplicates I c \<longleftrightarrow> distinct (map fst (handlers I c))"
  by (induction c) (auto simp: contains_handlers)

text \<open>The key that matches learns that it was seen; the keys in front of it are asked too.\<close>

fun after_key :: "('k, 'tri, 'f) ini_api \<Rightarrow> string \<Rightarrow> ('k, 's) composite \<Rightarrow> ('k, 's) composite" where
  "after_key I key (KeyHandler k h) = KeyHandler (snd (key_call I k key)) h"
| "after_key I key (HandlerComposite k h rhs) =
     HandlerComposite (snd (key_call I k key)) h (if key_name I k = key then rhs else after_key I key rhs)"

definition dispatch_key ::
  "('k, 'tri, 'f) ini_api \<Rightarrow> ('k, 's) composite \<Rightarrow> string \<Rightarrow> string \<Rightarrow> 's \<Rightarrow> 'tri \<times> ('k, 's) composite \<times> 's" where
  "dispatch_key I c key val s =
     (case map_of (handlers I c) key of
        None \<Rightarrow> (tri_unknown I, after_key I key c, s)
      | Some h \<Rightarrow> (case h val s of (b, s) \<Rightarrow> (tri_of_bool I b, after_key I key c, s)))"

lemma key_call_eq: "ini_env I \<Longrightarrow> key_call I k s = (s = key_name I k, snd (key_call I k s))"
  by (simp add: prod_eq_iff ini_env.key_matches)

lemma composite_call_dispatch:
  assumes "ini_env I"
  shows "composite_call I c key val s = dispatch_key I c key val s"
proof (induction c)
  case (KeyHandler k h)
  show ?case using key_call_eq [OF assms, of k key]
    by (auto simp: KeyHandlerComposite_call_def dispatch_key_def split: prod.splits)
next
  case (HandlerComposite k h rhs)
  show ?case
  proof (cases "key = key_name I k")
    case True
    with key_call_eq [OF assms, of k key] show ?thesis
      by (auto simp: KeyHandlerComposite_call_def dispatch_key_def ini_env.known_bool [OF assms] split: prod.splits)
  next
    case False
    with key_call_eq [OF assms, of k key] HandlerComposite show ?thesis
      by (auto simp: KeyHandlerComposite_call_def dispatch_key_def ini_env.unknown [OF assms] split: prod.splits option.splits)
  qed
qed

lemma after_key_handlers [simp]: "ini_env I \<Longrightarrow> handlers I (after_key I key c) = handlers I c"
  by (induction c) (auto simp: ini_env.key_kept)

text \<open>Under the assertion of the constructors every handler can be reached.\<close>

lemma handler_reached: "no_duplicates I c \<Longrightarrow> (key, h) \<in> set (handlers I c) \<Longrightarrow> map_of (handlers I c) key = Some h"
  by (simp add: no_duplicates_distinct)

text \<open>
  Lines of a section. For every line of ASCII characters the parser chain of a section does what
  the reference parser and a map from keys to handlers say: a line that is no definition changes
  nothing and gives false; a definition of a key of the section calls the handler of that key once,
  with the value, and gives its answer; any other key changes nothing and gives the third truth
  value. The keys of the section stay what they were, whatever lines follow.
\<close>

theorem option_lines:
  assumes "ini_env I" and "plain line"
  shows "ParserChainSection_eval I c (line @ NUL # t) s =
      (case key_value_spec line of
         None \<Rightarrow> ret (tri_of_bool I False, c, s)
       | Some (key, val) \<Rightarrow>
           if key = [] \<or> val = [] then throw UndefinedBehaviour else ret (dispatch_key I c key val s)) \<and>
    handlers I (after_key I key c) = handlers I c"
  using assms by (simp add: ParserChainSection_eval_def kv_line composite_call_dispatch split: option.split)

text \<open>Two options of a program, a mandatory percentage and a name.\<close>

record demo_options =
  opt_rate :: int
  opt_name :: string

definition rate_handler :: "demo_options handler" where
  "rate_handler val s = (case int_option_eval OptUChar val (opt_rate s) of (b, n) \<Rightarrow> (b, s\<lparr>opt_rate := n\<rparr>))"

definition name_handler :: "demo_options handler" where
  "name_handler = action_eval (\<lambda>val success. (val, success)) (\<lambda>v s. s\<lparr>opt_name := v\<rparr>)"

definition demo_section :: "(demo_key, demo_options) composite" where
  "demo_section =
     HandlerComposite \<lparr>dk_name = ''rate'', dk_mandatory = True, dk_seen = False\<rparr> rate_handler
       (KeyHandler \<lparr>dk_name = ''name'', dk_mandatory = False, dk_seen = False\<rparr> name_handler)"

theorem option_lines_witness:
  "ParserChainSection_eval demo_api demo_section (''rate = 50 # percent'' @ [NUL]) \<lparr>opt_rate = 1, opt_name = ''x''\<rparr> =
     ret (Some True, after_key demo_api ''rate'' demo_section, \<lparr>opt_rate = 50, opt_name = ''x''\<rparr>)"
  using option_lines [OF demo.ini_env_axioms, of "''rate = 50 # percent''" demo_section "[]" "\<lparr>opt_rate = 1, opt_name = ''x''\<rparr>"]
  by (simp add: plain_code key_value_spec_def name_part_def after_name_def value_spec_def line_end_def char_code_def isblank_def
      isgraph_def name_char_def isalnum_def isdigit_def dispatch_key_def demo_section_def rate_handler_def demo_api_def
      int_option_eval_def action_eval_def set_option_def int_converter_def convert_def strtoll_def number_of_def digit_of_def
      wrap_to_def is_space_def int64_min_def int64_max_def)

section \<open>What is missing in a file\<close>

fun composite_keys :: "('k, 's) composite \<Rightarrow> 'k list" where
  "composite_keys (KeyHandler k h) = [k]"
| "composite_keys (HandlerComposite k h rhs) = k # composite_keys rhs"

lemma composite_keys_nonempty [simp]: "composite_keys c \<noteq> []"
  by (cases c) auto

text \<open>\<open>ok\<close> fails for the first key that is not there, and leaves its name and that of the section.\<close>

theorem section_ok_first_missing:
  "section_ok I (ParserChainSection n c) p =
     (case find (\<lambda>k. \<not> key_ok I k) (composite_keys c) of
        None \<Rightarrow> (True, (n, key_name I (last (composite_keys c))))
      | Some k \<Rightarrow> (False, (n, key_name I k)))"
proof -
  have "composite_ok I c (n, x) =
     (case find (\<lambda>k. \<not> key_ok I k) (composite_keys c) of
        None \<Rightarrow> (True, (n, key_name I (last (composite_keys c))))
      | Some k \<Rightarrow> (False, (n, key_name I k)))" for x
    by (induction c arbitrary: x) (auto simp: KeyHandlerComposite_ok_def split: option.split)
  then show ?thesis by simp
qed

fun file_sections :: "('k, 's, 'f) ini_file \<Rightarrow> ('k, 's) ini_section list" where
  "file_sections (IniSection sec included) = sec # file_sections included"
| "file_sections (IniFile f) = []"

text \<open>
  The asserted distinctness makes every section found by its name; the default section is the
  innermost one.
\<close>

theorem sections_found:
  assumes "distinct_sections I f"
  shows "i < length (file_sections f) \<Longrightarrow> ini_find I f (section_title (file_sections f ! i)) = Some i"
    and "default_section f = (if file_sections f = [] then None else Some (length (file_sections f) - 1))"
proof -
  have found: "ini_find I g (section_title (file_sections g ! j)) \<noteq> None" if "j < length (file_sections g)" for g j
    using that by (induction g arbitrary: j) (auto simp: nth_Cons split: nat.splits)
  show "i < length (file_sections f) \<Longrightarrow> ini_find I f (section_title (file_sections f ! i)) = Some i"
    using assms
  proof (induction f arbitrary: i)
    case (IniSection sec included)
    show ?case
    proof (cases i)
      case (Suc j)
      with IniSection have j: "j < length (file_sections included)" by simp
      with found [OF this] IniSection.prems(2) have "section_title sec \<noteq> section_title (file_sections included ! j)" by auto
      with Suc j IniSection show ?thesis by simp
    qed simp
  qed simp
  show "default_section f = (if file_sections f = [] then None else Some (length (file_sections f) - 1))"
    by (induction f rule: default_section.induct) auto
qed

end
