(* ===== verification/AsioExecutor.thy ===== *)
theory AsioExecutor
  imports PollLoop
begin

text \<open>
  The event loop of a program that uses Boost.Asio (\<^verbatim>\<open>examples/asio/dbusexecutor.cpp\<close>): libdbus'
  watches and timeouts are served by an \<open>io_context\<close>. A descriptor has one Asio object, which the
  watches of that descriptor and the map \<open>devices_\<close> share by \<open>std::shared_ptr\<close>; its use count
  decides who gives the descriptor back without closing it.

  Asio is a parameter: the record \<open>asio_api\<close> holds the functions the code calls, and the locale
  \<open>asio\<close> says what they do to the operations that wait, the completion handlers that are queued
  and the descriptors that were closed.
\<close>

section \<open>Boost.Asio\<close>

text \<open>
  The completion handlers the code passes to Asio, by the object they capture, and the
  \<open>error_code\<close> they are called with.
\<close>

datatype completion = OnReadable nat | OnWritable nat | OnTimeout nat | Wakeup

datatype io_result = Success | Aborted | Failed

record 'io asio_api =
  io_descriptor :: "'io \<Rightarrow> int \<Rightarrow> nat \<times> 'io"
  io_async_read :: "'io \<Rightarrow> nat \<Rightarrow> completion \<Rightarrow> 'io"
  io_async_write :: "'io \<Rightarrow> nat \<Rightarrow> completion \<Rightarrow> 'io"
  io_cancel :: "'io \<Rightarrow> nat \<Rightarrow> 'io"
  io_release :: "'io \<Rightarrow> nat \<Rightarrow> 'io"
  io_destroy :: "'io \<Rightarrow> nat \<Rightarrow> 'io"
  io_timer :: "'io \<Rightarrow> nat \<times> 'io"
  io_expires :: "'io \<Rightarrow> nat \<Rightarrow> int \<Rightarrow> 'io"
  io_timer_wait :: "'io \<Rightarrow> nat \<Rightarrow> completion \<Rightarrow> 'io"
  io_timer_cancel :: "'io \<Rightarrow> nat \<Rightarrow> 'io"
  io_post :: "'io \<Rightarrow> completion \<Rightarrow> 'io"
  io_next :: "'io \<Rightarrow> ((completion \<times> io_result) \<times> 'io) option"

text \<open>
  What is observed of an \<open>io_context\<close>: the descriptor a \<open>stream_descriptor\<close> is assigned to,
  the operations that wait on descriptors and timers, the handlers to be called, and the
  descriptors that were closed.
\<close>

record asio_view =
  dev_fd :: "nat \<Rightarrow> int option"
  dev_ops :: "nat \<Rightarrow> completion list"
  timer_ops :: "nat \<Rightarrow> completion list"
  io_queue :: "(completion \<times> io_result) list"
  closed_fds :: "int list"

definition v_async :: "nat \<Rightarrow> completion \<Rightarrow> asio_view \<Rightarrow> asio_view" where
  "v_async d h v = v\<lparr>dev_ops := (dev_ops v)(d := dev_ops v d @ [h])\<rparr>"

definition v_cancel :: "nat \<Rightarrow> asio_view \<Rightarrow> asio_view" where
  "v_cancel d v = v\<lparr>dev_ops := (dev_ops v)(d := []),
     io_queue := io_queue v @ map (\<lambda>h. (h, Aborted)) (dev_ops v d)\<rparr>"

definition v_release :: "nat \<Rightarrow> asio_view \<Rightarrow> asio_view" where
  "v_release d v = (v_cancel d v)\<lparr>dev_fd := (dev_fd v)(d := None)\<rparr>"

definition v_destroy :: "nat \<Rightarrow> asio_view \<Rightarrow> asio_view" where
  "v_destroy d v = (v_release d v)\<lparr>closed_fds := closed_fds v @ (case dev_fd v d of None \<Rightarrow> [] | Some fd \<Rightarrow> [fd])\<rparr>"

definition v_timer_cancel :: "nat \<Rightarrow> asio_view \<Rightarrow> asio_view" where
  "v_timer_cancel t v = v\<lparr>timer_ops := (timer_ops v)(t := []),
     io_queue := io_queue v @ map (\<lambda>h. (h, Aborted)) (timer_ops v t)\<rparr>"

locale asio =
  fixes A :: "'io asio_api" and view :: "'io \<Rightarrow> asio_view"
  assumes descriptor: "io_descriptor A s fd = (d, s') \<Longrightarrow>
      dev_fd (view s) d = None \<and> view s' = (view s)\<lparr>dev_fd := (dev_fd (view s))(d := Some fd)\<rparr>"
    and async_read: "view (io_async_read A s d h) = v_async d h (view s)"
    and async_write: "view (io_async_write A s d h) = v_async d h (view s)"
    and cancel: "view (io_cancel A s d) = v_cancel d (view s)"
    and release: "view (io_release A s d) = v_release d (view s)"
    and destroy: "view (io_destroy A s d) = v_destroy d (view s)"
    and timer: "io_timer A s = (t, s') \<Longrightarrow> view s' = view s"
    and expires: "view (io_expires A s t ms) = v_timer_cancel t (view s)"
    and timer_wait: "view (io_timer_wait A s t h) =
      (view s)\<lparr>timer_ops := (timer_ops (view s))(t := timer_ops (view s) t @ [h])\<rparr>"
    and timer_cancel: "view (io_timer_cancel A s t) = v_timer_cancel t (view s)"
    and post: "view (io_post A s h) = (view s)\<lparr>io_queue := io_queue (view s) @ [(h, Success)]\<rparr>"
    and next_handler: "io_next A s = Some (c, s') \<Longrightarrow>
      io_queue (view s) = c # io_queue (view s') \<and> view s' = (view s)\<lparr>io_queue := io_queue (view s')\<rparr>"
begin

lemmas view_simps = async_read async_write cancel release destroy expires timer_wait timer_cancel post

end

text \<open>
  The kernel lets an operation complete: it leaves the waiting ones, and its handler is queued
  with success or with an error other than \<open>operation_aborted\<close>.
\<close>

inductive io_progress :: "asio_view \<Rightarrow> asio_view \<Rightarrow> bool" where
  device_ready: "dev_ops v d = xs @ h # ys \<Longrightarrow> ec \<noteq> Aborted \<Longrightarrow>
    io_progress v (v\<lparr>dev_ops := (dev_ops v)(d := xs @ ys), io_queue := io_queue v @ [(h, ec)]\<rparr>)"
| timer_expired: "timer_ops v t = xs @ h # ys \<Longrightarrow> ec \<noteq> Aborted \<Longrightarrow>
    io_progress v (v\<lparr>timer_ops := (timer_ops v)(t := xs @ ys), io_queue := io_queue v @ [(h, ec)]\<rparr>)"

subsection \<open>An \<open>io_context\<close> of lists\<close>

record list_io =
  li_fds :: "int option list"
  li_ops :: "nat \<Rightarrow> completion list"
  li_timers :: nat
  li_timer_ops :: "nat \<Rightarrow> completion list"
  li_queue :: "(completion \<times> io_result) list"
  li_closed :: "int list"

definition li_fd :: "list_io \<Rightarrow> nat \<Rightarrow> int option" where
  "li_fd s d = (if d < length (li_fds s) then li_fds s ! d else None)"

definition li_view :: "list_io \<Rightarrow> asio_view" where
  "li_view s = \<lparr>dev_fd = li_fd s, dev_ops = li_ops s, timer_ops = li_timer_ops s, io_queue = li_queue s,
     closed_fds = li_closed s\<rparr>"

definition li_cancel :: "nat \<Rightarrow> list_io \<Rightarrow> list_io" where
  "li_cancel d s = s\<lparr>li_ops := (li_ops s)(d := []), li_queue := li_queue s @ map (\<lambda>h. (h, Aborted)) (li_ops s d)\<rparr>"

definition li_release :: "nat \<Rightarrow> list_io \<Rightarrow> list_io" where
  "li_release d s = (li_cancel d s)\<lparr>li_fds := (li_fds s)[d := None]\<rparr>"

definition li_timer_cancel :: "nat \<Rightarrow> list_io \<Rightarrow> list_io" where
  "li_timer_cancel t s = s\<lparr>li_timer_ops := (li_timer_ops s)(t := []),
     li_queue := li_queue s @ map (\<lambda>h. (h, Aborted)) (li_timer_ops s t)\<rparr>"

definition list_asio :: "list_io asio_api" where
  "list_asio = \<lparr>
     io_descriptor = (\<lambda>s fd. (length (li_fds s), s\<lparr>li_fds := li_fds s @ [Some fd]\<rparr>)),
     io_async_read = (\<lambda>s d h. s\<lparr>li_ops := (li_ops s)(d := li_ops s d @ [h])\<rparr>),
     io_async_write = (\<lambda>s d h. s\<lparr>li_ops := (li_ops s)(d := li_ops s d @ [h])\<rparr>),
     io_cancel = (\<lambda>s d. li_cancel d s),
     io_release = (\<lambda>s d. li_release d s),
     io_destroy = (\<lambda>s d. (li_release d s)\<lparr>li_closed := li_closed s @ (case li_fd s d of None \<Rightarrow> [] | Some fd \<Rightarrow> [fd])\<rparr>),
     io_timer = (\<lambda>s. (li_timers s, s\<lparr>li_timers := Suc (li_timers s)\<rparr>)),
     io_expires = (\<lambda>s t ms. li_timer_cancel t s),
     io_timer_wait = (\<lambda>s t h. s\<lparr>li_timer_ops := (li_timer_ops s)(t := li_timer_ops s t @ [h])\<rparr>),
     io_timer_cancel = (\<lambda>s t. li_timer_cancel t s),
     io_post = (\<lambda>s h. s\<lparr>li_queue := li_queue s @ [(h, Success)]\<rparr>),
     io_next = (\<lambda>s. case li_queue s of [] \<Rightarrow> None | c # q \<Rightarrow> Some (c, s\<lparr>li_queue := q\<rparr>)) \<rparr>"

interpretation li: asio list_asio li_view
  by unfold_locales
    (auto simp: list_asio_def li_view_def li_fd_def li_cancel_def li_release_def li_timer_cancel_def v_async_def
      v_cancel_def v_release_def v_destroy_def v_timer_cancel_def fun_eq_iff nth_append nth_list_update
      split: list.splits option.splits)

section \<open>The executor's state\<close>

text \<open>
  \<open>Watch\<close> and \<open>Timeout\<close> objects live in stores; \<open>watch_data\<close> and \<open>tm_data\<close> are what
  \<open>dbus_watch_set_data\<close> and \<open>dbus_timeout_set_data\<close> stored, \<open>device_refs\<close> the use counts. The calls of
  \<open>dbus_watch_handle\<close> and \<open>dbus_timeout_handle\<close> are recorded.
\<close>

record watch_obj =
  stream_descriptor :: nat
  wo_watch :: nat

record timeout_obj =
  to_timer :: nat
  to_timeout :: nat

record 'io executor =
  io :: 'io
  devices :: "(int \<times> nat) list"
  device_refs :: "nat \<Rightarrow> nat"
  watch_heap :: "nat \<Rightarrow> watch_obj option"
  watch_data :: "nat \<Rightarrow> nat option"
  timeout_heap :: "nat \<Rightarrow> timeout_obj option"
  tm_data :: "nat \<Rightarrow> nat option"
  next_obj :: nat
  handled :: "(nat \<times> 32 word) list"
  timeouts_handled :: "nat list"

definition executor0 :: "'io \<Rightarrow> 'io executor" where
  "executor0 s = \<lparr>io = s, devices = [], device_refs = (\<lambda>_. 0), watch_heap = (\<lambda>_. None), watch_data = (\<lambda>_. None),
     timeout_heap = (\<lambda>_. None), tm_data = (\<lambda>_. None), next_obj = 0, handled = [], timeouts_handled = []\<rparr>"

text \<open>The last owner of a device destroys it.\<close>

definition sp_drop :: "'io asio_api \<Rightarrow> nat \<Rightarrow> 'io executor \<Rightarrow> 'io executor" where
  "sp_drop A d e =
     (let n = device_refs e d - 1
      in e\<lparr>device_refs := (device_refs e)(d := n), io := if n = 0 then io_destroy A (io e) d else io e\<rparr>)"

section \<open>\<open>Watch\<close>\<close>

definition Watch_restart :: "'io asio_api \<Rightarrow> (nat \<Rightarrow> watch_info) \<Rightarrow> nat \<Rightarrow> ('io executor, unit) prog" where
  "Watch_restart A W this e =
     (case watch_heap e this of
        None \<Rightarrow> pthrow UndefinedBehaviour e
      | Some wo \<Rightarrow>
          (let watch_flags = w_flags (W (wo_watch wo));
               s = (if watch_flags AND DBUS_WATCH_READABLE \<noteq> 0
                    then io_async_read A (io e) (stream_descriptor wo) (OnReadable this) else io e);
               s = (if watch_flags AND DBUS_WATCH_WRITABLE \<noteq> 0
                    then io_async_write A s (stream_descriptor wo) (OnWritable this) else s)
           in preturn () (e\<lparr>io := s\<rparr>)))"

definition Watch_start :: "'io asio_api \<Rightarrow> (nat \<Rightarrow> watch_info) \<Rightarrow> nat \<Rightarrow> ('io executor, unit) prog" where
  "Watch_start A W this = Watch_restart A W this"

definition Watch_cancel :: "'io asio_api \<Rightarrow> nat \<Rightarrow> ('io executor, unit) prog" where
  "Watch_cancel A this e =
     (case watch_heap e this of
        None \<Rightarrow> pthrow UndefinedBehaviour e
      | Some wo \<Rightarrow> preturn () (e\<lparr>io := io_cancel A (io e) (stream_descriptor wo)\<rparr>))"

text \<open>\<open>delete\<close> of a watch: the destructor's body, then that of its shared pointer.\<close>

definition Watch_destroy :: "'io asio_api \<Rightarrow> nat \<Rightarrow> ('io executor, unit) prog" where
  "Watch_destroy A this e =
     (case watch_heap e this of
        None \<Rightarrow> pthrow UndefinedBehaviour e
      | Some wo \<Rightarrow>
          (let d = stream_descriptor wo;
               e = e\<lparr>io := io_cancel A (io e) d\<rparr>;
               e = (if device_refs e d = 1 then e\<lparr>io := io_release A (io e) d\<rparr> else e);
               e = sp_drop A d e
           in preturn () (e\<lparr>watch_heap := (watch_heap e)(this := None)\<rparr>)))"

text \<open>\<open>dbus_watch_handle\<close> is libdbus', which may call back; it returns false without memory.\<close>

definition Watch_handle_event ::
  "'io asio_api \<Rightarrow> (nat \<Rightarrow> watch_info) \<Rightarrow> (nat \<Rightarrow> 32 word \<Rightarrow> ('io executor, bool) prog) \<Rightarrow> nat \<Rightarrow> 32 word \<Rightarrow> io_result
     \<Rightarrow> ('io executor, unit) prog" where
  "Watch_handle_event A W dbus_watch_handle this event ec e =
     (case watch_heap e this of
        None \<Rightarrow> pthrow UndefinedBehaviour e
      | Some wo \<Rightarrow>
          (let flags = (if ec \<noteq> Success then DBUS_WATCH_ERROR else event);
               e = e\<lparr>handled := handled e @ [(wo_watch wo, flags)]\<rparr>
           in pbind (dbus_watch_handle (wo_watch wo) flags)
                (\<lambda>ok. if ec \<noteq> Success then preturn ()
                      else if \<not> ok then pthrow (StdRuntimeError ''Insufficient memory while handling watch event'')
                      else Watch_restart A W this) e))"

section \<open>\<open>Timeout\<close>\<close>

definition Timeout_start :: "'io asio_api \<Rightarrow> (nat \<Rightarrow> timeout_info) \<Rightarrow> nat \<Rightarrow> ('io executor, unit) prog" where
  "Timeout_start A T this e =
     (case timeout_heap e this of
        None \<Rightarrow> pthrow UndefinedBehaviour e
      | Some tm \<Rightarrow>
          (let s = io_expires A (io e) (to_timer tm) (t_interval (T (to_timeout tm)))
           in preturn () (e\<lparr>io := io_timer_wait A s (to_timer tm) (OnTimeout this)\<rparr>)))"

definition Timeout_cancel :: "'io asio_api \<Rightarrow> nat \<Rightarrow> ('io executor, unit) prog" where
  "Timeout_cancel A this e =
     (case timeout_heap e this of
        None \<Rightarrow> pthrow UndefinedBehaviour e
      | Some tm \<Rightarrow> preturn () (e\<lparr>io := io_timer_cancel A (io e) (to_timer tm)\<rparr>))"

definition Timeout_destroy :: "'io asio_api \<Rightarrow> nat \<Rightarrow> ('io executor, unit) prog" where
  "Timeout_destroy A this = pbind (Timeout_cancel A this)
     (\<lambda>_. pmodify (\<lambda>e. e\<lparr>timeout_heap := (timeout_heap e)(this := None)\<rparr>))"

section \<open>What libdbus calls\<close>

text \<open>
  A watch that is added has no data yet. The device of its descriptor is found or made; the local
  copy of the shared pointer is gone when the function returns.
\<close>

definition device_for :: "'io asio_api \<Rightarrow> int \<Rightarrow> 'io executor \<Rightarrow> nat \<times> 'io executor" where
  "device_for A fd e =
     (case map_of (devices e) fd of
        Some d \<Rightarrow> (d, e)
      | None \<Rightarrow>
          (case io_descriptor A (io e) fd of
             (d, s) \<Rightarrow> (d, e\<lparr>io := s, devices := (fd, d) # devices e, device_refs := (device_refs e)(d := 1)\<rparr>)))"

definition new_watch :: "nat \<Rightarrow> nat \<Rightarrow> 'io executor \<Rightarrow> nat \<times> 'io executor" where
  "new_watch d watch e =
     (next_obj e,
      e\<lparr>device_refs := (device_refs e)(d := Suc (device_refs e d)),
        watch_heap := (watch_heap e)(next_obj e \<mapsto> \<lparr>stream_descriptor = d, wo_watch = watch\<rparr>),
        next_obj := Suc (next_obj e)\<rparr>)"

definition on_dbus_add_watch :: "'io asio_api \<Rightarrow> (nat \<Rightarrow> watch_info) \<Rightarrow> nat \<Rightarrow> ('io executor, bool) prog" where
  "on_dbus_add_watch A W watch e =
     (let fd = w_fd (W watch);
          (device_ptr, e) = device_for A fd e;
          (w, e) = new_watch device_ptr watch e;
          e = e\<lparr>watch_data := (watch_data e)(watch \<mapsto> w)\<rparr>
      in pbind (if w_enabled (W watch) then Watch_start A W w else preturn ()) (\<lambda>_. preturn True) e)"

definition on_dbus_remove_watch :: "'io asio_api \<Rightarrow> (nat \<Rightarrow> watch_info) \<Rightarrow> nat \<Rightarrow> ('io executor, unit) prog" where
  "on_dbus_remove_watch A W watch e =
     (case watch_data e watch of
        None \<Rightarrow> preturn () e
      | Some w \<Rightarrow>
          (let fd = w_fd (W watch) in
           pbind (Watch_cancel A w)
             (\<lambda>_ e. case map_of (devices e) fd of
                None \<Rightarrow> preturn () e
              | Some d \<Rightarrow>
                  if device_refs e d = 2
                  then preturn () (sp_drop A d (e\<lparr>devices := filter (\<lambda>p. fst p \<noteq> fd) (devices e)\<rparr>))
                  else preturn () e) e))"

definition on_dbus_watch_toggled :: "'io asio_api \<Rightarrow> (nat \<Rightarrow> watch_info) \<Rightarrow> nat \<Rightarrow> ('io executor, unit) prog" where
  "on_dbus_watch_toggled A W watch e =
     (case watch_data e watch of
        None \<Rightarrow> preturn () e
      | Some w \<Rightarrow> (if w_enabled (W watch) then Watch_restart A W w else Watch_cancel A w) e)"

definition on_dbus_add_timeout :: "'io asio_api \<Rightarrow> (nat \<Rightarrow> timeout_info) \<Rightarrow> nat \<Rightarrow> ('io executor, bool) prog" where
  "on_dbus_add_timeout A T timeout e =
     (case io_timer A (io e) of
        (t, s) \<Rightarrow>
          (let tm = next_obj e;
               e = e\<lparr>io := s, timeout_heap := (timeout_heap e)(tm \<mapsto> \<lparr>to_timer = t, to_timeout = timeout\<rparr>),
                     next_obj := Suc tm, tm_data := (tm_data e)(timeout \<mapsto> tm)\<rparr>
           in pbind (Timeout_start A T tm) (\<lambda>_. preturn True) e))"

text \<open>A timeout without data is a null pointer here, but not in the function that follows.\<close>

definition on_dbus_remove_timeout :: "'io asio_api \<Rightarrow> nat \<Rightarrow> ('io executor, unit) prog" where
  "on_dbus_remove_timeout A timeout e =
     (case tm_data e timeout of None \<Rightarrow> pthrow UndefinedBehaviour e | Some tm \<Rightarrow> Timeout_cancel A tm e)"

definition on_dbus_timeout_toggled :: "'io asio_api \<Rightarrow> (nat \<Rightarrow> timeout_info) \<Rightarrow> nat \<Rightarrow> ('io executor, unit) prog" where
  "on_dbus_timeout_toggled A T timeout e =
     (case tm_data e timeout of
        None \<Rightarrow> preturn () e
      | Some tm \<Rightarrow> (if t_enabled (T timeout) then Timeout_start A T tm else Timeout_cancel A tm) e)"

definition on_dbus_wakeup_event_loop :: "'io asio_api \<Rightarrow> ('io executor, unit) prog" where
  "on_dbus_wakeup_event_loop A = pmodify (\<lambda>e. e\<lparr>io := io_post A (io e) Wakeup\<rparr>)"

text \<open>\<open>generic_deleter\<close>, which libdbus calls with the data of a watch or timeout it frees.\<close>

definition delete_watch :: "'io asio_api \<Rightarrow> nat \<Rightarrow> ('io executor, unit) prog" where
  "delete_watch A watch e =
     (case watch_data e watch of
        None \<Rightarrow> preturn () e
      | Some w \<Rightarrow> pbind (Watch_destroy A w) (\<lambda>_. pmodify (\<lambda>e. e\<lparr>watch_data := (watch_data e)(watch := None)\<rparr>)) e)"

definition delete_timeout :: "'io asio_api \<Rightarrow> nat \<Rightarrow> ('io executor, unit) prog" where
  "delete_timeout A timeout e =
     (case tm_data e timeout of
        None \<Rightarrow> preturn () e
      | Some tm \<Rightarrow> pbind (Timeout_destroy A tm) (\<lambda>_. pmodify (\<lambda>e. e\<lparr>tm_data := (tm_data e)(timeout := None)\<rparr>)) e)"

section \<open>The handlers Asio calls\<close>

record 'io dbus_calls =
  dbus_watch_handle :: "nat \<Rightarrow> 32 word \<Rightarrow> ('io executor, bool) prog"
  dbus_timeout_handle :: "nat \<Rightarrow> ('io executor, unit) prog"
  dispatcher_dispatch :: "('io executor, unit) prog"

definition on_watch_event ::
  "'io asio_api \<Rightarrow> (nat \<Rightarrow> watch_info) \<Rightarrow> 'io dbus_calls \<Rightarrow> nat \<Rightarrow> 32 word \<Rightarrow> io_result \<Rightarrow> ('io executor, unit) prog" where
  "on_watch_event A W H this event ec =
     (if ec = Aborted then preturn () else Watch_handle_event A W (dbus_watch_handle H) this event ec)"

definition on_timer :: "'io dbus_calls \<Rightarrow> nat \<Rightarrow> io_result \<Rightarrow> ('io executor, unit) prog" where
  "on_timer H this ec =
     (if ec = Aborted then preturn () else if ec \<noteq> Success then preturn ()
      else (\<lambda>e. case timeout_heap e this of
        None \<Rightarrow> pthrow UndefinedBehaviour e
      | Some tm \<Rightarrow> dbus_timeout_handle H (to_timeout tm) (e\<lparr>timeouts_handled := timeouts_handled e @ [to_timeout tm]\<rparr>)))"

definition run_handler ::
  "'io asio_api \<Rightarrow> (nat \<Rightarrow> watch_info) \<Rightarrow> 'io dbus_calls \<Rightarrow> completion \<times> io_result \<Rightarrow> ('io executor, unit) prog" where
  "run_handler A W H c =
     (case c of
        (OnReadable this, ec) \<Rightarrow> on_watch_event A W H this DBUS_WATCH_READABLE ec
      | (OnWritable this, ec) \<Rightarrow> on_watch_event A W H this DBUS_WATCH_WRITABLE ec
      | (OnTimeout this, ec) \<Rightarrow> on_timer H this ec
      | (Wakeup, _) \<Rightarrow> dispatcher_dispatch H)"

section \<open>\<open>Private\<close>\<close>

text \<open>
  The two functions of libdbus call the add functions for what the connection has already, and
  return false without memory. The dispatcher is a member that is destroyed before \<open>devices_\<close>.
\<close>

definition Private_new :: "('io executor, bool) prog \<Rightarrow> ('io executor, bool) prog \<Rightarrow> ('io executor, unit) prog" where
  "Private_new set_watch_functions set_timeout_functions =
     pbind set_watch_functions (\<lambda>ok.
       if \<not> ok then pthrow (StdRuntimeError ''Problem installing watch functions.'')
       else pbind set_timeout_functions (\<lambda>ok.
         if \<not> ok then pthrow (StdRuntimeError ''Problem installing timeout functions.'') else preturn ()))"

definition devices_destroy :: "'io asio_api \<Rightarrow> 'io executor \<Rightarrow> 'io executor" where
  "devices_destroy A e = (fold (sp_drop A) (map snd (devices e)) e)\<lparr>devices := []\<rparr>"

definition Private_destroy :: "'io asio_api \<Rightarrow> ('io executor, unit) prog \<Rightarrow> ('io executor, unit) prog" where
  "Private_destroy A dispatcher_destroy = pbind dispatcher_destroy (\<lambda>_. pmodify (devices_destroy A))"

end
