(* ===== verification/AsioCorrect.thy ===== *)
theory AsioCorrect
  imports AsioExecutor
begin

text \<open>
  What the Asio executor guarantees, whatever libdbus calls and whatever completes: watches of a
  descriptor share one device, no descriptor is closed while the executor exists, and an event is
  handled; and where it fails: the destructor closes what is left of a descriptor whose watches were
  removed before they were freed, and a watch that is disabled takes the other watches of its descriptor with it.
\<close>

section \<open>What libdbus may do\<close>

text \<open>
  A call of libdbus: it adds watches it has not added before, removes watches, frees them, and so
  on. \<open>fdof\<close> is the descriptor of a watch, \<open>S\<close> the watches that may be added or enabled. Those in
  \<open>P\<close> may be freed any time after their removal, as when something else still refers to them; the
  others are freed with it.
\<close>

inductive callback_step ::
  "'io asio_api \<Rightarrow> (nat \<Rightarrow> int) \<Rightarrow> nat set \<Rightarrow> nat set \<Rightarrow> 'io executor \<Rightarrow> 'io executor \<Rightarrow> bool"
  for A :: "'io asio_api" and fdof :: "nat \<Rightarrow> int" and P :: "nat set" and S :: "nat set" where
  cb_add: "w \<in> S \<Longrightarrow> watch_data e w = None \<Longrightarrow> w_fd (W w) = fdof w \<Longrightarrow>
    on_dbus_add_watch A W w e = Some (r, e') \<Longrightarrow> callback_step A fdof P S e e'"
| cb_remove: "w \<in> P \<Longrightarrow> w_fd (W w) = fdof w \<Longrightarrow> on_dbus_remove_watch A W w e = Some (r, e') \<Longrightarrow> callback_step A fdof P S e e'"
| cb_free: "w \<in> P \<Longrightarrow> delete_watch A w e = Some (r, e') \<Longrightarrow> callback_step A fdof P S e e'"
| cb_drop: "w_fd (W w) = fdof w \<Longrightarrow>
    pbind (on_dbus_remove_watch A W w) (\<lambda>_. delete_watch A w) e = Some (r, e') \<Longrightarrow> callback_step A fdof P S e e'"
| cb_toggle: "(w_enabled (W w) \<Longrightarrow> w \<in> S) \<Longrightarrow>
    on_dbus_watch_toggled A W w e = Some (r, e') \<Longrightarrow> callback_step A fdof P S e e'"
| cb_add_timeout: "on_dbus_add_timeout A T t e = Some (r, e') \<Longrightarrow> callback_step A fdof P S e e'"
| cb_drop_timeout: "pbind (on_dbus_remove_timeout A t) (\<lambda>_. delete_timeout A t) e = Some (r', e') \<Longrightarrow> callback_step A fdof P S e e'"
| cb_toggle_timeout: "on_dbus_timeout_toggled A T t e = Some (r', e') \<Longrightarrow> callback_step A fdof P S e e'"
| cb_wakeup: "on_dbus_wakeup_event_loop A e = Some (r', e') \<Longrightarrow> callback_step A fdof P S e e'"

text \<open>What the executor calls in libdbus changes it by such calls only.\<close>

definition calls_back :: "'io asio_api \<Rightarrow> (nat \<Rightarrow> int) \<Rightarrow> nat set \<Rightarrow> nat set \<Rightarrow> 'io dbus_calls \<Rightarrow> bool" where
  "calls_back A fdof P S H \<longleftrightarrow>
     (\<forall>w f e r e'. dbus_watch_handle H w f e = Some (r, e') \<longrightarrow> (callback_step A fdof P S)\<^sup>*\<^sup>* e e') \<and>
     (\<forall>t e r e'. dbus_timeout_handle H t e = Some (r, e') \<longrightarrow> (callback_step A fdof P S)\<^sup>*\<^sup>* e e') \<and>
     (\<forall>e r e'. dispatcher_dispatch H e = Some (r, e') \<longrightarrow> (callback_step A fdof P S)\<^sup>*\<^sup>* e e')"

text \<open>A round of the \<open>io_context\<close>, and what happens between two rounds.\<close>

inductive exec_step ::
  "'io asio_api \<Rightarrow> ('io \<Rightarrow> asio_view) \<Rightarrow> (nat \<Rightarrow> int) \<Rightarrow> nat set \<Rightarrow> nat set \<Rightarrow> 'io dbus_calls \<Rightarrow> 'io executor \<Rightarrow> 'io executor \<Rightarrow> bool"
  for A :: "'io asio_api" and view and fdof :: "nat \<Rightarrow> int" and P :: "nat set" and S :: "nat set" and H where
  ex_call: "callback_step A fdof P S e e' \<Longrightarrow> exec_step A view fdof P S H e e'"
| ex_progress: "io_progress (view (io e)) (view s) \<Longrightarrow> exec_step A view fdof P S H e (e\<lparr>io := s\<rparr>)"
| ex_run: "io_next A (io e) = Some (c, s) \<Longrightarrow> run_handler A W H c (e\<lparr>io := s\<rparr>) = Some (r, e') \<Longrightarrow>
    exec_step A view fdof P S H e e'"

section \<open>The invariant\<close>

definition watch_of_completion :: "completion \<Rightarrow> nat option" where
  "watch_of_completion h = (case h of OnReadable this \<Rightarrow> Some this | OnWritable this \<Rightarrow> Some this | _ \<Rightarrow> None)"

definition device_users :: "'io executor \<Rightarrow> nat \<Rightarrow> nat set" where
  "device_users e d = {this. \<exists>wo. watch_heap e this = Some wo \<and> stream_descriptor wo = d}"

definition heap_ok :: "'io executor \<Rightarrow> bool" where
  "heap_ok e \<longleftrightarrow>
     (\<forall>this wo. watch_heap e this = Some wo \<longrightarrow> this < next_obj e \<and> watch_data e (wo_watch wo) = Some this) \<and>
     (\<forall>w this. watch_data e w = Some this \<longrightarrow> (\<exists>wo. watch_heap e this = Some wo \<and> wo_watch wo = w))"

text \<open>The owners of a device: the watches that use it, and the map if it is there.\<close>

definition device_owners :: "'io executor \<Rightarrow> nat \<Rightarrow> nat" where
  "device_owners e d = card (device_users e d) + (if d \<in> snd ` set (devices e) then 1 else 0)"

definition devices_ok :: "('io \<Rightarrow> asio_view) \<Rightarrow> (nat \<Rightarrow> int) \<Rightarrow> 'io executor \<Rightarrow> bool" where
  "devices_ok view fdof e \<longleftrightarrow>
     distinct (map fst (devices e)) \<and> closed_fds (view (io e)) = [] \<and> device_refs e = device_owners e \<and>
     (\<forall>(fd, d) \<in> set (devices e). dev_fd (view (io e)) d = Some fd) \<and>
     (\<forall>this wo. watch_heap e this = Some wo \<longrightarrow> dev_fd (view (io e)) (stream_descriptor wo) = Some (fdof (wo_watch wo)))"

text \<open>The descriptors whose watches are freed when they are removed are in the map while they have one.\<close>

definition tidy :: "(nat \<Rightarrow> int) \<Rightarrow> nat set \<Rightarrow> 'io executor \<Rightarrow> bool" where
  "tidy fdof P e \<longleftrightarrow>
     (\<forall>this wo. watch_heap e this = Some wo \<longrightarrow> fdof (wo_watch wo) \<notin> fdof ` P \<longrightarrow>
        (fdof (wo_watch wo), stream_descriptor wo) \<in> set (devices e)) \<and>
     (\<forall>(fd, d) \<in> set (devices e). fd \<notin> fdof ` P \<longrightarrow> device_users e d \<noteq> {})"

definition ops_ok :: "('io \<Rightarrow> asio_view) \<Rightarrow> 'io executor \<Rightarrow> bool" where
  "ops_ok view e \<longleftrightarrow>
     (\<forall>d. \<forall>h \<in> set (dev_ops (view (io e)) d). \<forall>this. watch_of_completion h = Some this \<longrightarrow>
        this < next_obj e \<and> (\<forall>wo. watch_heap e this = Some wo \<longrightarrow> stream_descriptor wo = d))"

definition base_inv :: "('io \<Rightarrow> asio_view) \<Rightarrow> (nat \<Rightarrow> int) \<Rightarrow> 'io executor \<Rightarrow> bool" where
  "base_inv view fdof e \<longleftrightarrow> heap_ok e \<and> devices_ok view fdof e \<and> ops_ok view e"

definition exec_inv :: "('io \<Rightarrow> asio_view) \<Rightarrow> (nat \<Rightarrow> int) \<Rightarrow> nat set \<Rightarrow> 'io executor \<Rightarrow> bool" where
  "exec_inv view fdof P e \<longleftrightarrow> base_inv view fdof e \<and> tidy fdof P e"

text \<open>An \<open>io_context\<close> nothing waits for.\<close>

definition fresh_io :: "('io \<Rightarrow> asio_view) \<Rightarrow> 'io \<Rightarrow> bool" where
  "fresh_io view s \<longleftrightarrow> closed_fds (view s) = [] \<and> io_queue (view s) = [] \<and>
     (\<forall>d. dev_ops (view s) d = []) \<and> (\<forall>t. timer_ops (view s) t = [])"

lemma executor0_inv: "fresh_io view s \<Longrightarrow> exec_inv view fdof P (executor0 s)"
  by (simp add: exec_inv_def base_inv_def tidy_def heap_ok_def devices_ok_def ops_ok_def executor0_def fresh_io_def
      device_owners_def [abs_def] device_users_def)

lemma device_users_finite: "heap_ok e \<Longrightarrow> finite (device_users e d)"
  by (rule finite_subset [of _ "{..<next_obj e}"]) (auto simp: device_users_def heap_ok_def)

text \<open>The object of a watch, and its device.\<close>

lemma live_base:
  assumes "base_inv view fdof e" and "watch_data e w = Some this"
  obtains wo where "watch_heap e this = Some wo" "wo_watch wo = w"
    "dev_fd (view (io e)) (stream_descriptor wo) = Some (fdof w)" "this \<in> device_users e (stream_descriptor wo)"
    "device_refs e (stream_descriptor wo) = device_owners e (stream_descriptor wo)"
    "0 < card (device_users e (stream_descriptor wo))"
proof -
  from assms obtain wo where wo: "watch_heap e this = Some wo" "wo_watch wo = w"
    unfolding base_inv_def heap_ok_def by blast
  moreover from this assms(1) have "dev_fd (view (io e)) (stream_descriptor wo) = Some (fdof w)"
    "device_refs e (stream_descriptor wo) = device_owners e (stream_descriptor wo)"
    by (auto simp: base_inv_def devices_ok_def)
  moreover from wo have u: "this \<in> device_users e (stream_descriptor wo)" by (simp add: device_users_def)
  moreover have "finite (device_users e (stream_descriptor wo))"
    using assms(1) by (auto simp: base_inv_def intro: device_users_finite)
  with u have "0 < card (device_users e (stream_descriptor wo))" by (auto simp: card_gt_0_iff)
  ultimately show thesis using that by blast
qed

lemma live_watch:
  assumes "exec_inv view fdof P e" and "watch_data e w = Some this"
  obtains wo where "watch_heap e this = Some wo" "wo_watch wo = w"
    "dev_fd (view (io e)) (stream_descriptor wo) = Some (fdof w)"
    "fdof w \<notin> fdof ` P \<Longrightarrow> map_of (devices e) (fdof w) = Some (stream_descriptor wo)"
proof -
  have b: "base_inv view fdof e" using assms(1) by (simp add: exec_inv_def)
  then obtain wo where wo: "watch_heap e this = Some wo" "wo_watch wo = w"
    "dev_fd (view (io e)) (stream_descriptor wo) = Some (fdof w)" using assms(2) by (rule live_base)
  moreover have "map_of (devices e) (fdof w) = Some (stream_descriptor wo)" if "fdof w \<notin> fdof ` P"
  proof -
    have "(fdof w, stream_descriptor wo) \<in> set (devices e)" using assms(1) wo that by (auto simp: exec_inv_def tidy_def)
    with b show ?thesis by (auto simp: base_inv_def devices_ok_def)
  qed
  ultimately show thesis by (rule that)
qed

text \<open>Calls that leave everything but the operations as it is.\<close>

definition same_watches :: "('io \<Rightarrow> asio_view) \<Rightarrow> 'io executor \<Rightarrow> 'io executor \<Rightarrow> bool" where
  "same_watches view e e' \<longleftrightarrow>
     devices e' = devices e \<and> device_refs e' = device_refs e \<and> watch_heap e' = watch_heap e \<and> watch_data e' = watch_data e \<and>
     next_obj e \<le> next_obj e' \<and> dev_fd (view (io e')) = dev_fd (view (io e)) \<and>
     closed_fds (view (io e')) = closed_fds (view (io e))"

lemma same_watches_base:
  assumes "base_inv view fdof e" and s: "same_watches view e e'"
    and "\<And>d h this. h \<in> set (dev_ops (view (io e')) d) \<Longrightarrow> watch_of_completion h = Some this \<Longrightarrow>
      h \<in> set (dev_ops (view (io e)) d) \<or> (\<exists>wo. watch_heap e this = Some wo \<and> stream_descriptor wo = d)"
  shows "base_inv view fdof e'"
proof -
  have u: "device_users e' = device_users e" using s by (auto simp: same_watches_def device_users_def fun_eq_iff)
  then have "device_owners e' = device_owners e" using s by (simp add: device_owners_def [abs_def] same_watches_def)
  moreover have "ops_ok view e'"
    unfolding ops_ok_def
  proof (intro allI ballI impI)
    fix d h this assume h: "h \<in> set (dev_ops (view (io e')) d)" "watch_of_completion h = Some this"
    then show "this < next_obj e' \<and> (\<forall>wo. watch_heap e' this = Some wo \<longrightarrow> stream_descriptor wo = d)"
      using assms(1) s assms(3) [OF h] by (fastforce simp: base_inv_def ops_ok_def heap_ok_def same_watches_def)
  qed
  moreover have "heap_ok e'" using assms(1) s by (fastforce simp: base_inv_def heap_ok_def same_watches_def)
  ultimately show ?thesis using assms(1) s by (simp add: base_inv_def devices_ok_def same_watches_def)
qed

lemma same_watches_inv:
  assumes "exec_inv view fdof P e" and s: "same_watches view e e'"
    and "\<And>d h this. h \<in> set (dev_ops (view (io e')) d) \<Longrightarrow> watch_of_completion h = Some this \<Longrightarrow>
      h \<in> set (dev_ops (view (io e)) d) \<or> (\<exists>wo. watch_heap e this = Some wo \<and> stream_descriptor wo = d)"
  shows "exec_inv view fdof P e'"
proof -
  have "device_users e' = device_users e" using s by (auto simp: same_watches_def device_users_def fun_eq_iff)
  then have "tidy fdof P e'" using assms(1) s by (simp add: exec_inv_def tidy_def same_watches_def)
  with same_watches_base [OF _ s assms(3)] assms(1) show ?thesis by (simp add: exec_inv_def)
qed

text \<open>What each call does to the operations that wait on devices.\<close>

context asio
begin

lemma view_next: "io_next A s = Some (c, s') \<Longrightarrow> dev_ops (view s') = dev_ops (view s) \<and> dev_fd (view s') = dev_fd (view s)
    \<and> closed_fds (view s') = closed_fds (view s) \<and> timer_ops (view s') = timer_ops (view s)"
  by (frule next_handler) (metis (no_types, lifting) asio_view.select_convs(1,2,3,5) asio_view.surjective asio_view.update_convs(4))

lemma restart_inv:
  assumes "exec_inv view fdof P e" and "Watch_restart A W this e = Some (r, e')"
  shows "exec_inv view fdof P e'"
proof (cases "watch_heap e this")
  case None
  with assms show ?thesis by (simp add: Watch_restart_def)
next
  case (Some wo)
  with assms(2) have "same_watches view e e'"
    by (auto simp: Watch_restart_def Let_def same_watches_def view_simps v_async_def)
  moreover have "h \<in> set (dev_ops (view (io e)) d) \<or> (\<exists>wo. watch_heap e this' = Some wo \<and> stream_descriptor wo = d)"
    if "h \<in> set (dev_ops (view (io e')) d)" "watch_of_completion h = Some this'" for d h this'
    using that assms(2) Some
    by (auto simp: Watch_restart_def Let_def view_simps v_async_def watch_of_completion_def split: if_splits)
  ultimately show ?thesis by (rule same_watches_inv [OF assms(1)])
qed

lemma cancel_inv:
  assumes "exec_inv view fdof P e" and "Watch_cancel A this e = Some (r, e')"
  shows "exec_inv view fdof P e'"
  by (rule same_watches_inv [OF assms(1)])
    (use assms(2) in \<open>auto simp: Watch_cancel_def same_watches_def view_simps v_cancel_def split: option.splits if_splits\<close>)

lemma toggled_inv:
  "exec_inv view fdof P e \<Longrightarrow> on_dbus_watch_toggled A W w e = Some (r, e') \<Longrightarrow> exec_inv view fdof P e'"
  by (auto simp: on_dbus_watch_toggled_def split: option.splits if_splits intro: restart_inv cancel_inv)

text \<open>Timeouts and the wakeup leave the devices alone.\<close>

definition devices_alone :: "'io executor \<Rightarrow> 'io executor \<Rightarrow> bool" where
  "devices_alone e e' \<longleftrightarrow> same_watches view e e' \<and> dev_ops (view (io e')) = dev_ops (view (io e))"

lemma devices_alone_inv: "exec_inv view fdof P e \<Longrightarrow> devices_alone e e' \<Longrightarrow> exec_inv view fdof P e'"
  by (rule same_watches_inv) (auto simp: devices_alone_def)

lemma devices_alone_refl [simp]: "devices_alone e e"
  by (simp add: devices_alone_def same_watches_def)

lemma devices_alone_trans: "devices_alone e e' \<Longrightarrow> devices_alone e' e'' \<Longrightarrow> devices_alone e e''"
  by (auto simp: devices_alone_def same_watches_def)

lemma timeout_start_alone: "Timeout_start A T this e = Some (r, e') \<Longrightarrow> devices_alone e e'"
  by (auto simp: Timeout_start_def Let_def devices_alone_def same_watches_def view_simps v_timer_cancel_def split: option.splits)

lemma timeout_cancel_alone: "Timeout_cancel A this e = Some (r, e') \<Longrightarrow> devices_alone e e'"
  by (auto simp: Timeout_cancel_def devices_alone_def same_watches_def view_simps v_timer_cancel_def split: option.splits)

lemma add_timeout_alone:
  assumes "on_dbus_add_timeout A T t e = Some (r, e')" shows "devices_alone e e'"
proof -
  obtain tm s where s: "io_timer A (io e) = (tm, s)" by force
  let ?e = "e\<lparr>io := s, timeout_heap := (timeout_heap e)(next_obj e \<mapsto> \<lparr>to_timer = tm, to_timeout = t\<rparr>),
    next_obj := Suc (next_obj e), tm_data := (tm_data e)(t \<mapsto> next_obj e)\<rparr>"
  from s have "devices_alone e ?e" by (simp add: devices_alone_def same_watches_def timer [OF s])
  moreover from assms s have "devices_alone ?e e'"
    by (auto simp: on_dbus_add_timeout_def Let_def pbind_eq_Some intro: timeout_start_alone)
  ultimately show ?thesis by (rule devices_alone_trans)
qed

lemma timeout_calls_alone:
  "pbind (on_dbus_remove_timeout A t) (\<lambda>_. delete_timeout A t) e = Some (r, e') \<Longrightarrow> devices_alone e e'"
  "on_dbus_timeout_toggled A T t e = Some (r, e') \<Longrightarrow> devices_alone e e'"
  "on_dbus_wakeup_event_loop A e = Some (r, e') \<Longrightarrow> devices_alone e e'"
proof -
  have d: "devices_alone e' e''" if "delete_timeout A t e' = Some (r, e'')" for e' e'' r
  proof -
    have "devices_alone e1 (e1\<lparr>timeout_heap := x, tm_data := y\<rparr>)" "devices_alone e1 (e1\<lparr>timeout_heap := x\<rparr>)"
      "devices_alone e1 e1" for e1 :: "'io executor" and x y
      by (simp_all add: devices_alone_def same_watches_def)
    then show ?thesis using that
      by (fastforce simp: delete_timeout_def Timeout_destroy_def pbind_eq_Some pmodify_def split: option.splits
          dest: timeout_cancel_alone intro: devices_alone_trans)
  qed
  assume "pbind (on_dbus_remove_timeout A t) (\<lambda>_. delete_timeout A t) e = Some (r, e')"
  then show "devices_alone e e'"
    by (auto simp: pbind_eq_Some on_dbus_remove_timeout_def split: option.splits
        dest!: timeout_cancel_alone d intro: devices_alone_trans)
next
  assume "on_dbus_timeout_toggled A T t e = Some (r, e')"
  then show "devices_alone e e'"
    by (auto simp: on_dbus_timeout_toggled_def devices_alone_def same_watches_def split: option.splits if_splits
        dest!: timeout_cancel_alone timeout_start_alone)
next
  assume "on_dbus_wakeup_event_loop A e = Some (r, e')"
  then show "devices_alone e e'"
    by (auto simp: on_dbus_wakeup_event_loop_def pmodify_def devices_alone_def same_watches_def view_simps)
qed

text \<open>Adding a watch: its device is the one of its descriptor, with one more user.\<close>

definition with_device :: "int \<Rightarrow> nat \<Rightarrow> 'io executor \<Rightarrow> bool" where
  "with_device fd d e \<longleftrightarrow> (fd, d) \<in> set (devices e) \<and> dev_fd (view (io e)) d = Some fd"

text \<open>The device is in the map, and the other devices of tidy descriptors have a watch.\<close>

definition tidy_but :: "nat \<Rightarrow> (nat \<Rightarrow> int) \<Rightarrow> nat set \<Rightarrow> 'io executor \<Rightarrow> bool" where
  "tidy_but d fdof P e \<longleftrightarrow>
     (\<forall>this wo. watch_heap e this = Some wo \<longrightarrow> fdof (wo_watch wo) \<notin> fdof ` P \<longrightarrow>
        (fdof (wo_watch wo), stream_descriptor wo) \<in> set (devices e)) \<and>
     (\<forall>(fd, x) \<in> set (devices e). x \<noteq> d \<longrightarrow> fd \<notin> fdof ` P \<longrightarrow> device_users e x \<noteq> {})"

lemma device_for_inv:
  assumes "exec_inv view fdof P e" and "device_for A fd e = (d, e')"
  shows "base_inv view fdof e' \<and> tidy_but d fdof P e' \<and> with_device fd d e' \<and> watch_heap e' = watch_heap e \<and>
    watch_data e' = watch_data e \<and> next_obj e' = next_obj e"
proof (cases "map_of (devices e) fd")
  case (Some x)
  with assms(2) have "d = x" "e' = e" by (auto simp: device_for_def)
  with assms(1) Some show ?thesis
    by (auto simp: exec_inv_def base_inv_def devices_ok_def tidy_def tidy_but_def with_device_def dest: map_of_SomeD)
next
  case None
  obtain s where s: "io_descriptor A (io e) fd = (d, s)" and
    e': "e' = e\<lparr>io := s, devices := (fd, d) # devices e, device_refs := (device_refs e)(d := 1)\<rparr>"
    using assms(2) None by (auto simp: device_for_def split: prod.splits)
  note v = descriptor [OF s]
  have b: "heap_ok e" "devices_ok view fdof e" "ops_ok view e" "tidy fdof P e"
    using assms(1) by (simp_all add: exec_inv_def base_inv_def)
  have d: "d \<notin> snd ` set (devices e)" "device_users e d = {}"
    using b(2) v by (auto simp: devices_ok_def device_users_def)
  have us: "device_users e' = device_users e" using e' by (auto simp: device_users_def fun_eq_iff)
  then have "device_refs e' = device_owners e'"
    using b(2) d e' by (auto simp: devices_ok_def device_owners_def fun_eq_iff)
  moreover have "fd \<notin> fst ` set (devices e)" using None by (simp add: map_of_eq_None_iff)
  moreover have "dev_fd (view s) x = dev_fd (view (io e)) x" if "x \<noteq> d" for x using v that by simp
  moreover have "stream_descriptor wo \<noteq> d" if "watch_heap e this = Some wo" for this wo
    using d(2) that by (auto simp: device_users_def)
  ultimately have "devices_ok view fdof e'" using b(2) d(1) e' v by (auto simp: devices_ok_def)
  then show ?thesis using b e' v us d
    by (auto simp: base_inv_def heap_ok_def ops_ok_def tidy_def tidy_but_def with_device_def)
qed

lemma executor_add_inv:
  assumes "exec_inv view fdof P e" and "watch_data e w = None" and "w_fd (W w) = fdof w"
    and "on_dbus_add_watch A W w e = Some (r, e')"
  shows "exec_inv view fdof P e'"
proof -
  obtain d e1 where d: "device_for A (fdof w) e = (d, e1)" by force
  note i = device_for_inv [OF assms(1) d]
  then have b: "heap_ok e1" "devices_ok view fdof e1" "ops_ok view e1" by (simp_all add: base_inv_def)
  define e2 where "e2 = (snd (new_watch d w e1))\<lparr>watch_data := (watch_data e1)(w \<mapsto> next_obj e1)\<rparr>"
  have h: "watch_heap e1 (next_obj e1) = None"
    using b(1) unfolding heap_ok_def by (metis less_irrefl option.exhaust)
  then have u: "device_users e2 x = (if x = d then insert (next_obj e1) (device_users e1 d) else device_users e1 x)" for x
    by (auto simp: device_users_def e2_def new_watch_def)
  have "next_obj e1 \<notin> device_users e1 d" using h by (simp add: device_users_def)
  then have c: "card (device_users e2 d) = Suc (card (device_users e1 d))"
    using u device_users_finite [OF b(1)] by simp
  have w: "wo_watch wo \<noteq> w" if "watch_heap e1 this = Some wo" for this wo
    using that assms(2) i b(1) by (force simp: heap_ok_def)
  have "watch_data e1 x \<noteq> Some (next_obj e1)" for x
    using b(1) h unfolding heap_ok_def by (metis option.distinct(1))
  then have "heap_ok e2" using b(1) w h
    by (auto simp: heap_ok_def e2_def new_watch_def less_Suc_eq)
  moreover have "ops_ok view e2" using b(3)
    by (auto simp: ops_ok_def e2_def new_watch_def less_Suc_eq)
  moreover have "device_refs e2 = device_owners e2"
    using b(2) u c by (auto simp: devices_ok_def device_owners_def fun_eq_iff e2_def new_watch_def)
  then have "devices_ok view fdof e2" using b(2) i
    by (auto simp: devices_ok_def with_device_def e2_def new_watch_def)
  moreover have "tidy fdof P e2" using i u by (auto simp: tidy_def tidy_but_def with_device_def e2_def new_watch_def)
  ultimately have "exec_inv view fdof P e2" by (simp add: exec_inv_def base_inv_def)
  moreover have "e' = e2 \<or> (\<exists>r. Watch_restart A W (next_obj e1) e2 = Some (r, e'))"
    using assms(3,4) d
    by (auto simp: on_dbus_add_watch_def Watch_start_def e2_def new_watch_def pbind_eq_Some Let_def split: if_splits)
  ultimately show ?thesis using restart_inv by blast
qed

text \<open>Removing a watch: its operations are cancelled, and with its last user a device leaves the map.\<close>

definition erases :: "int \<Rightarrow> nat \<Rightarrow> 'io executor \<Rightarrow> bool" where
  "erases fd d e \<longleftrightarrow> map_of (devices e) fd = Some d \<and> device_refs e d = 2"

definition erased :: "int \<Rightarrow> nat \<Rightarrow> 'io executor \<Rightarrow> 'io executor" where
  "erased fd d e = e\<lparr>devices := filter (\<lambda>p. fst p \<noteq> fd) (devices e), device_refs := (device_refs e)(d := 1)\<rparr>"

lemma remove_watch_cases:
  assumes "base_inv view fdof e" and "w_fd (W w) = fdof w" and "on_dbus_remove_watch A W w e = Some (r, e')"
  obtains (none) "watch_data e w = None" "r = Inr ()" "e' = e"
  | (kept) this wo where "watch_data e w = Some this" "watch_heap e this = Some wo" "r = Inr ()"
      "\<forall>d. \<not> erases (fdof w) d e" "e' = e\<lparr>io := io_cancel A (io e) (stream_descriptor wo)\<rparr>"
  | (gone) this wo d where "watch_data e w = Some this" "watch_heap e this = Some wo" "r = Inr ()"
      "erases (fdof w) d e" "e' = erased (fdof w) d (e\<lparr>io := io_cancel A (io e) (stream_descriptor wo)\<rparr>)"
proof (cases "watch_data e w")
  case None
  with assms(3) show thesis by (intro none) (simp_all add: on_dbus_remove_watch_def preturn_def)
next
  case (Some this)
  with assms(1) obtain wo where wo: "watch_heap e this = Some wo" by (rule live_base)
  note eqs = on_dbus_remove_watch_def Watch_cancel_def pbind_eq_Some Let_def Some wo assms(2) preturn_def
  show thesis
  proof (cases "\<exists>d. erases (fdof w) d e")
    case True
    then obtain d where d: "erases (fdof w) d e" ..
    with assms(3) show thesis
      by (intro gone [OF Some wo _ d]) (auto simp: eqs erases_def erased_def sp_drop_def)
  next
    case False
    with assms(3) show thesis
      by (intro kept [OF Some wo]) (auto simp: eqs erases_def split: option.splits if_splits)
  qed
qed

lemma erased_base:
  assumes "base_inv view fdof e" and "erases fd d e"
  shows "base_inv view fdof (erased fd d e)"
proof -
  have m: "(fd, d) \<in> set (devices e)" "device_refs e d = 2" using assms(2) by (auto simp: erases_def dest: map_of_SomeD)
  have b: "devices_ok view fdof e" using assms(1) by (simp add: base_inv_def)
  have u: "x = fd \<longleftrightarrow> y = d" if "(x, y) \<in> set (devices e)" for x y
  proof
    assume "x = fd"
    with m(1) that b show "y = d" using eq_key_imp_eq_value [of "devices e" fd d y] by (simp add: devices_ok_def)
  next
    assume "y = d"
    moreover have "dev_fd (view (io e)) d = Some fd" "dev_fd (view (io e)) y = Some x" using m(1) that b by (auto simp: devices_ok_def)
    ultimately show "x = fd" by simp
  qed
  have "snd ` set (filter (\<lambda>p. fst p \<noteq> fd) (devices e)) = snd ` set (devices e) - {d}" using u by force
  moreover have "device_users (erased fd d e) = device_users e" by (simp add: erased_def device_users_def [abs_def])
  moreover have "device_refs e = device_owners e" using b by (simp add: devices_ok_def)
  moreover have "d \<in> snd ` set (devices e)" using m(1) by force
  moreover have "devices (erased fd d e) = filter (\<lambda>p. fst p \<noteq> fd) (devices e)"
    "device_refs (erased fd d e) = (device_refs e)(d := 1)" by (simp_all add: erased_def)
  ultimately have "device_refs (erased fd d e) = device_owners (erased fd d e)"
    using m(2) by (simp add: device_owners_def fun_eq_iff)
  with assms(1) show ?thesis
    by (auto simp: base_inv_def devices_ok_def heap_ok_def ops_ok_def erased_def distinct_map_filter)
qed

lemma cancel_io_base: "base_inv view fdof e \<Longrightarrow> base_inv view fdof (e\<lparr>io := io_cancel A (io e) d\<rparr>)"
  by (erule same_watches_base) (auto simp: same_watches_def view_simps v_cancel_def split: if_splits)

lemma erases_io [simp]: "erases fd d (e\<lparr>io := s\<rparr>) = erases fd d e"
  by (simp add: erases_def)

lemma remove_watch_base:
  assumes "base_inv view fdof e" and "w_fd (W w) = fdof w" and "on_dbus_remove_watch A W w e = Some (r, e')"
  shows "base_inv view fdof e'"
  using assms by (cases rule: remove_watch_cases [OF assms]) (auto intro: cancel_io_base erased_base)

text \<open>Freeing a watch: a device it alone owns is released and then destroyed.\<close>

definition freed :: "nat \<Rightarrow> nat \<Rightarrow> nat \<Rightarrow> 'io executor \<Rightarrow> 'io executor" where
  "freed w this d e = e\<lparr>watch_heap := (watch_heap e)(this := None), watch_data := (watch_data e)(w := None),
     device_refs := (device_refs e)(d := device_refs e d - 1),
     io := (if device_refs e d = 1 then io_destroy A (io_release A (io_cancel A (io e) d) d) d else io_cancel A (io e) d)\<rparr>"

lemma free_watch_cases:
  assumes "base_inv view fdof e" and "delete_watch A w e = Some (r, e')"
  obtains (none) "watch_data e w = None" "r = Inr ()" "e' = e"
  | (freed) this wo where "watch_data e w = Some this" "watch_heap e this = Some wo" "wo_watch wo = w" "r = Inr ()"
      "e' = freed w this (stream_descriptor wo) e"
proof (cases "watch_data e w")
  case None
  with assms(2) show thesis by (intro none) (simp_all add: delete_watch_def preturn_def)
next
  case (Some this)
  with assms(1) obtain wo where wo: "watch_heap e this = Some wo" "wo_watch wo = w"
    "device_refs e (stream_descriptor wo) = device_owners e (stream_descriptor wo)"
    "0 < card (device_users e (stream_descriptor wo))" by (rule live_base)
  then have "0 < device_refs e (stream_descriptor wo)" by (simp add: device_owners_def)
  then have "device_refs e (stream_descriptor wo) - 1 = 0 \<longleftrightarrow> device_refs e (stream_descriptor wo) = 1" by linarith
  with assms(2) Some wo show thesis
    by (intro freed [OF Some wo(1,2)])
      (auto simp: delete_watch_def Watch_destroy_def sp_drop_def Let_def pbind_def preturn_def pmodify_def freed_def)
qed

lemma freed_base:
  assumes b: "base_inv view fdof e" and data: "watch_data e w = Some this" and wo: "watch_heap e this = Some wo" "wo_watch wo = w"
  shows "base_inv view fdof (freed w this (stream_descriptor wo) e)"
proof -
  let ?d = "stream_descriptor wo" and ?e = "freed w this (stream_descriptor wo) e"
  have k: "heap_ok e" "devices_ok view fdof e" "ops_ok view e" using b by (simp_all add: base_inv_def)
  have us: "device_users ?e x = device_users e x - {this}" for x by (auto simp: device_users_def freed_def)
  have other: "device_users ?e x = device_users e x" if "x \<noteq> ?d" for x
    using us that wo by (auto simp: device_users_def)
  have mem: "this \<in> device_users e ?d" using wo by (simp add: device_users_def)
  have fin: "finite (device_users e ?d)" using k(1) by (rule device_users_finite)
  have c: "card (device_users e ?d) = Suc (card (device_users ?e ?d))" using card.remove [OF fin mem] us by simp
  have r: "device_refs e = device_owners e" using k(2) by (simp add: devices_ok_def)
  have "device_owners ?e x = (if x = ?d then device_owners e ?d - 1 else device_owners e x)" for x
    using c other by (simp add: device_owners_def) (simp add: freed_def)
  moreover have "device_refs ?e x = (if x = ?d then device_refs e ?d - 1 else device_refs e x)" for x by (simp add: freed_def)
  ultimately have refs: "device_refs ?e = device_owners ?e" using r by (simp add: fun_eq_iff)
  have alone: "?d \<notin> snd ` set (devices e)" "device_users e ?d = {this}" if "device_refs e ?d = 1"
  proof -
    from that r c have "card (device_users e ?d) = 1" "?d \<notin> snd ` set (devices e)"
      by (auto simp: device_owners_def split: if_splits)
    with mem show "?d \<notin> snd ` set (devices e)" "device_users e ?d = {this}" by (auto simp: card_1_singleton_iff)
  qed
  have vw: "view (io ?e) = (if device_refs e ?d = 1 then v_destroy ?d (v_release ?d (v_cancel ?d (view (io e))))
      else v_cancel ?d (view (io e)))" by (simp add: freed_def view_simps)
  have fds: "dev_fd (view (io ?e)) x = dev_fd (view (io e)) x" if "device_refs e ?d = 1 \<Longrightarrow> x \<noteq> ?d" for x
    using that by (simp add: vw v_cancel_def v_release_def v_destroy_def)
  have "closed_fds (view (io ?e)) = []" using k(2) by (simp add: vw devices_ok_def v_cancel_def v_release_def v_destroy_def)
  moreover have "dev_fd (view (io ?e)) x = Some f" if "(f, x) \<in> set (devices e)" for f x
  proof -
    have "x \<noteq> ?d" if "device_refs e ?d = 1" using alone(1) [OF that] \<open>(f, x) \<in> set (devices e)\<close> by force
    then show ?thesis using fds [of x] k(2) that by (auto simp: devices_ok_def)
  qed
  moreover have "dev_fd (view (io ?e)) (stream_descriptor wo') = Some (fdof (wo_watch wo'))"
    if t: "watch_heap ?e t = Some wo'" for t wo'
  proof -
    from t have t': "t \<noteq> this" "watch_heap e t = Some wo'" by (auto simp: freed_def split: if_splits)
    then have "stream_descriptor wo' \<noteq> ?d" if "device_refs e ?d = 1" using alone(2) [OF that] by (auto simp: device_users_def)
    then show ?thesis using fds [of "stream_descriptor wo'"] k(2) t' by (auto simp: devices_ok_def)
  qed
  moreover have "devices ?e = devices e" by (simp add: freed_def)
  ultimately have "devices_ok view fdof ?e" using k(2) refs unfolding devices_ok_def by auto
  moreover have "heap_ok ?e"
    unfolding heap_ok_def
  proof (intro conjI allI impI)
    fix t x assume "watch_heap ?e t = Some x"
    then have t: "t \<noteq> this" "watch_heap e t = Some x" by (auto simp: freed_def split: if_splits)
    with k(1) have "t < next_obj e" "watch_data e (wo_watch x) = Some t" by (auto simp: heap_ok_def)
    with t data show "t < next_obj ?e" "watch_data ?e (wo_watch x) = Some t" by (auto simp: freed_def)
  next
    fix v t assume "watch_data ?e v = Some t"
    then have t: "v \<noteq> w" "watch_data e v = Some t" by (auto simp: freed_def split: if_splits)
    with k(1) obtain x where "watch_heap e t = Some x" "wo_watch x = v" unfolding heap_ok_def by blast
    with t wo show "\<exists>x. watch_heap ?e t = Some x \<and> wo_watch x = v" by (auto simp: freed_def)
  qed
  moreover have "dev_ops (view (io ?e)) x = (if x = ?d then [] else dev_ops (view (io e)) x)" for x
    by (simp add: vw v_cancel_def v_release_def v_destroy_def)
  then have "ops_ok view ?e" using k(3) by (simp add: ops_ok_def) (simp add: freed_def)
  ultimately show ?thesis by (simp add: base_inv_def)
qed

lemma free_watch_base:
  assumes "base_inv view fdof e" and "delete_watch A w e = Some (r, e')"
  shows "base_inv view fdof e'"
  using assms
proof (cases rule: free_watch_cases)
  case (freed this wo)
  with freed_base [OF assms(1)] show ?thesis by simp
qed (use assms(1) in simp)

text \<open>Tidy descriptors are left alone when watches in \<open>P\<close> are removed and freed.\<close>

lemma tidy_remove:
  assumes e: "exec_inv view fdof P e" and w: "w \<in> P" "w_fd (W w) = fdof w" and r: "on_dbus_remove_watch A W w e = Some (r, e')"
  shows "exec_inv view fdof P e'"
proof -
  have b: "base_inv view fdof e" and t: "tidy fdof P e" using e by (simp_all add: exec_inv_def)
  have "tidy fdof P e'" using b w(2) r
  proof (cases rule: remove_watch_cases)
    case (gone this wo d)
    with t w(1) show ?thesis by (auto simp: tidy_def erased_def device_users_def)
  qed (use t in \<open>auto simp: tidy_def device_users_def\<close>)
  with remove_watch_base [OF b w(2) r] show ?thesis by (simp add: exec_inv_def)
qed

lemma tidy_free:
  assumes e: "exec_inv view fdof P e" and w: "w \<in> P" and r: "delete_watch A w e = Some (r, e')"
  shows "exec_inv view fdof P e'"
proof -
  have b: "base_inv view fdof e" and t: "tidy fdof P e" using e by (simp_all add: exec_inv_def)
  have "tidy fdof P e'" using b r
  proof (cases rule: free_watch_cases)
    case (freed this wo)
    have us: "device_users e' x = device_users e x - {this}" for x by (auto simp: device_users_def freed_def freed(5))
    have "device_users e' x \<noteq> {}" if x: "(fd, x) \<in> set (devices e)" "fd \<notin> fdof ` P" for fd x
    proof -
      have "dev_fd (view (io e)) x = Some fd" "dev_fd (view (io e)) (stream_descriptor wo) = Some (fdof w)"
        using b x(1) freed(2,3) by (auto simp: base_inv_def devices_ok_def)
      with x(2) w have "stream_descriptor wo \<noteq> x" by auto
      then have "this \<notin> device_users e x" using freed(2) by (simp add: device_users_def)
      with us t x show ?thesis by (auto simp: tidy_def)
    qed
    with t show ?thesis by (auto simp: tidy_def freed(5) freed_def split: if_splits)
  qed (use t in simp)
  with free_watch_base [OF b r] show ?thesis by (simp add: exec_inv_def)
qed

text \<open>
  A watch that is removed and freed at once takes its device with it if it was the last.
\<close>

lemma drop_watch_inv:
  assumes e: "exec_inv view fdof P e" and fd: "w_fd (W w) = fdof w"
    and drop: "pbind (on_dbus_remove_watch A W w) (\<lambda>_. delete_watch A w) e = Some (r, e')"
  shows "exec_inv view fdof P e'"
proof -
  have b: "base_inv view fdof e" and t: "tidy fdof P e" using e by (simp_all add: exec_inv_def)
  have ok: "distinct (map fst (devices e))" "device_refs e = device_owners e"
    and dev: "\<And>f x. (f, x) \<in> set (devices e) \<Longrightarrow> dev_fd (view (io e)) x = Some f"
    using b by (auto simp: base_inv_def devices_ok_def)
  obtain r1 e1 where rm: "on_dbus_remove_watch A W w e = Some (r1, e1)"
    using drop by (auto simp: pbind_eq_Some)
  have b1: "base_inv view fdof e1" by (rule remove_watch_base [OF b fd rm])
  have del: "delete_watch A w e1 = Some (r, e')"
    using b fd rm by (cases rule: remove_watch_cases) (use drop rm in \<open>auto simp: pbind_eq_Some\<close>)
  have "tidy fdof P e'"
  proof (cases "watch_data e w")
    case None
    with rm del have "e' = e" by (simp add: on_dbus_remove_watch_def delete_watch_def preturn_def)
    with t show ?thesis by simp
  next
    case (Some this)
    with b obtain wo where wo: "watch_heap e this = Some wo" "wo_watch wo = w"
      "dev_fd (view (io e)) (stream_descriptor wo) = Some (fdof w)" by (rule live_base)
    let ?d = "stream_descriptor wo"
    have e1: "watch_heap e1 = watch_heap e \<and> watch_data e1 = watch_data e \<and> devices e1 = (if \<exists>d. erases (fdof w) d e
        then filter (\<lambda>p. fst p \<noteq> fdof w) (devices e) else devices e)"
      using b fd rm
    proof (cases rule: remove_watch_cases)
      case (gone this wo d)
      then have "\<exists>d. erases (fdof w) d e" by blast
      with gone show ?thesis by (simp add: erased_def)
    qed (use Some in simp_all)
    have e': "watch_heap e' = (watch_heap e)(this := None) \<and> devices e' = devices e1"
      using b1 del by (cases rule: free_watch_cases) (use e1 Some in \<open>auto simp: freed_def\<close>)
    then have us: "device_users e' x = device_users e x - {this}" for x by (auto simp: device_users_def)
    have gone: "device_users e ?d = {this}" if "erases (fdof w) d e" "fdof w \<notin> fdof ` P" for d
    proof -
      have m: "map_of (devices e) (fdof w) = Some ?d" using e Some that(2) wo(1) by (auto elim: live_watch)
      then have "?d \<in> snd ` set (devices e)" by (force dest: map_of_SomeD)
      with m that(1) ok(2) have "card (device_users e ?d) = 1" by (simp add: erases_def device_owners_def)
      moreover have "this \<in> device_users e ?d" using wo(1) by (simp add: device_users_def)
      ultimately show ?thesis by (auto simp: card_1_singleton_iff)
    qed
    show ?thesis
      unfolding tidy_def
    proof (intro conjI allI impI ballI, safe)
      fix t' x assume x: "watch_heap e' t' = Some x" "fdof (wo_watch x) \<notin> fdof ` P"
      then have t': "t' \<noteq> this" "watch_heap e t' = Some x" using e' by (auto split: if_splits)
      with t x(2) have m: "(fdof (wo_watch x), stream_descriptor x) \<in> set (devices e)" by (auto simp: tidy_def)
      have "fdof (wo_watch x) \<noteq> fdof w" if er: "erases (fdof w) d e" for d
      proof
        assume f: "fdof (wo_watch x) = fdof w"
        with m x(2) wo t have "stream_descriptor x = ?d"
          using eq_key_imp_eq_value [OF ok(1), of "fdof w"] by (auto simp: tidy_def)
        then have "t' \<in> device_users e ?d" using t'(2) by (simp add: device_users_def)
        with gone [OF er] f x(2) t'(1) show False by auto
      qed
      with m show "(fdof (wo_watch x), stream_descriptor x) \<in> set (devices e')" using e' e1 by auto
    next
      fix f x assume m: "(f, x) \<in> set (devices e')" and f: "f \<notin> fdof ` P" and u: "device_users e' x = {}"
      from m have m': "(f, x) \<in> set (devices e)" using e' e1 by (auto split: if_splits)
      with t f have "device_users e x \<noteq> {}" by (auto simp: tidy_def)
      with us u have one: "device_users e x = {this}" by auto
      then have "this \<in> device_users e x" by simp
      then have "x = ?d" using wo(1) by (simp add: device_users_def)
      with dev [OF m'] wo(3) m' ok(1) have "f = fdof w" "map_of (devices e) (fdof w) = Some x" by auto
      moreover have "x \<in> snd ` set (devices e)" using m' by force
      then have "device_refs e x = 2" using ok(2) one by (simp add: device_owners_def)
      ultimately have "\<exists>d. erases (fdof w) d e" "f = fdof w" by (auto simp: erases_def)
      with m show False using e' e1 by simp
    qed
  qed
  with free_watch_base [OF b1 del] show ?thesis by (simp add: exec_inv_def)
qed

section \<open>Which operations a call may leave behind\<close>

text \<open>
  A call changes nothing for the watches outside \<open>S\<close> but that their operations are cancelled, and
  it lets no watch wait for a timer.
\<close>

definition pending_ops :: "'io executor \<Rightarrow> completion set" where
  "pending_ops e = (\<Union>d. set (dev_ops (view (io e)) d)) \<union> (\<Union>t. set (timer_ops (view (io e)) t))"

definition tame :: "nat set \<Rightarrow> 'io executor \<Rightarrow> 'io executor \<Rightarrow> bool" where
  "tame S e e' \<longleftrightarrow> handled e' = handled e \<and>
     (\<forall>t. \<forall>h \<in> set (timer_ops (view (io e')) t). watch_of_completion h = None \<or> h \<in> set (timer_ops (view (io e)) t)) \<and>
     (\<forall>this wo. watch_heap e' this = Some wo \<longrightarrow> wo_watch wo \<notin> S \<longrightarrow> watch_heap e this = Some wo \<and>
        (\<forall>h. watch_of_completion h = Some this \<longrightarrow> (h \<in> pending_ops e' \<longrightarrow> h \<in> pending_ops e) \<and>
           (\<forall>ec. (h, ec) \<in> set (io_queue (view (io e'))) \<longrightarrow> (h, ec) \<in> set (io_queue (view (io e))) \<or> ec = Aborted)))"

lemma tame_refl [simp]: "tame S e e"
  by (simp add: tame_def)

lemma tame_trans:
  assumes "tame S e e'" and "tame S e' e''"
  shows "tame S e e''"
  unfolding tame_def
proof (intro conjI allI impI ballI)
  show "handled e'' = handled e" using assms by (simp add: tame_def)
  fix t h assume "h \<in> set (timer_ops (view (io e'')) t)"
  with assms show "watch_of_completion h = None \<or> h \<in> set (timer_ops (view (io e)) t)" unfolding tame_def by blast
next
  fix this wo assume wo: "watch_heap e'' this = Some wo" "wo_watch wo \<notin> S"
  with assms(2) have wo': "watch_heap e' this = Some wo" unfolding tame_def by blast
  with wo assms(1) show "watch_heap e this = Some wo" unfolding tame_def by blast
  fix h assume h: "watch_of_completion h = Some this"
  show "h \<in> pending_ops e" if "h \<in> pending_ops e''"
    using that wo wo' h assms unfolding tame_def by blast
  show "(h, ec) \<in> set (io_queue (view (io e))) \<or> ec = Aborted" if "(h, ec) \<in> set (io_queue (view (io e'')))" for ec
    using that wo wo' h assms unfolding tame_def by blast
qed

text \<open>What does not reach the handlers of watches, and the functions of Asio.\<close>

lemma tame_upd [simp]:
  "tame S e (e'\<lparr>devices := x\<rparr>) \<longleftrightarrow> tame S e e'" "tame S e (e'\<lparr>device_refs := y\<rparr>) \<longleftrightarrow> tame S e e'"
  "tame S e (e'\<lparr>watch_data := z\<rparr>) \<longleftrightarrow> tame S e e'" "tame S e (e'\<lparr>next_obj := n\<rparr>) \<longleftrightarrow> tame S e e'"
  "tame S e (e'\<lparr>timeout_heap := u\<rparr>) \<longleftrightarrow> tame S e e'" "tame S e (e'\<lparr>tm_data := v\<rparr>) \<longleftrightarrow> tame S e e'"
  by (simp_all add: tame_def pending_ops_def)

lemma tame_forget: "tame S e e' \<Longrightarrow> tame S e (e'\<lparr>watch_heap := (watch_heap e')(this := None)\<rparr>)"
  by (auto simp: tame_def pending_ops_def)

lemma tame_new: "wo_watch wo \<in> S \<Longrightarrow> tame S e (e\<lparr>watch_heap := (watch_heap e)(this \<mapsto> wo)\<rparr>)"
  by (auto simp: tame_def pending_ops_def)

lemma tame_io:
  "tame S e (e\<lparr>io := io_cancel A (io e) d\<rparr>)" "tame S e (e\<lparr>io := io_release A (io e) d\<rparr>)"
  "tame S e (e\<lparr>io := io_destroy A (io e) d\<rparr>)" "tame S e (e\<lparr>io := io_timer_cancel A (io e) t\<rparr>)"
  "tame S e (e\<lparr>io := io_expires A (io e) t ms\<rparr>)" "tame S e (e\<lparr>io := io_post A (io e) Wakeup\<rparr>)"
  "tame S e (e\<lparr>io := io_timer_wait A (io e) t (OnTimeout this)\<rparr>)"
  by (auto simp: tame_def pending_ops_def view_simps v_cancel_def v_release_def v_destroy_def v_timer_cancel_def
      watch_of_completion_def split: if_splits completion.splits)

lemma tame_same_view: "view s = view (io e) \<Longrightarrow> tame S e (e\<lparr>io := s\<rparr>)"
  by (simp add: tame_def pending_ops_def)

lemma tame_restart:
  assumes "\<And>wo. watch_heap e this = Some wo \<Longrightarrow> wo_watch wo \<in> S" and "Watch_restart A W this e = Some (r, e')"
  shows "tame S e e'"
proof (cases "watch_heap e this")
  case None
  with assms(2) show ?thesis by (simp add: Watch_restart_def)
next
  case (Some wo)
  then have "x \<noteq> this" if "watch_heap e x = Some wo'" "wo_watch wo' \<notin> S" for x wo' using that assms(1) by auto
  with Some assms(2) show ?thesis
    by (auto simp: Watch_restart_def Let_def tame_def pending_ops_def view_simps v_async_def watch_of_completion_def
        split: if_splits completion.splits)
qed

lemma tame_sp_drop: "tame S e (sp_drop A d e)"
  using tame_io(3) [of S e d] by (simp add: sp_drop_def Let_def tame_def pending_ops_def)

lemma tame_cancel: "Watch_cancel A this e = Some (r, e') \<Longrightarrow> tame S e e'"
  by (auto simp: Watch_cancel_def tame_io split: option.splits)

lemma tame_destroy:
  assumes "Watch_destroy A this e = Some (r, e')"
  shows "tame S e e'"
proof (cases "watch_heap e this")
  case None
  with assms show ?thesis by (simp add: Watch_destroy_def)
next
  case (Some wo)
  let ?d = "stream_descriptor wo"
  let ?e1 = "e\<lparr>io := io_cancel A (io e) ?d\<rparr>"
  let ?e2 = "if device_refs ?e1 ?d = 1 then ?e1\<lparr>io := io_release A (io ?e1) ?d\<rparr> else ?e1"
  have e': "e' = (sp_drop A ?d ?e2)\<lparr>watch_heap := (watch_heap (sp_drop A ?d ?e2))(this := None)\<rparr>"
    using assms Some by (simp add: Watch_destroy_def Let_def)
  have "tame S e ?e1" by (rule tame_io)
  moreover have "tame S ?e1 ?e2" using tame_io(2) [of S ?e1 ?d] by auto
  ultimately have "tame S e (sp_drop A ?d ?e2)" by (blast intro: tame_trans tame_sp_drop)
  then show ?thesis unfolding e' by (rule tame_forget)
qed

lemma tame_timeouts:
  "Timeout_start A T this e = Some (r, e') \<Longrightarrow> tame S e e'" "Timeout_cancel A this e = Some (r, e') \<Longrightarrow> tame S e e'"
  using tame_trans [OF tame_io(5) tame_io(7), of S e]
  by (auto simp: Timeout_start_def Timeout_cancel_def Let_def tame_io split: option.splits)

lemma add_watch_tame:
  assumes "w \<in> S" and "on_dbus_add_watch A W w e = Some (r, e')"
  shows "tame S e e'"
proof -
  obtain d e1 where d: "device_for A (w_fd (W w)) e = (d, e1)" by force
  have "tame S e e1"
  proof (cases "map_of (devices e) (w_fd (W w))")
    case None
    with d obtain s where "io_descriptor A (io e) (w_fd (W w)) = (d, s)" and
      e1: "e1 = e\<lparr>io := s, devices := (w_fd (W w), d) # devices e, device_refs := (device_refs e)(d := 1)\<rparr>"
      by (auto simp: device_for_def split: prod.splits)
    then show ?thesis by (simp add: tame_def pending_ops_def descriptor)
  qed (use d in \<open>simp add: device_for_def\<close>)
  moreover define e2 where "e2 = (snd (new_watch d w e1))\<lparr>watch_data := (watch_data e1)(w \<mapsto> next_obj e1)\<rparr>"
  have "tame S e1 e2" using assms(1) by (auto simp: e2_def new_watch_def tame_def pending_ops_def)
  moreover have "e' = e2 \<or> (\<exists>r. Watch_restart A W (next_obj e1) e2 = Some (r, e'))"
    using assms(2) d
    by (auto simp: on_dbus_add_watch_def Watch_start_def e2_def new_watch_def pbind_eq_Some Let_def split: if_splits)
  then have "tame S e2 e'"
  proof
    assume "\<exists>r. Watch_restart A W (next_obj e1) e2 = Some (r, e')"
    then show ?thesis using assms(1) tame_restart [of e2 "next_obj e1" S W] by (auto simp: e2_def new_watch_def)
  qed simp
  ultimately show ?thesis by (blast intro: tame_trans)
qed

lemma remove_watch_tame:
  assumes r: "on_dbus_remove_watch A W w e = Some (r, e1)"
  shows "tame S e e1"
proof (cases "watch_data e w")
  case (Some this)
  have "tame S x (sp_drop A d (x\<lparr>devices := ds\<rparr>))" for x d ds
    using tame_sp_drop [of S "x\<lparr>devices := ds\<rparr>" d] by (rule tame_trans [rotated]) simp
  moreover from Some r have "(\<exists>x. Watch_cancel A this e = Some (x, e1)) \<or>
      (\<exists>x t d ds. Watch_cancel A this e = Some (x, t) \<and> e1 = sp_drop A d (t\<lparr>devices := ds\<rparr>))"
    by (auto simp: on_dbus_remove_watch_def pbind_eq_Some Let_def split: option.split_asm if_split_asm) metis+
  ultimately show ?thesis using tame_cancel tame_trans by blast
qed (use r in \<open>simp add: on_dbus_remove_watch_def\<close>)

lemma free_watch_tame: "delete_watch A w e = Some (r, e') \<Longrightarrow> tame S e e'"
  by (auto simp: delete_watch_def pbind_eq_Some pmodify_def split: option.splits dest: tame_destroy [of _ _ _ _ S])

lemma drop_watch_tame: "pbind (on_dbus_remove_watch A W w) (\<lambda>_. delete_watch A w) e = Some (r, e') \<Longrightarrow> tame S e e'"
  by (auto simp: pbind_eq_Some intro: tame_trans remove_watch_tame free_watch_tame)

lemma toggled_tame:
  assumes "exec_inv view fdof P e" and "w_enabled (W w) \<Longrightarrow> w \<in> S" and "on_dbus_watch_toggled A W w e = Some (r, e')"
  shows "tame S e e'"
proof (cases "watch_data e w")
  case (Some this)
  with assms(1) obtain wo where "watch_heap e this = Some wo" "wo_watch wo = w" by (rule live_watch)
  with Some assms(2,3) tame_restart [of e this S W r e'] show ?thesis
    by (auto simp: on_dbus_watch_toggled_def split: if_splits intro: tame_cancel)
qed (use assms(3) in \<open>simp add: on_dbus_watch_toggled_def\<close>)

lemma timeout_calls_tame:
  "on_dbus_add_timeout A T t e = Some (r, e') \<Longrightarrow> tame S e e'"
  "pbind (on_dbus_remove_timeout A t) (\<lambda>_. delete_timeout A t) e = Some (r', e') \<Longrightarrow> tame S e e'"
  "on_dbus_timeout_toggled A T t e = Some (r', e') \<Longrightarrow> tame S e e'"
  "on_dbus_wakeup_event_loop A e = Some (r', e') \<Longrightarrow> tame S e e'"
proof -
  assume a: "on_dbus_add_timeout A T t e = Some (r, e')"
  obtain tm s where s: "io_timer A (io e) = (tm, s)" by force
  let ?e = "e\<lparr>io := s, timeout_heap := (timeout_heap e)(next_obj e \<mapsto> \<lparr>to_timer = tm, to_timeout = t\<rparr>),
    next_obj := Suc (next_obj e), tm_data := (tm_data e)(t \<mapsto> next_obj e)\<rparr>"
  have "tame S e ?e" using timer [OF s] by (simp add: tame_same_view)
  moreover from a s have "tame S ?e e'"
    by (auto simp: on_dbus_add_timeout_def Let_def pbind_eq_Some intro: tame_timeouts)
  ultimately show "tame S e e'" by (rule tame_trans)
next
  have d: "tame S x y" if "delete_timeout A t x = Some (r, y)" for x y r
    using that by (auto simp: delete_timeout_def Timeout_destroy_def pbind_eq_Some pmodify_def split: option.splits
        dest: tame_timeouts(2) [of _ _ _ _ S])
  assume "pbind (on_dbus_remove_timeout A t) (\<lambda>_. delete_timeout A t) e = Some (r', e')"
  then show "tame S e e'"
    by (auto simp: pbind_eq_Some on_dbus_remove_timeout_def split: option.splits
        dest!: tame_timeouts(2) [of _ _ _ _ S] d intro: tame_trans)
next
  assume "on_dbus_timeout_toggled A T t e = Some (r', e')"
  then show "tame S e e'"
    by (auto simp: on_dbus_timeout_toggled_def split: option.splits if_splits intro: tame_timeouts)
next
  assume "on_dbus_wakeup_event_loop A e = Some (r', e')"
  then show "tame S e e'" by (auto simp: on_dbus_wakeup_event_loop_def pmodify_def tame_io)
qed

text \<open>The calls of libdbus keep the invariant and are tame.\<close>

lemma callback_inv: "callback_step A fdof P S e e' \<Longrightarrow> exec_inv view fdof P e \<Longrightarrow> exec_inv view fdof P e'"
  by (erule callback_step.cases)
    (auto intro: executor_add_inv tidy_remove tidy_free drop_watch_inv toggled_inv devices_alone_inv add_timeout_alone timeout_calls_alone)

lemma callback_tame: "callback_step A fdof P S e e' \<Longrightarrow> exec_inv view fdof P e \<Longrightarrow> tame S e e'"
  by (erule callback_step.cases) (auto intro: add_watch_tame remove_watch_tame free_watch_tame drop_watch_tame toggled_tame timeout_calls_tame)

lemma callbacks_ok:
  assumes "(callback_step A fdof P S)\<^sup>*\<^sup>* e e'" and "exec_inv view fdof P e"
  shows "exec_inv view fdof P e' \<and> tame S e e'"
  using assms by (induction) (auto intro: callback_inv callback_tame tame_trans)

section \<open>Rounds of the \<open>io_context\<close>\<close>

text \<open>An operation that completes was waiting.\<close>

lemma io_progress_sets:
  assumes "io_progress v v'"
  shows "set (dev_ops v' d) \<subseteq> set (dev_ops v d)" and "set (timer_ops v' t) \<subseteq> set (timer_ops v t)"
    and "\<And>h ec. (h, ec) \<in> set (io_queue v') \<Longrightarrow> (h, ec) \<in> set (io_queue v) \<or>
      (\<exists>d. h \<in> set (dev_ops v d)) \<or> (\<exists>t. h \<in> set (timer_ops v t))"
proof -
  show "set (dev_ops v' d) \<subseteq> set (dev_ops v d)" "set (timer_ops v' t) \<subseteq> set (timer_ops v t)"
    using assms by (cases; auto)+
  fix h ec assume "(h, ec) \<in> set (io_queue v')"
  with assms show "(h, ec) \<in> set (io_queue v) \<or> (\<exists>d. h \<in> set (dev_ops v d)) \<or> (\<exists>t. h \<in> set (timer_ops v t))"
    by cases (auto, (metis in_set_conv_decomp)+)
qed

lemma progress_inv:
  assumes "exec_inv view fdof P e" and "io_progress (view (io e)) (view s)"
  shows "exec_inv view fdof P (e\<lparr>io := s\<rparr>)"
  by (rule same_watches_inv [OF assms(1)])
    (use assms(2) in \<open>auto simp: same_watches_def elim!: io_progress.cases split: if_splits\<close>)

lemma next_inv: "exec_inv view fdof P e \<Longrightarrow> io_next A (io e) = Some (c, s) \<Longrightarrow> exec_inv view fdof P (e\<lparr>io := s\<rparr>)"
  by (rule devices_alone_inv) (auto simp: devices_alone_def same_watches_def dest: view_next)

lemma recorded_inv [simp]:
  "exec_inv view fdof P (e\<lparr>handled := x\<rparr>) \<longleftrightarrow> exec_inv view fdof P e"
  "exec_inv view fdof P (e\<lparr>timeouts_handled := y\<rparr>) \<longleftrightarrow> exec_inv view fdof P e"
  by (simp_all add: exec_inv_def base_inv_def tidy_def heap_ok_def devices_ok_def ops_ok_def device_users_def
      device_owners_def [abs_def])

text \<open>A handler that is called: what it did before libdbus was called, and after.\<close>

lemma watch_event_cases:
  assumes "on_watch_event A W H this event ec e = Some (r, e')"
  obtains (skipped) "e' = e" "ec = Aborted \<or> watch_heap e this = None"
  | (dbus) wo f r1 e1 where "ec \<noteq> Aborted" "watch_heap e this = Some wo"
      "dbus_watch_handle H (wo_watch wo) f (e\<lparr>handled := handled e @ [(wo_watch wo, f)]\<rparr>) = Some (r1, e1)"
      "e' = e1 \<or> Watch_restart A W this e1 = Some (r, e')"
proof (cases "ec = Aborted \<or> watch_heap e this = None")
  case True
  with assms have "e' = e" by (auto simp: on_watch_event_def Watch_handle_event_def split: if_splits)
  with True skipped show thesis by blast
next
  case False
  then obtain wo where wo: "watch_heap e this = Some wo" "ec \<noteq> Aborted" by auto
  define f where "f = (if ec \<noteq> Success then DBUS_WATCH_ERROR else event)"
  from assms wo obtain r1 e1 where
    "dbus_watch_handle H (wo_watch wo) f (e\<lparr>handled := handled e @ [(wo_watch wo, f)]\<rparr>) = Some (r1, e1)"
    "e' = e1 \<or> Watch_restart A W this e1 = Some (r, e')"
    by (auto simp: on_watch_event_def Watch_handle_event_def pbind_eq_Some Let_def f_def split: if_splits)
  with wo dbus show thesis by blast
qed

lemma timer_cases:
  assumes "on_timer H this ec e = Some (r, e')"
  obtains (skipped) "e' = e"
  | (dbus) tm where "timeout_heap e this = Some tm" "ec = Success"
      "dbus_timeout_handle H (to_timeout tm) (e\<lparr>timeouts_handled := timeouts_handled e @ [to_timeout tm]\<rparr>) = Some (r, e')"
  using assms by (auto simp: on_timer_def split: if_splits option.splits)

lemma watch_event_inv:
  assumes "calls_back A fdof P S H" and "exec_inv view fdof P e" and "on_watch_event A W H this event ec e = Some (r, e')"
  shows "exec_inv view fdof P e'"
  using assms(3)
proof (cases rule: watch_event_cases)
  case (dbus wo f r1 e1)
  from assms(1) dbus(3) have "(callback_step A fdof P S)\<^sup>*\<^sup>* (e\<lparr>handled := handled e @ [(wo_watch wo, f)]\<rparr>) e1"
    unfolding calls_back_def by blast
  then have "exec_inv view fdof P e1" using assms(2) callbacks_ok by fastforce
  with dbus(4) show ?thesis using restart_inv by blast
qed (use assms(2) in simp)

lemma run_inv:
  assumes "calls_back A fdof P S H" and "exec_inv view fdof P e" and "run_handler A W H c e = Some (r, e')"
  shows "exec_inv view fdof P e'"
proof (cases c)
  case (Pair h ec)
  show ?thesis
  proof (cases h)
    case (OnTimeout this)
    with Pair assms(3) have "on_timer H this ec e = Some (r, e')" by (simp add: run_handler_def)
    then show ?thesis
    proof (cases rule: timer_cases)
      case (dbus tm)
      with assms(1) have "(callback_step A fdof P S)\<^sup>*\<^sup>* (e\<lparr>timeouts_handled := timeouts_handled e @ [to_timeout tm]\<rparr>) e'"
        unfolding calls_back_def by blast
      then show ?thesis using assms(2) callbacks_ok by fastforce
    qed (use assms(2) in simp)
  next
    case Wakeup
    with Pair assms(1,3) have "(callback_step A fdof P S)\<^sup>*\<^sup>* e e'" by (auto simp: run_handler_def calls_back_def)
    then show ?thesis using assms(2) callbacks_ok by blast
  qed (use Pair assms in \<open>auto simp: run_handler_def intro: watch_event_inv\<close>)
qed

lemma exec_step_inv:
  assumes "exec_step A view fdof P S H e e'" and "calls_back A fdof P S H" and "exec_inv view fdof P e"
  shows "exec_inv view fdof P e'"
  using assms by (cases rule: exec_step.cases) (auto intro: callback_inv progress_inv run_inv next_inv)

lemma exec_steps_inv:
  assumes "(exec_step A view fdof P S H)\<^sup>*\<^sup>* e e'" and "calls_back A fdof P S H" and "exec_inv view fdof P e"
  shows "exec_inv view fdof P e'"
  using assms by (induction) (auto intro: exec_step_inv)

end

section \<open>Watches nothing waits for\<close>

context asio
begin

lemma tame_mono: "tame S e e' \<Longrightarrow> S \<subseteq> S' \<Longrightarrow> tame S' e e'"
  unfolding tame_def by blast

text \<open>A handler acts for its own watch, and beyond that does what libdbus does.\<close>

lemma watch_event_tame:
  assumes "calls_back A fdof P S H" and "exec_inv view fdof P e" and "on_watch_event A W H this event ec e = Some (r, e')"
  shows "\<exists>hs T. tame (S \<union> T) (e\<lparr>handled := handled e @ hs\<rparr>) e' \<and> fst ` set hs \<subseteq> T \<and>
    T \<subseteq> {w. ec \<noteq> Aborted \<and> (\<exists>wo. watch_heap e this = Some wo \<and> wo_watch wo = w)}"
  using assms(3)
proof (cases rule: watch_event_cases)
  case (dbus wo f r1 e1)
  let ?hs = "[(wo_watch wo, f)]" and ?T = "{wo_watch wo}"
  let ?e = "e\<lparr>handled := handled e @ ?hs\<rparr>"
  from assms(1) dbus(3) have "(callback_step A fdof P S)\<^sup>*\<^sup>* ?e e1" unfolding calls_back_def by blast
  then have t: "tame S ?e e1" using assms(2) callbacks_ok by fastforce
  have "wo_watch wo1 \<in> S \<union> ?T" if "watch_heap e1 this = Some wo1" for wo1
    using that t dbus(2) by (auto simp: tame_def)
  then have "tame (S \<union> ?T) e1 e'" using dbus(4) tame_restart [of e1 this "S \<union> ?T" W r e'] by auto
  moreover from t have "tame (S \<union> ?T) ?e e1" by (rule tame_mono) auto
  ultimately have "tame (S \<union> ?T) ?e e'" by (blast intro: tame_trans)
  then show ?thesis using dbus(1,2) by (intro exI [of _ ?hs] exI [of _ ?T]) auto
qed (auto intro!: exI [of _ "[]"])

lemma run_tame:
  assumes "calls_back A fdof P S H" and "exec_inv view fdof P e" and "run_handler A W H (h, ec) e = Some (r, e')"
  shows "\<exists>hs ts T. tame (S \<union> T) (e\<lparr>handled := handled e @ hs, timeouts_handled := ts\<rparr>) e' \<and> fst ` set hs \<subseteq> T \<and>
    T \<subseteq> {w. ec \<noteq> Aborted \<and> (\<exists>this wo. watch_of_completion h = Some this \<and> watch_heap e this = Some wo \<and> wo_watch wo = w)}"
proof -
  have event: ?thesis if w: "watch_of_completion h = Some this" and ev: "on_watch_event A W H this event ec e = Some (r, e')"
    for this event
  proof -
    obtain hs T where "tame (S \<union> T) (e\<lparr>handled := handled e @ hs\<rparr>) e'" "fst ` set hs \<subseteq> T"
      "T \<subseteq> {w. ec \<noteq> Aborted \<and> (\<exists>wo. watch_heap e this = Some wo \<and> wo_watch wo = w)}"
      using watch_event_tame [OF assms(1,2) ev] by blast
    with w show ?thesis by (intro exI [of _ hs] exI [of _ "timeouts_handled e"] exI [of _ T]) auto
  qed
  have calls: ?thesis if t: "tame S (e\<lparr>timeouts_handled := ts\<rparr>) e'" for ts
    using t by (intro exI [of _ "[]"] exI [of _ ts] exI [of _ "{}"]) simp
  show ?thesis
  proof (cases h)
    case (OnTimeout this)
    with assms(3) have "on_timer H this ec e = Some (r, e')" by (simp add: run_handler_def)
    then show ?thesis
    proof (cases rule: timer_cases)
      case (dbus tm)
      let ?e = "e\<lparr>timeouts_handled := timeouts_handled e @ [to_timeout tm]\<rparr>"
      from assms(1) dbus have "(callback_step A fdof P S)\<^sup>*\<^sup>* ?e e'" unfolding calls_back_def by blast
      then have "tame S ?e e'" using assms(2) callbacks_ok by fastforce
      then show ?thesis by (rule calls)
    qed (rule calls [of "timeouts_handled e"], simp)
  next
    case Wakeup
    with assms(1,3) have "(callback_step A fdof P S)\<^sup>*\<^sup>* e e'" by (auto simp: run_handler_def calls_back_def)
    then have "tame S e e'" using assms(2) callbacks_ok by blast
    then show ?thesis using calls [of "timeouts_handled e"] by simp
  qed (use assms(3) event in \<open>auto simp: run_handler_def watch_of_completion_def\<close>)
qed

definition timers_ok :: "'io executor \<Rightarrow> bool" where
  "timers_ok e \<longleftrightarrow> (\<forall>t. \<forall>h \<in> set (timer_ops (view (io e)) t). watch_of_completion h = None)"

lemma timers_ok_tame: "timers_ok e \<Longrightarrow> tame S e e' \<Longrightarrow> timers_ok e'"
  unfolding timers_ok_def tame_def by blast

lemma timers_ok_step:
  assumes "exec_step A view fdof P S H e e'" and "calls_back A fdof P S H" and "exec_inv view fdof P e" and "timers_ok e"
  shows "timers_ok e'"
  using assms(1)
proof cases
  case ex_call
  with assms(3,4) show ?thesis using callback_tame timers_ok_tame by blast
next
  case (ex_progress s)
  with assms(4) io_progress_sets(2) [OF ex_progress(2)] show ?thesis by (auto simp: timers_ok_def)
next
  case (ex_run c s W r)
  obtain h ec where c: "c = (h, ec)" by force
  obtain hs ts T where "tame (S \<union> T) (e\<lparr>io := s, handled := handled e @ hs, timeouts_handled := ts\<rparr>) e'"
    using run_tame [OF assms(2) next_inv [OF assms(3) ex_run(1)] ex_run(2) [unfolded c]] by auto
  moreover have "timers_ok (e\<lparr>io := s, handled := handled e @ hs, timeouts_handled := ts\<rparr>)"
    using assms(4) view_next [OF ex_run(1)] by (simp add: timers_ok_def)
  ultimately show ?thesis by (rule timers_ok_tame [rotated])
qed

lemma timers_ok_steps:
  assumes "(exec_step A view fdof P S H)\<^sup>*\<^sup>* e e'" and "calls_back A fdof P S H" and "exec_inv view fdof P e" and "timers_ok e"
  shows "timers_ok e'"
  using assms
proof (induction rule: rtranclp_induct)
  case (step y z)
  then have "exec_inv view fdof P y" by (blast intro: exec_steps_inv)
  with step timers_ok_step [of fdof P S H y z] show ?case by simp
qed simp

text \<open>No operation of the watch waits, and those that are queued are aborted ones.\<close>

definition quiet :: "nat \<Rightarrow> 'io executor \<Rightarrow> bool" where
  "quiet w e \<longleftrightarrow> (\<forall>this wo h. watch_heap e this = Some wo \<longrightarrow> wo_watch wo = w \<longrightarrow> watch_of_completion h = Some this \<longrightarrow>
     h \<notin> pending_ops e \<and> (\<forall>ec. (h, ec) \<in> set (io_queue (view (io e))) \<longrightarrow> ec = Aborted))"

lemma quiet_tame: "quiet w e \<Longrightarrow> tame S e e' \<Longrightarrow> w \<notin> S \<Longrightarrow> quiet w e'"
  unfolding quiet_def tame_def by blast

lemma quiet_step:
  assumes "exec_step A view fdof P S H e e'" and "calls_back A fdof P S H" and "exec_inv view fdof P e" and "w \<notin> S" and "quiet w e"
  shows "quiet w e' \<and> filter (\<lambda>p. fst p = w) (handled e') = filter (\<lambda>p. fst p = w) (handled e)"
  using assms(1)
proof cases
  case ex_call
  with assms(3) have t: "tame S e e'" by (auto intro: callback_tame)
  with assms(4,5) have "quiet w e'" by (auto intro: quiet_tame)
  with t show ?thesis by (simp add: tame_def)
next
  case (ex_progress s)
  have "set (io_queue (view s)) \<subseteq> set (io_queue (view (io e))) \<union> pending_ops e \<times> UNIV"
    "pending_ops (e\<lparr>io := s\<rparr>) \<subseteq> pending_ops e"
    using io_progress_sets [OF ex_progress(2)] by (fastforce simp: pending_ops_def)+
  with assms(5) ex_progress(1) show ?thesis by (fastforce simp: quiet_def)
next
  case (ex_run c s W r)
  obtain h ec where c: "c = (h, ec)" by force
  note v = next_handler [OF ex_run(1)] view_next [OF ex_run(1)]
  obtain hs ts T where t: "tame (S \<union> T) (e\<lparr>io := s, handled := handled e @ hs, timeouts_handled := ts\<rparr>) e'"
    and hs: "fst ` set hs \<subseteq> T"
    and T: "T \<subseteq> {w. ec \<noteq> Aborted \<and> (\<exists>this wo. watch_of_completion h = Some this \<and> watch_heap e this = Some wo \<and> wo_watch wo = w)}"
    using run_tame [OF assms(2) next_inv [OF assms(3) ex_run(1)] ex_run(2) [unfolded c]] by auto
  have "(h, ec) \<in> set (io_queue (view (io e)))" using v c by simp
  then have w: "w \<notin> T" using assms(5) T unfolding quiet_def by blast
  have "quiet w (e\<lparr>io := s, handled := handled e @ hs, timeouts_handled := ts\<rparr>)"
    using assms(5) v by (auto simp: quiet_def pending_ops_def)
  then have "quiet w e'" using t w assms(4) by (auto intro: quiet_tame)
  moreover have "filter (\<lambda>p. fst p = w) hs = []" using hs w by (auto simp: filter_empty_conv)
  ultimately show ?thesis using t by (simp add: tame_def)
qed

lemma quiet_steps:
  assumes "(exec_step A view fdof P S H)\<^sup>*\<^sup>* e e'" and "calls_back A fdof P S H" and "exec_inv view fdof P e" and "w \<notin> S" and "quiet w e"
  shows "quiet w e' \<and> filter (\<lambda>p. fst p = w) (handled e') = filter (\<lambda>p. fst p = w) (handled e)"
  using assms
proof (induction rule: rtranclp_induct)
  case (step y z)
  then have "exec_inv view fdof P y" by (blast intro: exec_steps_inv)
  with step quiet_step [of fdof P S H y z w] show ?case by simp
qed simp

lemma toggled_off_quiet:
  assumes inv: "exec_inv view fdof P e" and "timers_ok e" and "watch_data e w1 = Some t1" and "watch_data e w2 = Some t2"
    and "fdof w1 = fdof w2" and tidy: "fdof w1 \<notin> fdof ` P"
    and "\<not> w_enabled (W w1)" and "on_dbus_watch_toggled A W w1 e = Some (r, e1)"
    and "\<And>h ec. (h, ec) \<in> set (io_queue (view (io e))) \<Longrightarrow> watch_of_completion h = Some t2 \<Longrightarrow> ec = Aborted"
  shows "quiet w2 e1" and "handled e1 = handled e"
proof -
  obtain wo1 where 1: "watch_heap e t1 = Some wo1" "map_of (devices e) (fdof w1) = Some (stream_descriptor wo1)"
    using inv assms(3) tidy by (auto elim: live_watch)
  obtain wo2 where 2: "watch_heap e t2 = Some wo2" "map_of (devices e) (fdof w2) = Some (stream_descriptor wo2)"
    using inv assms(4,5) tidy by (auto elim: live_watch)
  have e1: "e1 = e\<lparr>io := io_cancel A (io e) (stream_descriptor wo1)\<rparr>"
    using assms(3,7,8) 1 by (simp add: on_dbus_watch_toggled_def Watch_cancel_def)
  then show "handled e1 = handled e" by simp
  have d: "stream_descriptor wo1 = stream_descriptor wo2" using 1 2 assms(5) by simp
  show "quiet w2 e1"
    unfolding quiet_def
  proof (intro allI impI)
    fix this wo h assume wo: "watch_heap e1 this = Some wo" "wo_watch wo = w2" and h: "watch_of_completion h = Some this"
    then have t2: "this = t2" using inv assms(4) e1 by (auto simp: exec_inv_def base_inv_def heap_ok_def)
    have "d = stream_descriptor wo2" if "h \<in> set (dev_ops (view (io e)) d)" for d
    proof -
      have "ops_ok view e" using inv by (simp add: exec_inv_def base_inv_def)
      then have "\<forall>wo. watch_heap e this = Some wo \<longrightarrow> stream_descriptor wo = d"
        using that h unfolding ops_ok_def by blast
      then show ?thesis using 2(1) t2 by simp
    qed
    then show "h \<notin> pending_ops e1 \<and> (\<forall>ec. (h, ec) \<in> set (io_queue (view (io e1))) \<longrightarrow> ec = Aborted)"
      using e1 d assms(2,9) h t2 by (auto simp: pending_ops_def timers_ok_def view_simps v_cancel_def split: if_splits)
  qed
qed

end

section \<open>Descriptors\<close>

text \<open>The destructor of the map: a device without a watch is destroyed with its descriptor.\<close>

lemma sp_drop_simps [simp]:
  "device_users (sp_drop A d e) = device_users e" "watch_heap (sp_drop A d e) = watch_heap e"
  by (simp_all add: sp_drop_def Let_def device_users_def [abs_def])

lemma devices_destroyed:
  assumes "asio A view" and "distinct (map snd ds)"
    and "\<forall>(fd, d) \<in> set ds. dev_fd (view (io e)) d = Some fd \<and> device_refs e d = Suc (card (device_users e d))"
    and "\<And>d. finite (device_users e d)"
  shows "closed_fds (view (io (fold (sp_drop A) (map snd ds) e))) =
    closed_fds (view (io e)) @ map fst (filter (\<lambda>(fd, d). device_users e d = {}) ds)"
  using assms(2-4)
proof (induction ds arbitrary: e)
  case (Cons a ds)
  obtain fd d where a: "a = (fd, d)" by force
  let ?e = "sp_drop A d e"
  have d: "dev_fd (view (io e)) d = Some fd" "device_refs e d = Suc (card (device_users e d))"
    using Cons.prems(2) a by auto
  have u: "card (device_users e d) = 0 \<longleftrightarrow> device_users e d = {}" using Cons.prems(3) by simp
  have io: "view (io ?e) = (if device_users e d = {} then v_destroy d (view (io e)) else view (io e))"
    using d u by (simp add: sp_drop_def Let_def asio.destroy [OF assms(1)])
  have "d \<notin> snd ` set ds" using Cons.prems(1) a by simp
  then have ne: "x \<noteq> d" if "(f, x) \<in> set ds" for f x using that by force
  have "dev_fd (view (io ?e)) x = Some f \<and> device_refs ?e x = Suc (card (device_users ?e x))" if x: "(f, x) \<in> set ds" for f x
  proof -
    have "dev_fd (view (io e)) x = Some f" "device_refs e x = Suc (card (device_users e x))" using Cons.prems(2) x by auto
    moreover have "device_refs ?e x = device_refs e x" using ne [OF x] by (simp add: sp_drop_def Let_def)
    ultimately show ?thesis using ne [OF x] by (simp add: io v_destroy_def v_release_def v_cancel_def)
  qed
  then have "\<forall>(fd, d) \<in> set ds. dev_fd (view (io ?e)) d = Some fd \<and> device_refs ?e d = Suc (card (device_users ?e d))" by auto
  with Cons.IH [of ?e] Cons.prems(1,3) a d
  show ?case by (auto simp: io v_destroy_def v_release_def v_cancel_def)
qed simp

lemma destroyed_closes:
  assumes "asio A view" and inv: "exec_inv view fdof P e"
  shows "closed_fds (view (io (devices_destroy A e))) = map fst (filter (\<lambda>(fd, d). device_users e d = {}) (devices e))"
proof -
  have k: "distinct (map fst (devices e))" "closed_fds (view (io e)) = []" "device_refs e = device_owners e"
    "\<forall>(fd, d) \<in> set (devices e). dev_fd (view (io e)) d = Some fd" "heap_ok e"
    using inv by (auto simp: exec_inv_def base_inv_def devices_ok_def)
  have "inj_on snd (set (devices e))"
  proof (rule inj_onI)
    fix p q assume "p \<in> set (devices e)" "q \<in> set (devices e)" and pq: "snd p = snd q"
    with k(4) have "dev_fd (view (io e)) (snd p) = Some (fst p)" "dev_fd (view (io e)) (snd q) = Some (fst q)" by auto
    with pq show "p = q" by (simp add: prod_eq_iff)
  qed
  moreover have "distinct (devices e)" using k(1) by (simp add: distinct_map)
  ultimately have "distinct (map snd (devices e))" by (simp add: distinct_map)
  moreover have "\<forall>(fd, d) \<in> set (devices e). dev_fd (view (io e)) d = Some fd \<and> device_refs e d = Suc (card (device_users e d))"
    using k(3,4) by (force simp: device_owners_def)
  ultimately show ?thesis
    using devices_destroyed [OF assms(1), of "devices e" e] device_users_finite [OF k(5)] k(2)
    by (simp add: devices_destroy_def)
qed

text \<open>
  C36. While the executor exists, no descriptor of libdbus is closed, whatever watches are added,
  toggled, removed and freed, and whatever events occur: a device is assigned to the descriptor it
  is in the map for, that of a watch to the watch's descriptor. The destructor closes exactly those
  descriptors whose device is in the map although it has no watch. That does not happen where every
  watch of a descriptor is freed when it is removed: then a device is kept exactly for the
  descriptors that have a watch, and all watches of it share it.
\<close>

theorem executor_shares_devices:
  assumes "asio A view" and "calls_back A fdof P S H" and "fresh_io view s"
    and "(exec_step A view fdof P S H)\<^sup>*\<^sup>* (executor0 s) e"
  shows "closed_fds (view (io e)) = [] \<and>
    closed_fds (view (io (devices_destroy A e))) = map fst (filter (\<lambda>(fd, d). device_users e d = {}) (devices e)) \<and>
    (\<forall>D r e'. (\<forall>e r e'. D e = Some (r, e') \<longrightarrow> (callback_step A fdof P S)\<^sup>*\<^sup>* e e') \<longrightarrow>
       Private_destroy A D e = Some (r, e') \<longrightarrow> set (closed_fds (view (io e'))) \<subseteq> fdof ` P) \<and>
    (\<forall>(fd, d) \<in> set (devices e). dev_fd (view (io e)) d = Some fd) \<and>
    (\<forall>fd. fd \<notin> fdof ` P \<longrightarrow> fd \<in> fst ` set (devices e) \<longleftrightarrow> (\<exists>w. watch_data e w \<noteq> None \<and> fdof w = fd)) \<and>
    (\<forall>w this. watch_data e w = Some this \<longrightarrow> (\<exists>wo. watch_heap e this = Some wo \<and> wo_watch wo = w \<and>
       dev_fd (view (io e)) (stream_descriptor wo) = Some (fdof w) \<and>
       (fdof w \<notin> fdof ` P \<longrightarrow> map_of (devices e) (fdof w) = Some (stream_descriptor wo))))"
proof (intro conjI allI impI)
  have inv: "exec_inv view fdof P e"
    using asio.exec_steps_inv [OF assms(1,4,2)] executor0_inv [OF assms(3)] by blast
  then show closed: "closed_fds (view (io e)) = []" and "\<forall>(fd, d) \<in> set (devices e). dev_fd (view (io e)) d = Some fd"
    by (auto simp: exec_inv_def base_inv_def devices_ok_def)
  show "closed_fds (view (io (devices_destroy A e))) = map fst (filter (\<lambda>(fd, d). device_users e d = {}) (devices e))"
    by (rule destroyed_closes [OF assms(1) inv])
  show "set (closed_fds (view (io e'))) \<subseteq> fdof ` P"
    if D: "\<forall>e r e'. D e = Some (r, e') \<longrightarrow> (callback_step A fdof P S)\<^sup>*\<^sup>* e e'" and p: "Private_destroy A D e = Some (r, e')" for D r e'
  proof -
    from p obtain r1 e1 where d: "D e = Some (r1, e1)" and "e' = e1 \<or> e' = devices_destroy A e1"
      by (auto simp: Private_destroy_def pbind_eq_Some pmodify_def)
    moreover from D d have "exec_inv view fdof P e1" using asio.callbacks_ok [OF assms(1) _ inv] by blast
    moreover from this have "set (closed_fds (view (io (devices_destroy A e1)))) \<subseteq> fdof ` P"
      using destroyed_closes [OF assms(1), of fdof P e1] by (fastforce simp: exec_inv_def tidy_def)
    ultimately show ?thesis by (auto simp: exec_inv_def base_inv_def devices_ok_def)
  qed
  show dev: "\<exists>wo. watch_heap e this = Some wo \<and> wo_watch wo = w \<and>
      dev_fd (view (io e)) (stream_descriptor wo) = Some (fdof w) \<and>
      (fdof w \<notin> fdof ` P \<longrightarrow> map_of (devices e) (fdof w) = Some (stream_descriptor wo))" if "watch_data e w = Some this" for w this
    using inv that by (rule live_watch) blast
  fix fd assume fd: "fd \<notin> fdof ` P"
  show "fd \<in> fst ` set (devices e) \<longleftrightarrow> (\<exists>w. watch_data e w \<noteq> None \<and> fdof w = fd)"
  proof
    assume "fd \<in> fst ` set (devices e)"
    then obtain d where d: "(fd, d) \<in> set (devices e)" by force
    then have "device_users e d \<noteq> {}" using inv fd by (auto simp: exec_inv_def tidy_def)
    then obtain this wo where wo: "watch_heap e this = Some wo" "stream_descriptor wo = d" by (auto simp: device_users_def)
    with inv d have "watch_data e (wo_watch wo) = Some this" "dev_fd (view (io e)) d = Some fd"
      "dev_fd (view (io e)) d = Some (fdof (wo_watch wo))"
      by (auto simp: exec_inv_def base_inv_def heap_ok_def devices_ok_def)
    then show "\<exists>w. watch_data e w \<noteq> None \<and> fdof w = fd" by (intro exI [of _ "wo_watch wo"]) simp
  next
    assume "\<exists>w. watch_data e w \<noteq> None \<and> fdof w = fd"
    then obtain w this where w: "watch_data e w = Some this" "fdof w = fd" by blast
    from dev [OF w(1)] fd w(2) obtain d where "(fd, d) \<in> set (devices e)" by (auto dest: map_of_SomeD)
    then show "fd \<in> fst ` set (devices e)" by force
  qed
qed

text \<open>Two watches of one descriptor, one for reading and one for writing.\<close>

definition pair_watches :: "nat set \<Rightarrow> nat \<Rightarrow> watch_info" where
  "pair_watches enabled w =
     \<lparr>w_fd = 5, w_flags = (if w = 0 then DBUS_WATCH_READABLE else DBUS_WATCH_WRITABLE), w_enabled = w \<in> enabled\<rparr>"

definition list_io0 :: list_io where
  "list_io0 = \<lparr>li_fds = [], li_ops = (\<lambda>_. []), li_timers = 0, li_timer_ops = (\<lambda>_. []), li_queue = [], li_closed = []\<rparr>"

definition idle_dbus :: "'io dbus_calls" where
  "idle_dbus = \<lparr>dbus_watch_handle = (\<lambda>_ _. preturn True), dbus_timeout_handle = (\<lambda>_. preturn ()),
     dispatcher_dispatch = preturn ()\<rparr>"

definition pair_executor :: "list_io executor" where
  "pair_executor = \<lparr>
     io = list_io0\<lparr>li_fds := [Some 5], li_ops := (\<lambda>_. [])(0 := [OnReadable 0, OnWritable 1])\<rparr>,
     devices = [(5, 0)], device_refs = (\<lambda>_. 0)(0 := 3),
     watch_heap = [0 \<mapsto> \<lparr>stream_descriptor = 0, wo_watch = 0\<rparr>, 1 \<mapsto> \<lparr>stream_descriptor = 0, wo_watch = 1\<rparr>],
     watch_data = [0 \<mapsto> 0, 1 \<mapsto> 1], timeout_heap = (\<lambda>_. None), tm_data = (\<lambda>_. None), next_obj = 2,
     handled = [], timeouts_handled = []\<rparr>"

lemma fresh_list_io0: "fresh_io li_view list_io0"
  by (simp add: fresh_io_def li_view_def list_io0_def)

lemma idle_calls_back: "calls_back A fdof P S idle_dbus"
  by (simp add: calls_back_def idle_dbus_def)

lemmas watch_calls = on_dbus_add_watch_def on_dbus_remove_watch_def on_dbus_watch_toggled_def delete_watch_def
  device_for_def new_watch_def Watch_start_def Watch_restart_def Watch_cancel_def Watch_destroy_def sp_drop_def Let_def
  pmodify_def

lemmas list_asio_simps = list_asio_def li_cancel_def li_release_def li_timer_cancel_def li_fd_def list_io0_def

lemma pair_added:
  "on_dbus_add_watch list_asio (pair_watches UNIV) 0 (executor0 list_io0) = Some (Inr True, e1) \<Longrightarrow>
   on_dbus_add_watch list_asio (pair_watches UNIV) 1 e1 = Some (Inr True, pair_executor)"
  "\<exists>e1. on_dbus_add_watch list_asio (pair_watches UNIV) 0 (executor0 list_io0) = Some (Inr True, e1) \<and> watch_data e1 1 = None"
  by (auto simp: watch_calls list_asio_simps pair_watches_def executor0_def pair_executor_def fun_eq_iff preturn_def pbind_def)

lemma pair_reachable:
  "(exec_step list_asio li_view (\<lambda>_. 5) P UNIV idle_dbus)\<^sup>*\<^sup>* (executor0 list_io0) pair_executor"
proof -
  obtain e1 where e1: "on_dbus_add_watch list_asio (pair_watches UNIV) 0 (executor0 list_io0) = Some (Inr True, e1)"
    "watch_data e1 1 = None" using pair_added(2) by blast
  have "callback_step list_asio (\<lambda>_. 5) P UNIV (executor0 list_io0) e1"
    by (rule cb_add [OF _ _ _ e1(1)]) (simp_all add: executor0_def pair_watches_def)
  moreover have "callback_step list_asio (\<lambda>_. 5) P UNIV e1 pair_executor"
    by (rule cb_add [OF _ e1(2) _ pair_added(1) [OF e1(1)]]) (simp_all add: pair_watches_def)
  ultimately show ?thesis by (meson converse_rtranclp_into_rtranclp ex_call rtranclp.rtrancl_refl)
qed

theorem executor_shares_devices_witness:
  "closed_fds (li_view (io pair_executor)) = [] \<and> closed_fds (li_view (io (devices_destroy list_asio pair_executor))) = [] \<and>
    (\<exists>wo. watch_heap pair_executor 1 = Some wo \<and> map_of (devices pair_executor) 5 = Some (stream_descriptor wo))"
proof -
  note C = executor_shares_devices [OF li.asio_axioms idle_calls_back fresh_list_io0 pair_reachable [of "{}"]]
  have "0 \<in> device_users pair_executor 0" by (simp add: device_users_def pair_executor_def)
  then have "device_users pair_executor 0 \<noteq> {}" by blast
  then have "filter (\<lambda>(fd, d). device_users pair_executor d = {}) (devices pair_executor) = []" by (simp add: pair_executor_def)
  moreover have "closed_fds (li_view (io (devices_destroy list_asio pair_executor))) =
      map fst (filter (\<lambda>(fd, d). device_users pair_executor d = {}) (devices pair_executor))" using C by (elim conjE)
  ultimately have "closed_fds (li_view (io (devices_destroy list_asio pair_executor))) = []" by simp
  moreover have "closed_fds (li_view (io pair_executor)) = []" using C by (rule conjunct1)
  moreover have "\<forall>w this. watch_data pair_executor w = Some this \<longrightarrow> (\<exists>wo. watch_heap pair_executor this = Some wo \<and> wo_watch wo = w \<and>
       dev_fd (li_view (io pair_executor)) (stream_descriptor wo) = Some 5 \<and>
       ((5 :: int) \<notin> (\<lambda>_ :: nat. 5) ` {} \<longrightarrow> map_of (devices pair_executor) 5 = Some (stream_descriptor wo)))"
    using C by (elim conjE)
  moreover have "watch_data pair_executor 1 = Some 1" by (simp add: pair_executor_def)
  ultimately show ?thesis by blast
qed

section \<open>Disabling a watch\<close>


text \<open>The writing watch is disabled: the device then becomes readable, but nobody is told.\<close>

definition write_disabled :: "list_io executor" where
  "write_disabled = pair_executor\<lparr>io := list_io0\<lparr>li_fds := [Some 5], li_ops := (\<lambda>_. []),
     li_queue := [(OnReadable 0, Aborted), (OnWritable 1, Aborted)]\<rparr>\<rparr>"

definition write_disabled_run :: "list_io executor" where
  "write_disabled_run = pair_executor\<lparr>io := list_io0\<lparr>li_fds := [Some 5], li_ops := (\<lambda>_. []),
     li_queue := [(OnWritable 1, Aborted)]\<rparr>\<rparr>"

lemma write_disabled_eq: "on_dbus_watch_toggled list_asio (pair_watches {0}) 1 pair_executor = Some (Inr (), write_disabled)"
  by (simp add: watch_calls list_asio_simps pair_watches_def pair_executor_def write_disabled_def fun_eq_iff preturn_def)

lemma write_disabled_step:
  "(exec_step list_asio li_view (\<lambda>_. 5) P {} idle_dbus)\<^sup>*\<^sup>* write_disabled write_disabled_run"
proof (rule r_into_rtranclp, rule ex_run)
  show "io_next list_asio (io write_disabled) = Some ((OnReadable 0, Aborted), io write_disabled_run)"
    by (simp add: list_asio_def write_disabled_def write_disabled_run_def)
  show "run_handler list_asio (pair_watches {0}) idle_dbus (OnReadable 0, Aborted)
      (write_disabled\<lparr>io := io write_disabled_run\<rparr>) = Some (Inr (), write_disabled_run)"
    by (simp add: run_handler_def on_watch_event_def preturn_def write_disabled_def write_disabled_run_def)
qed


section \<open>What else goes wrong\<close>

context asio
begin

lemma drop_watch_frees:
  assumes "exec_inv view fdof P e" and "watch_data e w = Some this"
  shows "\<exists>e'. pbind (on_dbus_remove_watch A W w) (\<lambda>_. delete_watch A w) e = Some (Inr (), e') \<and> watch_heap e' this = None"
proof -
  from assms obtain wo where "watch_heap e this = Some wo" by (rule live_watch)
  with assms(2) show ?thesis
    by (auto simp: on_dbus_remove_watch_def delete_watch_def Watch_cancel_def Watch_destroy_def sp_drop_def Let_def
        pbind_def preturn_def pmodify_def split: option.splits)
qed

end

text \<open>
  A watch that libdbus removes and frees while it handles the event, as it does when the
  connection is lost: the handler goes on with \<open>restart\<close> of the object that is gone.
\<close>

theorem freed_while_handled:
  assumes "asio A view" and "exec_inv view fdof P e" and "watch_data e w = Some this"
    and "dbus_watch_handle H w DBUS_WATCH_READABLE = (\<lambda>e. map_option (\<lambda>(r, e'). (Inr True, e'))
      (pbind (on_dbus_remove_watch A W w) (\<lambda>_. delete_watch A w) e))"
  shows "\<exists>e'. run_handler A W H (OnReadable this, Success) e = Some (Inl UndefinedBehaviour, e')"
proof -
  let ?e = "e\<lparr>handled := handled e @ [(w, DBUS_WATCH_READABLE)]\<rparr>"
  from assms(2,3) obtain wo where wo: "watch_heap e this = Some wo" "wo_watch wo = w" by (rule live_watch)
  have "exec_inv view fdof P ?e" using assms(2) asio.recorded_inv [OF assms(1)] by blast
  moreover have "watch_data ?e w = Some this" using assms(3) by simp
  ultimately obtain e' where
    "pbind (on_dbus_remove_watch A W w) (\<lambda>_. delete_watch A w) ?e = Some (Inr (), e')" "watch_heap e' this = None"
    using asio.drop_watch_frees [OF assms(1)] by blast
  with wo assms(4) show ?thesis
    by (auto simp: run_handler_def on_watch_event_def Watch_handle_event_def pbind_def Watch_restart_def pthrow_def)
qed

text \<open>
  A watch that was disabled while its event was handled is started again: \<open>restart\<close> looks at the
  flags of the watch, not at whether it is enabled.
\<close>

theorem restarted_although_disabled:
  assumes "asio A view" and "watch_heap e this = Some wo" and "watch_heap e1 this = Some wo"
    and "dbus_watch_handle H (wo_watch wo) DBUS_WATCH_WRITABLE
      (e\<lparr>handled := handled e @ [(wo_watch wo, DBUS_WATCH_WRITABLE)]\<rparr>) = Some (Inr True, e1)"
    and "w_flags (W (wo_watch wo)) = DBUS_WATCH_WRITABLE"
  shows "\<exists>e2. run_handler A W H (OnWritable this, Success) e = Some (Inr (), e2) \<and>
    OnWritable this \<in> set (dev_ops (view (io e2)) (stream_descriptor wo))"
  using assms
  by (simp add: run_handler_def on_watch_event_def Watch_handle_event_def Watch_restart_def preturn_def
      asio.view_simps v_async_def)

text \<open>A timeout that is added disabled is started nevertheless.\<close>

theorem disabled_timeout_started:
  assumes "asio A view" and "io_timer A (io e) = (t, s)"
  shows "\<exists>e'. on_dbus_add_timeout A T timeout e = Some (Inr True, e') \<and>
    OnTimeout (next_obj e) \<in> set (timer_ops (view (io e')) t)"
  using assms
  by (simp add: on_dbus_add_timeout_def Timeout_start_def preturn_def asio.view_simps v_timer_cancel_def Let_def)

text \<open>
  Two watches of a descriptor that are both removed before the first one is freed leave the device
  in the map, and the destructor of the executor closes the descriptor that libdbus owns.
\<close>

theorem removed_before_freed_closes:
  "\<exists>e. pbind (on_dbus_remove_watch list_asio (pair_watches {}) 0) (\<lambda>_.
        pbind (on_dbus_remove_watch list_asio (pair_watches {}) 1) (\<lambda>_.
        pbind (delete_watch list_asio 0) (\<lambda>_. delete_watch list_asio 1))) pair_executor = Some (Inr (), e) \<and>
     li_closed (io e) = [] \<and> li_closed (io (devices_destroy list_asio e)) = [5]"
  by (simp add: watch_calls list_asio_simps pair_watches_def pair_executor_def devices_destroy_def preturn_def)

end
