(* ===== verification/DeclaredSkeleton.thy ===== *)
theory DeclaredSkeleton
  imports LifetimeCorrect TypeLists
begin

text \<open>
  A skeleton built from the declarations of its interfaces: the inheritance chain that
  \<open>detail/interposer.h\<close> makes of a list of interfaces, the base class that
  \<open>detail/objectmanagerinterposer.h\<close> chooses, and the order in which the constructors run. Each
  declared member is found under the name of its interface and under no other.
\<close>

section \<open>Declarations\<close>

text \<open>
  The members of an interface in the order of their declaration, each with its object. The
  objects' own data (codecs, flags) are in the store already.
\<close>

datatype member_decl =
    MethodDecl nat string
  | PropertyDecl nat string
  | SignalDecl nat string

definition construct_member :: "nat \<Rightarrow> member_decl \<Rightarrow> ('b, 'w, 'r, 'v, 'u) server \<Rightarrow> ('b, 'w, 'r, 'v, 'u) server" where
  "construct_member InterfaceID d =
     (case d of
        MethodDecl m name \<Rightarrow> ServerMethodBase_new m name InterfaceID
      | PropertyDecl p name \<Rightarrow> ServerPropertyBase_new p name InterfaceID
      | SignalDecl g name \<Rightarrow> ServerSignalBase_new g name InterfaceID)"

text \<open>The constructor of \<open>I<InterfaceID, ...>\<close>.\<close>

definition construct_interface ::
  "nat \<Rightarrow> member_decl list \<Rightarrow> ('b, 'w, 'r, 'v, 'u) server \<Rightarrow> ('b, 'w, 'r, 'v, 'u) server" where
  "construct_interface InterfaceID ds = fold (construct_member InterfaceID) ds"

text \<open>
  \<open>Interposer<Id, ..., I, Is...>\<close> derives from \<open>I<Id>\<close>, which derives from the interposer of the
  rest with \<open>Id - 1\<close>: the constructors of the last interface run first. There is a specialisation
  for the last interface with \<open>Id\<close> zero, and nothing for an empty list: \<open>None\<close> does not compile.
\<close>

fun Interposer ::
  "int \<Rightarrow> member_decl list list \<Rightarrow> ('b, 'w, 'r, 'v, 'u) server \<Rightarrow> ('b, 'w, 'r, 'v, 'u) server option" where
  "Interposer n [] w = None"
| "Interposer n [I] w = (if n = 0 then Some (construct_interface 0 I w) else None)"
| "Interposer n (I # Is) w = map_option (construct_interface (nat n) I) (Interposer (n - 1) Is w)"

text \<open>
  \<open>ObjectManagerInterposer\<close>: the mixin is the base class if the interface of the object manager is
  among the interfaces. \<open>make_server_type\<close> gives each interface template one type.
\<close>

definition make_server_type :: "string \<Rightarrow> cxx" where
  "make_server_type iface = ClassT iface False"

definition object_manager_iface :: string where
  "object_manager_iface = ''org::freedesktop::DBus::ObjectManager''"

datatype skeleton_base = SizedObjectManagerMixin | SizedSkeletonBase

definition ObjectManagerInterposer :: "string list \<Rightarrow> skeleton_base" where
  "ObjectManagerInterposer Is =
     (if Find (make_server_type object_manager_iface) (make_typelist (map make_server_type Is)) 0 \<noteq> Some (- 1)
      then SizedObjectManagerMixin else SizedSkeletonBase)"

lemma mixin_iff_declared:
  "ObjectManagerInterposer Is = SizedObjectManagerMixin \<longleftrightarrow> object_manager_iface \<in> set Is"
proof -
  have "elems (make_typelist (map make_server_type Is)) = Some (map make_server_type Is)"
    by (rule make_typelist_elems) (auto simp: make_server_type_def)
  then have "Find (make_server_type object_manager_iface) (make_typelist (map make_server_type Is)) 0 =
      Some (if make_server_type object_manager_iface \<in> set (map make_server_type Is)
        then 0 + first_index (make_server_type object_manager_iface) (map make_server_type Is) else - 1)"
    by (rule Find_from) (simp add: make_server_type_def)
  moreover have "make_server_type object_manager_iface \<in> set (map make_server_type Is) \<longleftrightarrow> object_manager_iface \<in> set Is"
    by (auto simp: make_server_type_def)
  moreover have "0 \<le> first_index x xs" if "x \<in> set xs" for x :: cxx and xs
    using that by (induction xs) auto
  ultimately show ?thesis by (fastforce simp: ObjectManagerInterposer_def)
qed

section \<open>What the constructors leave behind\<close>

fun methods_in :: "member_decl list \<Rightarrow> (string \<times> nat) list" where
  "methods_in [] = []"
| "methods_in (MethodDecl m name # ds) = (name, m) # methods_in ds"
| "methods_in (_ # ds) = methods_in ds"

fun properties_in :: "member_decl list \<Rightarrow> (string \<times> nat) list" where
  "properties_in [] = []"
| "properties_in (PropertyDecl p name # ds) = (name, p) # properties_in ds"
| "properties_in (_ # ds) = properties_in ds"

fun signals_in :: "member_decl list \<Rightarrow> (string \<times> nat) list" where
  "signals_in [] = []"
| "signals_in (SignalDecl g name # ds) = (name, g) # signals_in ds"
| "signals_in (_ # ds) = signals_in ds"

lemma in_append [simp]:
  "methods_in (ds @ es) = methods_in ds @ methods_in es"
  "properties_in (ds @ es) = properties_in ds @ properties_in es"
  "signals_in (ds @ es) = signals_in ds @ signals_in es"
  by (induction ds rule: methods_in.induct) auto

text \<open>\<open>D\<close> are the members constructed so far, by interface id.\<close>

definition names_kept :: "(nat \<Rightarrow> (string \<times> nat) list) \<Rightarrow> (nat \<Rightarrow> string \<Rightarrow> nat \<Rightarrow> bool) \<Rightarrow> bool" where
  "names_kept f P \<longleftrightarrow> (\<forall>i. \<forall>(name, x) \<in> set (f i). P i name x)"

lemma names_kept_add:
  assumes "names_kept f P" and "\<forall>j. x \<notin> snd ` set (f j)" and "P' i name x"
    and "\<And>j nm y. y \<noteq> x \<Longrightarrow> P j nm y \<Longrightarrow> P' j nm y"
  shows "names_kept (f(i := f i @ [(name, x)])) P'"
proof -
  have "P' j nm y" if "(nm, y) \<in> set (f j)" for j nm y
  proof (rule assms(4))
    show "y \<noteq> x" using assms(2) that by force
    show "P j nm y" using assms(1) that by (auto simp: names_kept_def)
  qed
  with assms(3) show ?thesis by (auto simp: names_kept_def)
qed

definition constructed :: "('b, 'w, 'r, 'v, 'u) server \<Rightarrow> (nat \<Rightarrow> member_decl list) \<Rightarrow> bool" where
  "constructed w D \<longleftrightarrow>
     lists_ok w (\<lambda>i. rev (map snd (methods_in (D i)))) (\<lambda>i. rev (map snd (properties_in (D i))))
       (\<lambda>i. rev (map snd (signals_in (D i)))) \<and>
     names_kept (\<lambda>i. methods_in (D i)) (\<lambda>i name m. sm_name (method_at w m) = name) \<and>
     names_kept (\<lambda>i. properties_in (D i)) (\<lambda>i name p. sp_name (sprop_at w p) = name \<and> sp_iface_id (sprop_at w p) = i) \<and>
     names_kept (\<lambda>i. signals_in (D i)) (\<lambda>i name g. ss_name (ssig_at w g) = name \<and> ss_iface_id (ssig_at w g) = i)"

text \<open>A member whose object is not in use yet.\<close>

definition fresh_member :: "(nat \<Rightarrow> member_decl list) \<Rightarrow> member_decl \<Rightarrow> bool" where
  "fresh_member D d \<longleftrightarrow>
     (case d of
        MethodDecl m _ \<Rightarrow> \<forall>i. m \<notin> snd ` set (methods_in (D i))
      | PropertyDecl p _ \<Rightarrow> \<forall>i. p \<notin> snd ` set (properties_in (D i))
      | SignalDecl g _ \<Rightarrow> \<forall>i. g \<notin> snd ` set (signals_in (D i)))"

lemma lists_add_signal:
  assumes "lists_ok w ms ps gs" and "i < length (sk_ifaces w)" and "\<forall>j < length (sk_ifaces w). g \<notin> set (gs j)"
  shows "lists_ok (ServerSignalBase_new g name i w) ms ps (gs(i := g # gs i))"
proof -
  have "chain (\<lambda>x. ss_next (((ssig_at w)(g := y)) x)) q (gs j) = chain (\<lambda>x. ss_next (ssig_at w x)) q (gs j)"
    if "j < length (sk_ifaces w)" for q y j
    using assms(3) that by (intro chain_cong) auto
  with assms(1,2) show ?thesis
    by (auto simp: lists_ok_def ServerSignalBase_new_def nth_list_update)
qed

lemma construct_member_ifaces [simp]: "sk_ifaces (construct_member i d w) = sk_ifaces w"
  by (simp add: construct_member_def ServerMethodBase_new_def ServerPropertyBase_new_def ServerSignalBase_new_def
      split: member_decl.split)

lemma constructed_member:
  assumes "constructed w D" and "i < length (sk_ifaces w)" and "fresh_member D d"
  shows "constructed (construct_member i d w) (D(i := D i @ [d]))"
proof -
  have old: "lists_ok w (\<lambda>i. rev (map snd (methods_in (D i)))) (\<lambda>i. rev (map snd (properties_in (D i))))
      (\<lambda>i. rev (map snd (signals_in (D i))))" using assms(1) by (simp add: constructed_def)
  show ?thesis
  proof (cases d)
    case (MethodDecl m name)
    have upd:
      "(\<lambda>j. rev (map snd (methods_in ((D(i := D i @ [d])) j)))) = (\<lambda>j. rev (map snd (methods_in (D j))))(i := m # rev (map snd (methods_in (D i))))"
      "(\<lambda>j. methods_in ((D(i := D i @ [d])) j)) = (\<lambda>j. methods_in (D j))(i := methods_in (D i) @ [(name, m)])"
      "(\<lambda>j. properties_in ((D(i := D i @ [d])) j)) = (\<lambda>j. properties_in (D j))"
      "(\<lambda>j. signals_in ((D(i := D i @ [d])) j)) = (\<lambda>j. signals_in (D j))"
      "(\<lambda>j. rev (map snd (properties_in ((D(i := D i @ [d])) j)))) = (\<lambda>j. rev (map snd (properties_in (D j))))"
      "(\<lambda>j. rev (map snd (signals_in ((D(i := D i @ [d])) j)))) = (\<lambda>j. rev (map snd (signals_in (D j))))"
      by (simp_all add: fun_eq_iff MethodDecl)
    have f: "\<forall>j. m \<notin> snd ` set (methods_in (D j))" using assms(3) MethodDecl by (simp add: fresh_member_def)
    then have "\<forall>j < length (sk_ifaces w). m \<notin> set (rev (map snd (methods_in (D j))))" by simp
    note l = lists_add_method [OF old assms(2) this, of name]
    show ?thesis
      using assms(1) l f unfolding constructed_def upd
      by (auto simp: MethodDecl construct_member_def ServerMethodBase_new_def elim: names_kept_add)
  next
    case (PropertyDecl p name)
    have upd:
      "(\<lambda>j. methods_in ((D(i := D i @ [d])) j)) = (\<lambda>j. methods_in (D j))"
      "(\<lambda>j. rev (map snd (properties_in ((D(i := D i @ [d])) j)))) = (\<lambda>j. rev (map snd (properties_in (D j))))(i := p # rev (map snd (properties_in (D i))))"
      "(\<lambda>j. properties_in ((D(i := D i @ [d])) j)) = (\<lambda>j. properties_in (D j))(i := properties_in (D i) @ [(name, p)])"
      "(\<lambda>j. signals_in ((D(i := D i @ [d])) j)) = (\<lambda>j. signals_in (D j))"
      "(\<lambda>j. rev (map snd (methods_in ((D(i := D i @ [d])) j)))) = (\<lambda>j. rev (map snd (methods_in (D j))))"
      "(\<lambda>j. rev (map snd (signals_in ((D(i := D i @ [d])) j)))) = (\<lambda>j. rev (map snd (signals_in (D j))))"
      by (simp_all add: fun_eq_iff PropertyDecl)
    have f: "\<forall>j. p \<notin> snd ` set (properties_in (D j))" using assms(3) PropertyDecl by (simp add: fresh_member_def)
    then have "\<forall>j < length (sk_ifaces w). p \<notin> set (rev (map snd (properties_in (D j))))" by simp
    note l = lists_add_property [OF old assms(2) this, of name]
    show ?thesis
      using assms(1) l f unfolding constructed_def upd
      by (auto simp: PropertyDecl construct_member_def ServerPropertyBase_new_def elim: names_kept_add)
  next
    case (SignalDecl g name)
    have upd:
      "(\<lambda>j. methods_in ((D(i := D i @ [d])) j)) = (\<lambda>j. methods_in (D j))"
      "(\<lambda>j. properties_in ((D(i := D i @ [d])) j)) = (\<lambda>j. properties_in (D j))"
      "(\<lambda>j. rev (map snd (signals_in ((D(i := D i @ [d])) j)))) = (\<lambda>j. rev (map snd (signals_in (D j))))(i := g # rev (map snd (signals_in (D i))))"
      "(\<lambda>j. signals_in ((D(i := D i @ [d])) j)) = (\<lambda>j. signals_in (D j))(i := signals_in (D i) @ [(name, g)])"
      "(\<lambda>j. rev (map snd (methods_in ((D(i := D i @ [d])) j)))) = (\<lambda>j. rev (map snd (methods_in (D j))))"
      "(\<lambda>j. rev (map snd (properties_in ((D(i := D i @ [d])) j)))) = (\<lambda>j. rev (map snd (properties_in (D j))))"
      by (simp_all add: fun_eq_iff SignalDecl)
    have f: "\<forall>j. g \<notin> snd ` set (signals_in (D j))" using assms(3) SignalDecl by (simp add: fresh_member_def)
    then have "\<forall>j < length (sk_ifaces w). g \<notin> set (rev (map snd (signals_in (D j))))" by simp
    note l = lists_add_signal [OF old assms(2) this, of name]
    show ?thesis
      using assms(1) l f unfolding constructed_def upd
      by (auto simp: SignalDecl construct_member_def ServerSignalBase_new_def elim: names_kept_add)
  qed
qed

section \<open>The whole chain of constructors\<close>

text \<open>The object a declaration is for, with its kind.\<close>

fun object_of :: "member_decl \<Rightarrow> nat \<times> nat" where
  "object_of (MethodDecl m name) = (0, m)"
| "object_of (PropertyDecl p name) = (1, p)"
| "object_of (SignalDecl g name) = (2, g)"

lemma object_in:
  "m \<in> snd ` set (methods_in ds) \<Longrightarrow> (0, m) \<in> object_of ` set ds"
  "p \<in> snd ` set (properties_in ds) \<Longrightarrow> (1, p) \<in> object_of ` set ds"
  "g \<in> snd ` set (signals_in ds) \<Longrightarrow> (2, g) \<in> object_of ` set ds"
  by (induction ds rule: methods_in.induct) auto

lemma fresh_objects: "\<forall>j. object_of d \<notin> object_of ` set (D j) \<Longrightarrow> fresh_member D d"
  by (cases d) (simp_all add: fresh_member_def, (metis One_nat_def object_in)+)

lemma constructed_interface:
  assumes "constructed w D" and "i < length (sk_ifaces w)" and "distinct (map object_of ds)"
    and "\<forall>j. object_of ` set (D j) \<inter> object_of ` set ds = {}"
  shows "constructed (construct_interface i ds w) (D(i := D i @ ds)) \<and>
    sk_ifaces (construct_interface i ds w) = sk_ifaces w"
  using assms
proof (induction ds arbitrary: w D)
  case Nil
  then show ?case by (simp add: construct_interface_def)
next
  case (Cons d ds)
  have "fresh_member D d" using Cons.prems(4) by (intro fresh_objects) auto
  with Cons.prems have "constructed (construct_member i d w) (D(i := D i @ [d]))" by (intro constructed_member) auto
  then have "constructed (construct_interface i ds (construct_member i d w))
        ((D(i := D i @ [d]))(i := (D(i := D i @ [d])) i @ ds)) \<and>
      sk_ifaces (construct_interface i ds (construct_member i d w)) = sk_ifaces (construct_member i d w)"
    by (rule Cons.IH) (use Cons.prems in auto)
  moreover have "(D(i := D i @ [d]))(i := (D(i := D i @ [d])) i @ ds) = D(i := D i @ d # ds)" by auto
  ultimately show ?case by (simp only: construct_interface_def fold_simps construct_member_ifaces)
qed

lemma nat_Suc_int: "nat (1 + int n) = Suc n"
  by simp

lemma constructed_chain:
  assumes "constructed w (\<lambda>_. [])" and "Is \<noteq> []" and "length Is \<le> length (sk_ifaces w)"
    and "distinct (map object_of (concat Is))"
  shows "\<exists>w'. Interposer (int (length Is) - 1) Is w = Some w' \<and> sk_ifaces w' = sk_ifaces w \<and>
    constructed w' (\<lambda>i. if i < length Is then Is ! (length Is - 1 - i) else [])"
  using assms(2-4)
proof (induction Is)
  case Nil
  then show ?case by simp
next
  case (Cons I Is)
  show ?case
  proof (cases "Is = []")
    case True
    have "(\<lambda>_. [])(0 := I) = (\<lambda>i. if i < length [I] then [I] ! (length [I] - 1 - i) else [])" by auto
    with True Cons.prems constructed_interface [OF assms(1), of 0 I] show ?thesis by (auto simp: Suc_le_eq)
  next
    case False
    let ?D = "\<lambda>i. if i < length Is then Is ! (length Is - 1 - i) else []"
    obtain w1 where w1: "Interposer (int (length Is) - 1) Is w = Some w1" "sk_ifaces w1 = sk_ifaces w" "constructed w1 ?D"
      using Cons False by auto
    have "\<forall>j. object_of ` set (?D j) \<inter> object_of ` set I = {}"
    proof (intro allI)
      fix j
      have "set (?D j) \<subseteq> set (concat Is)" by (auto intro!: bexI [of _ "Is ! (length Is - 1 - j)"])
      then show "object_of ` set (?D j) \<inter> object_of ` set I = {}" using Cons.prems(3) by auto
    qed
    with w1 Cons.prems have c: "constructed (construct_interface (length Is) I w1) (?D(length Is := ?D (length Is) @ I)) \<and>
        sk_ifaces (construct_interface (length Is) I w1) = sk_ifaces w1"
      by (intro constructed_interface) auto
    have "?D(length Is := ?D (length Is) @ I) = (\<lambda>i. if i < length (I # Is) then (I # Is) ! (length (I # Is) - 1 - i) else [])"
      by (auto simp: fun_eq_iff nth_Cons' less_Suc_eq)
    moreover have "Interposer (int (length (I # Is)) - 1) (I # Is) w = Some (construct_interface (length Is) I w1)"
      using w1(1) False by (cases Is) (auto simp: nat_Suc_int)
    ultimately show ?thesis using c w1(2) by auto
  qed
qed

section \<open>Declared members are found\<close>

lemma find_declared:
  "\<forall>(nm, x) \<in> set xs. f x = nm \<Longrightarrow>
     find (\<lambda>x. c_str (f x) = k) (map snd xs) = map_of (map (apfst c_str) xs) k"
  by (induction xs) (auto simp: apfst_def map_prod_def)

lemma find_interface_nth:
  assumes "distinct (map c_str ifs)" and "i < length ifs"
  shows "find_interface ifs (ifs ! i) = int (length ifs - 1 - i)"
proof -
  obtain j where j: "j < length ifs" "find_interface ifs (ifs ! i) = int (length ifs - j - 1)" "c_str (ifs ! j) = c_str (ifs ! i)"
    using find_interface_loop_spec [of "length ifs" 0 ifs "c_str (ifs ! i)"] assms(2)
    by (auto simp: find_interface_def)
  then have "j = i" using assms by (simp add: distinct_conv_nth) (metis nth_map)
  with j(2) show ?thesis by simp
qed

text \<open>
  C32. A skeleton constructed from declarations serves what was declared. If the interfaces have different
  names and each member its own object, the inheritance chain compiles and, for every interface:
  its name leads to its members, a name of a method or property to the one declared last, and
  the signals a member sends carry the name of its interface, although names are stored in the reverse
  order of the ids.
\<close>

theorem declared_members_found:
  assumes "decls \<noteq> []" and "distinct (map object_of (concat decls))"
    and "extract_interfaces demangled_list = Some names" and "length names = length decls" and "distinct (map c_str names)"
    and "Skeleton_named K (\<lambda>w. the (Interposer (int (length decls) - 1) decls w)) (length decls) demangled_list b p this w
      = Some (Inr (), w')"
    and "i < length decls"
  shows "Interposer (int (length decls) - 1) decls (SkeletonBase_new (length decls) w) \<noteq> None \<and>
    find_method w' (find_interface (sk_ifaces w') (names ! i)) name
      = ret (map_of (map (apfst c_str) (rev (methods_in (decls ! i)))) (c_str name)) \<and>
    find_sproperty w' (find_interface (sk_ifaces w') (names ! i)) name
      = ret (map_of (map (apfst c_str) (rev (properties_in (decls ! i)))) (c_str name)) \<and>
    (\<forall>(nm, q) \<in> set (properties_in (decls ! i)). iface_of (sk_ifaces w') (sp_iface_id (sprop_at w' q)) = Some (names ! i)) \<and>
    (\<forall>(nm, g) \<in> set (signals_in (decls ! i)). iface_of (sk_ifaces w') (ss_iface_id (ssig_at w' g)) = Some (names ! i))"
proof -
  let ?n = "length decls"
  define D where "D = (\<lambda>i. if i < ?n then decls ! (?n - 1 - i) else [])"
  let ?k = "?n - 1 - i"
  have "constructed (SkeletonBase_new ?n w) (\<lambda>_. [])"
    using lists_new [of ?n w] by (simp add: constructed_def names_kept_def)
  from constructed_chain [OF this assms(1) _ assms(2)] obtain w1 where
    w1: "Interposer (int ?n - 1) decls (SkeletonBase_new ?n w) = Some w1" "length (sk_ifaces w1) = ?n" "constructed w1 D"
    by (auto simp: SkeletonBase_new_def D_def)
  obtain b' d where w': "w' = w1\<lparr>sk_ifaces := names, sk_busname := b, sk_objectpath := p, sconn := b', sk_disp := d\<rparr>"
    using assms(3,6) w1(1)
    by (auto simp: Skeleton_named_def Let_def SkeletonBase_init_def add_server_def split: prod.splits option.splits)
  have k: "?k < ?n" "decls ! (?n - 1 - ?k) = decls ! i" using assms(7) by auto
  have lists: "lists_ok w' (\<lambda>i. rev (map snd (methods_in (D i)))) (\<lambda>i. rev (map snd (properties_in (D i))))
      (\<lambda>i. rev (map snd (signals_in (D i))))"
    using w1(2,3) assms(4) by (simp add: w' constructed_def lists_ok_def)
  have fields: "sk_ifaces w' = names" "method_at w' = method_at w1" "sprop_at w' = sprop_at w1" "ssig_at w' = ssig_at w1"
    by (simp_all add: w')
  have at: "find_interface (sk_ifaces w') (names ! i) = int ?k"
    using find_interface_nth [OF assms(5)] assms(4,7) by (simp add: fields)
  have here: "iface_of (sk_ifaces w') ?k = Some (names ! i)" using assms(4,7) by (simp add: fields iface_of_def)
  have Dk: "D ?k = decls ! i" using k by (simp add: D_def)
  have names: "\<forall>(nm, m) \<in> set (methods_in (decls ! i)). sm_name (method_at w1 m) = nm"
    and props: "\<forall>(nm, q) \<in> set (properties_in (decls ! i)). sp_name (sprop_at w1 q) = nm \<and> sp_iface_id (sprop_at w1 q) = ?k"
    and sigs: "\<forall>(nm, g) \<in> set (signals_in (decls ! i)). ss_name (ssig_at w1 g) = nm \<and> ss_iface_id (ssig_at w1 g) = ?k"
    using w1(3) unfolding constructed_def names_kept_def Dk [symmetric] by blast+
  have "find_method w' (int ?k) name = ret (map_of (map (apfst c_str) (rev (methods_in (decls ! i)))) (c_str name))"
    using find_method_list [OF lists, of ?k name] k(1) assms(4) Dk names
      find_declared [of "rev (methods_in (decls ! i))" "\<lambda>m. sm_name (method_at w1 m)" "c_str name"]
    by (simp add: fields rev_map)
  moreover have "find_sproperty w' (int ?k) name = ret (map_of (map (apfst c_str) (rev (properties_in (decls ! i)))) (c_str name))"
    using find_sproperty_list [OF lists, of ?k name] k(1) assms(4) Dk props
      find_declared [of "rev (properties_in (decls ! i))" "\<lambda>q. sp_name (sprop_at w1 q)" "c_str name"]
    by (fastforce simp: fields rev_map)
  moreover have "\<forall>(nm, q) \<in> set (properties_in (decls ! i)). iface_of (sk_ifaces w') (sp_iface_id (sprop_at w' q)) = Some (names ! i)"
    using props here by (fastforce simp: fields(3))
  moreover have "\<forall>(nm, g) \<in> set (signals_in (decls ! i)). iface_of (sk_ifaces w') (ss_iface_id (ssig_at w' g)) = Some (names ! i)"
    using sigs here by (fastforce simp: fields(4))
  ultimately show ?thesis using w1(1) at by simp
qed

text \<open>
  The interfaces \<open>a::B\<close>, with a method and a property, and \<open>a::C\<close>, with a signal and a method of the
  same name.
\<close>

definition demo_decls :: "member_decl list list" where
  "demo_decls = [[MethodDecl 0 ''echo'', PropertyDecl 0 ''p''], [SignalDecl 0 ''s'', MethodDecl 1 ''echo'']]"

definition demo_server :: sample_server where
  "demo_server = (the (Interposer 1 demo_decls (SkeletonBase_new 2 blank0)))
     \<lparr>sk_ifaces := [''a.B'', ''a.C''], sk_busname := ''a.b'', sk_objectpath := ''/a'',
       sconn := rec_conn0\<lparr>rc_paths := (\<lambda>_. None)(''/a'' := Some 7)\<rparr>, sk_disp := True\<rparr>"

lemma demo_interfaces: "extract_interfaces (demangled [([''a'', ''B''], ''X''), ([''a'', ''C''], ''Y'')]) = Some [''a.B'', ''a.C'']"
  using extract_demangled [of "[([''a'', ''B''], ''X''), ([''a'', ''C''], ''Y'')]"]
  by (simp add: iface_ok_def cpp_identifier_def NUL_def isspace_def)

lemma demo_constructed:
  "Skeleton_named K0 (\<lambda>w. the (Interposer (int (length demo_decls) - 1) demo_decls w)) (length demo_decls)
     (demangled [([''a'', ''B''], ''X''), ([''a'', ''C''], ''Y'')]) ''a.b'' ''/a'' 7 blank0 = Some (Inr (), demo_server)"
proof -
  have "c_str ''a.b'' = ''a.b''" "c_str ''/a'' = ''/a''" by (simp_all add: c_str_id NUL_def)
  then show ?thesis
    by (simp add: Skeleton_named_def Let_def SkeletonBase_init_def demo_interfaces demo_decls_def demo_server_def
        construct_interface_def construct_member_def ServerMethodBase_new_def ServerPropertyBase_new_def
        ServerSignalBase_new_def SkeletonBase_new_def blank0_def rec_conn0_def rec_api_def add_server_def preturn_def numeral_2_eq_2)
qed

theorem declared_members_found_witness:
  "find_method demo_server (find_interface (sk_ifaces demo_server) ''a.B'') ''echo'' = ret (Some 0) \<and>
   find_method demo_server (find_interface (sk_ifaces demo_server) ''a.C'') ''echo'' = ret (Some 1) \<and>
   iface_of (sk_ifaces demo_server) (ss_iface_id (ssig_at demo_server 0)) = Some ''a.C''"
proof -
  have c: "c_str ''a.B'' = ''a.B''" "c_str ''a.C'' = ''a.C''" "c_str ''echo'' = ''echo''" by (simp_all add: c_str_id NUL_def)
  have d: "demo_decls \<noteq> []" "distinct (map object_of (concat demo_decls))" by (simp_all add: demo_decls_def)
  have n: "length [''a.B'', ''a.C''] = length demo_decls" "distinct (map c_str [''a.B'', ''a.C''])"
    by (simp_all add: demo_decls_def c)
  show ?thesis
    using declared_members_found [OF d demo_interfaces n demo_constructed, of 0 "''echo''"]
      declared_members_found [OF d demo_interfaces n demo_constructed, of 1 "''echo''"]
    by (simp add: demo_decls_def c)
qed

end
