(* ===== verification/PendingCalls.thy ===== *)
theory PendingCalls
  imports Resources Ownership
begin

text \<open>
  Who owns the callback of an asynchronous call: \<open>operator>>\<close> allocates a holder for it and hands it
  to libdbus with the pending call (\<open>clientside.h\<close>, \<open>stubbase.h\<close>, \<open>detail/holders.h\<close>). libdbus
  calls \<open>pending_notify\<close> when the reply arrives and \<open>_delete\<close> when the pending call is freed; the
  pending call is shared by \<open>PendingCall\<close> objects (\<open>src/pendingcall.cpp\<close>) through \<open>std::shared_ptr\<close>,
  whose use count is in the model. libdbus is a parameter: the record \<open>pending_api\<close> holds the
  functions the code calls, and the locale \<open>pending_calls\<close> says what they do to the references,
  the calls that wait for a reply and the data attached to them.
\<close>

section \<open>Pending calls of libdbus\<close>

text \<open>
  Functions that may free a pending call return the data whose free function is to be called.
  \<open>pa_send\<close> gives no pending call on a closed connection. When a reply is dispatched libdbus calls
  the notify function with the data from \<open>pa_begin\<close> and lets go of the call in \<open>pa_end\<close>.
\<close>

record 'l pending_api =
  pa_send :: "'l \<Rightarrow> nat option \<times> 'l"
  pa_set_notify :: "'l \<Rightarrow> nat \<Rightarrow> nat \<Rightarrow> nat list \<times> 'l"
  pa_unref :: "'l \<Rightarrow> nat \<Rightarrow> nat list \<times> 'l"
  pa_cancel :: "'l \<Rightarrow> nat \<Rightarrow> nat list \<times> 'l"
  pa_begin :: "'l \<Rightarrow> nat \<Rightarrow> nat option \<times> 'l"
  pa_end :: "'l \<Rightarrow> nat \<Rightarrow> nat list \<times> 'l"

text \<open>
  The references the program has, the calls without a reply, those whose notify function runs,
  and the data.
\<close>

record pending_view =
  pv_refs :: "nat \<Rightarrow> nat"
  pv_open :: "nat set"
  pv_running :: "nat set"
  pv_data :: "nat \<Rightarrow> nat option"

definition opt_list :: "'a option \<Rightarrow> 'a list" where
  "opt_list x = (case x of None \<Rightarrow> [] | Some y \<Rightarrow> [y])"

lemma opt_list_simps [simp]: "opt_list None = []" "opt_list (Some y) = [y]"
  by (simp_all add: opt_list_def)

text \<open>Nobody needs the call any more: its data is freed.\<close>

definition v_gc :: "nat \<Rightarrow> pending_view \<Rightarrow> nat list \<times> pending_view" where
  "v_gc p v =
     (if pv_refs v p = 0 \<and> p \<notin> pv_open v \<and> p \<notin> pv_running v
      then (opt_list (pv_data v p), v\<lparr>pv_data := (pv_data v)(p := None)\<rparr>) else ([], v))"

definition v_send :: "nat \<Rightarrow> pending_view \<Rightarrow> pending_view" where
  "v_send p v = v\<lparr>pv_refs := (pv_refs v)(p := 1), pv_open := insert p (pv_open v)\<rparr>"

definition v_set_notify :: "nat \<Rightarrow> nat \<Rightarrow> pending_view \<Rightarrow> nat list \<times> pending_view" where
  "v_set_notify p h v = (opt_list (pv_data v p), v\<lparr>pv_data := (pv_data v)(p := Some h)\<rparr>)"

definition v_unref :: "nat \<Rightarrow> pending_view \<Rightarrow> nat list \<times> pending_view" where
  "v_unref p v = v_gc p (v\<lparr>pv_refs := (pv_refs v)(p := pv_refs v p - 1)\<rparr>)"

definition v_drop :: "nat \<Rightarrow> pending_view \<Rightarrow> nat list \<times> pending_view" where
  "v_drop p v = v_gc p (v\<lparr>pv_open := pv_open v - {p}\<rparr>)"

definition v_begin :: "nat \<Rightarrow> pending_view \<Rightarrow> nat option \<times> pending_view" where
  "v_begin p v = (pv_data v p, v\<lparr>pv_open := pv_open v - {p}, pv_running := insert p (pv_running v)\<rparr>)"

definition v_end :: "nat \<Rightarrow> pending_view \<Rightarrow> nat list \<times> pending_view" where
  "v_end p v = v_gc p (v\<lparr>pv_running := pv_running v - {p}\<rparr>)"

definition unused :: "pending_view \<Rightarrow> nat \<Rightarrow> bool" where
  "unused v p \<longleftrightarrow> pv_refs v p = 0 \<and> p \<notin> pv_open v \<and> p \<notin> pv_running v \<and> pv_data v p = None"

locale pending_calls =
  fixes A :: "'l pending_api" and view :: "'l \<Rightarrow> pending_view"
  assumes send: "pa_send A l = (Some p, l') \<Longrightarrow> unused (view l) p \<and> view l' = v_send p (view l)"
    and send_closed: "pa_send A l = (None, l') \<Longrightarrow> view l' = view l"
    and set_notify: "apsnd view (pa_set_notify A l p h) = v_set_notify p h (view l)"
    and unref: "apsnd view (pa_unref A l p) = v_unref p (view l)"
    and cancel: "apsnd view (pa_cancel A l p) = v_drop p (view l)"
    and begin_notify: "apsnd view (pa_begin A l p) = v_begin p (view l)"
    and end_notify: "apsnd view (pa_end A l p) = v_end p (view l)"

subsection \<open>An implementation with lists\<close>

text \<open>A reference is an entry of \<open>lp_refs\<close>; a new call has a number that is nowhere in the lists.\<close>

record list_pending =
  lp_refs :: "nat list"
  lp_open :: "nat list"
  lp_running :: "nat list"
  lp_data :: "(nat \<times> nat) list"
  lp_connected :: bool

definition lp_view :: "list_pending \<Rightarrow> pending_view" where
  "lp_view l = \<lparr>pv_refs = count_list (lp_refs l), pv_open = set (lp_open l), pv_running = set (lp_running l),
     pv_data = map_of (lp_data l)\<rparr>"

definition lp_fresh :: "list_pending \<Rightarrow> nat" where
  "lp_fresh l = Suc (foldr max (lp_refs l @ lp_open l @ lp_running l @ map fst (lp_data l)) 0)"

definition lp_gc :: "nat \<Rightarrow> list_pending \<Rightarrow> nat list \<times> list_pending" where
  "lp_gc p l =
     (if p \<notin> set (lp_refs l) \<and> p \<notin> set (lp_open l) \<and> p \<notin> set (lp_running l)
      then (opt_list (map_of (lp_data l) p), l\<lparr>lp_data := filter (\<lambda>e. fst e \<noteq> p) (lp_data l)\<rparr>) else ([], l))"

definition list_calls :: "list_pending pending_api" where
  "list_calls = \<lparr>
     pa_send = (\<lambda>l. if lp_connected l
        then (Some (lp_fresh l), l\<lparr>lp_refs := lp_fresh l # lp_refs l, lp_open := lp_fresh l # lp_open l\<rparr>) else (None, l)),
     pa_set_notify = (\<lambda>l p h. (opt_list (map_of (lp_data l) p), l\<lparr>lp_data := (p, h) # lp_data l\<rparr>)),
     pa_unref = (\<lambda>l p. lp_gc p (l\<lparr>lp_refs := remove1 p (lp_refs l)\<rparr>)),
     pa_cancel = (\<lambda>l p. lp_gc p (l\<lparr>lp_open := removeAll p (lp_open l)\<rparr>)),
     pa_begin = (\<lambda>l p. (map_of (lp_data l) p, l\<lparr>lp_open := removeAll p (lp_open l), lp_running := p # lp_running l\<rparr>)),
     pa_end = (\<lambda>l p. lp_gc p (l\<lparr>lp_running := removeAll p (lp_running l)\<rparr>)) \<rparr>"

lemma foldr_max_ge: "x \<in> set xs \<Longrightarrow> x \<le> foldr max xs (0 :: nat)"
  by (induction xs) auto

lemma lp_fresh_unused: "unused (lp_view l) (lp_fresh l)"
proof -
  have "lp_fresh l \<notin> set (lp_refs l @ lp_open l @ lp_running l @ map fst (lp_data l))"
    using foldr_max_ge [of "lp_fresh l"] unfolding lp_fresh_def by (metis Suc_n_not_le_n)
  then show ?thesis by (auto simp: unused_def lp_view_def map_of_eq_None_iff)
qed

lemma map_of_drop: "map_of (filter (\<lambda>e. fst e \<noteq> p) xs) = (map_of xs)(p := None)"
  by (induction xs) (auto simp: fun_eq_iff)

lemma count_remove1: "count_list (remove1 p xs) = (count_list xs)(p := count_list xs p - 1)"
  by (induction xs) (auto simp: fun_eq_iff)

lemma lp_gc_view: "apsnd lp_view (lp_gc p l) = v_gc p (lp_view l)"
  by (auto simp: lp_gc_def v_gc_def lp_view_def map_of_drop count_list_0_iff)

interpretation lp: pending_calls list_calls lp_view
proof unfold_locales
  show "pa_send list_calls l = (Some p, l') \<Longrightarrow> unused (lp_view l) p \<and> lp_view l' = v_send p (lp_view l)" for l p l'
    using lp_fresh_unused [of l]
    by (auto simp: list_calls_def v_send_def lp_view_def unused_def fun_eq_iff split: if_splits)
qed (auto simp: list_calls_def lp_gc_view v_set_notify_def v_unref_def v_drop_def v_begin_def v_end_def lp_view_def
      count_remove1 split: if_splits)

section \<open>Callback holders\<close>

text \<open>
  \<open>CallbackHolder\<close> and \<open>PropertyCallbackHolder\<close> keep a functor; that of \<open>ClientProperty::attach\<close>
  captures the property, a member of its stub, and \<open>GetAllPropertiesHolder\<close> keeps a reference to
  the stub. Both are used when the reply arrives.
\<close>

datatype holder = CallbackHolder | PropertyCallbackHolder "nat option" | GetAllPropertiesHolder nat

definition used_stub :: "holder \<Rightarrow> nat option" where
  "used_stub f = (case f of CallbackHolder \<Rightarrow> None | PropertyCallbackHolder s \<Rightarrow> s | GetAllPropertiesHolder s \<Rightarrow> Some s)"

text \<open>
  The holders on the heap, the number of the next one, those whose callback was called, those that
  were deleted and those libdbus did not take, in this order, and how often one was used or deleted
  that was not there.
\<close>

record holder_heap =
  live_cbs :: "nat \<Rightarrow> holder option"
  next_cb :: nat
  called_cbs :: "nat list"
  deleted_cbs :: "nat list"
  refused_cbs :: "nat list"
  cb_faults :: nat

definition new_holder :: "holder \<Rightarrow> holder_heap \<Rightarrow> nat \<times> holder_heap" where
  "new_holder f H = (next_cb H, H\<lparr>live_cbs := (live_cbs H)(next_cb H := Some f), next_cb := Suc (next_cb H)\<rparr>)"

text \<open>\<open>_delete\<close>\<close>

definition delete_holder :: "nat \<Rightarrow> holder_heap \<Rightarrow> holder_heap" where
  "delete_holder h H =
     (case live_cbs H h of None \<Rightarrow> H\<lparr>cb_faults := Suc (cb_faults H)\<rparr>
      | Some _ \<Rightarrow> H\<lparr>live_cbs := (live_cbs H)(h := None), deleted_cbs := deleted_cbs H @ [h]\<rparr>)"

definition call_holder :: "nat \<Rightarrow> holder_heap \<Rightarrow> holder_heap" where
  "call_holder h H =
     (case live_cbs H h of None \<Rightarrow> H\<lparr>cb_faults := Suc (cb_faults H)\<rparr> | Some _ \<Rightarrow> H\<lparr>called_cbs := called_cbs H @ [h]\<rparr>)"

text \<open>
  libdbus, the \<open>PendingCall\<close> objects, the use counts of the shared pointers, the holders, the
  stubs, and the stubs that were used after their destruction.
\<close>

record 'l call_state =
  pw_lib :: 'l
  pw_objs :: call_world
  uses :: "nat \<Rightarrow> nat"
  cb_heap :: holder_heap
  pw_stubs :: "nat set"
  dangling :: "nat list"

text \<open>A call of libdbus that frees data: its free function is \<open>_delete\<close>.\<close>

definition lib_call :: "('l \<Rightarrow> nat list \<times> 'l) \<Rightarrow> 'l call_state \<Rightarrow> 'l call_state" where
  "lib_call f w = (case f (pw_lib w) of (hs, l) \<Rightarrow> w\<lparr>pw_lib := l, cb_heap := fold delete_holder hs (cb_heap w)\<rparr>)"

section \<open>Shared pointers\<close>

definition pending_of :: "pending_call option \<Rightarrow> nat option" where
  "pending_of c = Option.bind c pc_pending"

definition pw_hold :: "'l call_state \<Rightarrow> nat \<Rightarrow> nat option" where
  "pw_hold w i = pending_of (calls (pw_objs w) i)"

text \<open>One more object has the pointer; one less, and after the last \<open>dbus_pending_call_unref\<close> is called.\<close>

definition ptr_acquire :: "nat option \<Rightarrow> 'l call_state \<Rightarrow> 'l call_state" where
  "ptr_acquire x w = (case x of None \<Rightarrow> w | Some p \<Rightarrow> w\<lparr>uses := (uses w)(p := Suc (uses w p))\<rparr>)"

definition ptr_release :: "'l pending_api \<Rightarrow> nat option \<Rightarrow> 'l call_state \<Rightarrow> 'l call_state" where
  "ptr_release A x w =
     (case x of None \<Rightarrow> w
      | Some p \<Rightarrow>
          let w = w\<lparr>uses := (uses w)(p := uses w p - 1)\<rparr>
          in if uses w p = 0 then lib_call (\<lambda>l. pa_unref A l p) w else w)"

text \<open>The object \<open>this\<close> becomes \<open>c\<close>, where \<open>None\<close> is that there is none: it takes the new pointer and drops the old.\<close>

definition rebind :: "'l pending_api \<Rightarrow> nat \<Rightarrow> pending_call option \<Rightarrow> 'l call_state \<Rightarrow> 'l call_state" where
  "rebind A this c w =
     ptr_release A (pw_hold w this)
       ((ptr_acquire (pending_of c) w)\<lparr>pw_objs := (pw_objs w)\<lparr>calls := (calls (pw_objs w))(this := c)\<rparr>\<rparr>)"

section \<open>\<open>PendingCall\<close> objects\<close>

text \<open>A request: \<open>dbus_connection_send_with_reply\<close>, then the constructor with what it gave.\<close>

definition call_request :: "'l pending_api \<Rightarrow> 32 word \<Rightarrow> nat \<Rightarrow> 'l call_state \<Rightarrow> 'l call_state" where
  "call_request A serial this w =
     (case pa_send A (pw_lib w) of (pending, l) \<Rightarrow>
        let w = (case pending of None \<Rightarrow> w | Some p \<Rightarrow> w\<lparr>uses := (uses w)(p := 1)\<rparr>)
        in w\<lparr>pw_lib := l, pw_objs := set_call this (PendingCall_new serial pending) (pw_objs w)\<rparr>)"

definition call_reset :: "'l pending_api \<Rightarrow> nat \<Rightarrow> 'l call_state \<Rightarrow> 'l call_state" where
  "call_reset A this w = rebind A this (Some PendingCall_default) w"

definition call_destroy :: "'l pending_api \<Rightarrow> nat \<Rightarrow> 'l call_state \<Rightarrow> 'l call_state" where
  "call_destroy A this w = rebind A this None w"

definition call_copy :: "'l pending_api \<Rightarrow> nat \<Rightarrow> nat \<Rightarrow> 'l call_state \<Rightarrow> 'l call_state" where
  "call_copy A this rhs w = (if rhs = this then w else rebind A this (calls (pw_objs w) rhs) w)"

definition call_move :: "'l pending_api \<Rightarrow> nat \<Rightarrow> nat \<Rightarrow> 'l call_state \<Rightarrow> 'l call_state" where
  "call_move A this rhs w = call_reset A rhs (rebind A this (calls (pw_objs w) rhs) w)"

definition call_cancel :: "'l pending_api \<Rightarrow> nat \<Rightarrow> 'l call_state \<Rightarrow> 'l call_state" where
  "call_cancel A this w =
     call_reset A this
       (case pw_hold w this of None \<Rightarrow> w
        | Some p \<Rightarrow> (lib_call (\<lambda>l. pa_cancel A l p) w)\<lparr>pw_objs := (pw_objs w)\<lparr>cancelled := insert p (cancelled (pw_objs w))\<rparr>\<rparr>)"

section \<open>Asynchronous calls\<close>

text \<open>
  \<open>dbus_pending_call_set_notify\<close> with a new holder. The code checks neither the pointer, which is
  null when the request was sent on a closed connection, nor the result: libdbus refuses null, and
  nobody has the holder then.
\<close>

definition attach_holder :: "'l pending_api \<Rightarrow> holder \<Rightarrow> nat \<Rightarrow> 'l call_state \<Rightarrow> 'l call_state" where
  "attach_holder A f this w =
     (case new_holder f (cb_heap w) of (h, H) \<Rightarrow>
        (case pw_hold w this of
           None \<Rightarrow> w\<lparr>cb_heap := H\<lparr>refused_cbs := refused_cbs H @ [h]\<rparr>\<rparr>
         | Some p \<Rightarrow> lib_call (\<lambda>l. pa_set_notify A l p h) (w\<lparr>cb_heap := H\<rparr>)))"

text \<open>\<open>async\<close>: the temporary of the request is copied into the \<open>InterimCallbackHolder\<close> at \<open>this\<close>.\<close>

definition call_async :: "'l pending_api \<Rightarrow> 32 word \<Rightarrow> nat \<Rightarrow> nat \<Rightarrow> 'l call_state \<Rightarrow> 'l call_state" where
  "call_async A serial tmp this w = call_destroy A tmp (call_copy A this tmp (call_request A serial tmp w))"

text \<open>\<open>operator>>\<close> for methods and properties; its result is at \<open>r\<close>, and the argument is a temporary.\<close>

definition call_then :: "'l pending_api \<Rightarrow> holder \<Rightarrow> nat \<Rightarrow> nat \<Rightarrow> 'l call_state \<Rightarrow> 'l call_state" where
  "call_then A f this r w = call_destroy A this (call_move A r this (attach_holder A f this w))"

text \<open>\<open>get_all_properties.async() >> f\<close> at the stub \<open>s\<close>; this operator returns nothing.\<close>

definition getall_then :: "'l pending_api \<Rightarrow> nat \<Rightarrow> nat \<Rightarrow> 'l call_state \<Rightarrow> 'l call_state" where
  "getall_then A s this w = call_destroy A this (attach_holder A (GetAllPropertiesHolder s) this w)"

text \<open>The request of \<open>ClientProperty::attach\<close>: the result of \<open>get_property_async\<close> is a temporary.\<close>

definition attach_get :: "'l pending_api \<Rightarrow> 32 word \<Rightarrow> nat \<Rightarrow> nat \<Rightarrow> 'l call_state \<Rightarrow> 'l call_state" where
  "attach_get A serial s tmp w =
     call_destroy A tmp (attach_holder A (PropertyCallbackHolder (Some s)) tmp (call_request A serial tmp w))"

text \<open>
  The lifetime of a stub ends. What its destructor does is modelled with the dispatcher; it does
  not know of the calls that wait for a reply.
\<close>

definition stub_destroyed :: "nat \<Rightarrow> 'l call_state \<Rightarrow> 'l call_state" where
  "stub_destroyed s w = w\<lparr>pw_stubs := pw_stubs w - {s}\<rparr>"

text \<open>A reply is dispatched: \<open>pending_notify\<close>, in which the callback runs, until \<open>reply_done\<close>.\<close>

definition holder_called :: "nat \<Rightarrow> 'l call_state \<Rightarrow> 'l call_state" where
  "holder_called h w =
     w\<lparr>cb_heap := call_holder h (cb_heap w),
       dangling := dangling w @
         (case Option.bind (live_cbs (cb_heap w) h) used_stub of None \<Rightarrow> [] | Some s \<Rightarrow> if s \<in> pw_stubs w then [] else [s])\<rparr>"

definition reply_arrived :: "'l pending_api \<Rightarrow> nat \<Rightarrow> 'l call_state \<Rightarrow> 'l call_state" where
  "reply_arrived A p w =
     (case pa_begin A (pw_lib w) p of (data, l) \<Rightarrow>
        let w = w\<lparr>pw_lib := l\<rparr> in case data of None \<Rightarrow> w | Some h \<Rightarrow> holder_called h w)"

definition reply_done :: "'l pending_api \<Rightarrow> nat \<Rightarrow> 'l call_state \<Rightarrow> 'l call_state" where
  "reply_done A p w = lib_call (\<lambda>l. pa_end A l p) w"

end
