(* ===== verification/PendingCallsCorrect.thy ===== *)
theory PendingCallsCorrect
  imports PendingCalls
begin

text \<open>
  Ownership of callback holders, whatever the program does with its \<open>PendingCall\<close> objects: each
  holder is deleted once, none is used after that, a callback is called at most once and never
  after the call was cancelled; and the exceptions the code has: a holder that is attached where
  there is no pending call, and a reply for a stub that is gone.
\<close>

section \<open>What the program and libdbus may do\<close>

text \<open>
  Objects have numbers below \<open>n\<close>, one that is constructed is at a free place. A holder is attached
  to any object, with a pending call or without; it may replace the holder the call has, but not
  the one whose callback is running.
\<close>

inductive call_step :: "'l pending_api \<Rightarrow> ('l \<Rightarrow> pending_view) \<Rightarrow> nat \<Rightarrow> 'l call_state \<Rightarrow> 'l call_state \<Rightarrow> bool"
  for A :: "'l pending_api" and view :: "'l \<Rightarrow> pending_view" and n :: nat where
  cs_request: "i < n \<Longrightarrow> calls (pw_objs w) i = None \<Longrightarrow> call_step A view n w (call_request A serial i w)"
| cs_copy: "i < n \<Longrightarrow> call_step A view n w (call_copy A i j w)"
| cs_move: "i < n \<Longrightarrow> j < n \<Longrightarrow> call_step A view n w (call_move A i j w)"
| cs_cancel: "i < n \<Longrightarrow> call_step A view n w (call_cancel A i w)"
| cs_reset: "i < n \<Longrightarrow> call_step A view n w (call_reset A i w)"
| cs_destroy: "i < n \<Longrightarrow> call_step A view n w (call_destroy A i w)"
| cs_attach: "calls (pw_objs w) i \<noteq> None \<Longrightarrow> (\<And>p. pw_hold w i = Some p \<Longrightarrow> p \<notin> pv_running (view (pw_lib w))) \<Longrightarrow>
    call_step A view n w (attach_holder A f i w)"
| cs_stub: "call_step A view n w (w\<lparr>pw_stubs := insert s (pw_stubs w)\<rparr>)"
| cs_no_stub: "call_step A view n w (stub_destroyed s w)"
| cs_reply: "p \<in> pv_open (view (pw_lib w)) \<Longrightarrow> call_step A view n w (reply_arrived A p w)"
| cs_done: "p \<in> pv_running (view (pw_lib w)) \<Longrightarrow> call_step A view n w (reply_done A p w)"

section \<open>Holders and the calls that own them\<close>

text \<open>What each holder was: it is there or was deleted, once, and its callback was called at most once,
  and never if libdbus refused it.\<close>

definition heap_ok :: "holder_heap \<Rightarrow> bool" where
  "heap_ok H \<longleftrightarrow>
     distinct (deleted_cbs H) \<and> set (deleted_cbs H) \<inter> dom (live_cbs H) = {} \<and>
     set (deleted_cbs H) \<union> dom (live_cbs H) = {..<next_cb H} \<and> cb_faults H = 0 \<and>
     distinct (called_cbs H) \<and> set (called_cbs H) \<subseteq> {..<next_cb H} \<and>
     distinct (refused_cbs H) \<and> set (refused_cbs H) \<inter> set (called_cbs H) = {}"

lemma heap_delete: "heap_ok H \<Longrightarrow> live_cbs H h = Some f \<Longrightarrow> heap_ok (delete_holder h H)"
  by (auto simp: heap_ok_def delete_holder_def dom_def)

lemma heap_new: "heap_ok H \<Longrightarrow> heap_ok (H\<lparr>live_cbs := (live_cbs H)(next_cb H := Some f), next_cb := Suc (next_cb H)\<rparr>)"
  by (auto simp: heap_ok_def lessThan_Suc)

lemma heap_refuse: "heap_ok H \<Longrightarrow> h \<notin> set (refused_cbs H) \<Longrightarrow> h \<notin> set (called_cbs H) \<Longrightarrow>
    heap_ok (H\<lparr>refused_cbs := refused_cbs H @ [h]\<rparr>)"
  by (auto simp: heap_ok_def)

lemma heap_call: "heap_ok H \<Longrightarrow> live_cbs H h = Some f \<Longrightarrow> h \<notin> set (called_cbs H) \<Longrightarrow> h \<notin> set (refused_cbs H) \<Longrightarrow>
    heap_ok (call_holder h H)"
  by (auto simp: heap_ok_def call_holder_def dom_def)

text \<open>
  Holders are owned by the calls they are the data of, but for those that were refused, and calls
  have data while they are needed; one in \<open>X\<close> may have some until it is freed.
\<close>

definition needed :: "pending_view \<Rightarrow> nat set" where
  "needed v = {p. pv_refs v p \<noteq> 0} \<union> pv_open v \<union> pv_running v"

definition holders_ok :: "nat set \<Rightarrow> pending_view \<Rightarrow> holder_heap \<Rightarrow> bool" where
  "holders_ok X v H \<longleftrightarrow>
     heap_ok H \<and> own_ok (dom (live_cbs H)) (set (refused_cbs H)) (pv_data v) \<and> dom (pv_data v) \<subseteq> X \<union> needed v \<and>
     (\<forall>p h. pv_data v p = Some h \<longrightarrow> p \<in> pv_open v \<longrightarrow> h \<notin> set (called_cbs H))"

lemma holders_live:
  assumes "holders_ok X v H" and "pv_data v p = Some h"
  obtains f where "live_cbs H h = Some f"
  using assms own_ok_owned [of "dom (live_cbs H)" "set (refused_cbs H)" "pv_data v" p h] by (auto simp: holders_ok_def)

lemma lose_holder:
  assumes H: "holders_ok X v H" and h: "pv_data v p = Some h" and X: "X - {p} \<subseteq> Y"
  shows "holders_ok Y (v\<lparr>pv_data := (pv_data v)(p := None)\<rparr>) (delete_holder h H)"
proof -
  obtain f where f: "live_cbs H h = Some f" by (rule holders_live [OF H h])
  have "own_ok (dom ((live_cbs H)(h := None))) (set (refused_cbs H)) ((pv_data v)(p := None))"
    using own_ok_lose [of "dom (live_cbs H)" "set (refused_cbs H)" "pv_data v" p] H h by (simp add: holders_ok_def)
  then have "own_ok (dom (live_cbs (delete_holder h H))) (set (refused_cbs (delete_holder h H))) ((pv_data v)(p := None))"
    using f by (simp add: delete_holder_def)
  moreover have "heap_ok (delete_holder h H)" using H f by (simp add: holders_ok_def heap_delete)
  moreover have "called_cbs (delete_holder h H) = called_cbs H" by (simp add: delete_holder_def f)
  ultimately show ?thesis
    using H X by (auto simp: holders_ok_def needed_def)
qed

lemma gc_holders:
  assumes H: "holders_ok {p} v H" and g: "v_gc p v = (hs, v')"
  shows "holders_ok {} v' (fold delete_holder hs H)"
proof (cases "p \<in> needed v")
  case True
  with g have "hs = []" "v' = v" by (auto simp: v_gc_def needed_def split: if_splits)
  with H True show ?thesis by (auto simp: holders_ok_def)
next
  case False
  then have g': "hs = opt_list (pv_data v p)" "v' = v\<lparr>pv_data := (pv_data v)(p := None)\<rparr>"
    using g by (auto simp: v_gc_def needed_def)
  show ?thesis
  proof (cases "pv_data v p")
    case None
    then have "(pv_data v)(p := None) = pv_data v" by auto
    with H None show ?thesis unfolding g' by (auto simp: holders_ok_def needed_def)
  next
    case (Some h)
    show ?thesis unfolding g' Some using lose_holder [OF H Some, of "{}"] by simp
  qed
qed

lemma gc_after:
  assumes "holders_ok {} v H" and "pv_data v2 = pv_data v" and "needed v - {p} \<subseteq> needed v2" and "pv_open v2 \<subseteq> pv_open v"
    and "v_gc p v2 = (hs, v')"
  shows "holders_ok {} v' (fold delete_holder hs H)"
  by (rule gc_holders [OF _ assms(5)]) (use assms(1-4) in \<open>auto simp: holders_ok_def\<close>)

lemma free_holders:
  assumes "holders_ok {} v H"
  shows "v_unref p v = (hs, v') \<Longrightarrow> holders_ok {} v' (fold delete_holder hs H)"
    and "v_drop p v = (hs, v') \<Longrightarrow> holders_ok {} v' (fold delete_holder hs H)"
    and "v_end p v = (hs, v') \<Longrightarrow> holders_ok {} v' (fold delete_holder hs H)"
  unfolding v_unref_def v_drop_def v_end_def
  by (rule gc_after [OF assms]; auto simp: needed_def; fail)+

lemma send_holders: "holders_ok {} v H \<Longrightarrow> unused v p \<Longrightarrow> holders_ok {} (v_send p v) H"
  by (auto simp: holders_ok_def v_send_def unused_def needed_def)

lemma new_fresh:
  assumes "holders_ok X v H"
  shows "next_cb H \<notin> dom (live_cbs H)" and "next_cb H \<notin> set (called_cbs H)" and "next_cb H \<notin> set (refused_cbs H)"
proof -
  show d: "next_cb H \<notin> dom (live_cbs H)" and "next_cb H \<notin> set (called_cbs H)" using assms by (auto simp: holders_ok_def heap_ok_def)
  then show "next_cb H \<notin> set (refused_cbs H)" using assms by (auto simp: holders_ok_def own_ok_def)
qed

lemma attach_free:
  assumes H: "holders_ok {} v H" and p: "pv_data v p = None" "p \<in> needed v"
  shows "holders_ok {} (v\<lparr>pv_data := (pv_data v)(p := Some (next_cb H))\<rparr>)
    (H\<lparr>live_cbs := (live_cbs H)(next_cb H := Some f), next_cb := Suc (next_cb H)\<rparr>)"
proof -
  have k: "heap_ok H" and o: "own_ok (dom (live_cbs H)) (set (refused_cbs H)) (pv_data v)"
    using H by (simp_all add: holders_ok_def)
  from own_ok_gain [OF o p(1) new_fresh(1) [OF H]] new_fresh(2) [OF H] heap_new [OF k] H p show ?thesis
    by (auto simp: holders_ok_def needed_def)
qed

lemma delete_new:
  assumes "heap_ok H" and "live_cbs H k = Some g"
  shows "delete_holder k (H\<lparr>live_cbs := (live_cbs H)(next_cb H := Some f), next_cb := Suc (next_cb H)\<rparr>) =
    (delete_holder k H)\<lparr>live_cbs := (live_cbs (delete_holder k H))(next_cb (delete_holder k H) := Some f),
       next_cb := Suc (next_cb (delete_holder k H))\<rparr>"
proof -
  have "k \<noteq> next_cb H" using assms by (auto simp: heap_ok_def)
  with assms(2) show ?thesis by (simp add: delete_holder_def fun_upd_twist)
qed

text \<open>The call gives up the holder it had, if any.\<close>

lemma attach_holders:
  assumes H: "holders_ok {} v H" and p: "pv_refs v p \<noteq> 0"
    and n: "new_holder f H = (h, H')" and s: "v_set_notify p h v = (hs, v')"
  shows "holders_ok {} v' (fold delete_holder hs H')"
proof (cases "pv_data v p")
  case None
  with attach_free [OF H None, of f] p n s show ?thesis by (auto simp: needed_def new_holder_def v_set_notify_def)
next
  case (Some k)
  obtain g where g: "live_cbs H k = Some g" by (rule holders_live [OF H Some])
  have d: "next_cb (delete_holder k H) = next_cb H" using g by (simp add: delete_holder_def)
  have "holders_ok {} (v\<lparr>pv_data := (pv_data v)(p := None)\<rparr>) (delete_holder k H)"
    by (rule lose_holder [OF H Some]) simp
  from attach_free [OF this, of p f] p
  have "holders_ok {} (v\<lparr>pv_data := (pv_data v)(p := Some (next_cb H))\<rparr>)
      ((delete_holder k H)\<lparr>live_cbs := (live_cbs (delete_holder k H))(next_cb (delete_holder k H) := Some f),
       next_cb := Suc (next_cb (delete_holder k H))\<rparr>)"
    by (simp add: needed_def d)
  with delete_new [of H k g f] g H n s Some show ?thesis
    by (auto simp: new_holder_def v_set_notify_def holders_ok_def)
qed

lemma refuse_holders:
  assumes H: "holders_ok {} v H" and n: "new_holder f H = (h, H')"
  shows "holders_ok {} v (H'\<lparr>refused_cbs := refused_cbs H' @ [h]\<rparr>)"
proof -
  have h: "h = next_cb H" "H' = H\<lparr>live_cbs := (live_cbs H)(h := Some f), next_cb := Suc h\<rparr>"
    using n by (auto simp: new_holder_def)
  have k: "heap_ok H" and o: "own_ok (dom (live_cbs H)) (set (refused_cbs H)) (pv_data v)"
    using H by (simp_all add: holders_ok_def)
  have "heap_ok (H'\<lparr>refused_cbs := refused_cbs H' @ [h]\<rparr>)"
    using heap_refuse [OF heap_new [OF k, of f], of h] new_fresh(2,3) [OF H] h by simp
  with own_ok_lost [OF o new_fresh(1) [OF H]] H h show ?thesis by (simp add: holders_ok_def)
qed

lemma begin_holders:
  assumes H: "holders_ok {} v H" and p: "p \<in> pv_open v" and b: "v_begin p v = (data, v')"
  shows "holders_ok {} v' (case data of None \<Rightarrow> H | Some h \<Rightarrow> call_holder h H)"
proof -
  have v': "data = pv_data v p" "v' = v\<lparr>pv_open := pv_open v - {p}, pv_running := insert p (pv_running v)\<rparr>"
    using b by (simp_all add: v_begin_def)
  have n: "needed v \<subseteq> needed v'" by (auto simp: needed_def v')
  show ?thesis
  proof (cases data)
    case None
    with H n v' show ?thesis by (auto simp: holders_ok_def)
  next
    case (Some h)
    with v' have d: "pv_data v p = Some h" by simp
    obtain f where f: "live_cbs H h = Some f" by (rule holders_live [OF H d])
    have "q = p" if "pv_data v q = Some h" for q
      using H d that by (auto simp: holders_ok_def own_ok_def one_owner_def)
    moreover have "h \<notin> set (refused_cbs H)" using H d by (auto simp: holders_ok_def own_ok_def ran_def)
    then have "heap_ok (call_holder h H)" using H f d p by (auto simp: holders_ok_def intro!: heap_call)
    moreover have "live_cbs (call_holder h H) = live_cbs H" "called_cbs (call_holder h H) = called_cbs H @ [h]"
      "refused_cbs (call_holder h H) = refused_cbs H"
      by (simp_all add: call_holder_def f)
    ultimately show ?thesis using H n Some by (auto simp: holders_ok_def v'(2))
  qed
qed

section \<open>Use counts\<close>

text \<open>The use count of a pointer is the number of objects below \<open>n\<close> that have it, up to \<open>d\<close>; libdbus counts one reference.\<close>

definition counts_ok :: "nat \<Rightarrow> (nat \<Rightarrow> int) \<Rightarrow> pending_view \<Rightarrow> (nat \<Rightarrow> nat) \<Rightarrow> (nat \<Rightarrow> nat option) \<Rightarrow> bool" where
  "counts_ok n d v u f \<longleftrightarrow>
     (\<forall>p. holders n f p + d p = int (u p) \<and> pv_refs v p = (if u p = 0 then 0 else 1)) \<and> (\<forall>i \<ge> n. f i = None)"

definition call_inv :: "('l \<Rightarrow> pending_view) \<Rightarrow> nat \<Rightarrow> 'l call_state \<Rightarrow> bool" where
  "call_inv view n w \<longleftrightarrow>
     counts_ok n (\<lambda>_. 0) (view (pw_lib w)) (uses w) (pw_hold w) \<and> holders_ok {} (view (pw_lib w)) (cb_heap w)"

lemma gc_simps [simp]:
  "pv_refs (snd (v_gc p v)) = pv_refs v" "pv_open (snd (v_gc p v)) = pv_open v" "pv_running (snd (v_gc p v)) = pv_running v"
  by (simp_all add: v_gc_def)

lemma view_refs [simp]:
  "pv_refs (snd (v_unref p v)) = (pv_refs v)(p := pv_refs v p - 1)" "pv_refs (snd (v_drop p v)) = pv_refs v"
  "pv_refs (snd (v_end p v)) = pv_refs v" "pv_refs (snd (v_begin p v)) = pv_refs v" "pv_refs (snd (v_set_notify p h v)) = pv_refs v"
  by (simp_all add: v_unref_def v_drop_def v_end_def v_begin_def v_set_notify_def)

lemma lib_call_simps [simp]:
  "pw_objs (lib_call f w) = pw_objs w" "uses (lib_call f w) = uses w" "pw_stubs (lib_call f w) = pw_stubs w"
  "dangling (lib_call f w) = dangling w"
  by (simp_all add: lib_call_def split: prod.splits)

lemma pw_hold_simps [simp]:
  "pw_hold (w\<lparr>pw_lib := l\<rparr>) = pw_hold w" "pw_hold (w\<lparr>cb_heap := H\<rparr>) = pw_hold w" "pw_hold (w\<lparr>uses := u\<rparr>) = pw_hold w"
  "pw_hold (w\<lparr>pw_stubs := S\<rparr>) = pw_hold w" "pw_hold (w\<lparr>dangling := ds\<rparr>) = pw_hold w"
  by (simp_all add: pw_hold_def fun_eq_iff)

lemma pw_hold_lib_call [simp]: "pw_hold (lib_call f w) = pw_hold w"
  by (simp add: pw_hold_def fun_eq_iff)

lemma hold_rebound:
  "pw_hold (w\<lparr>pw_objs := (pw_objs w)\<lparr>calls := (calls (pw_objs w))(i := c)\<rparr>\<rparr>) = (pw_hold w)(i := pending_of c)"
  by (simp add: pw_hold_def fun_eq_iff)

lemma release_objs [simp]: "pw_objs (ptr_release A x w) = pw_objs w"
  by (simp add: ptr_release_def Let_def split: option.splits)

lemma calls_rebind [simp]: "calls (pw_objs (rebind A i c w)) = (calls (pw_objs w))(i := c)"
  by (simp add: rebind_def)

lemma counts_rebind:
  assumes c: "counts_ok n (\<lambda>_. 0) v u f" and i: "i < n" and x: "\<And>p. x = Some p \<Longrightarrow> u p \<noteq> 0"
  shows "counts_ok n (\<lambda>p. if f i = Some p then 1 else 0) v
    (case x of None \<Rightarrow> u | Some p \<Rightarrow> u(p := Suc (u p))) (f(i := x))"
  using c x i by (cases x) (auto simp: counts_ok_def holders_upd)

lemma counts_release:
  assumes c: "counts_ok n (\<lambda>q. if q = p then 1 else 0) v u f"
  shows "u p \<noteq> 0" and "u p = 1 \<Longrightarrow> counts_ok n (\<lambda>_. 0) (snd (v_unref p v)) (u(p := 0)) f"
    and "u p \<noteq> 1 \<Longrightarrow> counts_ok n (\<lambda>_. 0) v (u(p := u p - 1)) f"
proof -
  have h: "0 \<le> holders n f p" by (simp add: holders_card)
  have "holders n f p + (if p = p then 1 else 0) = int (u p)" using c unfolding counts_ok_def by blast
  then have p: "int (u p) = holders n f p + 1" by simp
  have q: "\<And>q. holders n f q = int (u q) - (if q = p then 1 else 0)"
    and r: "\<And>q. pv_refs v q = (if u q = 0 then 0 else 1)" "\<And>i. n \<le> i \<Longrightarrow> f i = None"
    using c unfolding counts_ok_def by (simp_all add: algebra_simps)
  from p h show u: "u p \<noteq> 0" by linarith
  show "u p = 1 \<Longrightarrow> counts_ok n (\<lambda>_. 0) (snd (v_unref p v)) (u(p := 0)) f"
    by (simp add: counts_ok_def q r)
  show "u p \<noteq> 1 \<Longrightarrow> counts_ok n (\<lambda>_. 0) v (u(p := u p - 1)) f"
    using u by (simp add: counts_ok_def q r)
qed

section \<open>The operations keep the invariant\<close>

context pending_calls
begin

lemma lib_unref:
  assumes "holders_ok {} (view (pw_lib w)) (cb_heap w)"
  shows "view (pw_lib (lib_call (\<lambda>l. pa_unref A l p) w)) = snd (v_unref p (view (pw_lib w)))"
    and "holders_ok {} (view (pw_lib (lib_call (\<lambda>l. pa_unref A l p) w))) (cb_heap (lib_call (\<lambda>l. pa_unref A l p) w))"
  using free_holders(1) [OF assms, of p] by (auto simp: lib_call_def unref [symmetric] split: prod.splits)

lemma release_inv:
  assumes c: "counts_ok n (\<lambda>p. if x = Some p then 1 else 0) (view (pw_lib w)) (uses w) (pw_hold w)"
    and h: "holders_ok {} (view (pw_lib w)) (cb_heap w)"
  shows "call_inv view n (ptr_release A x w)"
proof (cases x)
  case None
  with c h show ?thesis by (simp add: ptr_release_def call_inv_def)
next
  case (Some p)
  let ?w = "w\<lparr>uses := (uses w)(p := uses w p - 1)\<rparr>"
  have c': "counts_ok n (\<lambda>q. if q = p then 1 else 0) (view (pw_lib w)) (uses w) (pw_hold w)"
    using c unfolding Some by (simp add: eq_commute)
  have o: "pw_hold ?w = pw_hold w" by (simp add: pw_hold_def fun_eq_iff)
  show ?thesis
  proof (cases "uses w p = 1")
    case True
    with counts_release(2) [OF c' True] lib_unref [of ?w p] h o Some show ?thesis
      by (simp add: ptr_release_def call_inv_def)
  next
    case False
    with counts_release(1,3) [OF c'] h o Some show ?thesis by (simp add: ptr_release_def call_inv_def)
  qed
qed

lemma rebind_inv:
  assumes "call_inv view n w" and "i < n" and "\<And>p. pending_of c = Some p \<Longrightarrow> uses w p \<noteq> 0"
  shows "call_inv view n (rebind A i c w)"
proof -
  let ?w = "(ptr_acquire (pending_of c) w)\<lparr>pw_objs := (pw_objs w)\<lparr>calls := (calls (pw_objs w))(i := c)\<rparr>\<rparr>"
  have a: "pw_objs (ptr_acquire x w) = pw_objs w" "pw_lib (ptr_acquire x w) = pw_lib w" "cb_heap (ptr_acquire x w) = cb_heap w"
    "uses (ptr_acquire x w) = (case x of None \<Rightarrow> uses w | Some p \<Rightarrow> (uses w)(p := Suc (uses w p)))" for x
    by (simp_all add: ptr_acquire_def split: option.splits)
  have o: "pw_hold ?w = (pw_hold w)(i := pending_of c)" by (simp add: pw_hold_def fun_eq_iff)
  have "counts_ok n (\<lambda>_. 0) (view (pw_lib w)) (uses w) (pw_hold w)" using assms(1) by (simp add: call_inv_def)
  from counts_rebind [OF this assms(2,3)]
  have "counts_ok n (\<lambda>p. if pw_hold w i = Some p then 1 else 0) (view (pw_lib ?w)) (uses ?w) (pw_hold ?w)"
    unfolding o by (simp add: a)
  moreover have "holders_ok {} (view (pw_lib ?w)) (cb_heap ?w)" using assms(1) by (simp add: call_inv_def a)
  ultimately show ?thesis unfolding rebind_def by (rule release_inv)
qed

lemma lib_inv:
  assumes w: "call_inv view n w" and f: "\<And>l. apsnd view (f l) = v_drop p (view l) \<or> apsnd view (f l) = v_end p (view l)"
  shows "call_inv view n (lib_call f w)"
proof -
  obtain hs l where l: "f (pw_lib w) = (hs, l)" by (cases "f (pw_lib w)")
  with f [of "pw_lib w"] have v: "v_drop p (view (pw_lib w)) = (hs, view l) \<or> v_end p (view (pw_lib w)) = (hs, view l)"
    by auto
  have h: "holders_ok {} (view (pw_lib w)) (cb_heap w)" using w by (simp add: call_inv_def)
  have "holders_ok {} (view l) (fold delete_holder hs (cb_heap w))" using v free_holders(2,3) [OF h] by metis
  moreover have "pv_refs (view l) = pv_refs (view (pw_lib w))" using v view_refs(2,3) by (metis snd_conv)
  ultimately show ?thesis using w by (simp add: call_inv_def counts_ok_def lib_call_def l)
qed

lemma inv_objs: "call_inv view n w \<Longrightarrow> calls (pw_objs w') = calls (pw_objs w) \<Longrightarrow> pw_lib w' = pw_lib w \<Longrightarrow>
    uses w' = uses w \<Longrightarrow> cb_heap w' = cb_heap w \<Longrightarrow> call_inv view n w'"
  by (simp add: call_inv_def pw_hold_def [abs_def])

lemma reset_inv: "call_inv view n w \<Longrightarrow> i < n \<Longrightarrow> call_inv view n (call_reset A i w)"
  unfolding call_reset_def by (rule rebind_inv) (simp_all add: pending_of_def PendingCall_default_def)

lemma destroy_inv: "call_inv view n w \<Longrightarrow> i < n \<Longrightarrow> call_inv view n (call_destroy A i w)"
  unfolding call_destroy_def by (rule rebind_inv) (simp_all add: pending_of_def)

lemma held_used: "call_inv view n w \<Longrightarrow> pw_hold w i = Some p \<Longrightarrow> uses w p \<noteq> 0"
proof -
  assume w: "call_inv view n w" and p: "pw_hold w i = Some p"
  have "i < n" using w p by (auto simp: call_inv_def counts_ok_def not_less [symmetric])
  with p have "card {j. j < n \<and> pw_hold w j = Some p} > 0" by (auto simp: card_gt_0_iff)
  then have "holders n (pw_hold w) p > 0" unfolding holders_card by linarith
  moreover have "holders n (pw_hold w) p = int (uses w p)"
    using w by (auto simp: call_inv_def counts_ok_def)
  ultimately show ?thesis by simp
qed

lemma copy_inv: "call_inv view n w \<Longrightarrow> i < n \<Longrightarrow> call_inv view n (rebind A i (calls (pw_objs w) j) w)"
  by (rule rebind_inv) (auto simp: pw_hold_def [symmetric] dest: held_used)

lemma cancel_inv: "call_inv view n w \<Longrightarrow> i < n \<Longrightarrow> call_inv view n (call_cancel A i w)"
proof -
  assume w: "call_inv view n w" "i < n"
  have "call_inv view n ((lib_call (\<lambda>l. pa_cancel A l p) w)\<lparr>pw_objs := (pw_objs w)\<lparr>cancelled := S\<rparr>\<rparr>)" for p S
    by (rule inv_objs [OF lib_inv [OF w(1), of _ p]]) (simp_all add: cancel)
  with w show ?thesis unfolding call_cancel_def by (auto split: option.splits intro!: reset_inv)
qed

lemma request_inv:
  assumes w: "call_inv view n w" and i: "i < n" "calls (pw_objs w) i = None"
  shows "call_inv view n (call_request A serial i w)"
proof -
  obtain x l where s: "pa_send A (pw_lib w) = (x, l)" by (cases "pa_send A (pw_lib w)")
  have hi: "pw_hold w i = None" using i by (simp add: pw_hold_def pending_of_def)
  have h: "pw_hold (call_request A serial i w) = (pw_hold w)(i := x)"
    by (auto simp: call_request_def s set_call_def pw_hold_def pending_of_def PendingCall_new_def split: option.splits)
  have c: "counts_ok n (\<lambda>_. 0) (view (pw_lib w)) (uses w) (pw_hold w)" and H: "holders_ok {} (view (pw_lib w)) (cb_heap w)"
    using w by (simp_all add: call_inv_def)
  show ?thesis
  proof (cases x)
    case None
    from send_closed [of "pw_lib w" l] s None have "view l = view (pw_lib w)" by simp
    moreover have "(pw_hold w)(i := None) = pw_hold w" using hi by auto
    ultimately show ?thesis using c H h by (simp add: call_inv_def call_request_def s None)
  next
    case (Some p)
    from send [of "pw_lib w" p l] s Some have v: "view l = v_send p (view (pw_lib w))" "unused (view (pw_lib w)) p" by auto
    then have "pv_refs (view (pw_lib w)) p = 0" by (simp add: unused_def)
    then have "uses w p = 0" using c by (auto simp: counts_ok_def split: if_splits)
    then have "holders n (pw_hold w) p = 0" using c by (simp add: counts_ok_def)
    then have "counts_ok n (\<lambda>_. 0) (view l) ((uses w)(p := 1)) ((pw_hold w)(i := Some p))"
      using c i hi by (auto simp: counts_ok_def holders_upd v v_send_def)
    then show ?thesis using send_holders [OF H v(2)] h by (simp add: call_inv_def call_request_def s Some v)
  qed
qed

lemma attach_inv:
  assumes w: "call_inv view n w"
  shows "call_inv view n (attach_holder A f i w)"
proof -
  obtain h H where n: "new_holder f (cb_heap w) = (h, H)" by (cases "new_holder f (cb_heap w)")
  have c: "counts_ok n (\<lambda>_. 0) (view (pw_lib w)) (uses w) (pw_hold w)" and H: "holders_ok {} (view (pw_lib w)) (cb_heap w)"
    using w by (simp_all add: call_inv_def)
  show ?thesis
  proof (cases "pw_hold w i")
    case None
    with refuse_holders [OF H n] c show ?thesis by (simp add: call_inv_def attach_holder_def n)
  next
    case (Some p)
    obtain hs l where s: "pa_set_notify A (pw_lib w) p h = (hs, l)" by (cases "pa_set_notify A (pw_lib w) p h")
    have v: "v_set_notify p h (view (pw_lib w)) = (hs, view l)" using set_notify [of "pw_lib w" p h] s by simp
    have "pv_refs (view (pw_lib w)) p \<noteq> 0" using held_used [OF w Some] c by (simp add: counts_ok_def)
    from attach_holders [OF H this n v] have k: "holders_ok {} (view l) (fold delete_holder hs H)" .
    have "attach_holder A f i w = w\<lparr>cb_heap := fold delete_holder hs H, pw_lib := l\<rparr>"
      by (simp add: attach_holder_def Some n lib_call_def s)
    moreover have "pv_refs (view l) = pv_refs (view (pw_lib w))" using v view_refs(5) by (metis snd_conv)
    ultimately show ?thesis using c k by (simp add: call_inv_def counts_ok_def)
  qed
qed

lemma reply_inv:
  assumes w: "call_inv view n w" and p: "p \<in> pv_open (view (pw_lib w))"
  shows "call_inv view n (reply_arrived A p w)"
proof -
  obtain d l where b: "pa_begin A (pw_lib w) p = (d, l)" by (cases "pa_begin A (pw_lib w) p")
  have v: "v_begin p (view (pw_lib w)) = (d, view l)" using begin_notify [of "pw_lib w" p] b by simp
  have "holders_ok {} (view l) (case d of None \<Rightarrow> cb_heap w | Some h \<Rightarrow> call_holder h (cb_heap w))"
    by (rule begin_holders [OF _ p v]) (use w in \<open>simp add: call_inv_def\<close>)
  moreover have "pv_refs (view l) = pv_refs (view (pw_lib w))" using v view_refs(4) by (metis snd_conv)
  ultimately show ?thesis
    using w by (simp add: call_inv_def counts_ok_def reply_arrived_def b Let_def holder_called_def split: option.splits)
qed

lemma step_inv: "call_step A view n w w' \<Longrightarrow> call_inv view n w \<Longrightarrow> call_inv view n w'"
proof (induction rule: call_step.induct)
  case (cs_copy i w j)
  then show ?case by (simp add: call_copy_def copy_inv)
next
  case (cs_move i j w)
  then show ?case by (simp add: call_move_def copy_inv reset_inv)
next
  case (cs_done p w)
  then show ?case by (simp add: reply_done_def lib_inv [of _ _ _ p] end_notify)
next
  case (cs_attach w i f)
  then show ?case by (simp add: attach_inv)
next
  case (cs_stub w s)
  then show ?case by (rule inv_objs) simp_all
next
  case (cs_no_stub s w)
  then show ?case by (rule inv_objs) (simp_all add: stub_destroyed_def)
qed (simp_all add: request_inv reset_inv destroy_inv cancel_inv reply_inv)

lemma steps_inv: "(call_step A view n)\<^sup>*\<^sup>* w w' \<Longrightarrow> call_inv view n w \<Longrightarrow> call_inv view n w'"
  by (induction rule: rtranclp_induct) (auto intro: step_inv)

end

section \<open>Called at most once, and not after it is out of reach\<close>

text \<open>
  What may become of callbacks: a call that waits has the holder it had, or a new one, and only
  those of calls that wait are called.
\<close>

definition waiting_cbs :: "pending_view \<Rightarrow> nat set" where
  "waiting_cbs v = {h. \<exists>p \<in> pv_open v. pv_data v p = Some h}"

definition evolves :: "pending_view \<Rightarrow> holder_heap \<Rightarrow> pending_view \<Rightarrow> holder_heap \<Rightarrow> bool" where
  "evolves v H v' H' \<longleftrightarrow> next_cb H \<le> next_cb H' \<and> waiting_cbs v' \<subseteq> waiting_cbs v \<union> {next_cb H..} \<and>
     set (called_cbs H') \<subseteq> set (called_cbs H) \<union> waiting_cbs v \<union> {next_cb H..}"

lemma evolves_refl: "evolves v H v H"
  by (auto simp: evolves_def)

lemma evolves_trans: "evolves v H v' H' \<Longrightarrow> evolves v' H' v'' H'' \<Longrightarrow> evolves v H v'' H''"
  by (fastforce simp: evolves_def)

lemma fold_delete_simps [simp]:
  "next_cb (fold delete_holder hs H) = next_cb H" "called_cbs (fold delete_holder hs H) = called_cbs H"
  by (induction hs arbitrary: H) (simp_all add: delete_holder_def split: option.splits)

lemma evolves_gc:
  assumes "pv_open v2 \<subseteq> pv_open v" and "pv_data v2 = pv_data v"
  shows "evolves v H (snd (v_gc p v2)) (fold delete_holder hs H)"
  using assms by (auto simp: evolves_def waiting_cbs_def v_gc_def split: if_splits)

lemma evolves_lib:
  "evolves v H (snd (v_unref p v)) (fold delete_holder hs H)" "evolves v H (snd (v_drop p v)) (fold delete_holder hs H)"
  "evolves v H (snd (v_end p v)) (fold delete_holder hs H)"
  unfolding v_unref_def v_drop_def v_end_def by (rule evolves_gc; auto)+

context pending_calls
begin

abbreviation wv :: "'l call_state \<Rightarrow> pending_view" where
  "wv w \<equiv> view (pw_lib w)"

abbreviation becomes :: "'l call_state \<Rightarrow> 'l call_state \<Rightarrow> bool" where
  "becomes w w' \<equiv> evolves (wv w) (cb_heap w) (wv w') (cb_heap w')"

lemma lib_becomes:
  "becomes w (lib_call (\<lambda>l. pa_unref A l p) w)" "becomes w (lib_call (\<lambda>l. pa_cancel A l p) w)"
  "becomes w (lib_call (\<lambda>l. pa_end A l p) w)"
proof -
  have "wv (lib_call f w) = snd (apsnd view (f (pw_lib w)))" "cb_heap (lib_call f w) = fold delete_holder (fst (f (pw_lib w))) (cb_heap w)" for f
    by (simp_all add: lib_call_def split: prod.splits)
  then show "becomes w (lib_call (\<lambda>l. pa_unref A l p) w)" "becomes w (lib_call (\<lambda>l. pa_cancel A l p) w)"
    "becomes w (lib_call (\<lambda>l. pa_end A l p) w)"
    by (simp_all only: unref cancel end_notify evolves_lib)
qed

lemma release_becomes: "becomes w (ptr_release A x w)"
  using lib_becomes(1) [of "w\<lparr>uses := u\<rparr>" for u]
  by (auto simp: ptr_release_def Let_def evolves_refl split: option.splits)

lemma rebind_becomes: "becomes w (rebind A i c w)"
proof -
  let ?w = "(ptr_acquire (pending_of c) w)\<lparr>pw_objs := (pw_objs w)\<lparr>calls := (calls (pw_objs w))(i := c)\<rparr>\<rparr>"
  have "wv ?w = wv w" "cb_heap ?w = cb_heap w" by (simp_all add: ptr_acquire_def split: option.splits)
  with release_becomes [of ?w "pw_hold w i"] show ?thesis by (simp add: rebind_def)
qed

lemma cancel_becomes: "becomes w (call_cancel A i w)"
proof (cases "pw_hold w i")
  case None
  then show ?thesis using rebind_becomes by (simp add: call_cancel_def call_reset_def)
next
  case (Some p)
  let ?w = "(lib_call (\<lambda>l. pa_cancel A l p) w)\<lparr>pw_objs := (pw_objs w)\<lparr>cancelled := insert p (cancelled (pw_objs w))\<rparr>\<rparr>"
  have "becomes w ?w" using lib_becomes(2) [of w p] by simp
  then show ?thesis unfolding call_cancel_def Some option.case call_reset_def
    by (rule evolves_trans) (rule rebind_becomes)
qed

lemma request_becomes: "becomes w (call_request A serial i w)"
proof -
  obtain x l where s: "pa_send A (pw_lib w) = (x, l)" by (cases "pa_send A (pw_lib w)")
  have k: "wv (call_request A serial i w) = view l" "cb_heap (call_request A serial i w) = cb_heap w"
    by (simp_all add: call_request_def s Let_def split: option.splits)
  show ?thesis
  proof (cases x)
    case None
    with send_closed s k show ?thesis by (simp add: evolves_refl)
  next
    case (Some p)
    with send [of "pw_lib w" p l] s k show ?thesis
      by (auto simp: evolves_def waiting_cbs_def v_send_def unused_def)
  qed
qed

lemma attach_becomes: "becomes w (attach_holder A f i w)"
proof (cases "pw_hold w i")
  case None
  then show ?thesis by (auto simp: attach_holder_def new_holder_def evolves_def)
next
  case (Some p)
  obtain hs l where s: "pa_set_notify A (pw_lib w) p (next_cb (cb_heap w)) = (hs, l)"
    by (cases "pa_set_notify A (pw_lib w) p (next_cb (cb_heap w))")
  with set_notify [of "pw_lib w" p "next_cb (cb_heap w)"] Some show ?thesis
    by (auto simp: attach_holder_def new_holder_def lib_call_def evolves_def waiting_cbs_def v_set_notify_def split: if_splits)
qed

lemma reply_becomes:
  assumes "p \<in> pv_open (wv w)"
  shows "becomes w (reply_arrived A p w)"
proof -
  obtain d l where b: "pa_begin A (pw_lib w) p = (d, l)" by (cases "pa_begin A (pw_lib w) p")
  with begin_notify [of "pw_lib w" p] assms show ?thesis
    by (auto simp: reply_arrived_def Let_def holder_called_def call_holder_def evolves_def waiting_cbs_def v_begin_def
        split: option.splits)
qed

lemma step_becomes: "call_step A view n w w' \<Longrightarrow> becomes w w'"
proof (induction rule: call_step.induct)
  case (cs_copy i w j)
  then show ?case by (simp add: call_copy_def rebind_becomes evolves_refl)
next
  case (cs_move i j w)
  then show ?case unfolding call_move_def call_reset_def by (intro evolves_trans [OF rebind_becomes rebind_becomes])
qed (simp_all add: request_becomes cancel_becomes call_reset_def call_destroy_def rebind_becomes attach_becomes
      evolves_refl stub_destroyed_def reply_becomes reply_done_def lib_becomes(3))

lemma steps_become: "(call_step A view n)\<^sup>*\<^sup>* w w' \<Longrightarrow> becomes w w'"
  by (induction rule: rtranclp_induct) (auto intro: evolves_refl evolves_trans step_becomes)

end

text \<open>No \<open>PendingCall\<close>, no holder and no call.\<close>

definition no_calls :: "('l \<Rightarrow> pending_view) \<Rightarrow> 'l call_state \<Rightarrow> bool" where
  "no_calls view w \<longleftrightarrow>
     (\<forall>i. calls (pw_objs w) i = None) \<and> (\<forall>p. uses w p = 0 \<and> unused (view (pw_lib w)) p) \<and>
     cb_heap w = \<lparr>live_cbs = Map.empty, next_cb = 0, called_cbs = [], deleted_cbs = [], refused_cbs = [], cb_faults = 0\<rparr>"

lemma no_calls_inv:
  assumes "no_calls view w"
  shows "call_inv view n w"
proof -
  have "pv_data (view (pw_lib w)) = Map.empty" "pw_hold w = Map.empty"
    using assms by (auto simp: no_calls_def unused_def pw_hold_def pending_of_def)
  then show ?thesis
    using assms by (auto simp: no_calls_def unused_def call_inv_def counts_ok_def holders_ok_def heap_ok_def own_ok_def
        one_owner_def holders_none)
qed

section \<open>A request that cannot be taken back\<close>

text \<open>The call \<open>p\<close> waits with the holder \<open>h\<close>, and no \<open>PendingCall\<close> refers to it.\<close>

definition abandoned :: "nat \<Rightarrow> nat \<Rightarrow> pending_view \<Rightarrow> (nat \<Rightarrow> nat option) \<Rightarrow> bool" where
  "abandoned p h v f \<longleftrightarrow> p \<in> pv_open v \<and> pv_data v p = Some h \<and> (\<forall>i. f i \<noteq> Some p)"

lemma abandoned_lib:
  assumes "abandoned p h v f"
  shows "abandoned p h (snd (v_unref q v)) f" and "abandoned p h (snd (v_end q v)) f"
    and "q \<noteq> p \<Longrightarrow> abandoned p h (snd (v_drop q v)) f" and "unused v q \<Longrightarrow> abandoned p h (v_send q v) f"
    and "q \<noteq> p \<Longrightarrow> abandoned p h (snd (v_set_notify q h' v)) f" and "q \<noteq> p \<Longrightarrow> abandoned p h (snd (v_begin q v)) f"
  using assms
  by (auto simp: abandoned_def v_unref_def v_end_def v_drop_def v_send_def v_set_notify_def v_begin_def v_gc_def)

text \<open>A holder stays what it is until it is deleted.\<close>

definition same_holder :: "nat \<Rightarrow> holder_heap \<Rightarrow> holder_heap \<Rightarrow> bool" where
  "same_holder h H H' \<longleftrightarrow> live_cbs H' h = live_cbs H h \<or> live_cbs H' h = None"

lemma same_holder_refl: "same_holder h H H"
  by (simp add: same_holder_def)

lemma same_holder_trans: "same_holder h H H' \<Longrightarrow> same_holder h H' H'' \<Longrightarrow> same_holder h H H''"
  by (auto simp: same_holder_def)

lemma fold_delete_live: "live_cbs (fold delete_holder hs H) h = live_cbs H h \<or> live_cbs (fold delete_holder hs H) h = None"
proof (induction hs arbitrary: H)
  case (Cons a hs)
  from Cons.IH [of "delete_holder a H"] show ?case by (auto simp: delete_holder_def split: option.splits if_splits)
qed simp

context pending_calls
begin

abbreviation left_alone :: "nat \<Rightarrow> nat \<Rightarrow> 'l call_state \<Rightarrow> bool" where
  "left_alone p h w \<equiv> abandoned p h (wv w) (pw_hold w)"

lemma wv_lib_call: "wv (lib_call f w) = snd (apsnd view (f (pw_lib w)))"
  by (simp add: lib_call_def split: prod.splits)

lemma release_alone: "abandoned p h (wv w) f \<Longrightarrow> abandoned p h (wv (ptr_release A x w)) f"
  by (auto simp: ptr_release_def Let_def wv_lib_call unref abandoned_lib(1) split: option.splits)

lemma hold_rebind: "pw_hold (rebind A i c w) = (pw_hold w)(i := pending_of c)"
  by (simp add: pw_hold_def fun_eq_iff)

lemma rebind_waits: "abandoned p h (wv w) f \<Longrightarrow> abandoned p h (wv (rebind A i c w)) f"
  unfolding rebind_def by (rule release_alone) (simp add: ptr_acquire_def split: option.splits)

lemma rebind_alone: "left_alone p h w \<Longrightarrow> pending_of c \<noteq> Some p \<Longrightarrow> left_alone p h (rebind A i c w)"
  using rebind_waits [of p h w "pw_hold w" i c] by (simp add: abandoned_def hold_rebind)

lemma copy_alone: "left_alone p h w \<Longrightarrow> left_alone p h (rebind A i (calls (pw_objs w) j) w)"
  by (rule rebind_alone) (simp_all add: abandoned_def pw_hold_def)

lemma reset_alone: "left_alone p h w \<Longrightarrow> left_alone p h (call_reset A i w)"
  unfolding call_reset_def by (rule rebind_alone) (simp_all add: pending_of_def PendingCall_default_def)

lemma cancel_alone: "left_alone p h w \<Longrightarrow> left_alone p h (call_cancel A i w)"
proof -
  assume w: "left_alone p h w"
  have "left_alone p h ((lib_call (\<lambda>l. pa_cancel A l q) w)\<lparr>pw_objs := (pw_objs w)\<lparr>cancelled := S\<rparr>\<rparr>)" if "pw_hold w i = Some q" for q S
  proof -
    have "q \<noteq> p" using w that by (auto simp: abandoned_def)
    then have "left_alone p h (lib_call (\<lambda>l. pa_cancel A l q) w)" using abandoned_lib(3) [OF w] by (simp add: wv_lib_call cancel)
    then show ?thesis by (simp add: pw_hold_def [abs_def])
  qed
  with w show ?thesis unfolding call_cancel_def by (auto split: option.splits intro!: reset_alone)
qed

lemma request_alone: "left_alone p h w \<Longrightarrow> left_alone p h (call_request A serial i w)"
proof -
  assume w: "left_alone p h w"
  obtain x l where s: "pa_send A (pw_lib w) = (x, l)" by (cases "pa_send A (pw_lib w)")
  have h: "pw_hold (call_request A serial i w) = (pw_hold w)(i := x)"
    by (auto simp: call_request_def s set_call_def pw_hold_def pending_of_def PendingCall_new_def split: option.splits)
  have k: "wv (call_request A serial i w) = view l"
    by (simp add: call_request_def s Let_def split: option.splits)
  show ?thesis
  proof (cases x)
    case None
    with send_closed s w h k show ?thesis by (simp add: abandoned_def)
  next
    case (Some q)
    with send [of "pw_lib w" q l] s have v: "unused (wv w) q" "view l = v_send q (wv w)" by auto
    then have "q \<noteq> p" using w by (auto simp: unused_def abandoned_def)
    with abandoned_lib(4) [OF w v(1)] Some h k v show ?thesis by (simp add: abandoned_def)
  qed
qed

lemma attach_alone: "left_alone p h w \<Longrightarrow> left_alone p h (attach_holder A f i w)"
proof -
  assume w: "left_alone p h w"
  obtain m H where n: "new_holder f (cb_heap w) = (m, H)" by (cases "new_holder f (cb_heap w)")
  show ?thesis
  proof (cases "pw_hold w i")
    case None
    with w show ?thesis by (simp add: attach_holder_def n)
  next
    case (Some q)
    then have "q \<noteq> p" using w by (auto simp: abandoned_def)
    then show ?thesis using abandoned_lib(5) [OF w] Some by (simp add: attach_holder_def n wv_lib_call set_notify)
  qed
qed

text \<open>Whatever happens, the holder waits for its reply or the reply has come.\<close>

lemma step_alone:
  assumes "call_step A view n w w'" and "call_inv view n w" and "left_alone p h w"
  shows "left_alone p h w' \<or> h \<in> set (called_cbs (cb_heap w'))"
  using assms
proof (induction rule: call_step.induct)
  case (cs_copy i w j)
  then show ?case by (simp add: call_copy_def copy_alone)
next
  case (cs_move i j w)
  then show ?case by (simp add: call_move_def copy_alone reset_alone)
next
  case (cs_destroy i w)
  then show ?case by (simp add: call_destroy_def rebind_alone pending_of_def)
next
  case (cs_attach w i f)
  then show ?case by (simp add: attach_alone)
next
  case (cs_reply q w)
  obtain d l where b: "pa_begin A (pw_lib w) q = (d, l)" by (cases "pa_begin A (pw_lib w) q")
  have v: "v_begin q (wv w) = (d, view l)" using begin_notify [of "pw_lib w" q] b by simp
  have k: "wv (reply_arrived A q w) = view l" "pw_hold (reply_arrived A q w) = pw_hold w"
    by (simp_all add: reply_arrived_def b Let_def holder_called_def pw_hold_def [abs_def] split: option.splits)
  show ?case
  proof (cases "q = p")
    case True
    have d: "d = Some h" "pv_data (wv w) p = Some h" using v cs_reply(3) True by (auto simp: v_begin_def abandoned_def)
    obtain f where "live_cbs (cb_heap w) h = Some f"
      by (rule holders_live [of "{}" "wv w" "cb_heap w" p h]) (use cs_reply(2) d(2) in \<open>simp_all add: call_inv_def\<close>)
    then show ?thesis by (simp add: reply_arrived_def b d(1) Let_def holder_called_def call_holder_def)
  next
    case False
    with abandoned_lib(6) [OF cs_reply(3) False] v k show ?thesis by simp
  qed
next
  case (cs_done q w)
  then show ?case by (simp add: reply_done_def wv_lib_call end_notify abandoned_lib(2))
qed (simp_all add: request_alone cancel_alone reset_alone stub_destroyed_def)

lemma called_simps [simp]:
  "called_cbs (cb_heap (lib_call f w)) = called_cbs (cb_heap w)" "called_cbs (cb_heap (ptr_release A x w)) = called_cbs (cb_heap w)"
  "called_cbs (cb_heap (rebind A i c w)) = called_cbs (cb_heap w)"
proof -
  show l: "called_cbs (cb_heap (lib_call f w)) = called_cbs (cb_heap w)" for f and w :: "'l call_state"
    by (simp add: lib_call_def split: prod.splits)
  then show r: "called_cbs (cb_heap (ptr_release A x w)) = called_cbs (cb_heap w)" for x w
    by (simp add: ptr_release_def Let_def split: option.splits)
  show "called_cbs (cb_heap (rebind A i c w)) = called_cbs (cb_heap w)"
    by (simp add: rebind_def r ptr_acquire_def split: option.splits)
qed

lemma step_called: "call_step A view n w w' \<Longrightarrow> set (called_cbs (cb_heap w)) \<subseteq> set (called_cbs (cb_heap w'))"
  by (induction rule: call_step.induct)
    (auto simp: call_request_def call_copy_def call_move_def call_cancel_def call_reset_def call_destroy_def attach_holder_def
      new_holder_def stub_destroyed_def reply_arrived_def reply_done_def Let_def holder_called_def call_holder_def
      split: prod.splits option.splits)

lemma holder_kept:
  "same_holder h (cb_heap w) (cb_heap (lib_call f w))" "same_holder h (cb_heap w) (cb_heap (ptr_release A x w))"
  "same_holder h (cb_heap w) (cb_heap (rebind A i c w))"
proof -
  show l: "same_holder h (cb_heap w) (cb_heap (lib_call f w))" for f and w :: "'l call_state"
    using fold_delete_live by (simp add: lib_call_def same_holder_def split: prod.splits)
  have "same_holder h (cb_heap w) (cb_heap (lib_call f (w\<lparr>uses := u\<rparr>)))" for f u and w :: "'l call_state"
    using l [of "w\<lparr>uses := u\<rparr>"] by simp
  then show r: "same_holder h (cb_heap w) (cb_heap (ptr_release A x w))" for x w
    by (simp add: ptr_release_def Let_def same_holder_refl split: option.splits)
  have "cb_heap (ptr_acquire x w) = cb_heap w" for x by (simp add: ptr_acquire_def split: option.splits)
  with r [of "(ptr_acquire (pending_of c) w)\<lparr>pw_objs := (pw_objs w)\<lparr>calls := (calls (pw_objs w))(i := c)\<rparr>\<rparr>" "pw_hold w i"]
  show "same_holder h (cb_heap w) (cb_heap (rebind A i c w))" by (simp add: rebind_def)
qed

lemma cancel_holder: "same_holder h (cb_heap w) (cb_heap (call_cancel A i w))"
proof (cases "pw_hold w i")
  case (Some p)
  let ?w = "(lib_call (\<lambda>l. pa_cancel A l p) w)\<lparr>pw_objs := (pw_objs w)\<lparr>cancelled := insert p (cancelled (pw_objs w))\<rparr>\<rparr>"
  have "same_holder h (cb_heap w) (cb_heap ?w)" using holder_kept(1) by simp
  then show ?thesis unfolding call_cancel_def Some option.case call_reset_def by (rule same_holder_trans) (rule holder_kept(3))
qed (use holder_kept(3) in \<open>simp add: call_cancel_def call_reset_def\<close>)

lemma attach_holder_kept:
  assumes "h < next_cb (cb_heap w)"
  shows "same_holder h (cb_heap w) (cb_heap (attach_holder A f i w))"
proof -
  obtain m H where n: "new_holder f (cb_heap w) = (m, H)" by (cases "new_holder f (cb_heap w)")
  have H: "live_cbs H h = live_cbs (cb_heap w) h" using n assms by (auto simp: new_holder_def)
  then show ?thesis using holder_kept(1) [of h "w\<lparr>cb_heap := H\<rparr>" "\<lambda>l. pa_set_notify A l p m" for p]
    by (auto simp: attach_holder_def n same_holder_def split: option.splits)
qed

lemma step_holder: "call_step A view n w w' \<Longrightarrow> h < next_cb (cb_heap w) \<Longrightarrow> same_holder h (cb_heap w) (cb_heap w')"
proof (induction rule: call_step.induct)
  case (cs_copy i w j)
  then show ?case by (simp add: call_copy_def holder_kept(3) same_holder_refl)
next
  case (cs_move i j w)
  then show ?case unfolding call_move_def call_reset_def by (intro same_holder_trans [OF holder_kept(3) holder_kept(3)])
next
  case (cs_reply p w)
  then show ?case
    by (simp add: reply_arrived_def Let_def holder_called_def call_holder_def same_holder_def split: prod.splits option.splits)
qed (simp_all add: call_request_def Let_def cancel_holder attach_holder_kept call_reset_def call_destroy_def holder_kept
      stub_destroyed_def reply_done_def same_holder_refl split: prod.splits option.splits)

lemma steps_holder: "(call_step A view n)\<^sup>*\<^sup>* w w' \<Longrightarrow> h < next_cb (cb_heap w) \<Longrightarrow> same_holder h (cb_heap w) (cb_heap w')"
proof (induction rule: rtranclp_induct)
  case (step y z)
  have "next_cb (cb_heap w) \<le> next_cb (cb_heap y)" using steps_become [OF step.hyps(1)] by (simp add: evolves_def)
  with step show ?case using step_holder same_holder_trans by (meson order_less_le_trans)
qed (rule same_holder_refl)

lemma steps_alone:
  assumes "(call_step A view n)\<^sup>*\<^sup>* w w'" and "call_inv view n w" and "left_alone p h w"
  shows "left_alone p h w' \<or> h \<in> set (called_cbs (cb_heap w'))"
  using assms(1)
proof (induction rule: rtranclp_induct)
  case (step y z)
  from step.IH show ?case
  proof
    assume y: "left_alone p h y"
    show ?thesis by (rule step_alone [OF step.hyps(2) steps_inv [OF step.hyps(1) assms(2)] y])
  qed (use step_called [OF step.hyps(2)] in auto)
qed (use assms(3) in simp)

lemma cancelled_silent:
  assumes "call_inv view n w0" and "(call_step A view n)\<^sup>*\<^sup>* w0 w"
    and p: "pw_hold w i = Some p" "pv_data (wv w) p = Some h" and "(call_step A view n)\<^sup>*\<^sup>* (call_cancel A i w) w'"
  shows "h \<in> set (called_cbs (cb_heap w')) \<longrightarrow> h \<in> set (called_cbs (cb_heap w))"
proof -
  have I: "call_inv view n w" using assms(1,2) steps_inv by blast
  then have H: "holders_ok {} (wv w) (cb_heap w)" by (simp add: call_inv_def)
  let ?w = "(lib_call (\<lambda>l. pa_cancel A l p) w)\<lparr>pw_objs := (pw_objs w)\<lparr>cancelled := insert p (cancelled (pw_objs w))\<rparr>\<rparr>"
  have u: "q = p" if "pv_data (wv w) q = Some h" for q using H p(2) that by (auto simp: holders_ok_def own_ok_def one_owner_def)
  obtain f where "live_cbs (cb_heap w) h = Some f" by (rule holders_live [OF H p(2)])
  then have n: "h < next_cb (cb_heap w)" using H by (auto simp: holders_ok_def heap_ok_def)
  have "wv ?w = snd (v_drop p (wv w))" by (simp add: wv_lib_call cancel)
  then have "h \<notin> waiting_cbs (wv ?w)" using u by (auto simp: waiting_cbs_def v_drop_def v_gc_def split: if_splits)
  moreover have "cb_heap ?w = cb_heap (lib_call (\<lambda>l. pa_cancel A l p) w)" by simp
  then have "next_cb (cb_heap ?w) = next_cb (cb_heap w)" by (simp add: lib_call_def split: prod.splits)
  moreover have "call_cancel A i w = rebind A i (Some PendingCall_default) ?w" by (simp add: call_cancel_def call_reset_def p(1))
  then have "becomes ?w w'" using evolves_trans rebind_becomes steps_become [OF assms(5)] by metis
  ultimately show ?thesis using n by (auto simp: evolves_def)
qed

lemma attach_get_left:
  assumes I: "call_inv view n w" and i: "i < n" "calls (pw_objs w) i = None" and x: "pa_send A (pw_lib w) = (Some p, l)"
  obtains h where "call_inv view n (attach_get A serial s i w)" and "left_alone p h (attach_get A serial s i w)"
    and "live_cbs (cb_heap (attach_get A serial s i w)) h = Some (PropertyCallbackHolder (Some s))"
proof -
  let ?r = "call_request A serial i w" and ?f = "PropertyCallbackHolder (Some s)" and ?w1 = "attach_get A serial s i w"
  let ?a = "attach_holder A ?f i ?r"
  have w1: "?w1 = rebind A i None ?a" by (simp add: attach_get_def call_destroy_def)
  have hr: "pw_hold ?r = (pw_hold w)(i := Some p)" and vr: "wv ?r = view l" and cr: "cb_heap ?r = cb_heap w"
    by (auto simp: call_request_def x set_call_def pw_hold_def pending_of_def PendingCall_new_def split: option.splits)
  have v: "unused (wv w) p" "wv ?r = v_send p (wv w)" using send [of "pw_lib w" p l] x vr by auto
  define h where "h = next_cb (cb_heap w)"
  have hd: "pw_hold w j \<noteq> Some p" for j
    using held_used [OF I, of j p] v(1) I by (auto simp: call_inv_def counts_ok_def unused_def)
  obtain H where H: "new_holder ?f (cb_heap w) = (h, H)" "live_cbs H h = Some ?f" by (simp add: new_holder_def h_def)
  have e: "?a = lib_call (\<lambda>l. pa_set_notify A l p h) (?r\<lparr>cb_heap := H\<rparr>)" by (simp add: attach_holder_def hr cr H)
  have "call_inv view n ?a" by (rule attach_inv [OF request_inv [OF I i]])
  then have I1: "call_inv view n ?w1" unfolding w1 by (rule rebind_inv [OF _ i(1)]) (simp add: pending_of_def)
  have "wv ?a = snd (v_set_notify p h (v_send p (wv w)))" by (simp add: e wv_lib_call set_notify v)
  then have "abandoned p h (wv ?a) Map.empty" by (simp add: abandoned_def v_set_notify_def v_send_def)
  from rebind_waits [OF this, of i None] have W: "left_alone p h ?w1"
    using hd by (simp add: abandoned_def w1 hold_rebind e hr pending_of_def)
  have "same_holder h H (cb_heap ?w1)"
    unfolding w1 e by (rule same_holder_trans [OF _ holder_kept(3)]) (use holder_kept(1) [of h "?r\<lparr>cb_heap := H\<rparr>"] in simp)
  moreover have "live_cbs (cb_heap ?w1) h \<noteq> None"
    using I1 W holders_live [of "{}" "wv ?w1" "cb_heap ?w1" p h] by (auto simp: call_inv_def abandoned_def)
  ultimately show ?thesis using that I1 W H(2) by (auto simp: same_holder_def)
qed

lemma reply_uses_stub:
  assumes "left_alone p h w" and "live_cbs (cb_heap w) h = Some (PropertyCallbackHolder (Some s))" and "s \<notin> pw_stubs w"
  shows "dangling (reply_arrived A p w) = dangling w @ [s]"
proof -
  obtain d l where b: "pa_begin A (pw_lib w) p = (d, l)" by (cases "pa_begin A (pw_lib w) p")
  with begin_notify [of "pw_lib w" p] assms(1) have "d = Some h" by (auto simp: v_begin_def abandoned_def)
  with assms b show ?thesis by (simp add: reply_arrived_def Let_def holder_called_def used_stub_def)
qed

lemma attach_not_taken_back:
  assumes I0: "call_inv view n w0" and r: "(call_step A view n)\<^sup>*\<^sup>* w0 w"
    and i: "i < n" "calls (pw_objs w) i = None" and a: "pa_send A (pw_lib w) = (Some p, l)"
  shows "\<exists>h. \<forall>w2. (call_step A view n)\<^sup>*\<^sup>* (stub_destroyed s (attach_get A serial s i w)) w2 \<longrightarrow> h \<notin> set (called_cbs (cb_heap w2)) \<longrightarrow>
    p \<in> pv_open (wv w2) \<and> (\<forall>j. pw_hold w2 j \<noteq> Some p) \<and>
    (s \<notin> pw_stubs w2 \<longrightarrow> dangling (reply_arrived A p w2) = dangling w2 @ [s])"
proof -
  let ?w1 = "attach_get A serial s i w"
  obtain h where I1: "call_inv view n ?w1" and W: "left_alone p h ?w1"
    and L: "live_cbs (cb_heap ?w1) h = Some (PropertyCallbackHolder (Some s))"
    by (rule attach_get_left [OF steps_inv [OF r I0] i a])
  let ?d = "stub_destroyed s ?w1"
  have d: "call_inv view n ?d" "left_alone p h ?d" "cb_heap ?d = cb_heap ?w1"
    using W by (simp_all add: stub_destroyed_def inv_objs [OF I1])
  have n: "h < next_cb (cb_heap ?w1)" using I1 L by (auto simp: call_inv_def holders_ok_def heap_ok_def)
  have "p \<in> pv_open (wv w2) \<and> (\<forall>j. pw_hold w2 j \<noteq> Some p) \<and>
      (s \<notin> pw_stubs w2 \<longrightarrow> dangling (reply_arrived A p w2) = dangling w2 @ [s])"
    if w2: "(call_step A view n)\<^sup>*\<^sup>* ?d w2" and c: "h \<notin> set (called_cbs (cb_heap w2))" for w2
  proof -
    have W2: "left_alone p h w2" using steps_alone [OF w2 d(1,2)] c by blast
    have "live_cbs (cb_heap w2) h \<noteq> None"
      using steps_inv [OF w2 d(1)] W2 holders_live [of "{}" "wv w2" "cb_heap w2" p h] by (auto simp: call_inv_def abandoned_def)
    with steps_holder [OF w2, of h] n L d(3) have "live_cbs (cb_heap w2) h = Some (PropertyCallbackHolder (Some s))"
      by (auto simp: same_holder_def)
    with W2 reply_uses_stub [OF W2] show ?thesis by (simp add: abandoned_def)
  qed
  then show ?thesis by blast
qed

lemma fold_delete_refused [simp]: "refused_cbs (fold delete_holder hs H) = refused_cbs H"
  by (induction hs arbitrary: H) (simp_all add: delete_holder_def split: option.splits)

lemma refused_simps [simp]:
  "refused_cbs (cb_heap (lib_call f w)) = refused_cbs (cb_heap w)"
  "refused_cbs (cb_heap (ptr_release A x w)) = refused_cbs (cb_heap w)"
  "refused_cbs (cb_heap (rebind A i c w)) = refused_cbs (cb_heap w)"
proof -
  show l: "refused_cbs (cb_heap (lib_call f w)) = refused_cbs (cb_heap w)" for f and w :: "'l call_state"
    by (simp add: lib_call_def split: prod.splits)
  then show r: "refused_cbs (cb_heap (ptr_release A x w)) = refused_cbs (cb_heap w)" for x w
    by (simp add: ptr_release_def Let_def split: option.splits)
  show "refused_cbs (cb_heap (rebind A i c w)) = refused_cbs (cb_heap w)"
    by (simp add: rebind_def r ptr_acquire_def split: option.splits)
qed

text \<open>A holder is refused only when it is attached to an object that has no pending call.\<close>

lemma step_refused:
  assumes "call_step A view n w w'" and "h \<in> set (refused_cbs (cb_heap w'))"
  shows "h \<in> set (refused_cbs (cb_heap w)) \<or>
    (\<exists>f i. w' = attach_holder A f i w \<and> calls (pw_objs w) i \<noteq> None \<and> pw_hold w i = None \<and> h = next_cb (cb_heap w))"
  using assms
proof (induction rule: call_step.induct)
  case (cs_attach w i f)
  have "h \<in> set (refused_cbs (cb_heap w)) \<or> (pw_hold w i = None \<and> h = next_cb (cb_heap w))"
    using cs_attach(3) by (cases "pw_hold w i") (auto simp: attach_holder_def new_holder_def)
  with cs_attach(1) show ?case by blast
qed (auto simp: call_request_def call_copy_def call_move_def call_cancel_def call_reset_def call_destroy_def
      stub_destroyed_def reply_arrived_def reply_done_def Let_def holder_called_def call_holder_def
      split: prod.splits option.splits if_splits)

lemma refused_origin:
  assumes "(call_step A view n)\<^sup>*\<^sup>* w0 w" and "h \<in> set (refused_cbs (cb_heap w))" and "h \<notin> set (refused_cbs (cb_heap w0))"
  shows "\<exists>u f i. (call_step A view n)\<^sup>*\<^sup>* w0 u \<and> (call_step A view n)\<^sup>*\<^sup>* (attach_holder A f i u) w \<and>
    calls (pw_objs u) i \<noteq> None \<and> pw_hold u i = None \<and> h = next_cb (cb_heap u)"
  using assms(1,2)
proof (induction rule: rtranclp_induct)
  case (step y z)
  from step_refused [OF step.hyps(2) step.prems] show ?case
  proof
    assume "h \<in> set (refused_cbs (cb_heap y))"
    with step.IH step.hyps(2) show ?thesis by (meson rtranclp.rtrancl_into_rtrancl)
  next
    assume "\<exists>f i. z = attach_holder A f i y \<and> calls (pw_objs y) i \<noteq> None \<and> pw_hold y i = None \<and> h = next_cb (cb_heap y)"
    with step.hyps(1) show ?thesis by blast
  qed
qed (use assms(3) in simp)

end

section \<open>The objects are those of \<open>PendingCall\<close>\<close>

text \<open>What the operations do to the objects alone is what Resources has for them.\<close>

lemma call_objects:
  "calls (pw_objs (call_reset A i w)) = calls (PendingCall_reset i (pw_objs w))"
  "calls (pw_objs w) j \<noteq> None \<Longrightarrow> calls (pw_objs (call_move A i j w)) = calls (PendingCall_move i j (pw_objs w))"
  "calls (pw_objs w) j \<noteq> None \<Longrightarrow> calls (pw_objs (call_copy A i j w)) = calls (PendingCall_copy_assign i j (pw_objs w))"
  "calls (pw_objs w) i \<noteq> None \<Longrightarrow> calls (pw_objs (call_cancel A i w)) = calls (PendingCall_cancel i (pw_objs w))"
  by (auto simp: call_reset_def call_move_def call_copy_def call_cancel_def PendingCall_reset_def PendingCall_move_def
      PendingCall_copy_assign_def PendingCall_cancel_def set_call_def split: option.splits)

lemma hold_reset [simp]: "pw_hold (call_reset A i w) = (pw_hold w)(i := None)"
  by (simp add: call_reset_def pw_hold_def fun_eq_iff pending_of_def PendingCall_default_def)

lemma cancelled_objects:
  "pw_hold w i = Some p \<Longrightarrow> cancelled (pw_objs (call_cancel A i w)) = insert p (cancelled (pw_objs w))"
  by (simp add: call_cancel_def call_reset_def rebind_def)

text \<open>\<open>async\<close> and \<open>operator>>\<close> are made of steps, so that what holds in every reachable state holds for them.\<close>

lemma call_async_runs:
  assumes "tmp < n" and "this < n" and "calls (pw_objs w) tmp = None"
  shows "(call_step A view n)\<^sup>*\<^sup>* w (call_async A serial tmp this w)"
  unfolding call_async_def
  by (rule rtranclp.rtrancl_into_rtrancl, rule rtranclp.rtrancl_into_rtrancl, rule r_into_rtranclp, rule cs_request)
    (auto intro: cs_copy cs_destroy simp: assms)

lemma attach_runs:
  assumes "calls (pw_objs w) this \<noteq> None" and "\<And>p. pw_hold w this = Some p \<Longrightarrow> p \<notin> pv_running (view (pw_lib w))"
  shows "(call_step A view n)\<^sup>*\<^sup>* w (attach_holder A f this w)"
  by (rule r_into_rtranclp, rule cs_attach) (use assms in simp_all)

lemma call_then_runs:
  assumes "this < n" and "r < n" and "calls (pw_objs w) this \<noteq> None"
    and "\<And>p. pw_hold w this = Some p \<Longrightarrow> p \<notin> pv_running (view (pw_lib w))"
  shows "(call_step A view n)\<^sup>*\<^sup>* w (call_then A f this r w)"
proof -
  let ?a = "attach_holder A f this w"
  have "(call_step A view n)\<^sup>*\<^sup>* w ?a" by (rule attach_runs) (use assms(3,4) in simp_all)
  moreover have "call_step A view n ?a (call_move A r this ?a)" by (rule cs_move) (rule assms)+
  moreover have "call_step A view n (call_move A r this ?a) (call_then A f this r w)"
    unfolding call_then_def by (rule cs_destroy) (rule assms)
  ultimately show ?thesis by (meson rtranclp.rtrancl_into_rtrancl)
qed

lemma getall_then_runs:
  assumes "this < n" and "calls (pw_objs w) this \<noteq> None"
    and "\<And>p. pw_hold w this = Some p \<Longrightarrow> p \<notin> pv_running (view (pw_lib w))"
  shows "(call_step A view n)\<^sup>*\<^sup>* w (getall_then A s this w)"
  unfolding getall_then_def
  by (rule rtranclp.rtrancl_into_rtrancl, rule attach_runs [where view = view]) (use assms in \<open>auto intro: cs_destroy\<close>)

section \<open>What holds in every reachable state\<close>

text \<open>
  C28. Whatever a program does with its \<open>PendingCall\<close> objects, every callback holder is deleted
  exactly once or still there, and none is used or deleted after that; its callback is called at
  most once. A holder that is there belongs to one pending call, which waits for its reply, is
  being answered or is held by an object: without these no holder is left. The only exception are
  the holders libdbus refused, each attached to an object that had no pending call (the request was
  sent on a closed connection, or the object was given up): they are there for ever, their callbacks
  never called.
\<close>

theorem callback_holders_owned:
  assumes "pending_calls A view" and "no_calls view w0" and "(call_step A view n)\<^sup>*\<^sup>* w0 w"
  shows "cb_faults (cb_heap w) = 0 \<and> distinct (deleted_cbs (cb_heap w)) \<and> distinct (called_cbs (cb_heap w)) \<and>
    (\<forall>h < next_cb (cb_heap w). (h \<in> set (deleted_cbs (cb_heap w))) = (live_cbs (cb_heap w) h = None)) \<and>
    (\<forall>h \<in> dom (live_cbs (cb_heap w)). h \<in> set (refused_cbs (cb_heap w)) \<or>
       (\<exists>!p. pv_data (view (pw_lib w)) p = Some h \<and>
         (p \<in> pv_open (view (pw_lib w)) \<or> p \<in> pv_running (view (pw_lib w)) \<or> (\<exists>i. pw_hold w i = Some p)))) \<and>
    (\<forall>h \<in> set (refused_cbs (cb_heap w)). live_cbs (cb_heap w) h \<noteq> None \<and> h \<notin> set (called_cbs (cb_heap w)) \<and>
       (\<exists>u f i. (call_step A view n)\<^sup>*\<^sup>* w0 u \<and> (call_step A view n)\<^sup>*\<^sup>* (attach_holder A f i u) w \<and>
         calls (pw_objs u) i \<noteq> None \<and> pw_hold u i = None \<and> h = next_cb (cb_heap u)))"
proof (intro conjI ballI)
  let ?H = "cb_heap w" and ?v = "view (pw_lib w)"
  have I: "call_inv view n w" using pending_calls.steps_inv [OF assms(1,3) no_calls_inv [OF assms(2)]] .
  then have H: "holders_ok {} ?v ?H" and c: "counts_ok n (\<lambda>_. 0) ?v (uses w) (pw_hold w)" by (simp_all add: call_inv_def)
  then have k: "heap_ok ?H" by (simp add: holders_ok_def)
  then show "cb_faults ?H = 0" "distinct (deleted_cbs ?H)" "distinct (called_cbs ?H)"
    and "\<forall>h < next_cb ?H. (h \<in> set (deleted_cbs ?H)) = (live_cbs ?H h = None)"
    by (auto simp: heap_ok_def)
  show "h \<in> set (refused_cbs ?H) \<or> (\<exists>!p. pv_data ?v p = Some h \<and> (p \<in> pv_open ?v \<or> p \<in> pv_running ?v \<or> (\<exists>i. pw_hold w i = Some p)))"
    if "h \<in> dom (live_cbs ?H)" for h
  proof (cases "h \<in> set (refused_cbs ?H)")
    case False
    with that obtain p where p: "pv_data ?v p = Some h" using H by (auto simp: holders_ok_def own_ok_def ran_def)
    have u: "q = p" if "pv_data ?v q = Some h" for q using H p that by (auto simp: holders_ok_def own_ok_def one_owner_def)
    have "\<exists>i. pw_hold w i = Some p" if "pv_refs ?v p \<noteq> 0"
    proof (rule ccontr)
      assume "\<nexists>i. pw_hold w i = Some p"
      then have "holders n (pw_hold w) p = 0" by (simp add: holders_card)
      with c that show False by (auto simp: counts_ok_def)
    qed
    moreover have "p \<in> needed ?v" using H p by (auto simp: holders_ok_def)
    ultimately have "p \<in> pv_open ?v \<or> p \<in> pv_running ?v \<or> (\<exists>i. pw_hold w i = Some p)" by (auto simp: needed_def)
    with p u have "\<exists>!p. pv_data ?v p = Some h \<and> (p \<in> pv_open ?v \<or> p \<in> pv_running ?v \<or> (\<exists>i. pw_hold w i = Some p))"
      by blast
    then show ?thesis ..
  qed simp
  fix h assume h: "h \<in> set (refused_cbs ?H)"
  with H k show "live_cbs ?H h \<noteq> None" "h \<notin> set (called_cbs ?H)" by (auto simp: holders_ok_def own_ok_def heap_ok_def)
  have "h \<notin> set (refused_cbs (cb_heap w0))" using assms(2) by (simp add: no_calls_def)
  then show "\<exists>u f i. (call_step A view n)\<^sup>*\<^sup>* w0 u \<and> (call_step A view n)\<^sup>*\<^sup>* (attach_holder A f i u) w \<and>
      calls (pw_objs u) i \<noteq> None \<and> pw_hold u i = None \<and> h = next_cb (cb_heap u)"
    by (rule pending_calls.refused_origin [OF assms(1,3) h])
qed

text \<open>
  C29. After \<open>cancel\<close> the callback of the call is never called, whatever else happens, unless it
  was called before.
\<close>

theorem cancelled_callback_silent:
  assumes "pending_calls A view" and "no_calls view w0" and "(call_step A view n)\<^sup>*\<^sup>* w0 w"
    and "pw_hold w i = Some p" and "pv_data (view (pw_lib w)) p = Some h" and "h \<notin> set (called_cbs (cb_heap w))"
    and "(call_step A view n)\<^sup>*\<^sup>* (call_cancel A i w) w'"
  shows "h \<notin> set (called_cbs (cb_heap w'))"
  using assms(6) pending_calls.cancelled_silent [OF assms(1) no_calls_inv [OF assms(2)] assms(3-5) assms(7)] by blast

text \<open>
  C30. The request \<open>ClientProperty::attach\<close> sends on an open connection cannot be taken back: no object refers to it, so
  that it waits until the reply comes, also after the stub is gone; then the callback uses the
  property that was a member of the stub.
\<close>

theorem attach_reply_uses_stub:
  assumes "pending_calls A view" and "no_calls view w0" and "(call_step A view n)\<^sup>*\<^sup>* w0 w"
    and "i < n" and "calls (pw_objs w) i = None" and "pa_send A (pw_lib w) = (Some p, l)"
  shows "\<exists>h. \<forall>w2. (call_step A view n)\<^sup>*\<^sup>* (stub_destroyed s (attach_get A serial s i w)) w2 \<longrightarrow> h \<notin> set (called_cbs (cb_heap w2)) \<longrightarrow>
    p \<in> pv_open (view (pw_lib w2)) \<and> (\<forall>j. pw_hold w2 j \<noteq> Some p) \<and>
    (s \<notin> pw_stubs w2 \<longrightarrow> dangling (reply_arrived A p w2) = dangling w2 @ [s])"
  using pending_calls.attach_not_taken_back [OF assms(1) no_calls_inv [OF assms(2)] assms(3-6)] by blast

subsection \<open>Runs\<close>

definition calls0 :: "list_pending call_state" where
  "calls0 = \<lparr>pw_lib = \<lparr>lp_refs = [], lp_open = [], lp_running = [], lp_data = [], lp_connected = True\<rparr>,
     pw_objs = \<lparr>calls = Map.empty, cancelled = {}\<rparr>, uses = (\<lambda>_. 0),
     cb_heap = \<lparr>live_cbs = Map.empty, next_cb = 0, called_cbs = [], deleted_cbs = [], refused_cbs = [], cb_faults = 0\<rparr>,
     pw_stubs = {7}, dangling = []\<rparr>"

lemma calls0_start: "no_calls lp_view calls0"
  by (simp add: no_calls_def calls0_def unused_def lp_view_def)

text \<open>A call to which a callback is attached.\<close>

definition calls1 :: "list_pending call_state" where
  "calls1 = attach_holder list_calls CallbackHolder 0 (call_request list_calls 1 0 calls0)"

lemma calls1_run: "(call_step list_calls lp_view 2)\<^sup>*\<^sup>* calls0 calls1"
proof -
  have "call_step list_calls lp_view 2 (call_request list_calls 1 0 calls0) calls1"
    unfolding calls1_def by (rule cs_attach)
      (simp_all add: call_request_def calls0_def list_calls_def pw_hold_def set_call_def pending_of_def PendingCall_new_def
        lp_fresh_def lp_view_def)
  moreover have "call_step list_calls lp_view 2 calls0 (call_request list_calls 1 0 calls0)"
    by (rule cs_request) (simp_all add: calls0_def)
  ultimately show ?thesis by (meson converse_rtranclp_into_rtranclp r_into_rtranclp)
qed

text \<open>
  The object is dropped, and the reply comes: the callback is called, then its holder is deleted.
  The next holder is attached to an object without a pending call.
\<close>

theorem callback_holders_owned_witness:
  "\<exists>w. (call_step list_calls lp_view 2)\<^sup>*\<^sup>* calls0 w \<and> called_cbs (cb_heap w) = [0] \<and> deleted_cbs (cb_heap w) = [0] \<and>
     cb_faults (cb_heap w) = 0 \<and> live_cbs (cb_heap w) 0 = None \<and> refused_cbs (cb_heap w) = [1] \<and> live_cbs (cb_heap w) 1 \<noteq> None"
proof -
  let ?w2 = "call_destroy list_calls 0 calls1"
  let ?w3 = "reply_arrived list_calls 1 ?w2"
  let ?w4 = "reply_done list_calls 1 ?w3"
  let ?w5 = "call_reset list_calls 1 ?w4"
  let ?w6 = "attach_holder list_calls CallbackHolder 1 ?w5"
  have "call_step list_calls lp_view 2 calls1 ?w2" by (rule cs_destroy) simp
  moreover have "1 \<in> set (lp_open (pw_lib ?w2))" by code_simp
  then have "call_step list_calls lp_view 2 ?w2 ?w3" by (intro cs_reply) (simp add: lp_view_def)
  moreover have "1 \<in> set (lp_running (pw_lib ?w3))" by code_simp
  then have "call_step list_calls lp_view 2 ?w3 ?w4" by (intro cs_done) (simp add: lp_view_def)
  moreover have "call_step list_calls lp_view 2 ?w4 ?w5" by (rule cs_reset) simp
  moreover have "calls (pw_objs ?w5) 1 \<noteq> None" by (simp add: call_reset_def)
  then have "call_step list_calls lp_view 2 ?w5 ?w6" by (rule cs_attach) simp
  ultimately have r: "(call_step list_calls lp_view 2)\<^sup>*\<^sup>* calls0 ?w6"
    using calls1_run by (meson rtranclp.rtrancl_into_rtrancl)
  have e: "called_cbs (cb_heap ?w6) = [0] \<and> deleted_cbs (cb_heap ?w6) = [0] \<and> next_cb (cb_heap ?w6) = 2 \<and>
      refused_cbs (cb_heap ?w6) = [1]" by code_simp
  note C = callback_holders_owned [OF lp.pending_calls_axioms calls0_start r]
  have f: "cb_faults (cb_heap ?w6) = 0" using C by (rule conjunct1)
  have "\<forall>h < next_cb (cb_heap ?w6). (h \<in> set (deleted_cbs (cb_heap ?w6))) = (live_cbs (cb_heap ?w6) h = None)"
    using C by (elim conjE)
  from this [rule_format, of 0] this [rule_format, of 1] e
  have "live_cbs (cb_heap ?w6) 0 = None" "live_cbs (cb_heap ?w6) 1 \<noteq> None" by simp_all
  with r e f show ?thesis by blast
qed

theorem cancelled_callback_silent_witness:
  "\<exists>w. (call_step list_calls lp_view 2)\<^sup>*\<^sup>* (call_cancel list_calls 0 calls1) w \<and> 0 \<notin> set (called_cbs (cb_heap w)) \<and>
     deleted_cbs (cb_heap w) = [0]"
proof -
  let ?w = "call_destroy list_calls 0 (call_cancel list_calls 0 calls1)"
  have r: "(call_step list_calls lp_view 2)\<^sup>*\<^sup>* (call_cancel list_calls 0 calls1) ?w"
    by (rule r_into_rtranclp, rule cs_destroy) simp
  have "pw_hold calls1 0 = Some 1" "map_of (lp_data (pw_lib calls1)) 1 = Some 0" "0 \<notin> set (called_cbs (cb_heap calls1))"
    by code_simp+
  then have "0 \<notin> set (called_cbs (cb_heap ?w))"
    using cancelled_callback_silent [OF lp.pending_calls_axioms calls0_start calls1_run _ _ _ r, of 1 0] by (simp add: lp_view_def)
  moreover have "deleted_cbs (cb_heap ?w) = [0]" by code_simp
  ultimately show ?thesis using r by blast
qed

theorem attach_reply_uses_stub_witness:
  "let w1 = attach_get list_calls 1 7 0 calls0 in
     7 \<in> pw_stubs w1 \<and> 1 \<in> pv_open (lp_view (pw_lib w1)) \<and> dangling (reply_arrived list_calls 1 (stub_destroyed 7 w1)) = [7]"
proof -
  let ?w1 = "attach_get list_calls 1 7 0 calls0"
  have e: "pw_stubs ?w1 = {7} \<and> called_cbs (cb_heap ?w1) = [] \<and> dangling ?w1 = []" by code_simp
  have "(0 :: nat) < 2" "calls (pw_objs calls0) 0 = None" by (simp_all add: calls0_def)
  moreover have "fst (pa_send list_calls (pw_lib calls0)) = Some 1" by code_simp
  then have "pa_send list_calls (pw_lib calls0) = (Some 1, snd (pa_send list_calls (pw_lib calls0)))" by (metis prod.collapse)
  ultimately have "\<exists>h. \<forall>w2. (call_step list_calls lp_view 2)\<^sup>*\<^sup>* (stub_destroyed 7 ?w1) w2 \<longrightarrow> h \<notin> set (called_cbs (cb_heap w2)) \<longrightarrow>
      1 \<in> pv_open (lp_view (pw_lib w2)) \<and> (\<forall>j. pw_hold w2 j \<noteq> Some 1) \<and>
      (7 \<notin> pw_stubs w2 \<longrightarrow> dangling (reply_arrived list_calls 1 w2) = dangling w2 @ [7])"
    by (rule attach_reply_uses_stub [OF lp.pending_calls_axioms calls0_start rtranclp.rtrancl_refl])
  then have "1 \<in> pv_open (lp_view (pw_lib (stub_destroyed 7 ?w1)))"
    "dangling (reply_arrived list_calls 1 (stub_destroyed 7 ?w1)) = dangling (stub_destroyed 7 ?w1) @ [7]"
    using e by (fastforce simp: stub_destroyed_def)+
  with e show ?thesis by (simp add: Let_def stub_destroyed_def)
qed

end
