(* ===== verification/Spec2Isabelle.thy ===== *)
theory Spec2Isabelle
  imports TypedCorrect NameUtil CallCorrect PollCorrect LifetimeCorrect ObjectManagerCorrect ResourcesCorrect Startup HeldData StructTypes AsyncCalls IniSections AsioCorrect DeclaredSkeleton PendingCallsCorrect
begin

text \<open>
  Verification of simppl, a C++ library that makes remote procedure calls, signals and
  properties of D-Bus look like members of C++ classes. Paths are below \<^verbatim>\<open>src/\<close> of the repository;
  the headers are in \<^verbatim>\<open>include/simppl\<close>, the sources in \<^verbatim>\<open>src\<close>.

  \<^bold>\<open>The program.\<close> An interface is a template whose members are methods, signals and properties.
  On the client it is instantiated as a \<^emph>\<open>stub\<close> (\<^verbatim>\<open>stubbase\<close>, \<^verbatim>\<open>clientside\<close>), on the server as a
  \<^emph>\<open>skeleton\<close> (\<^verbatim>\<open>skeletonbase\<close>, \<^verbatim>\<open>serverside\<close>). Both belong to a \<^emph>\<open>dispatcher\<close> (\<^verbatim>\<open>dispatcher\<close>), which
  owns the connection to the bus, keeps the match rules at the bus, hands incoming signals to
  the stubs and runs the main loop. Requests reach a skeleton through the object path it
  registers at libdbus. What is sent goes through the \<^emph>\<open>serializer\<close>, a class template \<open>Codec<T>\<close>
  specialised for every type that can be sent; which types a method sends is computed at
  compile time from its declaration (\<^verbatim>\<open>parameter_deduction\<close>, \<^verbatim>\<open>typelist\<close>).

  \<^bold>\<open>Conventions.\<close> Theory Prelude: a call that may throw, not return or leave an object is a value
  of \<open>'a res\<close>; \<open>None\<close> is "does not return", \<open>Inl\<close> an exception, and undefined behaviour is the
  exception value \<open>UndefinedBehaviour\<close>. Theory Bus: a call with side effects is a function from
  the state to such a result and the new state; exceptions keep the state, as C++ does not roll
  back. The model is that of a Release build: assertions are hypotheses of the theorems that need
  them. Integers that can wrap are words or carry their range; C++ objects reached by pointer
  are entries of a store, and a null pointer is \<open>None\<close>. There is no fuel: loops that walk
  pointers or wait for events are \<open>partial_function (option)\<close>, and the theorems about them state
  that they return. Template metaprograms are functions on datatypes of types; an instantiation
  that does not compile is \<open>None\<close>.

  \<^bold>\<open>What is not the repository's is a parameter.\<close> Message iterators (record \<open>dbus_iter_api\<close>), the
  connection (\<open>dbus_conn_api\<close>), pending calls (\<open>pending_api\<close>), watches and timeouts of libdbus, the kernel's file
  descriptors and \<open>poll\<close>, the callbacks of the program, and Boost.Asio (\<open>asio_api\<close>) are arguments
  of the definitions. What the code relies on is stated in locales over the client's operations
  and the contracts they keep, and each locale is interpreted: \<open>dbus_iter\<close> (iterators, on lists of
  values), \<open>codec\<close> and \<open>key_codec\<close> (what an encoder and decoder of a type promise; proved for every
  codec of the code), \<open>fields\<close> and \<open>alternatives\<close> (lists of codecs), \<open>dbus_conn\<close> (the
  connection, on a recorded connection), \<open>match_table\<close> (the table of match rules, a sublocale of
  \<open>dbus_conn\<close> for the dispatcher's own operations), \<open>server_env\<close> (what a skeleton needs), \<open>ini_env\<close>, \<open>asio\<close> and \<open>pending_calls\<close>.

  \<^bold>\<open>Serializer.\<close>
  DBusIter (libdbus' iterators); ErrorObj (\<^verbatim>\<open>error.h\<close>, \<^verbatim>\<open>error.cpp\<close>); Codec (\<^verbatim>\<open>serialization\<close>, \<^verbatim>\<open>pod.h\<close>,
  \<^verbatim>\<open>bool\<close>, \<^verbatim>\<open>string\<close>, \<^verbatim>\<open>objectpath\<close>); Containers (\<^verbatim>\<open>vector.h\<close>, \<^verbatim>\<open>pair.h\<close>, \<^verbatim>\<open>map.h\<close>); Aggregates
  (\<^verbatim>\<open>tuple.h\<close>, \<^verbatim>\<open>for_each.h\<close>, \<^verbatim>\<open>struct.h\<close>, \<^verbatim>\<open>wstring\<close>); Variants (\<^verbatim>\<open>variant.h\<close>, \<^verbatim>\<open>property.h\<close>, \<^verbatim>\<open>buffer.h\<close>);
  AnyValue (\<^verbatim>\<open>any.h\<close>); CppTypes (the datatype \<open>cpp_ty\<close> of types that nest, and the choice of the
  codec; \<open>Any\<close>, buffers, descriptors and structs have theories of their own); StructTypes (\<^verbatim>\<open>struct.h\<close>: \<open>make_serializer\<close>, Boost.Fusion). Each codec meets the contract
  if those of its parts do; by induction on the type the serializer round-trips
  (C6, C12, C22), decoding is total (C14), refuses other types (C16) and keeps the first of
  duplicate keys (map_decode_keeps_first). Every enumeration is sent as four bytes whatever its
  width: of another width its values are none a message can carry (\<open>val_ok\<close>, \<open>ty_sized\<close>,
  narrow_enumeration_overrun, wide_enum_truncated). C33 is what becomes of byte buffers, whose
  received length is not checked.

  \<^bold>\<open>Declarations.\<close>
  TypeLists (\<^verbatim>\<open>typelist.h\<close>), Deduction (\<^verbatim>\<open>parameter_deduction.h\<close>, \<^verbatim>\<open>detail/validation.h\<close>),
  TypedMethods and TypedCorrect (\<^verbatim>\<open>ClientMethod\<close>, \<^verbatim>\<open>ServerMethod\<close> with \<^verbatim>\<open>detail/callinterface.h\<close> and
  \<^verbatim>\<open>detail/deserialize_and_return.h\<close>: both sides agree, C2, calls and signals carry their values, C1,
  C4, and a method whose only result is a tuple cannot be used, C38), AsyncCalls (asynchronous calls
  agree with blocking ones, C3, but not for properties, C40).

  \<^bold>\<open>Client.\<close>
  NameUtil (\<^verbatim>\<open>util.cpp\<close>); CallStates (\<^verbatim>\<open>detail/error.h\<close>, \<^verbatim>\<open>callstate.h\<close>); MatchTable (the reference
  counted match rules of \<^verbatim>\<open>dispatcher.cpp\<close>); StubState, StubRegistration, StubProperties, StubSignals
  (\<^verbatim>\<open>stubbase.cpp\<close>, \<^verbatim>\<open>clientside.h\<close>): the intrusive list of signals refines a list (C20); Dispatcher
  and Startup (\<^verbatim>\<open>dispatcher.cpp\<close>: stubs, bus names, construction, C31); ClientRuns (a process with
  any number of stubs as a step relation: what is attached is matched at the bus, C7, and nothing
  stays behind, C9; a destruction, detachment or attachment of a property that throws ends
  the program's use of the stub and is not a step); Connections and ClientCorrect (connection states C11, where
  \<open>notify_client\<close> is the exception, C17, C18, delivery
  of signals C10 and of property changes C19).

  \<^bold>\<open>Server.\<close>
  ServerState, Skeleton (\<^verbatim>\<open>skeletonbase.cpp\<close>, \<^verbatim>\<open>serverside.h\<close>), Serving, Replies, PropertyServing and
  ServerCorrect: every request is answered at most once and handled, but for unknown
  members of \<open>Introspectable\<close> (C8), properties (C5, C15,
  C21). ObjectManager (\<^verbatim>\<open>objectmanagermixin.cpp\<close>): C24, C34. Lifetime (\<^verbatim>\<open>skeleton.h\<close>, \<^verbatim>\<open>stub.h\<close>,
  registration of object paths): C23. DeclaredSkeleton (\<^verbatim>\<open>detail/interposer.h\<close>: from the
  declarations of interfaces to the lists that requests are looked up in, C32).

  \<^bold>\<open>Both ends and the loop.\<close>
  Requests, Calls, CallCorrect (requests of stubs with their timeouts, through the skeleton and
  back: C13); PollLoop, PollCorrect (watches, timeouts, \<open>poll\<close>, \<open>run\<close>: C25, a watch
  enabled later is not polled, enabled_later_not_polled, C26, C35);
  AsioExecutor, AsioCorrect (the same duties done with Boost.Asio,
  \<^verbatim>\<open>examples/asio/dbusexecutor.cpp\<close>: descriptors are shared and not closed before the executor is destroyed, C36, but a
  watch that is disabled starves the others of its descriptor, C37).

  \<^bold>\<open>Resources.\<close>
  Resources, Ownership (\<^verbatim>\<open>filedescriptor.cpp\<close>, \<^verbatim>\<open>serverrequestdescriptor.cpp\<close>, \<^verbatim>\<open>pendingcall.cpp\<close>: C27, with the one
  leak there is, assign_to_reference_leaks),
  PendingCalls, PendingCallsCorrect (who owns the callback of an asynchronous call, \<^verbatim>\<open>detail/holders.h\<close> with
  \<^verbatim>\<open>pendingcall.cpp\<close>: holders are deleted once and callbacks called at most once, C28,
  but a holder attached where there is no pending call is lost; no callback is called
  after \<open>cancel\<close>, C29, but a reply may find its stub gone, C30),
  HeldData (buffers that own their bytes and \<open>Any\<close> objects that hold messages).

  \<^bold>\<open>Ini files.\<close>
  IniFile, IniFileCorrect (the state machines of \<^verbatim>\<open>detail/inifile.h\<close> on the arrays they write to,
  equal to reference parsers on strings, C39), IniValues, IniValuesCorrect (lines,
  numbers, lists of values), IniSections (chains of keys and handlers, sections, files).

  \<^bold>\<open>Not modelled.\<close> The examples other than the Asio executor and the tests only use the library.
  Headers without code of their own are left out: type aliases and tags (\<^verbatim>\<open>calltraits.h\<close>,
  \<^verbatim>\<open>noninstantiable.h\<close>, \<^verbatim>\<open>type_wrappers.h\<close>) and the interface of the object manager
  (\<^verbatim>\<open>api/objectmanager.h\<close>). The classes \<^verbatim>\<open>detail/inifile.h\<close>
  uses and the repository does not contain (\<open>Key\<close>, \<open>Section\<close>, \<open>File\<close>, and \<open>tribool\<close> of the missing
  \<^verbatim>\<open>simppl/tribool.h\<close>) are parameters. The text of exceptions
  and opening files are left out. Threads: the library is
  used from one thread, and so is the model; callbacks of the program act on what they are
  given, and a callback that destroys the stub or skeleton it is called from is left aside.
  The dispatcher is built with \<^verbatim>\<open>SIMPPL_USE_POLL\<close>.
\<close>

section \<open>Serialization\<close>

text \<open>
  A type and a value the theorems about the serializer are applied to:
  \<open>std::map<std::string, std::vector<std::tuple<int, std::variant<std::string, double>>>>\<close>.
\<close>

definition sample_ty :: cpp_ty where
  "sample_ty = TyMap KeyString (TyVector (TyTuple [TyPod Int32, TyVariant [TyString, TyPod Double]]))"

definition sample_val :: cpp_val where
  "sample_val = VStrMap
     [(''a'', VVector [VTuple [VPod (BInt32 7), VVariant 1 (VPod (BDouble 9))]]),
      (''b'', VVector [VTuple [VPod (BInt32 (- 1)), VVariant 0 (VStr ''x'')]])]"

lemma sample_ok: "ty_ok sample_ty" "ty_sized sample_ty" "val_ok (\<lambda>_. True) sample_ty sample_val"
  by (auto simp: sample_ty_def sample_val_def dbus_type_code_def EnumTypeCodeHelper_def wire_size_def
      deduces_pod_def isPod_def pod_types_def entries_ok_def map_sorted_def str_ok_def NUL_def nul_free_def)

text \<open>
  C6. Round trip, for every type of \<open>cpp_ty\<close>: numbers, enumerations, \<open>bool\<close>, strings, object paths
  and wide strings, and vectors, maps (keyed by a string, an object path or a \<open>uint32_t\<close>), tuples
  and variants (whose alternatives have distinct signatures) of such types, however nested. Encoding a
  value that a message can carry (valid UTF-8, sorted maps, and no value of an enumeration
  whose underlying type is not four bytes wide) appends exactly one value to the message, of
  the signature the type announces, and decoding that value gives the original back and
  leaves the iterator behind it. \<open>Any\<close>, byte buffers, file descriptors and \<open>wchar_t*\<close> are not
  among these types.
\<close>

theorem codec_round_trip:
  assumes "dbus_iter L bvalid wk wv rv" and "ty_ok T" and "val_ok bvalid T x"
  shows "\<exists>d. wv (enc (Codec_of L v0 T) w x) = wv w @ [d] \<and> dsig d = ty_sig T \<and>
    (\<forall>r vs. rv r = d # vs \<longrightarrow> (\<exists>r'. dec (Codec_of L v0 T) r = ret (x, r') \<and> rv r' = vs))"
proof -
  obtain cv where c: "codec L bvalid wk wv rv (Codec_of L v0 T) (val_ok bvalid T) cv"
    using dbus_iter.Codec_of_ok [OF assms(1,2)] by blast
  show ?thesis
    using codec.enc_vals [OF c assms(3)] codec.cv_sig [OF c assms(3)] codec.dec_vals [OF c assms(3)]
    by (auto simp: Codec_of_sig [OF assms(2)])
qed

theorem codec_round_trip_witness:
  "\<exists>r'. dec (Codec_of ref_api (0, VBool False) sample_ty)
      (snd (enc (Codec_of ref_api (0, VBool False) sample_ty) ref_root sample_val)) = ret (sample_val, r')"
  using codec_round_trip [OF ref.dbus_iter_axioms sample_ok(1,3), of "(0, VBool False)" ref_root]
  by (auto simp: ref_root_def)

text \<open>
  C14. Decoding a value of a type of \<open>cpp_ty\<close> (the types of the round trip above) in which no
  enumeration has an underlying type of another width than four bytes, out of any well-formed
  message, returns: either with a value, having consumed exactly one argument, or by
  throwing \<open>DecoderError\<close>. None of these decoders loops, reads past the message or ends in
  undefined behaviour.
\<close>

theorem decode_total:
  assumes "dbus_iter L bvalid wk wv rv" and "ty_ok T" and "ty_sized T" and "list_all wf_dval (rv r)"
  shows "dec (Codec_of L v0 T) r = throw DecoderError \<or>
    (\<exists>x r'. dec (Codec_of L v0 T) r = ret (x, r') \<and> rv r \<noteq> [] \<and> rv r' = tl (rv r))"
  using total_decoder.dec_total [OF dbus_iter.Codec_of_total [OF assms(1-3)] assms(4)] .

theorem decode_total_witness:
  "dec (Codec_of ref_api (0, VBool False) sample_ty) [Basic (BInt32 3)] = throw DecoderError \<or>
   (\<exists>x. dec (Codec_of ref_api (0, VBool False) sample_ty) [Basic (BInt32 3)] = ret (x, []))"
  using decode_total [OF ref.dbus_iter_axioms sample_ok(1,2), of "[Basic (BInt32 3)]" "(0, VBool False)"]
  by auto

text \<open>
  The width matters: an enumeration of fewer than four bytes, alone or as an element, makes the
  decoder write behind the object as soon as an integer arrives for it (\<^verbatim>\<open>pod.h\<close>); an
  enumeration of eight bytes comes back with the upper half of whatever its object held before.
\<close>

theorem narrow_enumeration_overrun:
  assumes "dbus_iter L bvalid wk wv rv" and "n < 4" and "rv r = Basic (BInt32 x) # vs"
  shows "dec (Codec_of L v0 (TyPod (Enumeration n))) r = throw UndefinedBehaviour"
proof -
  obtain c where c: "pod_codec L (un_int64 (un_VPod (snd v0))) (Enumeration n) un_VPod VPod = Some c"
    by (simp add: pod_codec_def deduces_pod_def dbus_type_code_def EnumTypeCodeHelper_def)
  show ?thesis
    using narrow_enum_decode [OF assms(2) c, of r] dbus_iter.arg_type_val [OF assms(1,3)] c by simp
qed

text \<open>
  C16. A value of another type is refused: when the next argument does not have the type code
  the C++ type is serialized with, decoding throws \<open>DecoderError\<close> and nothing else.
\<close>

theorem decode_type_mismatch:
  assumes "dbus_iter L bvalid wk wv rv" and "ty_ok T" and "rv r = v # vs"
    and "dtype v \<noteq> sig_type (ty_sig T)"
  shows "dec (Codec_of L v0 T) r = throw DecoderError"
proof -
  obtain cv where c: "codec L bvalid wk wv rv (Codec_of L v0 T) (val_ok bvalid T) cv"
    using dbus_iter.Codec_of_ok [OF assms(1,2)] by blast
  show ?thesis
    by (rule codec.dec_type [OF c])
      (simp add: dbus_iter.arg_type_val [OF assms(1,3)] Codec_of_sig [OF assms(2)] assms(4))
qed

theorem decode_type_mismatch_witness:
  "dec (Codec_of ref_api (0, VBool False) sample_ty) [Basic (BInt32 3)] = throw DecoderError"
  by (rule decode_type_mismatch [OF ref.dbus_iter_axioms sample_ok(1), where vs = "[]" and v = "Basic (BInt32 3)"])
    (simp_all add: sample_ty_def)

text \<open>
  A map is decoded whatever the order of the received entries and whatever keys come
  twice: the result is strictly sorted, and each key has the value that was received first.
\<close>

theorem map_decode_keeps_first:
  assumes "dbus_iter L bvalid wk wv rv"
    and "key_codec L bvalid wk wv rv ck okk ckv" and "codec L bvalid wk wv rv cw okw cwv"
    and "rv r = vector_val g (pair_val ckv cwv) ps # vs"
    and "list_all (\<lambda>p. okk (fst p) \<and> okw (snd p)) ps"
  shows "\<exists>m r'. map_decode L ck cw r = ret (m, r') \<and> rv r' = vs \<and> map_sorted m \<and>
    (\<forall>k. map_of m k = map_of ps k)"
proof -
  have "map_decode L ck cw r = ret (fold std_map_insert ps [], iter_next L r)"
    by (rule dbus_iter.map_decode_any_order [OF assms])
  moreover have "map_sorted []" by (simp add: map_sorted_def)
  ultimately show ?thesis
    using dbus_iter.next_vals [OF assms(1,4)] std_map_insert_fold [of "[]" ps] by auto
qed

theorem map_decode_keeps_first_witness:
  "\<exists>m r'. map_decode ref_api (string_codec ref_api) (int32_codec ref_api)
      [vector_val ''{si}'' (pair_val (\<lambda>s. Basic (BString (c_str s))) (\<lambda>x. Basic (BInt32 x)))
         [(''b'', 1), (''a'', 2), (''b'', 3)]] = ret (m, r') \<and>
    map_of m ''b'' = Some 1 \<and> map_of m ''a'' = Some 2"
  using map_decode_keeps_first [OF ref.dbus_iter_axioms ref.string_codec_ok
      key_codec.axioms(1) [OF ref.int32_ok], where vs = "[]" and ps = "[(''b'', 1), (''a'', 2), (''b'', 3)]"
      and g = "''{si}''" and r = "[vector_val ''{si}'' (pair_val (\<lambda>s. Basic (BString (c_str s))) (\<lambda>x. Basic (BInt32 x)))
         [(''b'', 1), (''a'', 2), (''b'', 3)]]"]
  by (fastforce simp: ref.string_ok_def nul_free_def NUL_def)

text \<open>The C++ type a value of \<open>Any\<close> was made from.\<close>

definition any_typed ::
  "('w, 'r) dbus_iter_api \<Rightarrow> ('w, 'r, 'e) cpp_type \<Rightarrow> 'e cpp_value \<Rightarrow> bool" where
  "any_typed L T x \<longleftrightarrow> (case x of VInt _ \<Rightarrow> T = int_type L | VDouble _ \<Rightarrow> T = double_type L
     | VString _ \<Rightarrow> T = string_type L | VOther _ \<Rightarrow> True)"

lemma Any_encode_new:
  "any_typed L T x \<Longrightarrow> Any_encode L w (Any_new T x) = Any_encoder L T w x"
  by (cases x) (auto simp: any_typed_def Any_encode_def Any_new_def)

text \<open>
  C22. An \<open>Any\<close> that the program sets to a value of type \<open>T\<close>, sent and received, answers
  \<open>is<T>()\<close> with true and \<open>as<T>()\<close> with the value; for a type of another signature \<open>is\<close> is
  false and \<open>as\<close> throws.
\<close>

theorem any_round_trip:
  fixes x :: "'e cpp_value"
  assumes "dbus_iter L bvalid wk wv rv" and "codec L bvalid wk wv rv (type_codec T) ok cv"
    and "ok x" and "any_typed L T x" and "wv (Any_encode L w (Any_new T x)) = wv w @ [d]" and "rv r = d # vs"
  shows "\<exists>a r'. Any_decode L r = ret (a, r') \<and> rv r' = vs \<and> Any_is L T a \<and> Any_as L T a = ret x \<and>
    (\<forall>U :: ('w, 'r, 'e) cpp_type. sgn (type_codec U) \<noteq> sgn (type_codec T) \<longrightarrow>
       \<not> Any_is L U a \<and> Any_as L U a = throw (StdRuntimeError ''Invalid type''))"
proof -
  have "d = property_val cv x"
    using dbus_iter.Any_encoder_vals [OF assms(1-3), of w] Any_encode_new [OF assms(4), of w] assms(5)
    by simp
  with assms(6) have r: "rv r = property_val cv x # vs" by simp
  note dv = dbus_iter.Any_decode_vals [OF assms(1) r]
  have "get_signature L (iter_recurse L r) = sgn (type_codec T)"
    using dbus_iter.signature_val [OF assms(1) dv(2)] codec.cv_sig [OF assms(2,3)] by simp
  then have "\<not> Any_is L U (AnyIterator (Some (iter_recurse L r))) \<and>
      Any_as L U (AnyIterator (Some (iter_recurse L r))) = throw (StdRuntimeError ''Invalid type'')"
    if "sgn (type_codec U) \<noteq> sgn (type_codec T)" for U :: "('w, 'r, 'e) cpp_type"
    using that by (simp add: Any_is_def Any_as_def)
  with dv show ?thesis
    using dbus_iter.Any_as_received [OF assms(1-3) dv(2)] by blast
qed

theorem any_round_trip_witness:
  "\<exists>a. Any_decode ref_api
       (snd (Any_encode ref_api ref_root (Any_new (int_type ref_api) (VInt 5 :: unit cpp_value)))) = ret (a, []) \<and>
     Any_as ref_api (int_type ref_api) a = ret (VInt 5 :: unit cpp_value)"
  using any_round_trip [OF ref.dbus_iter_axioms ref.builtin_types_ok(1), of "VInt 5 :: unit cpp_value" ref_root
      "Cont DBUS_TYPE_VARIANT ''i'' [Basic (BInt32 5)]"
      "[Cont DBUS_TYPE_VARIANT ''i'' [Basic (BInt32 5)]]" "[]"]
  by (auto simp: any_typed_def Any_new_def Any_encode_def Any_encoder_def int_type_def codec_iso_def
      int32_codec_def basic_codec_def ref_api_simps ref_root_def)

text \<open>
  \<open>is<T>()\<close> predicts \<open>as<T>()\<close>: for every \<open>Any\<close>, default constructed, set by the program or
  received, it is true exactly when \<open>as<T>()\<close> does not fail with a type error.
\<close>

theorem any_is_predicts_as:
  assumes "dbus_iter L bvalid wk wv rv" and "total_decoder L bvalid wk wv rv (type_codec T)"
    and "any_wf rv a"
  shows "Any_is L T a \<longleftrightarrow> \<not> (\<exists>e. Any_as L T a = throw e \<and> any_type_error e)"
  by (rule dbus_iter.Any_is_iff [OF assms])

definition received_int :: "(ref_w, dval list, unit) any" where
  "received_int = AnyIterator (Some [Basic (BInt32 5)])"

lemma received_int: "any_wf (\<lambda>r. r) received_int" "Any_is ref_api (int_type ref_api) received_int"
  by (simp_all add: received_int_def any_wf_def Any_is_def int_type_def codec_iso_def int32_codec_def
      basic_codec_def ref_api_simps)

theorem any_is_predicts_as_witness:
  "\<not> (\<exists>e. Any_as ref_api (int_type ref_api) received_int = throw e \<and> any_type_error e)"
  by (rule any_is_predicts_as [THEN iffD1, OF ref.dbus_iter_axioms ref.builtin_types_total(1) received_int])

text \<open>
  The alternatives of a variant are told apart by their signature only: when the second of
  two alternatives has the signature of the first and the value sent also stands for a value of
  the first, the receiver finds the first alternative in the variant, not the one that was sent.
\<close>

theorem variant_same_signature:
  assumes "dbus_iter L bvalid wk wv rv" and "codec L bvalid wk wv rv c ok cv"
    and "codec L bvalid wk wv rv c2 ok2 cv2" and "ok x" and "ok2 y" and "cv2 y = cv x"
    and "wv (enc (variant_codec L (alts_cons L c (alts_last L c2)) held) w (Inr y)) = wv w @ [d]"
    and "rv r = d # vs"
  shows "\<exists>r'. dec (variant_codec L (alts_cons L c (alts_last L c2)) held) r = ret (Inl x, r') \<and> rv r' = vs"
proof -
  have "sgn c2 = sgn c"
    using codec.cv_sig [OF assms(2,4)] codec.cv_sig [OF assms(3,5)] assms(6) by simp
  then have "d = Cont DBUS_TYPE_VARIANT (sgn c) [cv x]"
    using codec.VariantSerializer_vals [OF assms(3,5), of w] assms(6,7)
    by (simp add: variant_codec_def alts_cons_def alts_last_def)
  with assms(8) have r: "rv r = Cont DBUS_TYPE_VARIANT (sgn c) [cv x] # vs" by simp
  have sub: "rv (iter_recurse L r) = [cv x]"
    by (rule dbus_iter.recurse_vals [OF assms(1) r])
  obtain it where it: "dec c (iter_recurse L r) = ret (x, it)"
    using codec.dec_vals [OF assms(2,4) sub] by blast
  note g = codec.cv_sig [OF assms(2,4)]
  show ?thesis
    using dbus_iter.variant_first_match [OF assms(1) r g g [symmetric] it] dbus_iter.next_vals [OF assms(1) r]
    by blast
qed

theorem variant_same_signature_witness:
  "\<exists>r'. dec (variant_codec ref_api (alts_cons ref_api (vector_codec ref_api (uint32_codec ref_api))
        (alts_last ref_api (wstring_codec ref_api))) (Inl []))
      [Cont DBUS_TYPE_VARIANT ''au'' [Cont DBUS_TYPE_ARRAY ''u'' [Basic (BUint32 5)]]] = ret (Inl [5], r')"
  using variant_same_signature [OF ref.dbus_iter_axioms ref.vector_ok [OF key_codec.axioms(1) [OF ref.uint32_ok]]
      ref.wstring_ok, where x = "[5]" and y = "[5]" and held = "Inl []"
      and w = ref_root and d = "Cont DBUS_TYPE_VARIANT ''au'' [Cont DBUS_TYPE_ARRAY ''u'' [Basic (BUint32 5)]]"
      and r = "[Cont DBUS_TYPE_VARIANT ''au'' [Cont DBUS_TYPE_ARRAY ''u'' [Basic (BUint32 5)]]]" and vs = "[]"]
  by (auto simp: variant_codec_def alts_cons_def alts_last_def VariantSerializer_def ref.wstring_codec_vector
      vector_codec_def vector_encode_def uint32_codec_def vector_val_def
      basic_codec_def ref_api_simps ref_root_def)

text \<open>
  C33. A byte buffer on its way: what a program sends as a \<open>FixedSizeBuffer<m>\<close> is one array of
  its \<open>m\<close> bytes, and a receiver that declares the argument as \<open>FixedSizeBuffer<len>\<close> copies the
  first \<open>len\<close> bytes of it and goes on behind the array, whatever its block held before, as long as
  \<open>len\<close> is at most \<open>m\<close>; for a larger \<open>len\<close> the copy runs behind the array it got from libdbus,
  since the number of elements libdbus reports is not looked at.
\<close>

theorem buffer_decode_bounds:
  assumes "dbus_iter L bvalid wk wv rv" and "length b = m"
    and "wv (enc (buffer_codec m junk L) w b) = wv w @ [d]" and "rv r = d # vs"
  shows "(len \<le> m \<longrightarrow> (\<exists>r'. dec (buffer_codec len junk' L) r = ret (take len b, r') \<and> rv r' = vs)) \<and>
    (m < len \<longrightarrow> dec (buffer_codec len junk' L) r = throw UndefinedBehaviour)"
proof -
  have "d = bytes_val b"
    using dbus_iter.buffer_encode_vals [OF assms(1,2), of w] assms(3) by (simp add: buffer_codec_def)
  with assms(4) have r: "rv r = bytes_val b # vs" by simp
  show ?thesis
    using dbus_iter.buffer_decode_vals [OF assms(1) r, of len junk'] dbus_iter.next_vals [OF assms(1) r] assms(2)
    by (auto simp: buffer_codec_def)
qed

theorem buffer_decode_bounds_witness:
  "dec (buffer_codec 4 (\<lambda>_. 9) ref_api) [bytes_val [1, 2]] = throw UndefinedBehaviour \<and>
   (\<exists>r'. dec (buffer_codec 1 (\<lambda>_. 9) ref_api) [bytes_val [1, 2]] = ret ([1], r'))"
proof -
  have e: "snd (enc (buffer_codec 2 (\<lambda>_. 9) ref_api) ref_root [1, 2]) = snd ref_root @ [bytes_val [1, 2]]"
    using ref.buffer_encode_vals [of "[1, 2]" 2 ref_root] by (simp add: buffer_codec_def)
  show ?thesis
    using buffer_decode_bounds [OF ref.dbus_iter_axioms _ e, where vs = "[]" and len = 4 and junk' = "\<lambda>_. 9"]
      buffer_decode_bounds [OF ref.dbus_iter_axioms _ e, where vs = "[]" and len = 1 and junk' = "\<lambda>_. 9"]
    by auto
qed

text \<open>
  Reading an array of 32 bit characters into a \<open>wchar_t*\<close>: on every well-formed message the
  decoder stays inside the block it allocates, and a received string arrives with its
  terminator; an empty array gives the null pointer.
\<close>

theorem wchars_decode_safe:
  assumes "dbus_iter L bvalid wk wv rv" and "list_all wf_dval (rv r)"
  shows "wchars_decode junk L r = throw DecoderError \<or>
    (\<exists>s r'. wchars_decode junk L r = ret (s, r') \<and> rv r' = tl (rv r) \<and>
       (case s of None \<Rightarrow> True | Some buf \<Rightarrow> buf \<noteq> [] \<and> last buf = 0))"
  by (rule dbus_iter.wchars_decode_total [OF assms])

theorem wchars_decode_safe_witness:
  "\<exists>s r'. wchars_decode (\<lambda>_. 7) ref_api [Cont DBUS_TYPE_ARRAY ''u'' [Basic (BUint32 5)]] = ret (s, r') \<or>
     wchars_decode (\<lambda>_. 7) ref_api [Cont DBUS_TYPE_ARRAY ''u'' [Basic (BUint32 5)]] = throw DecoderError"
  using wchars_decode_safe [OF ref.dbus_iter_axioms, of "[Cont DBUS_TYPE_ARRAY ''u'' [Basic (BUint32 5)]]" "\<lambda>_. 7"]
  by (auto simp: container_ok_def)

text \<open>
  The object an integer or enumeration type is read into has as many bytes as libdbus
  writes there, for every such type except enumerations whose underlying type is not four
  bytes wide.
\<close>

theorem pod_decode_width:
  assumes "deduces_pod k" and "dbus_type_code k = Some t"
  shows "wire_size t = sizeof_scalar k \<longleftrightarrow> (\<forall>n. k = Enumeration n \<longrightarrow> n = 4)"
  by (rule pod_sizes [OF assms])

theorem pod_decode_width_witness:
  "wire_size DBUS_TYPE_INT16 = sizeof_scalar Int16 \<and> wire_size DBUS_TYPE_INT32 \<noteq> sizeof_scalar (Enumeration 1)"
  using pod_decode_width [of Int16 DBUS_TYPE_INT16] pod_decode_width [of "Enumeration 1" DBUS_TYPE_INT32]
  by (simp add: deduces_pod_def isPod_def pod_types_def dbus_type_code_def EnumTypeCodeHelper_def)

section \<open>Names and errors\<close>

text \<open>
  \<open>Error\<close> packs its name and message into one block: the copy never leaves the block it
  allocates, whatever the lengths, and name, message and serial read back as they were
  given (a missing message as the empty string).
\<close>

theorem error_members:
  "\<exists>e'. set_members junk name msg serial e = Some e' \<and>
    Error_name e' = Some (c_str name) \<and>
    Error_message e' = (case msg of None \<Rightarrow> [] | Some m \<Rightarrow> c_str m) \<and> err_serial e' = serial"
  by (rule set_members_ok)

text \<open>
  The interfaces of a stub or skeleton are read out of the demangled type list: for
  every non-empty list of nested names with balanced template arguments, the parser
  terminates inside the string and gives each name with dots for the double colons, in order.
\<close>

theorem interface_names:
  assumes "is \<noteq> []" and "list_all iface_ok is"
  shows "extract_interfaces (demangled is) = Some (map (\<lambda>i. join ''.'' (fst i)) is)"
  by (rule extract_demangled [OF assms])

theorem interface_names_witness:
  "extract_interfaces ''simppl::make_typelist<a::B<X<int> >, c::d::E<Y> >'' = Some [''a.B'', ''c.d.E'']"
  using interface_names [of "[([''a'', ''B''], ''X<int> ''), ([''c'', ''d'', ''E''], ''Y'')]"]
  by (simp add: iface_ok_def demangled_def typelist_prefix_def cpp_identifier_def NUL_def isspace_def)

text \<open>
  The object path of an interface and role is \<open>/a/b/Iface/role\<close>, written inside its
  block, and the bus name the skeleton requests is the one a stub of the same interface and
  role talks to.
\<close>

theorem objectpath_and_busname:
  "\<exists>p b. create_objectpath junk iface role = Some p \<and> create_busname junk iface role = Some b \<and>
     c_str p = ''/'' @ slashed (c_str iface) @ ''/'' @ slashed (c_str role) \<and>
     c_str b = stub_busname iface role"
  using objectpath_text [of junk iface role] busname_text [of junk iface role] by auto

text \<open>
  The name an exception type gets on the bus: \<open>make_error_name\<close> rewrites the demangled
  name \<open>a::b::C\<close> in place, stays inside the buffer and leaves the C string \<open>a.b.C\<close>.
\<close>

theorem error_names:
  assumes "list_all cpp_identifier segs"
  shows "\<exists>str'. make_error_name (join ''::'' segs @ NUL # t) = Some str' \<and> c_str str' = join ''.'' segs"
  by (rule make_error_name_dots [OF assms])

theorem error_names_witness:
  "\<exists>str'. make_error_name (''a::B'' @ [NUL]) = Some str' \<and> c_str str' = ''a.B''"
  using error_names [of "[''a'', ''B'']" "[]"] by (simp add: cpp_identifier_def NUL_def isspace_def)

end
